(* ===== verification/FX_Prelude.thy ===== *)
theory FX_Prelude
  imports Complex_Main "HOL-Library.Multiset" "HOL-Library.AList"
begin

text \<open>
  Shared vocabulary of the development: the parts of JavaScript's standard library that the
  modelled code uses, each as an executable HOL function, with the laws the components rely on.

  \<^item> \<open>js_round\<close> is \<open>Math.round\<close>, rounding halves towards plus infinity.
  \<^item> \<open>js_sort\<close> is \<open>Array.prototype.sort\<close>, which is stable; a comparator is a numeric function
    whose sign decides. The locale \<open>comparator\<close> is the contract a comparator has to honour for
    \<open>sort\<close> to mean anything, and the sorting lemmas are proved in it once.
  \<^item> \<open>js_or\<close> is the \<open>c1 || c2\<close> idiom (or a chain of early returns) that combines comparators.
  \<^item> A \<open>Map\<close> is an association list in insertion order: \<open>AList.update\<close> is \<open>set\<close> (in place when
    the key is present, appended otherwise), \<open>AList.delete\<close> is \<open>delete\<close>, \<open>map_of\<close> is \<open>get\<close>.
  \<^item> \<open>show_nat\<close> is number-to-string conversion for non-negative integers.

  Numbers that the code keeps integral are \<open>int\<close> or \<open>nat\<close>, other numbers are \<open>rat\<close>.
\<close>

named_theorems comparator_intros \<open>introduction rules for the comparator contract\<close>

section \<open>Numbers\<close>

definition js_round :: "rat \<Rightarrow> int" where
  "js_round x = \<lfloor>x + 1 / 2\<rfloor>"

fun show_nat :: "nat \<Rightarrow> string" where
  "show_nat n = (if n < 10 then [char_of (48 + n)]
                 else show_nat (n div 10) @ [char_of (48 + n mod 10)])"

declare show_nat.simps [simp del]

section \<open>Results\<close>

text \<open>
  Code that may throw returns \<open>'e + 'a\<close> with \<open>Inl\<close> for the exception. \<open>res_bind\<close> sequences two such
  computations, \<open>res_map\<close> is \<open>map\<close> with a callback that may throw.
\<close>

definition res_bind :: "'e + 'a \<Rightarrow> ('a \<Rightarrow> 'e + 'b) \<Rightarrow> 'e + 'b" where
  "res_bind r f = (case r of Inl e \<Rightarrow> Inl e | Inr a \<Rightarrow> f a)"

fun res_map :: "('a \<Rightarrow> 'e + 'b) \<Rightarrow> 'a list \<Rightarrow> 'e + 'b list" where
  "res_map f [] = Inr []"
| "res_map f (x # xs) = res_bind (f x) (\<lambda>y. res_bind (res_map f xs) (\<lambda>ys. Inr (y # ys)))"

section \<open>Arrays\<close>

text \<open>\<open>xs.slice(from, to)\<close> for non-negative bounds.\<close>

definition js_slice :: "nat \<Rightarrow> nat \<Rightarrow> 'a list \<Rightarrow> 'a list" where
  "js_slice i j xs = take (j - i) (drop i xs)"

text \<open>\<open>xs.splice(i, 1)\<close>, as the array that remains.\<close>

definition remove_at :: "nat \<Rightarrow> 'a list \<Rightarrow> 'a list" where
  "remove_at i xs = take i xs @ drop (Suc i) xs"

text \<open>\<open>xs.findIndex(p)\<close>, with \<open>None\<close> for \<open>-1\<close>.\<close>

fun find_idx :: "('a \<Rightarrow> bool) \<Rightarrow> 'a list \<Rightarrow> nat option" where
  "find_idx P [] = None"
| "find_idx P (x # xs) = (if P x then Some 0 else map_option Suc (find_idx P xs))"

text \<open>\<open>[...new Set(xs)]\<close>: the first occurrence of each element, in order.\<close>

definition js_unique :: "'a list \<Rightarrow> 'a list" where
  "js_unique xs = rev (remdups (rev xs))"

section \<open>Maps built by loops\<close>

text \<open>\<open>new Map(entries)\<close>, or a loop of \<open>set\<close> calls: a later entry replaces an earlier one.\<close>

definition js_map :: "('k \<times> 'v) list \<Rightarrow> ('k \<times> 'v) list" where
  "js_map kvs = foldl (\<lambda>m (k, v). AList.update k v m) [] kvs"

text \<open>The counting loop \<open>m.set(k, (m.get(k) || 0) + 1)\<close>.\<close>

definition tally_step :: "('k \<times> nat) list \<Rightarrow> 'k \<Rightarrow> ('k \<times> nat) list" where
  "tally_step m k = AList.update k (case map_of m k of None \<Rightarrow> 1 | Some n \<Rightarrow> Suc n) m"

definition tally :: "'k list \<Rightarrow> ('k \<times> nat) list" where
  "tally ks = foldl tally_step [] ks"

text \<open>The grouping loop \<open>group = m.get(k) ?? []; group.push(x); m.set(k, group)\<close>.\<close>

definition group_step :: "('a \<Rightarrow> 'k) \<Rightarrow> ('k \<times> 'a list) list \<Rightarrow> 'a \<Rightarrow> ('k \<times> 'a list) list" where
  "group_step f m x = AList.update (f x) ((case map_of m (f x) of None \<Rightarrow> [] | Some g \<Rightarrow> g) @ [x]) m"

definition group_by :: "('a \<Rightarrow> 'k) \<Rightarrow> 'a list \<Rightarrow> ('k \<times> 'a list) list" where
  "group_by f xs = foldl (group_step f) [] xs"

section \<open>Comparators and sorting\<close>

type_synonym 'a cmp = "'a \<Rightarrow> 'a \<Rightarrow> rat"

fun js_insert :: "'a cmp \<Rightarrow> 'a \<Rightarrow> 'a list \<Rightarrow> 'a list" where
  "js_insert c x [] = [x]"
| "js_insert c x (y # ys) = (if c x y \<le> 0 then x # y # ys else y # js_insert c x ys)"

definition js_sort :: "'a cmp \<Rightarrow> 'a list \<Rightarrow> 'a list" where
  "js_sort c xs = foldr (js_insert c) xs []"

definition js_or :: "'a cmp \<Rightarrow> 'a cmp \<Rightarrow> 'a cmp" where
  "js_or c d a b = (if c a b \<noteq> 0 then c a b else d a b)"

text \<open>\<open>(a, b) => f(a) - f(b)\<close> and \<open>(a, b) => f(b) - f(a)\<close>.\<close>

definition asc :: "('a \<Rightarrow> rat) \<Rightarrow> 'a cmp" where
  "asc f a b = f a - f b"

definition desc :: "('a \<Rightarrow> rat) \<Rightarrow> 'a cmp" where
  "desc f a b = f b - f a"

section \<open>Laws of results\<close>

lemma res_bind_simps [simp]: "res_bind (Inl e) f = Inl e" "res_bind (Inr a) f = f a"
  by (simp_all add: res_bind_def)

lemma res_bind_Inr_iff [simp]: "res_bind r f = Inr b \<longleftrightarrow> (\<exists>a. r = Inr a \<and> f a = Inr b)"
  by (cases r) simp_all

lemma res_map_Inr_iff: "res_map f xs = Inr ys \<longleftrightarrow> list_all2 (\<lambda>x y. f x = Inr y) xs ys"
  by (induction xs arbitrary: ys) (auto simp: list_all2_Cons1)

section \<open>Laws of arrays\<close>

lemma find_idx_SomeD: "find_idx P xs = Some i \<Longrightarrow> i < length xs \<and> P (xs ! i) \<and> (\<forall>j < i. \<not> P (xs ! j))"
proof (induction xs arbitrary: i)
  case (Cons x xs)
  show ?case
  proof (cases "P x")
    case False
    with Cons.prems obtain k where "find_idx P xs = Some k" "i = Suc k" by auto
    with Cons.IH [of k] False show ?thesis by (auto simp: less_Suc_eq_0_disj)
  qed (use Cons.prems in auto)
qed simp

lemma find_idx_None_iff: "find_idx P xs = None \<longleftrightarrow> (\<forall>x \<in> set xs. \<not> P x)"
  by (induction xs) auto

lemma js_round_of_int [simp]: "js_round (of_int n) = n"
  unfolding js_round_def by linarith

lemma mset_remove_at: "i < length xs \<Longrightarrow> mset (remove_at i xs) = mset xs - {#xs ! i#}"
  by (subst (2) id_take_nth_drop [of i xs]) (simp_all add: remove_at_def)

lemma length_remove_at [simp]: "i < length xs \<Longrightarrow> length (remove_at i xs) = length xs - 1"
  by (simp add: remove_at_def)

lemma set_remove_at: "set (remove_at i xs) \<subseteq> set xs"
  by (auto simp: remove_at_def dest: in_set_takeD in_set_dropD)

lemma distinct_map_remove_at: "distinct (map f xs) \<Longrightarrow> distinct (map f (remove_at i xs))"
  unfolding remove_at_def map_append take_map [symmetric] drop_map [symmetric]
  by (simp add: distinct_append set_take_disj_set_drop_if_distinct)

lemma set_js_unique [simp]: "set (js_unique xs) = set xs"
  by (simp add: js_unique_def)

lemma distinct_js_unique [simp]: "distinct (js_unique xs)"
  by (simp add: js_unique_def)

lemma length_js_unique_iff: "length (js_unique xs) = length xs \<longleftrightarrow> distinct xs"
  by (metis distinct_card distinct_js_unique card_distinct set_js_unique)

lemma js_unique_Nil_iff [simp]: "js_unique xs = [] \<longleftrightarrow> xs = []"
  by (simp add: js_unique_def)

lemma find_app: "find P (xs @ ys) = (case find P xs of None \<Rightarrow> find P ys | Some x \<Rightarrow> Some x)"
  by (induction xs) auto

lemma find_unique: "distinct (map f xs) \<Longrightarrow> x \<in> set xs \<Longrightarrow> find (\<lambda>y. f y = f x) xs = Some x"
  by (induction xs) auto

lemma find_SomeD: "find P xs = Some x \<Longrightarrow> x \<in> set xs \<and> P x"
  by (metis find_Some_iff nth_mem)

text \<open>Invariants of counting loops.\<close>

lemma foldl_upt_invariant:
  assumes "I 0 s" and "\<And>i s. i < n \<Longrightarrow> I i s \<Longrightarrow> I (Suc i) (f s i)"
  shows "I n (foldl f s [0..<n])"
  using assms(2)
proof (induction n)
  case 0
  then show ?case using assms(1) by simp
next
  case (Suc n)
  then show ?case by simp
qed

lemma count_list_update:
  "i < length xs \<Longrightarrow>
     int (count_list (xs[i := y]) p) = int (count_list xs p) - (if xs ! i = p then 1 else 0) + (if y = p then 1 else 0)"
proof (induction xs arbitrary: i)
  case (Cons x xs)
  show ?case
  proof (cases i)
    case (Suc n)
    with Cons.IH [of n] Cons.prems show ?thesis by (auto split: if_splits)
  qed auto
qed simp

lemma map_update_same: "i < length xs \<Longrightarrow> f y = f (xs ! i) \<Longrightarrow> map f (xs[i := y]) = map f xs"
  by (metis list_update_id map_update)

lemma sum_list_update_int:
  "i < length xs \<Longrightarrow> sum_list (xs[i := y]) = sum_list xs - xs ! i + (y :: int)"
proof (induction xs arbitrary: i)
  case (Cons x xs)
  then show ?case by (cases i) auto
qed simp

lemma sum_map_update_int:
  "i < length xs \<Longrightarrow> (\<Sum>x\<leftarrow>xs[i := y]. f x) = (\<Sum>x\<leftarrow>xs. f x) - f (xs ! i) + (f y :: int)"
  by (simp add: map_update sum_list_update_int)

lemma sum_list_filter_if: "(\<Sum>x\<leftarrow>filter P xs. f x) = (\<Sum>x\<leftarrow>xs. if P x then f x else (0 :: int))"
  by (induction xs) auto

lemma sum_list_map_add:
  "(\<Sum>x\<leftarrow>xs. f x + g x) = (\<Sum>x\<leftarrow>xs. f x) + (\<Sum>x\<leftarrow>xs. g x :: 'b::comm_monoid_add)"
  by (induction xs) (simp_all add: ac_simps)

lemma sum_list_filter_split:
  "(\<Sum>x\<leftarrow>filter P xs. f x) + (\<Sum>x\<leftarrow>filter (\<lambda>x. \<not> P x) xs. f x)
     = (\<Sum>x\<leftarrow>xs. f x :: 'b::comm_monoid_add)"
  by (induction xs) (simp_all add: ac_simps)

lemma length_filter_split:
  "length (filter P xs) + length (filter (\<lambda>x. \<not> P x) xs) = length xs"
  by (induction xs) simp_all

section \<open>Laws of maps\<close>

lemma map_of_update [simp]: "map_of (AList.update k v al) k' = (if k' = k then Some v else map_of al k')"
  by (simp add: AList.update_conv')

lemma map_of_del [simp]: "map_of (AList.delete k al) k' = (if k' = k then None else map_of al k')"
  by (simp add: AList.delete_conv')

lemma length_update:
  "length (AList.update k v al) = (if k \<in> fst ` set al then length al else Suc (length al))"
  by (induction al) auto

lemma map_of_eq_None_keys: "map_of al k = None \<longleftrightarrow> k \<notin> set (map fst al)"
  by (simp add: map_of_eq_None_iff)

lemma map_of_js_map: "map_of (js_map kvs) k = map_of (rev kvs) k"
proof -
  have "map_of (foldl (\<lambda>m (k, v). AList.update k v m) m kvs) k
      = (case map_of (rev kvs) k of None \<Rightarrow> map_of m k | Some v \<Rightarrow> Some v)" for m
    by (induction kvs arbitrary: m) (auto simp: map_add_def split: option.splits)
  from this [of "[]"] show ?thesis by (simp add: js_map_def split: option.splits)
qed

lemma map_of_rev_distinct: "distinct (map fst kvs) \<Longrightarrow> map_of (rev kvs) k = map_of kvs k"
  using map_of_inject_set [of "rev kvs" kvs] by (simp add: rev_map [symmetric])

lemma map_of_js_map_distinct: "distinct (map fst kvs) \<Longrightarrow> map_of (js_map kvs) = map_of kvs"
  by (rule ext) (auto simp: map_of_js_map map_of_rev_distinct)

lemma update_new_key: "k \<notin> fst ` set al \<Longrightarrow> AList.update k v al = al @ [(k, v)]"
  by (induction al) auto

lemma js_map_distinct_id: "distinct (map fst kvs) \<Longrightarrow> js_map kvs = kvs"
proof (induction kvs rule: rev_induct)
  case (snoc kv kvs)
  obtain k v where kv: "kv = (k, v)" by (cases kv)
  have "js_map (kvs @ [kv]) = AList.update k v (js_map kvs)" by (simp add: js_map_def kv)
  also have "\<dots> = AList.update k v kvs" using snoc by simp
  also have "\<dots> = kvs @ [(k, v)]"
    using snoc.prems kv by (intro update_new_key) auto
  finally show ?case by (simp add: kv)
qed (simp add: js_map_def)

lemma distinct_js_map [simp]: "distinct (map fst (js_map kvs))"
proof -
  have "distinct (map fst m) \<Longrightarrow> distinct (map fst (foldl (\<lambda>m (k, v). AList.update k v m) m kvs))" for m
    by (induction kvs arbitrary: m) (auto simp: AList.distinct_update)
  then show ?thesis by (simp add: js_map_def)
qed

lemma map_of_tally: "map_of (tally ks) k = (if k \<in> set ks then Some (count_list ks k) else None)"
proof -
  have "map_of (foldl tally_step m ks) k
      = (if k \<in> set ks then Some (count_list ks k + (case map_of m k of None \<Rightarrow> 0 | Some n \<Rightarrow> n))
         else map_of m k)" for m
    by (induction ks arbitrary: m) (auto simp: tally_step_def count_list_0_iff split: option.splits)
  from this [of "[]"] show ?thesis by (simp add: tally_def)
qed

lemma distinct_tally [simp]: "distinct (map fst (tally ks))"
proof -
  have "distinct (map fst m) \<Longrightarrow> distinct (map fst (foldl tally_step m ks))" for m
    by (induction ks arbitrary: m) (auto simp: tally_step_def AList.distinct_update)
  then show ?thesis by (simp add: tally_def)
qed

lemma tally_entry: "(k, n) \<in> set (tally ks) \<longleftrightarrow> k \<in> set ks \<and> n = count_list ks k"
  using map_of_tally [of ks k] map_of_eq_Some_iff [OF distinct_tally [of ks], of k n]
  by (auto split: if_splits)

section \<open>Laws of sorting\<close>

lemma map_of_group_by:
  "map_of (group_by f xs) k = (if k \<in> f ` set xs then Some (filter (\<lambda>x. f x = k) xs) else None)"
proof (induction xs rule: rev_induct)
  case (snoc x xs)
  have "group_by f (xs @ [x]) = group_step f (group_by f xs) x" by (simp add: group_by_def)
  moreover have "f x \<notin> f ` set xs \<Longrightarrow> filter (\<lambda>y. f y = f x) xs = []"
    by (rule filter_False) (metis imageI)
  ultimately show ?case using snoc by (auto simp: group_step_def)
qed (simp add: group_by_def)

lemma distinct_group_by [simp]: "distinct (map fst (group_by f xs))"
proof (induction xs rule: rev_induct)
  case (snoc x xs)
  then show ?case by (simp add: group_by_def group_step_def AList.distinct_update)
qed (simp add: group_by_def)

lemma group_by_entry: "(k, g) \<in> set (group_by f xs) \<longleftrightarrow> k \<in> f ` set xs \<and> g = filter (\<lambda>x. f x = k) xs"
  using map_of_eq_Some_iff [OF distinct_group_by, of f xs k g] by (auto simp: map_of_group_by split: if_splits)

lemma mset_js_insert [simp]: "mset (js_insert c x xs) = add_mset x (mset xs)"
  by (induction xs) auto

lemma js_sort_Nil [simp]: "js_sort c [] = []"
  by (simp add: js_sort_def)

lemma js_sort_Cons: "js_sort c (x # xs) = js_insert c x (js_sort c xs)"
  by (simp add: js_sort_def)

lemma mset_js_sort [simp]: "mset (js_sort c xs) = mset xs"
  by (induction xs) (simp_all add: js_sort_Cons)

lemma set_js_sort [simp]: "set (js_sort c xs) = set xs"
  by (metis mset_js_sort set_mset_mset)

lemma length_js_sort [simp]: "length (js_sort c xs) = length xs"
  by (metis mset_js_sort size_mset)

lemma distinct_js_sort [simp]: "distinct (js_sort c xs) \<longleftrightarrow> distinct xs"
  by (metis mset_js_sort mset_eq_imp_distinct_iff)

lemma sum_list_js_sort [simp]:
  "(\<Sum>x\<leftarrow>js_sort c xs. f x :: 'b::comm_monoid_add) = (\<Sum>x\<leftarrow>xs. f x)"
  by (metis mset_js_sort mset_map sum_mset_sum_list)

lemma length_filter_js_sort [simp]: "length (filter P (js_sort c xs)) = length (filter P xs)"
  by (metis mset_filter mset_js_sort size_mset)

lemma set_js_insert [simp]: "set (js_insert c x xs) = insert x (set xs)"
  by (metis mset_js_insert set_mset_add_mset_insert set_mset_mset)

text \<open>
  The contract of a comparator: swapping the arguments flips the sign, and not being after is
  transitive. ECMAScript leaves the result of \<open>sort\<close> implementation-defined without it.
\<close>

locale comparator =
  fixes c :: "'a cmp"
  assumes cmp_anti: "sgn (c y x) = - sgn (c x y)"
    and cmp_trans: "c x y \<le> 0 \<Longrightarrow> c y z \<le> 0 \<Longrightarrow> c x z \<le> 0"
begin

lemma cmp_refl [simp]: "c x x = 0"
  using cmp_anti [of x x] by (simp add: sgn_if split: if_splits)

lemma cmp_total: "c x y \<le> 0 \<or> c y x \<le> 0"
  using cmp_anti [of x y] by (auto simp: sgn_if split: if_splits)

lemma cmp_flip: "\<not> c x y \<le> 0 \<Longrightarrow> c y x \<le> 0"
  using cmp_total by blast

lemma cmp_zero_iff: "c x y = 0 \<longleftrightarrow> c x y \<le> 0 \<and> c y x \<le> 0"
  using cmp_anti [of x y] by (auto simp: sgn_if split: if_splits)

lemma sorted_js_insert:
  "sorted_wrt (\<lambda>x y. c x y \<le> 0) xs \<Longrightarrow> sorted_wrt (\<lambda>x y. c x y \<le> 0) (js_insert c x xs)"
  by (induction xs) (auto intro: cmp_trans cmp_flip)

lemma sorted_js_sort: "sorted_wrt (\<lambda>x y. c x y \<le> 0) (js_sort c xs)"
  by (induction xs) (simp_all add: js_sort_Cons sorted_js_insert)

lemma js_insert_sorted:
  "\<forall>y \<in> set xs. c x y \<le> 0 \<Longrightarrow> js_insert c x xs = x # xs"
  by (cases xs) simp_all

text \<open>A sorted array is left as it is.\<close>

lemma js_sort_id: "sorted_wrt (\<lambda>x y. c x y \<le> 0) xs \<Longrightarrow> js_sort c xs = xs"
  by (induction xs) (simp_all add: js_sort_Cons js_insert_sorted)

text \<open>Stability: elements that compare equal keep their order.\<close>

lemma filter_js_insert:
  "filter (\<lambda>y. c a y = 0) (js_insert c x xs) =
     (if c a x = 0 then x # filter (\<lambda>y. c a y = 0) xs else filter (\<lambda>y. c a y = 0) xs)"
proof (induction xs)
  case Nil
  then show ?case by simp
next
  case (Cons y ys)
  have "\<not> c a y = 0" if "c a x = 0" and "\<not> c x y \<le> 0"
  proof
    assume "c a y = 0"
    then have "c x a \<le> 0" and "c a y \<le> 0"
      using that(1) cmp_zero_iff [of a x] by simp_all
    with that(2) cmp_trans show False by blast
  qed
  with Cons show ?case by auto
qed

lemma js_sort_stable: "filter (\<lambda>y. c a y = 0) (js_sort c xs) = filter (\<lambda>y. c a y = 0) xs"
  by (induction xs) (simp_all add: js_sort_Cons filter_js_insert)

text \<open>
  Where the comparator separates the elements of the array, the result does not depend on the
  order in which they came.
\<close>

lemma js_sort_unique:
  assumes "mset xs = mset ys"
    and "\<And>x y. x \<in> set xs \<Longrightarrow> y \<in> set xs \<Longrightarrow> c x y = 0 \<Longrightarrow> x = y"
  shows "js_sort c xs = js_sort c ys"
proof -
  have unique: "us = vs"
    if "sorted_wrt (\<lambda>x y. c x y \<le> 0) us" and "sorted_wrt (\<lambda>x y. c x y \<le> 0) vs"
      and "mset us = mset vs" and "set us \<subseteq> set xs" for us vs
    using that
  proof (induction us arbitrary: vs)
    case Nil
    then show ?case by simp
  next
    case (Cons u us)
    then obtain v vs' where vs: "vs = v # vs'" by (cases vs) auto
    have "u \<in> set vs" and "v \<in> set (u # us)"
      using Cons.prems(3) vs by (metis list.set_intros(1) set_mset_mset)+
    then have "c u v \<le> 0" and "c v u \<le> 0"
      using Cons.prems(1,2) vs by auto
    moreover have "u \<in> set xs" and "v \<in> set xs"
      using Cons.prems(4) \<open>v \<in> set (u # us)\<close> by auto
    ultimately have "u = v" using assms(2) cmp_zero_iff by blast
    with Cons vs show ?case by simp
  qed
  have "mset (js_sort c xs) = mset (js_sort c ys)"
    by (simp add: assms(1))
  with sorted_js_sort [of xs] sorted_js_sort [of ys] show ?thesis
    using unique [of "js_sort c xs" "js_sort c ys"] by simp
qed

end

text \<open>The comparators the code writes are built from numeric keys by \<open>js_or\<close>.\<close>

lemma comparator_asc [comparator_intros]: "comparator (asc f)"
  by unfold_locales (auto simp: asc_def sgn_if)

lemma comparator_desc [comparator_intros]: "comparator (desc f)"
  by unfold_locales (auto simp: desc_def sgn_if)

lemma comparator_js_or [comparator_intros]:
  assumes c: "comparator c" and d: "comparator d"
  shows "comparator (js_or c d)"
proof
  fix x y
  show "sgn (js_or c d y x) = - sgn (js_or c d x y)"
    using comparator.cmp_anti [OF c, of x y] comparator.cmp_anti [OF d, of x y]
    by (auto simp: js_or_def sgn_if split: if_splits)
next
  fix x y z
  assume xy: "js_or c d x y \<le> 0" and yz: "js_or c d y z \<le> 0"
  have le: "c x y \<le> 0" "c y z \<le> 0"
    using xy yz by (auto simp: js_or_def split: if_splits)
  then have xz: "c x z \<le> 0" using comparator.cmp_trans [OF c] by blast
  show "js_or c d x z \<le> 0"
  proof (cases "c x z = 0")
    case False
    with xz show ?thesis by (simp add: js_or_def)
  next
    case True
    then have zx: "c z x \<le> 0" using comparator.cmp_zero_iff [OF c] by blast
    have "c y x \<le> 0" "c z y \<le> 0"
      using le zx comparator.cmp_trans [OF c] by blast+
    with le have "c x y = 0" "c y z = 0" using comparator.cmp_zero_iff [OF c] by blast+
    with xy yz have "d x y \<le> 0" "d y z \<le> 0" by (simp_all add: js_or_def)
    with True show ?thesis using comparator.cmp_trans [OF d] by (simp add: js_or_def)
  qed
qed

lemma js_or_zero_iff: "js_or c d a b = 0 \<longleftrightarrow> c a b = 0 \<and> d a b = 0"
  by (simp add: js_or_def)

lemma asc_zero_iff: "asc f a b = 0 \<longleftrightarrow> f a = f b"
  by (auto simp: asc_def)

lemma desc_zero_iff: "desc f a b = 0 \<longleftrightarrow> f a = f b"
  by (auto simp: desc_def)

lemmas cmp_zero_simps = js_or_zero_iff asc_zero_iff desc_zero_iff

end
