(* ===== verification/Prizes.thy ===== *)
theory Prizes
  imports FX_Prelude
begin

text \<open>
  The prize calculator, \<open>backend/src/services/league/prizeService.ts\<close>: presets, basis-point
  splits, the platform fee and the payouts in cents, and the encoding of an exact payout list as
  on-chain basis points.

  Amounts that arrive as \<open>number\<close> are \<open>rat option\<close>, \<open>None\<close> standing for the values
  \<open>Number.isFinite\<close> rejects; the splits and payouts the service computes are \<open>int option\<close>, where
  \<open>None\<close> is a \<open>NaN\<close> or an infinity produced by a division by zero. Cent amounts stay below
  \<open>2 ^ 53 / 10000\<close>, where the double quotients the code floors have the exact integer part.
\<close>

section \<open>Data\<close>

datatype prize_preset = Standard | WinnerTakesAll | TopFive | Custom

datatype prize_error =
    UnknownPreset
  | SplitsInvalid
  | CustomSplitsRequired
  | NegativeInput
  | PayoutsNotPool
  | NotRepresentable

record prize_options =
  opt_preset :: "string option"
  opt_customSplitsBps :: "rat option list option"

record prize_distribution =
  pd_participantCount :: int
  pd_entryFee :: rat
  pd_grossTotal :: rat
  pd_platformFee :: rat
  pd_prizePool :: rat
  pd_first :: "rat option"
  pd_second :: "rat option"
  pd_third :: "rat option"
  pd_payouts :: "rat option list"
  pd_splitsBps :: "int option list"

definition PLATFORM_FEE_PERCENT :: int where
  "PLATFORM_FEE_PERCENT = 5"

definition STANDARD_SPLITS_BPS :: "int list" where
  "STANDARD_SPLITS_BPS = [6000, 3000, 1000]"

definition TWO_PLAYER_SPLITS_BPS :: "int list" where
  "TWO_PLAYER_SPLITS_BPS = [7000, 3000]"

definition TOP_FIVE_SPLITS_BPS :: "int list" where
  "TOP_FIVE_SPLITS_BPS = [4500, 2500, 1500, 1000, 500]"

section \<open>Operations\<close>

definition parsePreset :: "string \<Rightarrow> prize_error + prize_preset" where
  "parsePreset v =
     (if v = ''standard'' then Inr Standard
      else if v = ''winner-takes-all'' then Inr WinnerTakesAll
      else if v = ''top-five'' then Inr TopFive
      else if v = ''custom'' then Inr Custom
      else Inl UnknownPreset)"

text \<open>Sums over arrays that may hold a non-finite number.\<close>

definition nan_sum :: "int option list \<Rightarrow> int option" where
  "nan_sum xs = map_option sum_list (those xs)"

definition nan_minus :: "int \<Rightarrow> int option \<Rightarrow> int option" where
  "nan_minus a b = map_option (\<lambda>y. a - y) b"

text \<open>
  \<open>Math.floor(v * 10_000 / weight)\<close>: not a finite number when the weight is zero.
\<close>

definition scale_bps :: "int option \<Rightarrow> int option \<Rightarrow> int option" where
  "scale_bps weight v =
     (case (v, weight) of
        (Some a, Some w) \<Rightarrow> if w = 0 then None else Some (a * 10000 div w)
      | _ \<Rightarrow> None)"

text \<open>\<open>Math.floor(prizePoolCents * basisPoints / 10_000)\<close>.\<close>

definition share_cents :: "int \<Rightarrow> int option \<Rightarrow> int option" where
  "share_cents pool b = map_option (\<lambda>b. pool * b div 10000) b"

text \<open>
  The \<open>map\<close> the source writes three times: every entry but the last is \<open>f\<close> of its element, the
  last is the total less the \<open>f\<close> of all entries before it.
\<close>

definition last_takes_rest :: "int \<Rightarrow> ('a \<Rightarrow> int option) \<Rightarrow> 'a list \<Rightarrow> int option list" where
  "last_takes_rest tot f xs =
     map (\<lambda>i. if i = length xs - 1
              then nan_minus tot (nan_sum (map f (js_slice 0 i xs)))
              else f (xs ! i)) [0..<length xs]"

definition scale_tiers :: "int option list \<Rightarrow> int option list" where
  "scale_tiers tiers = last_takes_rest 10000 (scale_bps (nan_sum tiers)) tiers"

definition payouts_cents :: "int \<Rightarrow> int option list \<Rightarrow> int option list" where
  "payouts_cents pool splits = last_takes_rest pool (share_cents pool) splits"

definition is_integer :: "rat option \<Rightarrow> bool" where
  "is_integer v = (case v of None \<Rightarrow> False | Some x \<Rightarrow> of_int \<lfloor>x\<rfloor> = x)"

definition validateSplits :: "rat option list \<Rightarrow> prize_error + int list" where
  "validateSplits splits =
     (if splits = [] \<or>
         list_ex (\<lambda>v. \<not> is_integer v \<or> the v < 0 \<or> the v > 10000) splits \<or>
         (\<Sum>v\<leftarrow>splits. the v) \<noteq> 10000
      then Inl SplitsInvalid
      else Inr (map (\<lambda>v. \<lfloor>the v\<rfloor>) splits))"

definition encodeSorobanDistribution :: "rat option list \<Rightarrow> prize_error + int list" where
  "encodeSorobanDistribution splits = validateSplits splits"

text \<open>The \<open>map\<close> callback of \<open>encodeSorobanPayoutAmounts\<close> with its running \<open>remainingBps\<close>.\<close>

fun encode_loop :: "int \<Rightarrow> int \<Rightarrow> int list \<Rightarrow> prize_error + int list" where
  "encode_loop pool remaining [] = Inr []"
| "encode_loop pool remaining [amount] = Inr [remaining]"
| "encode_loop pool remaining (amount # rest) =
     (let basisPoints = \<lceil>rat_of_int (amount * 10000) / rat_of_int pool\<rceil>;
          representedCents = pool * basisPoints div 10000
      in if representedCents \<noteq> amount \<or> basisPoints > remaining then Inl NotRepresentable
         else (case encode_loop pool (remaining - basisPoints) rest of
                 Inl e \<Rightarrow> Inl e
               | Inr bs \<Rightarrow> Inr (basisPoints # bs)))"

definition to_cents :: "rat \<Rightarrow> int" where
  "to_cents x = js_round (x * 100)"

definition encodeSorobanPayoutAmounts :: "rat list \<Rightarrow> rat \<Rightarrow> prize_error + int list" where
  "encodeSorobanPayoutAmounts payouts prizePool =
     (let poolCents = to_cents prizePool;
          payoutCents = map to_cents payouts
      in if poolCents \<le> 0 \<or> payoutCents = [] \<or> list_ex (\<lambda>a. a < 0) payoutCents \<or>
            sum_list payoutCents \<noteq> poolCents
         then Inl PayoutsNotPool
         else (case encode_loop poolCents 10000 payoutCents of
                 Inl e \<Rightarrow> Inl e
               | Inr encoded \<Rightarrow> validateSplits (map (\<lambda>b. Some (of_int b)) encoded)))"

text \<open>The choice of the splits by preset, before they are cut to the number of participants.\<close>

definition preset_splits :: "prize_options \<Rightarrow> int \<Rightarrow> prize_error + int option list" where
  "preset_splits opts cnt =
     (if opt_preset opts = Some ''custom'' then
        (case opt_customSplitsBps opts of
           None \<Rightarrow> Inl CustomSplitsRequired
         | Some s \<Rightarrow> (case validateSplits s of Inl e \<Rightarrow> Inl e | Inr b \<Rightarrow> Inr (map Some b)))
      else if opt_preset opts = Some ''winner-takes-all'' then Inr [Some 10000]
      else if opt_preset opts = Some ''top-five'' then
        Inr (scale_tiers (map Some (js_slice 0 (nat (min cnt 5)) TOP_FIVE_SPLITS_BPS)))
      else if opt_preset opts = None \<or> opt_preset opts = Some ''standard'' then
        Inr (map Some (if cnt = 1 then [10000]
                       else if cnt = 2 then TWO_PLAYER_SPLITS_BPS
                       else STANDARD_SPLITS_BPS))
      else Inl UnknownPreset)"

definition cut_splits :: "int \<Rightarrow> int option list \<Rightarrow> int option list" where
  "cut_splits cnt splits =
     (if cnt > 0 \<and> cnt < int (length splits)
      then scale_tiers (js_slice 0 (nat cnt) splits) else splits)"

definition cents_to_amount :: "int option \<Rightarrow> rat option" where
  "cents_to_amount c = map_option (\<lambda>v. of_int v / 100) c"

text \<open>\<open>payouts[i] ?? 0\<close>\<close>

definition nth_or_zero :: "rat option list \<Rightarrow> nat \<Rightarrow> rat option" where
  "nth_or_zero xs i = (if i < length xs then xs ! i else Some 0)"

definition calculatePrizeDistribution ::
  "rat option \<Rightarrow> rat option \<Rightarrow> prize_options \<Rightarrow> prize_error + prize_distribution" where
  "calculatePrizeDistribution participantCount entryFee opts =
     (case (participantCount, entryFee) of
        (Some pc, Some fee) \<Rightarrow>
          if pc < 0 \<or> fee < 0 then Inl NegativeInput
          else
            (let cnt = \<lfloor>pc\<rfloor>;
                 feeInCents = js_round (fee * 100);
                 grossCents = cnt * feeInCents;
                 platformFeeCents = js_round (of_int (grossCents * PLATFORM_FEE_PERCENT) / 100);
                 prizePoolCents = grossCents - platformFeeCents
             in case preset_splits opts cnt of
                  Inl e \<Rightarrow> Inl e
                | Inr s \<Rightarrow>
                    (let splits = cut_splits cnt s;
                         payouts = map cents_to_amount (payouts_cents prizePoolCents splits)
                     in Inr \<lparr>pd_participantCount = cnt,
                             pd_entryFee = of_int feeInCents / 100,
                             pd_grossTotal = of_int grossCents / 100,
                             pd_platformFee = of_int platformFeeCents / 100,
                             pd_prizePool = of_int prizePoolCents / 100,
                             pd_first = nth_or_zero payouts 0,
                             pd_second = nth_or_zero payouts 1,
                             pd_third = nth_or_zero payouts 2,
                             pd_payouts = payouts,
                             pd_splitsBps = splits\<rparr>))
      | _ \<Rightarrow> Inl NegativeInput)"

section \<open>Arrays whose last entry takes the rest\<close>

lemma those_map_Some [simp]: "those (map Some xs) = Some xs"
  by (induction xs) simp_all

lemma those_append:
  "those (xs @ ys) = (case (those xs, those ys) of (Some a, Some b) \<Rightarrow> Some (a @ b) | _ \<Rightarrow> None)"
  by (induction xs) (auto split: option.splits)

lemma nan_sum_Some [simp]: "nan_sum (map Some xs) = Some (sum_list xs)"
  by (simp add: nan_sum_def)

lemma nan_sum_map_Some [simp]: "nan_sum (map (\<lambda>x. Some (g x)) xs) = Some (sum_list (map g xs))"
  using nan_sum_Some [of "map g xs"] by (simp add: comp_def)

lemma last_takes_rest_snoc:
  "last_takes_rest tot f (xs @ [x]) = map f xs @ [nan_minus tot (nan_sum (map f xs))]"
  by (rule nth_equalityI) (auto simp: last_takes_rest_def js_slice_def nth_append less_Suc_eq)

lemma last_takes_rest_Nil [simp]: "last_takes_rest tot f [] = []"
  by (simp add: last_takes_rest_def)

lemma length_last_takes_rest [simp]: "length (last_takes_rest tot f xs) = length xs"
  by (simp add: last_takes_rest_def)

lemma last_takes_rest_finite:
  assumes "xs \<noteq> []" and "\<And>x. x \<in> set xs \<Longrightarrow> f x = Some (g x)"
  shows "last_takes_rest tot f xs
           = map Some (map g (butlast xs) @ [tot - sum_list (map g (butlast xs))])"
proof -
  from assms(1) obtain ys y where xs: "xs = ys @ [y]" by (meson rev_exhaust)
  have ys: "map f ys = map (\<lambda>x. Some (g x)) ys" using assms(2) xs by simp
  show ?thesis unfolding xs last_takes_rest_snoc ys by (simp add: nan_minus_def comp_def)
qed

text \<open>Whatever the shares are, the entries add up to the total: nothing is lost to rounding.\<close>

lemma last_takes_rest_sum:
  assumes "xs \<noteq> []" and "\<And>x. x \<in> set xs \<Longrightarrow> f x = Some (g x)"
  shows "nan_sum (last_takes_rest tot f xs) = Some tot"
proof -
  have "last_takes_rest tot f xs
          = map Some (map g (butlast xs) @ [tot - sum_list (map g (butlast xs))])"
    by (rule last_takes_rest_finite) (use assms in auto)
  then show ?thesis by (simp only: nan_sum_Some) simp
qed

lemma div_add_le: "0 < w \<Longrightarrow> (x::int) div w + y div w \<le> (x + y) div w"
proof -
  assume w: "0 < w"
  have "(x div w + y div w) * w \<le> x + y"
    using pos_mod_sign [OF w, of x] pos_mod_sign [OF w, of y]
      div_mult_mod_eq [of x w] div_mult_mod_eq [of y w]
    unfolding distrib_right by linarith
  then have "(x div w + y div w) * w div w \<le> (x + y) div w" using w by (rule zdiv_mono1)
  then show ?thesis using w by simp
qed

lemma sum_div_le: "0 < w \<Longrightarrow> (\<Sum>x\<leftarrow>xs. a * x div w) \<le> a * sum_list xs div (w::int)"
proof (induction xs)
  case Nil
  then show ?case by simp
next
  case (Cons x xs)
  then have "(\<Sum>x\<leftarrow>x # xs. a * x div w) \<le> a * x div w + a * sum_list xs div w" by simp
  also have "\<dots> \<le> (a * x + a * sum_list xs) div w" using Cons.prems by (rule div_add_le)
  finally show ?case by (simp add: distrib_left)
qed

lemma sum_butlast_le: "\<forall>x \<in> set xs. 0 \<le> x \<Longrightarrow> sum_list (butlast xs) \<le> sum_list (xs :: int list)"
  by (cases xs rule: rev_cases) (auto simp: sum_list_nonneg)

text \<open>Proportional shares of a non-negative total: no entry is negative.\<close>

lemma proportional_nonneg:
  assumes "0 \<le> tot" and "0 < w" and "\<forall>x \<in> set xs. 0 \<le> x" and "sum_list xs \<le> w"
  shows "\<forall>y \<in> set (map (\<lambda>x. tot * x div w) (butlast xs)
            @ [tot - (\<Sum>x\<leftarrow>butlast xs. tot * x div w)]). 0 \<le> (y::int)"
proof -
  have "(\<Sum>x\<leftarrow>butlast xs. tot * x div w) \<le> tot * sum_list (butlast xs) div w"
    by (rule sum_div_le [OF assms(2)])
  also have "\<dots> \<le> tot * w div w"
    using assms sum_butlast_le [OF assms(3)]
    by (intro zdiv_mono1 mult_left_mono) auto
  finally have "(\<Sum>x\<leftarrow>butlast xs. tot * x div w) \<le> tot" using assms(2) by simp
  then show ?thesis
    using assms by (auto simp: pos_imp_zdiv_nonneg_iff dest: in_set_butlastD)
qed

section \<open>Well-formed splits\<close>

text \<open>
  What a list of rank weights has to be for the payouts to make sense: finite, non-negative and,
  unless there is no rank at all, adding up to 10000 basis points.
\<close>

definition splits_wf :: "int option list \<Rightarrow> bool" where
  "splits_wf s \<longleftrightarrow> (\<exists>bs. s = map Some bs \<and> (\<forall>b \<in> set bs. 0 \<le> b) \<and> (bs = [] \<or> sum_list bs = 10000))"

text \<open>
  The one configuration that defeats the renormalisation: a custom split cut down to two or more
  ranks whose weights are all zero.
\<close>

definition zero_weight_cut :: "prize_options \<Rightarrow> int \<Rightarrow> bool" where
  "zero_weight_cut opts cnt \<longleftrightarrow>
     opt_preset opts = Some ''custom'' \<and>
     (case opt_customSplitsBps opts of
        None \<Rightarrow> False
      | Some s \<Rightarrow> 2 \<le> cnt \<and> cnt < int (length s) \<and> (\<Sum>v\<leftarrow>take (nat cnt) s. the v) = 0)"

lemma splits_wfI [intro]:
  "\<forall>b \<in> set bs. 0 \<le> b \<Longrightarrow> sum_list bs = 10000 \<Longrightarrow> splits_wf (map Some bs)"
  by (auto simp: splits_wf_def)

lemma scale_tiers_Nil_iff [simp]: "scale_tiers ts = [] \<longleftrightarrow> ts = []"
  by (simp add: scale_tiers_def last_takes_rest_def)

lemma scale_tiers_single [simp]: "scale_tiers [x] = [Some 10000]"
  by (simp add: scale_tiers_def last_takes_rest_def js_slice_def nan_minus_def nan_sum_def)

lemma scale_tiers_wf:
  assumes "\<forall>t \<in> set ts. 0 \<le> t" and "0 < sum_list ts"
  shows "splits_wf (scale_tiers (map Some ts))"
proof -
  let ?w = "sum_list ts"
  let ?g = "\<lambda>x. the x * 10000 div ?w"
  have ne: "ts \<noteq> []" using assms(2) by auto
  have "scale_tiers (map Some ts)
      = map Some (map ?g (butlast (map Some ts)) @ [10000 - sum_list (map ?g (butlast (map Some ts)))])"
    unfolding scale_tiers_def
    by (rule last_takes_rest_finite) (use ne assms(2) in \<open>auto simp: scale_bps_def\<close>)
  then have eq: "scale_tiers (map Some ts)
      = map Some (map (\<lambda>x. 10000 * x div ?w) (butlast ts) @ [10000 - (\<Sum>x\<leftarrow>butlast ts. 10000 * x div ?w)])"
    by (simp add: map_butlast [symmetric] comp_def mult.commute)
  have "\<forall>y \<in> set (map (\<lambda>x. 10000 * x div ?w) (butlast ts)
            @ [10000 - (\<Sum>x\<leftarrow>butlast ts. 10000 * x div ?w)]). 0 \<le> y"
    by (rule proportional_nonneg) (use assms in auto)
  then show ?thesis unfolding eq by (rule splits_wfI) simp
qed

lemma hd_scale_tiers_zero:
  assumes "2 \<le> length ts" and "sum_list ts = 0"
  shows "hd (scale_tiers (map Some ts)) = None"
  using assms by (cases ts) (auto simp: scale_tiers_def last_takes_rest_def scale_bps_def
        nan_sum_def upt_conv_Cons simp del: upt_Suc)

lemma validateSplits_ok:
  assumes "validateSplits s = Inr bs"
  shows "bs \<noteq> []" and "\<forall>b \<in> set bs. 0 \<le> b \<and> b \<le> 10000" and "sum_list bs = 10000"
    and "s = map (\<lambda>b. Some (of_int b)) bs"
proof -
  have ok: "s \<noteq> []" "\<And>v. v \<in> set s \<Longrightarrow> is_integer v \<and> 0 \<le> the v \<and> the v \<le> 10000"
      "(\<Sum>v\<leftarrow>s. the v) = 10000" and bs: "bs = map (\<lambda>v. \<lfloor>the v\<rfloor>) s"
    using assms by (auto simp: validateSplits_def list_ex_iff not_less split: if_splits)
  have int: "Some (of_int \<lfloor>the v\<rfloor>) = v" if "v \<in> set s" for v
    using ok(2) [OF that] by (auto simp: is_integer_def split: option.splits)
  show s: "s = map (\<lambda>b. Some (of_int b)) bs"
    unfolding bs by (simp add: comp_def int map_idI)
  show "bs \<noteq> []" using ok(1) bs by simp
  show "\<forall>b \<in> set bs. 0 \<le> b \<and> b \<le> 10000"
    using ok(2) unfolding bs by (auto simp: le_floor_iff floor_le_iff dest!: ok(2))
  have "(of_int (sum_list bs) :: rat) = (\<Sum>v\<leftarrow>s. the v)"
    unfolding s by (induction bs) simp_all
  with ok(3) show "sum_list bs = 10000" by linarith
qed

lemma preset_splits_wf: "preset_splits opts cnt = Inr s \<Longrightarrow> splits_wf s"
proof -
  assume a: "preset_splits opts cnt = Inr s"
  have tiers: "js_slice 0 k TOP_FIVE_SPLITS_BPS = [] \<or>
      (\<forall>t \<in> set (js_slice 0 k TOP_FIVE_SPLITS_BPS). 0 \<le> t) \<and> 0 < sum_list (js_slice 0 k TOP_FIVE_SPLITS_BPS)" for k
    by (auto simp: js_slice_def TOP_FIVE_SPLITS_BPS_def take_Cons split: nat.splits)
  have top: "splits_wf (scale_tiers (map Some (js_slice 0 k TOP_FIVE_SPLITS_BPS)))" for k
    using tiers [of k] scale_tiers_wf by (fastforce simp: splits_wf_def scale_tiers_def)
  from a show ?thesis
    unfolding preset_splits_def
    using validateSplits_ok(2,3) splits_wfI [of "[10000]"]
      splits_wfI [of STANDARD_SPLITS_BPS] splits_wfI [of TWO_PLAYER_SPLITS_BPS]
    by (auto simp: top STANDARD_SPLITS_BPS_def TWO_PLAYER_SPLITS_BPS_def
        split: if_splits option.splits sum.splits)
qed

lemma preset_splits_no_cut:
  assumes "preset_splits opts cnt = Inr s" and "opt_preset opts \<noteq> Some ''custom''" and "0 \<le> cnt"
  shows "cut_splits cnt s = s"
  using assms
  by (auto simp: preset_splits_def cut_splits_def scale_tiers_def js_slice_def STANDARD_SPLITS_BPS_def
      TWO_PLAYER_SPLITS_BPS_def TOP_FIVE_SPLITS_BPS_def split: if_splits)

lemma preset_splits_custom:
  assumes "preset_splits opts cnt = Inr s" and "opt_preset opts = Some ''custom''"
  shows "\<exists>bs. opt_customSplitsBps opts = Some (map (\<lambda>b. Some (of_int b)) bs) \<and> s = map Some bs \<and>
           (\<forall>b \<in> set bs. 0 \<le> b) \<and> sum_list bs = 10000"
  using assms validateSplits_ok
  by (fastforce simp: preset_splits_def split: option.splits sum.splits)

lemma sum_list_map_of_int: "(\<Sum>b\<leftarrow>bs. rat_of_int b) = of_int (sum_list bs)"
  by (induction bs) simp_all

lemma zero_weight_cut_custom:
  assumes "opt_preset opts = Some ''custom''"
    and "opt_customSplitsBps opts = Some (map (\<lambda>b. Some (of_int b)) bs)"
  shows "zero_weight_cut opts cnt \<longleftrightarrow>
           2 \<le> cnt \<and> cnt < int (length bs) \<and> sum_list (take (nat cnt) bs) = 0"
  using assms by (auto simp: zero_weight_cut_def take_map comp_def sum_list_map_of_int)

text \<open>The final splits are well-formed except in the zero-weight case, where they are not finite.\<close>

lemma cut_splits_cases:
  assumes "preset_splits opts cnt = Inr s" and "0 \<le> cnt"
  shows "if zero_weight_cut opts cnt then 2 \<le> length (cut_splits cnt s) \<and> hd (cut_splits cnt s) = None
         else splits_wf (cut_splits cnt s)"
proof (cases "opt_preset opts = Some ''custom''")
  case False
  then have "\<not> zero_weight_cut opts cnt" by (simp add: zero_weight_cut_def)
  with False show ?thesis
    using preset_splits_no_cut [OF assms(1) False assms(2)] preset_splits_wf [OF assms(1)] by simp
next
  case True
  obtain bs where opt: "opt_customSplitsBps opts = Some (map (\<lambda>b. Some (of_int b)) bs)"
    and s: "s = map Some bs" and nonneg: "\<forall>b \<in> set bs. 0 \<le> b" and sum: "sum_list bs = 10000"
    using preset_splits_custom [OF assms(1) True] by blast
  let ?ts = "take (nat cnt) bs"
  have ts: "\<forall>t \<in> set ?ts. 0 \<le> t" using nonneg by (auto dest: in_set_takeD)
  show ?thesis
  proof (cases "0 < cnt \<and> cnt < int (length bs)")
    case False
    then have "cut_splits cnt s = s" by (auto simp: cut_splits_def s)
    moreover have "\<not> zero_weight_cut opts cnt"
      using False zero_weight_cut_custom [OF True opt, of cnt] by linarith
    ultimately show ?thesis using preset_splits_wf [OF assms(1)] by simp
  next
    case cut: True
    then have eq: "cut_splits cnt s = scale_tiers (map Some ?ts)"
      by (simp add: cut_splits_def s js_slice_def take_map)
    have len: "length ?ts = nat cnt" using cut by auto
    have nn: "0 \<le> sum_list ?ts" by (rule sum_list_nonneg) (use ts in auto)
    consider "0 < sum_list ?ts" | "sum_list ?ts = 0" "cnt = 1" | "sum_list ?ts = 0" "2 \<le> cnt"
      using nn cut by linarith
    then show ?thesis
    proof cases
      case 1
      then show ?thesis
        using scale_tiers_wf [OF ts] zero_weight_cut_custom [OF True opt] by (auto simp: eq)
    next
      case 2
      then have "\<exists>t. ?ts = [t]" using cut by (cases bs) auto
      then have "cut_splits cnt s = [Some 10000]" by (auto simp: eq)
      then show ?thesis
        using 2 zero_weight_cut_custom [OF True opt] splits_wfI [of "[10000]"] by auto
    next
      case 3
      have "2 \<le> length ?ts" using 3 len by linarith
      with 3 show ?thesis
        using zero_weight_cut_custom [OF True opt] cut hd_scale_tiers_zero [of ?ts]
        by (auto simp: eq scale_tiers_def)
    qed
  qed
qed

lemma payouts_cents_Some:
  assumes "bs \<noteq> []"
  shows "payouts_cents pool (map Some bs)
           = map Some (map (\<lambda>b. pool * b div 10000) (butlast bs)
               @ [pool - (\<Sum>b\<leftarrow>butlast bs. pool * b div 10000)])"
proof -
  let ?g = "\<lambda>b. pool * the b div 10000 :: int"
  have "payouts_cents pool (map Some bs) = map Some (map ?g (butlast (map Some bs))
          @ [pool - sum_list (map ?g (butlast (map Some bs)))])"
    unfolding payouts_cents_def
    by (rule last_takes_rest_finite) (use assms in \<open>auto simp: share_cents_def\<close>)
  then show ?thesis by (simp add: map_butlast [symmetric] comp_def)
qed

lemma payouts_cents_wf:
  assumes "splits_wf s" and "0 \<le> pool" and "s = [] \<Longrightarrow> pool = 0"
  shows "nan_sum (payouts_cents pool s) = Some pool"
    and "\<forall>p \<in> set (payouts_cents pool s). \<exists>v\<ge>0. p = Some v"
proof -
  obtain bs where s: "s = map Some bs" and nonneg: "\<forall>b \<in> set bs. 0 \<le> b"
    and sum: "bs = [] \<or> sum_list bs = 10000"
    using assms(1) by (auto simp: splits_wf_def)
  have "nan_sum (payouts_cents pool s) = Some pool
      \<and> (\<forall>p \<in> set (payouts_cents pool s). \<exists>v\<ge>0. p = Some v)"
  proof (cases "bs = []")
    case True
    then show ?thesis using assms(3) by (simp add: s payouts_cents_def nan_sum_def)
  next
    case False
    have "\<forall>y \<in> set (map (\<lambda>b. pool * b div 10000) (butlast bs)
             @ [pool - (\<Sum>b\<leftarrow>butlast bs. pool * b div 10000)]). 0 \<le> y"
      by (rule proportional_nonneg) (use assms nonneg sum False in auto)
    then show ?thesis
      unfolding s payouts_cents_Some [OF False] nan_sum_Some by auto
  qed
  then show "nan_sum (payouts_cents pool s) = Some pool"
    and "\<forall>p \<in> set (payouts_cents pool s). \<exists>v\<ge>0. p = Some v" by auto
qed

section \<open>The distribution\<close>

lemma fee_le_gross:
  assumes "0 \<le> gross"
  shows "js_round (of_int (gross * PLATFORM_FEE_PERCENT) / 100) \<le> gross"
    and "0 \<le> js_round (of_int (gross * PLATFORM_FEE_PERCENT) / 100)"
proof -
  have "rat_of_int (gross * 5) / 100 + 1 / 2 < of_int gross + 1"
    using assms by (cases "gross = 0") (simp_all add: field_simps)
  then show "js_round (of_int (gross * PLATFORM_FEE_PERCENT) / 100) \<le> gross"
    by (simp add: js_round_def PLATFORM_FEE_PERCENT_def floor_le_iff)
  show "0 \<le> js_round (of_int (gross * PLATFORM_FEE_PERCENT) / 100)"
    using assms by (simp add: js_round_def PLATFORM_FEE_PERCENT_def le_floor_iff)
qed

text \<open>What a successful calculation has computed.\<close>

lemma calculatePrizeDistribution_okE:
  assumes "calculatePrizeDistribution pc fee opts = Inr d"
  obtains cnt feeC feeP pool s where "0 \<le> cnt" and "0 \<le> pool" and "cnt = 0 \<Longrightarrow> pool = 0"
    and "preset_splits opts cnt = Inr s"
    and "pd_participantCount d = cnt" and "pd_splitsBps d = cut_splits cnt s"
    and "pd_entryFee d = of_int feeC / 100" and "pd_grossTotal d = of_int (cnt * feeC) / 100"
    and "pd_platformFee d = of_int feeP / 100" and "pool = cnt * feeC - feeP"
    and "pd_prizePool d = of_int pool / 100"
    and "pd_payouts d = map cents_to_amount (payouts_cents pool (cut_splits cnt s))"
proof -
  obtain p f where pf: "pc = Some p" "fee = Some f" "0 \<le> p" "0 \<le> f"
    using assms by (auto simp: calculatePrizeDistribution_def split: option.splits if_splits)
  define cnt where "cnt = \<lfloor>p\<rfloor>"
  define feeC where "feeC = js_round (f * 100)"
  define feeP where "feeP = js_round (of_int (cnt * feeC * PLATFORM_FEE_PERCENT) / 100)"
  have cnt: "0 \<le> cnt" using pf by (simp add: cnt_def)
  have "0 \<le> feeC" using pf by (simp add: feeC_def js_round_def le_floor_iff)
  with cnt have gross: "0 \<le> cnt * feeC" by simp
  obtain s where s: "preset_splits opts cnt = Inr s"
    using assms pf by (auto simp: calculatePrizeDistribution_def cnt_def Let_def split: sum.splits)
  have zero: "feeP = 0" if "cnt = 0" using that js_round_of_int [of 0] by (simp add: feeP_def)
  show ?thesis
    by (rule that [of cnt "cnt * feeC - feeP" s feeC feeP])
      (use assms pf s cnt zero fee_le_gross [OF gross] in
        \<open>auto simp: calculatePrizeDistribution_def Let_def cnt_def [symmetric] feeC_def [symmetric]
          feeP_def simp del: of_int_mult\<close>)
qed

lemma cents_to_amount_simps [simp]:
  "cents_to_amount (Some v) = Some (of_int v / 100)" "cents_to_amount None = None"
  by (simp_all add: cents_to_amount_def)

lemma cents_to_amount_nonneg: "\<exists>v\<ge>0. p = Some v \<Longrightarrow> \<exists>v\<ge>0. cents_to_amount p = Some v"
proof -
  assume "\<exists>v\<ge>0. p = Some v"
  then obtain v where "0 \<le> v" "p = Some v" by blast
  then show ?thesis by (intro exI [of _ "of_int v / 100"]) simp
qed

lemma sum_cents_to_amount:
  "\<forall>p \<in> set ps. p \<noteq> None \<Longrightarrow> nan_sum ps = Some t \<Longrightarrow>
     (\<Sum>p\<leftarrow>map cents_to_amount ps. the p) = of_int t / 100"
proof (induction ps arbitrary: t)
  case Nil
  then show ?case by (simp add: nan_sum_def)
next
  case (Cons p ps)
  then obtain v u where "p = Some v" "those ps = Some u" "t = v + sum_list u"
    by (auto simp: nan_sum_def split: option.splits)
  moreover have "(\<Sum>p\<leftarrow>map cents_to_amount ps. the p) = of_int (sum_list u) / 100"
    by (rule Cons.IH) (use Cons.prems \<open>those ps = Some u\<close> in \<open>auto simp: nan_sum_def\<close>)
  ultimately show ?case
    by (simp add: add_divide_distrib)
qed

lemma preset_splits_nonempty:
  assumes "preset_splits opts cnt = Inr s" and "0 < cnt"
  shows "cut_splits cnt s \<noteq> []"
  using assms validateSplits_ok(1)
  by (auto simp: preset_splits_def cut_splits_def js_slice_def STANDARD_SPLITS_BPS_def
      TWO_PLAYER_SPLITS_BPS_def TOP_FIVE_SPLITS_BPS_def split: if_splits option.splits sum.splits)

section \<open>What each rank is due\<close>

text \<open>
  The weights of the paid ranks: the tiers of the preset, or those of the custom split, as far as there are
  participants.
\<close>

definition rank_weights :: "prize_options \<Rightarrow> int \<Rightarrow> int list" where
  "rank_weights opts cnt = take (nat cnt)
     (case opt_preset opts of
        Some p \<Rightarrow>
          if p = ''custom'' then (case opt_customSplitsBps opts of None \<Rightarrow> [] | Some s \<Rightarrow> map (\<lambda>v. \<lfloor>the v\<rfloor>) s)
          else if p = ''winner-takes-all'' then [10000]
          else if p = ''top-five'' then [4500, 2500, 1500, 1000, 500]
          else if cnt = 2 then [7000, 3000] else [6000, 3000, 1000]
      | None \<Rightarrow> if cnt = 2 then [7000, 3000] else [6000, 3000, 1000])"

definition fair_share :: "rat \<Rightarrow> int list \<Rightarrow> nat \<Rightarrow> rat" where
  "fair_share pool ws i = pool * of_int (ws ! i) / of_int (sum_list ws)"

text \<open>Splits that stand for weights: one for each, all but the last rounded down to basis points.\<close>

definition splits_for :: "int option list \<Rightarrow> int list \<Rightarrow> bool" where
  "splits_for s ws \<longleftrightarrow> (\<exists>bs. s = map Some bs \<and> length bs = length ws \<and>
     (\<forall>i. Suc i < length ws \<longrightarrow> 0 < sum_list ws \<and> bs ! i = 10000 * ws ! i div sum_list ws))"

lemma splits_for_self: "sum_list bs = 10000 \<Longrightarrow> splits_for (map Some bs) bs"
  by (simp add: splits_for_def)

lemma splits_for_single: "splits_for [Some b] [w]"
  by (auto simp: splits_for_def intro: exI [of _ "[b]"])

lemma splits_for_scaled:
  assumes "0 < sum_list ts"
  shows "splits_for (scale_tiers (map Some ts)) ts"
proof -
  let ?g = "\<lambda>x. the x * 10000 div sum_list ts"
  have ne: "ts \<noteq> []" using assms by auto
  have "scale_tiers (map Some ts)
      = map Some (map ?g (butlast (map Some ts)) @ [10000 - sum_list (map ?g (butlast (map Some ts)))])"
    unfolding scale_tiers_def
    by (rule last_takes_rest_finite) (use ne assms in \<open>auto simp: scale_bps_def\<close>)
  moreover have "(map ?g (butlast (map Some ts)) @ [x]) ! i = 10000 * ts ! i div sum_list ts" if "Suc i < length ts" for i x
    using that less_diff_conv [of i "length ts" 1] by (simp add: nth_append nth_butlast mult.commute)
  ultimately show ?thesis unfolding splits_for_def using ne assms
    by (intro exI [of _ "map ?g (butlast (map Some ts)) @ [10000 - sum_list (map ?g (butlast (map Some ts)))]"] conjI allI impI) simp_all
qed

lemma take_all_int: "int (length xs) \<le> cnt \<Longrightarrow> take (nat cnt) xs = xs"
  by simp

lemma cut_splits_for:
  assumes "preset_splits opts cnt = Inr s" "0 < cnt" "\<not> zero_weight_cut opts cnt"
  shows "splits_for (cut_splits cnt s) (rank_weights opts cnt)"
proof (cases "opt_preset opts = Some ''custom''")
  case True
  obtain bs where opt: "opt_customSplitsBps opts = Some (map (\<lambda>b. Some (of_int b)) bs)"
    and s: "s = map Some bs" and nonneg: "\<forall>b \<in> set bs. 0 \<le> b" and sum: "sum_list bs = 10000"
    using preset_splits_custom [OF assms(1) True] by blast
  have ws: "rank_weights opts cnt = take (nat cnt) bs" by (simp add: rank_weights_def True opt comp_def)
  show ?thesis
  proof (cases "cnt < int (length bs)")
    case False
    then show ?thesis using splits_for_self [OF sum] by (simp add: ws s cut_splits_def)
  next
    case cut: True
    let ?ts = "take (nat cnt) bs"
    have eq: "cut_splits cnt s = scale_tiers (map Some ?ts)" using cut assms(2) by (simp add: cut_splits_def s js_slice_def take_map)
    have nn: "0 \<le> sum_list ?ts" using nonneg by (intro sum_list_nonneg) (auto dest: in_set_takeD)
    show ?thesis
    proof (cases "cnt = 1")
      case True
      then obtain t where "?ts = [t]" using cut by (cases bs) auto
      then show ?thesis by (simp add: eq ws splits_for_single)
    next
      case False
      then have "sum_list ?ts \<noteq> 0" using assms(2,3) cut zero_weight_cut_custom [OF True opt, of cnt] by linarith
      then show ?thesis using nn splits_for_scaled [of ?ts] by (simp add: eq ws)
    qed
  qed
next
  case False
  have cut: "cut_splits cnt s = s" using preset_splits_no_cut [OF assms(1) False] assms(2) by simp
  consider (win) "opt_preset opts = Some ''winner-takes-all''" | (five) "opt_preset opts = Some ''top-five''"
    | (std) "opt_preset opts = None \<or> opt_preset opts = Some ''standard''"
    using assms(1) False by (auto simp: preset_splits_def split: if_splits)
  then show ?thesis
  proof cases
    case win
    then have "s = [Some 10000]" "rank_weights opts cnt = [10000]"
      using assms(1,2) by (auto simp: preset_splits_def rank_weights_def take_Cons split: nat.splits)
    then show ?thesis using cut splits_for_single by metis
  next
    case five
    let ?ts = "take (nat cnt) [4500, 2500, 1500, 1000, 500 :: int]"
    have "take (nat (min cnt 5)) TOP_FIVE_SPLITS_BPS = ?ts"
      by (auto simp: TOP_FIVE_SPLITS_BPS_def min_def)
    then have "s = scale_tiers (map Some ?ts)" using assms(1) five by (auto simp: preset_splits_def js_slice_def)
    moreover have "0 < sum_list ?ts" using assms(2) by (auto simp: take_Cons split: nat.splits)
    moreover have "rank_weights opts cnt = ?ts" by (simp add: rank_weights_def five)
    ultimately show ?thesis using splits_for_scaled cut by metis
  next
    case std
    have ws: "rank_weights opts cnt = take (nat cnt) (if cnt = 2 then [7000, 3000] else [6000, 3000, 1000])"
      using std by (auto simp: rank_weights_def)
    have s: "s = map Some (if cnt = 1 then [10000] else if cnt = 2 then TWO_PLAYER_SPLITS_BPS else STANDARD_SPLITS_BPS)"
      using assms(1) std by (auto simp: preset_splits_def)
    consider "cnt = 1" | "cnt = 2" | "3 \<le> cnt" using assms(2) by linarith
    then show ?thesis
    proof cases
      case 3
      then have "rank_weights opts cnt = [6000, 3000, 1000]" by (auto simp: ws take_Cons split: nat.splits)
      moreover have "s = map Some STANDARD_SPLITS_BPS" using 3 by (simp add: s)
      ultimately show ?thesis using splits_for_self [of STANDARD_SPLITS_BPS] unfolding cut by (simp add: STANDARD_SPLITS_BPS_def)
    qed (unfold cut, unfold s ws, simp_all add: splits_for_single splits_for_self [of "[7000, 3000]", simplified] TWO_PLAYER_SPLITS_BPS_def)
  qed
qed

lemma rounded_share:
  fixes P w W :: int
  assumes "0 \<le> P" "0 < W"
  defines "c \<equiv> P * (10000 * w div W) div 10000"
  shows "of_int c \<le> (of_int P * of_int w / of_int W :: rat)"
    and "of_int P * of_int w / of_int W < (of_int c + 1 + of_int P / 10000 :: rat)"
proof -
  define b where "b = 10000 * w div W"
  have b: "b * W \<le> 10000 * w" "10000 * w < (b + 1) * W"
    using assms(2) div_mult_mod_eq [of "10000 * w" W] pos_mod_bound [OF assms(2), of "10000 * w"] pos_mod_sign [OF assms(2), of "10000 * w"]
    unfolding b_def distrib_right by linarith+
  have "10000 * (x div 10000) \<le> x" "x < 10000 * (x div 10000 + 1)" for x :: int by presburger+
  from this [of "P * b"] have c: "10000 * c \<le> P * b" "P * b < 10000 * (c + 1)" by (simp_all add: c_def b_def)
  have "rat_of_int (b * W) \<le> of_int (10000 * w)" "rat_of_int (10000 * w) \<le> of_int ((b + 1) * W)" using b by linarith+
  then have q: "of_int b / 10000 \<le> (of_int w / of_int W :: rat)" "(of_int w / of_int W :: rat) \<le> (of_int b + 1) / 10000"
    using assms(2) by (simp_all add: field_simps)
  have p: "(0 :: rat) \<le> of_int P" using assms(1) by simp
  have r: "rat_of_int (10000 * c) \<le> of_int (P * b)" "rat_of_int (P * b) < of_int (10000 * (c + 1))" using c by linarith+
  show "of_int c \<le> (of_int P * of_int w / of_int W :: rat)"
  proof -
    have "of_int P * of_int b / 10000 \<le> (of_int P * of_int w / of_int W :: rat)"
      using mult_left_mono [OF q(1) p] by (simp only: times_divide_eq_right)
    moreover have "10000 * of_int c \<le> (of_int P * of_int b :: rat)" using r(1) by simp
    ultimately show ?thesis by linarith
  qed
  show "of_int P * of_int w / of_int W < (of_int c + 1 + of_int P / 10000 :: rat)"
    using mult_left_mono [OF q(2) p] r(2) by (simp add: field_simps)
qed

lemma payouts_of_weights:
  assumes "splits_for s ws" "0 \<le> pool" "ws \<noteq> []"
  shows "length (payouts_cents pool s) = length ws"
    and "Suc i < length ws \<Longrightarrow> \<exists>c. payouts_cents pool s ! i = Some c \<and> of_int c / 100 \<le> fair_share (of_int pool / 100) ws i \<and>
      fair_share (of_int pool / 100) ws i < of_int c / 100 + 1 / 100 + of_int pool / 100 / 10000"
proof -
  obtain bs where s: "s = map Some bs" "length bs = length ws"
    and bs: "\<And>i. Suc i < length ws \<Longrightarrow> 0 < sum_list ws \<and> bs ! i = 10000 * ws ! i div sum_list ws"
    using assms(1) by (auto simp: splits_for_def)
  have ne: "bs \<noteq> []" using s(2) assms(3) by auto
  show "length (payouts_cents pool s) = length ws" by (simp add: payouts_cents_def s)
  assume i: "Suc i < length ws"
  let ?c = "pool * (10000 * ws ! i div sum_list ws) div 10000"
  have cell: "payouts_cents pool s ! i = Some ?c"
    using i s(2) bs [OF i] less_diff_conv [of i "length ws" 1] by (simp add: s(1) payouts_cents_Some [OF ne] nth_append nth_butlast)
  define x :: rat where "x = of_int pool * of_int (ws ! i) / of_int (sum_list ws)"
  have "of_int ?c \<le> x" "x < of_int ?c + 1 + of_int pool / 10000"
    using rounded_share [of pool "sum_list ws" "ws ! i"] assms(2) bs [OF i] by (simp_all add: x_def)
  moreover have "fair_share (of_int pool / 100) ws i = x / 100" by (simp add: fair_share_def x_def)
  ultimately show "\<exists>c. payouts_cents pool s ! i = Some c \<and> of_int c / 100 \<le> fair_share (of_int pool / 100) ws i \<and>
      fair_share (of_int pool / 100) ws i < of_int c / 100 + 1 / 100 + of_int pool / 100 / 10000"
    using cell by (intro exI [of _ ?c]) simp
qed

lemma fee_rounded:
  assumes "calculatePrizeDistribution pc fee opts = Inr d"
  shows "pd_platformFee d = of_int (js_round (5 * pd_grossTotal d)) / 100"
  using assms
  by (auto simp: calculatePrizeDistribution_def Let_def PLATFORM_FEE_PERCENT_def mult.commute split: option.splits if_splits sum.splits)

lemma rank_weights_nonempty: "preset_splits opts cnt = Inr s \<Longrightarrow> 0 < cnt \<Longrightarrow> rank_weights opts cnt \<noteq> []"
  using validateSplits_ok(1)
  by (auto simp: rank_weights_def preset_splits_def validateSplits_def split: option.splits if_splits sum.splits)

lemma paid_ranks:
  assumes "preset_splits opts cnt = Inr s" "0 < cnt" "\<not> zero_weight_cut opts cnt" "0 \<le> pool"
  shows "length (map cents_to_amount (payouts_cents pool (cut_splits cnt s))) = length (rank_weights opts cnt) \<and>
    (\<forall>i. Suc i < length (map cents_to_amount (payouts_cents pool (cut_splits cnt s))) \<longrightarrow>
       (\<exists>v. map cents_to_amount (payouts_cents pool (cut_splits cnt s)) ! i = Some v \<and>
          v \<le> fair_share (of_int pool / 100) (rank_weights opts cnt) i \<and>
          fair_share (of_int pool / 100) (rank_weights opts cnt) i < v + 1 / 100 + of_int pool / 100 / 10000))"
proof -
  note share = payouts_of_weights [OF cut_splits_for [OF assms(1-3)] assms(4) rank_weights_nonempty [OF assms(1,2)]]
  show ?thesis
  proof (intro conjI allI impI)
    fix i assume "Suc i < length (map cents_to_amount (payouts_cents pool (cut_splits cnt s)))"
    then have i: "Suc i < length (rank_weights opts cnt)" "i < length (payouts_cents pool (cut_splits cnt s))" using share(1) by simp_all
    from share(2) [OF i(1)] obtain c where c: "payouts_cents pool (cut_splits cnt s) ! i = Some c"
      "of_int c / 100 \<le> fair_share (of_int pool / 100) (rank_weights opts cnt) i"
      "fair_share (of_int pool / 100) (rank_weights opts cnt) i < of_int c / 100 + 1 / 100 + of_int pool / 100 / 10000" by blast
    show "\<exists>v. map cents_to_amount (payouts_cents pool (cut_splits cnt s)) ! i = Some v \<and>
        v \<le> fair_share (of_int pool / 100) (rank_weights opts cnt) i \<and>
        fair_share (of_int pool / 100) (rank_weights opts cnt) i < v + 1 / 100 + of_int pool / 100 / 10000"
      using c(2,3) by (intro exI [of _ "of_int c / 100"] conjI) (use i(2) c(1) in simp_all)
  qed (use share(1) in simp)
qed

lemma podium:
  assumes "calculatePrizeDistribution pc fee opts = Inr d"
  shows "[pd_first d, pd_second d, pd_third d] = take 3 (pd_payouts d @ replicate 3 (Some 0))"
proof -
  have "[nth_or_zero ps 0, nth_or_zero ps 1, nth_or_zero ps 2] = take 3 (ps @ replicate 3 (Some 0))" for ps
    by (cases ps; cases "tl ps"; cases "tl (tl ps)") (auto simp: nth_or_zero_def numeral_3_eq_3 numeral_2_eq_2)
  then show ?thesis using assms
    by (auto simp: calculatePrizeDistribution_def Let_def split: option.splits if_splits sum.splits)
qed

text \<open>
  C1. A successful prize calculation is exact. Gross is the number of participants times the entry fee, the platform
  fee is five percent of it to the nearest cent, the net pool is the rest. Unless the zero-weight case applies there is
  one payout for each paid rank, in the order of the ranks and none negative; every one but the last is the rank's
  share of the pool by the weights of the preset, rounded down by less than a cent and a basis point of the pool, and
  the payouts add up to the pool, so the last rank takes the rest. First, second and third are the first payouts, or
  zero where there are fewer.
\<close>

theorem prize_distribution_exact:
  assumes ok: "calculatePrizeDistribution pc fee opts = Inr d"
    and nz: "\<not> zero_weight_cut opts (pd_participantCount d)"
  shows "(\<Sum>p\<leftarrow>pd_payouts d. the p) = pd_prizePool d
       \<and> (\<forall>p \<in> set (pd_payouts d). \<exists>v\<ge>0. p = Some v)
       \<and> pd_platformFee d + pd_prizePool d = pd_grossTotal d
       \<and> pd_platformFee d = of_int (js_round (5 * pd_grossTotal d)) / 100
       \<and> pd_grossTotal d = of_int (pd_participantCount d) * pd_entryFee d
       \<and> 0 \<le> pd_prizePool d
       \<and> (0 < pd_participantCount d \<longrightarrow>
            length (pd_payouts d) = length (rank_weights opts (pd_participantCount d)) \<and>
            (\<forall>i. Suc i < length (pd_payouts d) \<longrightarrow>
               (\<exists>v. pd_payouts d ! i = Some v \<and>
                  v \<le> fair_share (pd_prizePool d) (rank_weights opts (pd_participantCount d)) i \<and>
                  fair_share (pd_prizePool d) (rank_weights opts (pd_participantCount d)) i < v + 1 / 100 + pd_prizePool d / 10000)))
       \<and> [pd_first d, pd_second d, pd_third d] = take 3 (pd_payouts d @ replicate 3 (Some 0))"
  using ok
proof (rule calculatePrizeDistribution_okE)
  fix cnt feeC feeP pool s
  assume d: "0 \<le> cnt" "0 \<le> pool" "cnt = 0 \<Longrightarrow> pool = 0" "preset_splits opts cnt = Inr s"
    "pd_participantCount d = cnt" "pd_splitsBps d = cut_splits cnt s"
    "pd_entryFee d = of_int feeC / 100" "pd_grossTotal d = of_int (cnt * feeC) / 100"
    "pd_platformFee d = of_int feeP / 100" "pool = cnt * feeC - feeP"
    "pd_prizePool d = of_int pool / 100"
    "pd_payouts d = map cents_to_amount (payouts_cents pool (cut_splits cnt s))"
  have wf: "splits_wf (cut_splits cnt s)" using cut_splits_cases [OF d(4,1)] nz d(5) by simp
  have empty: "pool = 0" if "cut_splits cnt s = []"
    using that preset_splits_nonempty [OF d(4)] d(1,3) by fastforce
  note pay = payouts_cents_wf [OF wf d(2) empty]
  have "(\<Sum>p\<leftarrow>pd_payouts d. the p) = pd_prizePool d"
    unfolding d(12) d(11) by (rule sum_cents_to_amount [OF _ pay(1)]) (use pay(2) in auto)
  moreover have "\<forall>p \<in> set (pd_payouts d). \<exists>v\<ge>0. p = Some v"
    using pay(2) unfolding d(12) set_map ball_simps by (blast intro: cents_to_amount_nonneg)
  moreover have "0 \<le> pd_prizePool d" using d(2) by (simp add: d(11))
  moreover have "0 < pd_participantCount d \<longrightarrow> length (pd_payouts d) = length (rank_weights opts (pd_participantCount d)) \<and>
      (\<forall>i. Suc i < length (pd_payouts d) \<longrightarrow> (\<exists>v. pd_payouts d ! i = Some v \<and>
         v \<le> fair_share (pd_prizePool d) (rank_weights opts (pd_participantCount d)) i \<and>
         fair_share (pd_prizePool d) (rank_weights opts (pd_participantCount d)) i < v + 1 / 100 + pd_prizePool d / 10000))"
    unfolding d(5,11,12) by (intro impI paid_ranks [OF d(4) _ _ d(2)]) (use nz d(5) in simp_all)
  moreover have "[pd_first d, pd_second d, pd_third d] = take 3 (pd_payouts d @ replicate 3 (Some 0))"
    by (rule podium [OF ok])
  ultimately show ?thesis using fee_rounded [OF ok] by (simp add: d(5,7-11) diff_divide_distrib)
qed

text \<open>
  The calculator returns a payout that is not a number exactly when a custom split is cut to
  two or more ranks that all have weight zero; the other presets never do.
\<close>

theorem prize_distribution_nan_iff:
  assumes ok: "calculatePrizeDistribution pc fee opts = Inr d"
  shows "None \<in> set (pd_payouts d) \<longleftrightarrow> zero_weight_cut opts (pd_participantCount d)"
  using ok
proof (rule calculatePrizeDistribution_okE)
  fix cnt feeC feeP pool s
  assume d: "0 \<le> cnt" "0 \<le> pool" "cnt = 0 \<Longrightarrow> pool = 0" "preset_splits opts cnt = Inr s"
    "pd_participantCount d = cnt"
    "pd_payouts d = map cents_to_amount (payouts_cents pool (cut_splits cnt s))"
  have empty: "pool = 0" if "cut_splits cnt s = []"
    using that preset_splits_nonempty [OF d(4)] d(1,3) by fastforce
  show ?thesis
  proof (cases "zero_weight_cut opts cnt")
    case False
    then have wf: "splits_wf (cut_splits cnt s)" using cut_splits_cases [OF d(4,1)] by simp
    have "None \<notin> set (pd_payouts d)"
      using payouts_cents_wf(2) [OF wf d(2) empty] by (auto simp: d(6))
    with False show ?thesis by (simp add: d(5))
  next
    case True
    then obtain b bs where s: "cut_splits cnt s = None # b # bs"
      using cut_splits_cases [OF d(4,1)] by (cases "cut_splits cnt s") (auto simp: Suc_le_length_iff)
    have "hd (payouts_cents pool (None # b # bs)) = None"
      by (simp add: payouts_cents_def last_takes_rest_def share_cents_def upt_conv_Cons del: upt_Suc)
    moreover have "payouts_cents pool (None # b # bs) \<noteq> []"
      by (simp add: payouts_cents_def flip: length_0_conv)
    ultimately have "None \<in> set (payouts_cents pool (cut_splits cnt s))"
      unfolding s by (metis list.set_sel(1))
    with True show ?thesis by (force simp: d(5,6) cents_to_amount_def)
  qed
qed

text \<open>Ten players at 7.77 under the standard preset: a pool of 73.81 with nothing left over.\<close>

definition ten_players :: prize_distribution where
  "ten_players = \<lparr>pd_participantCount = 10, pd_entryFee = 777 / 100, pd_grossTotal = 777 / 10,
     pd_platformFee = 389 / 100, pd_prizePool = 7381 / 100, pd_first = Some (4428 / 100),
     pd_second = Some (2214 / 100), pd_third = Some (739 / 100),
     pd_payouts = [Some (4428 / 100), Some (2214 / 100), Some (739 / 100)],
     pd_splitsBps = [Some 6000, Some 3000, Some 1000]\<rparr>"

theorem prize_distribution_exact_witness:
  "calculatePrizeDistribution (Some 10) (Some (777 / 100)) \<lparr>opt_preset = None, opt_customSplitsBps = None\<rparr>
     = Inr ten_players \<and> (\<Sum>p\<leftarrow>pd_payouts ten_players. the p) = 7381 / 100"
proof -
  have ok: "calculatePrizeDistribution (Some 10) (Some (777 / 100))
      \<lparr>opt_preset = None, opt_customSplitsBps = None\<rparr> = Inr ten_players"
    by code_simp
  have nz: "\<not> zero_weight_cut \<lparr>opt_preset = None, opt_customSplitsBps = None\<rparr> (pd_participantCount ten_players)"
    by code_simp
  show ?thesis using ok prize_distribution_exact [OF ok nz] by (simp add: ten_players_def)
qed

text \<open>Two players under the custom split 0 / 0 / 10000: the payouts are not numbers.\<close>

theorem prize_distribution_nan_witness:
  "\<exists>d. calculatePrizeDistribution (Some 2) (Some 10)
          \<lparr>opt_preset = Some ''custom'', opt_customSplitsBps = Some [Some 0, Some 0, Some 10000]\<rparr> = Inr d
       \<and> None \<in> set (pd_payouts d)"
proof -
  let ?o = "\<lparr>opt_preset = Some ''custom'', opt_customSplitsBps = Some [Some 0, Some 0, Some 10000]\<rparr>"
  have run: "(case calculatePrizeDistribution (Some 2) (Some 10) ?o of
      Inl e \<Rightarrow> False | Inr d \<Rightarrow> zero_weight_cut ?o (pd_participantCount d))"
    by code_simp
  then obtain d where ok: "calculatePrizeDistribution (Some 2) (Some 10) ?o = Inr d"
    and z: "zero_weight_cut ?o (pd_participantCount d)"
    by (auto split: sum.splits)
  from prize_distribution_nan_iff [OF ok] z ok show ?thesis by blast
qed

section \<open>The on-chain encoding\<close>

text \<open>
  What the loop of the encoder returns, entry by entry: the split it has produced reproduces every
  amount but the last, and the weights add up to the basis points it was given.
\<close>

lemma encode_loop_ok:
  assumes "encode_loop pool remaining amounts = Inr bs" and "amounts \<noteq> []" and "0 < pool"
    and "\<forall>a \<in> set amounts. 0 \<le> a" and "0 \<le> remaining"
  shows "length bs = length amounts \<and> sum_list bs = remaining \<and> (\<forall>b \<in> set bs. 0 \<le> b)
       \<and> map (\<lambda>b. pool * b div 10000) (butlast bs) = butlast amounts"
  using assms
proof (induction pool remaining amounts arbitrary: bs rule: encode_loop.induct)
  case (1 pool remaining)
  then show ?case by simp
next
  case (2 pool remaining amount)
  then show ?case by auto
next
  case (3 pool remaining a a' rest)
  let ?b = "\<lceil>rat_of_int (a * 10000) / rat_of_int pool\<rceil>"
  obtain bs' where run: "encode_loop pool (remaining - ?b) (a' # rest) = Inr bs'"
    and bs: "bs = ?b # bs'" and rep: "pool * ?b div 10000 = a" and le: "?b \<le> remaining"
    using "3.prems"(1) by (auto simp: Let_def split: if_splits sum.splits)
  have "0 \<le> rat_of_int (a * 10000) / rat_of_int pool" using "3.prems"(3,4) by simp
  then have "0 \<le> ?b" by linarith
  moreover have "length bs' = length (a' # rest) \<and> sum_list bs' = remaining - ?b
      \<and> (\<forall>b \<in> set bs'. 0 \<le> b) \<and> map (\<lambda>b. pool * b div 10000) (butlast bs') = butlast (a' # rest)"
    by (rule "3.IH" [OF refl refl _ run]) (use "3.prems" rep le in auto)
  moreover from this have "bs' \<noteq> []" by auto
  ultimately show ?case using rep by (simp add: bs)
qed

lemma butlast_rest: "xs \<noteq> [] \<Longrightarrow> butlast xs @ [sum_list xs - sum_list (butlast xs)] = (xs :: int list)"
  by (cases xs rule: rev_cases) simp_all

text \<open>
  C29. The encoding of a tie-adjusted payout list as basis points is exact: when it is accepted, the
  weights are valid (non-negative, adding up to 10000), and dividing the pool by them with the
  payout rule of the calculator gives back every payout to the cent.
\<close>

theorem encode_payouts_roundtrip:
  assumes ok: "encodeSorobanPayoutAmounts payouts prizePool = Inr bps"
  shows "payouts_cents (to_cents prizePool) (map Some bps) = map (\<lambda>p. Some (to_cents p)) payouts
       \<and> sum_list bps = 10000 \<and> (\<forall>b \<in> set bps. 0 \<le> b \<and> b \<le> 10000)"
proof -
  let ?pool = "to_cents prizePool" and ?am = "map to_cents payouts"
  obtain enc where pre: "0 < ?pool" "?am \<noteq> []" "\<forall>a \<in> set ?am. 0 \<le> a" "sum_list ?am = ?pool"
    and run: "encode_loop ?pool 10000 ?am = Inr enc"
    and val: "validateSplits (map (\<lambda>b. Some (of_int b)) enc) = Inr bps"
    using ok by (auto simp: encodeSorobanPayoutAmounts_def Let_def list_ex_iff not_le not_less
        split: if_splits sum.splits)
  have enc: "enc = bps"
    using val by (auto simp: validateSplits_def comp_def split: if_splits)
  note enc_ok = encode_loop_ok [OF run pre(2,1,3)]
  have ne: "bps \<noteq> []" using enc_ok enc pre(2) by auto
  have amounts: "?am = butlast ?am @ [?pool - sum_list (butlast ?am)]"
    using butlast_rest [OF pre(2)] pre(4) by simp
  have "payouts_cents ?pool (map Some bps)
      = map Some (map (\<lambda>b. ?pool * b div 10000) (butlast bps)
          @ [?pool - (\<Sum>b\<leftarrow>butlast bps. ?pool * b div 10000)])"
    by (rule payouts_cents_Some [OF ne])
  also have "\<dots> = map Some ?am"
    using enc_ok amounts by (simp add: enc)
  finally show ?thesis
    using validateSplits_ok(2,3) [OF val] by (simp add: comp_def)
qed

theorem encode_payouts_roundtrip_witness:
  "encodeSorobanPayoutAmounts [6000 / 100, 2500 / 100, 1500 / 100] 100 = Inr [6000, 2500, 1500]
   \<and> payouts_cents (to_cents 100) (map Some [6000, 2500, 1500]) = [Some 6000, Some 2500, Some 1500]"
proof -
  have ok: "encodeSorobanPayoutAmounts [6000 / 100, 2500 / 100, 1500 / 100] 100 = Inr [6000, 2500, 1500]"
    by code_simp
  have "map (\<lambda>p. Some (to_cents p)) [6000 / 100, 2500 / 100, 1500 / 100] = [Some 6000, Some 2500, Some 1500]"
    by code_simp
  with ok encode_payouts_roundtrip [OF ok] show ?thesis by metis
qed

end
