(* ===== verification/Squad_Rules.thy ===== *)
theory Squad_Rules
  imports FX_Prelude
begin

text \<open>
  Squad composition: the \<open>SQUAD_RULES\<close> of \<open>backend/src/types/index.ts\<close>, the validator of
  \<open>backend/src/services/squad/squadValidator.ts\<close> (\<open>sanitizeSquadName\<close>, \<open>validateDeadline\<close>,
  \<open>validateSquad\<close>) and the deadline guard of \<open>backend/src/services/squad/deadlineGuard.ts\<close>.

  A squad name is the list of its Unicode code points; its \<open>length\<close> counts UTF-16 code units, as
  JavaScript's does. Prices and budgets are \<open>rat\<close>, instants are milliseconds (\<open>int\<close>). Error messages are
  the constructors of \<open>squad_error\<close> with the numbers the messages print.
\<close>

section \<open>Data\<close>

datatype position = GKP | DEF | MID | FWD

definition TOTAL_PLAYERS :: nat where "TOTAL_PLAYERS = 15"
definition STARTERS :: nat where "STARTERS = 11"
definition BENCH :: nat where "BENCH = 4"
definition MAX_PER_TEAM :: nat where "MAX_PER_TEAM = 3"
definition STARTING_BUDGET :: rat where "STARTING_BUDGET = 100"
definition FREE_TRANSFERS_PER_GAMEWEEK :: int where "FREE_TRANSFERS_PER_GAMEWEEK = 1"
definition MAX_FREE_TRANSFERS :: int where "MAX_FREE_TRANSFERS = 5"
definition TRANSFER_POINTS_COST :: int where "TRANSFER_POINTS_COST = 4"

fun POSITION_COUNTS :: "position \<Rightarrow> nat" where
  "POSITION_COUNTS GKP = 2"
| "POSITION_COUNTS DEF = 5"
| "POSITION_COUNTS MID = 5"
| "POSITION_COUNTS FWD = 3"

fun MIN_STARTERS :: "position \<Rightarrow> nat" where
  "MIN_STARTERS GKP = 1"
| "MIN_STARTERS DEF = 3"
| "MIN_STARTERS MID = 2"
| "MIN_STARTERS FWD = 1"

record selection =
  sel_playerId :: int
  sel_isStarter :: bool
  sel_isCaptain :: bool
  sel_isViceCaptain :: bool
  sel_positionOrder :: int

record validation_player =
  pv_id :: int
  pv_teamId :: int
  pv_position :: position
  pv_price :: rat

record validated_squad =
  vs_totalCost :: rat
  vs_formation :: string
  vs_starterIds :: "int list"
  vs_benchIds :: "int list"
  vs_captainId :: int
  vs_viceCaptainId :: int

datatype squad_error =
    WrongSquadSize nat
  | DuplicatePlayers
  | PlayerNotFound int
  | WrongStarterCount nat
  | WrongBenchCount nat
  | NotOneCaptain
  | NotOneViceCaptain
  | CaptainIsVice
  | CaptainBenched
  | ViceCaptainBenched
  | WrongPositionCount position nat
  | BudgetExceeded rat rat
  | TeamQuotaExceeded int nat
  | StarterGoalkeepers nat
  | TooFewStarters position nat

section \<open>The validator\<close>

text \<open>The character classes of the three regular expressions of \<open>sanitizeSquadName\<close>.\<close>

definition is_Cc :: "nat \<Rightarrow> bool" where
  "is_Cc c \<longleftrightarrow> c \<le> 0x1F \<or> (0x7F \<le> c \<and> c \<le> 0x9F)"

definition Cf_ranges :: "(nat \<times> nat) list" where
  "Cf_ranges =
     [(0xAD, 0xAD), (0x600, 0x605), (0x61C, 0x61C), (0x6DD, 0x6DD), (0x70F, 0x70F),
      (0x890, 0x891), (0x8E2, 0x8E2), (0x180E, 0x180E), (0x200B, 0x200F), (0x202A, 0x202E),
      (0x2060, 0x2064), (0x2066, 0x206F), (0xFEFF, 0xFEFF), (0xFFF9, 0xFFFB),
      (0x110BD, 0x110BD), (0x110CD, 0x110CD), (0x13430, 0x1343F), (0x1BCA0, 0x1BCA3),
      (0x1D173, 0x1D17A), (0xE0001, 0xE0001), (0xE0020, 0xE007F)]"

definition is_Cf :: "nat \<Rightarrow> bool" where
  "is_Cf c \<longleftrightarrow> list_ex (\<lambda>(lo, hi). lo \<le> c \<and> c \<le> hi) Cf_ranges"

definition is_space :: "nat \<Rightarrow> bool" where
  "is_space c \<longleftrightarrow> (9 \<le> c \<and> c \<le> 13) \<or> c = 0x20 \<or> c = 0xA0 \<or> c = 0x1680 \<or> (0x2000 \<le> c \<and> c \<le> 0x200A)
     \<or> c = 0x2028 \<or> c = 0x2029 \<or> c = 0x202F \<or> c = 0x205F \<or> c = 0x3000 \<or> c = 0xFEFF"

definition utf16_length :: "nat list \<Rightarrow> nat" where
  "utf16_length cs = (\<Sum>c\<leftarrow>cs. if c < 0x10000 then 1 else 2)"

definition strip_controls :: "nat list \<Rightarrow> nat list" where
  "strip_controls cs =
     concat (map (\<lambda>c. if is_Cc c \<or> is_Cf c then (if is_space c then [0x20] else []) else [c]) cs)"

text \<open>\<open>replace(/\s+/g, " ")\<close>; the flag tells whether the previous character was whitespace.\<close>

fun collapse_spaces :: "bool \<Rightarrow> nat list \<Rightarrow> nat list" where
  "collapse_spaces p [] = []"
| "collapse_spaces p (c # cs) =
     (if is_space c then (if p then collapse_spaces True cs else 0x20 # collapse_spaces True cs)
      else c # collapse_spaces False cs)"

definition js_trim :: "nat list \<Rightarrow> nat list" where
  "js_trim cs = rev (dropWhile is_space (rev (dropWhile is_space cs)))"

definition MIN_SQUAD_NAME_LENGTH :: nat where
  "MIN_SQUAD_NAME_LENGTH = 3"

text \<open>\<open>None\<close> is the thrown \<open>SquadValidationError\<close>; an argument that is no string is the empty name.\<close>

definition sanitizeSquadName :: "nat list option \<Rightarrow> nat list option" where
  "sanitizeSquadName name =
     (let sanitized = js_trim (collapse_spaces False (strip_controls (case name of None \<Rightarrow> [] | Some n \<Rightarrow> n)))
      in if utf16_length sanitized < MIN_SQUAD_NAME_LENGTH then None else Some sanitized)"

definition isPastDeadline :: "int \<Rightarrow> int \<Rightarrow> bool" where
  "isPastDeadline deadline now \<longleftrightarrow> now \<ge> deadline"

text \<open>\<open>Inl deadline\<close> is the thrown \<open>SquadLockedError\<close>.\<close>

definition validateDeadline :: "int \<Rightarrow> int \<Rightarrow> int + unit" where
  "validateDeadline deadline now = (if now \<ge> deadline then Inl deadline else Inr ())"

definition count_position :: "position \<Rightarrow> validation_player list \<Rightarrow> nat" where
  "count_position pos ps = length (filter (\<lambda>p. pv_position p = pos) ps)"

definition player_map :: "validation_player list \<Rightarrow> (int \<times> validation_player) list" where
  "player_map players = js_map (map (\<lambda>p. (pv_id p, p)) players)"

definition push_if :: "bool \<Rightarrow> 'e \<Rightarrow> 'e list" where
  "push_if b e = (if b then [e] else [])"

text \<open>The checks before the first \<open>throw\<close>.\<close>

definition roster_errors :: "selection list \<Rightarrow> validation_player list \<Rightarrow> squad_error list" where
  "roster_errors selections players =
     (let playerIds = map sel_playerId selections
      in push_if (length selections \<noteq> TOTAL_PLAYERS) (WrongSquadSize (length selections))
         @ push_if (length (js_unique playerIds) \<noteq> length playerIds) DuplicatePlayers
         @ map PlayerNotFound (filter (\<lambda>i. map_of (player_map players) i = None) playerIds))"

text \<open>\<open>playerMap.get(sel.playerId)!\<close>, on selections that passed the roster checks.\<close>

definition selected :: "validation_player list \<Rightarrow> selection list \<Rightarrow> validation_player list" where
  "selected players sels = map (\<lambda>s. the (map_of (player_map players) (sel_playerId s))) sels"

definition captain_errors :: "selection list \<Rightarrow> squad_error list" where
  "captain_errors selections =
     (let captains = filter sel_isCaptain selections;
          viceCaptains = filter sel_isViceCaptain selections
      in push_if (length captains \<noteq> 1) NotOneCaptain
         @ push_if (length viceCaptains \<noteq> 1) NotOneViceCaptain
         @ (if length captains = 1 \<and> length viceCaptains = 1 then
              push_if (sel_playerId (hd captains) = sel_playerId (hd viceCaptains)) CaptainIsVice
              @ push_if (\<not> sel_isStarter (hd captains)) CaptainBenched
              @ push_if (\<not> sel_isStarter (hd viceCaptains)) ViceCaptainBenched
            else []))"

definition total_cost :: "validation_player list \<Rightarrow> rat" where
  "total_cost ps = of_int (js_round ((\<Sum>p\<leftarrow>ps. pv_price p) * 10)) / 10"

definition team_errors :: "validation_player list \<Rightarrow> squad_error list" where
  "team_errors ps =
     map (\<lambda>(t, n). TeamQuotaExceeded t n)
       (filter (\<lambda>(t, n). n > MAX_PER_TEAM) (tally (map pv_teamId ps)))"

definition quota_error :: "validation_player list \<Rightarrow> position \<Rightarrow> squad_error list" where
  "quota_error ps pos = push_if (count_position pos ps \<noteq> POSITION_COUNTS pos)
                          (WrongPositionCount pos (count_position pos ps))"

definition starter_error :: "validation_player list \<Rightarrow> position \<Rightarrow> squad_error list" where
  "starter_error ps pos = push_if (count_position pos ps < MIN_STARTERS pos)
                            (TooFewStarters pos (count_position pos ps))"

text \<open>The checks between the two \<open>throw\<close>s.\<close>

definition lineup_errors ::
  "selection list \<Rightarrow> validation_player list \<Rightarrow> rat \<Rightarrow> squad_error list" where
  "lineup_errors selections players maxBudget =
     (let starters = filter sel_isStarter selections;
          bench = filter (\<lambda>s. \<not> sel_isStarter s) selections;
          all_ps = selected players selections;
          xi = selected players starters
      in push_if (length starters \<noteq> STARTERS) (WrongStarterCount (length starters))
         @ push_if (length bench \<noteq> BENCH) (WrongBenchCount (length bench))
         @ captain_errors selections
         @ quota_error all_ps GKP @ quota_error all_ps DEF @ quota_error all_ps MID @ quota_error all_ps FWD
         @ push_if (total_cost all_ps > maxBudget) (BudgetExceeded (total_cost all_ps) maxBudget)
         @ team_errors all_ps
         @ push_if (count_position GKP xi \<noteq> 1) (StarterGoalkeepers (count_position GKP xi))
         @ starter_error xi DEF @ starter_error xi MID @ starter_error xi FWD)"

definition formation_string :: "validation_player list \<Rightarrow> string" where
  "formation_string xi = show_nat (count_position DEF xi) @ ''-'' @ show_nat (count_position MID xi)
     @ ''-'' @ show_nat (count_position FWD xi)"

definition validateSquad ::
  "selection list \<Rightarrow> validation_player list \<Rightarrow> rat \<Rightarrow> squad_error list + validated_squad" where
  "validateSquad selections players maxBudget =
     (let errs = roster_errors selections players
      in if errs \<noteq> [] then Inl errs
         else
           (let errs' = lineup_errors selections players maxBudget;
                starters = filter sel_isStarter selections
            in if errs' \<noteq> [] then Inl errs'
               else Inr \<lparr>vs_totalCost = total_cost (selected players selections),
                         vs_formation = formation_string (selected players starters),
                         vs_starterIds = map sel_playerId starters,
                         vs_benchIds = map sel_playerId (filter (\<lambda>s. \<not> sel_isStarter s) selections),
                         vs_captainId = sel_playerId (hd (filter sel_isCaptain selections)),
                         vs_viceCaptainId = sel_playerId (hd (filter sel_isViceCaptain selections))\<rparr>))"

section \<open>The deadline guard\<close>

record gameweek =
  gw_id :: int
  gw_fplId :: int
  gw_season :: string
  gw_deadline :: int
  gw_isCurrent :: bool
  gw_isLocked :: bool
  gw_isFinished :: bool
  gw_settled :: bool

text \<open>
  \<open>assertGameweeksOpen\<close> on the rows of the \<open>gameweeks\<close> table (in the order the query returns them) and
  the reading of the database clock that follows the query; the row locks are the database's.
\<close>

definition assertGameweeksOpen :: "gameweek list \<Rightarrow> int \<Rightarrow> int list \<Rightarrow> int + unit" where
  "assertGameweeksOpen gameweeks now gameweekIds =
     (let ids = js_unique gameweekIds
      in if ids = [] then Inr ()
         else (case find (\<lambda>gw. gw_isLocked gw \<or> isPastDeadline (gw_deadline gw) now)
                         (filter (\<lambda>gw. gw_id gw \<in> set ids) gameweeks) of
                 Some gw \<Rightarrow> Inl (gw_deadline gw)
               | None \<Rightarrow> Inr ()))"

section \<open>What a valid squad is\<close>

abbreviation player_of :: "validation_player list \<Rightarrow> selection \<Rightarrow> validation_player" where
  "player_of players s \<equiv> the (map_of (player_map players) (sel_playerId s))"

text \<open>
  The rules of the game, on the set of picks: size, one owner per shirt, captaincy, position and
  club quotas, budget and a legal eleven.
\<close>

definition valid_squad :: "selection list \<Rightarrow> validation_player list \<Rightarrow> rat \<Rightarrow> bool" where
  "valid_squad sels players budget \<longleftrightarrow>
     length sels = 15 \<and> distinct (map sel_playerId sels) \<and>
     sel_playerId ` set sels \<subseteq> pv_id ` set players \<and>
     card {s \<in> set sels. sel_isStarter s} = 11 \<and>
     (\<exists>c v. c \<noteq> v \<and> {s \<in> set sels. sel_isCaptain s} = {c} \<and> {s \<in> set sels. sel_isViceCaptain s} = {v} \<and>
            sel_isStarter c \<and> sel_isStarter v) \<and>
     (\<forall>pos. card {s \<in> set sels. pv_position (player_of players s) = pos} = POSITION_COUNTS pos) \<and>
     (\<forall>t. card {s \<in> set sels. pv_teamId (player_of players s) = t} \<le> 3) \<and>
     total_cost (selected players sels) \<le> budget \<and>
     card {s \<in> set sels. sel_isStarter s \<and> pv_position (player_of players s) = GKP} = 1 \<and>
     (\<forall>pos. MIN_STARTERS pos \<le> card {s \<in> set sels. sel_isStarter s \<and> pv_position (player_of players s) = pos})"

section \<open>Soundness and completeness of the validator\<close>

lemma all_positions: "(\<forall>pos. P pos) \<longleftrightarrow> P GKP \<and> P DEF \<and> P MID \<and> P FWD"
  by (metis position.exhaust)

lemma push_if_Nil_iff [simp]: "push_if b e = [] \<longleftrightarrow> \<not> b"
  by (simp add: push_if_def)

lemma map_of_player_map_None: "map_of (player_map players) i = None \<longleftrightarrow> i \<notin> pv_id ` set players"
  by (simp add: player_map_def map_of_js_map map_of_eq_None_iff image_image)

lemma roster_errors_Nil_iff:
  "roster_errors sels players = [] \<longleftrightarrow>
     length sels = 15 \<and> distinct (map sel_playerId sels) \<and> sel_playerId ` set sels \<subseteq> pv_id ` set players"
  by (auto simp: roster_errors_def Let_def TOTAL_PLAYERS_def length_js_unique_iff filter_empty_conv
      map_of_player_map_None)

lemma length_filter_card: "distinct xs \<Longrightarrow> length (filter P xs) = card {x \<in> set xs. P x}"
  by (simp add: distinct_length_filter Int_def conj_commute)

lemma count_position_selected:
  "count_position pos (selected players sels)
     = length (filter (\<lambda>s. pv_position (player_of players s) = pos) sels)"
  by (simp add: count_position_def selected_def filter_map comp_def)

lemma team_errors_Nil_iff:
  "team_errors (selected players sels) = [] \<longleftrightarrow>
     (\<forall>t. length (filter (\<lambda>s. pv_teamId (player_of players s) = t) sels) \<le> 3)"
proof -
  let ?ts = "map pv_teamId (selected players sels)"
  have count: "count_list ?ts t = length (filter (\<lambda>s. pv_teamId (player_of players s) = t) sels)" for t
    by (simp add: count_list_eq_length_filter selected_def filter_map comp_def eq_commute)
  have "team_errors (selected players sels) = [] \<longleftrightarrow> (\<forall>t n. (t, n) \<in> set (tally ?ts) \<longrightarrow> n \<le> 3)"
    by (fastforce simp: team_errors_def filter_empty_conv MAX_PER_TEAM_def not_less)
  also have "\<dots> \<longleftrightarrow> (\<forall>t \<in> set ?ts. count_list ?ts t \<le> 3)"
    unfolding tally_entry by blast
  also have "\<dots> \<longleftrightarrow> (\<forall>t. count_list ?ts t \<le> 3)"
    by (metis count_notin zero_le)
  finally show ?thesis by (simp only: count)
qed

lemma filter_singleton_iff: "distinct xs \<Longrightarrow> length (filter P xs) = Suc 0 \<longleftrightarrow> (\<exists>c. {x \<in> set xs. P x} = {c})"
  by (simp add: length_filter_card card_1_singleton_iff)

lemma hd_filter_singleton: "distinct xs \<Longrightarrow> {x \<in> set xs. P x} = {c} \<Longrightarrow> hd (filter P xs) = c"
  by (metis filter_singleton_iff hd_in_set length_0_conv nat.distinct(1) set_filter singletonD)

lemma captain_errors_Nil_iff:
  assumes "distinct (map sel_playerId sels)"
  shows "captain_errors sels = [] \<longleftrightarrow>
    (\<exists>c v. c \<noteq> v \<and> {s \<in> set sels. sel_isCaptain s} = {c} \<and> {s \<in> set sels. sel_isViceCaptain s} = {v} \<and>
            sel_isStarter c \<and> sel_isStarter v)"
proof -
  have d: "distinct sels" using assms by (simp add: distinct_map)
  have inj: "sel_playerId c = sel_playerId v \<longleftrightarrow> c = v" if "c \<in> set sels" "v \<in> set sels" for c v
    using assms that by (metis distinct_map inj_onD)
  show ?thesis
  proof
    assume nil: "captain_errors sels = []"
    then obtain c v where "{s \<in> set sels. sel_isCaptain s} = {c}" "{s \<in> set sels. sel_isViceCaptain s} = {v}"
      by (auto simp: captain_errors_def Let_def filter_singleton_iff [OF d] split: if_splits)
    then show "\<exists>c v. c \<noteq> v \<and> {s \<in> set sels. sel_isCaptain s} = {c} \<and> {s \<in> set sels. sel_isViceCaptain s} = {v}
        \<and> sel_isStarter c \<and> sel_isStarter v"
      using nil by (auto simp: captain_errors_def Let_def filter_singleton_iff [OF d]
          hd_filter_singleton [OF d] split: if_splits)
  next
    assume "\<exists>c v. c \<noteq> v \<and> {s \<in> set sels. sel_isCaptain s} = {c} \<and> {s \<in> set sels. sel_isViceCaptain s} = {v}
        \<and> sel_isStarter c \<and> sel_isStarter v"
    then obtain c v where cv: "c \<noteq> v" "{s \<in> set sels. sel_isCaptain s} = {c}"
        "{s \<in> set sels. sel_isViceCaptain s} = {v}" "sel_isStarter c" "sel_isStarter v" by blast
    then have "c \<in> set sels" "v \<in> set sels" by blast+
    with cv show "captain_errors sels = []"
      by (auto simp: captain_errors_def Let_def filter_singleton_iff [OF d]
          hd_filter_singleton [OF d] inj)
  qed
qed

lemma lineup_errors_Nil_iff:
  assumes d: "distinct (map sel_playerId sels)" and len: "length sels = 15"
  shows "lineup_errors sels players budget = [] \<longleftrightarrow>
     card {s \<in> set sels. sel_isStarter s} = 11 \<and>
     (\<exists>c v. c \<noteq> v \<and> {s \<in> set sels. sel_isCaptain s} = {c} \<and> {s \<in> set sels. sel_isViceCaptain s} = {v} \<and>
            sel_isStarter c \<and> sel_isStarter v) \<and>
     (\<forall>pos. card {s \<in> set sels. pv_position (player_of players s) = pos} = POSITION_COUNTS pos) \<and>
     (\<forall>t. card {s \<in> set sels. pv_teamId (player_of players s) = t} \<le> 3) \<and>
     total_cost (selected players sels) \<le> budget \<and>
     card {s \<in> set sels. sel_isStarter s \<and> pv_position (player_of players s) = GKP} = 1 \<and>
     (\<forall>pos. MIN_STARTERS pos \<le> card {s \<in> set sels. sel_isStarter s \<and> pv_position (player_of players s) = pos})"
proof -
  have ds: "distinct sels" using d by (simp add: distinct_map)
  have "card {s \<in> set sels. \<not> sel_isStarter s} = 4 \<longleftrightarrow> card {s \<in> set sels. sel_isStarter s} = 11"
    using length_filter_split [of sel_isStarter sels] len
    unfolding length_filter_card [OF ds] by linarith
  then show ?thesis
    unfolding all_positions
    by (auto simp: lineup_errors_def Let_def quota_error_def starter_error_def STARTERS_def BENCH_def
        captain_errors_Nil_iff [OF d] team_errors_Nil_iff count_position_selected
        length_filter_card [OF ds] not_less not_le simp del: MIN_STARTERS.simps(2-) POSITION_COUNTS.simps)
qed

lemma validateSquad_iff_valid:
  "(\<exists>r. validateSquad sels players budget = Inr r) \<longleftrightarrow> valid_squad sels players budget"
proof -
  have "(\<exists>r. validateSquad sels players budget = Inr r) \<longleftrightarrow>
      roster_errors sels players = [] \<and> lineup_errors sels players budget = []"
    by (simp add: validateSquad_def Let_def)
  also have "\<dots> \<longleftrightarrow> valid_squad sels players budget"
    unfolding valid_squad_def using roster_errors_Nil_iff [of sels players]
      lineup_errors_Nil_iff [of sels players budget] by blast
  finally show ?thesis .
qed

text \<open>
  C13. The squad validator accepts exactly the squads that obey the rules of the game: a validation
  succeeds if and only if the picks are fifteen distinct known players, eleven of them starters,
  with one captain and a different vice-captain among the starters, the position and club quotas,
  the budget, and a legal starting formation.
\<close>

theorem validateSquad_correct:
  "(\<exists>r. validateSquad sels players budget = Inr r) \<longleftrightarrow> valid_squad sels players budget"
  by (rule validateSquad_iff_valid)

lemma validateSquad_result:
  assumes "validateSquad sels players budget = Inr r"
  shows "vs_starterIds r = map sel_playerId (filter sel_isStarter sels)"
    and "vs_benchIds r = map sel_playerId (filter (\<lambda>s. \<not> sel_isStarter s) sels)"
    and "vs_captainId r = sel_playerId (hd (filter sel_isCaptain sels))"
    and "vs_viceCaptainId r = sel_playerId (hd (filter sel_isViceCaptain sels))"
    and "vs_totalCost r = total_cost (selected players sels)"
    and "valid_squad sels players budget"
proof -
  show "valid_squad sels players budget" using assms validateSquad_iff_valid by blast
qed (use assms in \<open>auto simp: validateSquad_def Let_def split: if_splits\<close>)

lemma card_positions:
  assumes "finite A"
  shows "card A = (\<Sum>pos \<leftarrow> [GKP, DEF, MID, FWD]. card {s \<in> A. f s = pos})"
proof -
  have "A = {s \<in> A. f s = GKP} \<union> ({s \<in> A. f s = DEF} \<union> ({s \<in> A. f s = MID} \<union> {s \<in> A. f s = FWD}))"
    using position.exhaust by blast
  then have "card A = card ({s \<in> A. f s = GKP} \<union> ({s \<in> A. f s = DEF} \<union> ({s \<in> A. f s = MID} \<union> {s \<in> A. f s = FWD})))"
    by simp
  also have "\<dots> = card {s \<in> A. f s = GKP} + (card {s \<in> A. f s = DEF} + (card {s \<in> A. f s = MID} + card {s \<in> A. f s = FWD}))"
    using assms by (simp add: card_Un_disjoint disjoint_iff)
  finally show ?thesis by simp
qed

text \<open>
  What a successful validation returns: eleven starters and four substitutes that together are
  the fifteen picks, a captain and a different vice-captain among the starters, a cost within the
  budget, and a formation with ten outfield starters, at least 3-2-1.
\<close>

theorem validateSquad_returns:
  assumes ok: "validateSquad sels players budget = Inr r"
  shows "length (vs_starterIds r) = 11 \<and> length (vs_benchIds r) = 4
       \<and> distinct (vs_starterIds r @ vs_benchIds r)
       \<and> set (vs_starterIds r @ vs_benchIds r) = sel_playerId ` set sels
       \<and> vs_captainId r \<in> set (vs_starterIds r) \<and> vs_viceCaptainId r \<in> set (vs_starterIds r)
       \<and> vs_captainId r \<noteq> vs_viceCaptainId r \<and> vs_totalCost r \<le> budget
       \<and> (\<exists>d m f. vs_formation r = show_nat d @ ''-'' @ show_nat m @ ''-'' @ show_nat f
                \<and> d + m + f = 10 \<and> 3 \<le> d \<and> 2 \<le> m \<and> 1 \<le> f)"
proof -
  note res = validateSquad_result [OF ok]
  have V: "length sels = 15" "distinct (map sel_playerId sels)" "card {s \<in> set sels. sel_isStarter s} = 11"
    using res(6) by (simp_all add: valid_squad_def)
  then have ds: "distinct sels" and inj: "inj_on sel_playerId (set sels)" by (simp_all add: distinct_map)
  have len: "length (filter sel_isStarter sels) = 11" using V(3) by (simp add: length_filter_card [OF ds])
  obtain c v where cv: "c \<noteq> v" "{s \<in> set sels. sel_isCaptain s} = {c}"
      "{s \<in> set sels. sel_isViceCaptain s} = {v}" "sel_isStarter c" "sel_isStarter v"
    using res(6) unfolding valid_squad_def by blast
  then have mem: "c \<in> set sels" "v \<in> set sels" by blast+
  have cap: "vs_captainId r = sel_playerId c" "vs_viceCaptainId r = sel_playerId v"
    using hd_filter_singleton [OF ds cv(2)] hd_filter_singleton [OF ds cv(3)] res by simp_all
  have ids: "distinct (vs_starterIds r @ vs_benchIds r)"
    using ds inj unfolding res(1,2) by (auto simp: distinct_map inj_on_def)
  let ?n = "\<lambda>pos. card {s \<in> set sels. sel_isStarter s \<and> pv_position (player_of players s) = pos}"
  have form: "vs_formation r = show_nat (?n DEF) @ ''-'' @ show_nat (?n MID) @ ''-'' @ show_nat (?n FWD)"
    using ok by (auto simp: validateSquad_def Let_def formation_string_def count_position_selected
        length_filter_card [OF ds] split: if_splits)
  have "?n GKP = 1" and min: "\<And>pos. MIN_STARTERS pos \<le> ?n pos"
    using res(6) unfolding valid_squad_def by blast+
  moreover have "11 = ?n GKP + ?n DEF + ?n MID + ?n FWD"
    using card_positions [of "{s \<in> set sels. sel_isStarter s}" "\<lambda>s. pv_position (player_of players s)"] V(3)
    by (simp add: conj_assoc)
  ultimately have sum: "?n DEF + ?n MID + ?n FWD = 10" by linarith
  have "\<exists>d m f. vs_formation r = show_nat d @ ''-'' @ show_nat m @ ''-'' @ show_nat f
                \<and> d + m + f = 10 \<and> 3 \<le> d \<and> 2 \<le> m \<and> 1 \<le> f"
    using form sum min [of DEF] min [of MID] min [of FWD] by (intro exI conjI) (assumption | simp)+
  moreover have "vs_totalCost r \<le> budget" using res(5,6) by (simp add: valid_squad_def)
  moreover have "set (vs_starterIds r @ vs_benchIds r) = sel_playerId ` set sels"
    by (auto simp: res)
  moreover have "length (vs_benchIds r) = 4"
    using length_filter_split [of sel_isStarter sels] len V(1) by (simp add: res(2))
  ultimately show ?thesis
    using len ids cap cv(1,4,5) mem inj by (auto simp: res(1) inj_on_eq_iff)
qed

text \<open>A 4-4-2 of fifteen players worth 6.5 each, three from each of five clubs.\<close>

definition demo_players :: "validation_player list" where
  "demo_players = map (\<lambda>i. \<lparr>pv_id = i, pv_teamId = i mod 5,
     pv_position = (if i \<le> 2 then GKP else if i \<le> 7 then DEF else if i \<le> 12 then MID else FWD),
     pv_price = 13 / 2\<rparr>) [1, 2, 3, 4, 5, 6, 7, 8, 9, 10, 11, 12, 13, 14, 15]"

definition demo_selections :: "selection list" where
  "demo_selections = map (\<lambda>i. \<lparr>sel_playerId = i, sel_isStarter = i \<notin> {2, 7, 12, 15},
     sel_isCaptain = (i = 13), sel_isViceCaptain = (i = 8), sel_positionOrder = i\<rparr>)
     [1, 2, 3, 4, 5, 6, 7, 8, 9, 10, 11, 12, 13, 14, 15]"

definition demo_result :: validated_squad where
  "demo_result = \<lparr>vs_totalCost = 975 / 10, vs_formation = ''4-4-2'',
     vs_starterIds = [1, 3, 4, 5, 6, 8, 9, 10, 11, 13, 14], vs_benchIds = [2, 7, 12, 15],
     vs_captainId = 13, vs_viceCaptainId = 8\<rparr>"

theorem validateSquad_returns_witness:
  "validateSquad demo_selections demo_players STARTING_BUDGET = Inr demo_result
   \<and> vs_totalCost demo_result \<le> STARTING_BUDGET"
proof -
  have run: "validateSquad demo_selections demo_players STARTING_BUDGET = Inr demo_result"
    by code_simp
  with validateSquad_returns [OF run] show ?thesis by simp
qed

section \<open>Squad names\<close>

text \<open>The normal form of a squad name.\<close>

definition normal_name :: "nat list \<Rightarrow> bool" where
  "normal_name cs \<longleftrightarrow>
     (\<forall>c \<in> set cs. \<not> is_Cc c \<and> \<not> is_Cf c \<and> (is_space c \<longrightarrow> c = 0x20)) \<and>
     successively (\<lambda>a b. \<not> (is_space a \<and> is_space b)) cs \<and>
     (cs \<noteq> [] \<longrightarrow> \<not> is_space (hd cs) \<and> \<not> is_space (last cs))"

lemma blank_is_space [simp]: "is_space 0x20" "\<not> is_Cc 0x20" "\<not> is_Cf 0x20"
  by (simp_all add: is_space_def is_Cc_def is_Cf_def Cf_ranges_def)

lemma strip_controls_clean: "c \<in> set (strip_controls cs) \<Longrightarrow> \<not> is_Cc c \<and> \<not> is_Cf c"
  by (auto simp: strip_controls_def split: if_splits)

lemma collapse_spaces_set:
  "c \<in> set (collapse_spaces p cs) \<Longrightarrow> c = 0x20 \<or> (c \<in> set cs \<and> \<not> is_space c)"
  by (induction p cs rule: collapse_spaces.induct) (auto split: if_splits)

lemma collapse_spaces_successively:
  "successively (\<lambda>a b. \<not> (is_space a \<and> is_space b)) (collapse_spaces p cs) \<and>
   (p \<longrightarrow> collapse_spaces p cs \<noteq> [] \<longrightarrow> \<not> is_space (hd (collapse_spaces p cs)))"
  by (induction p cs rule: collapse_spaces.induct) (auto simp: successively_Cons)

lemma successively_dropWhile: "successively R xs \<Longrightarrow> successively R (dropWhile P xs)"
  by (metis successively_append_iff takeWhile_dropWhile_id)

lemma successively_sym_rev:
  "successively (\<lambda>a b. \<not> (Q a \<and> Q b)) xs \<Longrightarrow> successively (\<lambda>a b. \<not> (Q a \<and> Q b)) (rev xs)"
  unfolding successively_rev by (erule successively_mono) auto

lemma js_trim_normal:
  assumes "successively (\<lambda>a b. \<not> (is_space a \<and> is_space b)) cs"
  shows "successively (\<lambda>a b. \<not> (is_space a \<and> is_space b)) (js_trim cs)"
    and "set (js_trim cs) \<subseteq> set cs"
    and "js_trim cs \<noteq> [] \<Longrightarrow> \<not> is_space (hd (js_trim cs)) \<and> \<not> is_space (last (js_trim cs))"
proof -
  let ?d = "dropWhile is_space cs"
  show "successively (\<lambda>a b. \<not> (is_space a \<and> is_space b)) (js_trim cs)"
    unfolding js_trim_def
    by (intro successively_sym_rev successively_dropWhile assms)
  show "set (js_trim cs) \<subseteq> set cs"
    by (auto simp: js_trim_def dest!: set_dropWhileD)
  assume ne: "js_trim cs \<noteq> []"
  have last: "\<not> is_space (last (js_trim cs))"
    using ne by (simp add: js_trim_def last_rev hd_dropWhile)
  have "js_trim cs = take (length (js_trim cs)) ?d"
    unfolding js_trim_def by (metis append_eq_conv_conj rev_append rev_rev_ident takeWhile_dropWhile_id)
  then have "hd (js_trim cs) = hd ?d" using ne by (metis hd_take length_greater_0_conv)
  moreover have "?d \<noteq> []" using ne by (metis dropWhile.simps(1) js_trim_def rev.simps(1))
  ultimately show "\<not> is_space (hd (js_trim cs)) \<and> \<not> is_space (last (js_trim cs))"
    using last by (simp add: hd_dropWhile)
qed

lemma normal_name_id:
  assumes "normal_name cs"
  shows "js_trim (collapse_spaces False (strip_controls cs)) = cs"
proof -
  have strip: "\<forall>c \<in> set cs. \<not> is_Cc c \<and> \<not> is_Cf c \<Longrightarrow> strip_controls cs = cs" for cs
    by (induction cs) (simp_all add: strip_controls_def)
  have coll: "\<forall>c \<in> set cs. is_space c \<longrightarrow> c = 0x20 \<Longrightarrow>
      successively (\<lambda>a b. \<not> (is_space a \<and> is_space b)) cs \<Longrightarrow>
      (p \<longrightarrow> cs \<noteq> [] \<longrightarrow> \<not> is_space (hd cs)) \<Longrightarrow> collapse_spaces p cs = cs" for p cs
    by (induction p cs rule: collapse_spaces.induct) (auto simp: successively_Cons)
  have trim: "js_trim cs = cs"
  proof (cases "cs = []")
    case False
    then have "dropWhile is_space cs = cs" "dropWhile is_space (rev cs) = rev cs"
      using assms by (simp_all add: normal_name_def dropWhile_eq_self_iff hd_rev)
    then show ?thesis by (simp add: js_trim_def)
  qed (simp add: js_trim_def)
  show ?thesis
    using assms strip [of cs] coll [of cs False] trim by (simp add: normal_name_def)
qed

text \<open>
  Sanitising a squad name yields its normal form (no control or format character, single blanks
  only, none at either end, at least three UTF-16 units), and sanitising is idempotent.
\<close>

theorem sanitizeSquadName_normal:
  assumes "sanitizeSquadName name = Some m"
  shows "normal_name m \<and> 3 \<le> utf16_length m \<and> sanitizeSquadName (Some m) = Some m"
proof -
  let ?n = "case name of None \<Rightarrow> [] | Some n \<Rightarrow> n"
  let ?c = "collapse_spaces False (strip_controls ?n)"
  have m: "m = js_trim ?c" and len: "3 \<le> utf16_length m"
    using assms by (auto simp: sanitizeSquadName_def Let_def MIN_SQUAD_NAME_LENGTH_def split: if_splits)
  have succ: "successively (\<lambda>a b. \<not> (is_space a \<and> is_space b)) ?c"
    using collapse_spaces_successively by blast
  have "\<not> is_Cc c \<and> \<not> is_Cf c \<and> (is_space c \<longrightarrow> c = 0x20)" if "c \<in> set m" for c
  proof -
    have "c = 0x20 \<or> (c \<in> set (strip_controls ?n) \<and> \<not> is_space c)"
      using that js_trim_normal(2) [OF succ] collapse_spaces_set m by blast
    then show ?thesis using strip_controls_clean by auto
  qed
  then have "normal_name m"
    using js_trim_normal(1,3) [OF succ] by (auto simp: normal_name_def m)
  with len show ?thesis
    by (simp add: sanitizeSquadName_def normal_name_id MIN_SQUAD_NAME_LENGTH_def)
qed

theorem sanitizeSquadName_normal_witness:
  "sanitizeSquadName (Some [0x20, 0x46, 9, 9, 0x200B, 0x43, 0, 0x20]) = Some [0x46, 0x20, 0x43]
   \<and> normal_name [0x46, 0x20, 0x43]"
proof -
  have run: "sanitizeSquadName (Some [0x20, 0x46, 9, 9, 0x200B, 0x43, 0, 0x20]) = Some [0x46, 0x20, 0x43]"
    by (simp add: sanitizeSquadName_def strip_controls_def is_Cc_def is_Cf_def Cf_ranges_def is_space_def
        js_trim_def utf16_length_def MIN_SQUAD_NAME_LENGTH_def)
  with sanitizeSquadName_normal [OF run] show ?thesis by simp
qed

section \<open>Deadlines\<close>

lemma assertGameweeksOpen_iff:
  "assertGameweeksOpen gws now ids = Inr () \<longleftrightarrow>
     (\<forall>gw \<in> set gws. gw_id gw \<in> set ids \<longrightarrow> \<not> gw_isLocked gw \<and> now < gw_deadline gw)"
  by (auto simp: assertGameweeksOpen_def Let_def find_None_iff isPastDeadline_def not_le
      dest!: find_SomeD split: option.splits)

lemma validateDeadline_iff: "validateDeadline deadline now = Inr () \<longleftrightarrow> now < deadline"
  by (simp add: validateDeadline_def not_le)

end
