(* ===== verification/Scoring_Config.thy ===== *)
theory Scoring_Config
  imports Squad_Rules
begin

text \<open>
  Custom league scoring, \<open>backend/src/models/leagueScoringConfig.ts\<close>: the presets and the parser that
  turns an untrusted JSON value into a canonical configuration.

  A JSON object is an association list with distinct keys; \<open>input.key\<close> on a missing key is
  \<open>undefined\<close>, here \<open>None\<close>. A \<open>Record<Position, number>\<close> is a record with one weight per position.
\<close>

section \<open>Data\<close>

datatype json =
    JNull
  | JBool bool
  | JNum rat
  | JStr string
  | JArr "json list"
  | JObj "(string \<times> json) list"

datatype scoring_preset = CLASSIC_FPL | ALL_ATTACK | DEFENSIVE_MASTERMIND

record position_weights =
  w_GKP :: int
  w_DEF :: int
  w_MID :: int
  w_FWD :: int

fun weight_at :: "position_weights \<Rightarrow> position \<Rightarrow> int" where
  "weight_at w GKP = w_GKP w"
| "weight_at w DEF = w_DEF w"
| "weight_at w MID = w_MID w"
| "weight_at w FWD = w_FWD w"

record scoring_config =
  sc_underSixtyMinutes :: int
  sc_sixtyOrMoreMinutes :: int
  sc_goals :: position_weights
  sc_assists :: int
  sc_cleanSheets :: position_weights
  sc_goalsConcededPerTwo :: position_weights
  sc_savesPerThree :: int
  sc_penaltySaves :: int
  sc_penaltyMisses :: int
  sc_yellowCards :: int
  sc_redCards :: int
  sc_ownGoals :: int
  sc_bonus :: int

datatype config_error =
    ConfigNotObject
  | ConfigFields
  | ConfigVersion
  | AppearanceNotObject
  | AppearanceFields
  | NotIntegerBetween string int int
  | WeightsNotObject string
  | WeightsFields string
  | BothConfigAndPreset
  | UnknownScoringPreset

section \<open>Presets\<close>

definition makePreset :: scoring_config where
  "makePreset =
     \<lparr>sc_underSixtyMinutes = 1, sc_sixtyOrMoreMinutes = 2,
      sc_goals = \<lparr>w_GKP = 6, w_DEF = 6, w_MID = 5, w_FWD = 4\<rparr>,
      sc_assists = 3,
      sc_cleanSheets = \<lparr>w_GKP = 4, w_DEF = 4, w_MID = 1, w_FWD = 0\<rparr>,
      sc_goalsConcededPerTwo = \<lparr>w_GKP = -1, w_DEF = -1, w_MID = 0, w_FWD = 0\<rparr>,
      sc_savesPerThree = 1, sc_penaltySaves = 5, sc_penaltyMisses = -2, sc_yellowCards = -1,
      sc_redCards = -3, sc_ownGoals = -2, sc_bonus = 1\<rparr>"

fun LEAGUE_SCORING_PRESETS :: "scoring_preset \<Rightarrow> scoring_config" where
  "LEAGUE_SCORING_PRESETS CLASSIC_FPL = makePreset"
| "LEAGUE_SCORING_PRESETS ALL_ATTACK =
     makePreset\<lparr>sc_goals := \<lparr>w_GKP = 10, w_DEF = 8, w_MID = 7, w_FWD = 6\<rparr>, sc_assists := 5,
       sc_penaltySaves := 3, sc_cleanSheets := \<lparr>w_GKP = 2, w_DEF = 2, w_MID = 1, w_FWD = 0\<rparr>\<rparr>"
| "LEAGUE_SCORING_PRESETS DEFENSIVE_MASTERMIND =
     makePreset\<lparr>sc_cleanSheets := \<lparr>w_GKP = 8, w_DEF = 7, w_MID = 2, w_FWD = 0\<rparr>,
       sc_goalsConcededPerTwo := \<lparr>w_GKP = -2, w_DEF = -2, w_MID = 0, w_FWD = 0\<rparr>,
       sc_savesPerThree := 2, sc_penaltySaves := 8\<rparr>"

section \<open>The parser\<close>

definition position_keys :: "string list" where
  "position_keys = [''GKP'', ''DEF'', ''MID'', ''FWD'']"

definition nonNegativeFields :: "string list" where
  "nonNegativeFields = [''assists'', ''savesPerThree'', ''penaltySaves'', ''bonus'']"

definition nonPositiveFields :: "string list" where
  "nonPositiveFields = [''penaltyMisses'', ''yellowCards'', ''redCards'', ''ownGoals'']"

definition expectedKeys :: "string list" where
  "expectedKeys = [''version'', ''appearance'', ''goals'', ''assists'', ''cleanSheets'',
     ''goalsConcededPerTwo'', ''savesPerThree'', ''penaltySaves'', ''penaltyMisses'', ''yellowCards'',
     ''redCards'', ''ownGoals'', ''bonus'']"

text \<open>\<open>Object.keys(o).length === keys.length\<close> and every key is an own property.\<close>

definition has_exactly :: "(string \<times> json) list \<Rightarrow> string list \<Rightarrow> bool" where
  "has_exactly ob ks \<longleftrightarrow> length (js_unique (map fst ob)) = length ks \<and> list_all (\<lambda>k. k \<in> set (map fst ob)) ks"

fun as_record :: "json option \<Rightarrow> (string \<times> json) list option" where
  "as_record (Some (JObj ob)) = Some ob"
| "as_record _ = None"

definition readInteger :: "json option \<Rightarrow> string \<Rightarrow> int \<Rightarrow> int \<Rightarrow> config_error + int" where
  "readInteger v path lo hi =
     (case v of
        Some (JNum x) \<Rightarrow>
          if of_int \<lfloor>x\<rfloor> \<noteq> x \<or> x < of_int lo \<or> x > of_int hi
          then Inl (NotIntegerBetween path lo hi) else Inr \<lfloor>x\<rfloor>
      | _ \<Rightarrow> Inl (NotIntegerBetween path lo hi))"

definition readPositionWeights ::
  "json option \<Rightarrow> string \<Rightarrow> int \<Rightarrow> int \<Rightarrow> config_error + position_weights" where
  "readPositionWeights v path lo hi =
     (case as_record v of
        None \<Rightarrow> Inl (WeightsNotObject path)
      | Some ob \<Rightarrow>
          if \<not> has_exactly ob position_keys then Inl (WeightsFields path)
          else res_bind (res_map (\<lambda>p. readInteger (map_of ob p) (path @ ''.'' @ p) lo hi) position_keys)
                 (\<lambda>ws. Inr \<lparr>w_GKP = ws ! 0, w_DEF = ws ! 1, w_MID = ws ! 2, w_FWD = ws ! 3\<rparr>))"

definition readFlatWeights ::
  "(string \<times> json) list \<Rightarrow> string list \<Rightarrow> int \<Rightarrow> int \<Rightarrow> config_error + (string \<times> int) list" where
  "readFlatWeights input flds lo hi =
     res_map (\<lambda>f. res_bind (readInteger (map_of input f) f lo hi) (\<lambda>n. Inr (f, n))) flds"

definition parseLeagueScoringConfig :: "json \<Rightarrow> config_error + scoring_config" where
  "parseLeagueScoringConfig input =
     (case as_record (Some input) of
        None \<Rightarrow> Inl ConfigNotObject
      | Some ob \<Rightarrow>
          if \<not> has_exactly ob expectedKeys then Inl ConfigFields
          else if map_of ob ''version'' \<noteq> Some (JNum 1) then Inl ConfigVersion
          else (case as_record (map_of ob ''appearance'') of
                  None \<Rightarrow> Inl AppearanceNotObject
                | Some app \<Rightarrow>
                    if \<not> has_exactly app [''underSixtyMinutes'', ''sixtyOrMoreMinutes''] then Inl AppearanceFields
                    else
                      res_bind (readFlatWeights ob nonNegativeFields 0 100) (\<lambda>rewards.
                      res_bind (readFlatWeights ob nonPositiveFields (-100) 0) (\<lambda>penalties.
                      res_bind (readInteger (map_of app ''underSixtyMinutes'') ''appearance.underSixtyMinutes'' 0 100) (\<lambda>under.
                      res_bind (readInteger (map_of app ''sixtyOrMoreMinutes'') ''appearance.sixtyOrMoreMinutes'' 0 100) (\<lambda>sixty.
                      res_bind (readPositionWeights (map_of ob ''goals'') ''goals'' 0 100) (\<lambda>goals.
                      res_bind (readPositionWeights (map_of ob ''cleanSheets'') ''cleanSheets'' 0 100) (\<lambda>cs.
                      res_bind (readPositionWeights (map_of ob ''goalsConcededPerTwo'') ''goalsConcededPerTwo'' (-100) 0) (\<lambda>gc.
                      let flat = (\<lambda>f. the (map_of (penalties @ rewards) f)) in
                      Inr \<lparr>sc_underSixtyMinutes = under, sc_sixtyOrMoreMinutes = sixty,
                           sc_goals = goals, sc_assists = flat ''assists'', sc_cleanSheets = cs,
                           sc_goalsConcededPerTwo = gc, sc_savesPerThree = flat ''savesPerThree'',
                           sc_penaltySaves = flat ''penaltySaves'', sc_penaltyMisses = flat ''penaltyMisses'',
                           sc_yellowCards = flat ''yellowCards'', sc_redCards = flat ''redCards'',
                           sc_ownGoals = flat ''ownGoals'', sc_bonus = flat ''bonus''\<rparr>)))))))))"

text \<open>A configuration as the plain object it is in JavaScript.\<close>

definition weights_object :: "position_weights \<Rightarrow> json" where
  "weights_object w = JObj [(''GKP'', JNum (of_int (w_GKP w))), (''DEF'', JNum (of_int (w_DEF w))),
                            (''MID'', JNum (of_int (w_MID w))), (''FWD'', JNum (of_int (w_FWD w)))]"

definition config_object :: "scoring_config \<Rightarrow> json" where
  "config_object c = JObj
     [(''version'', JNum 1),
      (''appearance'', JObj [(''underSixtyMinutes'', JNum (of_int (sc_underSixtyMinutes c))),
                             (''sixtyOrMoreMinutes'', JNum (of_int (sc_sixtyOrMoreMinutes c)))]),
      (''goals'', weights_object (sc_goals c)),
      (''assists'', JNum (of_int (sc_assists c))),
      (''cleanSheets'', weights_object (sc_cleanSheets c)),
      (''goalsConcededPerTwo'', weights_object (sc_goalsConcededPerTwo c)),
      (''savesPerThree'', JNum (of_int (sc_savesPerThree c))),
      (''penaltySaves'', JNum (of_int (sc_penaltySaves c))),
      (''penaltyMisses'', JNum (of_int (sc_penaltyMisses c))),
      (''yellowCards'', JNum (of_int (sc_yellowCards c))),
      (''redCards'', JNum (of_int (sc_redCards c))),
      (''ownGoals'', JNum (of_int (sc_ownGoals c))),
      (''bonus'', JNum (of_int (sc_bonus c)))]"

definition preset_of_name :: "string \<Rightarrow> scoring_preset option" where
  "preset_of_name s = (if s = ''CLASSIC_FPL'' then Some CLASSIC_FPL
     else if s = ''ALL_ATTACK'' then Some ALL_ATTACK
     else if s = ''DEFENSIVE_MASTERMIND'' then Some DEFENSIVE_MASTERMIND else None)"

definition resolveLeagueScoringConfig ::
  "json option \<Rightarrow> json option \<Rightarrow> config_error + scoring_config option" where
  "resolveLeagueScoringConfig scoringConfig scoringPreset =
     (if scoringConfig \<noteq> None \<and> scoringPreset \<noteq> None then Inl BothConfigAndPreset
      else (case scoringConfig of
              Some j \<Rightarrow> res_bind (parseLeagueScoringConfig j) (\<lambda>c. Inr (Some c))
            | None \<Rightarrow>
                (case scoringPreset of
                   None \<Rightarrow> Inr None
                 | Some (JStr s) \<Rightarrow>
                     (case preset_of_name s of
                        None \<Rightarrow> Inl UnknownScoringPreset
                      | Some p \<Rightarrow> res_bind (parseLeagueScoringConfig (config_object (LEAGUE_SCORING_PRESETS p)))
                                   (\<lambda>c. Inr (Some c)))
                 | Some _ \<Rightarrow> Inl UnknownScoringPreset)))"

section \<open>Canonical configurations\<close>

definition weights_in :: "int \<Rightarrow> int \<Rightarrow> position_weights \<Rightarrow> bool" where
  "weights_in lo hi w \<longleftrightarrow> (\<forall>p. lo \<le> weight_at w p \<and> weight_at w p \<le> hi)"

text \<open>Rewards lie between 0 and 100, penalties between -100 and 0.\<close>

definition config_wf :: "scoring_config \<Rightarrow> bool" where
  "config_wf c \<longleftrightarrow>
     (\<forall>n \<in> {sc_underSixtyMinutes c, sc_sixtyOrMoreMinutes c, sc_assists c, sc_savesPerThree c,
            sc_penaltySaves c, sc_bonus c}. 0 \<le> n \<and> n \<le> 100) \<and>
     (\<forall>n \<in> {sc_penaltyMisses c, sc_yellowCards c, sc_redCards c, sc_ownGoals c}. -100 \<le> n \<and> n \<le> 0) \<and>
     weights_in 0 100 (sc_goals c) \<and> weights_in 0 100 (sc_cleanSheets c) \<and>
     weights_in (-100) 0 (sc_goalsConcededPerTwo c)"

lemma weights_in_iff:
  "weights_in lo hi w \<longleftrightarrow> lo \<le> w_GKP w \<and> w_GKP w \<le> hi \<and> lo \<le> w_DEF w \<and> w_DEF w \<le> hi \<and>
     lo \<le> w_MID w \<and> w_MID w \<le> hi \<and> lo \<le> w_FWD w \<and> w_FWD w \<le> hi"
  by (simp add: weights_in_def all_positions)

lemma readInteger_range: "readInteger v path lo hi = Inr n \<Longrightarrow> lo \<le> n \<and> n \<le> hi"
  by (auto simp: readInteger_def le_floor_iff floor_le_iff not_less split: option.splits json.splits if_splits)

lemma readInteger_num: "lo \<le> n \<Longrightarrow> n \<le> hi \<Longrightarrow> readInteger (Some (JNum (of_int n))) path lo hi = Inr n"
  by (simp add: readInteger_def)

lemma readPositionWeights_range:
  assumes "readPositionWeights v path lo hi = Inr w"
  shows "weights_in lo hi w"
  using assms
  by (auto simp: readPositionWeights_def position_keys_def weights_in_iff
      split: option.splits if_splits dest!: readInteger_range)

lemma readFlatWeights_keys: "readFlatWeights inp flds lo hi = Inr ws \<Longrightarrow> map fst ws = flds"
  by (induction flds arbitrary: ws) (auto simp: readFlatWeights_def)

section \<open>What the parser accepts\<close>

text \<open>The same value up to the order in which keys were inserted.\<close>

inductive same_json :: "json \<Rightarrow> json \<Rightarrow> bool" where
  same_refl: "same_json j j"
| same_obj: "(\<And>k. rel_option same_json (map_of ob k) (map_of ob' k)) \<Longrightarrow> same_json (JObj ob) (JObj ob')"

inductive_simps same_num_simps: "same_json v (JNum q)"
inductive_simps same_obj_simps: "same_json v (JObj ob)"

lemma same_obj_iff: "same_json (JObj ob) (JObj ob') \<longleftrightarrow> (\<forall>k. rel_option same_json (map_of ob k) (map_of ob' k))"
  by (auto simp: same_obj_simps option.rel_refl same_refl)

lemma same_obj_fields:
  assumes "distinct (map fst ob')"
  shows "same_json v (JObj ob') \<longleftrightarrow> (\<exists>ob. v = JObj ob \<and> set (map fst ob) = set (map fst ob') \<and>
    (\<forall>(k, w) \<in> set ob'. \<exists>u. map_of ob k = Some u \<and> same_json u w))"
proof -
  have "(\<forall>k. rel_option same_json (map_of ob k) (map_of ob' k)) \<longleftrightarrow> set (map fst ob) = set (map fst ob') \<and>
      (\<forall>(k, w) \<in> set ob'. \<exists>u. map_of ob k = Some u \<and> same_json u w)" (is "?l \<longleftrightarrow> ?r") for ob
  proof
    assume l: ?l
    have "map_of ob k = None \<longleftrightarrow> map_of ob' k = None" for k using l [rule_format, of k] by (auto simp: option_rel_Some1 elim: option.rel_cases)
    then have "set (map fst ob) = set (map fst ob')" by (simp add: map_of_eq_None_iff) blast
    moreover have "\<exists>u. map_of ob k = Some u \<and> same_json u w" if "(k, w) \<in> set ob'" for k w
      using l [rule_format, of k] that assms by (auto simp: option_rel_Some2)
    ultimately show ?r by blast
  next
    assume r: ?r
    show ?l
    proof
      fix k
      show "rel_option same_json (map_of ob k) (map_of ob' k)"
      proof (cases "map_of ob' k")
        case None
        then have "map_of ob k = None" using r by (simp add: map_of_eq_None_iff)
        then show ?thesis using None by simp
      next
        case (Some w)
        then have "(k, w) \<in> set ob'" by (rule map_of_SomeD)
        then show ?thesis using r Some by (fastforce simp: option_rel_Some2)
      qed
    qed
  qed
  moreover have "same_json v (JObj ob') \<longleftrightarrow> (\<exists>ob. v = JObj ob \<and> (\<forall>k. rel_option same_json (map_of ob k) (map_of ob' k)))"
    by (auto simp: same_obj_simps option.rel_refl same_refl)
  ultimately show ?thesis by simp
qed

lemma length_js_unique: "length (js_unique xs) = card (set xs)"
  by (metis distinct_card distinct_js_unique set_js_unique)

lemma has_exactly_iff:
  assumes "distinct ks"
  shows "has_exactly ob ks \<longleftrightarrow> set (map fst ob) = set ks"
proof
  assume "has_exactly ob ks"
  then have "card (set (map fst ob)) = card (set ks)" "set ks \<subseteq> set (map fst ob)"
    using assms by (auto simp: has_exactly_def length_js_unique distinct_card list_all_iff)
  then show "set (map fst ob) = set ks" by (metis List.finite_set card_subset_eq)
qed (use assms in \<open>auto simp: has_exactly_def length_js_unique distinct_card list_all_iff\<close>)

lemma readInteger_iff: "readInteger v path lo hi = Inr n \<longleftrightarrow> v = Some (JNum (of_int n)) \<and> lo \<le> n \<and> n \<le> hi"
proof
  assume "readInteger v path lo hi = Inr n"
  then show "v = Some (JNum (of_int n)) \<and> lo \<le> n \<and> n \<le> hi"
    using readInteger_range [of v path lo hi n] by (auto simp: readInteger_def split: option.splits json.splits if_splits)
qed (simp add: readInteger_num)

lemma readFlatWeights_iff:
  "readFlatWeights ob flds lo hi = Inr ws \<longleftrightarrow>
     list_all2 (\<lambda>f p. fst p = f \<and> map_of ob f = Some (JNum (of_int (snd p))) \<and> lo \<le> snd p \<and> snd p \<le> hi) flds ws"
proof -
  have "(res_bind (readInteger (map_of ob f) f lo hi) (\<lambda>n. Inr (f, n)) = Inr p) =
      (fst p = f \<and> map_of ob f = Some (JNum (of_int (snd p))) \<and> lo \<le> snd p \<and> snd p \<le> hi)" for f p
    by (cases p) (auto simp: readInteger_iff)
  then show ?thesis by (simp add: readFlatWeights_def res_map_Inr_iff)
qed

lemma readPositionWeights_iff:
  "readPositionWeights v path lo hi = Inr w \<longleftrightarrow> (\<exists>j. v = Some j \<and> same_json j (weights_object w)) \<and> weights_in lo hi w"
proof (cases v)
  case (Some j)
  show ?thesis
  proof (cases j)
    case (JObj ob)
    have "readPositionWeights v path lo hi = Inr w \<longleftrightarrow> has_exactly ob position_keys \<and>
        (map_of ob ''GKP'' = Some (JNum (of_int (w_GKP w))) \<and> map_of ob ''DEF'' = Some (JNum (of_int (w_DEF w))) \<and>
         map_of ob ''MID'' = Some (JNum (of_int (w_MID w))) \<and> map_of ob ''FWD'' = Some (JNum (of_int (w_FWD w)))) \<and> weights_in lo hi w"
      unfolding readPositionWeights_def Some JObj
      by (cases w; cases "has_exactly ob position_keys") (auto simp: position_keys_def readInteger_iff weights_in_iff)
    moreover have "has_exactly ob position_keys \<longleftrightarrow> set (map fst ob) = set position_keys"
      by (rule has_exactly_iff) (simp add: position_keys_def)
    ultimately show ?thesis
      by (simp add: Some JObj weights_object_def same_obj_fields same_num_simps position_keys_def)
  qed (simp_all add: Some readPositionWeights_def weights_object_def same_obj_fields)
qed (simp add: readPositionWeights_def)

text \<open>The fields an accepted object has, with the values that are kept.\<close>

definition flat_values :: "scoring_config \<Rightarrow> (string \<times> int) list" where
  "flat_values c = [(''assists'', sc_assists c), (''savesPerThree'', sc_savesPerThree c), (''penaltySaves'', sc_penaltySaves c),
     (''bonus'', sc_bonus c), (''penaltyMisses'', sc_penaltyMisses c), (''yellowCards'', sc_yellowCards c),
     (''redCards'', sc_redCards c), (''ownGoals'', sc_ownGoals c)]"

definition config_fields :: "(string \<times> json) list \<Rightarrow> scoring_config \<Rightarrow> bool" where
  "config_fields ob c \<longleftrightarrow> has_exactly ob expectedKeys \<and> map_of ob ''version'' = Some (JNum 1) \<and>
     (\<exists>app. map_of ob ''appearance'' = Some (JObj app) \<and> has_exactly app [''underSixtyMinutes'', ''sixtyOrMoreMinutes''] \<and>
        map_of app ''underSixtyMinutes'' = Some (JNum (of_int (sc_underSixtyMinutes c))) \<and>
        map_of app ''sixtyOrMoreMinutes'' = Some (JNum (of_int (sc_sixtyOrMoreMinutes c)))) \<and>
     (\<exists>j. map_of ob ''goals'' = Some j \<and> same_json j (weights_object (sc_goals c))) \<and>
     map_of ob ''assists'' = Some (JNum (of_int (sc_assists c))) \<and>
     (\<exists>j. map_of ob ''cleanSheets'' = Some j \<and> same_json j (weights_object (sc_cleanSheets c))) \<and>
     (\<exists>j. map_of ob ''goalsConcededPerTwo'' = Some j \<and> same_json j (weights_object (sc_goalsConcededPerTwo c))) \<and>
     map_of ob ''savesPerThree'' = Some (JNum (of_int (sc_savesPerThree c))) \<and>
     map_of ob ''penaltySaves'' = Some (JNum (of_int (sc_penaltySaves c))) \<and>
     map_of ob ''penaltyMisses'' = Some (JNum (of_int (sc_penaltyMisses c))) \<and>
     map_of ob ''yellowCards'' = Some (JNum (of_int (sc_yellowCards c))) \<and>
     map_of ob ''redCards'' = Some (JNum (of_int (sc_redCards c))) \<and>
     map_of ob ''ownGoals'' = Some (JNum (of_int (sc_ownGoals c))) \<and>
     map_of ob ''bonus'' = Some (JNum (of_int (sc_bonus c)))"

lemma same_config: "same_json (JObj ob) (config_object c) \<longleftrightarrow> config_fields ob c"
proof -
  have k: "has_exactly ob expectedKeys \<longleftrightarrow> set (map fst ob) = set expectedKeys"
    by (rule has_exactly_iff) (simp add: expectedKeys_def)
  have a: "has_exactly app [''underSixtyMinutes'', ''sixtyOrMoreMinutes''] \<longleftrightarrow>
      set (map fst app) = {''underSixtyMinutes'', ''sixtyOrMoreMinutes''}" for app :: "(string \<times> json) list"
    by (subst has_exactly_iff) simp_all
  have app: "same_json u (JObj [(''underSixtyMinutes'', JNum x), (''sixtyOrMoreMinutes'', JNum y)]) \<longleftrightarrow>
      (\<exists>app. u = JObj app \<and> has_exactly app [''underSixtyMinutes'', ''sixtyOrMoreMinutes''] \<and>
        map_of app ''underSixtyMinutes'' = Some (JNum x) \<and> map_of app ''sixtyOrMoreMinutes'' = Some (JNum y))" for u x y
    by (simp add: same_obj_fields same_num_simps a)
  obtain fs where fs: "config_object c = JObj fs" by (simp add: config_object_def)
  then have keys: "map fst fs = expectedKeys" by (auto simp: config_object_def expectedKeys_def)
  have dist: "distinct (map fst fs)" by (simp add: keys) (simp add: expectedKeys_def)
  have "same_json (JObj ob) (config_object c) \<longleftrightarrow> has_exactly ob expectedKeys \<and>
      (\<forall>(k, w) \<in> set fs. \<exists>u. map_of ob k = Some u \<and> same_json u w)"
    unfolding fs k using same_obj_fields [OF dist, of "JObj ob", unfolded keys] by auto
  moreover have "(\<forall>(k, w) \<in> set fs. \<exists>u. map_of ob k = Some u \<and> same_json u w) \<and> has_exactly ob expectedKeys \<longleftrightarrow> config_fields ob c"
    using fs unfolding config_object_def config_fields_def json.inject(5) [symmetric]
    by (auto simp only: json.inject list.set ball_simps case_prod_conv app same_num_simps; simp)
  ultimately show ?thesis by blast
qed

lemma parse_fields:
  "parseLeagueScoringConfig (JObj ob) = Inr c \<longleftrightarrow> config_wf c \<and> config_fields ob c"
proof
  assume ok: "parseLeagueScoringConfig (JObj ob) = Inr c"
  obtain app rewards penalties under sixty goals cs gc where
    keys: "has_exactly ob expectedKeys" "map_of ob ''version'' = Some (JNum 1)"
      "map_of ob ''appearance'' = Some (JObj app)" "has_exactly app [''underSixtyMinutes'', ''sixtyOrMoreMinutes'']"
    and flat: "readFlatWeights ob nonNegativeFields 0 100 = Inr rewards"
      "readFlatWeights ob nonPositiveFields (-100) 0 = Inr penalties"
    and appearance: "readInteger (map_of app ''underSixtyMinutes'') ''appearance.underSixtyMinutes'' 0 100 = Inr under"
      "readInteger (map_of app ''sixtyOrMoreMinutes'') ''appearance.sixtyOrMoreMinutes'' 0 100 = Inr sixty"
    and weights: "readPositionWeights (map_of ob ''goals'') ''goals'' 0 100 = Inr goals"
      "readPositionWeights (map_of ob ''cleanSheets'') ''cleanSheets'' 0 100 = Inr cs"
      "readPositionWeights (map_of ob ''goalsConcededPerTwo'') ''goalsConcededPerTwo'' (-100) 0 = Inr gc"
    and c: "c = (let flat = (\<lambda>f. the (map_of (penalties @ rewards) f)) in
        \<lparr>sc_underSixtyMinutes = under, sc_sixtyOrMoreMinutes = sixty,
         sc_goals = goals, sc_assists = flat ''assists'', sc_cleanSheets = cs,
         sc_goalsConcededPerTwo = gc, sc_savesPerThree = flat ''savesPerThree'',
         sc_penaltySaves = flat ''penaltySaves'', sc_penaltyMisses = flat ''penaltyMisses'',
         sc_yellowCards = flat ''yellowCards'', sc_redCards = flat ''redCards'',
         sc_ownGoals = flat ''ownGoals'', sc_bonus = flat ''bonus''\<rparr>)"
    using ok unfolding parseLeagueScoringConfig_def Let_def
    by (auto elim!: as_record.elims split: option.splits if_splits)
  obtain a1 a2 a3 a4 where r: "rewards = [(''assists'', a1), (''savesPerThree'', a2), (''penaltySaves'', a3), (''bonus'', a4)]"
    using readFlatWeights_keys [OF flat(1)] by (auto simp: nonNegativeFields_def map_eq_Cons_conv)
  obtain b1 b2 b3 b4 where p: "penalties = [(''penaltyMisses'', b1), (''yellowCards'', b2), (''redCards'', b3), (''ownGoals'', b4)]"
    using readFlatWeights_keys [OF flat(2)] by (auto simp: nonPositiveFields_def map_eq_Cons_conv)
  note fl = flat [unfolded readFlatWeights_iff r p nonNegativeFields_def nonPositiveFields_def, simplified]
  note ap = appearance [unfolded readInteger_iff] and we = weights [unfolded readPositionWeights_iff]
  have cc: "c = \<lparr>sc_underSixtyMinutes = under, sc_sixtyOrMoreMinutes = sixty, sc_goals = goals, sc_assists = a1, sc_cleanSheets = cs,
       sc_goalsConcededPerTwo = gc, sc_savesPerThree = a2, sc_penaltySaves = a3, sc_penaltyMisses = b1, sc_yellowCards = b2,
       sc_redCards = b3, sc_ownGoals = b4, sc_bonus = a4\<rparr>" by (simp add: c r p)
  have "config_wf c" using fl ap we by (simp add: config_wf_def cc)
  moreover have "config_fields ob c" using keys fl ap we unfolding config_fields_def by (simp add: cc)
  ultimately show "config_wf c \<and> config_fields ob c" by blast
next
  assume r: "config_wf c \<and> config_fields ob c"
  then have wf: "config_wf c" and f: "config_fields ob c" by simp_all
  have rewards: "readFlatWeights ob nonNegativeFields 0 100 = Inr (take 4 (flat_values c))"
    and penalties: "readFlatWeights ob nonPositiveFields (-100) 0 = Inr (drop 4 (flat_values c))"
    using wf f unfolding readFlatWeights_iff by (simp_all add: config_wf_def config_fields_def flat_values_def nonNegativeFields_def nonPositiveFields_def)
  have weights: "readPositionWeights (map_of ob ''goals'') ''goals'' 0 100 = Inr (sc_goals c)"
      "readPositionWeights (map_of ob ''cleanSheets'') ''cleanSheets'' 0 100 = Inr (sc_cleanSheets c)"
      "readPositionWeights (map_of ob ''goalsConcededPerTwo'') ''goalsConcededPerTwo'' (-100) 0 = Inr (sc_goalsConcededPerTwo c)"
    using wf f unfolding readPositionWeights_iff by (auto simp: config_wf_def config_fields_def)
  obtain app where app: "map_of ob ''appearance'' = Some (JObj app)" "has_exactly app [''underSixtyMinutes'', ''sixtyOrMoreMinutes'']"
    "readInteger (map_of app ''underSixtyMinutes'') ''appearance.underSixtyMinutes'' 0 100 = Inr (sc_underSixtyMinutes c)"
    "readInteger (map_of app ''sixtyOrMoreMinutes'') ''appearance.sixtyOrMoreMinutes'' 0 100 = Inr (sc_sixtyOrMoreMinutes c)"
    using wf f unfolding readInteger_iff by (auto simp: config_wf_def config_fields_def)
  have "has_exactly ob expectedKeys" "map_of ob ''version'' = Some (JNum 1)" using f by (simp_all add: config_fields_def)
  then show "parseLeagueScoringConfig (JObj ob) = Inr c"
    unfolding parseLeagueScoringConfig_def by (simp add: app rewards penalties weights flat_values_def)
qed

text \<open>
  C14. The parser of scoring rules accepts exactly the objects of canonical configurations, whatever the order of their
  keys: no field is missing or unknown, every number is an integer, rewards lie between 0 and 100 and penalties
  between -100 and 0, and the configuration returned has the very numbers of the input.
\<close>

theorem parseLeagueScoringConfig_wf:
  "parseLeagueScoringConfig input = Inr c \<longleftrightarrow> config_wf c \<and> same_json input (config_object c)"
proof (cases input)
  case (JObj ob)
  then show ?thesis by (simp add: parse_fields same_config)
qed (simp_all add: parseLeagueScoringConfig_def config_object_def same_obj_simps)

lemma has_exactly_refl: "distinct (map fst ob) \<Longrightarrow> map fst ob = ks \<Longrightarrow> has_exactly ob ks"
  by (auto simp: has_exactly_def length_js_unique_iff [THEN iffD2] list_all_iff)

lemma readPositionWeights_object:
  "weights_in lo hi w \<Longrightarrow> readPositionWeights (Some (weights_object w)) path lo hi = Inr w"
  by (simp add: readPositionWeights_def weights_object_def has_exactly_refl position_keys_def
      readInteger_num weights_in_iff)

lemma parse_config_object: "config_wf c \<Longrightarrow> parseLeagueScoringConfig (config_object c) = Inr c"
  by (simp add: parseLeagueScoringConfig_def config_object_def has_exactly_refl expectedKeys_def
      config_wf_def readFlatWeights_def nonNegativeFields_def nonPositiveFields_def
      readInteger_num readPositionWeights_object)

text \<open>
  Parsing is the identity on canonical configurations: the object of any well-formed
  configuration parses back to that configuration, so parsing twice is parsing once.
\<close>

theorem parseLeagueScoringConfig_roundtrip:
  assumes "config_wf c"
  shows "parseLeagueScoringConfig (config_object c) = Inr c"
  using assms by (rule parse_config_object)

theorem parseLeagueScoringConfig_roundtrip_witness:
  "config_wf (LEAGUE_SCORING_PRESETS ALL_ATTACK) \<and>
   parseLeagueScoringConfig (config_object (LEAGUE_SCORING_PRESETS ALL_ATTACK)) = Inr (LEAGUE_SCORING_PRESETS ALL_ATTACK)"
proof -
  have wf: "config_wf (LEAGUE_SCORING_PRESETS ALL_ATTACK)"
    by (simp add: config_wf_def makePreset_def weights_in_iff)
  with parseLeagueScoringConfig_roundtrip [OF wf] show ?thesis by simp
qed

lemma presets_wf: "config_wf (LEAGUE_SCORING_PRESETS p)"
  by (cases p) (simp_all add: config_wf_def makePreset_def weights_in_iff)

text \<open>Naming a preset gives exactly that preset; naming anything else is an error.\<close>

lemma resolve_preset:
  "resolveLeagueScoringConfig None (Some (JStr s)) =
     (case preset_of_name s of None \<Rightarrow> Inl UnknownScoringPreset
      | Some p \<Rightarrow> Inr (Some (LEAGUE_SCORING_PRESETS p)))"
proof (cases "preset_of_name s")
  case (Some p)
  then show ?thesis by (simp add: resolveLeagueScoringConfig_def parse_config_object [OF presets_wf])
qed (simp add: resolveLeagueScoringConfig_def)

end
