(* ===== verification/Scoring.thy ===== *)
theory Scoring
  imports Scoring_Config
begin

text \<open>
  Gameweek scoring, \<open>backend/src/services/scoring/scoringService.ts\<close>: the automatic substitution
  engine, the lineup score with captaincy and chips, the compiled-scorer cache, head-to-head
  results and the two operations that persist a score.

  The source mutates shared objects: \<open>currentStarters[i] = benchGkp\<close> makes the eleven point at a
  bench object whose flags are then set through \<open>benchDetails\<close>. The model keeps the two arrays of
  objects and represents the eleven as references into them (\<open>slot\<close>). Points and minutes are
  integers. A compiled scorer is cached under the canonical configuration, which determines the
  JSON string the source uses as key.
\<close>

section \<open>Data\<close>

datatype chip_type = TRIPLE_CAPTAIN | BENCH_BOOST | FREE_HIT | WILDCARD

record lineup_player =
  lp_playerId :: int
  lp_position :: position
  lp_isStarter :: bool
  lp_isCaptain :: bool
  lp_isViceCaptain :: bool
  lp_positionOrder :: int

record score_detail =
  sd_playerId :: int
  sd_position :: position
  sd_isStarter :: bool
  sd_isCaptain :: bool
  sd_isViceCaptain :: bool
  sd_positionOrder :: int
  sd_minutesPlayed :: int
  sd_rawPoints :: int
  sd_multiplier :: int
  sd_effectivePoints :: int
  sd_subbedIn :: bool
  sd_subbedOut :: bool

record scoring_stats =
  ss_minutes :: int
  ss_totalPoints :: int
  ss_goals :: "int option"
  ss_assists :: "int option"
  ss_cleanSheet :: "bool option"
  ss_goalsConceded :: "int option"
  ss_saves :: "int option"
  ss_penaltiesSaved :: "int option"
  ss_penaltiesMissed :: "int option"
  ss_yellowCards :: "int option"
  ss_redCards :: "int option"
  ss_ownGoals :: "int option"
  ss_bonus :: "int option"

record formation_counts =
  fc_gkp :: int
  fc_def :: int
  fc_mid :: int
  fc_fwd :: int

datatype slot = Starter nat | Bench nat

record lineup_state =
  ls_starters :: "score_detail list"
  ls_bench :: "score_detail list"
  ls_current :: "slot list"

record lineup_score =
  lsc_startingPoints :: int
  lsc_benchPoints :: int
  lsc_captainPoints :: int
  lsc_transferCost :: int
  lsc_totalPoints :: int
  lsc_details :: "score_detail list"

section \<open>Automatic substitutions\<close>

fun count_step :: "formation_counts \<Rightarrow> position \<Rightarrow> formation_counts" where
  "count_step c GKP = c\<lparr>fc_gkp := fc_gkp c + 1\<rparr>"
| "count_step c DEF = c\<lparr>fc_def := fc_def c + 1\<rparr>"
| "count_step c MID = c\<lparr>fc_mid := fc_mid c + 1\<rparr>"
| "count_step c FWD = c\<lparr>fc_fwd := fc_fwd c + 1\<rparr>"

definition countFormation :: "score_detail list \<Rightarrow> formation_counts" where
  "countFormation ps =
     foldl (\<lambda>c p. count_step c (sd_position p)) \<lparr>fc_gkp = 0, fc_def = 0, fc_mid = 0, fc_fwd = 0\<rparr> ps"

definition one_if :: "bool \<Rightarrow> int" where
  "one_if b = (if b then 1 else 0)"

definition swapKeepsFormationValid :: "score_detail \<Rightarrow> score_detail \<Rightarrow> formation_counts \<Rightarrow> bool" where
  "swapKeepsFormationValid starter candidate c \<longleftrightarrow>
     fc_gkp c - one_if (sd_position starter = GKP) + one_if (sd_position candidate = GKP) \<ge> int (MIN_STARTERS GKP) \<and>
     fc_def c - one_if (sd_position starter = DEF) + one_if (sd_position candidate = DEF) \<ge> int (MIN_STARTERS DEF) \<and>
     fc_mid c - one_if (sd_position starter = MID) + one_if (sd_position candidate = MID) \<ge> int (MIN_STARTERS MID) \<and>
     fc_fwd c - one_if (sd_position starter = FWD) + one_if (sd_position candidate = FWD) \<ge> int (MIN_STARTERS FWD)"

fun deref :: "lineup_state \<Rightarrow> slot \<Rightarrow> score_detail" where
  "deref st (Starter i) = ls_starters st ! i"
| "deref st (Bench j) = ls_bench st ! j"

text \<open>\<open>starter.subbedOut = true\<close>, through the reference.\<close>

fun mark_out :: "lineup_state \<Rightarrow> slot \<Rightarrow> lineup_state" where
  "mark_out st (Starter i) = st\<lparr>ls_starters := (ls_starters st)[i := (ls_starters st ! i)\<lparr>sd_subbedOut := True\<rparr>]\<rparr>"
| "mark_out st (Bench j) = st\<lparr>ls_bench := (ls_bench st)[j := (ls_bench st ! j)\<lparr>sd_subbedOut := True\<rparr>]\<rparr>"

text \<open>\<open>candidate.subbedIn = true; currentStarters[i] = candidate\<close>\<close>

definition bring_on :: "lineup_state \<Rightarrow> nat \<Rightarrow> nat \<Rightarrow> lineup_state" where
  "bring_on st i j = st\<lparr>ls_bench := (ls_bench st)[j := (ls_bench st ! j)\<lparr>sd_subbedIn := True\<rparr>],
                        ls_current := (ls_current st)[i := Bench j]\<rparr>"

definition substitute :: "lineup_state \<Rightarrow> nat \<Rightarrow> nat \<Rightarrow> lineup_state" where
  "substitute st i j = bring_on (mark_out st (ls_current st ! i)) i j"

definition eligible_keeper :: "score_detail \<Rightarrow> bool" where
  "eligible_keeper b \<longleftrightarrow> sd_position b = GKP \<and> \<not> sd_subbedIn b \<and> sd_minutesPlayed b > 0"

definition eligible_outfield :: "score_detail \<Rightarrow> formation_counts \<Rightarrow> score_detail \<Rightarrow> bool" where
  "eligible_outfield starter cnts b \<longleftrightarrow>
     \<not> (sd_position b = GKP \<or> sd_subbedIn b \<or> sd_minutesPlayed b = 0) \<and> swapKeepsFormationValid starter b cnts"

text \<open>One iteration of the loop of \<open>resolveAutoSubstitutions\<close>.\<close>

definition auto_sub_step :: "lineup_state \<Rightarrow> nat \<Rightarrow> lineup_state" where
  "auto_sub_step st i =
     (let starter = deref st (ls_current st ! i);
          cnts = countFormation (map (deref st) (ls_current st))
      in if sd_minutesPlayed starter > 0 then st
         else if sd_position starter = GKP then
           (case find_idx eligible_keeper (ls_bench st) of
              None \<Rightarrow> st | Some j \<Rightarrow> substitute st i j)
         else
           (case find_idx (eligible_outfield starter cnts) (ls_bench st) of
              None \<Rightarrow> st | Some j \<Rightarrow> substitute st i j))"

definition initial_lineup :: "score_detail list \<Rightarrow> score_detail list \<Rightarrow> lineup_state" where
  "initial_lineup starters bench =
     \<lparr>ls_starters = starters, ls_bench = bench, ls_current = map Starter [0..<length starters]\<rparr>"

definition resolveAutoSubstitutions :: "score_detail list \<Rightarrow> score_detail list \<Rightarrow> lineup_state" where
  "resolveAutoSubstitutions starters bench =
     foldl auto_sub_step (initial_lineup starters bench) [0..<length starters]"

section \<open>The compiled scorer and its cache\<close>

type_synonym scorer = "position \<Rightarrow> scoring_stats \<Rightarrow> int"
type_synonym scorer_cache = "(scoring_config \<times> scorer) list"

definition orz :: "int option \<Rightarrow> int" where
  "orz v = (case v of None \<Rightarrow> 0 | Some n \<Rightarrow> n)"

definition compile_scorer :: "scoring_config \<Rightarrow> scorer" where
  "compile_scorer c pos st =
     (let minutes = ss_minutes st
      in (if minutes > 0 then (if minutes \<ge> 60 then sc_sixtyOrMoreMinutes c else sc_underSixtyMinutes c) else 0)
         + orz (ss_goals st) * weight_at (sc_goals c) pos
         + orz (ss_assists st) * sc_assists c
         + (if ss_cleanSheet st = Some True then weight_at (sc_cleanSheets c) pos else 0)
         + (orz (ss_goalsConceded st) div 2) * weight_at (sc_goalsConcededPerTwo c) pos
         + (orz (ss_saves st) div 3) * sc_savesPerThree c
         + orz (ss_penaltiesSaved st) * sc_penaltySaves c
         + orz (ss_penaltiesMissed st) * sc_penaltyMisses c
         + orz (ss_yellowCards st) * sc_yellowCards c
         + orz (ss_redCards st) * sc_redCards c
         + orz (ss_ownGoals st) * sc_ownGoals c
         + orz (ss_bonus st) * sc_bonus c)"

definition MAX_COMPILED_SCORERS :: nat where
  "MAX_COMPILED_SCORERS = 256"

definition refreshCompiledScorer :: "scorer_cache \<Rightarrow> scoring_config \<Rightarrow> scorer \<Rightarrow> scorer_cache" where
  "refreshCompiledScorer cache key f = AList.update key f (AList.delete key cache)"

definition getCompiledScorer :: "scorer_cache \<Rightarrow> json \<Rightarrow> config_error + (scorer \<times> scorer_cache)" where
  "getCompiledScorer cache config =
     res_bind (parseLeagueScoringConfig config) (\<lambda>canonical.
       case map_of cache canonical of
         Some cached \<Rightarrow> Inr (cached, refreshCompiledScorer cache canonical cached)
       | None \<Rightarrow>
           let cache' = (if length cache \<ge> MAX_COMPILED_SCORERS
                         then (case cache of [] \<Rightarrow> cache | (oldest, _) # _ \<Rightarrow> AList.delete oldest cache)
                         else cache)
           in Inr (compile_scorer canonical, AList.update canonical (compile_scorer canonical) cache'))"

section \<open>The score of a lineup\<close>

definition no_stats :: scoring_stats where
  "no_stats = \<lparr>ss_minutes = 0, ss_totalPoints = 0, ss_goals = None, ss_assists = None, ss_cleanSheet = None,
     ss_goalsConceded = None, ss_saves = None, ss_penaltiesSaved = None, ss_penaltiesMissed = None,
     ss_yellowCards = None, ss_redCards = None, ss_ownGoals = None, ss_bonus = None\<rparr>"

definition stats_for :: "(int \<times> scoring_stats) list \<Rightarrow> int \<Rightarrow> scoring_stats" where
  "stats_for statsMap i = (case map_of statsMap i of None \<Rightarrow> no_stats | Some s \<Rightarrow> s)"

definition make_detail :: "(int \<times> scoring_stats) list \<Rightarrow> lineup_player \<Rightarrow> score_detail" where
  "make_detail statsMap p =
     (let st = stats_for statsMap (lp_playerId p)
      in \<lparr>sd_playerId = lp_playerId p, sd_position = lp_position p, sd_isStarter = lp_isStarter p,
          sd_isCaptain = lp_isCaptain p, sd_isViceCaptain = lp_isViceCaptain p,
          sd_positionOrder = lp_positionOrder p, sd_minutesPlayed = ss_minutes st,
          sd_rawPoints = ss_totalPoints st, sd_multiplier = 1, sd_effectivePoints = ss_totalPoints st,
          sd_subbedIn = False, sd_subbedOut = False\<rparr>)"

abbreviation by_order :: "score_detail cmp" where
  "by_order \<equiv> asc (\<lambda>d. of_int (sd_positionOrder d))"

text \<open>The index of the active captain in \<open>starterDetails\<close>.\<close>

definition active_captain :: "score_detail list \<Rightarrow> nat option" where
  "active_captain starters =
     (let captain = find_idx sd_isCaptain starters;
          vice = find_idx sd_isViceCaptain starters;
          played = (\<lambda>i. sd_minutesPlayed (starters ! i) > 0)
      in case captain of
           Some i \<Rightarrow> if played i then Some i
                     else (case vice of Some j \<Rightarrow> if played j then Some j else Some i | None \<Rightarrow> Some i)
         | None \<Rightarrow> (case vice of Some j \<Rightarrow> if played j then Some j else None | None \<Rightarrow> None))"

definition apply_captain :: "int \<Rightarrow> lineup_state \<Rightarrow> lineup_state" where
  "apply_captain m st =
     (case active_captain (ls_starters st) of
        None \<Rightarrow> st
      | Some i \<Rightarrow> st\<lparr>ls_starters := (ls_starters st)[i := (ls_starters st ! i)
                     \<lparr>sd_multiplier := m, sd_effectivePoints := sd_rawPoints (ls_starters st ! i) * m\<rparr>]\<rparr>)"

definition captainMultiplier :: "chip_type option \<Rightarrow> int" where
  "captainMultiplier chip = (if chip = Some TRIPLE_CAPTAIN then 3 else 2)"

definition captain_bonus :: "score_detail list \<Rightarrow> int" where
  "captain_bonus xi = foldl (\<lambda>acc p. if sd_multiplier p > 1 then sd_rawPoints p * (sd_multiplier p - 1) else acc) 0 xi"

definition sum_lineup :: "chip_type option \<Rightarrow> int \<Rightarrow> lineup_state \<Rightarrow> lineup_score" where
  "sum_lineup chip transferCost st =
     (let xi = map (deref st) (ls_current st);
          startingPoints = (\<Sum>p\<leftarrow>xi. sd_effectivePoints p);
          benchPoints = (\<Sum>b\<leftarrow>filter (\<lambda>b. \<not> sd_subbedIn b) (ls_bench st). sd_rawPoints b);
          cost = (if chip = Some WILDCARD \<or> chip = Some FREE_HIT then 0 else transferCost)
      in \<lparr>lsc_startingPoints = startingPoints,
          lsc_benchPoints = benchPoints,
          lsc_captainPoints = captain_bonus xi,
          lsc_transferCost = cost,
          lsc_totalPoints = startingPoints + (if chip = Some BENCH_BOOST then benchPoints else 0) - cost,
          lsc_details = js_sort by_order (ls_starters st @ ls_bench st)\<rparr>)"

text \<open>\<open>calculateLineupScore\<close> without a scoring configuration.\<close>

definition lineup_score_base ::
  "lineup_player list \<Rightarrow> (int \<times> scoring_stats) list \<Rightarrow> chip_type option \<Rightarrow> int option \<Rightarrow> lineup_score" where
  "lineup_score_base players statsMap chip transferCost =
     (let details = map (make_detail statsMap) players;
          starters = js_sort by_order (filter sd_isStarter details);
          bench = js_sort by_order (filter (\<lambda>d. \<not> sd_isStarter d) details);
          st = (if chip = Some BENCH_BOOST then initial_lineup starters bench
                else resolveAutoSubstitutions starters bench)
      in sum_lineup chip (case transferCost of None \<Rightarrow> 0 | Some c \<Rightarrow> c)
           (apply_captain (captainMultiplier chip) st))"

definition custom_stats ::
  "scorer \<Rightarrow> lineup_player list \<Rightarrow> (int \<times> scoring_stats) list \<Rightarrow> (int \<times> scoring_stats) list" where
  "custom_stats f players statsMap =
     js_map (map (\<lambda>p. let st = stats_for statsMap (lp_playerId p)
                      in (lp_playerId p, no_stats\<lparr>ss_minutes := ss_minutes st,
                                                  ss_totalPoints := f (lp_position p) st\<rparr>)) players)"

definition calculateLineupScore ::
  "scorer_cache \<Rightarrow> lineup_player list \<Rightarrow> (int \<times> scoring_stats) list \<Rightarrow> chip_type option \<Rightarrow> int option
     \<Rightarrow> json option \<Rightarrow> config_error + (lineup_score \<times> scorer_cache)" where
  "calculateLineupScore cache players statsMap chip transferCost scoringConfig =
     (case scoringConfig of
        None \<Rightarrow> Inr (lineup_score_base players statsMap chip transferCost, cache)
      | Some config \<Rightarrow>
          res_bind (getCompiledScorer cache config) (\<lambda>(f, cache').
            Inr (lineup_score_base players (custom_stats f players statsMap) chip transferCost, cache')))"

definition resolveHeadToHead :: "int \<Rightarrow> int \<Rightarrow> int \<times> int" where
  "resolveHeadToHead home away =
     (if home > away then (3, 0) else if home < away then (0, 3) else (1, 1))"

section \<open>Persistence\<close>

text \<open>
  The tables the scoring service reads and writes. \<open>player_gameweek_stats\<close> has one row per player,
  gameweek and fixture; the score tables are keyed by their unique constraints. A chip row carries
  its type and whether it has been cancelled.
\<close>

record stats_row =
  row_playerId :: int
  row_gameweekId :: int
  row_fixtureId :: int
  row_stats :: scoring_stats

record score_row =
  sr_points :: int
  sr_benchPoints :: int
  sr_captainPoints :: int
  sr_transferCost :: int

record scoring_db =
  db_squads :: "(string \<times> lineup_player list) list"
  db_totalPoints :: "(string \<times> int) list"
  db_stats :: "stats_row list"
  db_chips :: "((string \<times> int) \<times> (chip_type \<times> bool)) list"
  db_scores :: "((string \<times> int) \<times> score_row) list"
  db_leagueScores :: "((string \<times> string \<times> int) \<times> int) list"

record gameweek_result =
  gr_startingPoints :: int
  gr_benchPoints :: int
  gr_captainPoints :: int
  gr_transferCost :: int
  gr_chip :: "chip_type option"
  gr_totalPoints :: int
  gr_lineupDetails :: "score_detail list"

datatype scoring_error = SquadNotFound string | BadScoringConfig config_error

text \<open>\<open>squad.findUnique\<close> with its players ordered by \<open>positionOrder\<close>.\<close>

definition find_squad :: "scoring_db \<Rightarrow> string \<Rightarrow> lineup_player list option" where
  "find_squad db squadId = map_option (js_sort (asc (\<lambda>p. of_int (lp_positionOrder p)))) (map_of (db_squads db) squadId)"

definition squad_stats_rows :: "scoring_db \<Rightarrow> lineup_player list \<Rightarrow> int \<Rightarrow> stats_row list" where
  "squad_stats_rows db players gw =
     filter (\<lambda>r. row_gameweekId r = gw \<and> row_playerId r \<in> lp_playerId ` set players) (db_stats db)"

text \<open>The loop that adds up the fixtures of a double gameweek.\<close>

definition merge_stats :: "(int \<times> scoring_stats) list \<Rightarrow> stats_row \<Rightarrow> (int \<times> scoring_stats) list" where
  "merge_stats m r =
     (case map_of m (row_playerId r) of
        Some e \<Rightarrow> AList.update (row_playerId r)
                   (e\<lparr>ss_minutes := ss_minutes e + ss_minutes (row_stats r),
                      ss_totalPoints := ss_totalPoints e + ss_totalPoints (row_stats r)\<rparr>) m
      | None \<Rightarrow> AList.update (row_playerId r)
                   (no_stats\<lparr>ss_minutes := ss_minutes (row_stats r), ss_totalPoints := ss_totalPoints (row_stats r)\<rparr>) m)"

definition stored_transfer_cost :: "scoring_db \<Rightarrow> string \<Rightarrow> int \<Rightarrow> int" where
  "stored_transfer_cost db squadId gw =
     (case map_of (db_scores db) (squadId, gw) of None \<Rightarrow> 0 | Some r \<Rightarrow> sr_transferCost r)"

definition squad_points_sum :: "scoring_db \<Rightarrow> string \<Rightarrow> int" where
  "squad_points_sum db squadId =
     (\<Sum>(k, r)\<leftarrow>filter (\<lambda>(k, r). fst k = squadId) (db_scores db). sr_points r)"

definition calculateAndPersistSquadScore ::
  "scoring_db \<Rightarrow> string \<Rightarrow> int \<Rightarrow> scoring_error + (gameweek_result \<times> scoring_db)" where
  "calculateAndPersistSquadScore db squadId gw =
     (case find_squad db squadId of
        None \<Rightarrow> Inl (SquadNotFound squadId)
      | Some players \<Rightarrow>
          (let statsMap = foldl merge_stats [] (squad_stats_rows db players gw);
               chip = (case map_of (db_chips db) (squadId, gw) of
                         Some (c, cancelled) \<Rightarrow> if cancelled then None else Some c
                       | None \<Rightarrow> None);
               r = lineup_score_base players statsMap chip (Some (stored_transfer_cost db squadId gw));
               db1 = db\<lparr>db_scores := AList.update (squadId, gw)
                          \<lparr>sr_points = lsc_totalPoints r, sr_benchPoints = lsc_benchPoints r,
                           sr_captainPoints = lsc_captainPoints r, sr_transferCost = lsc_transferCost r\<rparr>
                          (db_scores db)\<rparr>;
               db2 = db1\<lparr>db_totalPoints := AList.update squadId (squad_points_sum db1 squadId) (db_totalPoints db1)\<rparr>
           in Inr (\<lparr>gr_startingPoints = lsc_startingPoints r, gr_benchPoints = lsc_benchPoints r,
                    gr_captainPoints = lsc_captainPoints r, gr_transferCost = lsc_transferCost r,
                    gr_chip = chip, gr_totalPoints = lsc_totalPoints r, gr_lineupDetails = lsc_details r\<rparr>, db2)))"

definition calculateAndPersistLeagueScore ::
  "scorer_cache \<Rightarrow> scoring_db \<Rightarrow> string \<Rightarrow> string \<Rightarrow> int \<Rightarrow> json \<Rightarrow>
     scoring_error + (int \<times> scoring_db \<times> scorer_cache)" where
  "calculateAndPersistLeagueScore cache db leagueId squadId gw scoringConfig =
     (case find_squad db squadId of
        None \<Rightarrow> Inl (SquadNotFound squadId)
      | Some players \<Rightarrow>
          (let statsMap = js_map (map (\<lambda>r. (row_playerId r, row_stats r)) (squad_stats_rows db players gw));
               chip = map_option fst (map_of (db_chips db) (squadId, gw))
           in case calculateLineupScore cache players statsMap chip (Some (stored_transfer_cost db squadId gw))
                     (Some scoringConfig) of
                Inl e \<Rightarrow> Inl (BadScoringConfig e)
              | Inr (r, cache') \<Rightarrow>
                  Inr (lsc_totalPoints r,
                       db\<lparr>db_leagueScores := AList.update (leagueId, squadId, gw) (lsc_totalPoints r) (db_leagueScores db)\<rparr>,
                       cache')))"

definition getSquadScoreAcrossGameweeks :: "scoring_db \<Rightarrow> string \<Rightarrow> int option \<Rightarrow> int option \<Rightarrow> int" where
  "getSquadScoreAcrossGameweeks db squadId startGw endGw =
     (\<Sum>(k, r)\<leftarrow>filter (\<lambda>(k, r). fst k = squadId \<and>
          (case startGw of None \<Rightarrow> True | Some g \<Rightarrow> g \<le> snd k) \<and>
          (case endGw of None \<Rightarrow> True | Some g \<Rightarrow> snd k \<le> g)) (db_scores db). sr_points r)"

section \<open>The substitution loop\<close>

text \<open>A detail without the two flags the loop writes.\<close>

definition core :: "score_detail \<Rightarrow> score_detail" where
  "core d = d\<lparr>sd_subbedIn := False, sd_subbedOut := False\<rparr>"

definition flags_clear :: "score_detail list \<Rightarrow> bool" where
  "flags_clear ds \<longleftrightarrow> (\<forall>d \<in> set ds. \<not> sd_subbedIn d \<and> \<not> sd_subbedOut d)"

definition formation_ok :: "position list \<Rightarrow> bool" where
  "formation_ok ps \<longleftrightarrow> (\<forall>pos. MIN_STARTERS pos \<le> count_list ps pos)"

definition xi_positions :: "lineup_state \<Rightarrow> position list" where
  "xi_positions st = map (\<lambda>s. sd_position (deref st s)) (ls_current st)"

text \<open>Slot \<open>k\<close> of the eleven after a substitution: who went off, who came on, and why.\<close>

definition replaced :: "score_detail list \<Rightarrow> score_detail list \<Rightarrow> lineup_state \<Rightarrow> nat \<Rightarrow> bool" where
  "replaced starters bench st k \<longleftrightarrow>
     sd_subbedOut (ls_starters st ! k) \<and> sd_minutesPlayed (starters ! k) \<le> 0 \<and>
     (\<exists>j < length bench. ls_current st ! k = Bench j \<and> sd_subbedIn (ls_bench st ! j) \<and>
        sd_minutesPlayed (bench ! j) \<noteq> 0 \<and> (sd_position (bench ! j) = GKP \<longleftrightarrow> sd_position (starters ! k) = GKP))"

definition subs_inv :: "score_detail list \<Rightarrow> score_detail list \<Rightarrow> nat \<Rightarrow> lineup_state \<Rightarrow> bool" where
  "subs_inv starters bench i st \<longleftrightarrow>
     map core (ls_starters st) = map core starters \<and> map core (ls_bench st) = map core bench \<and>
     length (ls_current st) = length starters \<and> distinct (ls_current st) \<and>
     (\<forall>k < length starters.
        (ls_current st ! k = Starter k \<and> \<not> sd_subbedOut (ls_starters st ! k)) \<or>
        (k < i \<and> replaced starters bench st k)) \<and>
     (\<forall>j < length bench. sd_subbedIn (ls_bench st ! j) \<longrightarrow> Bench j \<in> set (ls_current st))"

lemma core_simps [simp]:
  "sd_position (core d) = sd_position d" "sd_minutesPlayed (core d) = sd_minutesPlayed d"
  "sd_rawPoints (core d) = sd_rawPoints d" "sd_multiplier (core d) = sd_multiplier d"
  "sd_effectivePoints (core d) = sd_effectivePoints d" "sd_isStarter (core d) = sd_isStarter d"
  "core (d\<lparr>sd_subbedIn := b\<rparr>) = core d" "core (d\<lparr>sd_subbedOut := b\<rparr>) = core d"
  by (simp_all add: core_def)

lemma map_core_nth:
  assumes "map core xs = map core ys" and "i < length ys"
  shows "i < length xs" "sd_position (xs ! i) = sd_position (ys ! i)"
    "sd_minutesPlayed (xs ! i) = sd_minutesPlayed (ys ! i)" "sd_rawPoints (xs ! i) = sd_rawPoints (ys ! i)"
    "sd_effectivePoints (xs ! i) = sd_effectivePoints (ys ! i)" "sd_multiplier (xs ! i) = sd_multiplier (ys ! i)"
    "sd_isStarter (xs ! i) = sd_isStarter (ys ! i)"
proof -
  show len: "i < length xs" using assms by (metis length_map)
  have "core (xs ! i) = core (ys ! i)" using assms len by (metis nth_map)
  then show "sd_position (xs ! i) = sd_position (ys ! i)"
    "sd_minutesPlayed (xs ! i) = sd_minutesPlayed (ys ! i)" "sd_rawPoints (xs ! i) = sd_rawPoints (ys ! i)"
    "sd_effectivePoints (xs ! i) = sd_effectivePoints (ys ! i)" "sd_multiplier (xs ! i) = sd_multiplier (ys ! i)"
    "sd_isStarter (xs ! i) = sd_isStarter (ys ! i)"
    by (metis core_simps)+
qed

lemma subs_inv_lengths:
  "subs_inv starters bench i st \<Longrightarrow>
     length (ls_starters st) = length starters \<and> length (ls_bench st) = length bench"
  by (metis length_map subs_inv_def)

lemma subs_inv_bench_pos:
  "subs_inv starters bench i st \<Longrightarrow> j < length bench \<Longrightarrow> sd_position (ls_bench st ! j) = sd_position (bench ! j)"
  by (rule map_core_nth(2)) (simp_all add: subs_inv_def)

lemma subs_inv_starter_pos:
  "subs_inv starters bench i st \<Longrightarrow> k < length starters \<Longrightarrow> sd_position (ls_starters st ! k) = sd_position (starters ! k)"
  by (rule map_core_nth(2)) (simp_all add: subs_inv_def)

lemma subs_inv_current: "subs_inv starters bench i st \<Longrightarrow> i < length starters \<Longrightarrow> ls_current st ! i = Starter i"
  by (auto simp: subs_inv_def)

lemma subs_inv_init:
  assumes "flags_clear starters" and "flags_clear bench"
  shows "subs_inv starters bench 0 (initial_lineup starters bench)"
  using assms by (auto simp: subs_inv_def initial_lineup_def flags_clear_def distinct_map inj_on_def)

lemma substitute_fields:
  assumes "ls_current st ! i = Starter i"
  shows "ls_starters (substitute st i j) = (ls_starters st)[i := (ls_starters st ! i)\<lparr>sd_subbedOut := True\<rparr>]"
    and "ls_bench (substitute st i j) = (ls_bench st)[j := (ls_bench st ! j)\<lparr>sd_subbedIn := True\<rparr>]"
    and "ls_current (substitute st i j) = (ls_current st)[i := Bench j]"
  by (simp_all add: substitute_def bring_on_def assms)

text \<open>A bench object that is not flagged is not in the eleven.\<close>

lemma subs_inv_unused:
  assumes inv: "subs_inv starters bench i st" and j: "j < length bench" "\<not> sd_subbedIn (ls_bench st ! j)"
  shows "Bench j \<notin> set (ls_current st)"
proof
  assume "Bench j \<in> set (ls_current st)"
  then obtain k where k: "k < length starters" "ls_current st ! k = Bench j"
    using inv by (auto simp: in_set_conv_nth subs_inv_def)
  then have "replaced starters bench st k" using inv by (auto simp: subs_inv_def)
  then show False using k j by (auto simp: replaced_def)
qed

lemma substitute_inv:
  assumes inv: "subs_inv starters bench i st" and i: "i < length starters" and j: "j < length bench"
    and unused: "\<not> sd_subbedIn (ls_bench st ! j)"
    and off: "sd_minutesPlayed (starters ! i) \<le> 0" and on: "sd_minutesPlayed (bench ! j) \<noteq> 0"
    and pos: "sd_position (bench ! j) = GKP \<longleftrightarrow> sd_position (starters ! i) = GKP"
  shows "subs_inv starters bench (Suc i) (substitute st i j)"
proof -
  note len = subs_inv_lengths [OF inv]
  note upd = substitute_fields [OF subs_inv_current [OF inv i], of j]
  have cur: "length (ls_current st) = length starters" using inv by (simp add: subs_inv_def)
  have "distinct (ls_current (substitute st i j))"
    using inv subs_inv_unused [OF inv j unused] by (simp add: upd subs_inv_def distinct_list_update)
  moreover have "(ls_current (substitute st i j) ! k = Starter k \<and> \<not> sd_subbedOut (ls_starters (substitute st i j) ! k)) \<or>
      (k < Suc i \<and> replaced starters bench (substitute st i j) k)" if k: "k < length starters" for k
  proof (cases "k = i")
    case True
    then show ?thesis using i j len cur off on pos by (auto simp: replaced_def upd)
  next
    case False
    have "(ls_current st ! k = Starter k \<and> \<not> sd_subbedOut (ls_starters st ! k)) \<or>
        (k < i \<and> replaced starters bench st k)" using inv k by (auto simp: subs_inv_def)
    then show ?thesis using False j len by (auto simp: replaced_def upd nth_list_update)
  qed
  moreover have "Bench l \<in> set (ls_current (substitute st i j))"
    if l: "l < length bench" "sd_subbedIn (ls_bench (substitute st i j) ! l)" for l
  proof (cases "l = j")
    case True
    then show ?thesis using i cur by (simp add: upd set_update_memI)
  next
    case False
    then have "Bench l \<in> set (ls_current st)" using l inv by (auto simp: upd subs_inv_def)
    then obtain k where "k < length starters" "ls_current st ! k = Bench l"
      using cur by (auto simp: in_set_conv_nth)
    moreover from this have "k \<noteq> i" using subs_inv_current [OF inv i] by auto
    ultimately have "(ls_current st)[i := Bench j] ! k = Bench l \<and> k < length ((ls_current st)[i := Bench j])"
      using cur by simp
    then show ?thesis unfolding upd by (metis nth_mem)
  qed
  ultimately show ?thesis
    using inv i j len cur unfolding subs_inv_def
    by (simp add: upd map_update_same)
qed

lemma subs_inv_mono: "subs_inv starters bench i st \<Longrightarrow> subs_inv starters bench (Suc i) st"
  by (auto simp: subs_inv_def less_Suc_eq)

text \<open>The three outcomes of an iteration.\<close>

lemma auto_sub_step_cases:
  assumes inv: "subs_inv starters bench i st" and i: "i < length starters"
  shows "auto_sub_step st i = st \<or>
    (\<exists>j < length bench. auto_sub_step st i = substitute st i j \<and> \<not> sd_subbedIn (ls_bench st ! j) \<and>
       sd_minutesPlayed (starters ! i) \<le> 0 \<and> sd_minutesPlayed (bench ! j) \<noteq> 0 \<and>
       (sd_position (bench ! j) = GKP \<longleftrightarrow> sd_position (starters ! i) = GKP) \<and>
       (sd_position (starters ! i) \<noteq> GKP \<longrightarrow>
          swapKeepsFormationValid (ls_starters st ! i) (ls_bench st ! j)
            (countFormation (map (deref st) (ls_current st)))))"
proof -
  note len = subs_inv_lengths [OF inv] and cur = subs_inv_current [OF inv i]
  have st: "map core (ls_starters st) = map core starters" "map core (ls_bench st) = map core bench"
    using inv by (simp_all add: subs_inv_def)
  note same = map_core_nth(2,3) [OF st(1) i] and same_b = map_core_nth(2,3) [OF st(2)]
  show ?thesis
    using i len cur same same_b
    by (auto simp: auto_sub_step_def Let_def eligible_keeper_def eligible_outfield_def not_less
        split: option.splits dest!: find_idx_SomeD)
qed

lemma auto_sub_step_inv:
  "subs_inv starters bench i st \<Longrightarrow> i < length starters \<Longrightarrow> subs_inv starters bench (Suc i) (auto_sub_step st i)"
  using auto_sub_step_cases [of starters bench i st] substitute_inv subs_inv_mono by metis

lemma resolve_inv:
  assumes "flags_clear starters" and "flags_clear bench"
  shows "subs_inv starters bench (length starters) (resolveAutoSubstitutions starters bench)"
  unfolding resolveAutoSubstitutions_def
  by (rule foldl_upt_invariant) (use subs_inv_init [OF assms] auto_sub_step_inv in blast)+

section \<open>Formation safety\<close>

lemma countFormation_eq:
  "countFormation ps = \<lparr>fc_gkp = int (count_list (map sd_position ps) GKP), fc_def = int (count_list (map sd_position ps) DEF),
     fc_mid = int (count_list (map sd_position ps) MID), fc_fwd = int (count_list (map sd_position ps) FWD)\<rparr>"
proof -
  have step: "count_step c pos = c\<lparr>fc_gkp := fc_gkp c + of_bool (pos = GKP), fc_def := fc_def c + of_bool (pos = DEF),
      fc_mid := fc_mid c + of_bool (pos = MID), fc_fwd := fc_fwd c + of_bool (pos = FWD)\<rparr>" for c pos
    by (cases pos) simp_all
  have "foldl (\<lambda>c p. count_step c (sd_position p)) c ps =
      c\<lparr>fc_gkp := fc_gkp c + int (count_list (map sd_position ps) GKP), fc_def := fc_def c + int (count_list (map sd_position ps) DEF),
        fc_mid := fc_mid c + int (count_list (map sd_position ps) MID), fc_fwd := fc_fwd c + int (count_list (map sd_position ps) FWD)\<rparr>" for c
    by (induction ps arbitrary: c) (simp_all add: step)
  then show ?thesis by (simp add: countFormation_def)
qed

lemma swapKeepsFormationValid_iff:
  assumes "i < length ps" and "sd_position (ps ! i) = sd_position starter"
  shows "swapKeepsFormationValid starter candidate (countFormation ps) \<longleftrightarrow>
           formation_ok ((map sd_position ps)[i := sd_position candidate])"
proof -
  have "int (count_list ((map sd_position ps)[i := sd_position candidate]) p)
      = int (count_list (map sd_position ps) p) - one_if (sd_position starter = p) + one_if (sd_position candidate = p)" for p
    using assms by (subst count_list_update) (simp_all add: one_if_def)
  note count = this [symmetric]
  show ?thesis
    unfolding swapKeepsFormationValid_def formation_ok_def all_positions countFormation_eq
    by (simp only: formation_counts.select_convs count of_nat_le_iff)
qed

lemma xi_positions_substitute:
  assumes inv: "subs_inv starters bench i st" and i: "i < length starters" and j: "j < length bench"
  shows "xi_positions (substitute st i j) = (xi_positions st)[i := sd_position (bench ! j)]"
proof -
  note len = subs_inv_lengths [OF inv]
  note upd = substitute_fields [OF subs_inv_current [OF inv i], of j]
  have bj: "sd_position (ls_bench st ! j) = sd_position (bench ! j)"
    using subs_inv_bench_pos [OF inv j] .
  have "sd_position (deref (substitute st i j) s) = sd_position (deref st s)" for s
    using i j len by (cases s) (auto simp: upd nth_list_update list_update_beyond)
  then show ?thesis
    unfolding xi_positions_def upd(3) using bj by (simp add: map_update)
qed

lemma xi_positions_nth:
  assumes "subs_inv starters bench i st" and "i < length starters"
  shows "i < length (ls_current st)" "xi_positions st ! i = sd_position (starters ! i)"
  using assms subs_inv_current [OF assms] subs_inv_starter_pos [OF assms]
  by (simp_all add: subs_inv_def xi_positions_def)

lemma auto_sub_step_formation:
  assumes inv: "subs_inv starters bench i st" and i: "i < length starters"
    and ok: "formation_ok (xi_positions st)"
  shows "formation_ok (xi_positions (auto_sub_step st i)) \<and>
         count_list (xi_positions (auto_sub_step st i)) GKP = count_list (xi_positions st) GKP"
  using auto_sub_step_cases [OF inv i]
proof (elim disjE exE conjE)
  fix j
  assume j: "j < length bench" "auto_sub_step st i = substitute st i j"
    "(sd_position (bench ! j) = GKP) = (sd_position (starters ! i) = GKP)"
    and valid: "sd_position (starters ! i) \<noteq> GKP \<longrightarrow>
          swapKeepsFormationValid (ls_starters st ! i) (ls_bench st ! j)
            (countFormation (map (deref st) (ls_current st)))"
  note nth = xi_positions_nth [OF inv i]
  have bj: "sd_position (ls_bench st ! j) = sd_position (bench ! j)"
    using subs_inv_bench_pos [OF inv j(1)] .
  have xi: "xi_positions st = map sd_position (map (deref st) (ls_current st))" by (simp add: xi_positions_def)
  have eq: "xi_positions (auto_sub_step st i) = (xi_positions st)[i := sd_position (bench ! j)]"
    unfolding j(2) by (rule xi_positions_substitute [OF inv i j(1)])
  have "formation_ok ((xi_positions st)[i := sd_position (bench ! j)])"
  proof (cases "sd_position (starters ! i) = GKP")
    case True
    then have "(xi_positions st)[i := sd_position (bench ! j)] = xi_positions st"
      using j(3) nth by (metis list_update_id)
    with ok show ?thesis by simp
  next
    case False
    then show ?thesis
      using valid nth subs_inv_current [OF inv i] unfolding xi bj [symmetric]
      by (subst swapKeepsFormationValid_iff [symmetric, of _ _ "ls_starters st ! i"]) simp_all
  qed
  moreover have "int (count_list ((xi_positions st)[i := sd_position (bench ! j)]) GKP) = int (count_list (xi_positions st) GKP)"
    using j(3) nth by (subst count_list_update) (auto simp: xi_positions_def)
  ultimately show ?thesis unfolding eq by simp
qed (use ok in simp)

lemma resolve_formation:
  assumes "flags_clear starters" and "flags_clear bench" and "formation_ok (map sd_position starters)"
  shows "formation_ok (xi_positions (resolveAutoSubstitutions starters bench)) \<and>
         count_list (xi_positions (resolveAutoSubstitutions starters bench)) GKP = count_list (map sd_position starters) GKP"
proof -
  let ?I = "\<lambda>i st. subs_inv starters bench i st \<and> formation_ok (xi_positions st) \<and>
      count_list (xi_positions st) GKP = count_list (map sd_position starters) GKP"
  have "xi_positions (initial_lineup starters bench) = map sd_position starters"
    by (rule nth_equalityI) (simp_all add: xi_positions_def initial_lineup_def)
  then have init: "?I 0 (initial_lineup starters bench)"
    using assms(3) subs_inv_init [OF assms(1,2)] by simp
  have "?I (length starters) (foldl auto_sub_step (initial_lineup starters bench) [0..<length starters])"
    by (rule foldl_upt_invariant [where I = ?I, OF init])
      (use auto_sub_step_inv auto_sub_step_formation in fastforce)
  then show ?thesis by (simp add: resolveAutoSubstitutions_def)
qed

text \<open>
  C15. Automatic substitutions keep the formation legal: from a legal eleven (at least one
  goalkeeper, three defenders, two midfielders and one forward) every swap and hence the final
  eleven is legal, it has as many players as before, and the number of goalkeepers is unchanged.
\<close>

theorem auto_substitutions_formation:
  assumes "flags_clear starters" and "flags_clear bench" and "formation_ok (map sd_position starters)"
  shows "formation_ok (xi_positions (resolveAutoSubstitutions starters bench))
       \<and> length (ls_current (resolveAutoSubstitutions starters bench)) = length starters
       \<and> count_list (xi_positions (resolveAutoSubstitutions starters bench)) GKP
           = count_list (map sd_position starters) GKP"
  using resolve_formation [OF assms] resolve_inv [OF assms(1,2)] by (simp add: subs_inv_def)

text \<open>A squad whose goalkeeper, one defender and one forward did not play.\<close>

definition example_detail :: "int \<Rightarrow> position \<Rightarrow> bool \<Rightarrow> int \<Rightarrow> score_detail" where
  "example_detail n pos starter mins =
     \<lparr>sd_playerId = n, sd_position = pos, sd_isStarter = starter, sd_isCaptain = (n = 1), sd_isViceCaptain = (n = 2),
      sd_positionOrder = n, sd_minutesPlayed = mins, sd_rawPoints = n, sd_multiplier = 1,
      sd_effectivePoints = n, sd_subbedIn = False, sd_subbedOut = False\<rparr>"

definition example_starters :: "score_detail list" where
  "example_starters = [example_detail 1 GKP True 0, example_detail 2 DEF True 90, example_detail 3 DEF True 0,
     example_detail 4 DEF True 90, example_detail 5 MID True 90, example_detail 6 MID True 90,
     example_detail 7 MID True 90, example_detail 8 MID True 90, example_detail 9 FWD True 0,
     example_detail 10 FWD True 90, example_detail 11 FWD True 90]"

definition example_bench :: "score_detail list" where
  "example_bench = [example_detail 12 GKP False 90, example_detail 13 MID False 30, example_detail 14 DEF False 45,
     example_detail 15 DEF False 0]"

lemmas example_defs = example_starters_def example_bench_def example_detail_def

lemma example_legal:
  "flags_clear example_starters" "flags_clear example_bench" "formation_ok (map sd_position example_starters)"
  by (simp_all add: flags_clear_def formation_ok_def example_defs all_positions)

lemma example_current:
  "ls_current (resolveAutoSubstitutions example_starters example_bench)
     = (map Starter [0..<11])[0 := Bench 0, 2 := Bench 2, 8 := Bench 1]"
  by code_simp

theorem auto_substitutions_formation_witness:
  "formation_ok (xi_positions (resolveAutoSubstitutions example_starters example_bench)) \<and>
   ls_current (resolveAutoSubstitutions example_starters example_bench)
     = (map Starter [0..<11])[0 := Bench 0, 2 := Bench 2, 8 := Bench 1]"
  using auto_substitutions_formation [OF example_legal] example_current by simp

text \<open>
  The final eleven is made of distinct objects, each slot holding its original starter or a
  substitute who played, replacing a starter who did not, keeper for keeper and outfielder for
  outfielder; the flags agree with it: a starter is marked as subbed out exactly if replaced, a
  bench player as subbed in exactly if in the eleven.
\<close>

theorem auto_substitutions_sound:
  assumes "flags_clear starters" and "flags_clear bench"
  defines "st \<equiv> resolveAutoSubstitutions starters bench"
  shows "distinct (ls_current st)
       \<and> (\<forall>k < length starters.
            (ls_current st ! k = Starter k \<and> \<not> sd_subbedOut (ls_starters st ! k)) \<or> replaced starters bench st k)
       \<and> (\<forall>j < length bench. sd_subbedIn (ls_bench st ! j) \<longleftrightarrow> Bench j \<in> set (ls_current st))
       \<and> map core (ls_starters st) = map core starters \<and> map core (ls_bench st) = map core bench"
proof -
  have inv: "subs_inv starters bench (length starters) st"
    unfolding st_def by (rule resolve_inv [OF assms(1,2)])
  then have "\<forall>j < length bench. sd_subbedIn (ls_bench st ! j) \<longleftrightarrow> Bench j \<in> set (ls_current st)"
    using subs_inv_unused [OF inv] by (auto simp: subs_inv_def)
  with inv show ?thesis by (auto simp: subs_inv_def)
qed

theorem auto_substitutions_sound_witness:
  "replaced example_starters example_bench (resolveAutoSubstitutions example_starters example_bench) 8 \<and>
   distinct (ls_current (resolveAutoSubstitutions example_starters example_bench))"
proof -
  have "(8 :: nat) < length example_starters" by (simp add: example_starters_def)
  moreover have "ls_current (resolveAutoSubstitutions example_starters example_bench) ! 8 \<noteq> Starter 8"
    unfolding example_current by simp
  ultimately show ?thesis using auto_substitutions_sound [OF example_legal(1,2)] by blast
qed

section \<open>Points\<close>

text \<open>Every point of the squad is in exactly one place: the eleven, the unused bench, or a starter who went off.\<close>

definition points_ledger :: "lineup_state \<Rightarrow> int" where
  "points_ledger st = (\<Sum>s\<leftarrow>ls_current st. sd_rawPoints (deref st s))
     + (\<Sum>b\<leftarrow>filter (\<lambda>b. \<not> sd_subbedIn b) (ls_bench st). sd_rawPoints b)
     + (\<Sum>d\<leftarrow>filter sd_subbedOut (ls_starters st). sd_rawPoints d)"

lemma substitute_points:
  assumes inv: "subs_inv starters bench i st" and i: "i < length starters" and j: "j < length bench"
    and unused: "\<not> sd_subbedIn (ls_bench st ! j)"
  shows "points_ledger (substitute st i j) = points_ledger st"
proof -
  note len = subs_inv_lengths [OF inv] and cur = subs_inv_current [OF inv i]
  note upd = substitute_fields [OF cur, of j]
  have n: "i < length (ls_current st)" and in_xi: "\<not> sd_subbedOut (ls_starters st ! i)"
    using inv i by (auto simp: subs_inv_def)
  have raw: "sd_rawPoints (deref (substitute st i j) s) = sd_rawPoints (deref st s)" for s
    using i j len by (cases s) (auto simp: upd nth_list_update list_update_beyond)
  have "(\<Sum>s\<leftarrow>ls_current (substitute st i j). sd_rawPoints (deref (substitute st i j) s))
      = (\<Sum>s\<leftarrow>ls_current st. sd_rawPoints (deref st s)) - sd_rawPoints (ls_starters st ! i) + sd_rawPoints (ls_bench st ! j)"
    unfolding raw unfolding upd using n cur by (simp add: sum_map_update_int)
  moreover have "(\<Sum>b\<leftarrow>filter (\<lambda>b. \<not> sd_subbedIn b) (ls_bench (substitute st i j)). sd_rawPoints b)
      = (\<Sum>b\<leftarrow>filter (\<lambda>b. \<not> sd_subbedIn b) (ls_bench st). sd_rawPoints b) - sd_rawPoints (ls_bench st ! j)"
    unfolding sum_list_filter_if upd using j len unused by (simp add: sum_map_update_int)
  moreover have "(\<Sum>d\<leftarrow>filter sd_subbedOut (ls_starters (substitute st i j)). sd_rawPoints d)
      = (\<Sum>d\<leftarrow>filter sd_subbedOut (ls_starters st). sd_rawPoints d) + sd_rawPoints (ls_starters st ! i)"
    unfolding sum_list_filter_if upd using i len in_xi by (simp add: sum_map_update_int)
  ultimately show ?thesis by (simp add: points_ledger_def)
qed

lemma initial_points:
  assumes "flags_clear starters" and "flags_clear bench"
  shows "points_ledger (initial_lineup starters bench) = (\<Sum>d\<leftarrow>starters. sd_rawPoints d) + (\<Sum>d\<leftarrow>bench. sd_rawPoints d)"
proof -
  have "map (\<lambda>i. sd_rawPoints (starters ! i)) [0..<length starters] = map sd_rawPoints starters"
    by (rule nth_equalityI) simp_all
  moreover have "filter (\<lambda>b. \<not> sd_subbedIn b) bench = bench" "filter sd_subbedOut starters = []"
    using assms by (auto simp: flags_clear_def filter_id_conv filter_empty_conv)
  ultimately show ?thesis by (simp add: points_ledger_def initial_lineup_def comp_def)
qed

lemma resolve_points:
  assumes "flags_clear starters" and "flags_clear bench"
  shows "points_ledger (resolveAutoSubstitutions starters bench)
           = (\<Sum>d\<leftarrow>starters. sd_rawPoints d) + (\<Sum>d\<leftarrow>bench. sd_rawPoints d)"
proof -
  let ?t = "(\<Sum>d\<leftarrow>starters. sd_rawPoints d) + (\<Sum>d\<leftarrow>bench. sd_rawPoints d)"
  let ?I = "\<lambda>i st. subs_inv starters bench i st \<and> points_ledger st = ?t"
  have step: "?I (Suc i) (auto_sub_step st i)" if "i < length starters" "?I i st" for i st
    using that auto_sub_step_cases [of starters bench i st] substitute_points [of starters bench i st]
      auto_sub_step_inv [of starters bench i st] by metis
  have "?I (length starters) (foldl auto_sub_step (initial_lineup starters bench) [0..<length starters])"
    by (rule foldl_upt_invariant [where I = ?I])
      (use subs_inv_init [OF assms] initial_points [OF assms] step in auto)
  then show ?thesis by (simp add: resolveAutoSubstitutions_def)
qed

text \<open>What the captain adds to the eleven is what the score reports as captain points.\<close>

lemma captain_bonus_snoc:
  "captain_bonus (xs @ [x]) = (if sd_multiplier x > 1 then sd_rawPoints x * (sd_multiplier x - 1) else captain_bonus xs)"
  by (simp add: captain_bonus_def)

lemma captain_bonus_sum:
  assumes "\<forall>p \<in> set xi. sd_effectivePoints p = sd_rawPoints p * sd_multiplier p \<and> 1 \<le> sd_multiplier p"
    and "length (filter (\<lambda>p. sd_multiplier p > 1) xi) \<le> 1"
  shows "(\<Sum>p\<leftarrow>xi. sd_effectivePoints p) = (\<Sum>p\<leftarrow>xi. sd_rawPoints p) + captain_bonus xi"
  using assms
proof (induction xi rule: rev_induct)
  case Nil
  then show ?case by (simp add: captain_bonus_def)
next
  case (snoc x xs)
  show ?case
  proof (cases "sd_multiplier x > 1")
    case False
    then have "sd_multiplier x = 1" using snoc.prems(1) by auto
    then show ?thesis using snoc by (simp add: captain_bonus_snoc)
  next
    case True
    then have "filter (\<lambda>p. sd_multiplier p > 1) xs = []" using snoc.prems(2) by simp
    then have "\<forall>p \<in> set xs. sd_multiplier p = 1"
      using snoc.prems(1) by (auto simp: filter_empty_conv not_less order_antisym)
    then have "(\<Sum>p\<leftarrow>xs. sd_effectivePoints p) = (\<Sum>p\<leftarrow>xs. sd_rawPoints p)"
      using snoc.prems(1) by (intro arg_cong [of _ _ sum_list] map_cong) auto
    then show ?thesis using True snoc.prems(1) by (simp add: captain_bonus_snoc algebra_simps)
  qed
qed

text \<open>Details as \<open>calculateLineupScore\<close> builds them: no multiplier yet, no flag set.\<close>

definition fresh :: "score_detail list \<Rightarrow> bool" where
  "fresh ds \<longleftrightarrow> (\<forall>d \<in> set ds. sd_multiplier d = 1 \<and> sd_effectivePoints d = sd_rawPoints d)"

definition slots_valid :: "lineup_state \<Rightarrow> bool" where
  "slots_valid st \<longleftrightarrow> (\<forall>s \<in> set (ls_current st). case s of Starter i \<Rightarrow> i < length (ls_starters st)
     | Bench j \<Rightarrow> j < length (ls_bench st))"

lemma subs_inv_slots_valid: "subs_inv starters bench i st \<Longrightarrow> slots_valid st"
  using subs_inv_lengths [of starters bench i st]
  by (fastforce simp: slots_valid_def subs_inv_def replaced_def in_set_conv_nth split: slot.splits)

lemma active_captain_bound: "active_captain ss = Some i \<Longrightarrow> i < length ss"
  by (auto simp: active_captain_def Let_def split: option.splits if_splits dest!: find_idx_SomeD)

lemma map_core_fresh:
  assumes eq: "map core xs = map core ys" and ys: "fresh ys"
  shows "fresh xs"
  unfolding fresh_def
proof
  fix d assume "d \<in> set xs"
  then obtain i where i: "i < length xs" "d = xs ! i" by (auto simp: in_set_conv_nth)
  then have n: "i < length ys" using eq by (metis length_map)
  then have "ys ! i \<in> set ys" by simp
  with ys show "sd_multiplier d = 1 \<and> sd_effectivePoints d = sd_rawPoints d"
    unfolding i fresh_def using map_core_nth(4-6) [OF eq n] by simp
qed

lemma apply_captain_points:
  assumes fresh: "fresh (ls_starters st)" "fresh (ls_bench st)" and valid: "slots_valid st"
    and d: "distinct (ls_current st)" and m: "1 < m"
  defines "st' \<equiv> apply_captain m st"
  shows "(\<Sum>p\<leftarrow>map (deref st') (ls_current st'). sd_effectivePoints p)
           = (\<Sum>p\<leftarrow>map (deref st') (ls_current st'). sd_rawPoints p) + captain_bonus (map (deref st') (ls_current st'))"
    and "points_ledger st' = points_ledger st"
proof -
  have cases: "st' = st \<or> (\<exists>c. c < length (ls_starters st) \<and> st' = st\<lparr>ls_starters := (ls_starters st)[c := (ls_starters st ! c)
      \<lparr>sd_multiplier := m, sd_effectivePoints := sd_rawPoints (ls_starters st ! c) * m\<rparr>]\<rparr>)"
    unfolding st'_def apply_captain_def by (auto split: option.splits dest: active_captain_bound)
  then have cur: "ls_current st' = ls_current st" by auto
  have fr: "sd_multiplier (deref st s) = 1 \<and> sd_effectivePoints (deref st s) = sd_rawPoints (deref st s)"
    if "s \<in> set (ls_current st)" for s
    using valid fresh that by (cases s) (force simp: slots_valid_def fresh_def)+
  have raw: "sd_rawPoints (deref st' s) = sd_rawPoints (deref st s)" for s
    using cases by (cases s) (auto simp: nth_list_update)
  obtain c where other: "\<And>s. s \<noteq> Starter c \<Longrightarrow> deref st' s = deref st s"
    and cap: "deref st' (Starter c) = deref st (Starter c) \<or> deref st' (Starter c)
        = (deref st (Starter c))\<lparr>sd_multiplier := m, sd_effectivePoints := sd_rawPoints (deref st (Starter c)) * m\<rparr>"
    using cases
  proof (elim disjE exE conjE)
    fix c assume c: "c < length (ls_starters st)" and st': "st' = st\<lparr>ls_starters := (ls_starters st)[c := (ls_starters st ! c)
      \<lparr>sd_multiplier := m, sd_effectivePoints := sd_rawPoints (ls_starters st ! c) * m\<rparr>]\<rparr>"
    have "deref st' s = deref st s" if "s \<noteq> Starter c" for s
      using that by (cases s) (auto simp: st')
    then show thesis by (rule that [of c]) (use c in \<open>simp_all add: st'\<close>)
  qed auto
  have eff: "sd_effectivePoints (deref st' s) = sd_rawPoints (deref st' s) * sd_multiplier (deref st' s)
      \<and> 1 \<le> sd_multiplier (deref st' s)" if "s \<in> set (ls_current st)" for s
    using fr [OF that] other [of s] cap m by (cases "s = Starter c") (auto simp del: deref.simps)
  have c: "s = Starter c" if "sd_multiplier (deref st' s) > 1" "s \<in> set (ls_current st)" for s
    using that fr other by force
  have "set (filter (\<lambda>s. sd_multiplier (deref st' s) > 1) (ls_current st)) \<subseteq> {Starter c}"
    using c by auto
  then have "length (filter (\<lambda>s. sd_multiplier (deref st' s) > 1) (ls_current st)) \<le> 1"
    using d card_mono [of "{Starter c}"] by (metis One_nat_def card.empty card.insert distinct_card distinct_filter
        empty_iff finite.emptyI finite_insert)
  then have one: "length (filter (\<lambda>p. sd_multiplier p > 1) (map (deref st') (ls_current st'))) \<le> 1"
    by (simp add: cur filter_map comp_def)
  show "(\<Sum>p\<leftarrow>map (deref st') (ls_current st'). sd_effectivePoints p)
      = (\<Sum>p\<leftarrow>map (deref st') (ls_current st'). sd_rawPoints p) + captain_bonus (map (deref st') (ls_current st'))"
    by (rule captain_bonus_sum) (use eff one in \<open>auto simp: cur\<close>)
  show "points_ledger st' = points_ledger st"
    unfolding points_ledger_def cur raw unfolding sum_list_filter_if
    using cases by (auto simp: sum_map_update_int)
qed

lemma make_details_fresh:
  "fresh (js_sort by_order (filter P (map (make_detail statsMap) players)))"
  "flags_clear (js_sort by_order (filter P (map (make_detail statsMap) players)))"
  by (auto simp: fresh_def flags_clear_def make_detail_def Let_def)

lemma map_core_starter: "map core xs = map core ys \<Longrightarrow> \<forall>d \<in> set ys. sd_isStarter d = b \<Longrightarrow> \<forall>d \<in> set xs. sd_isStarter d = b"
  by (metis (no_types, lifting) core_simps(6) image_iff image_set)

lemma lineup_state_ready:
  assumes "fresh starters" "fresh bench" "flags_clear starters" "flags_clear bench"
    and "st = initial_lineup starters bench \<or> st = resolveAutoSubstitutions starters bench"
  shows "fresh (ls_starters st) \<and> fresh (ls_bench st) \<and> slots_valid st \<and> distinct (ls_current st) \<and>
     map core (ls_starters st) = map core starters \<and> map core (ls_bench st) = map core bench \<and>
     points_ledger st = (\<Sum>d\<leftarrow>starters. sd_rawPoints d) + (\<Sum>d\<leftarrow>bench. sd_rawPoints d)"
proof -
  obtain i where inv: "subs_inv starters bench i st"
    using assms(5) subs_inv_init [OF assms(3,4)] resolve_inv [OF assms(3,4)] by blast
  then have "fresh (ls_starters st)" "fresh (ls_bench st)"
    using assms(1,2) map_core_fresh by (auto simp: subs_inv_def)
  then show ?thesis
    using assms(5) inv subs_inv_slots_valid [OF inv] initial_points [OF assms(3,4)] resolve_points [OF assms(3,4)]
    by (auto simp: subs_inv_def)
qed

lemma apply_captain_frame:
  "ls_bench (apply_captain m st) = ls_bench st"
  "\<forall>d \<in> set (ls_starters st). sd_isStarter d = b \<Longrightarrow> \<forall>d \<in> set (ls_starters (apply_captain m st)). sd_isStarter d = b"
  using active_captain_bound [of "ls_starters st"]
  by (auto simp: apply_captain_def split: option.splits dest!: set_update_subset_insert [THEN subsetD])

lemma sum_raw_split:
  "(\<Sum>d\<leftarrow>filter sd_isStarter (map (make_detail m) ps). sd_rawPoints d)
     + (\<Sum>d\<leftarrow>filter (\<lambda>d. \<not> sd_isStarter d) (map (make_detail m) ps). sd_rawPoints d)
   = (\<Sum>p\<leftarrow>ps. ss_totalPoints (stats_for m (lp_playerId p)))"
  unfolding sum_list_filter_split by (simp add: comp_def make_detail_def Let_def)

text \<open>
  C16. The lineup score accounts for every point once: the points of the eleven, the points left on
  the bench and the points of starters who went off add up to the raw points of the whole squad plus
  the captain's extra points, whatever the chip.
\<close>

theorem lineup_score_conservation:
  "(let s = lineup_score_base players statsMap chip cost
    in lsc_startingPoints s + lsc_benchPoints s
         + (\<Sum>d\<leftarrow>filter (\<lambda>d. sd_isStarter d \<and> sd_subbedOut d) (lsc_details s). sd_rawPoints d)
       = (\<Sum>p\<leftarrow>players. ss_totalPoints (stats_for statsMap (lp_playerId p))) + lsc_captainPoints s)"
proof -
  let ?ds = "map (make_detail statsMap) players"
  define starters where "starters = js_sort by_order (filter sd_isStarter ?ds)"
  define bench where "bench = js_sort by_order (filter (\<lambda>d. \<not> sd_isStarter d) ?ds)"
  define st where "st = (if chip = Some BENCH_BOOST then initial_lineup starters bench
                         else resolveAutoSubstitutions starters bench)"
  define fin where "fin = apply_captain (captainMultiplier chip) st"
  have score: "lineup_score_base players statsMap chip cost
      = sum_lineup chip (case cost of None \<Rightarrow> 0 | Some c \<Rightarrow> c) fin"
    by (simp add: lineup_score_base_def Let_def fin_def st_def starters_def bench_def)
  have fs: "fresh starters" "fresh bench" "flags_clear starters" "flags_clear bench"
    unfolding starters_def bench_def by (rule make_details_fresh)+
  have st: "st = initial_lineup starters bench \<or> st = resolveAutoSubstitutions starters bench"
    by (simp add: st_def)
  have ready: "fresh (ls_starters st)" "fresh (ls_bench st)" "slots_valid st" "distinct (ls_current st)"
      "map core (ls_starters st) = map core starters" "map core (ls_bench st) = map core bench"
      "points_ledger st = (\<Sum>d\<leftarrow>starters. sd_rawPoints d) + (\<Sum>d\<leftarrow>bench. sd_rawPoints d)"
    using lineup_state_ready [OF fs st] by blast+
  have "1 < captainMultiplier chip" by (simp add: captainMultiplier_def)
  note pts = apply_captain_points [OF ready(1-4) this, folded fin_def]
  have roles: "\<forall>d \<in> set starters. sd_isStarter d = True" "\<forall>d \<in> set bench. sd_isStarter d = False"
    by (simp_all add: starters_def bench_def)
  have "\<forall>d \<in> set (ls_starters fin). sd_isStarter d = True"
    unfolding fin_def by (intro apply_captain_frame(2) map_core_starter [OF ready(5)] roles)
  moreover have "\<forall>d \<in> set (ls_bench fin). sd_isStarter d = False"
    unfolding fin_def apply_captain_frame(1) by (intro map_core_starter [OF ready(6)] roles)
  ultimately have "filter (\<lambda>d. sd_isStarter d \<and> sd_subbedOut d) (ls_starters fin @ ls_bench fin) = filter sd_subbedOut (ls_starters fin)"
    by (auto intro: filter_cong simp: filter_empty_conv)
  then have out: "(\<Sum>d\<leftarrow>filter (\<lambda>d. sd_isStarter d \<and> sd_subbedOut d) (lsc_details (lineup_score_base players statsMap chip cost)). sd_rawPoints d)
      = (\<Sum>d\<leftarrow>filter sd_subbedOut (ls_starters fin). sd_rawPoints d)"
    unfolding score sum_lineup_def Let_def lineup_score.select_convs sum_list_filter_if sum_list_js_sort
    by (simp flip: sum_list_filter_if del: filter_append map_append)
  have "(\<Sum>d\<leftarrow>starters. sd_rawPoints d) + (\<Sum>d\<leftarrow>bench. sd_rawPoints d)
      = (\<Sum>p\<leftarrow>players. ss_totalPoints (stats_for statsMap (lp_playerId p)))"
    unfolding starters_def bench_def sum_list_js_sort by (rule sum_raw_split)
  then show ?thesis
    unfolding Let_def out using pts ready(7)
    by (simp add: score sum_lineup_def Let_def points_ledger_def comp_def)
qed

section \<open>The scorer cache\<close>

text \<open>
  The contract of a memo table: under its invariant a hit or a miss returns what the specification
  computes, an error is an error of the specification, and the invariant is kept.
\<close>

locale memo_table =
  fixes get :: "'c \<Rightarrow> 'k \<Rightarrow> 'e + ('v \<times> 'c)" and ok :: "'c \<Rightarrow> bool" and spec :: "'k \<Rightarrow> 'e + 'v"
  assumes get_value: "ok c \<Longrightarrow> get c k = Inr (v, c') \<Longrightarrow> spec k = Inr v"
    and get_keeps: "ok c \<Longrightarrow> get c k = Inr (v, c') \<Longrightarrow> ok c'"
    and get_error: "get c k = Inl e \<longleftrightarrow> spec k = Inl e"
begin

lemma get_transparent: "ok c \<Longrightarrow> (case get c k of Inl e \<Rightarrow> Inl e | Inr (v, c') \<Rightarrow> Inr v) = spec k"
proof (cases "get c k")
  case (Inl e)
  then show ?thesis using get_error [of c k e] by simp
next
  case (Inr p)
  moreover assume "ok c"
  ultimately show ?thesis using get_value [of c k "fst p" "snd p"] by (cases p) simp
qed

lemma get_history_free:
  assumes "ok c" "ok d" "get c k = Inr (v, c')"
  shows "\<exists>d'. get d k = Inr (v, d')"
proof -
  have s: "spec k = Inr v" using get_value assms by blast
  show ?thesis
  proof (cases "get d k")
    case (Inl e)
    then show ?thesis using get_error [of d k e] s by simp
  next
    case (Inr p)
    then show ?thesis using get_value [of d k "fst p" "snd p"] s assms by (cases p) simp
  qed
qed

end

definition cache_inv :: "scorer_cache \<Rightarrow> bool" where
  "cache_inv cache \<longleftrightarrow> distinct (map fst cache) \<and> length cache \<le> MAX_COMPILED_SCORERS \<and>
     (\<forall>(k, f) \<in> set cache. f = compile_scorer k)"

definition scorer_spec :: "json \<Rightarrow> config_error + scorer" where
  "scorer_spec j = res_bind (parseLeagueScoringConfig j) (\<lambda>c. Inr (compile_scorer c))"

lemma set_update_subset: "set (AList.update k v al) \<subseteq> insert (k, v) (set al)"
  by (induction al) auto

lemma set_delete_subset: "set (AList.delete k al) \<subseteq> set al"
  by (auto simp: AList.delete_eq)

lemma length_delete_present:
  "distinct (map fst al) \<Longrightarrow> k \<in> fst ` set al \<Longrightarrow> length (AList.delete k al) = length al - 1"
proof (induction al)
  case (Cons a al)
  show ?case
  proof (cases "fst a = k")
    case True
    then have "k \<notin> fst ` set al" using Cons.prems by auto
    then have "AList.delete k al = al" by (simp add: AList.delete_idem)
    then show ?thesis using True by (cases a) simp
  next
    case False
    then have m: "k \<in> fst ` set al" "0 < length al" using Cons.prems by (auto intro: length_pos_if_in_set)
    then have "length (AList.delete k al) = length al - 1" using Cons by simp
    then show ?thesis using False m by (cases a) simp
  qed
qed simp

lemma cache_inv_delete:
  assumes "cache_inv cache"
  shows "cache_inv (AList.delete k cache)"
    "k \<in> fst ` set cache \<Longrightarrow> length (AList.delete k cache) < MAX_COMPILED_SCORERS"
proof -
  have "length (AList.delete k cache) \<le> length cache" by (rule AList.length_delete_le)
  then show "cache_inv (AList.delete k cache)"
    using assms set_delete_subset [of k cache] unfolding cache_inv_def
    by (auto simp: AList.distinct_delete)
  assume k: "k \<in> fst ` set cache"
  then have "0 < length cache" by (auto intro: length_pos_if_in_set)
  then show "length (AList.delete k cache) < MAX_COMPILED_SCORERS"
    using assms length_delete_present [OF _ k] unfolding cache_inv_def by linarith
qed

lemma cache_inv_update:
  assumes "cache_inv cache" "length cache < MAX_COMPILED_SCORERS"
  shows "cache_inv (AList.update c (compile_scorer c) cache)"
  using assms set_update_subset [of c "compile_scorer c" cache]
  unfolding cache_inv_def by (auto simp: AList.distinct_update length_update)

lemma evict_oldest_inv:
  assumes "cache_inv cache"
  defines "cache' \<equiv> (if length cache \<ge> MAX_COMPILED_SCORERS
                     then (case cache of [] \<Rightarrow> cache | (oldest, _) # _ \<Rightarrow> AList.delete oldest cache) else cache)"
  shows "cache_inv cache' \<and> length cache' < MAX_COMPILED_SCORERS"
proof (cases cache)
  case Nil
  then show ?thesis using assms by (simp add: MAX_COMPILED_SCORERS_def)
next
  case (Cons e rest)
  then have "fst e \<in> fst ` set cache" by simp
  then show ?thesis using Cons cache_inv_delete [OF assms(1), of "fst e"] assms by (cases e) simp
qed

lemma getCompiledScorer_ok:
  assumes inv: "cache_inv cache" and ok: "getCompiledScorer cache j = Inr (f, cache')"
  shows "cache_inv cache' \<and> scorer_spec j = Inr f"
proof -
  obtain c where c: "parseLeagueScoringConfig j = Inr c"
    using ok by (cases "parseLeagueScoringConfig j") (auto simp: getCompiledScorer_def)
  show ?thesis
  proof (cases "map_of cache c")
    case (Some g)
    then have g: "g = compile_scorer c" and mem: "c \<in> fst ` set cache"
      using inv by (auto simp: cache_inv_def dest!: map_of_SomeD intro: rev_image_eqI)
    have res: "f = g" "cache' = AList.update c g (AList.delete c cache)"
      using ok c Some by (auto simp: getCompiledScorer_def refreshCompiledScorer_def)
    then show ?thesis
      using c g cache_inv_update [of "AList.delete c cache" c] cache_inv_delete [OF inv] mem
      by (simp add: scorer_spec_def)
  next
    case None
    then show ?thesis
      using ok c cache_inv_update evict_oldest_inv [OF inv]
      by (auto simp: getCompiledScorer_def scorer_spec_def Let_def)
  qed
qed

lemma getCompiledScorer_error: "getCompiledScorer cache j = Inl e \<longleftrightarrow> scorer_spec j = Inl e"
  by (cases "parseLeagueScoringConfig j")
    (auto simp: getCompiledScorer_def scorer_spec_def Let_def split: option.splits)

interpretation scorers: memo_table getCompiledScorer cache_inv scorer_spec
  by unfold_locales (auto simp: getCompiledScorer_ok getCompiledScorer_error)


text \<open>
  C17. The bounded cache of compiled scorers is invisible: under its invariant (distinct keys, at
  most 256 entries, every entry the scorer compiled from its key) looking a configuration up returns
  exactly what compiling it afresh would, errors included, and leaves the invariant in force, whether
  the call hits, misses or evicts the oldest entry.
\<close>

theorem scorer_cache_transparent:
  assumes "cache_inv cache"
  shows "(case getCompiledScorer cache config of Inl e \<Rightarrow> Inl e | Inr (f, cache') \<Rightarrow> Inr f)
           = res_bind (parseLeagueScoringConfig config) (\<lambda>c. Inr (compile_scorer c))
       \<and> (\<forall>f cache'. getCompiledScorer cache config = Inr (f, cache') \<longrightarrow> cache_inv cache')"
  using scorers.get_transparent [OF assms, of config] scorers.get_keeps [OF assms, of config]
  by (auto simp: scorer_spec_def)

theorem scorer_cache_transparent_witness:
  "(case getCompiledScorer [] (config_object (LEAGUE_SCORING_PRESETS ALL_ATTACK)) of
      Inl e \<Rightarrow> Inl e | Inr (f, cache') \<Rightarrow> Inr f) = Inr (compile_scorer (LEAGUE_SCORING_PRESETS ALL_ATTACK))"
proof -
  have "cache_inv []" by (simp add: cache_inv_def)
  from scorer_cache_transparent [OF this, of "config_object (LEAGUE_SCORING_PRESETS ALL_ATTACK)"]
  show ?thesis by (simp add: parse_config_object [OF presets_wf] del: LEAGUE_SCORING_PRESETS.simps)
qed

section \<open>Persisted scores\<close>

lemma update_same: "map_of al k = Some v \<Longrightarrow> AList.update k v al = al"
  by (induction al) (auto split: if_splits)

lemma squad_score_result:
  assumes "calculateAndPersistSquadScore db s gw = Inr (r, db')"
  obtains row where "db' = db\<lparr>db_scores := AList.update (s, gw) row (db_scores db),
      db_totalPoints := AList.update s (squad_points_sum (db\<lparr>db_scores := AList.update (s, gw) row (db_scores db)\<rparr>) s)
                          (db_totalPoints db)\<rparr>"
    and "sr_points row = gr_totalPoints r" "sr_transferCost row = gr_transferCost r"
  using assms by (auto simp: calculateAndPersistSquadScore_def Let_def split: option.splits)

lemma score_across_all: "getSquadScoreAcrossGameweeks db s None None = squad_points_sum db s"
  by (simp add: getSquadScoreAcrossGameweeks_def squad_points_sum_def)

lemma squad_points_sum_frame [simp]: "squad_points_sum (db\<lparr>db_totalPoints := x\<rparr>) s = squad_points_sum db s"
  by (simp add: squad_points_sum_def)

text \<open>
  After a squad's gameweek is scored its season total is the sum of all its gameweek rows, the
  row of that gameweek holds the returned points, and no other squad's rows or total and no other
  gameweek's row have changed.
\<close>

theorem squad_score_persisted:
  assumes "calculateAndPersistSquadScore db s gw = Inr (r, db')"
  shows "map_of (db_totalPoints db') s = Some (getSquadScoreAcrossGameweeks db' s None None)
       \<and> map_option sr_points (map_of (db_scores db') (s, gw)) = Some (gr_totalPoints r)
       \<and> (\<forall>k. k \<noteq> (s, gw) \<longrightarrow> map_of (db_scores db') k = map_of (db_scores db) k)
       \<and> (\<forall>s'. s' \<noteq> s \<longrightarrow> map_of (db_totalPoints db') s' = map_of (db_totalPoints db) s')
       \<and> db_stats db' = db_stats db \<and> db_squads db' = db_squads db \<and> db_chips db' = db_chips db
       \<and> db_leagueScores db' = db_leagueScores db"
  using assms by (elim squad_score_result) (auto simp: score_across_all)

text \<open>A squad of three with two stored gameweeks and a double gameweek for its captain.\<close>

definition example_stats_row :: "int \<Rightarrow> int \<Rightarrow> int \<Rightarrow> int \<Rightarrow> stats_row" where
  "example_stats_row player fixture mins pts =
     \<lparr>row_playerId = player, row_gameweekId = 5, row_fixtureId = fixture,
      row_stats = no_stats\<lparr>ss_minutes := mins, ss_totalPoints := pts, ss_goals := Some 1\<rparr>\<rparr>"

definition example_player :: "int \<Rightarrow> position \<Rightarrow> bool \<Rightarrow> bool \<Rightarrow> lineup_player" where
  "example_player n pos starter captain =
     \<lparr>lp_playerId = n, lp_position = pos, lp_isStarter = starter, lp_isCaptain = captain, lp_isViceCaptain = False,
      lp_positionOrder = n\<rparr>"

definition example_db :: scoring_db where
  "example_db =
     \<lparr>db_squads = [(''s1'', [example_player 1 MID True True, example_player 2 FWD True False, example_player 3 DEF False False])],
      db_totalPoints = [(''s1'', 0)],
      db_stats = [example_stats_row 1 10 90 6, example_stats_row 1 11 60 5, example_stats_row 2 10 90 2],
      db_chips = [((''s1'', 5), (TRIPLE_CAPTAIN, True))],
      db_scores = [((''s1'', 4), \<lparr>sr_points = 40, sr_benchPoints = 0, sr_captainPoints = 0, sr_transferCost = 0\<rparr>),
                   ((''s1'', 5), \<lparr>sr_points = 0, sr_benchPoints = 0, sr_captainPoints = 0, sr_transferCost = 4\<rparr>)],
      db_leagueScores = []\<rparr>"

lemma example_db_scored:
  "map_sum id (gr_totalPoints \<circ> fst) (calculateAndPersistSquadScore example_db ''s1'' 5) = Inr 20"
  by code_simp

lemma example_db_result:
  obtains r db' where "calculateAndPersistSquadScore example_db ''s1'' 5 = Inr (r, db')" "gr_totalPoints r = 20"
proof (cases "calculateAndPersistSquadScore example_db ''s1'' 5")
  case (Inr p)
  then show ?thesis using that [of "fst p" "snd p"] example_db_scored by simp
qed (use example_db_scored in simp)

theorem squad_score_persisted_witness:
  "\<exists>r db'. calculateAndPersistSquadScore example_db ''s1'' 5 = Inr (r, db') \<and>
     map_of (db_totalPoints db') ''s1'' = Some (getSquadScoreAcrossGameweeks db' ''s1'' None None) \<and>
     map_option sr_points (map_of (db_scores db') (''s1'', 5)) = Some 20"
proof -
  obtain r db' where "calculateAndPersistSquadScore example_db ''s1'' 5 = Inr (r, db')" "gr_totalPoints r = 20"
    by (rule example_db_result)
  then show ?thesis using squad_score_persisted [of example_db "''s1''" 5 r db'] by auto
qed

lemma captain_mult_cost: "lsc_transferCost (sum_lineup chip c st) =
    (if chip = Some WILDCARD \<or> chip = Some FREE_HIT then 0 else c)"
  by (simp add: sum_lineup_def Let_def)

lemma sum_lineup_cost_idem:
  "sum_lineup chip (if chip = Some WILDCARD \<or> chip = Some FREE_HIT then 0 else c) st = sum_lineup chip c st"
  by (auto simp: sum_lineup_def Let_def)

lemma lineup_score_cost_idem:
  "lineup_score_base ps m chip (Some (lsc_transferCost (lineup_score_base ps m chip (Some c))))
     = lineup_score_base ps m chip (Some c)"
  by (simp only: lineup_score_base_def Let_def option.case captain_mult_cost sum_lineup_cost_idem)

text \<open>
  Scoring a gameweek again is safe: a second run on the tables the first one left returns the
  same result and changes nothing, also when a chip waived the transfer cost that the row records.
\<close>

theorem squad_score_idempotent:
  assumes "calculateAndPersistSquadScore db s gw = Inr (r, db')"
  shows "calculateAndPersistSquadScore db' s gw = Inr (r, db')"
proof -
  obtain players where players: "find_squad db s = Some players"
    using assms by (auto simp: calculateAndPersistSquadScore_def split: option.splits)
  define chip where "chip = (case map_of (db_chips db) (s, gw) of
      Some (c, cancelled) \<Rightarrow> if cancelled then None else Some c | None \<Rightarrow> None)"
  define m where "m = foldl merge_stats [] (squad_stats_rows db players gw)"
  define l where "l = lineup_score_base players m chip (Some (stored_transfer_cost db s gw))"
  define row where "row = \<lparr>sr_points = lsc_totalPoints l, sr_benchPoints = lsc_benchPoints l,
                           sr_captainPoints = lsc_captainPoints l, sr_transferCost = lsc_transferCost l\<rparr>"
  define db1 where "db1 = db\<lparr>db_scores := AList.update (s, gw) row (db_scores db)\<rparr>"
  have db': "db' = db1\<lparr>db_totalPoints := AList.update s (squad_points_sum db1 s) (db_totalPoints db1)\<rparr>"
    using assms players
    by (simp add: calculateAndPersistSquadScore_def Let_def db1_def row_def l_def m_def chip_def)
  have frame: "find_squad db' s = Some players" "map_of (db_chips db') = map_of (db_chips db)"
    "squad_stats_rows db' players gw = squad_stats_rows db players gw"
    using players by (simp_all add: db' db1_def find_squad_def squad_stats_rows_def)
  have rows: "map_of (db_scores db') (s, gw) = Some row"
    and totals: "map_of (db_totalPoints db') s = Some (squad_points_sum db' s)"
    by (simp_all add: db' db1_def)
  then have cost: "stored_transfer_cost db' s gw = lsc_transferCost l"
    by (simp add: stored_transfer_cost_def row_def)
  have l': "lineup_score_base players m chip (Some (stored_transfer_cost db' s gw)) = l"
    unfolding cost l_def by (rule lineup_score_cost_idem)
  have same: "db'\<lparr>db_scores := AList.update (s, gw) row (db_scores db')\<rparr> = db'"
    "db'\<lparr>db_totalPoints := AList.update s (squad_points_sum db' s) (db_totalPoints db')\<rparr> = db'"
    by (simp_all only: update_same [OF rows] update_same [OF totals]) simp_all
  have "calculateAndPersistSquadScore db' s gw =
      Inr (\<lparr>gr_startingPoints = lsc_startingPoints l, gr_benchPoints = lsc_benchPoints l,
            gr_captainPoints = lsc_captainPoints l, gr_transferCost = lsc_transferCost l,
            gr_chip = chip, gr_totalPoints = lsc_totalPoints l, gr_lineupDetails = lsc_details l\<rparr>, db')"
    by (simp add: calculateAndPersistSquadScore_def frame chip_def [symmetric] m_def [symmetric] l'
        row_def [symmetric] same Let_def)
  moreover have "r = \<lparr>gr_startingPoints = lsc_startingPoints l, gr_benchPoints = lsc_benchPoints l,
            gr_captainPoints = lsc_captainPoints l, gr_transferCost = lsc_transferCost l,
            gr_chip = chip, gr_totalPoints = lsc_totalPoints l, gr_lineupDetails = lsc_details l\<rparr>"
    using assms players by (simp add: calculateAndPersistSquadScore_def Let_def l_def m_def chip_def)
  ultimately show ?thesis by simp
qed

theorem squad_score_idempotent_witness:
  "\<exists>r db'. calculateAndPersistSquadScore example_db ''s1'' 5 = Inr (r, db') \<and>
     calculateAndPersistSquadScore db' ''s1'' 5 = Inr (r, db') \<and> gr_totalPoints r = 20"
proof -
  obtain r db' where "calculateAndPersistSquadScore example_db ''s1'' 5 = Inr (r, db')" "gr_totalPoints r = 20"
    by (rule example_db_result)
  then show ?thesis using squad_score_idempotent [of example_db "''s1''" 5 r db'] by blast
qed

text \<open>The points a private league records, whatever the tables and the cache become.\<close>

definition league_points :: "scoring_error + (int \<times> scoring_db \<times> scorer_cache) \<Rightarrow> scoring_error + int" where
  "league_points = map_sum id fst"

lemma custom_stats_cong: "stats_for m = stats_for m' \<Longrightarrow> custom_stats f ps m = custom_stats f ps m'"
  by (simp add: custom_stats_def)

lemma league_points_cong:
  assumes "find_squad db s = find_squad db' s" and "db_scores db = db_scores db'"
    and "map_option fst (map_of (db_chips db) (s, gw)) = map_option fst (map_of (db_chips db') (s, gw))"
    and "\<And>ps. stats_for (js_map (map (\<lambda>r. (row_playerId r, row_stats r)) (squad_stats_rows db ps gw)))
             = stats_for (js_map (map (\<lambda>r. (row_playerId r, row_stats r)) (squad_stats_rows db' ps gw)))"
  shows "league_points (calculateAndPersistLeagueScore cache db l s gw config)
       = league_points (calculateAndPersistLeagueScore cache db' l s gw config)"
  using assms(1-3) custom_stats_cong [OF assms(4)]
  by (cases "getCompiledScorer cache config")
    (auto simp: league_points_def calculateAndPersistLeagueScore_def calculateLineupScore_def Let_def
      stored_transfer_cost_def split: option.splits)

text \<open>
  What a private league's score does not see: of several fixtures a player has in one gameweek
  only the last row counts (an earlier row can be dropped without changing the score), and whether
  the chip was cancelled makes no difference. The platform-wide score adds the fixtures up and
  ignores a cancelled chip.
\<close>

theorem league_score_ignores:
  assumes "row_playerId r = row_playerId r'" and "row_gameweekId r = row_gameweekId r'"
  shows "league_points (calculateAndPersistLeagueScore cache (db\<lparr>db_stats := xs @ r # ys @ r' # zs\<rparr>) l s gw config)
       = league_points (calculateAndPersistLeagueScore cache (db\<lparr>db_stats := xs @ ys @ r' # zs\<rparr>) l s gw config)
     \<and> league_points (calculateAndPersistLeagueScore cache (db\<lparr>db_chips := [((s, gw), (c, True))]\<rparr>) l s gw config)
       = league_points (calculateAndPersistLeagueScore cache (db\<lparr>db_chips := [((s, gw), (c, False))]\<rparr>) l s gw config)"
proof (intro conjI league_points_cong)
  fix ps
  have "map_of (js_map (map (\<lambda>r. (row_playerId r, row_stats r)) (squad_stats_rows (db\<lparr>db_stats := xs @ r # ys @ r' # zs\<rparr>) ps gw)))
      = map_of (js_map (map (\<lambda>r. (row_playerId r, row_stats r)) (squad_stats_rows (db\<lparr>db_stats := xs @ ys @ r' # zs\<rparr>) ps gw)))"
    using assms by (intro ext) (auto simp: map_of_js_map squad_stats_rows_def map_add_def split: option.splits)
  then show "stats_for (js_map (map (\<lambda>r. (row_playerId r, row_stats r)) (squad_stats_rows (db\<lparr>db_stats := xs @ r # ys @ r' # zs\<rparr>) ps gw)))
      = stats_for (js_map (map (\<lambda>r. (row_playerId r, row_stats r)) (squad_stats_rows (db\<lparr>db_stats := xs @ ys @ r' # zs\<rparr>) ps gw)))"
    by (simp add: stats_for_def fun_eq_iff)
qed (simp_all add: find_squad_def squad_stats_rows_def)

lemma example_league_points:
  "league_points (calculateAndPersistLeagueScore [] example_db ''l1'' ''s1'' 5 (config_object (LEAGUE_SCORING_PRESETS CLASSIC_FPL)))
     = Inr 23"
  by code_simp

theorem league_score_ignores_witness:
  "league_points (calculateAndPersistLeagueScore [] (example_db\<lparr>db_stats := [example_stats_row 1 11 60 5, example_stats_row 2 10 90 2]\<rparr>)
     ''l1'' ''s1'' 5 (config_object (LEAGUE_SCORING_PRESETS CLASSIC_FPL))) = Inr 23"
proof -
  let ?r = "example_stats_row 1 10 90 6" and ?r' = "example_stats_row 1 11 60 5" and ?q = "example_stats_row 2 10 90 2"
  have same: "row_playerId ?r = row_playerId ?r'" "row_gameweekId ?r = row_gameweekId ?r'"
    by (simp_all add: example_stats_row_def)
  have db: "example_db\<lparr>db_stats := [] @ ?r # [] @ ?r' # [?q]\<rparr> = example_db" by (simp add: example_db_def)
  show ?thesis
    using league_score_ignores [OF same, where cache = "[]" and db = example_db and xs = "[]" and ys = "[]" and zs = "[?q]"
        and l = "''l1''" and s = "''s1''" and gw = 5]
      example_league_points unfolding db by simp
qed

text \<open>A head-to-head match awards three points to a winner or one to each side, and treats the sides alike.\<close>

lemma resolveHeadToHead_points:
  "resolveHeadToHead a b \<in> {(3, 0), (0, 3), (1, 1)}"
  "resolveHeadToHead b a = prod.swap (resolveHeadToHead a b)"
  "fst (resolveHeadToHead a b) = 3 \<longleftrightarrow> b < a"
  by (auto simp: resolveHeadToHead_def)

interpretation lineup_order: comparator by_order
  by (rule comparator_asc)

lemma lineup_details_sorted:
  "sorted_wrt (\<lambda>a b. sd_positionOrder a \<le> sd_positionOrder b) (lsc_details (lineup_score_base ps m chip cost))"
  using lineup_order.sorted_js_sort
  by (simp add: lineup_score_base_def sum_lineup_def Let_def asc_def)

end
