(* ===== verification/Formation_Solver.thy ===== *)
theory Formation_Solver
  imports Squad_Rules
begin

text \<open>
  The formation solver of \<open>backend/src/services/scoring/formationSolver.ts\<close>: for each of the eight
  legal formations it walks the absent starters, takes the first unused compatible bench player whose
  arrival produces exactly that formation, and keeps the attempt with most points.
\<close>

section \<open>Data\<close>

record outfield =
  of_def :: nat
  of_mid :: nat
  of_fwd :: nat

record fs_player =
  fs_id :: string
  fs_position :: position
  fs_minutesPlayed :: int
  fs_gameweekPoints :: int
  fs_benchPosition :: "int option"
  fs_isStarter :: bool

record sub_candidate =
  sub_starter :: fs_player
  sub_benchPlayer :: fs_player
  sub_pointsGained :: int

record formation_solution =
  sol_finalLineup :: "fs_player list"
  sol_substitutions :: "sub_candidate list"
  sol_formation :: outfield
  sol_totalPoints :: int
  sol_isValid :: bool

definition mk_formation :: "nat \<Rightarrow> nat \<Rightarrow> nat \<Rightarrow> outfield" where
  "mk_formation d m f = \<lparr>of_def = d, of_mid = m, of_fwd = f\<rparr>"

definition VALID_FORMATIONS :: "outfield list" where
  "VALID_FORMATIONS = [mk_formation 3 5 2, mk_formation 3 4 3, mk_formation 4 4 2, mk_formation 4 3 3,
     mk_formation 5 3 2, mk_formation 5 4 1, mk_formation 4 5 1, mk_formation 5 2 3]"

section \<open>The solver\<close>

definition canSubstitute :: "fs_player \<Rightarrow> fs_player \<Rightarrow> bool" where
  "canSubstitute starter b \<longleftrightarrow>
     \<not> (fs_position starter = GKP \<and> fs_position b \<noteq> GKP) \<and> \<not> (fs_position starter \<noteq> GKP \<and> fs_position b = GKP)"

definition countPositions :: "fs_player list \<Rightarrow> outfield" where
  "countPositions lineup =
     mk_formation (length (filter (\<lambda>p. fs_position p = DEF) lineup))
       (length (filter (\<lambda>p. fs_position p = MID) lineup))
       (length (filter (\<lambda>p. fs_position p = FWD) lineup))"

definition matchesFormation :: "fs_player list \<Rightarrow> outfield \<Rightarrow> bool" where
  "matchesFormation lineup target \<longleftrightarrow>
     (let c = countPositions lineup
      in of_def c = of_def target \<and> of_mid c = of_mid target \<and> of_fwd c = of_fwd target)"

definition detectFormation :: "fs_player list \<Rightarrow> outfield" where
  "detectFormation lineup = countPositions lineup"

definition isValidFormation :: "outfield \<Rightarrow> bool" where
  "isValidFormation f \<longleftrightarrow>
     list_ex (\<lambda>v. of_def v = of_def f \<and> of_mid v = of_mid f \<and> of_fwd v = of_fwd f) VALID_FORMATIONS"

definition calculateTotalPoints :: "fs_player list \<Rightarrow> int" where
  "calculateTotalPoints lineup = (\<Sum>p\<leftarrow>lineup. fs_gameweekPoints p)"

definition swap_in :: "fs_player \<Rightarrow> fs_player \<Rightarrow> fs_player list \<Rightarrow> fs_player list" where
  "swap_in nonPlayer b lineup = map (\<lambda>p. if fs_id p = fs_id nonPlayer then b else p) lineup"

definition bench_order :: "fs_player cmp" where
  "bench_order = asc (\<lambda>p. of_int (case fs_benchPosition p of None \<Rightarrow> 99 | Some n \<Rightarrow> n))"

definition sub_fits :: "outfield \<Rightarrow> fs_player list \<Rightarrow> sub_candidate list \<Rightarrow> fs_player \<Rightarrow> fs_player \<Rightarrow> bool" where
  "sub_fits target lineup subs nonPlayer b \<longleftrightarrow>
     \<not> list_ex (\<lambda>s. fs_id (sub_benchPlayer s) = fs_id b) subs \<and> canSubstitute nonPlayer b \<and>
     matchesFormation (swap_in nonPlayer b lineup) target"

text \<open>One iteration of the outer loop: the inner loop stops at the first bench player who fits.\<close>

definition try_step ::
  "outfield \<Rightarrow> fs_player list \<Rightarrow> fs_player list \<times> sub_candidate list \<Rightarrow> fs_player
     \<Rightarrow> fs_player list \<times> sub_candidate list" where
  "try_step target sortedBench st nonPlayer =
     (case find (sub_fits target (fst st) (snd st) nonPlayer) sortedBench of
        None \<Rightarrow> st
      | Some b \<Rightarrow> (swap_in nonPlayer b (fst st),
                  snd st @ [\<lparr>sub_starter = nonPlayer, sub_benchPlayer = b,
                             sub_pointsGained = fs_gameweekPoints b - fs_gameweekPoints nonPlayer\<rparr>]))"

definition tryFormation ::
  "fs_player \<Rightarrow> fs_player list \<Rightarrow> fs_player list \<Rightarrow> fs_player list \<Rightarrow> outfield \<Rightarrow> formation_solution" where
  "tryFormation goalkeeper starters bench nonPlaying target =
     (let (lineup, subs) = foldl (try_step target (js_sort bench_order bench)) (starters, []) nonPlaying;
          finalLineup = goalkeeper # lineup;
          formation = detectFormation lineup
      in \<lparr>sol_finalLineup = finalLineup, sol_substitutions = subs, sol_formation = formation,
          sol_totalPoints = calculateTotalPoints finalLineup, sol_isValid = isValidFormation formation\<rparr>)"

definition unchanged :: "fs_player \<Rightarrow> fs_player list \<Rightarrow> bool \<Rightarrow> formation_solution" where
  "unchanged goalkeeper starters valid =
     \<lparr>sol_finalLineup = goalkeeper # starters, sol_substitutions = [], sol_formation = detectFormation starters,
      sol_totalPoints = calculateTotalPoints (goalkeeper # starters), sol_isValid = valid\<rparr>"

definition keep_better :: "formation_solution option \<Rightarrow> formation_solution \<Rightarrow> formation_solution option" where
  "keep_better best s =
     (if sol_isValid s \<and> (case best of None \<Rightarrow> True | Some b \<Rightarrow> sol_totalPoints s > sol_totalPoints b)
      then Some s else best)"

definition solve ::
  "fs_player \<Rightarrow> fs_player list \<Rightarrow> fs_player list \<Rightarrow> fs_player list \<Rightarrow> formation_solution" where
  "solve goalkeeper starters bench nonPlaying =
     (if nonPlaying = [] then unchanged goalkeeper starters True
      else case foldl keep_better None (map (tryFormation goalkeeper starters bench nonPlaying) VALID_FORMATIONS) of
             None \<Rightarrow> unchanged goalkeeper starters False
           | Some s \<Rightarrow> s)"

section \<open>One attempt\<close>

text \<open>The record of substitutions: each bench player once, from the bench, keeper for keeper, with the right gain.\<close>

definition subs_ok :: "fs_player list \<Rightarrow> fs_player list \<Rightarrow> sub_candidate list \<Rightarrow> bool" where
  "subs_ok bench nonPlaying subs \<longleftrightarrow>
     distinct (map (fs_id \<circ> sub_benchPlayer) subs) \<and>
     (\<forall>s \<in> set subs. sub_benchPlayer s \<in> set bench \<and> sub_starter s \<in> set nonPlaying \<and>
        (fs_position (sub_benchPlayer s) = GKP \<longleftrightarrow> fs_position (sub_starter s) = GKP) \<and>
        sub_pointsGained s = fs_gameweekPoints (sub_benchPlayer s) - fs_gameweekPoints (sub_starter s))"

definition attempt_inv ::
  "fs_player list \<Rightarrow> fs_player list \<Rightarrow> fs_player list \<Rightarrow> outfield \<Rightarrow> fs_player list \<times> sub_candidate list \<Rightarrow> bool" where
  "attempt_inv starters bench nonPlaying target st \<longleftrightarrow>
     length (fst st) = length starters \<and> subs_ok bench nonPlaying (snd st) \<and>
     set (fst st) \<subseteq> set starters \<union> set bench \<and>
     (snd st \<noteq> [] \<longrightarrow> matchesFormation (fst st) target) \<and> (snd st = [] \<longrightarrow> fst st = starters)"

lemma try_step_inv:
  assumes "attempt_inv starters bench nonPlaying target st" "p \<in> set nonPlaying"
  shows "attempt_inv starters bench nonPlaying target (try_step target (js_sort bench_order bench) st p)"
proof (cases "find (sub_fits target (fst st) (snd st) p) (js_sort bench_order bench)")
  case None
  then show ?thesis using assms by (simp add: try_step_def)
next
  case (Some b)
  then have "b \<in> set bench" and fits: "sub_fits target (fst st) (snd st) p b" by (auto dest: find_SomeD)
  then show ?thesis using assms Some
    by (auto simp: try_step_def attempt_inv_def subs_ok_def sub_fits_def swap_in_def canSubstitute_def list_ex_iff)
qed

lemma attempt_inv_fold:
  "set ps \<subseteq> set nonPlaying \<Longrightarrow> attempt_inv starters bench nonPlaying target st \<Longrightarrow>
   attempt_inv starters bench nonPlaying target (foldl (try_step target (js_sort bench_order bench)) st ps)"
proof (induction ps arbitrary: st)
  case (Cons p ps)
  then show ?case using try_step_inv [of starters bench nonPlaying target st p] by simp
qed simp

lemma attempt_inv_run:
  "attempt_inv starters bench nonPlaying target
     (foldl (try_step target (js_sort bench_order bench)) (starters, []) nonPlaying)"
  by (rule attempt_inv_fold) (auto simp: attempt_inv_def subs_ok_def)

text \<open>What every attempt, and hence the solution, guarantees.\<close>

definition solution_ok :: "fs_player \<Rightarrow> fs_player list \<Rightarrow> fs_player list \<Rightarrow> fs_player list \<Rightarrow> formation_solution \<Rightarrow> bool" where
  "solution_ok goalkeeper starters bench nonPlaying s \<longleftrightarrow>
     (\<exists>lineup. sol_finalLineup s = goalkeeper # lineup \<and> length lineup = length starters \<and>
        set lineup \<subseteq> set starters \<union> set bench \<and> sol_formation s = countPositions lineup) \<and>
     sol_totalPoints s = (\<Sum>p\<leftarrow>sol_finalLineup s. fs_gameweekPoints p) \<and>
     subs_ok bench nonPlaying (sol_substitutions s)"

lemma tryFormation_ok: "solution_ok goalkeeper starters bench nonPlaying (tryFormation goalkeeper starters bench nonPlaying target)"
  using attempt_inv_run [of starters bench nonPlaying target]
  by (auto simp: tryFormation_def solution_ok_def attempt_inv_def detectFormation_def calculateTotalPoints_def
      Let_def split: prod.splits)

lemma tryFormation_valid:
  "sol_isValid (tryFormation goalkeeper starters bench nonPlaying target) \<longleftrightarrow>
   isValidFormation (sol_formation (tryFormation goalkeeper starters bench nonPlaying target))"
  by (simp add: tryFormation_def Let_def split: prod.splits)

lemma unchanged_ok: "solution_ok goalkeeper starters bench nonPlaying (unchanged goalkeeper starters v)"
  by (simp add: unchanged_def solution_ok_def detectFormation_def calculateTotalPoints_def subs_ok_def)

section \<open>The best attempt\<close>

lemma keep_better_fold:
  "(case foldl keep_better best ss of
      None \<Rightarrow> best = None \<and> (\<forall>s \<in> set ss. \<not> sol_isValid s)
    | Some r \<Rightarrow> (r \<in> set ss \<and> sol_isValid r \<or> best = Some r) \<and>
               (\<forall>s \<in> set ss. sol_isValid s \<longrightarrow> sol_totalPoints s \<le> sol_totalPoints r) \<and>
               (\<forall>b. best = Some b \<longrightarrow> sol_totalPoints b \<le> sol_totalPoints r))"
proof (induction ss arbitrary: best)
  case Nil
  then show ?case by (auto split: option.splits)
next
  case (Cons s ss)
  show ?case using Cons [of "keep_better best s"]
    by (auto simp: keep_better_def split: option.splits if_splits)
qed

lemma solve_cases:
  assumes "nonPlaying \<noteq> []"
  obtains (found) target where "target \<in> set VALID_FORMATIONS"
      "solve g ss bench nonPlaying = tryFormation g ss bench nonPlaying target"
      "sol_isValid (tryFormation g ss bench nonPlaying target)"
      "\<forall>t \<in> set VALID_FORMATIONS. sol_isValid (tryFormation g ss bench nonPlaying t) \<longrightarrow>
         sol_totalPoints (tryFormation g ss bench nonPlaying t) \<le> sol_totalPoints (solve g ss bench nonPlaying)"
  | (none) "solve g ss bench nonPlaying = unchanged g ss False"
      "\<forall>t \<in> set VALID_FORMATIONS. \<not> sol_isValid (tryFormation g ss bench nonPlaying t)"
proof (cases "foldl keep_better None (map (tryFormation g ss bench nonPlaying) VALID_FORMATIONS)")
  case None
  then have "\<forall>t \<in> set VALID_FORMATIONS. \<not> sol_isValid (tryFormation g ss bench nonPlaying t)"
    using keep_better_fold [of None "map (tryFormation g ss bench nonPlaying) VALID_FORMATIONS"] by auto
  then show ?thesis using none None assms by (simp add: solve_def)
next
  case (Some r)
  then have s: "solve g ss bench nonPlaying = r" using assms by (simp add: solve_def)
  from Some obtain target where "target \<in> set VALID_FORMATIONS" "r = tryFormation g ss bench nonPlaying target"
      "sol_isValid r"
    using keep_better_fold [of None "map (tryFormation g ss bench nonPlaying) VALID_FORMATIONS"] by auto
  then show ?thesis using found [of target] s Some
      keep_better_fold [of None "map (tryFormation g ss bench nonPlaying) VALID_FORMATIONS"] by auto
qed

text \<open>
  A solution keeps the goalkeeper and the number of outfielders, its lineup comes from the
  starters and the bench, its points and formation are those of that lineup, and it uses each bench
  player at most once, keeper for keeper; if starters were absent and the solution is valid its
  formation is one of the eight; and no valid attempt at any legal formation scores more.
\<close>

theorem solve_sound:
  "solution_ok g ss bench nonPlaying (solve g ss bench nonPlaying) \<and>
   (nonPlaying \<noteq> [] \<and> sol_isValid (solve g ss bench nonPlaying) \<longrightarrow>
      isValidFormation (sol_formation (solve g ss bench nonPlaying))) \<and>
   (nonPlaying \<noteq> [] \<longrightarrow> (\<forall>t \<in> set VALID_FORMATIONS. sol_isValid (tryFormation g ss bench nonPlaying t) \<longrightarrow>
      sol_isValid (solve g ss bench nonPlaying) \<and>
      sol_totalPoints (tryFormation g ss bench nonPlaying t) \<le> sol_totalPoints (solve g ss bench nonPlaying)))"
proof (cases "nonPlaying = []")
  case True
  then show ?thesis by (simp add: solve_def unchanged_ok)
next
  case False
  then show ?thesis
  proof (cases rule: solve_cases [where g = g and ss = ss and bench = bench])
    case (found target)
    then show ?thesis using tryFormation_ok [of g ss bench nonPlaying target]
        tryFormation_valid [of g ss bench nonPlaying target] by auto
  next
    case none
    then show ?thesis using unchanged_ok [of g ss bench nonPlaying False] by (simp add: unchanged_def)
  qed
qed

section \<open>Never worse than doing nothing\<close>

definition ind :: "bool \<Rightarrow> nat" where
  "ind b = (if b then 1 else 0)"

text \<open>The target cannot be reached from formation \<open>f\<close> by replacing one player or none.\<close>

definition out_of_reach :: "outfield \<Rightarrow> outfield \<Rightarrow> bool" where
  "out_of_reach f t \<longleftrightarrow> (\<forall>p b. \<not> (of_def t + ind (p = DEF) = of_def f + ind (b = DEF) \<and>
     of_mid t + ind (p = MID) = of_mid f + ind (b = MID) \<and> of_fwd t + ind (p = FWD) = of_fwd f + ind (b = FWD)))"

lemma out_of_reachI:
  assumes "\<bar>int (of_def t) - int (of_def f)\<bar> + \<bar>int (of_mid t) - int (of_mid f)\<bar> + \<bar>int (of_fwd t) - int (of_fwd f)\<bar> \<ge> 3"
  shows "out_of_reach f t"
  unfolding out_of_reach_def
proof (intro allI)
  fix p b :: position
  show "\<not> (of_def t + ind (p = DEF) = of_def f + ind (b = DEF) \<and>
     of_mid t + ind (p = MID) = of_mid f + ind (b = MID) \<and> of_fwd t + ind (p = FWD) = of_fwd f + ind (b = FWD))"
    using assms by (cases p; cases b) (simp_all add: ind_def, linarith+)
qed

lemma every_formation_has_far_target:
  assumes "isValidFormation f"
  shows "\<exists>t \<in> set VALID_FORMATIONS. out_of_reach f t"
proof -
  have table: "list_all (\<lambda>f. list_ex (\<lambda>t. \<bar>int (of_def t) - int (of_def f)\<bar> + \<bar>int (of_mid t) - int (of_mid f)\<bar>
      + \<bar>int (of_fwd t) - int (of_fwd f)\<bar> \<ge> 3) VALID_FORMATIONS) VALID_FORMATIONS"
    by code_simp
  have "f \<in> set VALID_FORMATIONS"
    using assms by (cases f) (auto simp: isValidFormation_def VALID_FORMATIONS_def mk_formation_def)
  then show ?thesis using table out_of_reachI unfolding list_all_iff list_ex_iff by blast
qed

lemma swap_in_cases:
  assumes "distinct (map fs_id lineup)"
  obtains (same) "swap_in np b lineup = lineup"
  | (one) xs p ys where "lineup = xs @ p # ys" "swap_in np b lineup = xs @ b # ys"
proof (cases "fs_id np \<in> fs_id ` set lineup")
  case False
  then have "\<forall>q \<in> set lineup. fs_id q \<noteq> fs_id np" by (metis imageI)
  then have "swap_in np b lineup = lineup" by (simp add: swap_in_def map_idI)
  then show ?thesis by (rule same)
next
  case True
  then obtain p where "p \<in> set lineup" and id: "fs_id p = fs_id np" by auto
  then obtain xs ys where l: "lineup = xs @ p # ys" by (meson split_list)
  then have "fs_id p \<notin> fs_id ` (set xs \<union> set ys)" using assms by auto
  then have "\<forall>q \<in> set xs \<union> set ys. fs_id q \<noteq> fs_id np" unfolding id by (metis imageI)
  then have "map (\<lambda>p. if fs_id p = fs_id np then b else p) xs = xs"
    "map (\<lambda>p. if fs_id p = fs_id np then b else p) ys = ys" by (simp_all add: map_idI)
  then have "swap_in np b lineup = xs @ b # ys" using l id by (simp add: swap_in_def)
  then show ?thesis using one l by blast
qed

lemma far_no_match:
  assumes "distinct (map fs_id lineup)" "out_of_reach (countPositions lineup) t"
  shows "\<not> matchesFormation (swap_in np b lineup) t"
  using assms(1)
proof (cases rule: swap_in_cases [where np = np and b = b])
  case same
  have "\<not> (of_def t + ind (GKP = DEF) = of_def (countPositions lineup) + ind (GKP = DEF) \<and>
     of_mid t + ind (GKP = MID) = of_mid (countPositions lineup) + ind (GKP = MID) \<and>
     of_fwd t + ind (GKP = FWD) = of_fwd (countPositions lineup) + ind (GKP = FWD))"
    using assms(2) unfolding out_of_reach_def by blast
  then show ?thesis by (auto simp: same matchesFormation_def Let_def ind_def)
next
  case (one xs p ys)
  have "\<not> (of_def t + ind (fs_position p = DEF) = of_def (countPositions lineup) + ind (fs_position b = DEF) \<and>
     of_mid t + ind (fs_position p = MID) = of_mid (countPositions lineup) + ind (fs_position b = MID) \<and>
     of_fwd t + ind (fs_position p = FWD) = of_fwd (countPositions lineup) + ind (fs_position b = FWD))"
    using assms(2) unfolding out_of_reach_def by blast
  then show ?thesis unfolding one(2) unfolding one(1)
    by (cases "fs_position p"; cases "fs_position b")
      (auto simp: matchesFormation_def Let_def countPositions_def mk_formation_def ind_def)
qed

lemma far_target_no_change:
  assumes "distinct (map fs_id ss)" "out_of_reach (countPositions ss) t"
  shows "foldl (try_step t sb) (ss, []) nps = (ss, [])"
proof (induction nps)
  case (Cons np nps)
  have "find (sub_fits t ss [] np) sb = None"
    using far_no_match [OF assms] by (simp add: find_None_iff sub_fits_def)
  then show ?case using Cons by (simp add: try_step_def)
qed simp

text \<open>
  Starting from a legal formation of players with distinct ids the solver always returns a valid
  solution, and it never scores less than leaving the lineup as it is, even if every bench player who
  could come on has fewer points than the starter he would replace.
\<close>

theorem solve_never_worse:
  assumes "distinct (map fs_id ss)" and "isValidFormation (detectFormation ss)"
  shows "sol_isValid (solve g ss bench nonPlaying) \<and>
    (\<Sum>p\<leftarrow>g # ss. fs_gameweekPoints p) \<le> sol_totalPoints (solve g ss bench nonPlaying)"
proof (cases "nonPlaying = []")
  case True
  then show ?thesis by (simp add: solve_def unchanged_def calculateTotalPoints_def)
next
  case False
  obtain t where t: "t \<in> set VALID_FORMATIONS" "out_of_reach (countPositions ss) t"
    using every_formation_has_far_target assms(2) by (auto simp: detectFormation_def)
  have att: "sol_isValid (tryFormation g ss bench nonPlaying t)"
    "sol_totalPoints (tryFormation g ss bench nonPlaying t) = (\<Sum>p\<leftarrow>g # ss. fs_gameweekPoints p)"
    using assms(2) far_target_no_change [OF assms(1) t(2)]
    by (simp_all add: tryFormation_def Let_def calculateTotalPoints_def)
  from False show ?thesis
  proof (cases rule: solve_cases [where g = g and ss = ss and bench = bench])
    case (found target)
    then show ?thesis using att t by force
  next
    case none
    then show ?thesis using att t by blast
  qed
qed

section \<open>Examples\<close>

definition ex_player :: "string \<Rightarrow> position \<Rightarrow> int \<Rightarrow> int option \<Rightarrow> fs_player" where
  "ex_player i pos pts bp = \<lparr>fs_id = i, fs_position = pos, fs_minutesPlayed = (if pts = 0 then 0 else 90),
     fs_gameweekPoints = pts, fs_benchPosition = bp, fs_isStarter = (bp = None)\<rparr>"

definition ex_keeper :: fs_player where
  "ex_keeper = ex_player ''g1'' GKP 3 None"

definition ex_starters :: "fs_player list" where
  "ex_starters = [ex_player ''d1'' DEF 0 None, ex_player ''d2'' DEF 6 None, ex_player ''d3'' DEF 2 None,
     ex_player ''d4'' DEF 2 None, ex_player ''m1'' MID 0 None, ex_player ''m2'' MID 5 None,
     ex_player ''m3'' MID 3 None, ex_player ''m4'' MID 8 None, ex_player ''f1'' FWD 7 None, ex_player ''f2'' FWD 2 None]"

definition ex_bench :: "fs_player list" where
  "ex_bench = [ex_player ''g2'' GKP 1 (Some 0), ex_player ''d5'' DEF 4 (Some 1), ex_player ''f3'' FWD 6 (Some 2)]"

definition ex_absent :: "fs_player list" where
  "ex_absent = filter (\<lambda>p. fs_minutesPlayed p = 0) ex_starters"

lemma ex_legal: "distinct (map fs_id ex_starters)" "isValidFormation (detectFormation ex_starters)"
  by code_simp+

lemma ex_solved:
  "map (fs_id \<circ> sub_benchPlayer) (sol_substitutions (solve ex_keeper ex_starters ex_bench ex_absent)) = [''f3'']"
  "sol_totalPoints (solve ex_keeper ex_starters ex_bench ex_absent) = 44"
  by code_simp+

theorem solve_sound_witness:
  "solution_ok ex_keeper ex_starters ex_bench ex_absent (solve ex_keeper ex_starters ex_bench ex_absent) \<and>
   isValidFormation (sol_formation (solve ex_keeper ex_starters ex_bench ex_absent)) \<and> ex_absent \<noteq> []"
proof -
  have "ex_absent \<noteq> []" "sol_isValid (solve ex_keeper ex_starters ex_bench ex_absent)" by code_simp+
  then show ?thesis using solve_sound [of ex_keeper ex_starters ex_bench ex_absent] by blast
qed

theorem solve_never_worse_witness:
  "(\<Sum>p\<leftarrow>ex_keeper # ex_starters. fs_gameweekPoints p) \<le> sol_totalPoints (solve ex_keeper ex_starters ex_bench ex_absent)"
  using solve_never_worse [OF ex_legal, of ex_keeper ex_bench ex_absent] by blast

text \<open>
  The solver is not optimal: with an absent defender and midfielder in a 4-4-2 and a defender and
  a forward on the bench it makes one substitution, because every intermediate lineup has to match
  the target; making both leads to a legal 4-3-3 that scores more.
\<close>

theorem solve_not_optimal:
  "(let s = solve ex_keeper ex_starters ex_bench ex_absent;
        lineup = swap_in (ex_starters ! 4) (ex_bench ! 2) (swap_in (ex_starters ! 0) (ex_bench ! 1) ex_starters)
    in isValidFormation (detectFormation lineup) \<and>
       canSubstitute (ex_starters ! 0) (ex_bench ! 1) \<and> canSubstitute (ex_starters ! 4) (ex_bench ! 2) \<and>
       sol_totalPoints s < calculateTotalPoints (ex_keeper # lineup))"
  by code_simp

end
