(* ===== verification/Bonus_Points.thy ===== *)
theory Bonus_Points
  imports FX_Prelude
begin

text \<open>
  Provisional bonus points, \<open>backend/src/services/scoring/provisionalBps.ts\<close>: candidates are grouped
  by fixture, sorted by descending BPS, and the first three rank places award 3, 2 and 1 points, tied
  players sharing the award of their first place. An award is keyed by fixture and player id.
\<close>

record bps_candidate =
  bc_playerId :: int
  bc_fixtureId :: int
  bc_bps :: rat
  bc_minutes :: rat

abbreviation award_key :: "bps_candidate \<Rightarrow> int \<times> int" where
  "award_key c \<equiv> (bc_fixtureId c, bc_playerId c)"

definition bps_eligible :: "bps_candidate \<Rightarrow> bool" where
  "bps_eligible c \<longleftrightarrow>
     \<not> (of_int \<lfloor>bc_bps c\<rfloor> \<noteq> bc_bps c \<or> bc_bps c < 0) \<and> \<not> (bc_minutes c \<le> 0 \<or> bc_bps c \<le> 0)"

definition bps_order :: "bps_candidate cmp" where
  "bps_order = js_or (desc bc_bps) (asc (\<lambda>c. of_int (bc_playerId c)))"

text \<open>The \<open>while\<close> loop: \<open>rest\<close> is \<open>players.slice(index)\<close>.\<close>

function award_from :: "nat \<Rightarrow> bps_candidate list \<Rightarrow> ((int \<times> int) \<times> nat) list \<Rightarrow> ((int \<times> int) \<times> nat) list" where
  "award_from idx rest awards =
     (case rest of
        [] \<Rightarrow> awards
      | p # ps \<Rightarrow>
          if idx < 3 then
            (let tied = p # takeWhile (\<lambda>q. bc_bps q = bc_bps p) ps
             in award_from (idx + length tied) (dropWhile (\<lambda>q. bc_bps q = bc_bps p) ps)
                  (foldl (\<lambda>m q. AList.update (award_key q) (3 - idx) m) awards tied))
          else awards)"
  by pat_completeness auto
termination
  by (relation "measure (\<lambda>(idx, rest, awards). length rest)") (auto simp: le_imp_less_Suc length_dropWhile_le)

declare award_from.simps [simp del]

definition allocateProvisionalBonus :: "bps_candidate list \<Rightarrow> ((int \<times> int) \<times> nat) list" where
  "allocateProvisionalBonus candidates =
     foldl (\<lambda>awards (f, players). award_from 0 (js_sort bps_order players) awards) []
       (group_by bc_fixtureId (filter bps_eligible candidates))"

section \<open>The rank of a candidate\<close>

text \<open>How many eligible candidates of the same fixture have more BPS.\<close>

definition bps_rank :: "bps_candidate list \<Rightarrow> bps_candidate \<Rightarrow> nat" where
  "bps_rank cs c = length (filter (\<lambda>d. bps_eligible d \<and> bc_fixtureId d = bc_fixtureId c \<and> bc_bps c < bc_bps d) cs)"

lemma map_of_set_all:
  "map_of (foldl (\<lambda>m q. AList.update (f q) v m) al qs) k = (if k \<in> f ` set qs then Some v else map_of al k)"
  by (induction qs arbitrary: al) auto

definition set_award :: "((int \<times> int) \<times> nat) list \<Rightarrow> nat \<Rightarrow> bps_candidate list \<Rightarrow> ((int \<times> int) \<times> nat) list" where
  "set_award awards v qs = foldl (\<lambda>m q. AList.update (award_key q) v m) awards qs"

lemma map_of_set_award:
  "map_of (set_award aw v qs) k = (if k \<in> award_key ` set qs then Some v else map_of aw k)"
  unfolding set_award_def by (rule map_of_set_all)

lemma sorted_desc_split:
  assumes "sorted_wrt (\<lambda>a b. bc_bps b \<le> bc_bps a) (p # ps)"
    and "q \<in> set (dropWhile (\<lambda>q. bc_bps q = bc_bps p) ps)"
  shows "bc_bps q < bc_bps p"
  using assms
proof (induction ps)
  case (Cons r rs)
  show ?case
  proof (cases "bc_bps r = bc_bps p")
    case True
    then show ?thesis using Cons by auto
  next
    case False
    then have "bc_bps r < bc_bps p" using Cons.prems(1) by simp
    moreover have "q = r \<or> q \<in> set rs" using False Cons.prems(2) by simp
    ultimately show ?thesis using Cons.prems(1) by auto
  qed
qed simp

text \<open>One round of the loop: a block of tied players, all of them above the rest.\<close>

lemma award_from_block:
  assumes "rest \<noteq> []" "idx < 3" "sorted_wrt (\<lambda>a b. bc_bps b \<le> bc_bps a) rest"
  obtains B R and p :: bps_candidate where "rest = B @ R" "B \<noteq> []" "\<forall>q \<in> set B. bc_bps q = bc_bps p" "\<forall>q \<in> set R. bc_bps q < bc_bps p"
    "sorted_wrt (\<lambda>a b. bc_bps b \<le> bc_bps a) R"
    "\<forall>aw. award_from idx rest aw = award_from (idx + length B) R (set_award aw (3 - idx) B)"
proof -
  obtain p ps where rest: "rest = p # ps" using assms(1) by (cases rest) auto
  let ?B = "p # takeWhile (\<lambda>q. bc_bps q = bc_bps p) ps" and ?R = "dropWhile (\<lambda>q. bc_bps q = bc_bps p) ps"
  have app: "rest = ?B @ ?R" by (simp add: rest)
  show ?thesis
  proof (rule that [of ?B ?R p])
    show "sorted_wrt (\<lambda>a b. bc_bps b \<le> bc_bps a) ?R"
      using assms(3) app by (simp only: sorted_wrt_append)
    show "\<forall>q \<in> set ?R. bc_bps q < bc_bps p"
      using sorted_desc_split [of p ps] assms(3) rest by blast
    show "\<forall>q \<in> set ?B. bc_bps q = bc_bps p" by (auto dest: set_takeWhileD)
    show "\<forall>aw. award_from idx rest aw = award_from (idx + length ?B) ?R (set_award aw (3 - idx) ?B)"
      using assms(2) by (intro allI, subst award_from.simps) (simp add: rest Let_def set_award_def)
  qed (simp_all add: rest)
qed

lemma award_from_stop: "\<not> idx < 3 \<Longrightarrow> award_from idx rest aw = aw"
  by (subst award_from.simps) (simp split: list.split)

lemma award_from_spec:
  "sorted_wrt (\<lambda>a b. bc_bps b \<le> bc_bps a) rest \<Longrightarrow> distinct (map award_key rest) \<Longrightarrow>
   map_of (award_from idx rest aw) k =
     (case find (\<lambda>c. award_key c = k) rest of
        None \<Rightarrow> map_of aw k
      | Some c \<Rightarrow> let r = idx + length (filter (\<lambda>d. bc_bps c < bc_bps d) rest)
                  in if r < 3 then Some (3 - r) else map_of aw k)"
proof (induction "length rest" arbitrary: idx rest aw rule: less_induct)
  case less
  show ?case
  proof (cases "rest = [] \<or> \<not> idx < 3")
    case True
    then show ?thesis
      by (auto simp: award_from_stop award_from.simps [of idx "[]"] Let_def split: option.splits)
  next
    case False
    then have ne: "rest \<noteq> []" "idx < 3" by auto
    obtain B R and p :: bps_candidate where b: "rest = B @ R" "B \<noteq> []" "\<forall>q \<in> set B. bc_bps q = bc_bps p" "\<forall>q \<in> set R. bc_bps q < bc_bps p"
      "sorted_wrt (\<lambda>a b. bc_bps b \<le> bc_bps a) R"
      "\<forall>aw. award_from idx rest aw = award_from (idx + length B) R (set_award aw (3 - idx) B)"
      by (rule award_from_block [OF ne less.prems(1)])
    have ih: "map_of (award_from idx rest aw) k =
       (case find (\<lambda>c. award_key c = k) R of
        None \<Rightarrow> map_of (set_award aw (3 - idx) B) k
      | Some c \<Rightarrow> let r = idx + length B + length (filter (\<lambda>d. bc_bps c < bc_bps d) R)
                  in if r < 3 then Some (3 - r) else map_of (set_award aw (3 - idx) B) k)"
      unfolding b(6) [rule_format] using less.prems b by (intro less.hyps) auto
    show ?thesis
    proof (cases "find (\<lambda>c. award_key c = k) R")
      case None
      then have nR: "k \<notin> award_key ` set R" by (auto simp: find_None_iff)
      show ?thesis
      proof (cases "find (\<lambda>c. award_key c = k) B")
        case None
        then have "k \<notin> award_key ` set B" by (auto simp: find_None_iff)
        moreover have "find (\<lambda>c. award_key c = k) rest = None"
          using calculation nR b(1) by (auto simp: find_None_iff)
        ultimately show ?thesis using ih \<open>find (\<lambda>c. award_key c = k) R = None\<close> by (simp add: map_of_set_award)
      next
        case (Some c)
        then have c: "c \<in> set B" "award_key c = k" by (auto dest: find_SomeD)
        have "filter (\<lambda>d. bc_bps c < bc_bps d) rest = []"
          using b(1,3,4) c by (auto simp: filter_empty_conv)
        moreover have "find (\<lambda>c. award_key c = k) rest = Some c" using Some b(1) by (simp add: find_app)
        moreover have "k \<in> award_key ` set B" using c by blast
        ultimately show ?thesis using ih None False by (simp add: map_of_set_award)
      qed
    next
      case (Some c)
      then have c: "c \<in> set R" "award_key c = k" by (auto dest: find_SomeD)
      then have nB: "k \<notin> award_key ` set B" using less.prems(2) b(1) by auto
      then have "find (\<lambda>c. award_key c = k) B = None" by (auto simp: find_None_iff)
      then have "find (\<lambda>c. award_key c = k) rest = Some c" using Some b(1) by (simp add: find_app)
      moreover have "filter (\<lambda>d. bc_bps c < bc_bps d) B = B" using b(3,4) c by (auto simp: filter_id_conv)
      ultimately show ?thesis using ih Some nB b(1) by (simp add: map_of_set_award Let_def add.assoc)
    qed
  qed
qed

section \<open>The allocation\<close>

interpretation bps_sort: comparator bps_order
  unfolding bps_order_def by (intro comparator_intros)

lemma bps_sorted: "sorted_wrt (\<lambda>a b. bc_bps b \<le> bc_bps a) (js_sort bps_order ps)"
  by (rule sorted_wrt_mono_rel [OF _ bps_sort.sorted_js_sort])
    (auto simp: bps_order_def js_or_def desc_def split: if_splits)

lemma allocate_fold_miss:
  "\<forall>(f, g) \<in> set gs. k \<notin> award_key ` set g \<and> distinct (map award_key g) \<Longrightarrow>
   map_of (foldl (\<lambda>aw (f, ps). award_from 0 (js_sort bps_order ps) aw) aw gs) k = map_of aw k"
proof (induction gs arbitrary: aw)
  case (Cons fg gs)
  obtain f g where fg: "fg = (f, g)" by (cases fg)
  have "find (\<lambda>c. award_key c = k) (js_sort bps_order g) = None"
    using Cons.prems fg by (auto simp: find_None_iff)
  moreover have "distinct (map award_key (js_sort bps_order g))"
    using Cons.prems fg by (simp add: distinct_map)
  ultimately have "map_of (award_from 0 (js_sort bps_order g) aw) k = map_of aw k"
    by (simp add: award_from_spec [OF bps_sorted])
  then show ?case using Cons fg by simp
qed simp

text \<open>
  Provisional bonus is decided by rank alone: a candidate who played, with positive integer BPS,
  and with r better candidates in his fixture gets 3 - r points if r is below three and nothing
  otherwise; nobody else gets an award. Hence ties share an award and consume the places after them,
  fixtures do not influence each other and the order of the feed does not matter.
\<close>

theorem provisional_bonus_by_rank:
  assumes "distinct (map award_key candidates)"
  shows "map_of (allocateProvisionalBonus candidates) k =
    (case find (\<lambda>c. award_key c = k \<and> bps_eligible c) candidates of
       None \<Rightarrow> None
     | Some c \<Rightarrow> if bps_rank candidates c < 3 then Some (3 - bps_rank candidates c) else None)"
proof -
  let ?el = "filter bps_eligible candidates" and ?step = "\<lambda>aw (f, ps). award_from 0 (js_sort bps_order ps) aw"
  have del: "distinct (map award_key ?el)" using assms by (simp add: distinct_map_filter)
  have groups: "g = filter (\<lambda>c. bc_fixtureId c = f) ?el \<and> distinct (map award_key g)"
    if "(f, g) \<in> set (group_by bc_fixtureId ?el)" for f g
    using that assms by (auto simp: group_by_entry distinct_map_filter)
  show ?thesis
  proof (cases "find (\<lambda>c. award_key c = k \<and> bps_eligible c) candidates")
    case None
    then have "\<forall>(f, g) \<in> set (group_by bc_fixtureId ?el). k \<notin> award_key ` set g \<and> distinct (map award_key g)"
      using groups by (fastforce simp: find_None_iff)
    then show ?thesis using None unfolding allocateProvisionalBonus_def by (simp add: allocate_fold_miss)
  next
    case (Some c)
    then have c: "c \<in> set ?el" "award_key c = k" by (auto dest: find_SomeD)
    let ?g = "filter (\<lambda>d. bc_fixtureId d = bc_fixtureId c) ?el"
    have "(bc_fixtureId c, ?g) \<in> set (group_by bc_fixtureId ?el)" using c by (auto simp: group_by_entry)
    then obtain xs ys where split: "group_by bc_fixtureId ?el = xs @ (bc_fixtureId c, ?g) # ys"
      by (meson split_list)
    have others: "k \<notin> award_key ` set g \<and> distinct (map award_key g)" if fg: "(f, g) \<in> set xs \<union> set ys" for f g
    proof -
      have "f \<noteq> bc_fixtureId c" using fg distinct_group_by [of bc_fixtureId ?el] unfolding split by force
      moreover have "(f, g) \<in> set (group_by bc_fixtureId ?el)" using fg split by auto
      ultimately have "f \<noteq> bc_fixtureId c" "g = filter (\<lambda>c. bc_fixtureId c = f) ?el" "distinct (map award_key g)"
        using groups by blast+
      then show ?thesis using c by auto
    qed
    have rest: "map_of (foldl ?step aw xs) k = map_of aw k" "map_of (foldl ?step aw ys) k = map_of aw k" for aw
      using others by (auto intro!: allocate_fold_miss)
    have dg: "distinct (map award_key (js_sort bps_order ?g))"
      using distinct_map_filter [OF del, of "\<lambda>d. bc_fixtureId d = bc_fixtureId c"] by (simp add: distinct_map)
    have "find (\<lambda>d. award_key d = k) (js_sort bps_order ?g) = Some c"
      using find_unique [OF dg, of c] c by simp
    moreover have "length (filter (\<lambda>d. bc_bps c < bc_bps d) (js_sort bps_order ?g)) = bps_rank candidates c"
      by (auto simp: bps_rank_def intro!: arg_cong [where f = length] filter_cong)
    ultimately have "map_of (award_from 0 (js_sort bps_order ?g) aw) k =
        (if bps_rank candidates c < 3 then Some (3 - bps_rank candidates c) else map_of aw k)" for aw
      unfolding award_from_spec [OF bps_sorted dg] by (simp only: option.case Let_def add_0_left)
    then show ?thesis using Some rest unfolding allocateProvisionalBonus_def split by simp
  qed
qed

definition bonus_feed :: "bps_candidate list" where
  "bonus_feed = map (\<lambda>(p, f, b, m). \<lparr>bc_playerId = p, bc_fixtureId = f, bc_bps = b, bc_minutes = m\<rparr>)
     [(1, 7, 20, 90), (2, 7, 31, 90), (3, 7, 31, 60), (4, 7, 50, 0), (5, 7, 12, 90), (6, 8, 9, 15)]"

theorem provisional_bonus_by_rank_witness:
  "map_of (allocateProvisionalBonus bonus_feed) (7, 1) = Some 1 \<and> map_of (allocateProvisionalBonus bonus_feed) (7, 3) = Some 3
   \<and> map_of (allocateProvisionalBonus bonus_feed) (7, 5) = None"
proof -
  have d: "distinct (map award_key bonus_feed)" by (simp add: bonus_feed_def)
  show ?thesis
    unfolding provisional_bonus_by_rank [OF d] by (simp add: bonus_feed_def bps_eligible_def bps_rank_def)
qed

end
