(* ===== verification/FX_Strings.thy ===== *)
theory FX_Strings
  imports FX_Prelude
begin

text \<open>
  Operations on strings the components share: trimming, decimal text, joining, and the default order
  of \<open>sort()\<close>.
\<close>

definition is_ws :: "char \<Rightarrow> bool" where
  "is_ws c \<longleftrightarrow> (let n = of_char c :: nat in 9 \<le> n \<and> n \<le> 13 \<or> n = 32 \<or> n = 160)"

definition trim_ws :: "string \<Rightarrow> string" where
  "trim_ws s = rev (dropWhile is_ws (rev (dropWhile is_ws s)))"

definition show_int :: "int \<Rightarrow> string" where
  "show_int n = (if n < 0 then CHR ''-'' # show_nat (nat (- n)) else show_nat (nat n))"

fun join :: "string \<Rightarrow> string list \<Rightarrow> string" where
  "join sep [] = []"
| "join sep [s] = s"
| "join sep (s # ss) = s @ sep @ join sep ss"

text \<open>The default order of \<open>sort()\<close> on strings, by code unit.\<close>

fun str_cmp :: "string \<Rightarrow> string \<Rightarrow> rat" where
  "str_cmp [] [] = 0"
| "str_cmp [] (_ # _) = - 1"
| "str_cmp (_ # _) [] = 1"
| "str_cmp (a # as) (b # bs) =
     (if (of_char a :: nat) < of_char b then - 1 else if (of_char b :: nat) < of_char a then 1 else str_cmp as bs)"

section \<open>Laws of the order\<close>

lemma str_cmp_anti: "str_cmp b a = - str_cmp a b"
  by (induction a b rule: str_cmp.induct) auto

lemma str_cmp_zero_iff: "str_cmp a b = 0 \<longleftrightarrow> a = b"
  by (induction a b rule: str_cmp.induct) auto

lemma str_cmp_Cons_le:
  "str_cmp (x # xs) (y # ys) \<le> 0 \<longleftrightarrow>
     (of_char x :: nat) < of_char y \<or> (of_char x :: nat) = of_char y \<and> str_cmp xs ys \<le> 0"
  by auto

lemma str_cmp_trans: "str_cmp a b \<le> 0 \<Longrightarrow> str_cmp b c \<le> 0 \<Longrightarrow> str_cmp a c \<le> 0"
proof (induction a arbitrary: b c)
  case Nil
  then show ?case by (cases c) simp_all
next
  case (Cons x xs)
  then obtain y ys where b: "b = y # ys" by (cases b) auto
  then obtain z zs where c: "c = z # zs" using Cons.prems by (cases c) auto
  show ?case using Cons.prems Cons.IH [of ys zs] unfolding b c str_cmp_Cons_le by linarith
qed

lemma comparator_str_cmp: "comparator str_cmp"
proof
  show "sgn (str_cmp y x) = - sgn (str_cmp x y)" for x y by (subst str_cmp_anti) simp
qed (rule str_cmp_trans)

end
