(* ===== verification/Merkle.thy ===== *)
theory Merkle
  imports Scoring_Config FX_Strings "HOL-Library.Word"
begin

text \<open>
  Merkle trees for prize claims: \<open>backend/src/services/financial/merkleTree.ts\<close> and
  \<open>settlementProof.ts\<close>. SHA-256 and the XDR encoding of a claim come from libraries; they are the
  parameters \<open>sha\<close> and \<open>leaf_xdr\<close> of the definitions. Buffers are lists of bytes, hex strings are
  strings, and what throws returns \<open>merkle_error + 'a\<close>.
\<close>

section \<open>Bytes and hex\<close>

type_synonym bytes = "8 word list"

definition hex_digit :: "nat \<Rightarrow> char" where
  "hex_digit n = (if n < 10 then char_of (48 + n) else char_of (87 + n))"

definition hex_value :: "char \<Rightarrow> nat option" where
  "hex_value c =
     (let n = of_char c :: nat
      in if 48 \<le> n \<and> n \<le> 57 then Some (n - 48)
         else if 97 \<le> n \<and> n \<le> 102 then Some (n - 87)
         else if 65 \<le> n \<and> n \<le> 70 then Some (n - 55)
         else None)"

text \<open>\<open>buf.toString("hex")\<close> and \<open>Buffer.from(s, "hex")\<close>, which stops at the first pair that is not hex.\<close>

definition to_hex :: "bytes \<Rightarrow> string" where
  "to_hex bs = concat (map (\<lambda>b. [hex_digit (unat b div 16), hex_digit (unat b mod 16)]) bs)"

fun from_hex :: "string \<Rightarrow> bytes" where
  "from_hex (a # b # s) =
     (case (hex_value a, hex_value b) of
        (Some m, Some n) \<Rightarrow> word_of_nat (16 * m + n) # from_hex s
      | _ \<Rightarrow> [])"
| "from_hex _ = []"

fun buf_compare :: "bytes \<Rightarrow> bytes \<Rightarrow> int" where
  "buf_compare [] [] = 0"
| "buf_compare [] (_ # _) = - 1"
| "buf_compare (_ # _) [] = 1"
| "buf_compare (a # as) (b # bs) = (if a < b then - 1 else if b < a then 1 else buf_compare as bs)"

section \<open>Trees\<close>

datatype merkle_error = NoLeaves | LeafIndexOutOfBounds nat | EmptyWinners | NotABigInt | EncodingError

record merkle_tree =
  mt_leaves :: "bytes list"
  mt_layers :: "bytes list list"

definition hashPair :: "(bytes \<Rightarrow> bytes) \<Rightarrow> bytes \<Rightarrow> bytes \<Rightarrow> bytes" where
  "hashPair sha left right = sha (if buf_compare left right \<le> 0 then left @ right else right @ left)"

text \<open>One pass of the inner loop, for any way of combining two nodes; an odd node is paired with itself.\<close>

fun next_level :: "('h \<Rightarrow> 'h \<Rightarrow> 'h) \<Rightarrow> 'h list \<Rightarrow> 'h list" where
  "next_level comb [] = []"
| "next_level comb [a] = [comb a a]"
| "next_level comb (a # b # rest) = comb a b # next_level comb rest"

lemma length_next_level [simp]: "length (next_level comb xs) = (length xs + 1) div 2"
  by (induction comb xs rule: next_level.induct) auto

lemma next_level_Nil_iff [simp]: "next_level comb xs = [] \<longleftrightarrow> xs = []"
  by (cases "(comb, xs)" rule: next_level.cases) auto

function build_layers :: "('h \<Rightarrow> 'h \<Rightarrow> 'h) \<Rightarrow> 'h list \<Rightarrow> 'h list list" where
  "build_layers comb current =
     (if length current > 1 then current # build_layers comb (next_level comb current) else [current])"
  by pat_completeness auto
termination
  by (relation "measure (\<lambda>(comb, current). length current)") auto

declare build_layers.simps [simp del]

definition new_MerkleTree :: "(bytes \<Rightarrow> bytes) \<Rightarrow> bytes list \<Rightarrow> merkle_error + merkle_tree" where
  "new_MerkleTree sha leaves =
     (if leaves = [] then Inl NoLeaves
      else Inr \<lparr>mt_leaves = leaves, mt_layers = build_layers (hashPair sha) leaves\<rparr>)"

definition getRoot :: "merkle_tree \<Rightarrow> bytes" where
  "getRoot t = (last (mt_layers t)) ! 0"

definition getRootHex :: "merkle_tree \<Rightarrow> string" where
  "getRootHex t = to_hex (getRoot t)"

definition sibling :: "'h list \<Rightarrow> nat \<Rightarrow> 'h" where
  "sibling layer idx =
     (let siblingIdx = (if idx mod 2 = 1 then idx - 1 else idx + 1)
      in if siblingIdx < length layer then layer ! siblingIdx else layer ! idx)"

text \<open>The loop over all layers but the last.\<close>

fun proof_loop :: "'h list list \<Rightarrow> nat \<Rightarrow> 'h list" where
  "proof_loop (layer # next # rest) idx = sibling layer idx # proof_loop (next # rest) (idx div 2)"
| "proof_loop _ idx = []"

definition getProof :: "merkle_tree \<Rightarrow> nat \<Rightarrow> merkle_error + string list" where
  "getProof t leafIndex =
     (if leafIndex \<ge> length (mt_leaves t) then Inl (LeafIndexOutOfBounds leafIndex)
      else Inr (map to_hex (proof_loop (mt_layers t) leafIndex)))"

datatype buf_or_hex = Buf bytes | Hex string

fun as_buffer :: "buf_or_hex \<Rightarrow> bytes" where
  "as_buffer (Buf b) = b"
| "as_buffer (Hex s) = from_hex s"

definition verifyMerkleProof :: "(bytes \<Rightarrow> bytes) \<Rightarrow> bytes \<Rightarrow> buf_or_hex list \<Rightarrow> buf_or_hex \<Rightarrow> bool" where
  "verifyMerkleProof sha leafHash items expectedRoot \<longleftrightarrow>
     foldl (\<lambda>current item. hashPair sha current (as_buffer item)) leafHash items = as_buffer expectedRoot"

section \<open>Claims\<close>

text \<open>The argument of \<open>BigInt(x)\<close> and its conversion: an integral number, or a numeral in a string.\<close>

datatype big_arg = Big int | Num rat | Str string

fun digits_value :: "nat \<Rightarrow> nat \<Rightarrow> string \<Rightarrow> nat option" where
  "digits_value base acc [] = Some acc"
| "digits_value base acc (c # cs) =
     (case hex_value c of
        Some d \<Rightarrow> if d < base then digits_value base (base * acc + d) cs else None
      | None \<Rightarrow> None)"

definition numeral_value :: "nat \<Rightarrow> string \<Rightarrow> nat option" where
  "numeral_value base s = (if s = [] then None else digits_value base 0 s)"

definition string_bigint :: "string \<Rightarrow> int option" where
  "string_bigint s =
     (let t = trim_ws s; pre = take 2 t
      in if t = [] then Some 0
         else if pre = ''0x'' \<or> pre = ''0X'' then map_option int (numeral_value 16 (drop 2 t))
         else if pre = ''0o'' \<or> pre = ''0O'' then map_option int (numeral_value 8 (drop 2 t))
         else if pre = ''0b'' \<or> pre = ''0B'' then map_option int (numeral_value 2 (drop 2 t))
         else if hd t = CHR ''-'' then map_option (\<lambda>n. - int n) (numeral_value 10 (tl t))
         else if hd t = CHR ''+'' then map_option int (numeral_value 10 (tl t))
         else map_option int (numeral_value 10 t))"

fun to_bigint :: "big_arg \<Rightarrow> merkle_error + int" where
  "to_bigint (Big n) = Inr n"
| "to_bigint (Num q) = (if of_int \<lfloor>q\<rfloor> = q then Inr \<lfloor>q\<rfloor> else Inl NotABigInt)"
| "to_bigint (Str s) = (case string_bigint s of None \<Rightarrow> Inl NotABigInt | Some n \<Rightarrow> Inr n)"

record winner_claim =
  wc_winnerAddress :: string
  wc_amount :: big_arg

record claim_proof =
  cp_leagueId :: big_arg
  cp_winnerAddress :: string
  cp_amount :: string
  cp_proof :: "string list"
  cp_root :: string

type_synonym xdr = "int \<Rightarrow> string \<Rightarrow> int \<Rightarrow> bytes option"

definition hashClaimLeaf ::
  "(bytes \<Rightarrow> bytes) \<Rightarrow> xdr \<Rightarrow> big_arg \<Rightarrow> string \<Rightarrow> big_arg \<Rightarrow> merkle_error + bytes" where
  "hashClaimLeaf sha leaf_xdr leagueId winnerAddress amount =
     res_bind (to_bigint leagueId) (\<lambda>leagueIdBigInt.
       res_bind (to_bigint amount) (\<lambda>amountBigInt.
         case leaf_xdr leagueIdBigInt winnerAddress amountBigInt of
           None \<Rightarrow> Inl EncodingError
         | Some leafBytes \<Rightarrow> Inr (sha leafBytes)))"

definition claim_entry ::
  "big_arg \<Rightarrow> merkle_tree \<Rightarrow> winner_claim \<times> nat \<Rightarrow> merkle_error + (string \<times> claim_proof)" where
  "claim_entry leagueId tree wi =
     (case wi of (w, idx) \<Rightarrow>
        res_bind (to_bigint (wc_amount w)) (\<lambda>a.
          res_bind (getProof tree idx) (\<lambda>p.
            Inr (wc_winnerAddress w,
                 \<lparr>cp_leagueId = leagueId, cp_winnerAddress = wc_winnerAddress w, cp_amount = show_int a,
                  cp_proof = p, cp_root = getRootHex tree\<rparr>))))"

definition generateLeagueMerkleTree ::
  "(bytes \<Rightarrow> bytes) \<Rightarrow> xdr \<Rightarrow> big_arg \<Rightarrow> winner_claim list
     \<Rightarrow> merkle_error + (merkle_tree \<times> string \<times> (string \<times> claim_proof) list)" where
  "generateLeagueMerkleTree sha leaf_xdr leagueId winners =
     (if winners = [] then Inl EmptyWinners
      else res_bind (res_map (\<lambda>w. hashClaimLeaf sha leaf_xdr leagueId (wc_winnerAddress w) (wc_amount w)) winners) (\<lambda>leaves.
           res_bind (new_MerkleTree sha leaves) (\<lambda>tree.
           res_bind (res_map (claim_entry leagueId tree) (zip winners [0..<length winners])) (\<lambda>entries.
             Inr (tree, getRootHex tree, js_map entries)))))"

section \<open>Settlements\<close>

record settlement_winner =
  sw_rank :: rat
  sw_userId :: string
  sw_stellarAddress :: string
  sw_totalPoints :: rat
  sw_prizeAmount :: rat

record settlement_input =
  si_leagueId :: string
  si_grossPool :: rat
  si_platformFee :: rat
  si_winners :: "settlement_winner list"

definition rank_order :: "settlement_winner cmp" where
  "rank_order = asc sw_rank"

text \<open>The object the commitment hashes; \<open>digest\<close> stands for its JSON text hashed with SHA-256, in hex.\<close>

definition canonical_settlement :: "settlement_input \<Rightarrow> json" where
  "canonical_settlement inp = JObj
     [(''leagueId'', JStr (si_leagueId inp)), (''grossPool'', JNum (si_grossPool inp)),
      (''platformFee'', JNum (si_platformFee inp)),
      (''winners'', JArr (map (\<lambda>w. JObj
         [(''rank'', JNum (sw_rank w)), (''userId'', JStr (sw_userId w)),
          (''stellarAddress'', JStr (sw_stellarAddress w)), (''totalPoints'', JNum (sw_totalPoints w)),
          (''prizeAmount'', JNum (sw_prizeAmount w))]) (js_sort rank_order (si_winners inp))))]"

definition createSettlementProof :: "(json \<Rightarrow> string) \<Rightarrow> settlement_input \<Rightarrow> string" where
  "createSettlementProof digest inp = digest (canonical_settlement inp)"

definition createSettlementMerkleTree ::
  "(bytes \<Rightarrow> bytes) \<Rightarrow> xdr \<Rightarrow> settlement_input \<Rightarrow> merkle_error + (string \<times> (string \<times> claim_proof) list)" where
  "createSettlementMerkleTree sha leaf_xdr inp =
     res_bind (generateLeagueMerkleTree sha leaf_xdr (Str (si_leagueId inp))
                 (map (\<lambda>w. \<lparr>wc_winnerAddress = sw_stellarAddress w,
                            wc_amount = Num (of_int (js_round (sw_prizeAmount w * 10000000)))\<rparr>) (si_winners inp)))
       (\<lambda>(tree, rootHex, claimProofs). Inr (rootHex, claimProofs))"

section \<open>Hex round trip\<close>

lemma hex_value_digit [simp]: "n < 16 \<Longrightarrow> hex_value (hex_digit n) = Some n"
  by (auto simp: hex_value_def hex_digit_def Let_def)

lemma from_to_hex [simp]: "from_hex (to_hex bs) = bs"
proof (induction bs)
  case (Cons b bs)
  have "unat b < 256" using unsigned_less [of b, where ?'a = nat] by simp
  then have "hex_value (hex_digit (unat b div 16)) = Some (unat b div 16)"
    "hex_value (hex_digit (unat b mod 16)) = Some (unat b mod 16)" by auto
  then show ?case using Cons by (simp add: to_hex_def)
qed (simp add: to_hex_def)

lemma length_to_hex: "length (to_hex bs) = 2 * length bs"
  by (induction bs) (auto simp: to_hex_def)

lemma buf_compare_anti: "buf_compare b a = - buf_compare a b"
  by (induction a b rule: buf_compare.induct) auto

lemma buf_compare_eq: "buf_compare a b = 0 \<longleftrightarrow> a = b"
  by (induction a b rule: buf_compare.induct) auto

lemma hashPair_commute: "hashPair sha a b = hashPair sha b a"
proof (cases "a = b")
  case False
  then have "buf_compare a b \<noteq> 0" by (simp add: buf_compare_eq)
  then show ?thesis using buf_compare_anti [of a b] by (auto simp: hashPair_def)
qed simp

section \<open>The contract of a Merkle scheme\<close>

text \<open>
  A scheme combines two nodes with \<open>comb\<close>; a verifier takes the current hash and the sibling, and
  whether the current node is the right one. \<open>climb\<close> folds the verifier along a branch, \<open>root_of\<close>
  is the last node of the layers.
\<close>

fun climb :: "(bool \<Rightarrow> 'h \<Rightarrow> 'h \<Rightarrow> 'h) \<Rightarrow> nat \<Rightarrow> 'h \<Rightarrow> 'h list \<Rightarrow> 'h" where
  "climb step i cur [] = cur"
| "climb step i cur (s # ss) = climb step (i div 2) (step (odd i) cur s) ss"

definition root_of :: "('h \<Rightarrow> 'h \<Rightarrow> 'h) \<Rightarrow> 'h list \<Rightarrow> 'h" where
  "root_of comb leaves = last (build_layers comb leaves) ! 0"

lemma build_layers_ne: "build_layers comb xs \<noteq> []"
  by (subst build_layers.simps) simp

lemma root_of_simps:
  "root_of comb [x] = x"
  "1 < length xs \<Longrightarrow> root_of comb xs = root_of comb (next_level comb xs)"
  unfolding root_of_def
  by (simp add: build_layers.simps) (subst build_layers.simps, simp add: build_layers_ne)

lemma build_layers_more: "1 < length xs \<Longrightarrow> build_layers comb xs = xs # build_layers comb (next_level comb xs)"
  by (subst build_layers.simps) simp

lemma proof_loop_more:
  "1 < length xs \<Longrightarrow>
   proof_loop (build_layers comb xs) i = sibling xs i # proof_loop (build_layers comb (next_level comb xs)) (i div 2)"
  using build_layers_ne [of comb "next_level comb xs"]
  by (cases "build_layers comb (next_level comb xs)") (simp_all add: build_layers_more)

locale merkle_scheme =
  fixes comb :: "'h \<Rightarrow> 'h \<Rightarrow> 'h" and step :: "bool \<Rightarrow> 'h \<Rightarrow> 'h \<Rightarrow> 'h"
  assumes step_right: "step True cur sib = comb sib cur"
    and step_left: "step False cur sib = comb cur sib"
begin

lemma nth_next_level:
  "i < length xs \<Longrightarrow> step (odd i) (xs ! i) (sibling xs i) = next_level comb xs ! (i div 2)"
proof (induction xs arbitrary: i rule: induct_list012)
  case (3 a b rest)
  show ?case
  proof (cases "i < 2")
    case True
    then have "i = 0 \<or> i = 1" by auto
    then show ?thesis by (auto simp: sibling_def Let_def step_left step_right)
  next
    case False
    then obtain j where j: "i = Suc (Suc j)" by (metis add_2_eq_Suc le_add_diff_inverse not_less)
    then have "sibling (a # b # rest) i = sibling rest j"
      by (auto simp: sibling_def Let_def nth_Cons' split: if_splits)
    then show ?thesis using 3 j by simp
  qed
qed (auto simp: sibling_def Let_def step_left)

text \<open>Climbing the branch of any leaf ends at the root.\<close>

lemma climb_proof: "i < length xs \<Longrightarrow> climb step i (xs ! i) (proof_loop (build_layers comb xs) i) = root_of comb xs"
proof (induction "length xs" arbitrary: xs i rule: less_induct)
  case less
  show ?case
  proof (cases "1 < length xs")
    case True
    then show ?thesis using less nth_next_level [of i xs]
      by (simp add: proof_loop_more root_of_simps(2))
  next
    case False
    then obtain x where "xs = [x]" using less.prems by (cases xs) auto
    then show ?thesis using less.prems by (simp add: build_layers.simps root_of_simps)
  qed
qed

end

interpretation claims: merkle_scheme "hashPair sha" "\<lambda>right cur sib. hashPair sha cur sib" for sha
  by unfold_locales (simp_all add: hashPair_commute)

lemma climb_const: "climb (\<lambda>right. f) i cur ss = foldl f cur ss"
  by (induction ss arbitrary: i cur) auto

lemma merkle_proof_complete_branch:
  assumes "new_MerkleTree sha leaves = Inr t" and "getProof t i = Inr items"
  shows "i < length leaves \<and> verifyMerkleProof sha (leaves ! i) (map Hex items) (Hex (getRootHex t))"
proof -
  have t: "mt_leaves t = leaves" "mt_layers t = build_layers (hashPair sha) leaves"
    using assms(1) by (auto simp: new_MerkleTree_def split: if_splits)
  have i: "i < length leaves" "items = map to_hex (proof_loop (mt_layers t) i)"
    using assms(2) by (auto simp: getProof_def t split: if_splits)
  then have "foldl (hashPair sha) (leaves ! i) (proof_loop (mt_layers t) i) = getRoot t"
    using claims.climb_proof [OF i(1), of sha] by (simp add: climb_const t getRoot_def root_of_def)
  then show ?thesis using i by (simp add: verifyMerkleProof_def getRootHex_def foldl_map)
qed

text \<open>
  Every claim can be proved: for any leaves and any hash function, the branch the tree gives for
  leaf i verifies against the tree's root, read back from hex; an index out of range is an error.
\<close>

theorem merkle_proof_complete:
  assumes "new_MerkleTree sha leaves = Inr t"
  shows "(case getProof t i of
            Inl e \<Rightarrow> length leaves \<le> i
          | Inr items \<Rightarrow> i < length leaves \<and>
              verifyMerkleProof sha (leaves ! i) (map Hex items) (Hex (getRootHex t)))"
proof (cases "getProof t i")
  case (Inl e)
  moreover have "mt_leaves t = leaves" using assms by (auto simp: new_MerkleTree_def split: if_splits)
  ultimately show ?thesis by (auto simp: getProof_def split: if_splits)
next
  case (Inr items)
  then show ?thesis using merkle_proof_complete_branch [OF assms] by simp
qed

section \<open>Soundness\<close>

text \<open>
  The hash function is a parameter, and no function with digests of a fixed length is injective. What soundness needs
  is that it separates the finitely many texts that were hashed: those of the tree, level by level, and those of the
  verifier along the branch.
\<close>

definition pair_input :: "bytes \<Rightarrow> bytes \<Rightarrow> bytes" where
  "pair_input a b = (if buf_compare a b \<le> 0 then a @ b else b @ a)"

fun level_inputs :: "('h \<Rightarrow> 'h \<Rightarrow> 'i) \<Rightarrow> 'h list \<Rightarrow> 'i list" where
  "level_inputs inp [] = []"
| "level_inputs inp [a] = [inp a a]"
| "level_inputs inp (a # b # rest) = inp a b # level_inputs inp rest"

definition tree_inputs :: "('h \<Rightarrow> 'h \<Rightarrow> 'i) \<Rightarrow> 'h list list \<Rightarrow> 'i list" where
  "tree_inputs inp layers = concat (map (level_inputs inp) (butlast layers))"

fun branch_inputs :: "(bytes \<Rightarrow> bytes) \<Rightarrow> bytes \<Rightarrow> bytes list \<Rightarrow> bytes list" where
  "branch_inputs sha cur [] = []"
| "branch_inputs sha cur (sib # sibs) = pair_input cur sib # branch_inputs sha (sha (pair_input cur sib)) sibs"

lemma hashPair_input: "hashPair sha a b = sha (pair_input a b)"
  by (simp add: hashPair_def pair_input_def)

lemma branch_inputs_snoc:
  "branch_inputs sha cur (sibs @ [s]) = branch_inputs sha cur sibs @ [pair_input (foldl (hashPair sha) cur sibs) s]"
  by (induction sibs arbitrary: cur) (simp_all add: hashPair_input)

lemma pair_input_inj:
  assumes "pair_input c s = pair_input a b" "length a = length c" "length b = length c"
  shows "c = a \<or> c = b"
proof -
  have "length (c @ s) = length (a @ b) \<and> (c @ s = a @ b \<or> c @ s = b @ a \<or> s @ c = a @ b \<or> s @ c = b @ a)"
    using assms(1) unfolding pair_input_def by (auto split: if_splits dest: arg_cong [where f = length])
  then show ?thesis using assms(2,3) by auto
qed

lemma set_next_level:
  "n \<in> set (next_level comb xs) \<Longrightarrow> \<exists>a \<in> set xs. \<exists>b \<in> set xs. n = comb a b \<and> inp a b \<in> set (level_inputs inp xs)"
  by (induction comb xs rule: next_level.induct) auto

text \<open>The nodes after \<open>k\<close> passes.\<close>

fun level :: "('h \<Rightarrow> 'h \<Rightarrow> 'h) \<Rightarrow> nat \<Rightarrow> 'h list \<Rightarrow> 'h list" where
  "level comb 0 xs = xs"
| "level comb (Suc k) xs = next_level comb (level comb k xs)"

lemma level_length32:
  assumes "\<And>x. length (sha x) = n" "\<forall>x \<in> set leaves. length x = n"
  shows "x \<in> set (level (hashPair sha) k leaves) \<Longrightarrow> length x = n"
proof (induction k arbitrary: x)
  case (Suc k)
  then obtain a b where "x = hashPair sha a b" using set_next_level by fastforce
  then show ?case using assms(1) by (simp add: hashPair_def)
qed (use assms in simp)

lemma climb_in_level:
  assumes len: "\<And>x. length (sha x) = n" "\<forall>x \<in> set leaves. length x = n" "length leaf = n"
    and inj: "inj_on sha S"
  shows "foldl (hashPair sha) leaf items \<in> set (level (hashPair sha) (length items) leaves) \<Longrightarrow>
    (\<And>k. k < length items \<Longrightarrow> set (level_inputs pair_input (level (hashPair sha) k leaves)) \<subseteq> S) \<Longrightarrow>
    set (branch_inputs sha leaf items) \<subseteq> S \<Longrightarrow> leaf \<in> set leaves"
proof (induction items rule: rev_induct)
  case (snoc s items)
  let ?c = "foldl (hashPair sha) leaf items" and ?l = "level (hashPair sha) (length items) leaves"
  obtain a b where ab: "a \<in> set ?l" "b \<in> set ?l" "hashPair sha ?c s = hashPair sha a b" "pair_input a b \<in> set (level_inputs pair_input ?l)"
    using set_next_level [of "hashPair sha ?c s" "hashPair sha" ?l pair_input] snoc.prems(1) by auto
  have "pair_input a b \<in> S" "pair_input ?c s \<in> S"
    using ab(4) snoc.prems(2) [of "length items"] snoc.prems(3) by (auto simp: branch_inputs_snoc)
  then have "pair_input ?c s = pair_input a b" using ab(3) inj by (auto simp: hashPair_input dest: inj_onD)
  moreover have "length ?c = n"
    using len(1,3) by (cases items rule: rev_cases) (simp_all add: hashPair_def)
  ultimately have "?c = a \<or> ?c = b"
    using ab level_length32 [OF len(1,2)] by (intro pair_input_inj) auto
  then have "?c \<in> set ?l" using ab by blast
  then show ?case using snoc.IH snoc.prems(2,3) by (simp add: branch_inputs_snoc)
qed simp

lemma build_layers_nth: "k < length (build_layers comb xs) \<Longrightarrow> build_layers comb xs ! k = level comb k xs"
proof (induction "length xs" arbitrary: xs k rule: less_induct)
  case less
  have shift: "level comb k (next_level comb xs) = level comb (Suc k) xs" for k
    by (induction k) simp_all
  show ?case
  proof (cases "1 < length xs")
    case True
    show ?thesis
    proof (cases k)
      case (Suc j)
      then have "build_layers comb (next_level comb xs) ! j = level comb j (next_level comb xs)"
        using less True by (intro less.hyps) (auto simp: build_layers_more)
      then show ?thesis using Suc True unfolding shift by (simp add: build_layers_more)
    qed (simp add: build_layers_more [OF True])
  next
    case False
    then have "build_layers comb xs = [xs]" by (subst build_layers.simps) simp
    then show ?thesis using less.prems by simp
  qed
qed

lemma level_inputs_tree:
  assumes "k < length (build_layers comb xs) - 1"
  shows "set (level_inputs inp (level comb k xs)) \<subseteq> set (tree_inputs inp (build_layers comb xs))"
proof -
  have "butlast (build_layers comb xs) ! k = level comb k xs"
    using assms by (simp add: nth_butlast build_layers_nth)
  then have "level comb k xs \<in> set (butlast (build_layers comb xs))" using assms by (metis length_butlast nth_mem)
  then show ?thesis by (auto simp: tree_inputs_def)
qed

lemma root_in_level:
  "xs \<noteq> [] \<Longrightarrow> root_of comb xs \<in> set (level comb (length (build_layers comb xs) - 1) xs)"
proof (induction "length xs" arbitrary: xs rule: less_induct)
  case less
  show ?case
  proof (cases "1 < length xs")
    case True
    define d where "d = length (build_layers comb (next_level comb xs)) - 1"
    have shift: "level comb k (next_level comb xs) = level comb (Suc k) xs" for k
      by (induction k) simp_all
    have "next_level comb xs \<noteq> []" using less.prems by simp
    then have "root_of comb (next_level comb xs) \<in> set (level comb d (next_level comb xs))"
      using less True unfolding d_def by simp
    moreover have "length (build_layers comb xs) - 1 = Suc d"
      using True build_layers_ne [of comb "next_level comb xs"] by (simp add: build_layers_more d_def)
    ultimately show ?thesis using True by (simp only: shift root_of_simps(2))
  next
    case False
    then obtain x where "xs = [x]" using less.prems by (cases xs) auto
    then show ?thesis by (simp add: build_layers.simps root_of_simps)
  qed
qed

text \<open>
  C30. Nothing else can be proved: if a branch of the tree's depth verifies against its root for some
  32-byte leaf hash, that leaf is in the tree, provided the hash function has 32-byte digests and separates the texts that
  were hashed, those of the tree and those of the verification.
\<close>

theorem merkle_proof_sound:
  assumes "\<And>x. length (sha x) = 32" and "\<forall>x \<in> set leaves. length x = 32" and "length leaf = 32"
    and "new_MerkleTree sha leaves = Inr t" and "length items = length (mt_layers t) - 1"
    and "inj_on sha (set (tree_inputs pair_input (mt_layers t)) \<union> set (branch_inputs sha leaf (map as_buffer items)))"
    and "verifyMerkleProof sha leaf items (Hex (getRootHex t))"
  shows "leaf \<in> set leaves"
proof -
  let ?items = "map as_buffer items"
  have t: "leaves \<noteq> []" "mt_layers t = build_layers (hashPair sha) leaves"
    using assms(4) by (auto simp: new_MerkleTree_def split: if_splits)
  have "foldl (hashPair sha) leaf ?items = root_of (hashPair sha) leaves"
    using assms(7) by (simp add: verifyMerkleProof_def getRootHex_def getRoot_def t root_of_def foldl_map)
  then have root: "foldl (hashPair sha) leaf ?items \<in> set (level (hashPair sha) (length ?items) leaves)"
    using root_in_level [OF t(1), of "hashPair sha"] assms(5) t(2) by simp
  have "set (level_inputs pair_input (level (hashPair sha) k leaves)) \<subseteq> set (tree_inputs pair_input (mt_layers t))"
    if "k < length ?items" for k
    unfolding t(2) using that assms(5) t(2) by (intro level_inputs_tree) simp
  then show ?thesis using climb_in_level [where sha = sha, OF assms(1-3,6) root] by blast
qed

text \<open>A stand-in with 32-byte digests, to evaluate the definitions on.\<close>

definition toy_sha :: "bytes \<Rightarrow> bytes" where
  "toy_sha bs = replicate 32 (foldl (\<lambda>h b. 2 * h + b + 7) 1 bs)"

definition toy_leaves :: "bytes list" where
  "toy_leaves = map toy_sha [[1], [2], [3]]"

definition toy_tree :: merkle_tree where
  "toy_tree = \<lparr>mt_leaves = toy_leaves, mt_layers = build_layers (hashPair toy_sha) toy_leaves\<rparr>"

lemma toy_tree_new: "new_MerkleTree toy_sha toy_leaves = Inr toy_tree"
  by (simp add: new_MerkleTree_def toy_tree_def toy_leaves_def)

lemma toy_lengths: "length (toy_sha x) = 32" "\<forall>x \<in> set toy_leaves. length x = 32"
  by (simp_all add: toy_sha_def toy_leaves_def)

lemma build_layers_three:
  "build_layers comb [a, b, c] = [[a, b, c], [comb a b, comb c c], [comb (comb a b) (comb c c)]]"
  by (simp add: build_layers.simps)

theorem merkle_proof_complete_witness:
  "\<exists>items. getProof toy_tree 2 = Inr items \<and>
     verifyMerkleProof toy_sha (toy_sha [3]) (map Hex items) (Hex (getRootHex toy_tree))"
proof (cases "getProof toy_tree 2")
  case (Inl e)
  then show ?thesis using merkle_proof_complete [OF toy_tree_new, of 2] by (simp add: toy_leaves_def)
next
  case (Inr items)
  then show ?thesis using merkle_proof_complete [OF toy_tree_new, of 2] by (simp add: toy_leaves_def)
qed

lemma toy_branch:
  "verifyMerkleProof toy_sha (toy_sha [3]) (map Hex (map to_hex (proof_loop (mt_layers toy_tree) 2))) (Hex (getRootHex toy_tree))"
proof -
  have "getProof toy_tree 2 = Inr (map to_hex (proof_loop (mt_layers toy_tree) 2))"
    by (simp add: getProof_def toy_tree_def toy_leaves_def)
  from merkle_proof_complete_branch [OF toy_tree_new this] show ?thesis by (simp add: toy_leaves_def)
qed

lemma inj_on_set: "distinct (map f (remdups xs)) \<Longrightarrow> inj_on f (set xs)"
  by (metis distinct_map set_remdups)

lemma toy_inputs:
  "inj_on toy_sha (set (tree_inputs pair_input (mt_layers toy_tree)) \<union>
     set (branch_inputs toy_sha (toy_sha [3]) (map as_buffer (map Hex (map to_hex (proof_loop (mt_layers toy_tree) 2))))))"
proof -
  have "distinct (map toy_sha (remdups (tree_inputs pair_input (mt_layers toy_tree) @
     branch_inputs toy_sha (toy_sha [3]) (proof_loop (mt_layers toy_tree) 2))))" by code_simp
  moreover have "map as_buffer (map Hex (map to_hex xs)) = xs" for xs by (simp add: map_idI)
  ultimately show ?thesis by (metis inj_on_set set_append)
qed

theorem merkle_proof_sound_witness:
  "verifyMerkleProof toy_sha (toy_sha [3]) (map Hex (map to_hex (proof_loop (mt_layers toy_tree) 2))) (Hex (getRootHex toy_tree)) \<and>
   toy_sha [3] \<in> set toy_leaves"
proof -
  have "length (map Hex (map to_hex (proof_loop (mt_layers toy_tree) 2))) = length (mt_layers toy_tree) - 1"
    by (simp add: toy_tree_def toy_leaves_def build_layers_three)
  then show ?thesis using toy_branch
    merkle_proof_sound [OF toy_lengths(1) toy_lengths(2) toy_lengths(1) toy_tree_new _ toy_inputs toy_branch] by blast
qed

section \<open>Claims and settlements\<close>

lemma claim_entry_props:
  assumes "claim_entry l t (w, i) = Inr e"
  shows "\<exists>p items. e = (wc_winnerAddress w, p) \<and> cp_root p = getRootHex t \<and> cp_winnerAddress p = wc_winnerAddress w \<and>
    getProof t i = Inr items \<and> cp_proof p = items"
  using assms by (auto simp: claim_entry_def)

text \<open>
  In the tree generated for a league every winner (of distinct addresses) finds under his address
  a claim whose proof verifies, against the root recorded with it, for the leaf that commits to the
  league, that address and his own amount.
\<close>

theorem league_claims_verify:
  assumes gen: "generateLeagueMerkleTree sha leaf_xdr leagueId winners = Inr (t, rootHex, claimProofs)"
    and "distinct (map wc_winnerAddress winners)" and "w \<in> set winners"
  shows "\<exists>p leaf. map_of claimProofs (wc_winnerAddress w) = Some p \<and>
    hashClaimLeaf sha leaf_xdr leagueId (wc_winnerAddress w) (wc_amount w) = Inr leaf \<and>
    verifyMerkleProof sha leaf (map Hex (cp_proof p)) (Hex (cp_root p)) \<and> cp_root p = rootHex"
proof -
  let ?leaf = "\<lambda>w. hashClaimLeaf sha leaf_xdr leagueId (wc_winnerAddress w) (wc_amount w)"
  obtain leaves entries where leaves: "res_map ?leaf winners = Inr leaves"
    and tree: "new_MerkleTree sha leaves = Inr t" and root: "rootHex = getRootHex t"
    and entries: "res_map (claim_entry leagueId t) (zip winners [0..<length winners]) = Inr entries"
    and cps: "claimProofs = js_map entries"
    using gen by (auto simp: generateLeagueMerkleTree_def split: if_splits)
  obtain i where i: "i < length winners" "winners ! i = w" using assms(3) by (auto simp: in_set_conv_nth)
  have lens: "length leaves = length winners" "length entries = length winners"
    and leaf: "?leaf w = Inr (leaves ! i)"
    and entry: "\<And>j. j < length winners \<Longrightarrow> claim_entry leagueId t (winners ! j, j) = Inr (entries ! j)"
    using leaves entries i by (auto simp: res_map_Inr_iff list_all2_conv_all_nth)
  obtain p items where p: "entries ! i = (wc_winnerAddress w, p)" "cp_root p = getRootHex t"
    "getProof t i = Inr items" "cp_proof p = items"
    using claim_entry_props [OF entry [OF i(1)]] i(2) by auto
  have "map fst entries = map wc_winnerAddress winners"
    using claim_entry_props [OF entry] lens by (intro nth_equalityI) fastforce+
  then have "map_of claimProofs (wc_winnerAddress w) = Some p"
    using assms(2) p(1) i(1) lens(2) by (simp add: cps map_of_js_map_distinct map_of_eq_Some_iff) (metis nth_mem)
  moreover have "verifyMerkleProof sha (leaves ! i) (map Hex items) (Hex (getRootHex t))"
    using merkle_proof_complete_branch [OF tree p(3)] by blast
  ultimately show ?thesis using leaf p root by auto
qed

definition toy_xdr :: xdr where
  "toy_xdr l a n = Some (word_of_int l # word_of_int n # map (\<lambda>c. word_of_nat (of_char c)) a)"

definition toy_winners :: "winner_claim list" where
  "toy_winners = [\<lparr>wc_winnerAddress = ''GA'', wc_amount = Num 70\<rparr>, \<lparr>wc_winnerAddress = ''GB'', wc_amount = Str ''30''\<rparr>]"

lemma toy_generated: "\<exists>t r c. generateLeagueMerkleTree toy_sha toy_xdr (Str ''7'') toy_winners = Inr (t, r, c)"
proof -
  have "string_bigint ''7'' = Some 7" "string_bigint ''30'' = Some 30" by code_simp+
  then show ?thesis
    by (simp add: generateLeagueMerkleTree_def toy_winners_def hashClaimLeaf_def toy_xdr_def new_MerkleTree_def
        claim_entry_def getProof_def)
qed

theorem league_claims_verify_witness:
  "\<exists>t r c p leaf. generateLeagueMerkleTree toy_sha toy_xdr (Str ''7'') toy_winners = Inr (t, r, c) \<and>
     map_of c ''GB'' = Some p \<and> hashClaimLeaf toy_sha toy_xdr (Str ''7'') ''GB'' (Str ''30'') = Inr leaf \<and>
     verifyMerkleProof toy_sha leaf (map Hex (cp_proof p)) (Hex r)"
proof -
  obtain t r c where g: "generateLeagueMerkleTree toy_sha toy_xdr (Str ''7'') toy_winners = Inr (t, r, c)"
    using toy_generated by blast
  have "distinct (map wc_winnerAddress toy_winners)" "toy_winners ! 1 \<in> set toy_winners"
    by (simp_all add: toy_winners_def)
  from league_claims_verify [OF g this] g show ?thesis by (auto simp: toy_winners_def)
qed

lemma digits_value_hyphen: "CHR ''-'' \<in> set s \<Longrightarrow> digits_value base acc s = None"
  by (induction base acc s rule: digits_value.induct) (auto simp: hex_value_def split: option.splits)

lemma numeral_value_hyphen: "CHR ''-'' \<in> set s \<Longrightarrow> numeral_value base s = None"
  by (auto simp: numeral_value_def digits_value_hyphen)

lemma string_bigint_hyphen:
  assumes "\<forall>c \<in> set s. \<not> is_ws c" and "CHR ''-'' \<in> set (drop 2 s)"
  shows "string_bigint s = None"
proof -
  have "dropWhile is_ws s = s" using assms(1) by (cases s) auto
  moreover have "dropWhile is_ws (rev s) = rev s" using assms(1) by (cases "rev s") (metis dropWhile.simps(1), metis dropWhile.simps(2) list.set_intros(1) set_rev)
  ultimately have t: "trim_ws s = s" by (simp add: trim_ws_def)
  have "CHR ''-'' \<in> set s" "CHR ''-'' \<in> set (tl s)" "s \<noteq> []"
    using assms(2) by (auto dest: in_set_dropD) (metis One_nat_def Suc_1 drop_Suc in_set_dropD)
  then show ?thesis using assms(2) by (simp add: string_bigint_def Let_def t numeral_value_hyphen)
qed

text \<open>
  C31. A settlement tree cannot be built for a league whose id is a UUID: league ids are UUIDs in the
  database and \<open>BigInt\<close> rejects the hyphens, whatever the winners.
\<close>

theorem settlement_tree_rejects_uuid:
  assumes "si_winners inp \<noteq> []" and "\<forall>c \<in> set (si_leagueId inp). \<not> is_ws c"
    and "si_leagueId inp ! 8 = CHR ''-''" and "length (si_leagueId inp) = 36"
  shows "createSettlementMerkleTree sha leaf_xdr inp = Inl NotABigInt"
proof -
  have "drop 2 (si_leagueId inp) ! 6 = CHR ''-''" using assms(3,4) by simp
  then have "CHR ''-'' \<in> set (drop 2 (si_leagueId inp))" using assms(4) nth_mem [of 6 "drop 2 (si_leagueId inp)"] by simp
  then have "string_bigint (si_leagueId inp) = None" using string_bigint_hyphen assms(2) by blast
  moreover obtain w ws where "si_winners inp = w # ws" using assms(1) by (cases "si_winners inp") auto
  ultimately show ?thesis
    by (simp add: createSettlementMerkleTree_def generateLeagueMerkleTree_def hashClaimLeaf_def)
qed

definition uuid_settlement :: settlement_input where
  "uuid_settlement = \<lparr>si_leagueId = ''0b7e1c2d-3f4a-4b5c-8d6e-7f8091a2b3c4'', si_grossPool = 100, si_platformFee = 5,
     si_winners = [\<lparr>sw_rank = 1, sw_userId = ''u1'', sw_stellarAddress = ''GA'', sw_totalPoints = 90, sw_prizeAmount = 65\<rparr>,
       \<lparr>sw_rank = 2, sw_userId = ''u2'', sw_stellarAddress = ''GB'', sw_totalPoints = 85, sw_prizeAmount = 30\<rparr>]\<rparr>"

theorem settlement_tree_rejects_uuid_witness:
  "createSettlementMerkleTree toy_sha toy_xdr uuid_settlement = Inl NotABigInt"
  by (rule settlement_tree_rejects_uuid) (simp_all add: uuid_settlement_def is_ws_def)

interpretation ranks: comparator rank_order
  unfolding rank_order_def by (rule comparator_asc)

lemma canonical_winners_inj:
  "map (\<lambda>w. JObj [(''rank'', JNum (sw_rank w)), (''userId'', JStr (sw_userId w)),
          (''stellarAddress'', JStr (sw_stellarAddress w)), (''totalPoints'', JNum (sw_totalPoints w)),
          (''prizeAmount'', JNum (sw_prizeAmount w))]) us
   = map (\<lambda>w. JObj [(''rank'', JNum (sw_rank w)), (''userId'', JStr (sw_userId w)),
          (''stellarAddress'', JStr (sw_stellarAddress w)), (''totalPoints'', JNum (sw_totalPoints w)),
          (''prizeAmount'', JNum (sw_prizeAmount w))]) vs \<Longrightarrow> us = (vs :: settlement_winner list)"
  by (induction us arbitrary: vs) (auto intro: settlement_winner.equality)

text \<open>
  The settlement commitment is canonical and binding: for winners of distinct ranks two inputs
  hash the same object exactly if they agree on the league, the pool and the fee and have the same
  winners in some order.
\<close>

theorem settlement_proof_canonical:
  assumes "distinct (map sw_rank (si_winners a))"
  shows "canonical_settlement a = canonical_settlement b \<longleftrightarrow>
    si_leagueId a = si_leagueId b \<and> si_grossPool a = si_grossPool b \<and> si_platformFee a = si_platformFee b \<and>
    mset (si_winners a) = mset (si_winners b)"
proof -
  have "js_sort rank_order (si_winners a) = js_sort rank_order (si_winners b) \<longleftrightarrow> mset (si_winners a) = mset (si_winners b)"
  proof
    assume "mset (si_winners a) = mset (si_winners b)"
    moreover have "x = y" if "x \<in> set (si_winners a)" "y \<in> set (si_winners a)" "rank_order x y = 0" for x y
      using assms that by (auto simp: rank_order_def cmp_zero_simps distinct_map inj_on_def)
    ultimately show "js_sort rank_order (si_winners a) = js_sort rank_order (si_winners b)"
      by (rule ranks.js_sort_unique)
  qed (metis mset_js_sort)
  then show ?thesis by (auto simp: canonical_settlement_def dest: canonical_winners_inj)
qed

theorem settlement_proof_canonical_witness:
  "canonical_settlement uuid_settlement = canonical_settlement (uuid_settlement\<lparr>si_winners := rev (si_winners uuid_settlement)\<rparr>)"
proof -
  have "distinct (map sw_rank (si_winners uuid_settlement))" by (simp add: uuid_settlement_def)
  from settlement_proof_canonical [OF this, of "uuid_settlement\<lparr>si_winners := rev (si_winners uuid_settlement)\<rparr>"]
  show ?thesis by simp
qed

end
