(* ===== verification/Audit_Bundle.thy ===== *)
theory Audit_Bundle
  imports Merkle
begin

text \<open>
  League audit bundles, \<open>backend/src/services/league/leagueAuditExporter.ts\<close>: canonical JSON, event
  leaf hashes, the Merkle root over hex strings, positional proofs, and building and verifying a
  bundle. \<open>sha_hex\<close> is the library's SHA-256 of a UTF-8 text in hex; \<open>show_num\<close> is the text of a
  number. The export time of a bundle is an argument.
\<close>

section \<open>Canonical JSON\<close>

text \<open>\<open>JSON.stringify\<close> of a string: quotes, backslashes and control characters are escaped.\<close>

definition json_escape :: "char \<Rightarrow> string" where
  "json_escape c =
     (let n = of_char c :: nat
      in if n = 34 \<or> n = 92 then [char_of (92 :: nat), c]
         else if n = 8 then [char_of (92 :: nat), CHR ''b'']
         else if n = 9 then [char_of (92 :: nat), CHR ''t'']
         else if n = 10 then [char_of (92 :: nat), CHR ''n'']
         else if n = 12 then [char_of (92 :: nat), CHR ''f'']
         else if n = 13 then [char_of (92 :: nat), CHR ''r'']
         else if n < 32 then char_of (92 :: nat) # ''u00'' @ [hex_digit (n div 16), hex_digit (n mod 16)]
         else [c])"

definition json_quote :: "string \<Rightarrow> string" where
  "json_quote s = char_of (34 :: nat) # concat (map json_escape s) @ [char_of (34 :: nat)]"

definition key_order :: "(string \<times> 'a) cmp" where
  "key_order p q = str_cmp (fst p) (fst q)"

fun canonicalizeJson :: "(rat \<Rightarrow> string) \<Rightarrow> json \<Rightarrow> string" where
  "canonicalizeJson show_num JNull = ''null''"
| "canonicalizeJson show_num (JBool b) = (if b then ''true'' else ''false'')"
| "canonicalizeJson show_num (JNum q) = show_num q"
| "canonicalizeJson show_num (JStr s) = json_quote s"
| "canonicalizeJson show_num (JArr vs) = ''['' @ join '','' (map (canonicalizeJson show_num) vs) @ '']''"
| "canonicalizeJson show_num (JObj kvs) =
     ''{'' @ join '','' (map (\<lambda>(k, t). json_quote k @ '':'' @ t)
       (js_sort key_order (map (\<lambda>kv. (fst kv, canonicalizeJson show_num (snd kv))) kvs))) @ ''}''"

section \<open>Events and hashes\<close>

record audit_event =
  ev_id :: string
  ev_sequence :: int
  ev_eventType :: string
  ev_leagueId :: string
  ev_timestamp :: string
  ev_actor :: string
  ev_payload :: "(string \<times> json) list"

definition event_text :: "(rat \<Rightarrow> string) \<Rightarrow> audit_event \<Rightarrow> string" where
  "event_text show_num e = canonicalizeJson show_num (JObj
     [(''id'', JStr (ev_id e)), (''sequence'', JNum (of_int (ev_sequence e))), (''eventType'', JStr (ev_eventType e)),
      (''leagueId'', JStr (ev_leagueId e)), (''timestamp'', JStr (ev_timestamp e)), (''actor'', JStr (ev_actor e)),
      (''payload'', JObj (ev_payload e))])"

definition computeEventLeafHash :: "(string \<Rightarrow> string) \<Rightarrow> (rat \<Rightarrow> string) \<Rightarrow> audit_event \<Rightarrow> string" where
  "computeEventLeafHash sha_hex show_num e = sha_hex (event_text show_num e)"

definition pair_hash :: "(string \<Rightarrow> string) \<Rightarrow> string \<Rightarrow> string \<Rightarrow> string" where
  "pair_hash sha_hex left right = sha_hex (left @ right)"

text \<open>\<open>currentLevel.push(last)\<close> if the level is odd, then the loop in steps of two.\<close>

definition pad_level :: "'h list \<Rightarrow> 'h list" where
  "pad_level xs = (if odd (length xs) then xs @ [last xs] else xs)"

fun pair_level :: "('h \<Rightarrow> 'h \<Rightarrow> 'h) \<Rightarrow> 'h list \<Rightarrow> 'h list" where
  "pair_level comb (a # b # rest) = comb a b # pair_level comb rest"
| "pair_level comb _ = []"

lemma length_pair_level [simp]: "length (pair_level comb xs) = length xs div 2"
  by (induction comb xs rule: pair_level.induct) auto

lemma length_pad_level [simp]: "length (pad_level xs) = 2 * ((length xs + 1) div 2)"
  by (auto simp: pad_level_def elim: oddE)

function root_loop :: "('h \<Rightarrow> 'h \<Rightarrow> 'h) \<Rightarrow> 'h list \<Rightarrow> 'h" where
  "root_loop comb currentLevel =
     (if length currentLevel > 1 then root_loop comb (pair_level comb (pad_level currentLevel))
      else currentLevel ! 0)"
  by pat_completeness auto
termination
  by (relation "measure (\<lambda>(comb, xs). length xs)") auto

declare root_loop.simps [simp del]

definition computeMerkleRoot :: "(string \<Rightarrow> string) \<Rightarrow> string list \<Rightarrow> string" where
  "computeMerkleRoot sha_hex leaves =
     (if length leaves = 0 then replicate 64 (CHR ''0'')
      else if length leaves = 1 then leaves ! 0
      else root_loop (pair_hash sha_hex) leaves)"

datatype side = LeftSide | RightSide

function audit_proof_loop :: "('h \<Rightarrow> 'h \<Rightarrow> 'h) \<Rightarrow> 'h list \<Rightarrow> nat \<Rightarrow> (side \<times> 'h) list" where
  "audit_proof_loop comb currentLevel currentIndex =
     (if length currentLevel > 1 then
        (let padded = pad_level currentLevel;
             isRightNode = (currentIndex mod 2 = 1);
             siblingIndex = (if isRightNode then currentIndex - 1 else currentIndex + 1)
         in (if isRightNode then LeftSide else RightSide, padded ! siblingIndex)
            # audit_proof_loop comb (pair_level comb padded) (currentIndex div 2))
      else [])"
  by pat_completeness auto
termination
  by (relation "measure (\<lambda>(comb, xs, i). length xs)") auto

declare audit_proof_loop.simps [simp del]

definition generateMerkleProof :: "(string \<Rightarrow> string) \<Rightarrow> string list \<Rightarrow> nat \<Rightarrow> merkle_error + (side \<times> string) list" where
  "generateMerkleProof sha_hex leaves targetIndex =
     (if targetIndex \<ge> length leaves then Inl (LeafIndexOutOfBounds targetIndex)
      else Inr (audit_proof_loop (pair_hash sha_hex) leaves targetIndex))"

definition audit_step :: "(string \<Rightarrow> string) \<Rightarrow> string \<Rightarrow> side \<times> string \<Rightarrow> string" where
  "audit_step sha_hex currentHash s =
     (if fst s = LeftSide then sha_hex (snd s @ currentHash) else sha_hex (currentHash @ snd s))"

definition verifyAuditProof :: "(string \<Rightarrow> string) \<Rightarrow> string \<Rightarrow> (side \<times> string) list \<Rightarrow> string \<Rightarrow> bool" where
  "verifyAuditProof sha_hex leafHash steps expectedRoot \<longleftrightarrow>
     foldl (audit_step sha_hex) leafHash steps = expectedRoot"

section \<open>Bundles\<close>

record audit_bundle =
  ab_leagueId :: string
  ab_exportedAt :: string
  ab_totalEvents :: nat
  ab_merkleRoot :: string
  ab_leaves :: "string list"
  ab_events :: "audit_event list"
  ab_metadata :: "(string \<times> json) list option"

datatype integrity_error = SequenceDiscontinuity nat int int | RootMismatch string string

record integrity_result =
  ir_valid :: bool
  ir_calculatedRoot :: string
  ir_expectedRoot :: string
  ir_tamperedEvents :: "nat list"
  ir_error :: "integrity_error option"

definition sequence_order :: "audit_event cmp" where
  "sequence_order = asc (\<lambda>e. of_int (ev_sequence e))"

definition buildLeagueAuditBundle ::
  "(string \<Rightarrow> string) \<Rightarrow> (rat \<Rightarrow> string) \<Rightarrow> string \<Rightarrow> string \<Rightarrow> audit_event list \<Rightarrow> (string \<times> json) list option \<Rightarrow> audit_bundle" where
  "buildLeagueAuditBundle sha_hex show_num now leagueId events metadata =
     (let sortedEvents = js_sort sequence_order events;
          leaves = map (computeEventLeafHash sha_hex show_num) sortedEvents
      in \<lparr>ab_leagueId = leagueId, ab_exportedAt = now, ab_totalEvents = length sortedEvents,
          ab_merkleRoot = computeMerkleRoot sha_hex leaves, ab_leaves = leaves, ab_events = sortedEvents,
          ab_metadata = metadata\<rparr>)"

definition seq_at :: "audit_event list \<Rightarrow> nat \<Rightarrow> bool" where
  "seq_at evs i \<longleftrightarrow> ev_sequence (evs ! i) = int i + 1"

text \<open>\<open>bundle.leaves[i] && leaf !== bundle.leaves[i]\<close>: a missing or empty recorded leaf is skipped.\<close>

definition leaf_differs :: "audit_bundle \<Rightarrow> nat \<Rightarrow> string \<Rightarrow> bool" where
  "leaf_differs b i leaf \<longleftrightarrow> i < length (ab_leaves b) \<and> ab_leaves b ! i \<noteq> [] \<and> leaf \<noteq> ab_leaves b ! i"

definition verifyLeagueAuditBundle :: "(string \<Rightarrow> string) \<Rightarrow> (rat \<Rightarrow> string) \<Rightarrow> audit_bundle \<Rightarrow> integrity_result" where
  "verifyLeagueAuditBundle sha_hex show_num b =
     (case find (\<lambda>i. \<not> seq_at (ab_events b) i) [0..<length (ab_events b)] of
        Some i \<Rightarrow>
          \<lparr>ir_valid = False, ir_calculatedRoot = [], ir_expectedRoot = ab_merkleRoot b, ir_tamperedEvents = [i],
           ir_error = Some (SequenceDiscontinuity i (int i + 1) (ev_sequence (ab_events b ! i)))\<rparr>
      | None \<Rightarrow>
          (let recomputed = map (computeEventLeafHash sha_hex show_num) (ab_events b);
               tampered = filter (\<lambda>i. leaf_differs b i (recomputed ! i)) [0..<length (ab_events b)];
               calculatedRoot = computeMerkleRoot sha_hex recomputed
           in if calculatedRoot \<noteq> ab_merkleRoot b then
                \<lparr>ir_valid = False, ir_calculatedRoot = calculatedRoot, ir_expectedRoot = ab_merkleRoot b,
                 ir_tamperedEvents = (if length tampered > 0 then tampered else [0]),
                 ir_error = Some (RootMismatch calculatedRoot (ab_merkleRoot b))\<rparr>
              else
                \<lparr>ir_valid = True, ir_calculatedRoot = calculatedRoot, ir_expectedRoot = ab_merkleRoot b,
                 ir_tamperedEvents = [], ir_error = None\<rparr>))"

section \<open>The padded loops are the Merkle tree\<close>

lemma pair_pad: "pair_level comb (pad_level xs) = next_level comb xs"
proof (induction xs rule: induct_list012)
  case (3 a b rest)
  have "pad_level (a # b # rest) = a # b # pad_level rest" by (cases rest) (auto simp: pad_level_def)
  then show ?case using 3 by simp
qed (simp_all add: pad_level_def)

lemma root_loop_eq: "xs \<noteq> [] \<Longrightarrow> root_loop comb xs = root_of comb xs"
proof (induction "length xs" arbitrary: xs rule: less_induct)
  case less
  show ?case
  proof (cases "1 < length xs")
    case True
    then show ?thesis using less by (subst root_loop.simps) (simp add: pair_pad root_of_simps(2))
  next
    case False
    then obtain x where "xs = [x]" using less.prems by (cases xs) auto
    then show ?thesis by (simp add: root_loop.simps root_of_simps)
  qed
qed

lemma computeMerkleRoot_eq: "leaves \<noteq> [] \<Longrightarrow> computeMerkleRoot sha_hex leaves = root_of (pair_hash sha_hex) leaves"
  by (auto simp: computeMerkleRoot_def root_loop_eq length_Suc_conv root_of_simps(1))

lemma padded_sibling:
  assumes "i < length xs" "1 < length xs"
  shows "pad_level xs ! (if i mod 2 = 1 then i - 1 else i + 1) = sibling xs i"
proof (cases "i mod 2 = 1 \<or> i + 1 < length xs")
  case True
  then show ?thesis using assms by (auto simp: sibling_def Let_def pad_level_def nth_append)
next
  case False
  then have "i = length xs - 1" "odd (length xs)" using assms by presburger+
  moreover have "xs \<noteq> []" using assms by auto
  ultimately show ?thesis using False assms by (auto simp: sibling_def Let_def pad_level_def nth_append last_conv_nth)
qed

fun with_sides :: "nat \<Rightarrow> 'h list \<Rightarrow> (side \<times> 'h) list" where
  "with_sides i [] = []"
| "with_sides i (s # ss) = (if odd i then LeftSide else RightSide, s) # with_sides (i div 2) ss"

lemma audit_proof_loop_eq:
  "i < length xs \<Longrightarrow> audit_proof_loop comb xs i = with_sides i (proof_loop (build_layers comb xs) i)"
proof (induction "length xs" arbitrary: xs i rule: less_induct)
  case less
  show ?case
  proof (cases "1 < length xs")
    case True
    then show ?thesis using less padded_sibling [OF less.prems True]
      by (subst audit_proof_loop.simps)
        (simp add: pair_pad proof_loop_more Let_def odd_iff_mod_2_eq_one)
  next
    case False
    then show ?thesis by (simp add: audit_proof_loop.simps build_layers.simps)
  qed
qed

interpretation audit: merkle_scheme "pair_hash sha_hex"
  "\<lambda>right cur sib. audit_step sha_hex cur (if right then LeftSide else RightSide, sib)" for sha_hex
  by unfold_locales (simp_all add: audit_step_def pair_hash_def)

lemma fold_with_sides:
  "foldl f cur (with_sides i ss) = climb (\<lambda>right cur sib. f cur (if right then LeftSide else RightSide, sib)) i cur ss"
  by (induction ss arbitrary: i cur) auto

text \<open>
  An audit proof generated for an event's leaf verifies against the root computed from the same
  leaves, with the side of each sibling recorded correctly, for every index and any number of leaves.
\<close>

theorem audit_proof_complete:
  assumes "generateMerkleProof sha_hex leaves i = Inr steps"
  shows "i < length leaves \<and> verifyAuditProof sha_hex (leaves ! i) steps (computeMerkleRoot sha_hex leaves)"
proof -
  have i: "i < length leaves" "steps = audit_proof_loop (pair_hash sha_hex) leaves i"
    using assms by (auto simp: generateMerkleProof_def split: if_splits)
  moreover have "leaves \<noteq> []" using i by auto
  ultimately show ?thesis using audit.climb_proof [OF i(1), of sha_hex]
    by (simp add: verifyAuditProof_def audit_proof_loop_eq fold_with_sides computeMerkleRoot_eq)
qed

text \<open>A stand-in digest and number printer, to evaluate the definitions on.\<close>

definition toy_hex :: "string \<Rightarrow> string" where
  "toy_hex s = replicate 64 (hex_digit (foldl (\<lambda>h c. (3 * h + of_char c) mod 16) 5 s))"

definition toy_num :: "rat \<Rightarrow> string" where
  "toy_num q = show_int \<lfloor>q\<rfloor>"

theorem audit_proof_complete_witness:
  "verifyAuditProof toy_hex (map toy_hex [''a'', ''b'', ''c''] ! 2)
     (audit_proof_loop (pair_hash toy_hex) (map toy_hex [''a'', ''b'', ''c'']) 2)
     (computeMerkleRoot toy_hex (map toy_hex [''a'', ''b'', ''c'']))"
proof -
  have "generateMerkleProof toy_hex (map toy_hex [''a'', ''b'', ''c'']) 2
      = Inr (audit_proof_loop (pair_hash toy_hex) (map toy_hex [''a'', ''b'', ''c'']) 2)"
    by (simp add: generateMerkleProof_def)
  from audit_proof_complete [OF this] show ?thesis by blast
qed

section \<open>Integrity of a bundle\<close>

lemma verify_valid_iff:
  "ir_valid (verifyLeagueAuditBundle sha_hex show_num b) \<longleftrightarrow>
     (\<forall>i < length (ab_events b). ev_sequence (ab_events b ! i) = int i + 1) \<and>
     computeMerkleRoot sha_hex (map (computeEventLeafHash sha_hex show_num) (ab_events b)) = ab_merkleRoot b"
proof (cases "find (\<lambda>i. \<not> seq_at (ab_events b) i) [0..<length (ab_events b)]")
  case None
  then have "\<forall>i < length (ab_events b). seq_at (ab_events b) i" by (simp add: find_None_iff)
  then show ?thesis using None by (simp add: verifyLeagueAuditBundle_def seq_at_def Let_def)
next
  case (Some i)
  then have "i < length (ab_events b)" "\<not> seq_at (ab_events b) i" by (auto dest: find_SomeD)
  then show ?thesis using Some by (auto simp: verifyLeagueAuditBundle_def seq_at_def)
qed

interpretation by_sequence: comparator sequence_order
  unfolding sequence_order_def by (rule comparator_asc)

lemma sorted_upto_nth:
  assumes "sorted_wrt (\<lambda>a b. ev_sequence a \<le> ev_sequence b) es" and "mset (map ev_sequence es) = mset [1..int n]"
  shows "map ev_sequence es = [1..int n]"
proof -
  have "sorted (map ev_sequence es)" using assms(1) by (simp add: sorted_wrt_map)
  moreover have "sorted [1..int n]" by (rule sorted_upto)
  ultimately show ?thesis using assms(2) by (metis properties_for_sort sorted_sort_id)
qed

lemma contiguous_iff: "(\<forall>i < length es. f (es ! i) = int i + 1) \<longleftrightarrow> map f es = [1..int (length es)]"
proof
  assume "\<forall>i < length es. f (es ! i) = int i + 1"
  then show "map f es = [1..int (length es)]" by (intro nth_equalityI) auto
next
  assume eq: "map f es = [1..int (length es)]"
  show "\<forall>i < length es. f (es ! i) = int i + 1"
  proof (intro allI impI)
    fix i assume "i < length es"
    then show "f (es ! i) = int i + 1" using arg_cong [OF eq, of "\<lambda>l. l ! i"] by simp
  qed
qed

lemma built_valid_iff:
  "ir_valid (verifyLeagueAuditBundle sha_hex show_num (buildLeagueAuditBundle sha_hex show_num now leagueId events metadata))
     \<longleftrightarrow> mset (map ev_sequence events) = mset [1..int (length events)]"
proof -
  let ?es = "js_sort sequence_order events"
  have sorted: "sorted_wrt (\<lambda>a b. ev_sequence a \<le> ev_sequence b) ?es"
    using by_sequence.sorted_js_sort [of events] by (simp add: sequence_order_def asc_def)
  have "(\<forall>i < length ?es. ev_sequence (?es ! i) = int i + 1) \<longleftrightarrow> map ev_sequence ?es = [1..int (length events)]"
    using contiguous_iff [of ?es ev_sequence] by simp
  also have "\<dots> \<longleftrightarrow> mset (map ev_sequence ?es) = mset [1..int (length events)]"
    using sorted_upto_nth [OF sorted, of "length events"] by metis
  also have "mset (map ev_sequence ?es) = mset (map ev_sequence events)" by (simp only: mset_map mset_js_sort)
  finally show ?thesis
    by (simp add: verify_valid_iff buildLeagueAuditBundle_def Let_def)
qed

text \<open>
  Building and verifying agree: the bundle built from a set of events verifies exactly if their
  sequence numbers are 1 to n in some order, none missing and none repeated.
\<close>

theorem built_bundle_valid:
  "ir_valid (verifyLeagueAuditBundle sha_hex show_num (buildLeagueAuditBundle sha_hex show_num now leagueId events metadata))
     \<longleftrightarrow> mset (map ev_sequence events) = mset [1..int (length events)]"
  by (rule built_valid_iff)

text \<open>The texts hashed while a bundle is verified: its events, and the pairs of digests of every level.\<close>

definition hashed_texts :: "(string \<Rightarrow> string) \<Rightarrow> (rat \<Rightarrow> string) \<Rightarrow> audit_bundle \<Rightarrow> string set" where
  "hashed_texts sha_hex show_num b =
     set (map (event_text show_num) (ab_events b)) \<union>
     set (tree_inputs (@) (build_layers (pair_hash sha_hex) (map (computeEventLeafHash sha_hex show_num) (ab_events b))))"

lemma next_level_inj:
  assumes "length xs = length ys" "\<forall>x \<in> set xs \<union> set ys. length x = n"
    and "inj_on sha_hex (set (level_inputs (@) xs) \<union> set (level_inputs (@) ys))"
    and "next_level (pair_hash sha_hex) xs = next_level (pair_hash sha_hex) ys"
  shows "xs = ys"
  using assms
proof (induction xs arbitrary: ys rule: induct_list012)
  case (2 x)
  then obtain y where ys: "ys = [y]" by (cases ys) auto
  then have "x @ x = y @ y" "length x = length y" using 2 by (auto simp: pair_hash_def dest: inj_onD)
  then show ?case using ys by simp
next
  case (3 a b rest)
  then obtain c d rest' where ys: "ys = c # d # rest'" by (metis length_Suc_conv)
  have "inj_on sha_hex (set (level_inputs (@) rest) \<union> set (level_inputs (@) rest'))"
    using "3.prems"(3) by (rule inj_on_subset) (auto simp: ys)
  then have "rest = rest'" using 3 ys by (intro "3.IH"(1)) auto
  moreover have "a @ b = c @ d"
    by (rule inj_onD [OF "3.prems"(3)]) (use "3.prems"(4) in \<open>simp_all add: ys pair_hash_def\<close>)
  moreover have "length a = length c" using "3.prems"(2) by (simp add: ys)
  ultimately show ?case using ys by simp
qed auto

lemma tree_inputs_more:
  "1 < length xs \<Longrightarrow> set (tree_inputs inp (build_layers comb xs)) =
     set (level_inputs inp xs) \<union> set (tree_inputs inp (build_layers comb (next_level comb xs)))"
  by (simp add: build_layers_more tree_inputs_def build_layers_ne)

lemma root_inj:
  assumes "\<And>x. length (sha_hex x) = n"
  shows "length xs = length ys \<Longrightarrow> \<forall>x \<in> set xs \<union> set ys. length x = n \<Longrightarrow> xs \<noteq> [] \<Longrightarrow>
    inj_on sha_hex (set (tree_inputs (@) (build_layers (pair_hash sha_hex) xs)) \<union>
      set (tree_inputs (@) (build_layers (pair_hash sha_hex) ys))) \<Longrightarrow>
    root_of (pair_hash sha_hex) xs = root_of (pair_hash sha_hex) ys \<Longrightarrow> xs = ys"
proof (induction "length xs" arbitrary: xs ys rule: less_induct)
  case less
  show ?case
  proof (cases "1 < length xs")
    case True
    let ?n = "next_level (pair_hash sha_hex)" and ?b = "build_layers (pair_hash sha_hex)"
    have True': "1 < length ys" using True less.prems(1) by simp
    have "\<forall>x \<in> set (?n xs) \<union> set (?n ys). length x = n"
      using assms by (auto simp: pair_hash_def dest!: set_next_level)
    moreover have "root_of (pair_hash sha_hex) (?n xs) = root_of (pair_hash sha_hex) (?n ys)"
      using less.prems(5) by (simp only: root_of_simps(2) [OF True] root_of_simps(2) [OF True'])
    moreover note inj = less.prems(4) [unfolded tree_inputs_more [OF True] tree_inputs_more [OF True']]
    have "inj_on sha_hex (set (tree_inputs (@) (?b (?n xs))) \<union> set (tree_inputs (@) (?b (?n ys))))"
      using inj by (rule inj_on_subset) blast
    ultimately have "?n xs = ?n ys"
      using less.prems(1,3) True by (intro less.hyps) auto
    moreover have "inj_on sha_hex (set (level_inputs (@) xs) \<union> set (level_inputs (@) ys))"
      using inj by (rule inj_on_subset) blast
    ultimately show ?thesis using next_level_inj [OF less.prems(1,2)] by blast
  next
    case False
    then obtain x y where "xs = [x]" "ys = [y]" using less.prems(1,3) by (cases xs; cases ys) auto
    then show ?thesis using less.prems(5) by (simp add: root_of_simps)
  qed
qed

text \<open>
  C32. Tampering shows: if two bundles with equally many events both verify against the same root then
  the canonical texts of their events agree one by one, provided the hash function has 64-digit digests and separates the texts
  hashed in the two verifications.
\<close>

theorem audit_bundle_tamper_evident:
  assumes "\<And>x. length (sha_hex x) = 64"
    and "inj_on sha_hex (hashed_texts sha_hex show_num a \<union> hashed_texts sha_hex show_num b)"
    and "ir_valid (verifyLeagueAuditBundle sha_hex show_num a)" and "ir_valid (verifyLeagueAuditBundle sha_hex show_num b)"
    and "ab_merkleRoot a = ab_merkleRoot b" and "length (ab_events a) = length (ab_events b)"
  shows "map (event_text show_num) (ab_events a) = map (event_text show_num) (ab_events b)"
proof (cases "ab_events a = []")
  case False
  let ?h = "map (computeEventLeafHash sha_hex show_num)" and ?t = "\<lambda>b. map (event_text show_num) (ab_events b)"
  let ?in = "\<lambda>b. set (tree_inputs (@) (build_layers (pair_hash sha_hex) (?h (ab_events b))))"
  have "root_of (pair_hash sha_hex) (?h (ab_events a)) = root_of (pair_hash sha_hex) (?h (ab_events b))"
    using assms(3-5) False computeMerkleRoot_eq [of "?h (ab_events a)" sha_hex]
      computeMerkleRoot_eq [of "?h (ab_events b)" sha_hex] assms(6) by (fastforce simp: verify_valid_iff)
  moreover have "inj_on sha_hex (?in a \<union> ?in b)"
    using assms(2) by (rule inj_on_subset) (auto simp: hashed_texts_def)
  ultimately have "?h (ab_events a) = ?h (ab_events b)"
    using assms(1,6) False by (intro root_inj [where n = 64]) (auto simp: computeEventLeafHash_def)
  moreover have "?h (ab_events b) = map sha_hex (?t b)" for b by (simp add: computeEventLeafHash_def)
  ultimately have "map sha_hex (?t a) = map sha_hex (?t b)" by metis
  moreover have "inj_on sha_hex (set (?t a) \<union> set (?t b))"
    using assms(2) by (rule inj_on_subset) (auto simp: hashed_texts_def)
  ultimately show ?thesis by (rule map_inj_on)
qed (use assms(6) in simp)

definition toy_events :: "audit_event list" where
  "toy_events = map (\<lambda>n. \<lparr>ev_id = ''e'', ev_sequence = n, ev_eventType = ''MEMBER_ENTRY'', ev_leagueId = ''l1'',
     ev_timestamp = ''t'', ev_actor = ''u'', ev_payload = [(''b'', JNum 2), (''a'', JStr ''x'')]\<rparr>) [2, 1]"

definition toy_bundle :: audit_bundle where
  "toy_bundle = buildLeagueAuditBundle toy_hex toy_num ''now'' ''l1'' toy_events None"

definition toy_export :: audit_bundle where
  "toy_export = buildLeagueAuditBundle toy_hex toy_num ''later'' ''l1'' (rev toy_events) None"

lemma toy_bundle_ok:
  "ir_valid (verifyLeagueAuditBundle toy_hex toy_num toy_bundle)" "ir_valid (verifyLeagueAuditBundle toy_hex toy_num toy_export)"
  unfolding toy_bundle_def toy_export_def built_valid_iff by (simp_all add: toy_events_def upto.simps)

lemma toy_sorted: "js_sort sequence_order toy_events = rev toy_events" "js_sort sequence_order (rev toy_events) = rev toy_events"
  by code_simp+

lemma toy_bundle_events:
  "ab_events toy_bundle = rev toy_events" "ab_events toy_export = rev toy_events"
  "ab_merkleRoot toy_bundle = ab_merkleRoot toy_export"
  by (simp_all add: toy_bundle_def toy_export_def buildLeagueAuditBundle_def Let_def toy_sorted)

lemma toy_texts:
  "inj_on toy_hex (set (map (event_text toy_num) (rev toy_events)) \<union>
     set (tree_inputs (@) (build_layers (pair_hash toy_hex) (map (computeEventLeafHash toy_hex toy_num) (rev toy_events)))))"
proof -
  obtain x y where e: "rev toy_events = [x, y]" "x = rev toy_events ! 0" "y = rev toy_events ! 1" by (simp add: toy_events_def)
  let ?h = "computeEventLeafHash toy_hex toy_num"
  have x: "?h x = replicate 64 (CHR ''6'')" and y: "?h y = replicate 64 (CHR ''9'')" unfolding e(2,3) by code_simp+
  have p: "toy_hex (replicate 64 (CHR ''6'') @ replicate 64 (CHR ''9'')) = replicate 64 (CHR ''5'')" by code_simp
  have "distinct (map toy_hex (remdups [event_text toy_num x, event_text toy_num y, ?h x @ ?h y]))"
    using x y p by (auto simp: computeEventLeafHash_def)
  then have "inj_on toy_hex (set [event_text toy_num x, event_text toy_num y, ?h x @ ?h y])" by (rule inj_on_set)
  moreover have "tree_inputs (@) (build_layers (pair_hash toy_hex) (map ?h [x, y])) = [?h x @ ?h y]"
    by (simp add: build_layers.simps tree_inputs_def)
  ultimately show ?thesis unfolding e(1) by (simp add: insert_commute)
qed

theorem audit_bundle_tamper_evident_witness:
  "ab_exportedAt toy_bundle \<noteq> ab_exportedAt toy_export \<and>
   map (event_text toy_num) (ab_events toy_bundle) = map (event_text toy_num) (ab_events toy_export)"
proof -
  have inj: "inj_on toy_hex (hashed_texts toy_hex toy_num toy_bundle \<union> hashed_texts toy_hex toy_num toy_export)"
    unfolding hashed_texts_def toy_bundle_events(1,2) Un_absorb by (rule toy_texts)
  have l: "length (toy_hex x) = 64" for x by (simp add: toy_hex_def)
  have n: "length (ab_events toy_bundle) = length (ab_events toy_export)" by (simp add: toy_bundle_events(1,2))
  have d: "ab_exportedAt toy_bundle \<noteq> ab_exportedAt toy_export"
    by (simp add: toy_bundle_def toy_export_def buildLeagueAuditBundle_def Let_def)
  show ?thesis using d audit_bundle_tamper_evident [OF l inj toy_bundle_ok toy_bundle_events(3) n] by blast
qed

section \<open>Canonical texts\<close>

interpretation keys: comparator key_order
proof
  show "sgn (key_order y x) = - sgn (key_order x y)" for x y :: "string \<times> 'a"
    unfolding key_order_def by (subst str_cmp_anti) simp
qed (auto simp: key_order_def intro: str_cmp_trans)

text \<open>The text of an object does not depend on the order in which its keys were inserted.\<close>

lemma canonicalizeJson_order_free:
  assumes "mset kvs = mset kvs'" and "distinct (map fst kvs)"
  shows "canonicalizeJson show_num (JObj kvs) = canonicalizeJson show_num (JObj kvs')"
proof -
  let ?f = "map (\<lambda>kv. (fst kv, canonicalizeJson show_num (snd kv)))"
  have "js_sort key_order (?f kvs) = js_sort key_order (?f kvs')"
  proof (rule keys.js_sort_unique)
    show "mset (?f kvs) = mset (?f kvs')" using assms(1) by simp
    show "p = q" if "p \<in> set (?f kvs)" "q \<in> set (?f kvs)" "key_order p q = 0" for p q
      using that by (auto simp: key_order_def str_cmp_zero_iff dest: eq_key_imp_eq_value [OF assms(2)])
  qed
  then show ?thesis by simp
qed

end
