(* ===== verification/Swiss.thy ===== *)
theory Swiss
  imports FX_Strings
begin

text \<open>
  The Swiss tournament engine, \<open>backend/src/services/league/swissTournamentEngine.ts\<close>: standings with
  tie-breaks, pairing by backtracking with a greedy fallback, byes, submission of round results and
  the round life cycle. The participants are an association list in insertion order; objects shared
  by reference are updated under their id. \<open>localeCompare\<close> depends on the locale and is the parameter
  \<open>lc\<close>. A score that is not a finite number is \<open>None\<close>. Timestamps are left out.
\<close>

section \<open>Data\<close>

datatype match_result = WIN | DRAW | LOSS | BYE

record history_entry =
  he_round :: nat
  he_opponentId :: "string option"
  he_result :: match_result
  he_score :: rat
  he_opponentScore :: rat

record participant =
  sp_id :: string
  sp_name :: string
  sp_seed :: rat
  sp_matchPoints :: nat
  sp_wins :: nat
  sp_draws :: nat
  sp_losses :: nat
  sp_byes :: nat
  sp_pointsFor :: rat
  sp_pointsAgainst :: rat
  sp_opponentsFaced :: "string list"
  sp_matchHistory :: "history_entry list"
  sp_buchholzScore :: rat
  sp_sonnebornBergerScore :: rat
  sp_rank :: nat

record matchup =
  mu_id :: string
  mu_round :: nat
  mu_home :: string
  mu_away :: "string option"
  mu_homeScore :: "rat option"
  mu_awayScore :: "rat option"
  mu_isFinished :: bool
  mu_winnerId :: "string option option"

datatype swiss_status = CREATED | ROUND_ACTIVE | ROUND_COMPLETED | TOURNAMENT_COMPLETED

record swiss_round =
  rd_roundNumber :: nat
  rd_gameweekId :: int
  rd_isFinished :: bool
  rd_matchups :: "matchup list"

record tournament =
  tn_id :: string
  tn_leagueId :: string
  tn_totalRounds :: nat
  tn_currentRound :: nat
  tn_status :: swiss_status
  tn_participants :: "(string \<times> participant) list"
  tn_rounds :: "swiss_round list"

record entrant =
  en_id :: string
  en_name :: "string option"
  en_seed :: "rat option"

record swiss_options =
  so_id :: "string option"
  so_leagueId :: string
  so_participants :: "entrant list"
  so_totalRounds :: "rat option"

record round_result =
  rr_home :: string
  rr_away :: "string option"
  rr_homeScore :: "rat option"
  rr_awayScore :: "rat option"

datatype swiss_error =
    TooFewParticipants | BadParticipantIds | BadRounds
  | AlreadyCompleted | UnfinishedMatches | MaxRoundsReached
  | NotActive | WrongRound nat nat | RoundNotFound nat
  | ByeSubmitted | BadScore | UnknownMatchup | DuplicateResult | MissingResults

section \<open>The constructor\<close>

text \<open>\<open>Math.ceil(Math.log2(n))\<close>\<close>

fun ceil_log2 :: "nat \<Rightarrow> nat" where
  "ceil_log2 n = (if n \<le> 1 then 0 else Suc (ceil_log2 ((n + 1) div 2)))"

declare ceil_log2.simps [simp del]

definition js_default :: "string option \<Rightarrow> string \<Rightarrow> string" where
  "js_default v d = (case v of None \<Rightarrow> d | Some s \<Rightarrow> if s = [] then d else s)"

definition new_participant :: "nat \<Rightarrow> entrant \<Rightarrow> participant" where
  "new_participant idx e =
     \<lparr>sp_id = en_id e, sp_name = js_default (en_name e) (''Player '' @ show_nat (idx + 1)),
      sp_seed = (case en_seed e of None \<Rightarrow> of_nat (idx + 1) | Some s \<Rightarrow> s),
      sp_matchPoints = 0, sp_wins = 0, sp_draws = 0, sp_losses = 0, sp_byes = 0,
      sp_pointsFor = 0, sp_pointsAgainst = 0, sp_opponentsFaced = [], sp_matchHistory = [],
      sp_buchholzScore = 0, sp_sonnebornBergerScore = 0, sp_rank = idx + 1\<rparr>"

definition new_engine :: "nat \<Rightarrow> swiss_options \<Rightarrow> swiss_error + tournament" where
  "new_engine now options =
     (let es = so_participants options;
          totalCount = length es;
          calculatedRounds = (if totalCount > 1 then max 3 (ceil_log2 totalCount) else 1);
          rounds = (case so_totalRounds options of None \<Rightarrow> of_nat calculatedRounds | Some r \<Rightarrow> r)
      in if totalCount < 2 then Inl TooFewParticipants
         else if length (js_unique (map en_id es)) \<noteq> totalCount \<or> list_ex (\<lambda>e. trim_ws (en_id e) = []) es
         then Inl BadParticipantIds
         else if of_int \<lfloor>rounds\<rfloor> \<noteq> rounds \<or> rounds < 1 then Inl BadRounds
         else Inr
           \<lparr>tn_id = js_default (so_id options) (''swiss-'' @ so_leagueId options @ ''-'' @ show_nat now),
            tn_leagueId = so_leagueId options, tn_totalRounds = nat \<lfloor>rounds\<rfloor>, tn_currentRound = 0, tn_status = CREATED,
            tn_participants = js_map (map (\<lambda>(e, idx). (en_id e, new_participant idx e)) (zip es [0..<length es])),
            tn_rounds = []\<rparr>)"

section \<open>Standings\<close>

definition opponent_points :: "(string \<times> participant) list \<Rightarrow> string \<Rightarrow> nat" where
  "opponent_points ps oppId = (case map_of ps oppId of None \<Rightarrow> 0 | Some opp \<Rightarrow> sp_matchPoints opp)"

definition head_to_head :: "(string \<times> participant) list \<Rightarrow> participant \<Rightarrow> string \<Rightarrow> rat" where
  "head_to_head ps p oppId =
     (case find (\<lambda>m. he_opponentId m = Some oppId) (sp_matchHistory p) of
        None \<Rightarrow> 0
      | Some m \<Rightarrow> if he_result m = WIN then of_nat (opponent_points ps oppId)
                  else if he_result m = DRAW then of_nat (opponent_points ps oppId) * (1 / 2) else 0)"

definition tie_breaks :: "(string \<times> participant) list \<Rightarrow> participant \<Rightarrow> participant" where
  "tie_breaks ps p = p\<lparr>sp_buchholzScore := (\<Sum>oppId\<leftarrow>sp_opponentsFaced p. of_nat (opponent_points ps oppId)),
                       sp_sonnebornBergerScore := (\<Sum>oppId\<leftarrow>sp_opponentsFaced p. head_to_head ps p oppId)\<rparr>"

definition swiss_order :: "(string \<Rightarrow> string \<Rightarrow> rat) \<Rightarrow> participant cmp" where
  "swiss_order lc =
     js_or (desc (\<lambda>p. of_nat (sp_matchPoints p))) (js_or (desc sp_buchholzScore) (js_or (desc sp_sonnebornBergerScore)
       (js_or (desc (\<lambda>p. sp_pointsFor p - sp_pointsAgainst p)) (js_or (desc sp_pointsFor)
         (js_or (asc sp_seed) (\<lambda>a b. lc (sp_id a) (sp_id b)))))))"

definition position_in :: "participant list \<Rightarrow> participant \<Rightarrow> nat" where
  "position_in ranking p = (case find_idx (\<lambda>q. sp_id q = sp_id p) ranking of Some i \<Rightarrow> i + 1 | None \<Rightarrow> sp_rank p)"

definition recomputeStandingsAndTieBreakers :: "(string \<Rightarrow> string \<Rightarrow> rat) \<Rightarrow> tournament \<Rightarrow> tournament" where
  "recomputeStandingsAndTieBreakers lc st =
     (let ps = tn_participants st;
          ps1 = map (\<lambda>(k, p). (k, tie_breaks ps p)) ps;
          ranking = js_sort (swiss_order lc) (map snd ps1)
      in st\<lparr>tn_participants := map (\<lambda>(k, p). (k, p\<lparr>sp_rank := position_in ranking p\<rparr>)) ps1\<rparr>)"

definition by_rank :: "participant cmp" where
  "by_rank = asc (\<lambda>p. of_nat (sp_rank p))"

definition getStandings :: "(string \<Rightarrow> string \<Rightarrow> rat) \<Rightarrow> tournament \<Rightarrow> participant list \<times> tournament" where
  "getStandings lc st =
     (let st' = recomputeStandingsAndTieBreakers lc st
      in (js_sort by_rank (map snd (tn_participants st')), st'))"

definition getCurrentRound :: "tournament \<Rightarrow> swiss_round option" where
  "getCurrentRound st =
     (if tn_currentRound st \<le> 0 \<or> length (tn_rounds st) = 0 then None
      else if tn_currentRound st - 1 < length (tn_rounds st) then Some (tn_rounds st ! (tn_currentRound st - 1))
      else None)"

section \<open>Pairings\<close>

definition match_id :: "tournament \<Rightarrow> nat \<Rightarrow> string \<Rightarrow> string" where
  "match_id st n suffix = ''match-'' @ tn_id st @ ''-r'' @ show_nat n @ ''-'' @ suffix"

definition open_matchup :: "tournament \<Rightarrow> nat \<Rightarrow> nat \<Rightarrow> participant \<Rightarrow> participant \<Rightarrow> matchup" where
  "open_matchup st n k home away =
     \<lparr>mu_id = match_id st n (show_nat k), mu_round = n, mu_home = sp_id home, mu_away = Some (sp_id away),
      mu_homeScore = None, mu_awayScore = None, mu_isFinished = False, mu_winnerId = None\<rparr>"

definition bye_matchup :: "tournament \<Rightarrow> nat \<Rightarrow> participant \<Rightarrow> matchup" where
  "bye_matchup st n p =
     \<lparr>mu_id = match_id st n ''bye'', mu_round = n, mu_home = sp_id p, mu_away = None,
      mu_homeScore = Some 0, mu_awayScore = Some 0, mu_isFinished = True, mu_winnerId = Some (Some (sp_id p))\<rparr>"

definition give_bye :: "nat \<Rightarrow> participant \<Rightarrow> participant" where
  "give_bye n p =
     p\<lparr>sp_byes := sp_byes p + 1, sp_matchPoints := sp_matchPoints p + 3, sp_wins := sp_wins p + 1,
       sp_matchHistory := sp_matchHistory p @
         [\<lparr>he_round = n, he_opponentId = None, he_result = BYE, he_score = 0, he_opponentScore = 0\<rparr>]\<rparr>"

definition update_participant ::
  "string \<Rightarrow> (participant \<Rightarrow> participant) \<Rightarrow> (string \<times> participant) list \<Rightarrow> (string \<times> participant) list" where
  "update_participant i f ps = map (\<lambda>(k, p). if k = i then (k, f p) else (k, p)) ps"

text \<open>The last index with no bye so far, else the last index.\<close>

definition bye_index :: "participant list \<Rightarrow> nat" where
  "bye_index ps =
     (case find_idx (\<lambda>p. sp_byes p = 0) (rev ps) of
        Some i \<Rightarrow> length ps - 1 - i
      | None \<Rightarrow> length ps - 1)"

definition round_one_pairs :: "participant list \<Rightarrow> (participant \<times> participant) list" where
  "round_one_pairs ps = (let half = length ps div 2 in map (\<lambda>i. (ps ! i, ps ! (i + half))) [0..<half])"

text \<open>The first index for which the callback gives a result.\<close>

fun first_some :: "('a \<Rightarrow> 'b option) \<Rightarrow> 'a list \<Rightarrow> 'b option" where
  "first_some f [] = None"
| "first_some f (x # xs) = (case f x of None \<Rightarrow> first_some f xs | Some y \<Rightarrow> Some y)"

lemma first_some_cong [fundef_cong]:
  assumes "xs = ys" "\<And>x. x \<in> set ys \<Longrightarrow> f x = g x"
  shows "first_some f xs = first_some g ys"
  using assms(2) unfolding assms(1) by (induction ys) (auto split: option.split)

function solveBacktrackPairings :: "participant list \<Rightarrow> (participant \<times> participant) list option" where
  "solveBacktrackPairings players =
     (case players of
        [] \<Rightarrow> Some []
      | first # rest \<Rightarrow>
          if odd (length players) then None
          else first_some (\<lambda>i.
            if sp_id (rest ! i) \<in> set (sp_opponentsFaced first) then None
            else map_option (\<lambda>sub. (first, rest ! i) # sub) (solveBacktrackPairings (remove_at i rest)))
            [0..<length rest])"
  by pat_completeness auto
termination
  by (relation "measure length") auto

declare solveBacktrackPairings.simps [simp del]

text \<open>The scan for the opponent met least often; it stops at one never met.\<close>

fun best_opponent :: "participant \<Rightarrow> nat \<Rightarrow> nat \<Rightarrow> nat option \<Rightarrow> participant list \<Rightarrow> nat" where
  "best_opponent p1 i bestIdx minRepeats [] = bestIdx"
| "best_opponent p1 i bestIdx minRepeats (p2 # ps) =
     (let repeats = length (filter (\<lambda>x. x = sp_id p2) (sp_opponentsFaced p1))
      in if (case minRepeats of None \<Rightarrow> True | Some m \<Rightarrow> repeats < m)
         then (if repeats = 0 then i else best_opponent p1 (i + 1) i (Some repeats) ps)
         else best_opponent p1 (i + 1) bestIdx minRepeats ps)"

lemma best_opponent_bound:
  "bestIdx < i + length ps \<or> ps = [] \<Longrightarrow> best_opponent p1 i bestIdx m ps < i + length ps \<or> ps = []"
proof (induction p1 i bestIdx m ps rule: best_opponent.induct)
  case (2 p1 i bestIdx m p2 ps)
  then show ?case by (cases ps) (auto simp: Let_def split: option.splits)
qed simp

function greedy_pairs :: "participant list \<Rightarrow> (participant \<times> participant) list" where
  "greedy_pairs remaining =
     (case remaining of
        p1 # rest \<Rightarrow>
          if rest = [] then []
          else let bestIdx = best_opponent p1 0 0 None rest
               in (p1, rest ! bestIdx) # greedy_pairs (remove_at bestIdx rest)
      | [] \<Rightarrow> [])"
  by pat_completeness auto
termination
  by (relation "measure length") (auto simp: remove_at_def)

declare greedy_pairs.simps [simp del]

definition number_matchups :: "tournament \<Rightarrow> nat \<Rightarrow> (participant \<times> participant) list \<Rightarrow> matchup list" where
  "number_matchups st n pairs = map (\<lambda>((home, away), idx). open_matchup st n (idx + 1) home away) (zip pairs [0..<length pairs])"

definition pairByScoreBrackets :: "participant list \<Rightarrow> (participant \<times> participant) list" where
  "pairByScoreBrackets players =
     (case solveBacktrackPairings players of None \<Rightarrow> greedy_pairs players | Some pairs \<Rightarrow> pairs)"

definition computePairings :: "(string \<Rightarrow> string \<Rightarrow> rat) \<Rightarrow> tournament \<Rightarrow> nat \<Rightarrow> matchup list \<times> tournament" where
  "computePairings lc st n =
     (let (standings, st1) = getStandings lc st;
          isOdd = odd (length standings);
          bi = bye_index standings;
          byePlayer = standings ! bi;
          available = (if isOdd then remove_at bi standings else standings);
          byes = (if isOdd then [bye_matchup st n byePlayer] else []);
          st2 = (if isOdd then st1\<lparr>tn_participants := update_participant (sp_id byePlayer) (give_bye n) (tn_participants st1)\<rparr> else st1);
          pairs = (if n = 1 then round_one_pairs available else pairByScoreBrackets available)
      in (byes @ number_matchups st n pairs, st2))"

definition generateNextRound :: "(string \<Rightarrow> string \<Rightarrow> rat) \<Rightarrow> tournament \<Rightarrow> int \<Rightarrow> (swiss_error + swiss_round) \<times> tournament" where
  "generateNextRound lc st gameweekId =
     (if tn_status st = TOURNAMENT_COMPLETED then (Inl AlreadyCompleted, st)
      else if tn_status st = ROUND_ACTIVE \<and> (case getCurrentRound st of None \<Rightarrow> False | Some r \<Rightarrow> \<not> rd_isFinished r)
      then (Inl UnfinishedMatches, st)
      else let n = tn_currentRound st + 1
           in if n > tn_totalRounds st then (Inl MaxRoundsReached, st\<lparr>tn_status := TOURNAMENT_COMPLETED\<rparr>)
              else let st1 = recomputeStandingsAndTieBreakers lc st;
                       (ms, st2) = computePairings lc st1 n;
                       r = \<lparr>rd_roundNumber = n, rd_gameweekId = gameweekId, rd_isFinished = False, rd_matchups = ms\<rparr>
                   in (Inr r, st2\<lparr>tn_rounds := tn_rounds st2 @ [r], tn_currentRound := n, tn_status := ROUND_ACTIVE\<rparr>))"

section \<open>Round results\<close>

text \<open>\<open>[a, b].sort().join("\u0000")\<close>\<close>

definition pair_key :: "string \<Rightarrow> string \<Rightarrow> string" where
  "pair_key a b = join [char_of (0 :: nat)] (js_sort str_cmp [a, b])"

definition expected_keys :: "matchup list \<Rightarrow> string list" where
  "expected_keys ms = js_unique (map (\<lambda>m. pair_key (mu_home m) (the (mu_away m))) (filter (\<lambda>m. mu_away m \<noteq> None) ms))"

definition score_ok :: "rat option \<Rightarrow> bool" where
  "score_ok s = (case s of None \<Rightarrow> False | Some x \<Rightarrow> 0 \<le> x)"

fun check_results :: "string list \<Rightarrow> string list \<Rightarrow> round_result list \<Rightarrow> swiss_error + string list" where
  "check_results expected submitted [] =
     (if length submitted \<noteq> length expected then Inl MissingResults else Inr submitted)"
| "check_results expected submitted (r # rs) =
     (case rr_away r of
        None \<Rightarrow> Inl ByeSubmitted
      | Some a \<Rightarrow>
          if \<not> (score_ok (rr_homeScore r) \<and> score_ok (rr_awayScore r)) then Inl BadScore
          else let key = pair_key (rr_home r) a
               in if key \<notin> set expected then Inl UnknownMatchup
                  else if key \<in> set submitted then Inl DuplicateResult
                  else check_results expected (submitted @ [key]) rs)"

text \<open>The matchup a result is for, and whether home and away are swapped.\<close>

definition locate :: "matchup list \<Rightarrow> round_result \<Rightarrow> (nat \<times> bool) option" where
  "locate ms r =
     (case find_idx (\<lambda>m. mu_home m = rr_home r \<and> mu_away m = rr_away r) ms of
        Some i \<Rightarrow> Some (i, False)
      | None \<Rightarrow>
          (case find_idx (\<lambda>m. Some (mu_home m) = rr_away r \<and> mu_away m = Some (rr_home r)) ms of
             Some i \<Rightarrow> Some (i, True)
           | None \<Rightarrow> None))"

definition record_points :: "rat \<Rightarrow> rat \<Rightarrow> participant \<Rightarrow> participant" where
  "record_points for against p =
     p\<lparr>sp_pointsFor := sp_pointsFor p + for, sp_pointsAgainst := sp_pointsAgainst p + against\<rparr>"

definition record_outcome :: "nat \<Rightarrow> string \<Rightarrow> match_result \<Rightarrow> rat \<Rightarrow> rat \<Rightarrow> participant \<Rightarrow> participant" where
  "record_outcome n opp result for against p =
     p\<lparr>sp_opponentsFaced := sp_opponentsFaced p @ [opp],
       sp_wins := sp_wins p + (if result = WIN then 1 else 0),
       sp_draws := sp_draws p + (if result = DRAW then 1 else 0),
       sp_losses := sp_losses p + (if result = LOSS then 1 else 0),
       sp_matchPoints := sp_matchPoints p + (if result = WIN then 3 else if result = DRAW then 1 else 0),
       sp_matchHistory := sp_matchHistory p @
         [\<lparr>he_round = n, he_opponentId = Some opp, he_result = result, he_score = for, he_opponentScore = against\<rparr>]\<rparr>"

definition outcome :: "rat \<Rightarrow> rat \<Rightarrow> match_result" where
  "outcome for against = (if for > against then WIN else if for < against then LOSS else DRAW)"

definition winner_of :: "rat \<Rightarrow> rat \<Rightarrow> string \<Rightarrow> string \<Rightarrow> string option" where
  "winner_of hs as home away = (if hs > as then Some home else if hs < as then Some away else None)"

definition score_value :: "rat option \<Rightarrow> rat" where
  "score_value s = (case s of None \<Rightarrow> 0 | Some x \<Rightarrow> x)"

definition apply_result ::
  "nat \<Rightarrow> matchup list \<times> (string \<times> participant) list \<Rightarrow> round_result \<Rightarrow> matchup list \<times> (string \<times> participant) list" where
  "apply_result n mp res =
     (case mp of (ms, ps) \<Rightarrow>
      (case locate ms res of
         None \<Rightarrow> (ms, ps)
       | Some (i, isReversed) \<Rightarrow>
           (let hs = score_value (if isReversed then rr_awayScore res else rr_homeScore res);
                as = score_value (if isReversed then rr_homeScore res else rr_awayScore res);
                m = (ms ! i)\<lparr>mu_homeScore := Some hs, mu_awayScore := Some as, mu_isFinished := True\<rparr>
            in case map_of ps (mu_home m) of
                 None \<Rightarrow> (ms[i := m], ps)
               | Some home \<Rightarrow>
                   (let ps1 = update_participant (mu_home m) (record_points hs as) ps
                    in case (case mu_away m of None \<Rightarrow> None | Some a \<Rightarrow> if a = [] then None else map_of ps a) of
                         None \<Rightarrow> (ms[i := m], ps1)
                       | Some away \<Rightarrow>
                           (ms[i := m\<lparr>mu_winnerId := Some (winner_of hs as (sp_id home) (sp_id away))\<rparr>],
                            update_participant (the (mu_away m))
                              (record_outcome n (sp_id home) (outcome as hs) as hs \<circ> record_points as hs)
                              (update_participant (mu_home m) (record_outcome n (sp_id away) (outcome hs as) hs as) ps1))))))"

definition submitRoundResults ::
  "(string \<Rightarrow> string \<Rightarrow> rat) \<Rightarrow> tournament \<Rightarrow> nat \<Rightarrow> round_result list \<Rightarrow> swiss_error + tournament" where
  "submitRoundResults lc st n results =
     (if tn_status st \<noteq> ROUND_ACTIVE then Inl NotActive
      else if tn_currentRound st \<noteq> n then Inl (WrongRound (tn_currentRound st) n)
      else case getCurrentRound st of
        None \<Rightarrow> Inl (RoundNotFound n)
      | Some rnd \<Rightarrow>
          res_bind (check_results (expected_keys (rd_matchups rnd)) [] results) (\<lambda>_.
            let (ms, ps) = foldl (apply_result n) (rd_matchups rnd, tn_participants st) results;
                rnd' = rnd\<lparr>rd_matchups := ms, rd_isFinished := True\<rparr>;
                st1 = st\<lparr>tn_rounds := (tn_rounds st)[tn_currentRound st - 1 := rnd'], tn_participants := ps\<rparr>;
                st2 = recomputeStandingsAndTieBreakers lc st1
            in Inr (st2\<lparr>tn_status := (if tn_currentRound st2 \<ge> tn_totalRounds st2 then TOURNAMENT_COMPLETED
                                       else ROUND_COMPLETED)\<rparr>)))"

section \<open>Perfect pairings\<close>

definition flatten :: "('a \<times> 'a) list \<Rightarrow> 'a list" where
  "flatten pairs = concat (map (\<lambda>(a, b). [a, b]) pairs)"

lemma flatten_simps [simp]: "flatten [] = []" "flatten ((a, b) # ps) = a # b # flatten ps"
  by (simp_all add: flatten_def)

lemma length_flatten [simp]: "length (flatten ps) = 2 * length ps"
  by (induction ps) auto

lemma flatten_append [simp]: "flatten (ps @ qs) = flatten ps @ flatten qs"
  by (simp add: flatten_def)

text \<open>\<open>a\<close> and \<open>b\<close> have met, as far as either of them remembers.\<close>

definition met :: "participant \<Rightarrow> participant \<Rightarrow> bool" where
  "met a b \<longleftrightarrow> sp_id b \<in> set (sp_opponentsFaced a) \<or> sp_id a \<in> set (sp_opponentsFaced b)"

definition perfect_pairing :: "participant list \<Rightarrow> (participant \<times> participant) list \<Rightarrow> bool" where
  "perfect_pairing ps pairs \<longleftrightarrow> mset (flatten pairs) = mset ps"

lemma first_some_SomeD: "first_some f xs = Some y \<Longrightarrow> \<exists>x \<in> set xs. f x = Some y"
  by (induction xs) (auto split: option.splits)

lemma first_some_None_iff: "first_some f xs = None \<longleftrightarrow> (\<forall>x \<in> set xs. f x = None)"
  by (induction xs) (auto split: option.splits)

lemma mset_remove_nth: "i < length xs \<Longrightarrow> add_mset (xs ! i) (mset (remove_at i xs)) = mset xs"
  by (simp add: mset_remove_at)

lemma backtrack_sound:
  "solveBacktrackPairings players = Some pairs \<Longrightarrow>
   perfect_pairing players pairs \<and> (\<forall>(a, b) \<in> set pairs. sp_id b \<notin> set (sp_opponentsFaced a))"
proof (induction players arbitrary: pairs rule: solveBacktrackPairings.induct)
  case (1 players)
  show ?case
  proof (cases players)
    case Nil
    then show ?thesis using 1(2) by (simp add: solveBacktrackPairings.simps perfect_pairing_def)
  next
    case (Cons first rest)
    then have even: "\<not> odd (length players)"
      and res: "first_some (\<lambda>i. if sp_id (rest ! i) \<in> set (sp_opponentsFaced first) then None
        else map_option (\<lambda>sub. (first, rest ! i) # sub) (solveBacktrackPairings (remove_at i rest))) [0..<length rest] = Some pairs"
      using 1(2) unfolding Cons by (auto simp: solveBacktrackPairings.simps [of "first # rest"] split: if_splits)
    obtain i sub where i: "i < length rest" "sp_id (rest ! i) \<notin> set (sp_opponentsFaced first)"
      "solveBacktrackPairings (remove_at i rest) = Some sub" "pairs = (first, rest ! i) # sub"
      using first_some_SomeD [OF res] by (auto split: if_splits)
    have "perfect_pairing (remove_at i rest) sub \<and> (\<forall>(a, b) \<in> set sub. sp_id b \<notin> set (sp_opponentsFaced a))"
      using 1(1) [OF Cons even _ i(2,3)] i(1) by simp
    then show ?thesis using i Cons mset_remove_nth [OF i(1)] by (auto simp: perfect_pairing_def)
  qed
qed

lemma backtrack_complete:
  assumes "perfect_pairing players pairs" and "\<forall>(a, b) \<in> set pairs. \<not> met a b"
  shows "solveBacktrackPairings players \<noteq> None"
  using assms
proof (induction "length players" arbitrary: players pairs rule: less_induct)
  case less
  show ?case
  proof (cases players)
    case Nil
    then show ?thesis by (simp add: solveBacktrackPairings.simps)
  next
    case (Cons first rest)
    have len: "length players = 2 * length pairs"
      using less.prems(1) by (metis length_flatten perfect_pairing_def size_mset)
    have "first \<in> set (flatten pairs)" using less.prems(1) Cons by (metis list.set_intros(1) perfect_pairing_def set_mset_mset)
    then obtain c where c: "(first, c) \<in> set pairs \<or> (c, first) \<in> set pairs" by (auto simp: flatten_def)
    then obtain xs ys where split: "pairs = xs @ (first, c) # ys \<or> pairs = xs @ (c, first) # ys" by (meson split_list)
    then have m: "add_mset first (add_mset c (mset (flatten (xs @ ys)))) = mset players"
      using less.prems(1) by (auto simp: perfect_pairing_def add_mset_commute)
    then have rest: "add_mset c (mset (flatten (xs @ ys))) = mset rest" using Cons by simp
    then have "c \<in> set rest" by (metis set_mset_mset union_single_eq_member)
    then obtain i where i: "i < length rest" "rest ! i = c" by (auto simp: in_set_conv_nth)
    have "add_mset c (mset (flatten (xs @ ys))) = add_mset c (mset (remove_at i rest))"
      using rest mset_remove_nth [OF i(1)] i(2) by simp
    then have "perfect_pairing (remove_at i rest) (xs @ ys)" by (simp add: perfect_pairing_def)
    moreover have "\<forall>(a, b) \<in> set (xs @ ys). \<not> met a b" using less.prems(2) split by auto
    ultimately have "solveBacktrackPairings (remove_at i rest) \<noteq> None"
      using less.hyps [of "remove_at i rest"] Cons i(1) by simp
    moreover have "sp_id (rest ! i) \<notin> set (sp_opponentsFaced first)"
      using less.prems(2) c i(2) by (auto simp: met_def)
    ultimately show ?thesis
      using len i(1) unfolding Cons by (auto simp: solveBacktrackPairings.simps [of "first # rest"] first_some_None_iff)
  qed
qed

text \<open>
  The backtracking search is sound and complete: a pairing it returns uses every player exactly
  once and never repeats a matchup; if it returns none, every way of pairing all the players repeats
  a matchup somewhere. It terminates on every list.
\<close>

theorem backtracking_pairing_correct:
  "(\<forall>pairs. solveBacktrackPairings players = Some pairs \<longrightarrow>
      perfect_pairing players pairs \<and> (\<forall>(a, b) \<in> set pairs. sp_id b \<notin> set (sp_opponentsFaced a))) \<and>
   (solveBacktrackPairings players = None \<longrightarrow>
      (\<forall>pairs. perfect_pairing players pairs \<longrightarrow> (\<exists>(a, b) \<in> set pairs. met a b)))"
proof (intro conjI allI impI)
  fix pairs assume "solveBacktrackPairings players = Some pairs"
  then show "perfect_pairing players pairs" "\<forall>(a, b) \<in> set pairs. sp_id b \<notin> set (sp_opponentsFaced a)"
    using backtrack_sound by blast+
next
  fix pairs assume "solveBacktrackPairings players = None" "perfect_pairing players pairs"
  then show "\<exists>(a, b) \<in> set pairs. met a b" using backtrack_complete by blast
qed

section \<open>The pairings of a round\<close>

lemma best_opponent_lt: "ps \<noteq> [] \<Longrightarrow> best_opponent p1 0 0 None ps < length ps"
  using best_opponent_bound [of 0 0 ps p1 None] by auto

lemma greedy_perfect: "even (length ps) \<Longrightarrow> perfect_pairing ps (greedy_pairs ps)"
proof (induction ps rule: greedy_pairs.induct)
  case (1 ps)
  show ?case
  proof (cases ps)
    case Nil
    then show ?thesis by (simp add: greedy_pairs.simps perfect_pairing_def)
  next
    case (Cons p1 rest)
    then have ne: "rest \<noteq> []" using 1(2) by auto
    let ?b = "best_opponent p1 0 0 None rest"
    have b: "?b < length rest" by (rule best_opponent_lt [OF ne])
    have "perfect_pairing (remove_at ?b rest) (greedy_pairs (remove_at ?b rest))"
      using 1(1) [OF Cons ne refl] 1(2) Cons b by simp
    then show ?thesis using Cons ne mset_remove_nth [OF b]
      by (simp add: greedy_pairs.simps [of "p1 # rest"] perfect_pairing_def Let_def)
  qed
qed

lemma flatten_halves: "length xs = length ys \<Longrightarrow> mset (flatten (zip xs ys)) = mset (xs @ ys)"
  by (induction xs ys rule: list_induct2) auto

lemma round_one_perfect: "even (length ps) \<Longrightarrow> perfect_pairing ps (round_one_pairs ps)"
proof -
  assume "even (length ps)"
  then obtain h where h: "length ps = 2 * h" by (elim evenE)
  have "round_one_pairs ps = zip (take h ps) (drop h ps)"
    using h by (auto simp: round_one_pairs_def Let_def list_eq_iff_nth_eq add.commute)
  moreover have "mset (flatten (zip (take h ps) (drop h ps))) = mset (take h ps @ drop h ps)"
    using h by (intro flatten_halves) simp
  ultimately show ?thesis by (simp add: perfect_pairing_def)
qed

lemma pairByScoreBrackets_perfect: "even (length ps) \<Longrightarrow> perfect_pairing ps (pairByScoreBrackets ps)"
  using backtrack_sound greedy_perfect by (auto simp: pairByScoreBrackets_def split: option.splits)

lemma bye_index_bound: "ps \<noteq> [] \<Longrightarrow> bye_index ps < length ps"
  by (auto simp: bye_index_def split: option.splits)

lemma bye_index_fair:
  assumes "ps \<noteq> []" "\<exists>p \<in> set ps. sp_byes p = 0"
  shows "sp_byes (ps ! bye_index ps) = 0"
proof -
  obtain i where i: "find_idx (\<lambda>p. sp_byes p = 0) (rev ps) = Some i"
    using assms(2) find_idx_None_iff [of "\<lambda>p. sp_byes p = 0" "rev ps"] by fastforce
  then have "i < length ps" "sp_byes (rev ps ! i) = 0" using find_idx_SomeD by fastforce+
  then show ?thesis using i by (simp add: bye_index_def rev_nth)
qed

text \<open>Who plays in a list of matchups.\<close>

definition players_of :: "matchup list \<Rightarrow> string list" where
  "players_of ms = concat (map (\<lambda>m. mu_home m # (case mu_away m of None \<Rightarrow> [] | Some a \<Rightarrow> [a])) ms)"

lemma players_of_append [simp]: "players_of (ms @ ms') = players_of ms @ players_of ms'"
  by (simp add: players_of_def)

lemma players_of_numbered: "players_of (number_matchups st n pairs) = map sp_id (flatten pairs)"
proof -
  have "players_of (map (\<lambda>((home, away), idx). open_matchup st n (idx + 1) home away) (zip pairs ks)) = map sp_id (flatten pairs)"
    if "length pairs \<le> length ks" for ks
    using that
  proof (induction pairs arbitrary: ks)
    case (Cons p pairs)
    then obtain k ks' where "ks = k # ks'" by (cases ks) auto
    then show ?case using Cons by (cases p) (simp add: players_of_def open_matchup_def)
  qed (simp add: players_of_def)
  then show ?thesis by (simp add: number_matchups_def)
qed

definition tn_wf :: "tournament \<Rightarrow> bool" where
  "tn_wf st \<longleftrightarrow> distinct (map fst (tn_participants st)) \<and> length (tn_participants st) \<ge> 2 \<and>
     (\<forall>(k, p) \<in> set (tn_participants st). sp_id p = k \<and> k \<noteq> [])"

lemma recompute_keys [simp]:
  "map fst (tn_participants (recomputeStandingsAndTieBreakers lc st)) = map fst (tn_participants st)"
  by (simp add: recomputeStandingsAndTieBreakers_def Let_def case_prod_beta o_def)

lemma recompute_ids:
  "map (sp_id \<circ> snd) (tn_participants (recomputeStandingsAndTieBreakers lc st)) = map (sp_id \<circ> snd) (tn_participants st)"
  by (simp add: recomputeStandingsAndTieBreakers_def Let_def case_prod_beta o_def tie_breaks_def)

lemma recompute_frame [simp]:
  "tn_id (recomputeStandingsAndTieBreakers lc st) = tn_id st"
  "tn_totalRounds (recomputeStandingsAndTieBreakers lc st) = tn_totalRounds st"
  "tn_currentRound (recomputeStandingsAndTieBreakers lc st) = tn_currentRound st"
  "tn_status (recomputeStandingsAndTieBreakers lc st) = tn_status st"
  "tn_rounds (recomputeStandingsAndTieBreakers lc st) = tn_rounds st"
  by (simp_all add: recomputeStandingsAndTieBreakers_def Let_def)

lemma wf_ids: "tn_wf st \<Longrightarrow> map (sp_id \<circ> snd) (tn_participants st) = map fst (tn_participants st)"
  by (auto simp: tn_wf_def)

text \<open>A participant without what \<open>recomputeStandingsAndTieBreakers\<close> writes.\<close>

definition sp_core :: "participant \<Rightarrow> participant" where
  "sp_core p = p\<lparr>sp_buchholzScore := 0, sp_sonnebornBergerScore := 0, sp_rank := 0\<rparr>"

lemma sp_core_fields:
  assumes "sp_core p = sp_core q"
  shows "sp_id p = sp_id q" "sp_byes p = sp_byes q" "sp_opponentsFaced p = sp_opponentsFaced q"
    "sp_matchPoints p = sp_matchPoints q" "sp_wins p = sp_wins q" "sp_draws p = sp_draws q"
    "sp_losses p = sp_losses q" "sp_matchHistory p = sp_matchHistory q"
    "sp_pointsFor p = sp_pointsFor q" "sp_pointsAgainst p = sp_pointsAgainst q" "sp_seed p = sp_seed q"
  using assms by (cases p; cases q; simp add: sp_core_def)+

lemma recompute_core:
  "map (map_prod id sp_core) (tn_participants (recomputeStandingsAndTieBreakers lc st)) =
   map (map_prod id sp_core) (tn_participants st)"
  by (auto simp: recomputeStandingsAndTieBreakers_def Let_def sp_core_def tie_breaks_def)

lemma map_of_core:
  "map (map_prod id sp_core) ps = map (map_prod id sp_core) qs \<Longrightarrow> map_of ps k = Some p \<Longrightarrow>
   \<exists>q. map_of qs k = Some q \<and> sp_core p = sp_core q"
  by (induction ps arbitrary: qs) (auto split: if_splits)

definition faced_by :: "tournament \<Rightarrow> string \<Rightarrow> string list" where
  "faced_by st a = (case map_of (tn_participants st) a of None \<Rightarrow> [] | Some p \<Rightarrow> sp_opponentsFaced p)"

lemma map_of_recompute_None: "map_of (tn_participants (recomputeStandingsAndTieBreakers lc st)) k = None \<longleftrightarrow> map_of (tn_participants st) k = None"
  by (simp add: map_of_eq_None_keys)

lemma faced_by_recompute [simp]: "faced_by (recomputeStandingsAndTieBreakers lc st) a = faced_by st a"
proof (cases "map_of (tn_participants (recomputeStandingsAndTieBreakers lc st)) a")
  case None
  then show ?thesis using map_of_recompute_None [of lc st a] by (simp add: faced_by_def)
next
  case (Some p)
  then obtain q where "map_of (tn_participants st) a = Some q" "sp_core p = sp_core q"
    using map_of_core [OF recompute_core Some] by blast
  then show ?thesis using Some sp_core_fields(3) [of p q] by (simp add: faced_by_def)
qed

lemma wf_recompute [simp]: "tn_wf (recomputeStandingsAndTieBreakers lc st) \<longleftrightarrow> tn_wf st"
proof -
  have "(\<forall>(k, p) \<in> set ps. sp_id p = k \<and> k \<noteq> []) \<longleftrightarrow> list_all2 (\<lambda>k i. i = k \<and> k \<noteq> []) (map fst ps) (map (sp_id \<circ> snd) ps)"
    for ps :: "(string \<times> participant) list" by (induction ps) auto
  moreover have "length (tn_participants (recomputeStandingsAndTieBreakers lc st)) = length (tn_participants st)"
    by (metis length_map recompute_keys)
  ultimately show ?thesis unfolding tn_wf_def by (simp add: recompute_ids)
qed

lemma standings_ids:
  assumes "tn_wf st" "getStandings lc st = (S, st')"
  shows "mset (map sp_id S) = mset (map fst (tn_participants st))" "distinct (map sp_id S)" "S \<noteq> []"
    "p \<in> set S \<Longrightarrow> map_of (tn_participants st') (sp_id p) = Some p"
proof -
  have S: "S = js_sort by_rank (map snd (tn_participants st'))" and st': "st' = recomputeStandingsAndTieBreakers lc st"
    using assms(2) by (auto simp: getStandings_def Let_def)
  have wf: "tn_wf st'" using assms(1) st' by simp
  have "mset (map sp_id S) = mset (map (sp_id \<circ> snd) (tn_participants st'))"
    unfolding S by (simp only: mset_map mset_js_sort map_map [symmetric])
  then show ids: "mset (map sp_id S) = mset (map fst (tn_participants st))"
    unfolding wf_ids [OF wf] unfolding st' by simp
  then show "distinct (map sp_id S)" using assms(1) by (metis mset_eq_imp_distinct_iff tn_wf_def)
  have "length S = length (tn_participants st)" using ids by (metis length_map size_mset)
  then show "S \<noteq> []" using assms(1) by (auto simp: tn_wf_def)
  assume "p \<in> set S"
  then obtain k where "(k, p) \<in> set (tn_participants st')" by (auto simp: S)
  moreover have "k = sp_id p" using calculation wf by (auto simp: tn_wf_def)
  ultimately show "map_of (tn_participants st') (sp_id p) = Some p" using wf by (simp add: tn_wf_def)
qed

lemma perfect_ids: "perfect_pairing ps pairs \<Longrightarrow> mset (map sp_id (flatten pairs)) = mset (map sp_id ps)"
  by (simp add: perfect_pairing_def)

text \<open>The parts \<open>computePairings\<close> is made of.\<close>

lemma computePairings_parts:
  assumes "tn_wf st" "computePairings lc st n = (ms, st2)" "getStandings lc st = (S, st1)"
  obtains A byes pairs where "ms = byes @ number_matchups st n pairs" "even (length A)" "perfect_pairing A pairs"
    "pairs = (if n = 1 then round_one_pairs A else pairByScoreBrackets A)"
    "odd (length S) \<longrightarrow> byes = [bye_matchup st n (S ! bye_index S)] \<and> A = remove_at (bye_index S) S \<and>
       st2 = st1\<lparr>tn_participants := update_participant (sp_id (S ! bye_index S)) (give_bye n) (tn_participants st1)\<rparr>"
    "even (length S) \<longrightarrow> byes = [] \<and> A = S \<and> st2 = st1"
proof -
  define A where "A = (if odd (length S) then remove_at (bye_index S) S else S)"
  define byes where "byes = (if odd (length S) then [bye_matchup st n (S ! bye_index S)] else [])"
  define pairs where "pairs = (if n = 1 then round_one_pairs A else pairByScoreBrackets A)"
  have "bye_index S < length S" using standings_ids(3) [OF assms(1,3)] by (rule bye_index_bound)
  then have even: "even (length A)" by (auto simp: A_def)
  then have perfect: "perfect_pairing A pairs"
    by (simp add: pairs_def round_one_perfect pairByScoreBrackets_perfect)
  have ms: "ms = byes @ number_matchups st n pairs"
    using assms(2,3) by (auto simp: computePairings_def Let_def byes_def pairs_def A_def)
  have st2: "st2 = (if odd (length S) then st1\<lparr>tn_participants := update_participant (sp_id (S ! bye_index S)) (give_bye n) (tn_participants st1)\<rparr> else st1)"
    using assms(2,3) by (auto simp: computePairings_def Let_def)
  show ?thesis
    by (rule that [OF ms even perfect pairs_def]) (simp_all add: st2 byes_def A_def)
qed

lemma number_matchups_away: "m \<in> set (number_matchups st n pairs) \<Longrightarrow> mu_away m \<noteq> None"
  by (auto simp: number_matchups_def open_matchup_def)

lemma computePairings_players:
  assumes "tn_wf st" "computePairings lc st n = (ms, st2)" "getStandings lc st = (S, st1)"
  shows "mset (players_of ms) = mset (map fst (tn_participants st)) \<and>
    length (filter (\<lambda>m. mu_away m = None) ms) = length (tn_participants st) mod 2 \<and>
    (\<forall>m \<in> set ms. mu_away m = None \<longrightarrow> mu_home m = sp_id (S ! bye_index S))"
proof -
  note ids = standings_ids [OF assms(1,3)]
  obtain A byes pairs where p: "ms = byes @ number_matchups st n pairs" "even (length A)" "perfect_pairing A pairs"
    "pairs = (if n = 1 then round_one_pairs A else pairByScoreBrackets A)"
    "odd (length S) \<longrightarrow> byes = [bye_matchup st n (S ! bye_index S)] \<and> A = remove_at (bye_index S) S \<and>
       st2 = st1\<lparr>tn_participants := update_participant (sp_id (S ! bye_index S)) (give_bye n) (tn_participants st1)\<rparr>"
    "even (length S) \<longrightarrow> byes = [] \<and> A = S \<and> st2 = st1"
    by (rule computePairings_parts [OF assms])
  have len: "length S = length (tn_participants st)" using ids(1) by (metis length_map size_mset)
  have none: "filter (\<lambda>m. mu_away m = None) (number_matchups st n pairs) = []"
    using number_matchups_away by (auto simp: filter_empty_conv)
  have ps: "players_of ms = players_of byes @ map sp_id (flatten pairs)"
    by (simp add: p(1) players_of_numbered)
  show ?thesis
  proof (cases "odd (length S)")
    case True
    have "bye_index S < length S" by (rule bye_index_bound [OF ids(3)])
    then have "mset (map sp_id S) = add_mset (sp_id (S ! bye_index S)) (mset (map sp_id A))"
      using p(5) [rule_format, OF True] mset_remove_nth [of "bye_index S" S] by (metis image_mset_add_mset mset_map)
    then have "mset (players_of ms) = mset (map fst (tn_participants st))"
      using ps p(5) [rule_format, OF True] perfect_ids [OF p(3)] ids(1) by (simp add: players_of_def bye_matchup_def)
    then show ?thesis
      using p(1) p(5) [rule_format, OF True] none True len
      by (auto simp: bye_matchup_def odd_iff_mod_2_eq_one dest: number_matchups_away)
  next
    case False
    then show ?thesis
      using p(1) p(6) none ps perfect_ids [OF p(3)] ids(1) len
      by (auto simp: players_of_def even_iff_mod_2_eq_zero dest: number_matchups_away)
  qed
qed

lemma generateNextRound_ok:
  assumes "generateNextRound lc st gw = (Inr r, st')"
  obtains st2 where "computePairings lc (recomputeStandingsAndTieBreakers lc st) (tn_currentRound st + 1) = (rd_matchups r, st2)"
    "st' = st2\<lparr>tn_rounds := tn_rounds st2 @ [r], tn_currentRound := tn_currentRound st + 1, tn_status := ROUND_ACTIVE\<rparr>"
    "rd_roundNumber r = tn_currentRound st + 1" "\<not> rd_isFinished r" "tn_currentRound st < tn_totalRounds st"
    "tn_status st \<noteq> TOURNAMENT_COMPLETED"
proof -
  obtain ms st2 where "computePairings lc (recomputeStandingsAndTieBreakers lc st) (tn_currentRound st + 1) = (ms, st2)"
    by (cases "computePairings lc (recomputeStandingsAndTieBreakers lc st) (tn_currentRound st + 1)")
  then show ?thesis using assms that by (auto simp: generateNextRound_def Let_def split: if_splits)
qed

lemma standings_byes:
  assumes "tn_wf st" "getStandings lc st = (S, st1)" "p \<in> set S"
  shows "\<exists>q. map_of (tn_participants st) (sp_id p) = Some q \<and> sp_core p = sp_core q"
proof -
  have "st1 = recomputeStandingsAndTieBreakers lc st" using assms(2) by (simp add: getStandings_def Let_def)
  then show ?thesis using map_of_core [OF recompute_core] standings_ids(4) [OF assms] by blast
qed

text \<open>
  A generated round involves every participant exactly once; it has a bye exactly if their number
  is odd, then only one, and it goes to somebody without a bye so far as long as there is one.
\<close>

theorem round_pairs_everyone:
  assumes "tn_wf st" and "generateNextRound lc st gw = (Inr r, st')"
  shows "mset (players_of (rd_matchups r)) = mset (map fst (tn_participants st)) \<and>
    length (filter (\<lambda>m. mu_away m = None) (rd_matchups r)) = length (tn_participants st) mod 2 \<and>
    (\<forall>m \<in> set (rd_matchups r). mu_away m = None \<longrightarrow> (\<exists>(k, p) \<in> set (tn_participants st). sp_byes p = 0) \<longrightarrow>
       (\<exists>p. map_of (tn_participants st) (mu_home m) = Some p \<and> sp_byes p = 0))"
proof -
  let ?st = "recomputeStandingsAndTieBreakers lc st"
  obtain st2 where c: "computePairings lc ?st (tn_currentRound st + 1) = (rd_matchups r, st2)"
    by (rule generateNextRound_ok [OF assms(2)])
  obtain S st1 where S: "getStandings lc ?st = (S, st1)" by (cases "getStandings lc ?st")
  have wf: "tn_wf ?st" using assms(1) by simp
  note pl = computePairings_players [OF wf c S] and ids = standings_ids [OF wf S]
  have fair: "\<exists>p. map_of (tn_participants st) (sp_id (S ! bye_index S)) = Some p \<and> sp_byes p = 0"
    if "(k, q) \<in> set (tn_participants st)" "sp_byes q = 0" for k q
  proof -
    have "sp_id q = k" "map_of (tn_participants st) k = Some q" using that(1) assms(1) by (auto simp: tn_wf_def)
    moreover have "k \<in> set (map sp_id S)" using that(1) ids(1) by (metis fst_conv image_eqI image_set mset_eq_setD recompute_keys)
    ultimately obtain p where p: "p \<in> set S" "sp_id p = k" by auto
    obtain q1 where "map_of (tn_participants ?st) k = Some q1" "sp_core p = sp_core q1" using standings_byes [OF wf S p(1)] p(2) by auto
    moreover from this obtain q2 where "map_of (tn_participants st) k = Some q2" "sp_core q1 = sp_core q2"
      using map_of_core [OF recompute_core] by blast
    ultimately have "sp_byes p = 0" using \<open>map_of (tn_participants st) k = Some q\<close> that(2) sp_core_fields(2) by (metis option.inject)
    then have b: "sp_byes (S ! bye_index S) = 0" using bye_index_fair [OF ids(3)] p(1) by blast
    have mem: "S ! bye_index S \<in> set S" using bye_index_bound [OF ids(3)] by simp
    obtain q3 where "map_of (tn_participants ?st) (sp_id (S ! bye_index S)) = Some q3" "sp_core (S ! bye_index S) = sp_core q3"
      using standings_byes [OF wf S mem] by auto
    then show ?thesis using b map_of_core [OF recompute_core] sp_core_fields(2) by metis
  qed
  have "length (tn_participants ?st) = length (tn_participants st)" by (metis length_map recompute_keys)
  then show ?thesis using pl fair by auto
qed

section \<open>Repeats are a last resort\<close>

lemma number_matchups_pair:
  "m \<in> set (number_matchups st n pairs) \<Longrightarrow> mu_away m = Some b \<Longrightarrow>
   \<exists>(p, q) \<in> set pairs. mu_home m = sp_id p \<and> b = sp_id q"
  by (force simp: number_matchups_def open_matchup_def dest: set_zip_leftD)

lemma mset_map_lookup:
  assumes "distinct (map sp_id A)" "mset ids = mset (map sp_id A)"
  shows "mset (map (\<lambda>i. the (find (\<lambda>p. sp_id p = i) A)) ids) = mset A"
proof -
  have "mset (map (\<lambda>i. the (find (\<lambda>p. sp_id p = i) A)) ids)
      = mset (map (\<lambda>i. the (find (\<lambda>p. sp_id p = i) A)) (map sp_id A))"
    using assms(2) by (metis mset_map)
  also have "map (\<lambda>i. the (find (\<lambda>p. sp_id p = i) A)) (map sp_id A) = A"
    using find_unique [OF assms(1)] by (auto intro!: map_idI)
  finally show ?thesis .
qed

lemma flatten_map: "flatten (map (map_prod f f) pairs) = map f (flatten pairs)"
  by (induction pairs) auto

text \<open>If the bracket pairing repeats a matchup, every pairing of the same players by id does.\<close>

lemma repeat_forced:
  assumes dist: "distinct (map sp_id A)"
    and rep: "(p, q) \<in> set (pairByScoreBrackets A)" "sp_id q \<in> set (sp_opponentsFaced p)"
    and Q: "mset (flatten Q) = mset (map sp_id A)"
    and F: "\<And>p. p \<in> set A \<Longrightarrow> F (sp_id p) = sp_opponentsFaced p"
  shows "\<exists>(x, y) \<in> set Q. y \<in> set (F x) \<or> x \<in> set (F y)"
proof -
  let ?g = "\<lambda>i. the (find (\<lambda>p. sp_id p = i) A)"
  let ?P = "map (map_prod ?g ?g) Q"
  have "solveBacktrackPairings A = None"
    using rep backtrack_sound by (fastforce simp: pairByScoreBrackets_def split: option.splits)
  moreover have "perfect_pairing A ?P"
    unfolding perfect_pairing_def flatten_map by (rule mset_map_lookup [OF dist Q])
  ultimately obtain a b where ab: "(a, b) \<in> set ?P" "met a b" using backtrack_complete by blast
  then obtain x y where xy: "(x, y) \<in> set Q" "a = ?g x" "b = ?g y" by auto
  have "x \<in> set (flatten Q)" "y \<in> set (flatten Q)" using xy(1) by (auto simp: flatten_def)
  then have "x \<in> sp_id ` set A" "y \<in> sp_id ` set A" using Q by (metis image_set set_mset_mset)+
  then have "a \<in> set A" "sp_id a = x" "b \<in> set A" "sp_id b = y"
    using find_unique [OF dist] xy by auto
  then have "y \<in> set (F x) \<or> x \<in> set (F y)" using ab(2) F [of a] F [of b] by (auto simp: met_def)
  then show ?thesis using xy(1) by blast
qed

text \<open>
  C34. From the second round on a matchup is repeated only if it has to be: if some generated matchup
  has been played before, then every pairing of the players who do not have the bye repeats one.
\<close>

theorem repeats_only_if_unavoidable:
  assumes "tn_wf st" and "generateNextRound lc st gw = (Inr r, st')" and "tn_currentRound st \<ge> 1"
    and "m \<in> set (rd_matchups r)" and "mu_away m = Some b" and "b \<in> set (faced_by st (mu_home m))"
    and "mset (flatten Q) = mset (players_of (filter (\<lambda>m. mu_away m \<noteq> None) (rd_matchups r)))"
  shows "\<exists>(x, y) \<in> set Q. y \<in> set (faced_by st x) \<or> x \<in> set (faced_by st y)"
proof -
  let ?st = "recomputeStandingsAndTieBreakers lc st" and ?n = "tn_currentRound st + 1"
  obtain st2 where c: "computePairings lc ?st ?n = (rd_matchups r, st2)" by (rule generateNextRound_ok [OF assms(2)])
  obtain S st1 where S: "getStandings lc ?st = (S, st1)" by (cases "getStandings lc ?st")
  have wf: "tn_wf ?st" using assms(1) by simp
  note ids = standings_ids [OF wf S]
  obtain A byes pairs where p: "rd_matchups r = byes @ number_matchups ?st ?n pairs" "even (length A)" "perfect_pairing A pairs"
    "pairs = (if ?n = 1 then round_one_pairs A else pairByScoreBrackets A)"
    "odd (length S) \<longrightarrow> byes = [bye_matchup ?st ?n (S ! bye_index S)] \<and> A = remove_at (bye_index S) S \<and>
       st2 = st1\<lparr>tn_participants := update_participant (sp_id (S ! bye_index S)) (give_bye ?n) (tn_participants st1)\<rparr>"
    "even (length S) \<longrightarrow> byes = [] \<and> A = S \<and> st2 = st1"
    by (rule computePairings_parts [OF wf c S])
  have pairs: "pairs = pairByScoreBrackets A" using p(4) assms(3) by simp
  have byes: "\<forall>m \<in> set byes. mu_away m = None" using p(5,6) by (cases "odd (length S)") (auto simp: bye_matchup_def)
  have "A = S \<or> A = remove_at (bye_index S) S" using p(5,6) by blast
  then have AS: "set A \<subseteq> set S" "distinct (map sp_id A)"
    using ids(2) set_remove_at [of "bye_index S" S] distinct_map_remove_at [of sp_id S] by blast+
  have faced: "faced_by st (sp_id p) = sp_opponentsFaced p" if "p \<in> set A" for p
  proof -
    have "map_of (tn_participants st1) (sp_id p) = Some p" using ids(4) AS(1) that by blast
    moreover have "st1 = recomputeStandingsAndTieBreakers lc ?st" using S by (simp add: getStandings_def Let_def)
    ultimately have "faced_by (recomputeStandingsAndTieBreakers lc ?st) (sp_id p) = sp_opponentsFaced p"
      by (simp add: faced_by_def del: faced_by_recompute)
    then show ?thesis by simp
  qed
  have "filter (\<lambda>m. mu_away m \<noteq> None) (rd_matchups r) = number_matchups ?st ?n pairs"
    using p(1) byes number_matchups_away by (auto simp: filter_empty_conv filter_id_conv)
  then have Q: "mset (flatten Q) = mset (map sp_id A)"
    using assms(7) perfect_ids [OF p(3)] by (simp add: players_of_numbered)
  have "m \<in> set (number_matchups ?st ?n pairs)" using assms(4,5) p(1) byes by auto
  then obtain u v where uv: "(u, v) \<in> set pairs" "mu_home m = sp_id u" "b = sp_id v"
    using number_matchups_pair [OF _ assms(5)] by blast
  have "u \<in> set (flatten pairs)" using uv(1) by (auto simp: flatten_def)
  then have "u \<in> set A" using p(3) by (metis perfect_pairing_def set_mset_mset)
  then have rep: "sp_id v \<in> set (sp_opponentsFaced u)" using assms(6) uv(2,3) faced [of u] by simp
  have "(u, v) \<in> set (pairByScoreBrackets A)" using uv(1) pairs by simp
  from repeat_forced [where F = "faced_by st", OF AS(2) this rep Q faced] show ?thesis .
qed

section \<open>Standings do not depend on the order of insertion\<close>

lemma comparator_on: "comparator c \<Longrightarrow> comparator (\<lambda>a b. c (f a) (f b))"
  unfolding comparator_def by (elim conjE) (intro conjI allI impI; blast)

lemma comparator_swiss: "comparator lc \<Longrightarrow> comparator (swiss_order lc)"
  unfolding swiss_order_def by (intro comparator_js_or comparator_asc comparator_desc) (rule comparator_on)

lemma swiss_order_rank: "swiss_order lc (p\<lparr>sp_rank := i\<rparr>) (q\<lparr>sp_rank := j\<rparr>) = swiss_order lc p q"
  by (simp add: swiss_order_def js_or_def asc_def desc_def)

interpretation ranking: comparator by_rank
  unfolding by_rank_def by (rule comparator_asc)

definition tie_broken :: "tournament \<Rightarrow> participant list" where
  "tie_broken st = map (tie_breaks (tn_participants st) \<circ> snd) (tn_participants st)"

definition ranked :: "participant list \<Rightarrow> participant list" where
  "ranked R = map (\<lambda>p. p\<lparr>sp_rank := position_in R p\<rparr>) R"

lemma find_idx_distinct: "distinct (map f xs) \<Longrightarrow> i < length xs \<Longrightarrow> find_idx (\<lambda>x. f x = f (xs ! i)) xs = Some i"
proof (induction xs arbitrary: i)
  case (Cons x xs)
  then show ?case by (cases i) (auto simp: nth_eq_iff_index_eq)
qed simp

lemma ranked_ranks: "distinct (map sp_id R) \<Longrightarrow> map sp_rank (ranked R) = [1..<Suc (length R)]"
  by (rule nth_equalityI) (simp_all add: ranked_def position_in_def find_idx_distinct del: upt_Suc)

lemma tie_broken_ids: "tn_wf st \<Longrightarrow> map sp_id (tie_broken st) = map fst (tn_participants st)"
  by (auto simp: tie_broken_def tie_breaks_def tn_wf_def)

lemma standings_ranked:
  assumes "tn_wf st"
  shows "fst (getStandings lc st) = ranked (js_sort (swiss_order lc) (tie_broken st))"
proof -
  let ?R = "js_sort (swiss_order lc) (tie_broken st)"
  let ?f = "\<lambda>p. p\<lparr>sp_rank := position_in ?R p\<rparr>"
  have "mset (map sp_id ?R) = mset (map fst (tn_participants st))"
    using tie_broken_ids [OF assms, THEN arg_cong [where f = mset]] by simp
  then have dR: "distinct (map sp_id ?R)" using assms by (metis mset_eq_imp_distinct_iff tn_wf_def)
  have ranks: "map sp_rank (ranked ?R) = [1..<Suc (length ?R)]" by (rule ranked_ranks [OF dR])
  have "fst (getStandings lc st) = js_sort by_rank (map ?f (tie_broken st))"
    by (simp add: getStandings_def recomputeStandingsAndTieBreakers_def Let_def tie_broken_def case_prod_beta o_def)
  also have "\<dots> = js_sort by_rank (ranked ?R)"
  proof (rule ranking.js_sort_unique)
    show "mset (map ?f (tie_broken st)) = mset (ranked ?R)" by (simp add: ranked_def)
    fix x y assume xy: "x \<in> set (map ?f (tie_broken st))" "y \<in> set (map ?f (tie_broken st))" "by_rank x y = 0"
    then have "x \<in> set (ranked ?R)" "y \<in> set (ranked ?R)" by (auto simp: ranked_def)
    moreover have "inj_on sp_rank (set (ranked ?R))" using ranks by (metis distinct_map distinct_upt)
    ultimately show "x = y" using xy(3) by (auto simp: by_rank_def cmp_zero_simps inj_on_def)
  qed
  also have "\<dots> = ranked ?R"
  proof (rule ranking.js_sort_id)
    have "sorted_wrt (\<le>) (map sp_rank (ranked ?R))" unfolding ranks by (rule sorted_upt)
    then show "sorted_wrt (\<lambda>x y. by_rank x y \<le> 0) (ranked ?R)"
      by (simp add: sorted_wrt_map by_rank_def asc_def)
  qed
  finally show ?thesis .
qed

lemma tie_breaks_cong: "map_of ps = map_of qs \<Longrightarrow> tie_breaks ps = tie_breaks qs"
proof -
  assume "map_of ps = map_of qs"
  then have opp: "opponent_points ps = opponent_points qs" by (simp add: opponent_points_def fun_eq_iff)
  then have "head_to_head ps = head_to_head qs" by (intro ext) (simp only: head_to_head_def opp)
  then show ?thesis by (intro ext) (simp only: tie_breaks_def opp)
qed

text \<open>
  The standings are a function of the participants alone: however they were inserted, the same
  participants get the same table; its ranks run from 1 to n, and it is sorted by match points,
  Buchholz, Sonneborn-Berger, points difference, points scored, seed and id, provided the locale's
  comparison is an order that tells the ids apart.
\<close>

theorem standings_deterministic:
  assumes "comparator lc" and "\<And>a b. lc a b = 0 \<Longrightarrow> a = b" and "tn_wf st"
    and "mset (tn_participants st) = mset (tn_participants st')"
  shows "fst (getStandings lc st) = fst (getStandings lc st') \<and>
    map sp_rank (fst (getStandings lc st)) = [1..<Suc (length (tn_participants st))] \<and>
    sorted_wrt (\<lambda>a b. swiss_order lc a b \<le> 0) (fst (getStandings lc st))"
proof -
  have keys: "mset (map fst (tn_participants st)) = mset (map fst (tn_participants st'))" using assms(4) by simp
  have "distinct (map fst (tn_participants st'))"
    using mset_eq_imp_distinct_iff [OF keys] assms(3) unfolding tn_wf_def by blast
  then have wf': "tn_wf st'" using assms(3) mset_eq_setD [OF assms(4)] mset_eq_length [OF assms(4)]
    by (simp add: tn_wf_def)
  have "map_of (tn_participants st) = map_of (tn_participants st')"
    using map_of_inject_set [of "tn_participants st" "tn_participants st'"] assms(3) wf' mset_eq_setD [OF assms(4)]
    by (simp add: tn_wf_def)
  then have m: "mset (tie_broken st) = mset (tie_broken st')"
    using tie_breaks_cong [of "tn_participants st" "tn_participants st'"] assms(4) by (simp add: tie_broken_def)
  have "js_sort (swiss_order lc) (tie_broken st) = js_sort (swiss_order lc) (tie_broken st')"
  proof (rule comparator.js_sort_unique [OF comparator_swiss [OF assms(1)] m])
    fix x y assume "x \<in> set (tie_broken st)" "y \<in> set (tie_broken st)" "swiss_order lc x y = 0"
    then have "sp_id x = sp_id y" using assms(2) by (simp add: swiss_order_def cmp_zero_simps)
    moreover have "distinct (map sp_id (tie_broken st))"
      using tie_broken_ids [OF assms(3)] assms(3) by (simp add: tn_wf_def)
    ultimately show "x = y" using \<open>x \<in> _\<close> \<open>y \<in> _\<close> by (auto simp: distinct_map inj_on_def)
  qed
  moreover have "distinct (map sp_id (js_sort (swiss_order lc) (tie_broken st)))"
    using tie_broken_ids [OF assms(3)] assms(3) by (metis distinct_map distinct_js_sort set_js_sort tn_wf_def)
  then have "map sp_rank (ranked (js_sort (swiss_order lc) (tie_broken st))) = [1..<Suc (length (tn_participants st))]"
    using ranked_ranks by (simp add: tie_broken_def)
  moreover have "sorted_wrt (\<lambda>a b. swiss_order lc a b \<le> 0) (ranked (js_sort (swiss_order lc) (tie_broken st)))"
    using comparator.sorted_js_sort [OF comparator_swiss [OF assms(1)], of "tie_broken st"]
    by (simp add: ranked_def sorted_wrt_map swiss_order_rank)
  ultimately show ?thesis by (simp add: standings_ranked [OF assms(3)] standings_ranked [OF wf'])
qed

section \<open>The books of the tournament\<close>

definition balanced :: "participant \<Rightarrow> bool" where
  "balanced p \<longleftrightarrow> sp_matchPoints p = 3 * sp_wins p + sp_draws p \<and>
     sp_wins p + sp_draws p + sp_losses p = length (sp_matchHistory p) \<and>
     length (sp_opponentsFaced p) + sp_byes p = length (sp_matchHistory p) \<and> sp_byes p \<le> sp_wins p"

definition goal_difference :: "participant \<Rightarrow> rat" where
  "goal_difference p = sp_pointsFor p - sp_pointsAgainst p"

definition net :: "(string \<times> participant) list \<Rightarrow> rat" where
  "net ps = (\<Sum>kp\<leftarrow>ps. goal_difference (snd kp))"

definition books_ok :: "(string \<times> participant) list \<Rightarrow> bool" where
  "books_ok ps \<longleftrightarrow> (\<forall>kp \<in> set ps. balanced (snd kp)) \<and> net ps = 0"

lemma books_core: "books_ok (map (map_prod id sp_core) ps) = books_ok ps"
  by (simp add: books_ok_def net_def balanced_def goal_difference_def sp_core_def o_def)

lemma books_recompute [simp]: "books_ok (tn_participants (recomputeStandingsAndTieBreakers lc st)) = books_ok (tn_participants st)"
  using books_core recompute_core by metis

definition ids_ok :: "(string \<times> participant) list \<Rightarrow> bool" where
  "ids_ok ps \<longleftrightarrow> distinct (map fst ps) \<and> (\<forall>kp \<in> set ps. sp_id (snd kp) = fst kp \<and> fst kp \<noteq> [])"

lemma wf_iff: "tn_wf st \<longleftrightarrow> ids_ok (tn_participants st) \<and> length (tn_participants st) \<ge> 2"
  by (auto simp: tn_wf_def ids_ok_def)

lemma update_keys [simp]: "map fst (update_participant i f ps) = map fst ps"
  by (simp add: update_participant_def case_prod_beta if_distrib [where f = fst] o_def)

lemma update_length [simp]: "length (update_participant i f ps) = length ps"
  by (simp add: update_participant_def)

lemma update_ids: "ids_ok ps \<Longrightarrow> (\<And>p. sp_id (f p) = sp_id p) \<Longrightarrow> ids_ok (update_participant i f ps)"
  unfolding ids_ok_def update_keys by (fastforce simp: update_participant_def split: if_splits)

lemma update_absent: "i \<notin> fst ` set ps \<Longrightarrow> update_participant i f ps = ps"
  by (induction ps) (auto simp: update_participant_def)

lemma update_balanced:
  "\<forall>kp \<in> set ps. balanced (snd kp) \<Longrightarrow> (\<And>p. balanced p \<Longrightarrow> balanced (f p)) \<Longrightarrow>
   \<forall>kp \<in> set (update_participant i f ps). balanced (snd kp)"
  by (auto simp: update_participant_def)

lemma net_update:
  assumes "\<And>p. goal_difference (f p) = goal_difference p + c"
  shows "distinct (map fst ps) \<Longrightarrow> i \<in> fst ` set ps \<Longrightarrow> net (update_participant i f ps) = net ps + c"
proof (induction ps)
  case (Cons kp ps)
  show ?case
  proof (cases "fst kp = i")
    case True
    then have "update_participant i f ps = ps"
      using Cons.prems(1) by (intro update_absent) auto
    then show ?thesis using True assms by (cases kp) (simp add: update_participant_def net_def)
  next
    case False
    then have "net (update_participant i f ps) = net ps + c" using Cons by auto
    then show ?thesis using False by (cases kp) (simp add: update_participant_def net_def)
  qed
qed simp

lemma record_points_facts [simp]:
  "sp_id (record_points a b p) = sp_id p" "balanced (record_points a b p) = balanced p"
  "goal_difference (record_points a b p) = goal_difference p + (a - b)"
  by (simp_all add: record_points_def balanced_def goal_difference_def)

lemma record_outcome_facts [simp]:
  "sp_id (record_outcome n o' r a b p) = sp_id p"
  "goal_difference (record_outcome n o' r a b p) = goal_difference p"
  by (simp_all add: record_outcome_def goal_difference_def)

lemma record_outcome_balanced: "balanced p \<Longrightarrow> balanced (record_outcome n opp (outcome a b) a b p)"
  by (auto simp: record_outcome_def balanced_def outcome_def)

lemma give_bye_facts [simp]:
  "sp_id (give_bye n p) = sp_id p" "goal_difference (give_bye n p) = goal_difference p"
  by (simp_all add: give_bye_def goal_difference_def)

lemma give_bye_balanced: "balanced p \<Longrightarrow> balanced (give_bye n p)"
  by (auto simp: give_bye_def balanced_def)

lemma players_of_update:
  "i < length ms \<Longrightarrow> mu_home m = mu_home (ms ! i) \<Longrightarrow> mu_away m = mu_away (ms ! i) \<Longrightarrow> players_of (ms[i := m]) = players_of ms"
  by (simp add: players_of_def map_update_same)

lemma locate_away:
  assumes "locate ms res = Some (i, sw)" "rr_away res \<noteq> None"
  shows "i < length ms \<and> (\<exists>a. mu_away (ms ! i) = Some a)"
  using assms by (auto simp: locate_def split: option.splits dest!: find_idx_SomeD)

lemma player_of_mem:
  "i < length ms \<Longrightarrow> mu_home (ms ! i) \<in> set (players_of ms)"
  "i < length ms \<Longrightarrow> mu_away (ms ! i) = Some a \<Longrightarrow> a \<in> set (players_of ms)"
  by (force simp: players_of_def dest: nth_mem)+

text \<open>What the loop of \<open>submitRoundResults\<close> keeps: keys, ids, the players of the round and the books.\<close>

definition loop_inv :: "matchup list \<Rightarrow> string list \<Rightarrow> matchup list \<times> (string \<times> participant) list \<Rightarrow> bool" where
  "loop_inv ms0 keys mp \<longleftrightarrow> players_of (fst mp) = players_of ms0 \<and> map fst (snd mp) = keys \<and> ids_ok (snd mp) \<and> books_ok (snd mp)"

lemma apply_result_inv:
  assumes inv: "loop_inv ms0 keys (ms, ps)" and refs: "set (players_of ms0) \<subseteq> set keys" and away: "rr_away res \<noteq> None"
  shows "loop_inv ms0 keys (apply_result n (ms, ps) res)"
proof (cases "locate ms res")
  case None
  then show ?thesis using inv by (simp add: apply_result_def)
next
  case (Some loc)
  obtain i sw where loc: "loc = (i, sw)" by (cases loc)
  obtain a where i: "i < length ms" "mu_away (ms ! i) = Some a"
    using locate_away [OF _ away, of ms i sw] Some loc by auto
  define hs where "hs = score_value (if sw then rr_awayScore res else rr_homeScore res)"
  define as where "as = score_value (if sw then rr_homeScore res else rr_awayScore res)"
  have keys: "set (map fst ps) = set keys" and ids: "ids_ok ps" and books: "books_ok ps" and pl: "players_of ms = players_of ms0"
    using inv by (auto simp: loop_inv_def)
  have mem: "mu_home (ms ! i) \<in> fst ` set ps" "a \<in> fst ` set ps"
    using player_of_mem [OF i(1)] i(2) pl refs keys by auto
  then obtain home away where ha: "map_of ps (mu_home (ms ! i)) = Some home" "map_of ps a = Some away"
    by (metis map_of_eq_None_keys not_None_eq set_map)
  have "a \<noteq> []" using mem(2) ids by (auto simp: ids_ok_def)
  define f where "f = record_points hs as"
  define g where "g = record_outcome n (sp_id away) (outcome hs as) hs as"
  define h where "h = record_outcome n (sp_id home) (outcome as hs) as hs \<circ> record_points as hs"
  let ?ps = "update_participant a h (update_participant (mu_home (ms ! i)) g (update_participant (mu_home (ms ! i)) f ps))"
  define m where "m = (ms ! i)\<lparr>mu_homeScore := Some hs, mu_awayScore := Some as, mu_isFinished := True,
      mu_winnerId := Some (winner_of hs as (sp_id home) (sp_id away))\<rparr>"
  have res: "apply_result n (ms, ps) res = (ms[i := m], ?ps)"
    using Some loc i ha \<open>a \<noteq> []\<close> by (simp add: apply_result_def Let_def hs_def as_def f_def g_def h_def m_def)
  have "net ?ps = net ps + (hs - as) + 0 + (as - hs)"
    using ids mem by (simp add: net_update [where c = "as - hs"] net_update [where c = 0] net_update [where c = "hs - as"]
        f_def g_def h_def ids_ok_def flip: set_map)
  moreover have "\<forall>kp \<in> set ?ps. balanced (snd kp)"
    using books by (intro update_balanced) (auto simp: books_ok_def f_def g_def h_def record_outcome_balanced)
  ultimately have "books_ok ?ps" using books by (simp add: books_ok_def)
  moreover have "ids_ok ?ps" using ids by (intro update_ids) (simp_all add: f_def g_def h_def)
  moreover have "players_of (ms[i := m]) = players_of ms" using i by (intro players_of_update) (simp_all add: m_def)
  ultimately show ?thesis using res pl inv by (simp add: loop_inv_def)
qed

lemma apply_results_inv:
  "\<forall>r \<in> set rs. rr_away r \<noteq> None \<Longrightarrow> set (players_of ms0) \<subseteq> set keys \<Longrightarrow> loop_inv ms0 keys mp \<Longrightarrow>
   loop_inv ms0 keys (foldl (apply_result n) mp rs)"
proof (induction rs arbitrary: mp)
  case (Cons r rs)
  then show ?case using apply_result_inv [of ms0 keys "fst mp" "snd mp" r n] by simp
qed simp

lemma check_results_away: "check_results expected submitted rs = Inr ks \<Longrightarrow> \<forall>r \<in> set rs. rr_away r \<noteq> None"
  by (induction expected submitted rs rule: check_results.induct) (auto simp: Let_def split: option.splits if_splits)

section \<open>Reachable tournaments\<close>

inductive reachable :: "(string \<Rightarrow> string \<Rightarrow> rat) \<Rightarrow> tournament \<Rightarrow> bool" for lc where
  start: "new_engine now options = Inr st \<Longrightarrow> reachable lc st"
| standings: "reachable lc st \<Longrightarrow> getStandings lc st = (S, st') \<Longrightarrow> reachable lc st'"
| round: "reachable lc st \<Longrightarrow> generateNextRound lc st gw = (res, st') \<Longrightarrow> reachable lc st'"
| submit: "reachable lc st \<Longrightarrow> submitRoundResults lc st n results = Inr st' \<Longrightarrow> reachable lc st'"

definition refs_ok :: "tournament \<Rightarrow> bool" where
  "refs_ok st \<longleftrightarrow> (\<forall>r \<in> set (tn_rounds st). set (players_of (rd_matchups r)) \<subseteq> set (map fst (tn_participants st)))"

text \<open>
  The life cycle: rounds are numbered consecutively, at most the last one is open and only while the
  status is \<open>ROUND_ACTIVE\<close>, the tournament is completed exactly when the last planned round is.
\<close>

definition lifecycle_ok :: "tournament \<Rightarrow> bool" where
  "lifecycle_ok st \<longleftrightarrow>
     length (tn_rounds st) = tn_currentRound st \<and> tn_currentRound st \<le> tn_totalRounds st \<and> 1 \<le> tn_totalRounds st \<and>
     (\<forall>i < tn_currentRound st. rd_roundNumber (tn_rounds st ! i) = i + 1 \<and>
        (rd_isFinished (tn_rounds st ! i) \<longleftrightarrow> i + 1 < tn_currentRound st \<or> tn_status st \<noteq> ROUND_ACTIVE)) \<and>
     (tn_status st = CREATED \<longleftrightarrow> tn_currentRound st = 0) \<and>
     (tn_status st = TOURNAMENT_COMPLETED \<longleftrightarrow> tn_currentRound st = tn_totalRounds st \<and> tn_status st \<noteq> ROUND_ACTIVE)"

definition tn_inv :: "tournament \<Rightarrow> bool" where
  "tn_inv st \<longleftrightarrow> tn_wf st \<and> books_ok (tn_participants st) \<and> refs_ok st \<and> lifecycle_ok st"

lemma trim_nonempty: "trim_ws s \<noteq> [] \<Longrightarrow> s \<noteq> []"
  by (auto simp: trim_ws_def)

lemma new_engine_inv:
  assumes "new_engine now options = Inr st"
  shows "tn_inv st"
proof -
  let ?es = "so_participants options"
  let ?ps = "map (\<lambda>(e, idx). (en_id e, new_participant idx e)) (zip ?es [0..<length ?es])"
  have ok: "length ?es \<ge> 2" "length (js_unique (map en_id ?es)) = length ?es" "\<forall>e \<in> set ?es. trim_ws (en_id e) \<noteq> []"
    and st: "tn_participants st = js_map ?ps" "tn_rounds st = []" "tn_currentRound st = 0" "tn_status st = CREATED"
    and tot: "1 \<le> tn_totalRounds st"
    using assms by (auto simp: new_engine_def Let_def list_ex_iff le_nat_iff le_floor_iff split: if_splits)
  have keys: "map fst ?ps = map en_id ?es" by (rule nth_equalityI) auto
  have "distinct (map en_id ?es)"
    using ok(2) by (metis card_distinct distinct_card distinct_js_unique length_map set_js_unique)
  then have ps: "tn_participants st = ?ps" using js_map_distinct_id [of ?ps] keys st(1) by simp
  have fresh: "sp_id (snd kp) = fst kp \<and> fst kp \<noteq> [] \<and> balanced (snd kp) \<and> goal_difference (snd kp) = 0"
    if "kp \<in> set ?ps" for kp
    using that ok(3) trim_nonempty
    by (auto simp: new_participant_def balanced_def goal_difference_def dest!: set_zip_leftD)
  have "ids_ok ?ps" using \<open>distinct (map en_id ?es)\<close> fresh unfolding ids_ok_def keys by blast
  moreover have "map (\<lambda>kp. goal_difference (snd kp)) ?ps = map (\<lambda>_. 0) ?ps"
    by (rule map_cong [OF refl]) (use fresh in blast)
  then have "net ?ps = 0" unfolding net_def by (simp only: sum_list_0)
  then have "books_ok ?ps" using fresh unfolding books_ok_def by blast
  ultimately show ?thesis using ps st ok(1) tot by (simp add: tn_inv_def wf_iff refs_ok_def lifecycle_ok_def)
qed

lemma recompute_inv: "tn_inv st \<Longrightarrow> tn_inv (recomputeStandingsAndTieBreakers lc st)"
  by (simp add: tn_inv_def refs_ok_def lifecycle_ok_def flip: set_map)

lemma computePairings_inv:
  assumes "tn_inv st" "computePairings lc st n = (ms, st2)"
  shows "tn_wf st2" "books_ok (tn_participants st2)" "map fst (tn_participants st2) = map fst (tn_participants st)"
    "tn_rounds st2 = tn_rounds st" "tn_currentRound st2 = tn_currentRound st" "tn_totalRounds st2 = tn_totalRounds st"
    "set (players_of ms) \<subseteq> set (map fst (tn_participants st))"
proof -
  obtain S st1 where S: "getStandings lc st = (S, st1)" by (cases "getStandings lc st")
  have st1: "st1 = recomputeStandingsAndTieBreakers lc st" using S by (simp add: getStandings_def Let_def)
  have wf: "tn_wf st" and books: "books_ok (tn_participants st)" using assms(1) by (simp_all add: tn_inv_def)
  have "mset (players_of ms) = mset (map fst (tn_participants st))" using computePairings_players [OF wf assms(2) S] by blast
  then show "set (players_of ms) \<subseteq> set (map fst (tn_participants st))" by (metis mset_eq_setD order_refl)
  have st2: "st2 = st1 \<or> st2 = st1\<lparr>tn_participants := update_participant (sp_id (S ! bye_index S)) (give_bye n) (tn_participants st1)\<rparr>"
    using computePairings_parts [OF wf assms(2) S] by metis
  have ids: "ids_ok (tn_participants st1)" "length (tn_participants st1) \<ge> 2"
    using wf_recompute [of lc st] wf unfolding wf_iff st1 by auto
  let ?u = "update_participant (sp_id (S ! bye_index S)) (give_bye n) (tn_participants st1)"
  have "S ! bye_index S \<in> set S" using bye_index_bound [OF standings_ids(3) [OF wf S]] by simp
  then have "sp_id (S ! bye_index S) \<in> fst ` set (tn_participants st1)"
    using standings_ids(4) [OF wf S] by (metis fst_conv image_eqI map_of_SomeD)
  then have "net ?u = net (tn_participants st1) + 0" using ids(1) by (intro net_update) (simp_all add: ids_ok_def)
  moreover have books1: "books_ok (tn_participants st1)" using books st1 by simp
  then have "\<forall>kp \<in> set ?u. balanced (snd kp)"
    by (intro update_balanced give_bye_balanced) (auto simp: books_ok_def)
  ultimately have bu: "books_ok ?u" using books1 by (simp add: books_ok_def)
  have iu: "ids_ok ?u" using ids(1) by (intro update_ids) simp_all
  from st2 show "tn_wf st2" using ids iu by (auto simp: wf_iff)
  from st2 show "books_ok (tn_participants st2)" using bu books st1 by auto
  from st2 show "map fst (tn_participants st2) = map fst (tn_participants st)" using st1 by auto
  from st2 show "tn_rounds st2 = tn_rounds st" "tn_currentRound st2 = tn_currentRound st" "tn_totalRounds st2 = tn_totalRounds st"
    using st1 by auto
qed

lemma generate_inv:
  assumes "tn_inv st" "generateNextRound lc st gw = (res, st')"
  shows "tn_inv st'"
proof (cases res)
  case (Inl e)
  have "getCurrentRound st = Some (tn_rounds st ! (tn_currentRound st - 1))"
    if "tn_status st = ROUND_ACTIVE"
    using assms(1) that by (auto simp: tn_inv_def lifecycle_ok_def getCurrentRound_def)
  moreover have "\<not> rd_isFinished (tn_rounds st ! (tn_currentRound st - 1))" if "tn_status st = ROUND_ACTIVE"
    using assms(1) that by (auto simp: tn_inv_def lifecycle_ok_def)
  ultimately have "st' = st \<or> st' = st\<lparr>tn_status := TOURNAMENT_COMPLETED\<rparr> \<and> tn_totalRounds st \<le> tn_currentRound st \<and> tn_status st \<noteq> ROUND_ACTIVE"
    using assms(2) Inl by (auto simp: generateNextRound_def Let_def split: if_splits prod.splits)
  moreover have "tn_status st = TOURNAMENT_COMPLETED" if "tn_totalRounds st \<le> tn_currentRound st" "tn_status st \<noteq> ROUND_ACTIVE"
    using assms(1) that by (simp add: tn_inv_def lifecycle_ok_def)
  ultimately have "st' = st" by (metis (no_types, lifting) tournament.surjective tournament.update_convs(5))
  then show ?thesis using assms(1) by simp
next
  case (Inr r)
  obtain st2 where c: "computePairings lc (recomputeStandingsAndTieBreakers lc st) (tn_currentRound st + 1) = (rd_matchups r, st2)"
    and st': "st' = st2\<lparr>tn_rounds := tn_rounds st2 @ [r], tn_currentRound := tn_currentRound st + 1, tn_status := ROUND_ACTIVE\<rparr>"
    and r: "rd_roundNumber r = tn_currentRound st + 1" "\<not> rd_isFinished r" "tn_currentRound st < tn_totalRounds st"
    by (rule generateNextRound_ok [OF assms(2) [unfolded Inr]])
  note ci = computePairings_inv [OF recompute_inv [OF assms(1), of lc] c]
  have active: "tn_status st \<noteq> ROUND_ACTIVE"
    using assms Inr by (auto simp: generateNextRound_def Let_def tn_inv_def lifecycle_ok_def getCurrentRound_def split: if_splits)
  have "lifecycle_ok st'" using assms(1) r ci active st'
    by (auto simp: tn_inv_def lifecycle_ok_def nth_append)
  moreover have "refs_ok st'" using assms(1) ci(3,4,7) st' by (auto simp: tn_inv_def refs_ok_def)
  ultimately show ?thesis using ci(1,2) st' by (simp add: tn_inv_def wf_iff)
qed

lemma submit_inv:
  assumes "tn_inv st" "submitRoundResults lc st n results = Inr st'"
  shows "tn_inv st'"
proof -
  obtain rnd ks where act: "tn_status st = ROUND_ACTIVE" "tn_currentRound st = n" and rnd: "getCurrentRound st = Some rnd"
    and chk: "check_results (expected_keys (rd_matchups rnd)) [] results = Inr ks"
    using assms(2) by (auto simp: submitRoundResults_def split: if_splits option.splits)
  obtain ms ps where fold: "foldl (apply_result n) (rd_matchups rnd, tn_participants st) results = (ms, ps)"
    by (cases "foldl (apply_result n) (rd_matchups rnd, tn_participants st) results")
  define st1 where "st1 = st\<lparr>tn_rounds := (tn_rounds st)[n - 1 := rnd\<lparr>rd_matchups := ms, rd_isFinished := True\<rparr>], tn_participants := ps\<rparr>"
  have st': "st' = (recomputeStandingsAndTieBreakers lc st1)\<lparr>tn_status :=
      (if tn_currentRound st \<ge> tn_totalRounds st then TOURNAMENT_COMPLETED else ROUND_COMPLETED)\<rparr>"
    using assms(2) act rnd chk fold by (auto simp: submitRoundResults_def Let_def st1_def)
  have cur: "n - 1 < length (tn_rounds st)" "rnd = tn_rounds st ! (n - 1)" "0 < n"
    using rnd act by (auto simp: getCurrentRound_def split: if_splits)
  then have "rnd \<in> set (tn_rounds st)" by simp
  then have refs: "set (players_of (rd_matchups rnd)) \<subseteq> set (map fst (tn_participants st))"
    using assms(1) by (auto simp: tn_inv_def refs_ok_def)
  have "loop_inv (rd_matchups rnd) (map fst (tn_participants st)) (rd_matchups rnd, tn_participants st)"
    using assms(1) by (simp add: loop_inv_def tn_inv_def wf_iff)
  from apply_results_inv [OF check_results_away [OF chk] refs this, of n]
  have inv: "players_of ms = players_of (rd_matchups rnd)" "map fst ps = map fst (tn_participants st)" "ids_ok ps" "books_ok ps"
    unfolding fold by (simp_all add: loop_inv_def)
  have len: "length ps = length (tn_participants st)" using inv(2) by (metis length_map)
  have "refs_ok st'"
    using assms(1) refs inv(1,2) unfolding st' refs_ok_def tn_inv_def
    by (auto simp: st1_def refs_ok_def simp flip: set_map dest!: set_update_subset_insert [THEN subsetD])
  moreover have "lifecycle_ok st'"
    using assms(1) act cur unfolding st' tn_inv_def lifecycle_ok_def
    by (auto simp: st1_def nth_list_update)
  moreover have "tn_wf st1" using assms(1) inv(3) len by (simp add: st1_def wf_iff tn_inv_def)
  then have "tn_wf st'" using wf_recompute [of lc st1] unfolding st' wf_iff by simp
  ultimately show ?thesis using inv(4) books_recompute [of lc st1] by (simp add: tn_inv_def st' st1_def)
qed

lemma reachable_inv: "reachable lc st \<Longrightarrow> tn_inv st"
proof (induction rule: reachable.induct)
  case (standings st S st')
  then show ?case using recompute_inv by (auto simp: getStandings_def Let_def)
qed (blast intro: new_engine_inv generate_inv submit_inv)+

text \<open>
  C33. The books of a tournament always balance: however rounds are generated, results submitted and
  standings read, each participant has three match points per win (a bye counts as one) and one per
  draw, as many history entries as results and as many as opponents plus byes, and the fantasy points
  scored by all participants together equal the points conceded.
\<close>

theorem swiss_books_balance:
  assumes "reachable lc st"
  shows "(\<forall>(k, p) \<in> set (tn_participants st). sp_matchPoints p = 3 * sp_wins p + sp_draws p \<and>
      sp_wins p + sp_draws p + sp_losses p = length (sp_matchHistory p) \<and>
      length (sp_opponentsFaced p) + sp_byes p = length (sp_matchHistory p)) \<and>
    (\<Sum>(k, p)\<leftarrow>tn_participants st. sp_pointsFor p - sp_pointsAgainst p) = 0"
  using reachable_inv [OF assms]
  by (auto simp: tn_inv_def books_ok_def balanced_def net_def goal_difference_def case_prod_unfold)

text \<open>
  The round life cycle: rounds are numbered 1, 2, ... without gaps and never exceed the planned
  number; only the last round can be open, and it is exactly while the status is \<open>ROUND_ACTIVE\<close>; the
  tournament is completed exactly when its last planned round has its results.
\<close>

theorem swiss_lifecycle:
  assumes "reachable lc st"
  shows "lifecycle_ok st \<and> (tn_status st = ROUND_ACTIVE \<longrightarrow> (\<exists>r. getCurrentRound st = Some r \<and> \<not> rd_isFinished r))"
  using reachable_inv [OF assms] by (auto simp: tn_inv_def lifecycle_ok_def getCurrentRound_def)

section \<open>An example tournament\<close>

text \<open>Two players and two rounds: the second round has to repeat the first.\<close>

definition demo_options :: "string list \<Rightarrow> swiss_options" where
  "demo_options ids = \<lparr>so_id = Some ''t'', so_leagueId = ''l'',
     so_participants = map (\<lambda>i. \<lparr>en_id = i, en_name = None, en_seed = None\<rparr>) ids, so_totalRounds = Some 2\<rparr>"

definition demo_start :: "string list \<Rightarrow> tournament" where
  "demo_start ids = projr (new_engine 0 (demo_options ids))"

definition demo_round1 :: "string list \<Rightarrow> tournament" where
  "demo_round1 ids = snd (generateNextRound str_cmp (demo_start ids) 7)"

definition demo_results :: "round_result list" where
  "demo_results = [\<lparr>rr_home = ''b'', rr_away = Some ''a'', rr_homeScore = Some 40, rr_awayScore = Some 51\<rparr>]"

definition demo_done1 :: tournament where
  "demo_done1 = projr (submitRoundResults str_cmp (demo_round1 [''a'', ''b'']) 1 demo_results)"

definition demo_round2 :: "(swiss_error + swiss_round) \<times> tournament" where
  "demo_round2 = generateNextRound str_cmp demo_done1 8"

lemma projr_eq: "\<not> isl r \<Longrightarrow> r = Inr (projr r)"
  by (cases r) simp_all

lemma demo_start_ok:
  "new_engine 0 (demo_options [''a'', ''b'']) = Inr (demo_start [''a'', ''b''])"
  "new_engine 0 (demo_options [''a'', ''b'', ''c'']) = Inr (demo_start [''a'', ''b'', ''c''])"
  unfolding demo_start_def by (rule projr_eq, code_simp)+

lemma demo_round1_ok:
  "generateNextRound str_cmp (demo_start [''a'', ''b'', ''c'']) 7
     = (Inr (projr (fst (generateNextRound str_cmp (demo_start [''a'', ''b'', ''c'']) 7))), demo_round1 [''a'', ''b'', ''c''])"
proof -
  have "\<not> isl (fst (generateNextRound str_cmp (demo_start [''a'', ''b'', ''c'']) 7))" by code_simp
  from projr_eq [OF this] show ?thesis unfolding demo_round1_def by (metis prod.collapse)
qed

lemma demo_done1_ok: "submitRoundResults str_cmp (demo_round1 [''a'', ''b'']) 1 demo_results = Inr demo_done1"
  unfolding demo_done1_def by (rule projr_eq) code_simp

lemma demo_reachable: "reachable str_cmp (demo_start [''a'', ''b''])" "reachable str_cmp (demo_start [''a'', ''b'', ''c''])"
  "reachable str_cmp (demo_round1 [''a'', ''b''])" "reachable str_cmp demo_done1"
proof -
  show s: "reachable str_cmp (demo_start [''a'', ''b''])" "reachable str_cmp (demo_start [''a'', ''b'', ''c''])"
    by (rule reachable.start [OF demo_start_ok(1)], rule reachable.start [OF demo_start_ok(2)])
  show r: "reachable str_cmp (demo_round1 [''a'', ''b''])"
    using reachable.round [OF s(1), of 7] unfolding demo_round1_def by (metis prod.collapse)
  show "reachable str_cmp demo_done1" by (rule reachable.submit [OF r demo_done1_ok])
qed

lemma demo_wf: "tn_wf (demo_start [''a'', ''b'', ''c''])" "tn_wf demo_done1"
  using reachable_inv demo_reachable by (auto simp: tn_inv_def)

theorem round_pairs_everyone_witness:
  "\<exists>r st'. generateNextRound str_cmp (demo_start [''a'', ''b'', ''c'']) 7 = (Inr r, st') \<and>
     mset (players_of (rd_matchups r)) = mset (map fst (tn_participants (demo_start [''a'', ''b'', ''c''])))"
  using round_pairs_everyone [OF demo_wf(1) demo_round1_ok] demo_round1_ok by blast

theorem swiss_books_balance_witness:
  "(\<Sum>(k, p)\<leftarrow>tn_participants demo_done1. sp_pointsFor p - sp_pointsAgainst p) = 0 \<and>
   map (sp_matchPoints \<circ> snd) (tn_participants demo_done1) = [3, 0]"
proof -
  have "map (sp_matchPoints \<circ> snd) (tn_participants demo_done1) = [3, 0]" by code_simp
  then show ?thesis using swiss_books_balance [OF demo_reachable(4)] by blast
qed

theorem swiss_lifecycle_witness:
  "lifecycle_ok (demo_round1 [''a'', ''b'']) \<and> (\<exists>r. getCurrentRound (demo_round1 [''a'', ''b'']) = Some r \<and> \<not> rd_isFinished r)"
proof -
  have "tn_status (demo_round1 [''a'', ''b'']) = ROUND_ACTIVE" by code_simp
  then show ?thesis using swiss_lifecycle [OF demo_reachable(3)] by blast
qed

theorem standings_deterministic_witness:
  "map sp_id (fst (getStandings str_cmp demo_done1)) = [''a'', ''b''] \<and>
   map sp_rank (fst (getStandings str_cmp (demo_done1\<lparr>tn_participants := rev (tn_participants demo_done1)\<rparr>))) = [1, 2]"
proof -
  let ?r = "demo_done1\<lparr>tn_participants := rev (tn_participants demo_done1)\<rparr>"
  have "mset (tn_participants demo_done1) = mset (tn_participants ?r)" by simp
  from standings_deterministic [OF comparator_str_cmp str_cmp_zero_iff [THEN iffD1] demo_wf(2) this]
  have eq: "fst (getStandings str_cmp demo_done1) = fst (getStandings str_cmp ?r)"
    and rk: "map sp_rank (fst (getStandings str_cmp demo_done1)) = [1..<Suc (length (tn_participants demo_done1))]"
    by blast+
  have "map sp_id (fst (getStandings str_cmp demo_done1)) = [''a'', ''b'']" "length (tn_participants demo_done1) = 2"
    by code_simp+
  then show ?thesis using rk unfolding eq [symmetric] by (simp add: upt_rec)
qed

theorem backtracking_pairing_correct_witness:
  "\<exists>(a, b) \<in> set [(snd (tn_participants demo_done1 ! 0), snd (tn_participants demo_done1 ! 1))]. met a b"
proof -
  let ?ps = "map snd (tn_participants demo_done1)"
  have "solveBacktrackPairings ?ps = None" "length (tn_participants demo_done1) = 2" by code_simp+
  moreover have "perfect_pairing ?ps [(snd (tn_participants demo_done1 ! 0), snd (tn_participants demo_done1 ! 1))]"
    using calculation(2) by (auto simp: perfect_pairing_def length_Suc_conv numeral_2_eq_2)
  ultimately show ?thesis using backtracking_pairing_correct [of ?ps] by blast
qed

theorem repeats_only_if_unavoidable_witness:
  "\<exists>(x, y) \<in> set [(''b'', ''a'')]. y \<in> set (faced_by demo_done1 x) \<or> x \<in> set (faced_by demo_done1 y)"
proof -
  define r where "r = projr (fst demo_round2)"
  have "\<not> isl (fst demo_round2)" by code_simp
  then have g: "generateNextRound str_cmp demo_done1 8 = (Inr r, snd demo_round2)"
    using projr_eq unfolding r_def demo_round2_def by (metis prod.collapse)
  have ms: "map (\<lambda>m. (mu_home m, mu_away m)) (rd_matchups r) = [(''a'', Some ''b'')]" unfolding r_def by code_simp
  then obtain m where m: "rd_matchups r = [m]" "mu_home m = ''a''" "mu_away m = Some ''b''" by auto
  have cur: "1 \<le> tn_currentRound demo_done1" "''b'' \<in> set (faced_by demo_done1 ''a'')" by code_simp+
  show ?thesis
    by (rule repeats_only_if_unavoidable [OF demo_wf(2) g cur(1), of m "''b''"])
      (use m cur(2) in \<open>simp_all add: players_of_def add_mset_commute\<close>)
qed

end
