(* ===== verification/Squad_Service.thy ===== *)
theory Squad_Service
  imports Scoring
begin

text \<open>
  Squad management, \<open>backend/src/services/squad/squadService.ts\<close>: transfer accounting, creating and
  updating a squad, and playing, cancelling and reverting chips, on an explicit database.

  The database is a record of its tables; \<open>findUnique\<close> is \<open>find\<close> on the key, \<open>findMany\<close> is
  \<open>filter\<close>, an update maps the rows with the key. A thrown exception is \<open>Inl\<close>, which is also the
  rollback of the transaction it leaves: no database is returned, so the one before it stands. The
  unique constraints of \<open>prisma/schema.prisma\<close> that an insert can violate are checked where the
  rows are written.

  Other requests and jobs run between the statements of a request. An operation therefore takes
  each reading of the outside world as an argument of its own: the database as the checks before the
  transaction see it, the database under the row lock, the gameweeks as the final check sees them,
  and every reading of a clock. Decimal columns and their JSON snapshots (\<open>toString\<close> and back)
  are \<open>rat\<close>.
\<close>

section \<open>Data\<close>

record squad_row =
  sq_id :: string
  sq_userId :: string
  sq_name :: "nat list"
  sq_budgetRemaining :: rat
  sq_freeTransfers :: int
  sq_freeTransfersGameweekId :: "int option"
  sq_updatedAt :: int

record squad_player =
  sp_squadId :: string
  sp_playerId :: int
  sp_isCaptain :: bool
  sp_isViceCaptain :: bool
  sp_isStarter :: bool
  sp_positionOrder :: int
  sp_purchasePrice :: rat

record squad_transfer =
  tr_squadId :: string
  tr_gameweekId :: int
  tr_playerInId :: int
  tr_playerOutId :: int
  tr_inPrice :: rat
  tr_outPrice :: rat
  tr_pointsCost :: int

record snapshot_player =
  fp_playerId :: int
  fp_isCaptain :: bool
  fp_isViceCaptain :: bool
  fp_isStarter :: bool
  fp_positionOrder :: int
  fp_purchasePrice :: rat

record free_hit_snapshot =
  fh_budgetRemaining :: rat
  fh_freeTransfers :: int
  fh_freeTransfersGameweekId :: "int option"
  fh_transferCost :: "int option"
  fh_players :: "snapshot_player list"

record chip_usage =
  cu_id :: int
  cu_squadId :: string
  cu_gameweekId :: int
  cu_chipType :: chip_type
  cu_season :: string
  cu_previousLineup :: "free_hit_snapshot option"
  cu_cancelled :: bool
  cu_reverted :: bool

record chip_cancellation =
  cc_usageId :: int
  cc_squadId :: string
  cc_gameweekId :: int
  cc_chipType :: chip_type
  cc_snapshot :: free_hit_snapshot

record cost_row =
  gs_squadId :: string
  gs_gameweekId :: int
  gs_transferCost :: int

record squad_db =
  t_users :: "string list"
  t_players :: "validation_player list"
  t_gameweeks :: "gameweek list"
  t_squads :: "squad_row list"
  t_squadPlayers :: "squad_player list"
  t_transfers :: "squad_transfer list"
  t_chips :: "chip_usage list"
  t_cancellations :: "chip_cancellation list"
  t_scores :: "cost_row list"

datatype service_error =
    ValidationFailed "squad_error list"
  | InvalidSquadName
  | UserNotFound string
  | SquadNotFound string
  | GameweekNotFound int
  | PlayersNotArray
  | InvalidRevision
  | InvalidChipType string
  | NoReplacement int
  | TransfersClosed
  | SquadForbidden
  | SquadRevisionConflict int
  | SquadLocked int
  | ChipUnavailable
  | ChipCancellationLocked
  | UniqueViolation
  | RowMissing

section \<open>Transfer accounting\<close>

definition calculateSellingPrice :: "rat \<Rightarrow> rat \<Rightarrow> rat" where
  "calculateSellingPrice purchasePrice currentPrice =
     (let purchase = js_round (purchasePrice * 10);
          current = js_round (currentPrice * 10);
          sell = (if current > purchase then purchase + (current - purchase) div 2 else current)
      in of_int sell / 10)"

definition rollFreeTransfers :: "int \<Rightarrow> int \<Rightarrow> int" where
  "rollFreeTransfers saved gameweeksElapsed =
     min MAX_FREE_TRANSFERS (saved + max 0 gameweeksElapsed * FREE_TRANSFERS_PER_GAMEWEEK)"

definition calculateTransferCosts :: "nat \<Rightarrow> int \<Rightarrow> int list" where
  "calculateTransferCosts transferCount freeTransfers =
     map (\<lambda>i. if int i < freeTransfers then 0 else TRANSFER_POINTS_COST) [0..<transferCount]"

text \<open>Pairs \<open>(playerOutId, playerInId)\<close>; \<open>Inl i\<close> is the error that player \<open>i\<close> has no replacement.\<close>

fun pairTransfers :: "(int \<times> position) list \<Rightarrow> (int \<times> position) list \<Rightarrow> int + (int \<times> int) list" where
  "pairTransfers [] remainingIn = Inr []"
| "pairTransfers (out # outgoing) remainingIn =
     (case find_idx (\<lambda>p. snd p = snd out) remainingIn of
        None \<Rightarrow> Inl (fst out)
      | Some idx \<Rightarrow> res_bind (pairTransfers outgoing (remove_at idx remainingIn))
                     (\<lambda>pairs. Inr ((fst out, fst (remainingIn ! idx)) # pairs)))"

definition tenths :: "rat \<Rightarrow> rat" where
  "tenths x = of_int (js_round (x * 10)) / 10"

definition calculateTeamValue :: "rat \<Rightarrow> (rat \<times> rat) list \<Rightarrow> rat" where
  "calculateTeamValue budgetRemaining players =
     tenths (budgetRemaining + (\<Sum>(purchase, current)\<leftarrow>players. calculateSellingPrice purchase current))"

section \<open>Queries\<close>

definition findSquad :: "squad_db \<Rightarrow> string \<Rightarrow> squad_row option" where
  "findSquad db squadId = find (\<lambda>s. sq_id s = squadId) (t_squads db)"

definition findGameweek :: "squad_db \<Rightarrow> int \<Rightarrow> gameweek option" where
  "findGameweek db gameweekId = find (\<lambda>g. gw_id g = gameweekId) (t_gameweeks db)"

definition findPlayer :: "squad_db \<Rightarrow> int \<Rightarrow> validation_player option" where
  "findPlayer db playerId = find (\<lambda>p. pv_id p = playerId) (t_players db)"

definition playersOf :: "squad_db \<Rightarrow> string \<Rightarrow> squad_player list" where
  "playersOf db squadId = filter (\<lambda>sp. sp_squadId sp = squadId) (t_squadPlayers db)"

text \<open>\<open>include: { player: true }\<close>; the foreign key makes the missing player an inconsistency.\<close>

definition with_player :: "squad_db \<Rightarrow> squad_player \<Rightarrow> service_error + (squad_player \<times> validation_player)" where
  "with_player db sp =
     (case findPlayer db (sp_playerId sp) of None \<Rightarrow> Inl RowMissing | Some p \<Rightarrow> Inr (sp, p))"

definition usageFor :: "squad_db \<Rightarrow> string \<Rightarrow> int \<Rightarrow> chip_usage option" where
  "usageFor db squadId gameweekId =
     find (\<lambda>u. cu_squadId u = squadId \<and> cu_gameweekId u = gameweekId) (t_chips db)"

definition usageInSeason :: "squad_db \<Rightarrow> string \<Rightarrow> string \<Rightarrow> chip_type \<Rightarrow> chip_usage option" where
  "usageInSeason db squadId season chipType =
     find (\<lambda>u. cu_squadId u = squadId \<and> cu_season u = season \<and> cu_chipType u = chipType) (t_chips db)"

definition nextUnfinished :: "gameweek list \<Rightarrow> gameweek option" where
  "nextUnfinished gws =
     (case js_sort (asc (\<lambda>g. of_int (gw_deadline g))) (filter (\<lambda>g. \<not> gw_isFinished g) gws) of
        [] \<Rightarrow> None | g # _ \<Rightarrow> Some g)"

definition lockedUnsettled :: "gameweek list \<Rightarrow> gameweek option" where
  "lockedUnsettled gws = find (\<lambda>g. gw_isLocked g \<and> \<not> gw_settled g) gws"

definition playersById :: "squad_db \<Rightarrow> int list \<Rightarrow> validation_player list" where
  "playersById db playerIds = filter (\<lambda>p. pv_id p \<in> set playerIds) (t_players db)"

definition by_position :: "squad_player cmp" where
  "by_position = asc (\<lambda>sp. of_int (sp_positionOrder sp))"

definition squadView :: "squad_db \<Rightarrow> squad_row \<Rightarrow> squad_row \<times> squad_player list" where
  "squadView db s = (s, js_sort by_position (playersOf db (sq_id s)))"

definition getSquad :: "squad_db \<Rightarrow> string \<Rightarrow> service_error + (squad_row \<times> squad_player list)" where
  "getSquad db squadId =
     (case findSquad db squadId of None \<Rightarrow> Inl (SquadNotFound squadId) | Some s \<Rightarrow> Inr (squadView db s))"

definition getUserSquads :: "squad_db \<Rightarrow> string \<Rightarrow> (squad_row \<times> squad_player list) list" where
  "getUserSquads db userId = map (squadView db) (filter (\<lambda>s. sq_userId s = userId) (t_squads db))"

text \<open>The bank, the squad value and the team value.\<close>

definition getSquadValuation :: "squad_db \<Rightarrow> string \<Rightarrow> service_error + (rat \<times> rat \<times> rat)" where
  "getSquadValuation db squadId =
     (case findSquad db squadId of
        None \<Rightarrow> Inl (SquadNotFound squadId)
      | Some squad \<Rightarrow>
          res_bind (res_map (with_player db) (playersOf db squadId)) (\<lambda>owned.
            let bank = sq_budgetRemaining squad;
                teamValue = calculateTeamValue bank
                  (map (\<lambda>(sp, p). (sp_purchasePrice sp, pv_price p)) owned)
            in Inr (bank, tenths (teamValue - bank), teamValue)))"

section \<open>Writes\<close>

text \<open>\<open>createMany\<close> on the players of squads, with its unique constraint.\<close>

definition insertPlayers :: "squad_player list \<Rightarrow> squad_db \<Rightarrow> service_error + squad_db" where
  "insertPlayers new db =
     (let rows = t_squadPlayers db @ new
      in if distinct (map (\<lambda>sp. (sp_squadId sp, sp_playerId sp)) rows)
         then Inr (db\<lparr>t_squadPlayers := rows\<rparr>) else Inl UniqueViolation)"

definition updateSquadRow :: "string \<Rightarrow> (squad_row \<Rightarrow> squad_row) \<Rightarrow> squad_db \<Rightarrow> squad_db" where
  "updateSquadRow squadId f db =
     db\<lparr>t_squads := map (\<lambda>s. if sq_id s = squadId then f s else s) (t_squads db)\<rparr>"

definition deletePlayers :: "(squad_player \<Rightarrow> bool) \<Rightarrow> squad_db \<Rightarrow> squad_db" where
  "deletePlayers P db = db\<lparr>t_squadPlayers := filter (\<lambda>sp. \<not> P sp) (t_squadPlayers db)\<rparr>"

definition signing :: "string \<Rightarrow> selection \<Rightarrow> rat \<Rightarrow> squad_player" where
  "signing squadId sel price =
     \<lparr>sp_squadId = squadId, sp_playerId = sel_playerId sel, sp_isCaptain = sel_isCaptain sel,
      sp_isViceCaptain = sel_isViceCaptain sel, sp_isStarter = sel_isStarter sel,
      sp_positionOrder = sel_positionOrder sel, sp_purchasePrice = price\<rparr>"

text \<open>The row update of a kept player; the purchase price stays.\<close>

definition updateLineup :: "string \<Rightarrow> squad_db \<Rightarrow> selection \<Rightarrow> squad_db" where
  "updateLineup squadId db sel =
     db\<lparr>t_squadPlayers :=
          map (\<lambda>sp. if sp_squadId sp = squadId \<and> sp_playerId sp = sel_playerId sel
                    then signing squadId sel (sp_purchasePrice sp) else sp) (t_squadPlayers db)\<rparr>"

section \<open>Creating a squad\<close>

text \<open>The id is the database's UUID, the time that of the insert.\<close>

definition createSquad ::
  "squad_db \<Rightarrow> string \<Rightarrow> int \<Rightarrow> string \<Rightarrow> nat list option \<Rightarrow> selection list \<Rightarrow> service_error + squad_db" where
  "createSquad db newId now userId name players =
     (case sanitizeSquadName name of
        None \<Rightarrow> Inl InvalidSquadName
      | Some nm \<Rightarrow>
          if userId \<notin> set (t_users db) then Inl (UserNotFound userId)
          else
            (let dbPlayers = playersById db (map sel_playerId players)
             in case validateSquad players dbPlayers STARTING_BUDGET of
                  Inl errs \<Rightarrow> Inl (ValidationFailed errs)
                | Inr validated \<Rightarrow>
                    if newId \<in> sq_id ` set (t_squads db) then Inl UniqueViolation
                    else
                      (let created = \<lparr>sq_id = newId, sq_userId = userId, sq_name = nm,
                             sq_budgetRemaining = tenths (100 - vs_totalCost validated),
                             sq_freeTransfers = 1, sq_freeTransfersGameweekId = None, sq_updatedAt = now\<rparr>
                       in insertPlayers
                            (map (\<lambda>sel. signing newId sel (pv_price (player_of dbPlayers sel))) players)
                            (db\<lparr>t_squads := t_squads db @ [created]\<rparr>))))"

section \<open>Updating a squad\<close>

text \<open>
  The request: \<open>ui_name\<close> and \<open>ui_expectedUpdatedAt\<close> are \<open>None\<close> when undefined, the latter is the
  result of \<open>Date.parse\<close> (\<open>None\<close> for \<open>NaN\<close>); \<open>ui_players\<close> is \<open>None\<close> when it is no array.
\<close>

record update_input =
  ui_name :: "nat list option"
  ui_players :: "selection list option"
  ui_expectedUpdatedAt :: "int option option"

text \<open>
  What a request reads of the outside world: the database and the two clock readings of the checks
  before the transaction, the clock of the first check under the lock, the time stamped on the
  squad row, and the gameweeks and the clock of the final check.
\<close>

record update_env =
  ue_before :: squad_db
  ue_clockA :: int
  ue_clockB :: int
  ue_clock1 :: int
  ue_stamp :: int
  ue_gameweeks :: "gameweek list"
  ue_clock2 :: int

definition locked :: "int + 'a \<Rightarrow> service_error + 'a" where
  "locked r = (case r of Inl d \<Rightarrow> Inl (SquadLocked d) | Inr a \<Rightarrow> Inr a)"

definition deadline_ok :: "gameweek option \<Rightarrow> int \<Rightarrow> service_error + unit" where
  "deadline_ok g now = (case g of None \<Rightarrow> Inr () | Some gw \<Rightarrow> locked (validateDeadline (gw_deadline gw) now))"

definition not_locked :: "gameweek list \<Rightarrow> service_error + unit" where
  "not_locked gws = (case lockedUnsettled gws of None \<Rightarrow> Inr () | Some gw \<Rightarrow> Inl (SquadLocked (gw_deadline gw)))"

definition currentGameweek :: "squad_db \<Rightarrow> gameweek option" where
  "currentGameweek db = find gw_isCurrent (t_gameweeks db)"

text \<open>The checks before the transaction, with the sanitised name and the selections as result.\<close>

definition fast_fail ::
  "update_env \<Rightarrow> string \<Rightarrow> update_input \<Rightarrow> string option \<Rightarrow> service_error + (nat list option \<times> selection list)" where
  "fast_fail env squadId input requestingUserId =
     (let db = ue_before env in
      case findSquad db squadId of
        None \<Rightarrow> Inl (SquadNotFound squadId)
      | Some existing \<Rightarrow>
          res_bind (case ui_name input of
                      None \<Rightarrow> Inr None
                    | Some n \<Rightarrow> (case sanitizeSquadName (Some n) of None \<Rightarrow> Inl InvalidSquadName | Some m \<Rightarrow> Inr (Some m))) (\<lambda>name.
          if requestingUserId \<noteq> None \<and> requestingUserId \<noteq> Some [] \<and> requestingUserId \<noteq> Some (sq_userId existing)
          then Inl SquadForbidden
          else
            res_bind (deadline_ok (currentGameweek db) (ue_clockA env)) (\<lambda>_.
            res_bind (not_locked (t_gameweeks db)) (\<lambda>_.
            res_bind (deadline_ok (nextUnfinished (t_gameweeks db)) (ue_clockB env)) (\<lambda>_.
            case ui_players input of
              None \<Rightarrow> Inl PlayersNotArray
            | Some sels \<Rightarrow> Inr (name, sels))))))"

definition revision_ok :: "squad_row \<Rightarrow> int option option \<Rightarrow> service_error + unit" where
  "revision_ok squad expected =
     (case expected of
        None \<Rightarrow> Inr ()
      | Some None \<Rightarrow> Inl InvalidRevision
      | Some (Some t) \<Rightarrow> if sq_updatedAt squad \<noteq> t then Inl (SquadRevisionConflict (sq_updatedAt squad)) else Inr ())"

definition sell_prices :: "(squad_player \<times> validation_player) list \<Rightarrow> (int \<times> rat) list" where
  "sell_prices owned =
     js_map (map (\<lambda>(sp, p). (sp_playerId sp, calculateSellingPrice (sp_purchasePrice sp) (pv_price p))) owned)"

text \<open>Kept players at their selling price, new signings at their current price.\<close>

definition priced :: "(int \<times> rat) list \<Rightarrow> validation_player list \<Rightarrow> validation_player list" where
  "priced sells dbPlayers =
     map (\<lambda>p. case map_of sells (pv_id p) of Some v \<Rightarrow> p\<lparr>pv_price := v\<rparr> | None \<Rightarrow> p) dbPlayers"

definition available_funds :: "squad_row \<Rightarrow> (int \<times> rat) list \<Rightarrow> rat" where
  "available_funds squad sells = tenths (sq_budgetRemaining squad + (\<Sum>(_, v)\<leftarrow>sells. v))"

text \<open>The transfers: the pairs, and for a non-empty list the gameweek, the costs and what is left.\<close>

record transfer_plan =
  tp_pairs :: "(int \<times> int) list"
  tp_gameweek :: "int option"
  tp_costs :: "int list"
  tp_left :: int

definition available_transfers :: "squad_db \<Rightarrow> squad_row \<Rightarrow> gameweek \<Rightarrow> int" where
  "available_transfers db squad target =
     (case sq_freeTransfersGameweekId squad of
        None \<Rightarrow> sq_freeTransfers squad
      | Some saved \<Rightarrow>
          if saved = gw_id target then sq_freeTransfers squad
          else
            (let elapsed = (case findGameweek db saved of
                              Some savedGameweek \<Rightarrow> gw_fplId target - gw_fplId savedGameweek
                            | None \<Rightarrow> 1)
             in rollFreeTransfers (sq_freeTransfers squad) elapsed))"

definition plan_transfers ::
  "squad_db \<Rightarrow> squad_row \<Rightarrow> gameweek option \<Rightarrow> (int \<times> int) list \<Rightarrow> service_error + transfer_plan" where
  "plan_transfers db squad governing transfers =
     (if transfers = [] then
        Inr \<lparr>tp_pairs = [], tp_gameweek = None, tp_costs = [], tp_left = sq_freeTransfers squad\<rparr>
      else
        (case governing of
           None \<Rightarrow> Inl TransfersClosed
         | Some target \<Rightarrow>
             (let available = available_transfers db squad target
              in Inr \<lparr>tp_pairs = transfers, tp_gameweek = Some (gw_id target),
                      tp_costs = calculateTransferCosts (length transfers) available,
                      tp_left = max 0 (available - int (length transfers))\<rparr>)))"

definition transfer_rows ::
  "string \<Rightarrow> validation_player list \<Rightarrow> (int \<times> rat) list \<Rightarrow> transfer_plan \<Rightarrow> squad_transfer list" where
  "transfer_rows squadId dbPlayers sells plan =
     (case tp_gameweek plan of
        None \<Rightarrow> []
      | Some gameweekId \<Rightarrow>
          map (\<lambda>((out, inn), cost).
                 \<lparr>tr_squadId = squadId, tr_gameweekId = gameweekId, tr_playerInId = inn, tr_playerOutId = out,
                  tr_inPrice = pv_price (the (map_of (player_map dbPlayers) inn)),
                  tr_outPrice = the (map_of sells out), tr_pointsCost = cost\<rparr>)
              (zip (tp_pairs plan) (tp_costs plan)))"

text \<open>Steps 2 to 6 of the transaction: the squad row, sold, kept and signed players, the history.\<close>

definition write_update ::
  "squad_db \<Rightarrow> int \<Rightarrow> string \<Rightarrow> nat list option \<Rightarrow> selection list \<Rightarrow> validation_player list \<Rightarrow> (int \<times> rat) list
   \<Rightarrow> rat \<Rightarrow> int list \<Rightarrow> transfer_plan \<Rightarrow> service_error + squad_db" where
  "write_update db stamp squadId name sels dbPlayers sells budget sold plan =
     (let owned = map fst sells;
          db2 = updateSquadRow squadId (\<lambda>s. s\<lparr>
                  sq_name := (case name of None \<Rightarrow> sq_name s | Some n \<Rightarrow> n),
                  sq_budgetRemaining := budget,
                  sq_freeTransfers := (if tp_gameweek plan = None then sq_freeTransfers s else tp_left plan),
                  sq_freeTransfersGameweekId :=
                    (if tp_gameweek plan = None then sq_freeTransfersGameweekId s else tp_gameweek plan),
                  sq_updatedAt := stamp\<rparr>) db;
          db3 = deletePlayers (\<lambda>sp. sp_squadId sp = squadId \<and> sp_playerId sp \<in> set sold) db2;
          db4 = foldl (updateLineup squadId) db3 (filter (\<lambda>s. sel_playerId s \<in> set owned) sels)
      in res_bind (insertPlayers
             (map (\<lambda>sel. signing squadId sel (pv_price (player_of dbPlayers sel)))
                  (filter (\<lambda>s. sel_playerId s \<notin> set owned) sels)) db4) (\<lambda>db5.
         Inr (db5\<lparr>t_transfers := t_transfers db5 @ transfer_rows squadId dbPlayers sells plan\<rparr>)))"

text \<open>The transaction without its last step, with the governing gameweek as second result.\<close>

definition update_transaction ::
  "squad_db \<Rightarrow> update_env \<Rightarrow> string \<Rightarrow> update_input \<Rightarrow> nat list option \<Rightarrow> selection list
   \<Rightarrow> service_error + (squad_db \<times> gameweek option)" where
  "update_transaction db env squadId input name sels =
     (case findSquad db squadId of
        None \<Rightarrow> Inl (SquadNotFound squadId)
      | Some squad \<Rightarrow>
          res_bind (res_map (with_player db) (playersOf db squadId)) (\<lambda>owned.
          res_bind (revision_ok squad (ui_expectedUpdatedAt input)) (\<lambda>_.
          let governing = nextUnfinished (t_gameweeks db) in
          res_bind (locked (assertGameweeksOpen (t_gameweeks db) (ue_clock1 env)
                      (case governing of None \<Rightarrow> [] | Some g \<Rightarrow> [gw_id g]))) (\<lambda>_.
          let playerIds = map sel_playerId sels;
              dbPlayers = playersById db playerIds;
              sells = sell_prices owned;
              funds = available_funds squad sells
          in case validateSquad sels (priced sells dbPlayers) funds of
               Inl errs \<Rightarrow> Inl (ValidationFailed errs)
             | Inr validated \<Rightarrow>
                 (let outgoing = map (\<lambda>(sp, p). (sp_playerId sp, pv_position p))
                        (filter (\<lambda>(sp, p). sp_playerId sp \<notin> set playerIds) owned);
                      incoming = map (\<lambda>p. (pv_id p, pv_position p))
                        (filter (\<lambda>p. pv_id p \<notin> set (map fst sells)) dbPlayers)
                  in case pairTransfers outgoing incoming of
                       Inl i \<Rightarrow> Inl (NoReplacement i)
                     | Inr transfers \<Rightarrow>
                         res_bind (plan_transfers db squad governing transfers) (\<lambda>plan.
                         res_bind (write_update db (ue_stamp env) squadId name sels dbPlayers sells
                                     (tenths (funds - vs_totalCost validated)) (map fst outgoing) plan) (\<lambda>db'.
                         Inr (db', governing))))))))"

text \<open>
  The request: checks, transaction on the database \<open>db\<close> found under the lock, and the final check on
  the gameweeks and the clock as they are then. The result is the committed database.
\<close>

definition updateSquad ::
  "squad_db \<Rightarrow> update_env \<Rightarrow> string \<Rightarrow> update_input \<Rightarrow> string option \<Rightarrow> service_error + squad_db" where
  "updateSquad db env squadId input requestingUserId =
     res_bind (fast_fail env squadId input requestingUserId) (\<lambda>(name, sels).
     res_bind (update_transaction db env squadId input name sels) (\<lambda>(db', governing).
     res_bind (not_locked (ue_gameweeks env)) (\<lambda>_.
     res_bind (locked (assertGameweeksOpen (ue_gameweeks env) (ue_clock2 env)
                 (map gw_id (case currentGameweek (ue_before env) of None \<Rightarrow> [] | Some g \<Rightarrow> [g])
                  @ map gw_id (case governing of None \<Rightarrow> [] | Some g \<Rightarrow> [g])))) (\<lambda>_.
     Inr (db'\<lparr>t_gameweeks := ue_gameweeks env\<rparr>)))))"

section \<open>Chips\<close>

definition parse_chip :: "string \<Rightarrow> chip_type option" where
  "parse_chip s = map_of [(''WILDCARD'', WILDCARD), (''FREE_HIT'', FREE_HIT), (''BENCH_BOOST'', BENCH_BOOST),
                          (''TRIPLE_CAPTAIN'', TRIPLE_CAPTAIN)] s"

definition snapshot_player_of :: "squad_player \<Rightarrow> snapshot_player" where
  "snapshot_player_of sp =
     \<lparr>fp_playerId = sp_playerId sp, fp_isCaptain = sp_isCaptain sp, fp_isViceCaptain = sp_isViceCaptain sp,
      fp_isStarter = sp_isStarter sp, fp_positionOrder = sp_positionOrder sp,
      fp_purchasePrice = sp_purchasePrice sp\<rparr>"

definition snapshot_row :: "string \<Rightarrow> snapshot_player \<Rightarrow> squad_player" where
  "snapshot_row squadId fp =
     \<lparr>sp_squadId = squadId, sp_playerId = fp_playerId fp, sp_isCaptain = fp_isCaptain fp,
      sp_isViceCaptain = fp_isViceCaptain fp, sp_isStarter = fp_isStarter fp,
      sp_positionOrder = fp_positionOrder fp, sp_purchasePrice = fp_purchasePrice fp\<rparr>"

definition scoreFor :: "squad_db \<Rightarrow> string \<Rightarrow> int \<Rightarrow> cost_row option" where
  "scoreFor db squadId gameweekId =
     find (\<lambda>g. gs_squadId g = squadId \<and> gs_gameweekId g = gameweekId) (t_scores db)"

definition take_snapshot :: "squad_db \<Rightarrow> squad_row \<Rightarrow> int \<Rightarrow> free_hit_snapshot" where
  "take_snapshot db squad gameweekId =
     \<lparr>fh_budgetRemaining = sq_budgetRemaining squad, fh_freeTransfers = sq_freeTransfers squad,
      fh_freeTransfersGameweekId = sq_freeTransfersGameweekId squad,
      fh_transferCost = map_option gs_transferCost (scoreFor db (sq_id squad) gameweekId),
      fh_players = map snapshot_player_of (playersOf db (sq_id squad))\<rparr>"

text \<open>
  The two unique constraints of the chip table, and the upsert on the key (squad, gameweek); an
  undefined \<open>previousLineup\<close> leaves the column of an existing row as it is.
\<close>

definition chips_unique :: "chip_usage list \<Rightarrow> bool" where
  "chips_unique us \<longleftrightarrow> distinct (map (\<lambda>u. (cu_squadId u, cu_gameweekId u)) us) \<and>
     distinct (map (\<lambda>u. (cu_squadId u, cu_season u, cu_chipType u)) us)"

definition upsertChip ::
  "int \<Rightarrow> string \<Rightarrow> int \<Rightarrow> chip_type \<Rightarrow> string \<Rightarrow> free_hit_snapshot option \<Rightarrow> squad_db \<Rightarrow> service_error + squad_db" where
  "upsertChip newId squadId gameweekId chipType season previousLineup db =
     (let rows = (case usageFor db squadId gameweekId of
                    None \<Rightarrow> t_chips db @ [\<lparr>cu_id = newId, cu_squadId = squadId, cu_gameweekId = gameweekId,
                              cu_chipType = chipType, cu_season = season, cu_previousLineup = previousLineup,
                              cu_cancelled = False, cu_reverted = False\<rparr>]
                  | Some _ \<Rightarrow> map (\<lambda>u. if cu_squadId u = squadId \<and> cu_gameweekId u = gameweekId
                              then u\<lparr>cu_chipType := chipType, cu_season := season,
                                     cu_previousLineup := (case previousLineup of
                                        None \<Rightarrow> cu_previousLineup u | Some s \<Rightarrow> Some s),
                                     cu_cancelled := False, cu_reverted := False\<rparr>
                              else u) (t_chips db))
      in if chips_unique rows then Inr (db\<lparr>t_chips := rows\<rparr>) else Inl UniqueViolation)"

definition is_active :: "chip_usage option \<Rightarrow> bool" where
  "is_active u = (case u of None \<Rightarrow> False | Some r \<Rightarrow> \<not> cu_cancelled r)"

text \<open>\<open>before\<close> and \<open>clock\<close> are what the checks before the transaction read, \<open>gws\<close> and \<open>clock2\<close> the final check.\<close>

definition activateChip ::
  "squad_db \<Rightarrow> squad_db \<Rightarrow> int \<Rightarrow> gameweek list \<Rightarrow> int \<Rightarrow> int \<Rightarrow> string \<Rightarrow> string \<Rightarrow> int \<Rightarrow> string
   \<Rightarrow> service_error + squad_db" where
  "activateChip db before clock gws clock2 newId squadId chip gameweekId requestingUserId =
     (case parse_chip chip of
        None \<Rightarrow> Inl (InvalidChipType chip)
      | Some chipType \<Rightarrow>
      (case findSquad before squadId of
        None \<Rightarrow> Inl (SquadNotFound squadId)
      | Some squad \<Rightarrow>
          if sq_userId squad \<noteq> requestingUserId then Inl SquadForbidden
          else
      (case findGameweek before gameweekId of
        None \<Rightarrow> Inl (GameweekNotFound gameweekId)
      | Some gameweek \<Rightarrow>
          if gw_isLocked gameweek then Inl (SquadLocked (gw_deadline gameweek))
          else
            res_bind (deadline_ok (Some gameweek) clock) (\<lambda>_.
            if is_active (usageFor before squadId gameweekId) then Inl ChipUnavailable
            else if is_active (usageInSeason before squadId (gw_season gameweek) chipType) then Inl ChipUnavailable
            else
      (case findSquad db squadId of
        None \<Rightarrow> Inl (SquadNotFound squadId)
      | Some currentSquad \<Rightarrow>
          (case upsertChip newId squadId gameweekId chipType (gw_season gameweek)
                 (if chipType = FREE_HIT \<or> chipType = WILDCARD
                  then Some (take_snapshot db currentSquad gameweekId) else None) db of
             Inl e \<Rightarrow> Inl (if e = UniqueViolation then ChipUnavailable else e)
           | Inr db' \<Rightarrow>
               res_bind (locked (assertGameweeksOpen gws clock2 [gameweekId])) (\<lambda>_.
               Inr (db'\<lparr>t_gameweeks := gws\<rparr>))))))))"

text \<open>Deleting the squad's players and inserting those of the snapshot.\<close>

definition restoreLineup :: "string \<Rightarrow> free_hit_snapshot \<Rightarrow> squad_db \<Rightarrow> service_error + squad_db" where
  "restoreLineup squadId snapshot db =
     insertPlayers (map (snapshot_row squadId) (fh_players snapshot))
       (deletePlayers (\<lambda>sp. sp_squadId sp = squadId) db)"

definition restoreCost :: "string \<Rightarrow> int \<Rightarrow> int option \<Rightarrow> squad_db \<Rightarrow> service_error + squad_db" where
  "restoreCost squadId gameweekId transferCost db =
     (case transferCost of
        None \<Rightarrow> Inr db
      | Some c \<Rightarrow>
          if scoreFor db squadId gameweekId = None then Inl RowMissing
          else Inr (db\<lparr>t_scores := map (\<lambda>g. if gs_squadId g = squadId \<and> gs_gameweekId g = gameweekId
                                      then g\<lparr>gs_transferCost := c\<rparr> else g) (t_scores db)\<rparr>))"

definition updateUsage :: "int \<Rightarrow> (chip_usage \<Rightarrow> chip_usage) \<Rightarrow> squad_db \<Rightarrow> squad_db" where
  "updateUsage i f db = db\<lparr>t_chips := map (\<lambda>u. if cu_id u = i then f u else u) (t_chips db)\<rparr>"

text \<open>\<open>conflict\<close> tells whether the database aborts the serializable transaction (\<open>P2034\<close>).\<close>

definition cancelChip ::
  "squad_db \<Rightarrow> squad_db \<Rightarrow> int \<Rightarrow> int \<Rightarrow> bool \<Rightarrow> string \<Rightarrow> int \<Rightarrow> string \<Rightarrow> service_error + squad_db" where
  "cancelChip db before clock stamp conflict squadId gameweekId requestingUserId =
     (case findSquad before squadId of
        None \<Rightarrow> Inl (SquadNotFound squadId)
      | Some squad \<Rightarrow>
          if sq_userId squad \<noteq> requestingUserId then Inl SquadForbidden
          else if conflict then Inl ChipCancellationLocked
          else
      (case usageFor db squadId gameweekId of
        None \<Rightarrow> Inl ChipUnavailable
      | Some usage \<Rightarrow>
      (case cu_previousLineup usage of
        None \<Rightarrow> Inl ChipUnavailable
      | Some snapshot \<Rightarrow>
          if cu_cancelled usage \<or> cu_chipType usage \<notin> {FREE_HIT, WILDCARD} then Inl ChipUnavailable
          else if assertGameweeksOpen (t_gameweeks db) clock [gameweekId] \<noteq> Inr () then Inl ChipCancellationLocked
          else
            res_bind (restoreLineup squadId snapshot db) (\<lambda>db1.
            if findSquad db1 squadId = None then Inl RowMissing
            else
              (let db2 = updateSquadRow squadId (\<lambda>s. s\<lparr>
                     sq_budgetRemaining := fh_budgetRemaining snapshot,
                     sq_freeTransfers := fh_freeTransfers snapshot,
                     sq_freeTransfersGameweekId := fh_freeTransfersGameweekId snapshot,
                     sq_updatedAt := stamp\<rparr>) db1
               in res_bind (restoreCost squadId gameweekId (fh_transferCost snapshot) db2) (\<lambda>db3.
                  Inr (updateUsage (cu_id usage) (\<lambda>u. u\<lparr>cu_cancelled := True\<rparr>)
                        (db3\<lparr>t_cancellations := t_cancellations db3 @
                           [\<lparr>cc_usageId = cu_id usage, cc_squadId = squadId, cc_gameweekId = gameweekId,
                             cc_chipType = cu_chipType usage, cc_snapshot = snapshot\<rparr>]\<rparr>))))))))"

text \<open>The usage is read before the transaction, which takes no lock.\<close>

definition revertFreeHit ::
  "squad_db \<Rightarrow> squad_db \<Rightarrow> int \<Rightarrow> string \<Rightarrow> int \<Rightarrow> service_error + (bool \<times> squad_db)" where
  "revertFreeHit db before stamp squadId gameweekId =
     (case usageFor before squadId gameweekId of
        None \<Rightarrow> Inr (False, db)
      | Some usage \<Rightarrow>
      (case cu_previousLineup usage of
        None \<Rightarrow> Inr (False, db)
      | Some snapshot \<Rightarrow>
          if cu_chipType usage \<noteq> FREE_HIT \<or> cu_cancelled usage \<or> cu_reverted usage then Inr (False, db)
          else
            res_bind (restoreLineup squadId snapshot db) (\<lambda>db1.
            if findSquad db1 squadId = None \<or> cu_id usage \<notin> cu_id ` set (t_chips db1) then Inl RowMissing
            else Inr (True, updateUsage (cu_id usage) (\<lambda>u. u\<lparr>cu_reverted := True\<rparr>)
                   (updateSquadRow squadId (\<lambda>s. s\<lparr>sq_budgetRemaining := fh_budgetRemaining snapshot,
                      sq_updatedAt := stamp\<rparr>) db1)))))"

section \<open>Laws of the accounting functions\<close>

definition is_tenth :: "rat \<Rightarrow> bool" where
  "is_tenth x \<longleftrightarrow> x * 10 \<in> \<int>"

lemma is_tenth_intros [intro, simp]:
  "is_tenth (of_int n / 10)" "is_tenth (tenths x)" "is_tenth (calculateSellingPrice a b)" "is_tenth 0" "is_tenth 100"
  by (simp_all add: is_tenth_def tenths_def calculateSellingPrice_def Let_def)

lemma is_tenth_arith:
  "is_tenth x \<Longrightarrow> is_tenth y \<Longrightarrow> is_tenth (x + y)"
  "is_tenth x \<Longrightarrow> is_tenth y \<Longrightarrow> is_tenth (x - y)"
  by (simp_all add: is_tenth_def distrib_right left_diff_distrib)

lemma is_tenth_sum_list: "(\<And>x. x \<in> set xs \<Longrightarrow> is_tenth (f x)) \<Longrightarrow> is_tenth (\<Sum>x\<leftarrow>xs. f x)"
  by (induction xs) (auto intro: is_tenth_arith)

lemma is_tenthE:
  assumes "is_tenth x"
  obtains n :: int where "x = of_int n / 10"
proof -
  from assms obtain n where "x * 10 = of_int n" unfolding is_tenth_def by (elim Ints_cases)
  then have "x = of_int n / 10" by simp
  then show thesis by (rule that)
qed

lemma tenths_id: "is_tenth x \<Longrightarrow> tenths x = x"
  by (erule is_tenthE) (simp add: tenths_def)

lemma tenths_nonneg: "0 \<le> x \<Longrightarrow> 0 \<le> tenths x"
  by (simp add: tenths_def js_round_def)

lemma selling_price_unchanged: "is_tenth p \<Longrightarrow> calculateSellingPrice p p = p"
  by (erule is_tenthE) (simp add: calculateSellingPrice_def)

lemma selling_price_bounds:
  assumes "is_tenth p" "is_tenth c"
  shows "min p c \<le> calculateSellingPrice p c" "calculateSellingPrice p c \<le> c"
    and "p \<le> c \<Longrightarrow> calculateSellingPrice p c \<le> (p + c) / 2"
proof -
  obtain m n :: int where mn: "p = of_int m / 10" "c = of_int n / 10" using assms by (elim is_tenthE) blast
  have s: "calculateSellingPrice p c = of_int (if n > m then m + (n - m) div 2 else n) / 10"
    by (simp add: calculateSellingPrice_def mn)
  have "min m n \<le> (if n > m then m + (n - m) div 2 else n)" "(if n > m then m + (n - m) div 2 else n) \<le> n"
    by auto
  then have "(of_int (min m n) :: rat) \<le> of_int (if n > m then m + (n - m) div 2 else n)"
      "(of_int (if n > m then m + (n - m) div 2 else n) :: rat) \<le> of_int n"
    unfolding of_int_le_iff by blast+
  then show "min p c \<le> calculateSellingPrice p c" "calculateSellingPrice p c \<le> c"
    unfolding s by (simp_all add: mn of_int_min min_def split: if_splits)
  assume "p \<le> c"
  then have "2 * (if n > m then m + (n - m) div 2 else n) \<le> m + n" by (auto simp: mn)
  then have "(of_int (2 * (if n > m then m + (n - m) div 2 else n)) :: rat) \<le> of_int (m + n)"
    unfolding of_int_le_iff .
  then show "calculateSellingPrice p c \<le> (p + c) / 2" by (simp only: s) (simp add: mn)
qed

lemma selling_price_nonneg: "is_tenth p \<Longrightarrow> is_tenth c \<Longrightarrow> 0 \<le> p \<Longrightarrow> 0 \<le> c \<Longrightarrow> 0 \<le> calculateSellingPrice p c"
  using selling_price_bounds(1) [of p c] by linarith

lemma sum_transfer_costs:
  "sum_list (calculateTransferCosts n free) = 4 * max 0 (int n - max 0 free)"
proof (induction n)
  case (Suc n)
  have "sum_list (calculateTransferCosts (Suc n) free)
      = sum_list (calculateTransferCosts n free) + (if int n < free then 0 else 4)"
    by (simp add: calculateTransferCosts_def TRANSFER_POINTS_COST_def)
  with Suc show ?case by auto
qed (simp add: calculateTransferCosts_def)

lemma rollFreeTransfers_bounds:
  "0 \<le> saved \<Longrightarrow> 0 \<le> rollFreeTransfers saved k \<and> rollFreeTransfers saved k \<le> 5
     \<and> (saved \<le> 5 \<longrightarrow> saved \<le> rollFreeTransfers saved k)"
  by (auto simp: rollFreeTransfers_def MAX_FREE_TRANSFERS_def FREE_TRANSFERS_PER_GAMEWEEK_def)

lemma set_remove_at_distinct:
  assumes "distinct xs" "i < length xs"
  shows "set (remove_at i xs) = set xs - {xs ! i}"
  using assms by (metis distinct_remove1 mset_eq_setD mset_remove1 mset_remove_at set_remove1_eq)

text \<open>A pairing sells each outgoing player for a different incoming one of his position.\<close>

lemma pairTransfers_sound:
  assumes "pairTransfers outs ins = Inr ps" "distinct ins"
  shows "\<exists>bs. length bs = length outs \<and> distinct bs \<and> set bs \<subseteq> set ins \<and> map snd bs = map snd outs
    \<and> ps = zip (map fst outs) (map fst bs)"
  using assms
proof (induction outs arbitrary: ins ps)
  case (Cons out outs)
  then obtain i ps' where i: "find_idx (\<lambda>p. snd p = snd out) ins = Some i"
      and ps': "pairTransfers outs (remove_at i ins) = Inr ps'" "ps = (fst out, fst (ins ! i)) # ps'"
    by (auto split: option.splits)
  have il: "i < length ins" "snd (ins ! i) = snd out" using find_idx_SomeD [OF i] by auto
  have "distinct (remove_at i ins)"
    using distinct_map_remove_at [of "\<lambda>x. x" ins i] Cons.prems(2) by simp
  from Cons.IH [OF ps'(1) this] obtain bs where bs: "length bs = length outs" "distinct bs"
      "set bs \<subseteq> set ins - {ins ! i}" "map snd bs = map snd outs" "ps' = zip (map fst outs) (map fst bs)"
    unfolding set_remove_at_distinct [OF Cons.prems(2) il(1)] by blast
  then show ?case
    using il ps'(2) by (intro exI [of _ "ins ! i # bs"]) auto
qed auto

text \<open>It exists exactly if no position sells more players than it buys.\<close>

lemma pairTransfers_total:
  "(\<exists>ps. pairTransfers outs ins = Inr ps) \<longleftrightarrow>
     (\<forall>pos. count_list (map snd outs) pos \<le> count_list (map snd ins) pos)"
proof (induction outs arbitrary: ins)
  case (Cons out outs)
  show ?case
  proof (cases "find_idx (\<lambda>p. snd p = snd out) ins")
    case None
    then have "count_list (map snd ins) (snd out) = 0"
      by (auto simp: find_idx_None_iff count_list_0_iff)
    with None show ?thesis by (auto intro!: exI [of _ "snd out"])
  next
    case (Some i)
    then have il: "i < length ins" "snd (ins ! i) = snd out" using find_idx_SomeD by fastforce+
    have split: "ins = take i ins @ ins ! i # drop (Suc i) ins" using il(1) by (rule id_take_nth_drop)
    have c: "count_list (map snd ins) pos = count_list (map snd (remove_at i ins)) pos + (if pos = snd out then 1 else 0)" for pos
      by (subst split) (simp add: remove_at_def il(2))
    have "(\<exists>ps. pairTransfers (out # outs) ins = Inr ps) \<longleftrightarrow> (\<exists>ps. pairTransfers outs (remove_at i ins) = Inr ps)"
      using Some by auto
    then show ?thesis unfolding Cons.IH c by auto
  qed
qed simp

section \<open>The database invariant\<close>

definition price_ok :: "rat \<Rightarrow> bool" where
  "price_ok x \<longleftrightarrow> is_tenth x \<and> 0 \<le> x"

definition players_ok :: "validation_player list \<Rightarrow> bool" where
  "players_ok ps \<longleftrightarrow> distinct (map pv_id ps) \<and> (\<forall>p \<in> set ps. price_ok (pv_price p))"

definition transfers_ok :: "int \<Rightarrow> bool" where
  "transfers_ok n \<longleftrightarrow> 0 \<le> n \<and> n \<le> MAX_FREE_TRANSFERS"

definition squad_ok :: "squad_db \<Rightarrow> squad_row \<Rightarrow> bool" where
  "squad_ok db s \<longleftrightarrow> price_ok (sq_budgetRemaining s) \<and> transfers_ok (sq_freeTransfers s)
     \<and> length (playersOf db (sq_id s)) = TOTAL_PLAYERS"

definition row_ok :: "squad_db \<Rightarrow> squad_player \<Rightarrow> bool" where
  "row_ok db sp \<longleftrightarrow> price_ok (sp_purchasePrice sp) \<and> sp_playerId sp \<in> pv_id ` set (t_players db)
     \<and> sp_squadId sp \<in> sq_id ` set (t_squads db)"

definition row_key :: "squad_player \<Rightarrow> string \<times> int" where
  "row_key sp = (sp_squadId sp, sp_playerId sp)"

definition snapshot_ok :: "squad_db \<Rightarrow> free_hit_snapshot \<Rightarrow> bool" where
  "snapshot_ok db s \<longleftrightarrow> price_ok (fh_budgetRemaining s) \<and> transfers_ok (fh_freeTransfers s)
     \<and> length (fh_players s) = TOTAL_PLAYERS \<and> distinct (map fp_playerId (fh_players s))
     \<and> (\<forall>fp \<in> set (fh_players s). price_ok (fp_purchasePrice fp) \<and> fp_playerId fp \<in> pv_id ` set (t_players db))"

definition chip_ok :: "squad_db \<Rightarrow> chip_usage \<Rightarrow> bool" where
  "chip_ok db u \<longleftrightarrow> (\<forall>s. cu_previousLineup u = Some s \<longrightarrow> snapshot_ok db s)"

text \<open>
  Prices and banks are non-negative multiples of 0.1, every squad owns fifteen different known
  players and has zero to five free transfers, the chip table obeys its unique constraints, and the
  stored snapshots are squads of the same kind.
\<close>

definition squad_inv :: "squad_db \<Rightarrow> bool" where
  "squad_inv db \<longleftrightarrow> players_ok (t_players db)
     \<and> distinct (map sq_id (t_squads db)) \<and> (\<forall>s \<in> set (t_squads db). squad_ok db s)
     \<and> distinct (map row_key (t_squadPlayers db)) \<and> (\<forall>sp \<in> set (t_squadPlayers db). row_ok db sp)
     \<and> chips_unique (t_chips db) \<and> (\<forall>u \<in> set (t_chips db). chip_ok db u)"

section \<open>Laws of queries and writes\<close>

lemma insertPlayers_Inr_iff:
  "insertPlayers new db = Inr db' \<longleftrightarrow>
     distinct (map row_key (t_squadPlayers db @ new)) \<and> db' = db\<lparr>t_squadPlayers := t_squadPlayers db @ new\<rparr>"
  by (auto simp: insertPlayers_def Let_def row_key_def [abs_def])

lemma findSquad_Some_iff:
  "distinct (map sq_id (t_squads db)) \<Longrightarrow> findSquad db sid = Some s \<longleftrightarrow> s \<in> set (t_squads db) \<and> sq_id s = sid"
  by (auto simp: findSquad_def find_unique dest: find_SomeD)

lemma findPlayer_known: "i \<in> pv_id ` set (t_players db) \<Longrightarrow> \<exists>p. findPlayer db i = Some p \<and> p \<in> set (t_players db) \<and> pv_id p = i"
  unfolding findPlayer_def
  by (cases "find (\<lambda>p. pv_id p = i) (t_players db)") (auto simp: find_None_iff dest: find_SomeD)

lemma findPlayer_unique: "players_ok (t_players db) \<Longrightarrow> p \<in> set (t_players db) \<Longrightarrow> findPlayer db (pv_id p) = Some p"
  by (simp add: findPlayer_def players_ok_def find_unique)

lemma distinct_playersOf:
  assumes "distinct (map row_key (t_squadPlayers db))"
  shows "distinct (map sp_playerId (playersOf db sid))"
proof -
  have "distinct (map row_key (playersOf db sid))"
    using assms unfolding playersOf_def by (rule distinct_map_filter)
  moreover have "map row_key (playersOf db sid) = map (Pair sid) (map sp_playerId (playersOf db sid))"
    by (simp add: playersOf_def row_key_def)
  ultimately show ?thesis by (metis distinct_map)
qed

definition sell_of :: "squad_db \<Rightarrow> squad_player \<Rightarrow> rat" where
  "sell_of db sp = calculateSellingPrice (sp_purchasePrice sp) (pv_price (the (findPlayer db (sp_playerId sp))))"

abbreviation owned_of :: "squad_db \<Rightarrow> string \<Rightarrow> (squad_player \<times> validation_player) list" where
  "owned_of db sid \<equiv> map (\<lambda>sp. (sp, the (findPlayer db (sp_playerId sp)))) (playersOf db sid)"

abbreviation sells_of :: "squad_db \<Rightarrow> string \<Rightarrow> (int \<times> rat) list" where
  "sells_of db sid \<equiv> map (\<lambda>sp. (sp_playerId sp, sell_of db sp)) (playersOf db sid)"

lemma owned_rows:
  assumes "\<forall>sp \<in> set (playersOf db sid). sp_playerId sp \<in> pv_id ` set (t_players db)"
  shows "res_map (with_player db) (playersOf db sid) = Inr (owned_of db sid)"
proof -
  have "with_player db sp = Inr (sp, the (findPlayer db (sp_playerId sp)))" if "sp \<in> set (playersOf db sid)" for sp
    using assms that findPlayer_known [of "sp_playerId sp" db] by (auto simp: with_player_def)
  then show ?thesis by (auto simp: res_map_Inr_iff list_all2_conv_all_nth)
qed

lemma sell_prices_owned:
  "distinct (map sp_playerId (playersOf db sid)) \<Longrightarrow> sell_prices (owned_of db sid) = sells_of db sid"
  by (simp add: sell_prices_def js_map_distinct_id comp_def sell_of_def)

lemma squad_invD:
  assumes "squad_inv db"
  shows "players_ok (t_players db)" "distinct (map sq_id (t_squads db))"
    "s \<in> set (t_squads db) \<Longrightarrow> squad_ok db s" "distinct (map row_key (t_squadPlayers db))"
    "sp \<in> set (t_squadPlayers db) \<Longrightarrow> row_ok db sp" "chips_unique (t_chips db)"
    "u \<in> set (t_chips db) \<Longrightarrow> chip_ok db u"
    "sp \<in> set (playersOf db sid) \<Longrightarrow> row_ok db sp"
    "distinct (map sp_playerId (playersOf db sid))"
  using assms distinct_playersOf by (auto simp: squad_inv_def playersOf_def)

lemma squad_inv_owned:
  assumes "squad_inv db"
  shows "res_map (with_player db) (playersOf db sid) = Inr (owned_of db sid)"
    and "sell_prices (owned_of db sid) = sells_of db sid"
  using squad_invD(8,9) [OF assms] by (auto intro!: owned_rows sell_prices_owned simp: row_ok_def)

lemma sell_of_ok:
  assumes "squad_inv db" "sp \<in> set (playersOf db sid)"
  shows "price_ok (sell_of db sp)"
proof -
  have "row_ok db sp" using assms squad_invD(8) by blast
  then obtain p where p: "findPlayer db (sp_playerId sp) = Some p" "p \<in> set (t_players db)"
      and pp: "price_ok (sp_purchasePrice sp)"
    using findPlayer_known [of "sp_playerId sp" db] by (auto simp: row_ok_def)
  have "price_ok (pv_price p)" using p(2) squad_invD(1) [OF assms(1)] by (simp add: players_ok_def)
  then show ?thesis using pp selling_price_nonneg by (simp add: sell_of_def p(1) price_ok_def)
qed

section \<open>What the update writes\<close>

definition relineup :: "string \<Rightarrow> squad_player \<Rightarrow> selection \<Rightarrow> squad_player" where
  "relineup sid sp sel = (if sp_squadId sp = sid \<and> sp_playerId sp = sel_playerId sel
                          then signing sid sel (sp_purchasePrice sp) else sp)"

lemma relineup_keeps [simp]:
  "sp_squadId (relineup sid sp sel) = sp_squadId sp" "sp_playerId (relineup sid sp sel) = sp_playerId sp"
  "sp_purchasePrice (relineup sid sp sel) = sp_purchasePrice sp"
  by (simp_all add: relineup_def signing_def)

lemma foldl_relineup_keeps [simp]:
  "sp_squadId (foldl (relineup sid) sp sels) = sp_squadId sp"
  "sp_playerId (foldl (relineup sid) sp sels) = sp_playerId sp"
  "sp_purchasePrice (foldl (relineup sid) sp sels) = sp_purchasePrice sp"
  by (induction sels arbitrary: sp) simp_all

lemma foldl_relineup_other:
  "sp_squadId sp \<noteq> sid \<or> sp_playerId sp \<notin> sel_playerId ` set sels \<Longrightarrow> foldl (relineup sid) sp sels = sp"
  by (induction sels arbitrary: sp) (auto simp: relineup_def)

lemma foldl_relineup_hit:
  assumes "distinct (map sel_playerId sels)" "sel \<in> set sels" "sp_squadId sp = sid" "sp_playerId sp = sel_playerId sel"
  shows "foldl (relineup sid) sp sels = signing sid sel (sp_purchasePrice sp)"
  using assms
proof (induction sels arbitrary: sp)
  case (Cons s sels)
  show ?case
  proof (cases "s = sel")
    case True
    with Cons.prems have "relineup sid sp s = signing sid sel (sp_purchasePrice sp)" by (simp add: relineup_def)
    with True Cons.prems show ?thesis by (simp add: foldl_relineup_other signing_def)
  next
    case False
    with Cons.prems have "sel \<in> set sels" "sel_playerId s \<noteq> sel_playerId sel" by (auto simp: rev_image_eqI)
    with Cons.prems have "relineup sid sp s = sp" by (simp add: relineup_def)
    with Cons False show ?thesis by simp
  qed
qed simp

lemma foldl_updateLineup:
  "foldl (updateLineup sid) db sels = db\<lparr>t_squadPlayers := map (\<lambda>sp. foldl (relineup sid) sp sels) (t_squadPlayers db)\<rparr>"
  by (induction sels arbitrary: db) (simp_all add: updateLineup_def comp_def relineup_def)

abbreviation kept_sels :: "(int \<times> rat) list \<Rightarrow> selection list \<Rightarrow> selection list" where
  "kept_sels sells sels \<equiv> filter (\<lambda>s. sel_playerId s \<in> fst ` set sells) sels"

abbreviation new_sels :: "(int \<times> rat) list \<Rightarrow> selection list \<Rightarrow> selection list" where
  "new_sels sells sels \<equiv> filter (\<lambda>s. sel_playerId s \<notin> fst ` set sells) sels"

abbreviation signings :: "string \<Rightarrow> validation_player list \<Rightarrow> selection list \<Rightarrow> squad_player list" where
  "signings sid ps sels \<equiv> map (\<lambda>sel. signing sid sel (pv_price (player_of ps sel))) sels"

definition updated_row :: "nat list option \<Rightarrow> rat \<Rightarrow> transfer_plan \<Rightarrow> int \<Rightarrow> squad_row \<Rightarrow> squad_row" where
  "updated_row name budget plan stamp s = s\<lparr>
     sq_name := (case name of None \<Rightarrow> sq_name s | Some n \<Rightarrow> n), sq_budgetRemaining := budget,
     sq_freeTransfers := (if tp_gameweek plan = None then sq_freeTransfers s else tp_left plan),
     sq_freeTransfersGameweekId := (if tp_gameweek plan = None then sq_freeTransfersGameweekId s else tp_gameweek plan),
     sq_updatedAt := stamp\<rparr>"

lemma write_update_Inr:
  assumes "write_update db stamp sid name sels ps sells budget sold plan = Inr db'"
  defines "rows \<equiv> map (\<lambda>sp. foldl (relineup sid) sp (kept_sels sells sels))
      (filter (\<lambda>sp. \<not> (sp_squadId sp = sid \<and> sp_playerId sp \<in> set sold)) (t_squadPlayers db))
    @ signings sid ps (new_sels sells sels)"
  shows "distinct (map row_key rows)"
    and "db' = db\<lparr>t_squads := map (\<lambda>s. if sq_id s = sid then updated_row name budget plan stamp s else s) (t_squads db),
       t_squadPlayers := rows, t_transfers := t_transfers db @ transfer_rows sid ps sells plan\<rparr>"
  using assms(1) unfolding updated_row_def
  by (simp_all add: write_update_def Let_def foldl_updateLineup insertPlayers_Inr_iff updateSquadRow_def
      deletePlayers_def rows_def del: de_Morgan_conj)

lemma update_transactionE:
  assumes inv: "squad_inv db" and run: "update_transaction db env sid input name sels = Inr (db', gov)"
  obtains squad validated transfers plan where
    "findSquad db sid = Some squad" "gov = nextUnfinished (t_gameweeks db)"
    "revision_ok squad (ui_expectedUpdatedAt input) = Inr ()"
    "validateSquad sels (priced (sells_of db sid) (playersById db (map sel_playerId sels)))
       (available_funds squad (sells_of db sid)) = Inr validated"
    "pairTransfers
       (map (\<lambda>sp. (sp_playerId sp, pv_position (the (findPlayer db (sp_playerId sp)))))
         (filter (\<lambda>sp. sp_playerId sp \<notin> sel_playerId ` set sels) (playersOf db sid)))
       (map (\<lambda>p. (pv_id p, pv_position p))
         (filter (\<lambda>p. pv_id p \<notin> sp_playerId ` set (playersOf db sid)) (playersById db (map sel_playerId sels))))
       = Inr transfers"
    "plan_transfers db squad gov transfers = Inr plan"
    "write_update db (ue_stamp env) sid name sels (playersById db (map sel_playerId sels)) (sells_of db sid)
       (tenths (available_funds squad (sells_of db sid) - vs_totalCost validated))
       (map sp_playerId (filter (\<lambda>sp. sp_playerId sp \<notin> sel_playerId ` set sels) (playersOf db sid))) plan = Inr db'"
  using run squad_inv_owned [OF inv, of sid]
  by (auto simp: update_transaction_def Let_def filter_map comp_def image_image
      split: option.splits sum.splits)

lemma updateSquadE:
  assumes "updateSquad db env sid input uid = Inr db'"
  obtains name sels db1 gov where
    "fast_fail env sid input uid = Inr (name, sels)"
    "update_transaction db env sid input name sels = Inr (db1, gov)"
    "not_locked (ue_gameweeks env) = Inr ()"
    "assertGameweeksOpen (ue_gameweeks env) (ue_clock2 env)
       (map gw_id (case currentGameweek (ue_before env) of None \<Rightarrow> [] | Some g \<Rightarrow> [g])
        @ map gw_id (case gov of None \<Rightarrow> [] | Some g \<Rightarrow> [g])) = Inr ()"
    "db' = db1\<lparr>t_gameweeks := ue_gameweeks env\<rparr>"
proof -
  have "locked r = Inr () \<longleftrightarrow> r = Inr ()" for r by (simp add: locked_def split: sum.splits)
  then show thesis using assms that by (auto simp: updateSquad_def split: prod.splits)
qed

section \<open>The money\<close>

lemma player_map_lookup:
  assumes "distinct (map pv_id ps)" "p \<in> set ps"
  shows "map_of (player_map ps) (pv_id p) = Some p"
  using assms by (simp add: player_map_def js_map_distinct_id comp_def map_of_eq_Some_iff image_iff)

lemma map_pv_id_priced [simp]: "map pv_id (priced sells ps) = map pv_id ps"
  by (auto simp: priced_def split: option.splits)

lemma playersById_ok:
  assumes "players_ok (t_players db)"
  shows "distinct (map pv_id (playersById db ids))"
    and "i \<in> set ids \<Longrightarrow> i \<in> pv_id ` set (t_players db) \<Longrightarrow>
      map_of (player_map (playersById db ids)) i = findPlayer db i \<and> findPlayer db i \<noteq> None"
    and "set (map pv_id (playersById db ids)) = set ids \<inter> pv_id ` set (t_players db)"
proof -
  show d: "distinct (map pv_id (playersById db ids))"
    using assms by (simp add: playersById_def players_ok_def distinct_map_filter)
  show "set (map pv_id (playersById db ids)) = set ids \<inter> pv_id ` set (t_players db)"
    by (auto simp: playersById_def)
  assume "i \<in> set ids" "i \<in> pv_id ` set (t_players db)"
  then obtain p where p: "p \<in> set (t_players db)" "pv_id p = i" "p \<in> set (playersById db ids)"
    by (auto simp: playersById_def)
  then show "map_of (player_map (playersById db ids)) i = findPlayer db i \<and> findPlayer db i \<noteq> None"
    using player_map_lookup [OF d p(3)] findPlayer_unique [OF assms p(1)] by simp
qed

text \<open>What a player is worth to the squad: his selling price if owned, his price otherwise.\<close>

definition worth :: "squad_db \<Rightarrow> string \<Rightarrow> int \<Rightarrow> rat" where
  "worth db sid i = (case map_of (sells_of db sid) i of Some v \<Rightarrow> v | None \<Rightarrow> pv_price (the (findPlayer db i)))"

lemma priced_worth:
  assumes "players_ok (t_players db)" "i \<in> set ids" "i \<in> pv_id ` set (t_players db)"
  shows "pv_price (the (map_of (player_map (priced (sells_of db sid) (playersById db ids))) i)) = worth db sid i"
proof -
  let ?ps = "playersById db ids" and ?f = "\<lambda>p. case map_of (sells_of db sid) (pv_id p) of Some v \<Rightarrow> p\<lparr>pv_price := v\<rparr> | None \<Rightarrow> p"
  obtain p where p: "p \<in> set ?ps" "pv_id p = i" "findPlayer db i = Some p"
    using assms findPlayer_unique by (auto simp: playersById_def)
  have id: "pv_id (?f p) = i" using p(2) by (simp split: option.splits)
  have "distinct (map pv_id (priced (sells_of db sid) ?ps))" using playersById_ok(1) [OF assms(1)] by simp
  moreover have "?f p \<in> set (priced (sells_of db sid) ?ps)" using p(1) by (auto simp: priced_def)
  ultimately have "map_of (player_map (priced (sells_of db sid) ?ps)) (pv_id (?f p)) = Some (?f p)"
    by (rule player_map_lookup)
  then show ?thesis using p(2,3) by (simp add: id worth_def split: option.splits)
qed

lemma worth_owned:
  assumes "distinct (map sp_playerId (playersOf db sid))" "sp \<in> set (playersOf db sid)"
  shows "worth db sid (sp_playerId sp) = sell_of db sp"
proof -
  have "map_of (sells_of db sid) (sp_playerId sp) = Some (sell_of db sp)"
    using assms by (intro map_of_is_SomeI) (auto simp: comp_def)
  then show ?thesis by (simp add: worth_def)
qed

lemma worth_new: "i \<notin> sp_playerId ` set (playersOf db sid) \<Longrightarrow> worth db sid i = pv_price (the (findPlayer db i))"
proof -
  assume "i \<notin> sp_playerId ` set (playersOf db sid)"
  then have "map_of (sells_of db sid) i = None" by (auto simp: map_of_eq_None_iff)
  then show ?thesis by (simp add: worth_def)
qed

lemma worth_ok:
  assumes inv: "squad_inv db" and "i \<in> pv_id ` set (t_players db)"
  shows "price_ok (worth db sid i)"
proof (cases "i \<in> sp_playerId ` set (playersOf db sid)")
  case True
  then show ?thesis using worth_owned [OF squad_invD(9) [OF inv]] sell_of_ok [OF inv] by auto
next
  case False
  obtain p where "findPlayer db i = Some p" "p \<in> set (t_players db)"
    using assms(2) findPlayer_known by blast
  then show ?thesis using worth_new [OF False] squad_invD(1) [OF inv] by (simp add: players_ok_def)
qed

text \<open>A validated selection costs the worth of its players, and the bank keeps the rest.\<close>

lemma validated_update:
  assumes inv: "squad_inv db" and squad: "findSquad db sid = Some squad"
    and v: "validateSquad sels (priced (sells_of db sid) (playersById db (map sel_playerId sels)))
       (available_funds squad (sells_of db sid)) = Inr validated"
  shows "length sels = 15" "distinct (map sel_playerId sels)" "sel_playerId ` set sels \<subseteq> pv_id ` set (t_players db)"
    and "available_funds squad (sells_of db sid) = sq_budgetRemaining squad + (\<Sum>sp\<leftarrow>playersOf db sid. sell_of db sp)"
    and "vs_totalCost validated = (\<Sum>s\<leftarrow>sels. worth db sid (sel_playerId s))"
    and "tenths (available_funds squad (sells_of db sid) - vs_totalCost validated)
       = sq_budgetRemaining squad + (\<Sum>sp\<leftarrow>playersOf db sid. sell_of db sp) - (\<Sum>s\<leftarrow>sels. worth db sid (sel_playerId s))"
    and "0 \<le> tenths (available_funds squad (sells_of db sid) - vs_totalCost validated)"
proof -
  let ?ids = "map sel_playerId sels"
  let ?ps = "priced (sells_of db sid) (playersById db ?ids)"
  note res = validateSquad_result [OF v] and pok = squad_invD(1) [OF inv]
  have known: "set (map pv_id ?ps) = set ?ids \<inter> pv_id ` set (t_players db)"
    unfolding map_pv_id_priced by (rule playersById_ok(3) [OF pok])
  show len: "length sels = 15" and d: "distinct ?ids" using res(6) by (simp_all add: valid_squad_def)
  have "sel_playerId ` set sels \<subseteq> pv_id ` set ?ps" using res(6) by (simp add: valid_squad_def)
  then show ids: "sel_playerId ` set sels \<subseteq> pv_id ` set (t_players db)" using known unfolding set_map by blast
  have sq: "price_ok (sq_budgetRemaining squad)"
    using squad squad_invD(2,3) [OF inv] by (auto simp: findSquad_Some_iff squad_ok_def)
  have sell: "is_tenth (\<Sum>sp\<leftarrow>playersOf db sid. sell_of db sp)"
    using sell_of_ok [OF inv] by (auto intro: is_tenth_sum_list simp: price_ok_def)
  then show funds: "available_funds squad (sells_of db sid) = sq_budgetRemaining squad + (\<Sum>sp\<leftarrow>playersOf db sid. sell_of db sp)"
    using sq by (simp add: available_funds_def comp_def tenths_id is_tenth_arith price_ok_def)
  have tw: "is_tenth (\<Sum>s\<leftarrow>sels. worth db sid (sel_playerId s))"
    using worth_ok [OF inv] ids by (auto intro!: is_tenth_sum_list simp: price_ok_def subset_iff)
  have "map (\<lambda>s. pv_price (player_of ?ps s)) sels = map (\<lambda>s. worth db sid (sel_playerId s)) sels"
    using priced_worth [OF pok, of _ ?ids sid] ids by (auto simp: subset_iff)
  then have "(\<Sum>s\<leftarrow>sels. pv_price (player_of ?ps s)) = (\<Sum>s\<leftarrow>sels. worth db sid (sel_playerId s))"
    by (rule arg_cong [of _ _ sum_list])
  then have "(\<Sum>p\<leftarrow>selected ?ps sels. pv_price p) = (\<Sum>s\<leftarrow>sels. worth db sid (sel_playerId s))"
    by (simp add: selected_def comp_def)
  then show cost: "vs_totalCost validated = (\<Sum>s\<leftarrow>sels. worth db sid (sel_playerId s))"
    using tw unfolding res(5) total_cost_def tenths_def [symmetric] by (simp add: tenths_id)
  show "tenths (available_funds squad (sells_of db sid) - vs_totalCost validated)
       = sq_budgetRemaining squad + (\<Sum>sp\<leftarrow>playersOf db sid. sell_of db sp) - (\<Sum>s\<leftarrow>sels. worth db sid (sel_playerId s))"
    using sq sell tw unfolding funds cost by (simp add: tenths_id is_tenth_arith price_ok_def)
  show "0 \<le> tenths (available_funds squad (sells_of db sid) - vs_totalCost validated)"
    using res(5,6) by (auto intro!: tenths_nonneg simp: valid_squad_def)
qed

section \<open>The squad after an update\<close>

lemma update_rows:
  assumes inv: "squad_inv db"
    and w: "write_update db stamp sid name sels ps (sells_of db sid) budget
      (map sp_playerId (filter (\<lambda>sp. sp_playerId sp \<notin> sel_playerId ` set sels) (playersOf db sid))) plan = Inr db'"
  shows "playersOf db' sid = map (\<lambda>sp. foldl (relineup sid) sp (kept_sels (sells_of db sid) sels))
        (filter (\<lambda>sp. sp_playerId sp \<in> sel_playerId ` set sels) (playersOf db sid))
      @ signings sid ps (new_sels (sells_of db sid) sels)"
    and "other \<noteq> sid \<Longrightarrow> playersOf db' other = playersOf db other"
proof -
  let ?sold = "map sp_playerId (filter (\<lambda>sp. sp_playerId sp \<notin> sel_playerId ` set sels) (playersOf db sid))"
  let ?keep = "\<lambda>sp. \<not> (sp_squadId sp = sid \<and> sp_playerId sp \<in> set ?sold)"
  let ?re = "\<lambda>sp. foldl (relineup sid) sp (kept_sels (sells_of db sid) sels)"
  have rows: "t_squadPlayers db' = map ?re (filter ?keep (t_squadPlayers db)) @ signings sid ps (new_sels (sells_of db sid) sels)"
    using write_update_Inr(2) [OF w] by simp
  have "filter (\<lambda>sp. ?keep sp \<and> sp_squadId sp = sid) (t_squadPlayers db)
      = filter (\<lambda>sp. sp_squadId sp = sid \<and> sp_playerId sp \<in> sel_playerId ` set sels) (t_squadPlayers db)"
    using squad_invD(4) [OF inv] by (intro filter_cong) (auto simp: playersOf_def)
  then have "filter (\<lambda>sp. sp_squadId sp = sid) (filter ?keep (t_squadPlayers db))
      = filter (\<lambda>sp. sp_playerId sp \<in> sel_playerId ` set sels) (playersOf db sid)"
    unfolding playersOf_def filter_filter by (simp add: conj_commute)
  then show "playersOf db' sid = map ?re
        (filter (\<lambda>sp. sp_playerId sp \<in> sel_playerId ` set sels) (playersOf db sid))
      @ signings sid ps (new_sels (sells_of db sid) sels)"
    unfolding playersOf_def [of db'] rows
    by (simp add: filter_map comp_def signing_def del: filter_filter)
  assume other: "other \<noteq> sid"
  have "filter (\<lambda>sp. sp_squadId sp = other) (map ?re (filter ?keep (t_squadPlayers db)))
      = map ?re (filter (\<lambda>sp. sp_squadId sp = other) (t_squadPlayers db))"
  proof -
    have "filter (\<lambda>sp. ?keep sp \<and> sp_squadId sp = other) (t_squadPlayers db)
        = filter (\<lambda>sp. sp_squadId sp = other) (t_squadPlayers db)"
      using other by (intro filter_cong) auto
    then show ?thesis unfolding filter_map comp_def filter_filter by (simp add: conj_commute)
  qed
  also have "\<dots> = filter (\<lambda>sp. sp_squadId sp = other) (t_squadPlayers db)"
    using other by (intro map_idI) (auto intro: foldl_relineup_other)
  finally show "playersOf db' other = playersOf db other"
    using other unfolding playersOf_def rows by (simp add: filter_map comp_def signing_def)
qed

text \<open>The ids, the worth and the lineup of the new rows.\<close>

lemma updated_squad:
  assumes inv: "squad_inv db" and ids: "sel_playerId ` set sels \<subseteq> pv_id ` set (t_players db)"
    and d: "distinct (map sel_playerId sels)"
    and w: "write_update db stamp sid name sels (playersById db (map sel_playerId sels)) (sells_of db sid) budget
      (map sp_playerId (filter (\<lambda>sp. sp_playerId sp \<notin> sel_playerId ` set sels) (playersOf db sid))) plan = Inr db'"
  shows "sp_playerId ` set (playersOf db' sid) = sel_playerId ` set sels"
    and "distinct (map sp_playerId (playersOf db' sid))"
    and "sel \<in> set sels \<Longrightarrow> \<exists>price. signing sid sel price \<in> set (playersOf db' sid)"
    and "sp' \<in> set (playersOf db' sid) \<Longrightarrow>
      (\<exists>sp \<in> set (playersOf db sid). sp_playerId sp = sp_playerId sp' \<and> sp_purchasePrice sp' = sp_purchasePrice sp)
      \<or> (sp_playerId sp' \<notin> sp_playerId ` set (playersOf db sid)
         \<and> sp_purchasePrice sp' = pv_price (the (findPlayer db (sp_playerId sp'))))"
proof -
  let ?rows = "playersOf db sid" and ?sells = "sells_of db sid" and ?ps = "playersById db (map sel_playerId sels)"
  note rows = update_rows(1) [OF inv w]
  have sells: "fst ` set ?sells = sp_playerId ` set ?rows" by (auto simp: image_image)
  have "distinct (map row_key (t_squadPlayers db'))"
    using write_update_Inr [OF w] by simp
  then show "distinct (map sp_playerId (playersOf db' sid))" by (rule distinct_playersOf)
  show hit: "\<exists>price. signing sid sel price \<in> set (playersOf db' sid)" if s: "sel \<in> set sels" for sel
  proof (cases "sel_playerId sel \<in> sp_playerId ` set ?rows")
    case True
    then obtain sp where sp: "sp \<in> set ?rows" "sp_playerId sp = sel_playerId sel" by auto
    have "foldl (relineup sid) sp (kept_sels ?sells sels) = signing sid sel (sp_purchasePrice sp)"
      using sp s d True by (intro foldl_relineup_hit) (auto simp: image_image distinct_map_filter playersOf_def)
    then show ?thesis unfolding rows using sp s
      by (intro exI [of _ "sp_purchasePrice sp"]) (auto intro!: image_eqI [of _ _ sp])
  next
    case False
    then show ?thesis unfolding rows sells using s by auto
  qed
  have "sp_playerId (signing sid sel price) = sel_playerId sel" for sel price by (simp add: signing_def)
  with hit have "sel_playerId ` set sels \<subseteq> sp_playerId ` set (playersOf db' sid)" by (metis image_subsetI image_eqI)
  moreover have "sp_playerId ` set (playersOf db' sid) \<subseteq> sel_playerId ` set sels"
    unfolding rows by (auto simp: signing_def)
  ultimately show "sp_playerId ` set (playersOf db' sid) = sel_playerId ` set sels" by blast
  show "(\<exists>sp \<in> set ?rows. sp_playerId sp = sp_playerId sp' \<and> sp_purchasePrice sp' = sp_purchasePrice sp)
      \<or> (sp_playerId sp' \<notin> sp_playerId ` set ?rows \<and> sp_purchasePrice sp' = pv_price (the (findPlayer db (sp_playerId sp'))))"
    if "sp' \<in> set (playersOf db' sid)"
  proof -
    have "map_of (player_map ?ps) (sel_playerId sel) = findPlayer db (sel_playerId sel)" if "sel \<in> set sels" for sel
      using playersById_ok(2) [OF squad_invD(1) [OF inv], of "sel_playerId sel" "map sel_playerId sels"] ids that by auto
    then show ?thesis using that unfolding rows sells by (fastforce simp: signing_def)
  qed
qed

lemma squad_value_conserved:
  assumes inv: "squad_inv db" and ids: "sel_playerId ` set sels \<subseteq> pv_id ` set (t_players db)"
    and d: "distinct (map sel_playerId sels)"
    and w: "write_update db stamp sid name sels (playersById db (map sel_playerId sels)) (sells_of db sid) budget
      (map sp_playerId (filter (\<lambda>sp. sp_playerId sp \<notin> sel_playerId ` set sels) (playersOf db sid))) plan = Inr db'"
  shows "(\<Sum>sp\<leftarrow>playersOf db' sid. sell_of db sp) = (\<Sum>s\<leftarrow>sels. worth db sid (sel_playerId s))"
proof -
  note up = updated_squad [OF inv ids d w]
  have "sell_of db sp' = worth db sid (sp_playerId sp')" if "sp' \<in> set (playersOf db' sid)" for sp'
  proof (cases "sp_playerId sp' \<in> sp_playerId ` set (playersOf db sid)")
    case True
    with up(4) [OF that] obtain sp where "sp \<in> set (playersOf db sid)" "sp_playerId sp = sp_playerId sp'"
        "sp_purchasePrice sp' = sp_purchasePrice sp" by auto
    then show ?thesis using worth_owned [OF squad_invD(9) [OF inv]] by (metis sell_of_def)
  next
    case False
    with up(4) [OF that] have pp: "sp_purchasePrice sp' = pv_price (the (findPlayer db (sp_playerId sp')))"
      by (metis imageI)
    have "sp_playerId sp' \<in> pv_id ` set (t_players db)" using up(1) that ids by blast
    then have "is_tenth (worth db sid (sp_playerId sp'))" using worth_ok [OF inv] by (simp add: price_ok_def)
    then show ?thesis using pp worth_new [OF False] by (simp add: sell_of_def selling_price_unchanged)
  qed
  then have "(\<Sum>sp\<leftarrow>playersOf db' sid. sell_of db sp) = (\<Sum>i\<leftarrow>map sp_playerId (playersOf db' sid). worth db sid i)"
    by (simp add: comp_def cong: map_cong)
  also have "\<dots> = (\<Sum>i\<in>sel_playerId ` set sels. worth db sid i)"
    using sum_list_distinct_conv_sum_set [OF up(2)] up(1) by simp
  also have "\<dots> = (\<Sum>i\<leftarrow>map sel_playerId sels. worth db sid i)"
    using sum_list_distinct_conv_sum_set [OF d, of "worth db sid"] by simp
  finally show ?thesis by (simp add: comp_def)
qed

section \<open>Updates are race-free\<close>

lemma not_locked_iff: "not_locked gws = Inr () \<longleftrightarrow> (\<forall>g \<in> set gws. gw_isLocked g \<longrightarrow> gw_settled g)"
  by (auto simp: not_locked_def lockedUnsettled_def find_None_iff dest: find_SomeD split: option.splits)

lemma nextUnfinished_first:
  assumes "nextUnfinished gws = Some g"
  shows "g \<in> set gws" "\<not> gw_isFinished g" "\<And>h. h \<in> set gws \<Longrightarrow> \<not> gw_isFinished h \<Longrightarrow> gw_deadline g \<le> gw_deadline h"
proof -
  let ?c = "asc (\<lambda>g. rat_of_int (gw_deadline g))" and ?open = "filter (\<lambda>g. \<not> gw_isFinished g) gws"
  obtain gs where gs: "js_sort ?c ?open = g # gs" using assms by (auto simp: nextUnfinished_def split: list.splits)
  have s: "set ?open = set (g # gs)" using gs by (metis set_js_sort)
  then have "g \<in> set ?open" by simp
  then show "g \<in> set gws" "\<not> gw_isFinished g" by auto
  have sorted: "sorted_wrt (\<lambda>x y. ?c x y \<le> 0) (g # gs)"
    using comparator.sorted_js_sort [OF comparator_asc, of "\<lambda>g. rat_of_int (gw_deadline g)" ?open] gs by simp
  fix h assume "h \<in> set gws" "\<not> gw_isFinished h"
  then have "h \<in> set (g # gs)" using s by auto
  then show "gw_deadline g \<le> gw_deadline h" using sorted by (auto simp: asc_def)
qed

lemma nextUnfinished_None: "nextUnfinished gws = None \<longleftrightarrow> (\<forall>g \<in> set gws. gw_isFinished g)"
  by (metis (mono_tags, lifting) empty_filter_conv list.exhaust list.simps(4,5) js_sort_Nil length_0_conv
      length_js_sort nextUnfinished_def option.distinct(1))

lemma fast_fail_ok:
  assumes "fast_fail env sid input uid = Inr (name, sels)"
  shows "ui_players input = Some sels"
    and "\<exists>s. findSquad (ue_before env) sid = Some s \<and> (uid = None \<or> uid = Some [] \<or> uid = Some (sq_userId s))"
  using assms by (auto simp: fast_fail_def Let_def split: option.splits if_splits)

text \<open>
  C10. A squad update is race-free. If it commits, then at the last reading of the database clock
  before the commit the gameweek that governed it (the earliest unfinished one, read under the lock)
  and the gameweek that was current at the start were neither locked nor past their deadline, no
  gameweek at all was locked without being settled, and the request came from the squad's owner or
  carried no user id.
\<close>

theorem updateSquad_race_free:
  assumes inv: "squad_inv db" and ok: "updateSquad db env sid input uid = Inr db'"
  shows "(\<forall>gw. nextUnfinished (t_gameweeks db) = Some gw \<or> currentGameweek (ue_before env) = Some gw \<longrightarrow>
            (\<forall>g \<in> set (ue_gameweeks env). gw_id g = gw_id gw \<longrightarrow> \<not> gw_isLocked g \<and> ue_clock2 env < gw_deadline g))
       \<and> (\<forall>g \<in> set (ue_gameweeks env). gw_isLocked g \<longrightarrow> gw_settled g)
       \<and> (\<exists>s. findSquad (ue_before env) sid = Some s \<and> (uid = None \<or> uid = Some [] \<or> uid = Some (sq_userId s)))"
  using ok
proof (rule updateSquadE)
  fix name sels db1 gov
  assume ff: "fast_fail env sid input uid = Inr (name, sels)"
    and tr: "update_transaction db env sid input name sels = Inr (db1, gov)"
    and nl: "not_locked (ue_gameweeks env) = Inr ()"
    and op: "assertGameweeksOpen (ue_gameweeks env) (ue_clock2 env)
       (map gw_id (case currentGameweek (ue_before env) of None \<Rightarrow> [] | Some g \<Rightarrow> [g])
        @ map gw_id (case gov of None \<Rightarrow> [] | Some g \<Rightarrow> [g])) = Inr ()"
  have gov: "gov = nextUnfinished (t_gameweeks db)" using update_transactionE [OF inv tr] by metis
  have "\<forall>g \<in> set (ue_gameweeks env). gw_id g = gw_id gw \<longrightarrow> \<not> gw_isLocked g \<and> ue_clock2 env < gw_deadline g"
    if "nextUnfinished (t_gameweeks db) = Some gw \<or> currentGameweek (ue_before env) = Some gw" for gw
    using op that unfolding assertGameweeksOpen_iff gov by auto
  then show ?thesis using nl fast_fail_ok(2) [OF ff] unfolding not_locked_iff by blast
qed

section \<open>Updates keep the invariant and the team value\<close>

lemma in_playersOf: "sp \<in> set (t_squadPlayers db) \<longleftrightarrow> sp \<in> set (playersOf db (sp_squadId sp))"
  by (simp add: playersOf_def)

lemma available_transfers_ok: "transfers_ok (sq_freeTransfers s) \<Longrightarrow> transfers_ok (available_transfers db s gw)"
  using rollFreeTransfers_bounds
  by (auto simp: available_transfers_def transfers_ok_def MAX_FREE_TRANSFERS_def Let_def split: option.splits)

lemma plan_transfers_ok:
  assumes "plan_transfers db s gov transfers = Inr plan" "transfers_ok (sq_freeTransfers s)"
  shows "transfers_ok (tp_left plan)"
proof (cases "transfers = []")
  case False
  then obtain gw where gw: "gov = Some gw" "tp_left plan = max 0 (available_transfers db s gw - int (length transfers))"
    using assms(1) by (auto simp: plan_transfers_def Let_def split: option.splits)
  show ?thesis using available_transfers_ok [OF assms(2), of db gw] unfolding gw(2) transfers_ok_def by linarith
qed (use assms in \<open>auto simp: plan_transfers_def\<close>)

lemma updated_row_simps [simp]:
  "sq_id (updated_row name budget plan stamp s) = sq_id s"
  "sq_userId (updated_row name budget plan stamp s) = sq_userId s"
  "sq_budgetRemaining (updated_row name budget plan stamp s) = budget"
  "sq_freeTransfers (updated_row name budget plan stamp s)
     = (if tp_gameweek plan = None then sq_freeTransfers s else tp_left plan)"
  by (simp_all add: updated_row_def)

lemma findPlayer_cong: "t_players db' = t_players db \<Longrightarrow> findPlayer db' = findPlayer db"
  by (simp add: findPlayer_def fun_eq_iff)

lemma map_id_update: "map f (map (\<lambda>x. if P x then g x else x) xs) = map f xs" if "\<And>x. f (g x) = f x"
  using that by simp

lemma squad_inv_gameweeks [simp]: "squad_inv (db\<lparr>t_gameweeks := gws\<rparr>) \<longleftrightarrow> squad_inv db"
  by (simp add: squad_inv_def squad_ok_def row_ok_def chip_ok_def snapshot_ok_def playersOf_def)

lemma update_transaction_inv:
  assumes inv: "squad_inv db" and run: "update_transaction db env sid input name sels = Inr (db', gov)"
  shows "squad_inv db'"
  using inv run
proof (rule update_transactionE)
  fix squad transfers plan and validated :: validated_squad
  let ?ps = "playersById db (map sel_playerId sels)"
  let ?budget = "tenths (available_funds squad (sells_of db sid) - vs_totalCost validated)"
  assume sq: "findSquad db sid = Some squad"
    and v: "validateSquad sels (priced (sells_of db sid) ?ps) (available_funds squad (sells_of db sid)) = Inr validated"
    and plan: "plan_transfers db squad gov transfers = Inr plan"
    and w: "write_update db (ue_stamp env) sid name sels ?ps (sells_of db sid) ?budget
       (map sp_playerId (filter (\<lambda>sp. sp_playerId sp \<notin> sel_playerId ` set sels) (playersOf db sid))) plan = Inr db'"
  note val = validated_update [OF inv sq v]
  note up = updated_squad [OF inv val(3,2) w] and other = update_rows(2) [OF inv w]
  note db' = write_update_Inr(2) [OF w]
  have squad: "squad \<in> set (t_squads db)" "sq_id squad = sid"
    using sq squad_invD(2) [OF inv] by (auto simp: findSquad_Some_iff)
  have sids: "map sq_id (t_squads db') = map sq_id (t_squads db)"
    unfolding db' by (simp add: comp_def if_distrib cong: if_cong)
  then have ids: "sq_id ` set (t_squads db') = sq_id ` set (t_squads db)" by (metis set_map)
  have len: "length (playersOf db' sid) = TOTAL_PLAYERS"
    using up(1,2) val(1,2) distinct_card [of "map sp_playerId (playersOf db' sid)"] distinct_card [of "map sel_playerId sels"]
    by (simp add: TOTAL_PLAYERS_def)
  have left: "transfers_ok (tp_left plan)"
    using plan plan_transfers_ok squad(1) squad_invD(3) [OF inv] by (auto simp: squad_ok_def)
  have "squad_ok db' s'" if "s' \<in> set (t_squads db')" for s'
  proof -
    from that obtain s where s: "s \<in> set (t_squads db)" "s' = (if sq_id s = sid then updated_row name ?budget plan (ue_stamp env) s else s)"
      by (auto simp: db')
    have "squad_ok db s" using s(1) squad_invD(3) [OF inv] by blast
    then show ?thesis
      using s(2) left len other val(7) by (auto simp: squad_ok_def price_ok_def)
  qed
  moreover have "row_ok db' sp'" if "sp' \<in> set (t_squadPlayers db')" for sp'
  proof (cases "sp_squadId sp' = sid")
    case True
    then have in': "sp' \<in> set (playersOf db' sid)" using that by (simp add: in_playersOf)
    then have pid: "sp_playerId sp' \<in> pv_id ` set (t_players db)" using up(1) val(3) by blast
    then have "price_ok (pv_price (the (findPlayer db (sp_playerId sp'))))"
      using findPlayer_known [OF pid] squad_invD(1) [OF inv] by (auto simp: players_ok_def)
    then have "price_ok (sp_purchasePrice sp')"
      using up(4) [OF in'] squad_invD(8) [OF inv] by (auto simp: row_ok_def)
    then show ?thesis using pid squad True ids by (auto simp: row_ok_def db')
  next
    case False
    then have "sp' \<in> set (t_squadPlayers db)" using that other in_playersOf by metis
    then have "row_ok db sp'" by (rule squad_invD(5) [OF inv])
    then show ?thesis using ids by (simp add: row_ok_def db')
  qed
  moreover have "distinct (map row_key (t_squadPlayers db'))" using write_update_Inr [OF w] by simp
  moreover have "distinct (map sq_id (t_squads db'))"
    using squad_invD(2) [OF inv] sids by simp
  moreover have "t_players db' = t_players db" "t_chips db' = t_chips db" by (simp_all add: db')
  ultimately show "squad_inv db'"
    using inv by (auto simp: squad_inv_def chip_ok_def snapshot_ok_def)
qed

lemma getSquadValuation_eq:
  assumes inv: "squad_inv db" and s: "findSquad db sid = Some s"
  shows "getSquadValuation db sid = Inr (sq_budgetRemaining s, \<Sum>sp\<leftarrow>playersOf db sid. sell_of db sp,
     sq_budgetRemaining s + (\<Sum>sp\<leftarrow>playersOf db sid. sell_of db sp))"
proof -
  have "is_tenth (\<Sum>sp\<leftarrow>playersOf db sid. sell_of db sp)"
    using sell_of_ok [OF inv] by (auto intro: is_tenth_sum_list simp: price_ok_def)
  moreover have "is_tenth (sq_budgetRemaining s)"
    using s squad_invD(2,3) [OF inv] by (auto simp: findSquad_Some_iff squad_ok_def price_ok_def)
  ultimately show ?thesis
    using s squad_inv_owned(1) [OF inv, of sid]
    by (simp add: getSquadValuation_def Let_def calculateTeamValue_def comp_def sell_of_def [symmetric] tenths_id is_tenth_arith)
qed

lemma playersOf_gameweeks [simp]: "playersOf (db\<lparr>t_gameweeks := g\<rparr>) sid = playersOf db sid"
  by (simp add: playersOf_def)

lemma findSquad_gameweeks [simp]: "findSquad (db\<lparr>t_gameweeks := g\<rparr>) sid = findSquad db sid"
  by (simp add: findSquad_def)

text \<open>Everything a committed update guarantees, in one place.\<close>

lemma updateSquad_commit:
  assumes inv: "squad_inv db" and ok: "updateSquad db env sid input uid = Inr db'"
  obtains sels squad squad' transfers plan where
    "ui_players input = Some sels" "findSquad db sid = Some squad" "findSquad db' sid = Some squad'" "squad_inv db'"
    "t_players db' = t_players db" "t_chips db' = t_chips db" "0 \<le> sq_budgetRemaining squad'"
    "sq_budgetRemaining squad' + (\<Sum>sp\<leftarrow>playersOf db' sid. sell_of db sp)
       = sq_budgetRemaining squad + (\<Sum>sp\<leftarrow>playersOf db sid. sell_of db sp)"
    "sp_playerId ` set (playersOf db' sid) = sel_playerId ` set sels" "distinct (map sel_playerId sels)"
    "sel_playerId ` set sels \<subseteq> pv_id ` set (t_players db)"
    "\<forall>sel \<in> set sels. \<exists>price. signing sid sel price \<in> set (playersOf db' sid)"
    "\<forall>other. other \<noteq> sid \<longrightarrow> playersOf db' other = playersOf db other"
    "pairTransfers
       (map (\<lambda>sp. (sp_playerId sp, pv_position (the (findPlayer db (sp_playerId sp)))))
         (filter (\<lambda>sp. sp_playerId sp \<notin> sel_playerId ` set sels) (playersOf db sid)))
       (map (\<lambda>p. (pv_id p, pv_position p))
         (filter (\<lambda>p. pv_id p \<notin> sp_playerId ` set (playersOf db sid)) (playersById db (map sel_playerId sels))))
       = Inr transfers"
    "plan_transfers db squad (nextUnfinished (t_gameweeks db)) transfers = Inr plan"
    "t_transfers db' = t_transfers db @ transfer_rows sid (playersById db (map sel_playerId sels)) (sells_of db sid) plan"
    "sq_freeTransfers squad' = (if tp_gameweek plan = None then sq_freeTransfers squad else tp_left plan)"
    "sq_freeTransfersGameweekId squad' = (if tp_gameweek plan = None then sq_freeTransfersGameweekId squad else tp_gameweek plan)"
  using ok
proof (rule updateSquadE)
  fix name sels db1 gov
  assume ff: "fast_fail env sid input uid = Inr (name, sels)"
    and tr: "update_transaction db env sid input name sels = Inr (db1, gov)"
    and db': "db' = db1\<lparr>t_gameweeks := ue_gameweeks env\<rparr>"
  show thesis
    using inv tr
  proof (rule update_transactionE)
    fix squad transfers plan and validated :: validated_squad
    let ?ps = "playersById db (map sel_playerId sels)"
    let ?budget = "tenths (available_funds squad (sells_of db sid) - vs_totalCost validated)"
    assume sq: "findSquad db sid = Some squad" and gov: "gov = nextUnfinished (t_gameweeks db)"
      and v: "validateSquad sels (priced (sells_of db sid) ?ps) (available_funds squad (sells_of db sid)) = Inr validated"
      and pt: "pairTransfers
         (map (\<lambda>sp. (sp_playerId sp, pv_position (the (findPlayer db (sp_playerId sp)))))
           (filter (\<lambda>sp. sp_playerId sp \<notin> sel_playerId ` set sels) (playersOf db sid)))
         (map (\<lambda>p. (pv_id p, pv_position p))
           (filter (\<lambda>p. pv_id p \<notin> sp_playerId ` set (playersOf db sid)) ?ps)) = Inr transfers"
      and plan: "plan_transfers db squad gov transfers = Inr plan"
      and w: "write_update db (ue_stamp env) sid name sels ?ps (sells_of db sid) ?budget
         (map sp_playerId (filter (\<lambda>sp. sp_playerId sp \<notin> sel_playerId ` set sels) (playersOf db sid))) plan = Inr db1"
    note val = validated_update [OF inv sq v] and db1 = write_update_Inr(2) [OF w]
    note up = updated_squad [OF inv val(3,2) w] and other = update_rows(2) [OF inv w]
    have inv1: "squad_inv db1" by (rule update_transaction_inv [OF inv tr])
    have squad: "squad \<in> set (t_squads db)" "sq_id squad = sid"
      using sq squad_invD(2) [OF inv] by (auto simp: findSquad_Some_iff)
    let ?squad' = "updated_row name ?budget plan (ue_stamp env) squad"
    have "?squad' \<in> set (t_squads db1)" using squad by (auto simp: db1)
    then have sq': "findSquad db1 sid = Some ?squad'"
      using squad(2) squad_invD(2) [OF inv1] by (simp add: findSquad_Some_iff)
    have b: "0 \<le> sq_budgetRemaining ?squad'" using val(7) by simp
    have e: "sq_budgetRemaining ?squad' + (\<Sum>sp\<leftarrow>playersOf db' sid. sell_of db sp)
         = sq_budgetRemaining squad + (\<Sum>sp\<leftarrow>playersOf db sid. sell_of db sp)"
      using val(6) squad_value_conserved [OF inv val(3,2) w] by (simp add: db')
    have tables: "t_players db1 = t_players db" "t_chips db1 = t_chips db"
        "t_transfers db1 = t_transfers db @ transfer_rows sid ?ps (sells_of db sid) plan"
      by (simp_all add: db1)
    have free: "sq_freeTransfersGameweekId ?squad'
        = (if tp_gameweek plan = None then sq_freeTransfersGameweekId squad else tp_gameweek plan)"
      by (simp add: updated_row_def)
    have c: "findSquad db' sid = Some ?squad'" "squad_inv db'" "t_players db' = t_players db"
        "t_chips db' = t_chips db" "sp_playerId ` set (playersOf db' sid) = sel_playerId ` set sels"
        "t_transfers db' = t_transfers db @ transfer_rows sid ?ps (sells_of db sid) plan"
      using sq' inv1 tables up(1) unfolding db' by simp_all
    have hit: "\<forall>sel \<in> set sels. \<exists>price. signing sid sel price \<in> set (playersOf db' sid)"
      using up(3) unfolding db' by simp
    have oth: "\<forall>other. other \<noteq> sid \<longrightarrow> playersOf db' other = playersOf db other"
      using other unfolding db' by simp
    show thesis
      by (rule that [OF fast_fail_ok(1) [OF ff] sq c(1-4) b e c(5) val(2,3) hit oth pt plan [unfolded gov] c(6)
            updated_row_simps(4) free])
  qed
qed

text \<open>What the history says of a planned list of transfers.\<close>

lemma transfer_rows_plan:
  fixes sid :: string and ps :: "validation_player list" and sells :: "(int \<times> rat) list"
  assumes "plan_transfers db s gov transfers = Inr plan"
  defines "hist \<equiv> transfer_rows sid ps sells plan"
  shows "map tr_playerOutId hist = map fst transfers" "map tr_playerInId hist = map snd transfers"
    and "transfers = [] \<Longrightarrow> tp_gameweek plan = None"
    and "transfers \<noteq> [] \<Longrightarrow> \<exists>gw. gov = Some gw \<and> tp_gameweek plan = Some (gw_id gw)
      \<and> (\<forall>tr \<in> set hist. tr_gameweekId tr = gw_id gw)
      \<and> map tr_pointsCost hist = calculateTransferCosts (length transfers) (available_transfers db s gw)
      \<and> tp_left plan = max 0 (available_transfers db s gw - int (length transfers))"
    and "tr \<in> set hist \<Longrightarrow> (tr_playerOutId tr, tr_playerInId tr) \<in> set transfers"
proof -
  have l: "length (calculateTransferCosts n free) = n" for n free by (simp add: calculateTransferCosts_def)
  have p: "map (fst \<circ> fst) (zip xs ys) = map fst xs" "map (snd \<circ> fst) (zip xs ys) = map snd xs"
    if "length ys = length xs" for xs :: "(int \<times> int) list" and ys :: "int list"
    using that by (metis map_fst_zip map_map)+
  show "map tr_playerOutId hist = map fst transfers" "map tr_playerInId hist = map snd transfers"
    using assms(1) p [of "tp_costs plan" transfers]
    by (auto simp: plan_transfers_def hist_def transfer_rows_def Let_def l comp_def case_prod_beta
        split: if_splits option.splits)
  show "transfers = [] \<Longrightarrow> tp_gameweek plan = None" using assms(1) by (auto simp: plan_transfers_def)
  show "transfers \<noteq> [] \<Longrightarrow> \<exists>gw. gov = Some gw \<and> tp_gameweek plan = Some (gw_id gw)
      \<and> (\<forall>tr \<in> set hist. tr_gameweekId tr = gw_id gw)
      \<and> map tr_pointsCost hist = calculateTransferCosts (length transfers) (available_transfers db s gw)
      \<and> tp_left plan = max 0 (available_transfers db s gw - int (length transfers))"
    using assms(1)
    by (auto simp: plan_transfers_def hist_def transfer_rows_def Let_def l comp_def case_prod_beta
        split: option.splits)
  show "tr \<in> set hist \<Longrightarrow> (tr_playerOutId tr, tr_playerInId tr) \<in> set transfers"
    using assms(1)
    by (auto simp: plan_transfers_def hist_def transfer_rows_def Let_def dest!: set_zip_leftD split: if_splits option.splits)
qed

text \<open>
  C11. A committed update conserves the team value: the bank and the selling value of the players
  together are the same before and after, whatever is bought and sold, the bank never goes negative,
  the squad owns exactly the selected players with the requested roles, and no other squad changes.
\<close>

theorem updateSquad_accounts:
  assumes inv: "squad_inv db" and ok: "updateSquad db env sid input uid = Inr db'"
  shows "\<exists>sels b v b' v' teamValue. ui_players input = Some sels
       \<and> getSquadValuation db sid = Inr (b, v, teamValue) \<and> getSquadValuation db' sid = Inr (b', v', teamValue)
       \<and> 0 \<le> b' \<and> length (playersOf db' sid) = 15
       \<and> sp_playerId ` set (playersOf db' sid) = sel_playerId ` set sels
       \<and> (\<forall>sel \<in> set sels. \<exists>price. signing sid sel price \<in> set (playersOf db' sid))
       \<and> (\<forall>other. other \<noteq> sid \<longrightarrow> playersOf db' other = playersOf db other)"
  using inv ok
proof (rule updateSquad_commit)
  fix sels and squad squad' :: squad_row
  assume a: "ui_players input = Some sels" "findSquad db sid = Some squad" "findSquad db' sid = Some squad'"
    and inv': "squad_inv db'" and players: "t_players db' = t_players db"
    and b: "0 \<le> sq_budgetRemaining squad'"
      "sq_budgetRemaining squad' + (\<Sum>sp\<leftarrow>playersOf db' sid. sell_of db sp)
       = sq_budgetRemaining squad + (\<Sum>sp\<leftarrow>playersOf db sid. sell_of db sp)"
    and c: "sp_playerId ` set (playersOf db' sid) = sel_playerId ` set sels"
      "\<forall>sel \<in> set sels. \<exists>price. signing sid sel price \<in> set (playersOf db' sid)"
      "\<forall>other. other \<noteq> sid \<longrightarrow> playersOf db' other = playersOf db other"
  have sell: "sell_of db' = sell_of db" using findPlayer_cong [OF players] by (simp add: sell_of_def fun_eq_iff)
  have "length (playersOf db' sid) = 15"
    using a(3) squad_invD(2,3) [OF inv'] by (auto simp: findSquad_Some_iff squad_ok_def TOTAL_PLAYERS_def)
  then show ?thesis
    using a(1) b c getSquadValuation_eq [OF inv a(2)] getSquadValuation_eq [OF inv' a(3)] unfolding sell
    by (intro exI conjI) (assumption | simp)+
qed

lemma owned_card:
  assumes inv: "squad_inv db" and "findSquad db sid = Some s"
  shows "card (sp_playerId ` set (playersOf db sid)) = 15" "transfers_ok (sq_freeTransfers s)"
proof -
  have "squad_ok db s" "sq_id s = sid" using assms squad_invD(2,3) [OF inv] by (auto simp: findSquad_Some_iff)
  then show "card (sp_playerId ` set (playersOf db sid)) = 15" "transfers_ok (sq_freeTransfers s)"
    using distinct_card [OF squad_invD(9) [OF inv, of sid]] by (simp_all add: squad_ok_def TOTAL_PLAYERS_def)
qed

lemma card_Diff_swap: "finite A \<Longrightarrow> finite B \<Longrightarrow> card A = card B \<Longrightarrow> card (A - B) = card (B - A)"
  by (simp add: card_Diff_subset_Int Int_commute)

text \<open>With as many incoming as outgoing players, the pairing uses all of them.\<close>

lemma pairTransfers_bijective:
  assumes pt: "pairTransfers outs ins = Inr ps" and di: "distinct (map fst ins)" and len: "length ins = length outs"
  shows "map fst ps = map fst outs" "distinct (map snd ps)" "set (map snd ps) = set (map fst ins)"
    and "(out, inn) \<in> set ps \<Longrightarrow> \<exists>pos. (out, pos) \<in> set outs \<and> (inn, pos) \<in> set ins"
proof -
  have d: "distinct ins" and inj: "inj_on fst (set ins)" using di by (simp_all add: distinct_map)
  obtain bs where bs: "length bs = length outs" "distinct bs" "set bs \<subseteq> set ins" "map snd bs = map snd outs"
      "ps = zip (map fst outs) (map fst bs)"
    using pairTransfers_sound [OF pt d] by blast
  have all: "set bs = set ins"
    using bs(1-3) len distinct_card [OF d] distinct_card [OF bs(2)] by (intro card_subset_eq) simp_all
  show "map fst ps = map fst outs" "distinct (map snd ps)" "set (map snd ps) = set (map fst ins)"
    using bs(1,2) inj all by (simp_all add: bs(5) distinct_map)
  assume "(out, inn) \<in> set ps"
  then obtain i where i: "i < length outs" "out = fst (outs ! i)" "inn = fst (bs ! i)"
    using bs(1) by (auto simp: bs(5) in_set_zip)
  then have "snd (bs ! i) = snd (outs ! i)" using bs(1,4) by (metis nth_map)
  moreover have "outs ! i \<in> set outs" "bs ! i \<in> set ins" using i(1) bs(1) all nth_mem by (metis nth_mem)+
  ultimately show "\<exists>pos. (out, pos) \<in> set outs \<and> (inn, pos) \<in> set ins" using i by (metis prod.collapse)
qed

lemma transfer_rows_cost:
  assumes plan: "plan_transfers db s gov transfers = Inr plan" and av: "\<And>gw. 0 \<le> available_transfers db s gw"
    and f: "free = (if tp_gameweek plan = None then sq_freeTransfers s else tp_left plan)"
      "gwid = (if tp_gameweek plan = None then old else tp_gameweek plan)"
  shows "transfer_rows sid ps sells plan = [] \<longrightarrow> free = sq_freeTransfers s"
    and "(transfer_rows sid ps sells plan \<noteq> [] \<longrightarrow> (\<exists>gw. gov = Some gw
        \<and> (\<forall>tr \<in> set (transfer_rows sid ps sells plan). tr_gameweekId tr = gw_id gw)
        \<and> (\<Sum>tr\<leftarrow>transfer_rows sid ps sells plan. tr_pointsCost tr)
             = 4 * max 0 (int (length (transfer_rows sid ps sells plan)) - available_transfers db s gw)
        \<and> free = max 0 (available_transfers db s gw - int (length (transfer_rows sid ps sells plan)))
        \<and> gwid = Some (gw_id gw)))"
proof -
  have len: "length (transfer_rows sid ps sells plan) = length transfers"
    using transfer_rows_plan(1) [OF plan, of sid ps sells] by (metis length_map)
  show "transfer_rows sid ps sells plan = [] \<longrightarrow> free = sq_freeTransfers s"
    using transfer_rows_plan(3) [OF plan] len f(1) by (cases "transfers = []") auto
  show "transfer_rows sid ps sells plan \<noteq> [] \<longrightarrow> (\<exists>gw. gov = Some gw
        \<and> (\<forall>tr \<in> set (transfer_rows sid ps sells plan). tr_gameweekId tr = gw_id gw)
        \<and> (\<Sum>tr\<leftarrow>transfer_rows sid ps sells plan. tr_pointsCost tr)
             = 4 * max 0 (int (length (transfer_rows sid ps sells plan)) - available_transfers db s gw)
        \<and> free = max 0 (available_transfers db s gw - int (length (transfer_rows sid ps sells plan)))
        \<and> gwid = Some (gw_id gw))"
  proof
    assume "transfer_rows sid ps sells plan \<noteq> []"
    then have "transfers \<noteq> []" using len by auto
    from transfer_rows_plan(4) [OF plan this, of sid ps sells] obtain gw where gw: "gov = Some gw"
        "tp_gameweek plan = Some (gw_id gw)" "\<forall>tr \<in> set (transfer_rows sid ps sells plan). tr_gameweekId tr = gw_id gw"
        "map tr_pointsCost (transfer_rows sid ps sells plan) = calculateTransferCosts (length transfers) (available_transfers db s gw)"
        "tp_left plan = max 0 (available_transfers db s gw - int (length transfers))" by blast
    then show "\<exists>gw. gov = Some gw
        \<and> (\<forall>tr \<in> set (transfer_rows sid ps sells plan). tr_gameweekId tr = gw_id gw)
        \<and> (\<Sum>tr\<leftarrow>transfer_rows sid ps sells plan. tr_pointsCost tr)
             = 4 * max 0 (int (length (transfer_rows sid ps sells plan)) - available_transfers db s gw)
        \<and> free = max 0 (available_transfers db s gw - int (length (transfer_rows sid ps sells plan)))
        \<and> gwid = Some (gw_id gw)"
      using len f av [of gw] by (intro exI [of _ gw]) (simp add: sum_transfer_costs)
  qed
qed

text \<open>
  The transfer history of a committed update records exactly the players that left and joined
  the squad, one pair per transfer and of the same position. All transfers count towards the
  earliest unfinished gameweek; each one beyond the available free transfers costs four points, the
  unused rest is kept, and a mere change of the lineup leaves the balance alone.
\<close>

theorem updateSquad_transfers:
  assumes inv: "squad_inv db" and ok: "updateSquad db env sid input uid = Inr db'"
  shows "\<exists>squad squad' hist. findSquad db sid = Some squad \<and> findSquad db' sid = Some squad'
       \<and> t_transfers db' = t_transfers db @ hist
       \<and> distinct (map tr_playerOutId hist) \<and> distinct (map tr_playerInId hist)
       \<and> tr_playerOutId ` set hist = sp_playerId ` set (playersOf db sid) - sp_playerId ` set (playersOf db' sid)
       \<and> tr_playerInId ` set hist = sp_playerId ` set (playersOf db' sid) - sp_playerId ` set (playersOf db sid)
       \<and> (\<forall>tr \<in> set hist. \<exists>p q. findPlayer db (tr_playerOutId tr) = Some p \<and> findPlayer db (tr_playerInId tr) = Some q
            \<and> pv_position p = pv_position q)
       \<and> (hist = [] \<longrightarrow> sq_freeTransfers squad' = sq_freeTransfers squad)
       \<and> (hist \<noteq> [] \<longrightarrow> (\<exists>gw. nextUnfinished (t_gameweeks db) = Some gw
            \<and> (\<forall>tr \<in> set hist. tr_gameweekId tr = gw_id gw)
            \<and> (\<Sum>tr\<leftarrow>hist. tr_pointsCost tr) = 4 * max 0 (int (length hist) - available_transfers db squad gw)
            \<and> sq_freeTransfers squad' = max 0 (available_transfers db squad gw - int (length hist))
            \<and> sq_freeTransfersGameweekId squad' = Some (gw_id gw)))"
  using inv ok
proof (rule updateSquad_commit)
  fix sels :: "selection list" and transfers plan and squad squad' :: squad_row
  let ?ps = "playersById db (map sel_playerId sels)"
  let ?outs = "map (\<lambda>sp. (sp_playerId sp, pv_position (the (findPlayer db (sp_playerId sp)))))
         (filter (\<lambda>sp. sp_playerId sp \<notin> sel_playerId ` set sels) (playersOf db sid))"
  let ?ins = "map (\<lambda>p. (pv_id p, pv_position p)) (filter (\<lambda>p. pv_id p \<notin> sp_playerId ` set (playersOf db sid)) ?ps)"
  let ?hist = "transfer_rows sid ?ps (sells_of db sid) plan"
  let ?old = "sp_playerId ` set (playersOf db sid)" and ?new = "sp_playerId ` set (playersOf db' sid)"
  assume a: "findSquad db sid = Some squad" "findSquad db' sid = Some squad'"
    and inv': "squad_inv db'"
    and c: "?new = sel_playerId ` set sels" "distinct (map sel_playerId sels)"
       "sel_playerId ` set sels \<subseteq> pv_id ` set (t_players db)"
    and pt: "pairTransfers ?outs ?ins = Inr transfers"
    and plan: "plan_transfers db squad (nextUnfinished (t_gameweeks db)) transfers = Inr plan"
    and h: "t_transfers db' = t_transfers db @ ?hist"
    and f: "sq_freeTransfers squad' = (if tp_gameweek plan = None then sq_freeTransfers squad else tp_left plan)"
      "sq_freeTransfersGameweekId squad' = (if tp_gameweek plan = None then sq_freeTransfersGameweekId squad else tp_gameweek plan)"
  have dfi: "distinct (map fst ?ins)"
    using playersById_ok(1) [OF squad_invD(1) [OF inv]] by (simp add: comp_def distinct_map_filter)
  have dfo: "distinct (map fst ?outs)" using squad_invD(9) [OF inv] by (simp add: comp_def distinct_map_filter)
  have fo: "set (map fst ?outs) = ?old - ?new" unfolding c(1) by auto
  have "set (map fst ?ins) = set (map pv_id ?ps) - ?old" by auto
  also have "\<dots> = ?new - ?old" using c(3) unfolding playersById_ok(3) [OF squad_invD(1) [OF inv]] c(1) by auto
  finally have fi: "set (map fst ?ins) = ?new - ?old" .
  have "length ?ins = length ?outs"
    using distinct_card [OF dfi] distinct_card [OF dfo] owned_card [OF inv a(1)] owned_card [OF inv' a(2)]
      card_Diff_swap [of ?old ?new] unfolding fo fi by simp
  note pairs = pairTransfers_bijective [OF pt dfi this]
  have ids: "distinct (map tr_playerOutId ?hist)" "distinct (map tr_playerInId ?hist)"
      "set (map tr_playerOutId ?hist) = ?old - ?new" "set (map tr_playerInId ?hist) = ?new - ?old"
    using dfo fo fi pairs(2,3) unfolding transfer_rows_plan(1,2) [OF plan] pairs(1) by blast+
  have pos: "\<exists>p q. findPlayer db (tr_playerOutId tr) = Some p \<and> findPlayer db (tr_playerInId tr) = Some q
            \<and> pv_position p = pv_position q" if "tr \<in> set ?hist" for tr
  proof -
    have "(tr_playerOutId tr, tr_playerInId tr) \<in> set transfers"
      using that transfer_rows_plan(5) [OF plan] by blast
    from pairs(4) [OF this] obtain pos where o: "(tr_playerOutId tr, pos) \<in> set ?outs" "(tr_playerInId tr, pos) \<in> set ?ins" by blast
    from o(2) obtain q where "q \<in> set (t_players db)" "pv_id q = tr_playerInId tr" and qp: "pv_position q = pos"
      by (auto simp: playersById_def)
    then have q: "findPlayer db (tr_playerInId tr) = Some q"
      using findPlayer_unique [OF squad_invD(1) [OF inv]] by metis
    obtain sp where sp: "sp \<in> set (playersOf db sid)" "tr_playerOutId tr = sp_playerId sp"
        "pos = pv_position (the (findPlayer db (sp_playerId sp)))" using o(1) by auto
    then obtain p where "findPlayer db (tr_playerOutId tr) = Some p"
      using squad_invD(8) [OF inv sp(1)] findPlayer_known [of "sp_playerId sp" db] by (auto simp: row_ok_def)
    then show ?thesis using q qp sp by auto
  qed
  have "0 \<le> available_transfers db squad gw" for gw
    using available_transfers_ok owned_card(2) [OF inv a(1)] by (simp add: transfers_ok_def)
  note cost = transfer_rows_cost [OF plan this f, of sid ?ps "sells_of db sid"]
  show ?thesis
    by (rule exI [of _ squad], rule exI [of _ squad'], rule exI [of _ ?hist])
      (intro conjI a h ids [unfolded set_map] cost ballI pos)
qed

section \<open>The other operations keep the invariant\<close>

lemma createSquad_inv:
  assumes inv: "squad_inv db" and ok: "createSquad db newId now uid name sels = Inr db'"
  shows "squad_inv db'"
proof -
  let ?ps = "playersById db (map sel_playerId sels)"
  obtain nm validated where v: "validateSquad sels ?ps STARTING_BUDGET = Inr validated"
      and new: "newId \<notin> sq_id ` set (t_squads db)"
      and ins: "insertPlayers (signings newId ?ps sels) (db\<lparr>t_squads := t_squads db @
        [\<lparr>sq_id = newId, sq_userId = uid, sq_name = nm, sq_budgetRemaining = tenths (100 - vs_totalCost validated),
          sq_freeTransfers = 1, sq_freeTransfersGameweekId = None, sq_updatedAt = now\<rparr>]\<rparr>) = Inr db'"
    using ok by (auto simp: createSquad_def Let_def split: option.splits sum.splits if_splits)
  note res = validateSquad_result [OF v]
  have len: "length sels = 15" and known: "sel_playerId ` set sels \<subseteq> pv_id ` set ?ps"
    using res(6) by (simp_all add: valid_squad_def)
  have "vs_totalCost validated \<le> 100" using res(5,6) by (simp add: valid_squad_def STARTING_BUDGET_def)
  then have bank: "price_ok (tenths (100 - vs_totalCost validated))" by (simp add: price_ok_def tenths_nonneg)
  have row: "price_ok (pv_price (player_of ?ps sel)) \<and> sel_playerId sel \<in> pv_id ` set (t_players db)"
    if "sel \<in> set sels" for sel
  proof -
    have "sel_playerId sel \<in> pv_id ` set ?ps" using that known by (rule rev_subsetD [OF imageI])
    then obtain p where p: "p \<in> set ?ps" "pv_id p = sel_playerId sel" by auto
    then have "map_of (player_map ?ps) (sel_playerId sel) = Some p"
      using player_map_lookup [OF playersById_ok(1) [OF squad_invD(1) [OF inv]] p(1)] by simp
    then show ?thesis using p squad_invD(1) [OF inv] by (force simp: playersById_def players_ok_def)
  qed
  have old: "sp_squadId sp \<noteq> newId" if "sp \<in> set (t_squadPlayers db)" for sp
    using squad_invD(5) [OF inv that] new by (auto simp: row_ok_def)
  from ins have db': "db' = db\<lparr>t_squads := t_squads db @
        [\<lparr>sq_id = newId, sq_userId = uid, sq_name = nm, sq_budgetRemaining = tenths (100 - vs_totalCost validated),
          sq_freeTransfers = 1, sq_freeTransfersGameweekId = None, sq_updatedAt = now\<rparr>],
        t_squadPlayers := t_squadPlayers db @ signings newId ?ps sels\<rparr>"
    and d: "distinct (map row_key (t_squadPlayers db @ signings newId ?ps sels))"
    by (simp_all add: insertPlayers_Inr_iff)
  have other: "sid \<noteq> newId \<Longrightarrow> playersOf db' sid = playersOf db sid" for sid
    by (simp add: playersOf_def db' signing_def comp_def filter_map)
  have mine: "length (playersOf db' newId) = TOTAL_PLAYERS"
    using old len by (simp add: playersOf_def db' signing_def comp_def filter_map filter_empty_conv TOTAL_PLAYERS_def)
  have "squad_ok db' s" if "s \<in> set (t_squads db')" for s
  proof (cases "s \<in> set (t_squads db)")
    case True
    then have "sq_id s \<noteq> newId" "squad_ok db s" using new squad_invD(3) [OF inv] by auto
    then show ?thesis using other by (simp add: squad_ok_def)
  next
    case False
    then show ?thesis using that bank mine by (simp add: db' squad_ok_def transfers_ok_def MAX_FREE_TRANSFERS_def)
  qed
  moreover have "row_ok db' sp" if "sp \<in> set (t_squadPlayers db')" for sp
    using that squad_invD(5) [OF inv, of sp] row by (auto simp: db' row_ok_def signing_def)
  moreover have "players_ok (t_players db')" "distinct (map sq_id (t_squads db'))" "distinct (map row_key (t_squadPlayers db'))"
      "chips_unique (t_chips db')" "\<forall>u \<in> set (t_chips db'). chip_ok db' u"
    using inv new d by (auto simp: db' squad_inv_def chip_ok_def snapshot_ok_def)
  ultimately show ?thesis unfolding squad_inv_def by blast
qed

text \<open>Restoring a snapshot: the lineup, then the squad row.\<close>

lemma restoreLineup_Inr:
  assumes "restoreLineup sid snap db = Inr db'"
  shows "db' = db\<lparr>t_squadPlayers := filter (\<lambda>sp. sp_squadId sp \<noteq> sid) (t_squadPlayers db)
       @ map (snapshot_row sid) (fh_players snap)\<rparr>"
    and "distinct (map row_key (t_squadPlayers db'))"
    and "playersOf db' sid = map (snapshot_row sid) (fh_players snap)"
    and "other \<noteq> sid \<Longrightarrow> playersOf db' other = playersOf db other"
proof -
  show db': "db' = db\<lparr>t_squadPlayers := filter (\<lambda>sp. sp_squadId sp \<noteq> sid) (t_squadPlayers db)
       @ map (snapshot_row sid) (fh_players snap)\<rparr>" and "distinct (map row_key (t_squadPlayers db'))"
    using assms by (simp_all add: restoreLineup_def deletePlayers_def insertPlayers_Inr_iff)
  show "playersOf db' sid = map (snapshot_row sid) (fh_players snap)"
    by (simp add: db' playersOf_def snapshot_row_def filter_map comp_def)
  assume "other \<noteq> sid"
  then show "playersOf db' other = playersOf db other"
    by (auto simp: db' playersOf_def snapshot_row_def filter_map comp_def intro: filter_cong)
qed

lemma restoreLineup_total:
  assumes inv: "squad_inv db" and d: "distinct (map fp_playerId (fh_players snap))"
  shows "\<exists>db'. restoreLineup sid snap db = Inr db'"
proof -
  have "distinct (map row_key (filter (\<lambda>sp. sp_squadId sp \<noteq> sid) (t_squadPlayers db)))"
    using squad_invD(4) [OF inv] by (rule distinct_map_filter)
  moreover have "distinct (map row_key (map (snapshot_row sid) (fh_players snap)))"
  proof -
    have "map row_key (map (snapshot_row sid) (fh_players snap)) = map (Pair sid) (map fp_playerId (fh_players snap))"
      by (simp add: row_key_def snapshot_row_def)
    moreover have "distinct (map (Pair sid) (map fp_playerId (fh_players snap)))"
      using d by (subst distinct_map) (simp add: inj_on_def)
    ultimately show ?thesis by (simp only:)
  qed
  ultimately have "distinct (map row_key (filter (\<lambda>sp. sp_squadId sp \<noteq> sid) (t_squadPlayers db) @ map (snapshot_row sid) (fh_players snap)))"
    unfolding map_append distinct_append set_map by (auto simp: row_key_def snapshot_row_def simp del: map_map)
  then show ?thesis by (simp add: restoreLineup_def deletePlayers_def insertPlayers_Inr_iff)
qed

lemma restore_inv:
  assumes inv: "squad_inv db" and snap: "snapshot_ok db snap" and ok: "restoreLineup sid snap db = Inr db1"
    and sid: "findSquad db1 sid \<noteq> None"
    and f: "\<And>s. sq_id (f s) = sq_id s" "\<And>s. squad_ok db s \<Longrightarrow> price_ok (sq_budgetRemaining (f s)) \<and> transfers_ok (sq_freeTransfers (f s))"
  shows "squad_inv (updateSquadRow sid f db1)"
proof -
  let ?db = "updateSquadRow sid f db1"
  note r = restoreLineup_Inr [OF ok]
  have sids: "map sq_id (t_squads ?db) = map sq_id (t_squads db)"
    using f(1) by (simp add: updateSquadRow_def r(1) comp_def if_distrib cong: if_cong)
  have po: "playersOf ?db s = playersOf db1 s" for s by (simp add: playersOf_def updateSquadRow_def)
  have sq: "sid \<in> sq_id ` set (t_squads db)"
    using sid by (auto simp: findSquad_def r(1) find_None_iff)
  have "squad_ok ?db s'" if "s' \<in> set (t_squads ?db)" for s'
  proof -
    from that obtain s where s: "s \<in> set (t_squads db)" "s' = (if sq_id s = sid then f s else s)"
      by (auto simp: updateSquadRow_def r(1))
    have "squad_ok db s" using s(1) squad_invD(3) [OF inv] by blast
    then show ?thesis using s(2) f r(3,4) snap by (auto simp: squad_ok_def po snapshot_ok_def)
  qed
  moreover have "row_ok ?db sp" if "sp \<in> set (t_squadPlayers ?db)" for sp
  proof -
    have "sq_id ` set (t_squads ?db) = sq_id ` set (t_squads db)" using sids by (metis set_map)
    then show ?thesis
      using that squad_invD(5) [OF inv, of sp] snap sq
      by (auto simp: row_ok_def updateSquadRow_def r(1) snapshot_row_def snapshot_ok_def)
  qed
  moreover have "distinct (map sq_id (t_squads ?db))" using squad_invD(2) [OF inv] sids by simp
  moreover have "players_ok (t_players ?db)" "distinct (map row_key (t_squadPlayers ?db))"
      "chips_unique (t_chips ?db)" "\<forall>u \<in> set (t_chips ?db). chip_ok ?db u"
    using inv r(2) by (auto simp: updateSquadRow_def r(1) squad_inv_def chip_ok_def snapshot_ok_def)
  ultimately show ?thesis unfolding squad_inv_def by blast
qed

lemma snapshot_row_of: "sp_squadId sp = sid \<Longrightarrow> snapshot_row sid (snapshot_player_of sp) = sp"
  by (simp add: snapshot_row_def snapshot_player_of_def)

lemma take_snapshot_ok:
  assumes inv: "squad_inv db" and s: "findSquad db sid = Some s"
  shows "snapshot_ok db (take_snapshot db s gw)"
    and "map (snapshot_row sid) (fh_players (take_snapshot db s gw)) = playersOf db sid"
proof -
  have s': "s \<in> set (t_squads db)" "sq_id s = sid" using s squad_invD(2) [OF inv] by (auto simp: findSquad_Some_iff)
  have sok: "squad_ok db s" using squad_invD(3) [OF inv] s'(1) .
  show "snapshot_ok db (take_snapshot db s gw)"
    using squad_invD(8,9) [OF inv, where sid = sid] sok s'(2)
    by (auto simp: snapshot_ok_def take_snapshot_def snapshot_player_of_def squad_ok_def comp_def row_ok_def)
  show "map (snapshot_row sid) (fh_players (take_snapshot db s gw)) = playersOf db sid"
    by (auto simp: take_snapshot_def s'(2) playersOf_def snapshot_row_of intro: map_idI)
qed

lemma activateChip_Inr:
  assumes "activateChip db before clock gws clock2 newId sid chip gw uid = Inr db'"
  obtains c g squad db1 where "parse_chip chip = Some c" "findGameweek before gw = Some g" "findSquad db sid = Some squad"
    "upsertChip newId sid gw c (gw_season g) (if c = FREE_HIT \<or> c = WILDCARD then Some (take_snapshot db squad gw) else None) db = Inr db1"
    "db' = db1\<lparr>t_gameweeks := gws\<rparr>" "assertGameweeksOpen gws clock2 [gw] = Inr ()"
proof -
  have "locked r = Inr () \<longleftrightarrow> r = Inr ()" for r by (simp add: locked_def split: sum.splits)
  then show thesis using assms that by (auto simp: activateChip_def split: option.splits sum.splits if_splits)
qed

lemma upsertChip_inv:
  assumes inv: "squad_inv db" and up: "upsertChip newId sid gw c season prev db = Inr db'"
    and prev: "\<And>s. prev = Some s \<Longrightarrow> snapshot_ok db s"
  shows "squad_inv db'"
proof -
  have db': "db' = db\<lparr>t_chips := t_chips db'\<rparr>" "chips_unique (t_chips db')"
    using up by (auto simp: upsertChip_def Let_def split: if_splits)
  have "\<forall>u \<in> set (t_chips db'). chip_ok db u"
    using up squad_invD(7) [OF inv] prev
    by (auto simp: upsertChip_def Let_def chip_ok_def split: if_splits option.splits)
  then show ?thesis
    using inv db'(2) by (subst db'(1)) (simp add: squad_inv_def squad_ok_def row_ok_def chip_ok_def snapshot_ok_def playersOf_def)
qed

lemma activateChip_inv:
  assumes inv: "squad_inv db" and ok: "activateChip db before clock gws clock2 newId sid chip gw uid = Inr db'"
  shows "squad_inv db'"
  using ok
proof (rule activateChip_Inr)
  fix c db1 and g :: gameweek and squad :: squad_row
  assume sq: "findSquad db sid = Some squad" and db': "db' = db1\<lparr>t_gameweeks := gws\<rparr>"
    and up: "upsertChip newId sid gw c (gw_season g) (if c = FREE_HIT \<or> c = WILDCARD then Some (take_snapshot db squad gw) else None) db = Inr db1"
  have "squad_inv db1"
    by (rule upsertChip_inv [OF inv up]) (use take_snapshot_ok(1) [OF inv sq] in \<open>auto split: if_splits\<close>)
  then show "squad_inv db'" unfolding db' by simp
qed

lemma updateUsage_inv:
  assumes "squad_inv db" and f: "\<And>u. cu_squadId (f u) = cu_squadId u \<and> cu_gameweekId (f u) = cu_gameweekId u
      \<and> cu_season (f u) = cu_season u \<and> cu_chipType (f u) = cu_chipType u \<and> cu_previousLineup (f u) = cu_previousLineup u"
  shows "squad_inv (updateUsage i f db)"
proof -
  have "chips_unique (t_chips (updateUsage i f db))"
    using assms(1) f by (simp add: squad_inv_def chips_unique_def updateUsage_def comp_def if_distrib cong: if_cong)
  moreover have "\<forall>u \<in> set (t_chips (updateUsage i f db)). chip_ok db u"
    using assms f by (auto simp: squad_inv_def updateUsage_def chip_ok_def)
  ultimately show ?thesis
    using assms(1) by (simp add: squad_inv_def updateUsage_def squad_ok_def row_ok_def chip_ok_def snapshot_ok_def playersOf_def)
qed

lemma squad_inv_frame [simp]:
  "squad_inv (db\<lparr>t_scores := sc\<rparr>) = squad_inv db" "squad_inv (db\<lparr>t_cancellations := cs\<rparr>) = squad_inv db"
  by (simp_all add: squad_inv_def squad_ok_def row_ok_def chip_ok_def snapshot_ok_def playersOf_def)

lemma restoreCost_inv: "restoreCost sid gw c db = Inr db' \<Longrightarrow> squad_inv db' = squad_inv db"
  by (auto simp: restoreCost_def split: option.splits if_splits)

definition restored_row :: "free_hit_snapshot \<Rightarrow> int \<Rightarrow> squad_row \<Rightarrow> squad_row" where
  "restored_row snap stamp s = s\<lparr>sq_budgetRemaining := fh_budgetRemaining snap, sq_freeTransfers := fh_freeTransfers snap,
     sq_freeTransfersGameweekId := fh_freeTransfersGameweekId snap, sq_updatedAt := stamp\<rparr>"

lemma cancelChip_Inr:
  assumes "cancelChip db before clock stamp conflict sid gw uid = Inr db'"
  obtains usage snap db1 db3 where "usageFor db sid gw = Some usage" "cu_previousLineup usage = Some snap"
    "restoreLineup sid snap db = Inr db1" "findSquad db1 sid \<noteq> None"
    "restoreCost sid gw (fh_transferCost snap) (updateSquadRow sid (restored_row snap stamp) db1) = Inr db3"
    "db' = updateUsage (cu_id usage) (\<lambda>u. u\<lparr>cu_cancelled := True\<rparr>) (db3\<lparr>t_cancellations := t_cancellations db3 @
        [\<lparr>cc_usageId = cu_id usage, cc_squadId = sid, cc_gameweekId = gw, cc_chipType = cu_chipType usage, cc_snapshot = snap\<rparr>]\<rparr>)"
  using assms unfolding restored_row_def [abs_def]
  by (auto simp: cancelChip_def Let_def split: option.splits if_splits)

lemma usageFor_ok: "squad_inv db \<Longrightarrow> usageFor db sid gw = Some u \<Longrightarrow> cu_previousLineup u = Some snap \<Longrightarrow> snapshot_ok db snap"
  using squad_invD(7) unfolding usageFor_def chip_ok_def by (blast dest: find_SomeD)

lemma cancelChip_inv:
  assumes inv: "squad_inv db" and ok: "cancelChip db before clock stamp conflict sid gw uid = Inr db'"
  shows "squad_inv db'"
  using ok
proof (rule cancelChip_Inr)
  fix usage snap db1 db3
  assume u: "usageFor db sid gw = Some usage" "cu_previousLineup usage = Some snap"
    and r: "restoreLineup sid snap db = Inr db1" "findSquad db1 sid \<noteq> None"
    and c: "restoreCost sid gw (fh_transferCost snap) (updateSquadRow sid (restored_row snap stamp) db1) = Inr db3"
    and db': "db' = updateUsage (cu_id usage) (\<lambda>u. u\<lparr>cu_cancelled := True\<rparr>) (db3\<lparr>t_cancellations := t_cancellations db3 @
        [\<lparr>cc_usageId = cu_id usage, cc_squadId = sid, cc_gameweekId = gw, cc_chipType = cu_chipType usage, cc_snapshot = snap\<rparr>]\<rparr>)"
  have snap: "snapshot_ok db snap" using usageFor_ok [OF inv u] .
  have "squad_inv (updateSquadRow sid (restored_row snap stamp) db1)"
    by (rule restore_inv [OF inv snap r]) (use snap in \<open>simp_all add: restored_row_def snapshot_ok_def\<close>)
  then show "squad_inv db'" unfolding db' using restoreCost_inv [OF c] by (intro updateUsage_inv) simp_all
qed

lemma revertFreeHit_inv:
  assumes inv: "squad_inv db" and before: "squad_inv before" "pv_id ` set (t_players before) \<subseteq> pv_id ` set (t_players db)"
    and ok: "revertFreeHit db before stamp sid gw = Inr (done, db')"
  shows "squad_inv db'"
proof (cases "db' = db")
  case False
  then obtain usage snap db1 where u: "usageFor before sid gw = Some usage" "cu_previousLineup usage = Some snap"
    and r: "restoreLineup sid snap db = Inr db1" "findSquad db1 sid \<noteq> None"
    and db': "db' = updateUsage (cu_id usage) (\<lambda>u. u\<lparr>cu_reverted := True\<rparr>)
        (updateSquadRow sid (\<lambda>s. s\<lparr>sq_budgetRemaining := fh_budgetRemaining snap, sq_updatedAt := stamp\<rparr>) db1)"
    using ok by (auto simp: revertFreeHit_def split: option.splits if_splits)
  have snap: "snapshot_ok db snap" using usageFor_ok [OF before(1) u] before(2) by (auto simp: snapshot_ok_def)
  have "squad_inv (updateSquadRow sid (\<lambda>s. s\<lparr>sq_budgetRemaining := fh_budgetRemaining snap, sq_updatedAt := stamp\<rparr>) db1)"
    by (rule restore_inv [OF inv snap r]) (use snap in \<open>simp_all add: snapshot_ok_def squad_ok_def\<close>)
  then show ?thesis unfolding db' by (intro updateUsage_inv) simp_all
qed (use inv in simp)

section \<open>Runs of the service\<close>

text \<open>
  The states of the database, latest first. What an operation reads before its transaction is some
  earlier state; the rest of the system may change users, gameweeks, scores and players, as long as
  player ids stay unique and known and prices are non-negative multiples of 0.1.
\<close>

inductive squad_run :: "squad_db list \<Rightarrow> bool" where
  run_start: "players_ok (t_players db) \<Longrightarrow> t_squads db = [] \<Longrightarrow> t_squadPlayers db = [] \<Longrightarrow> t_chips db = [] \<Longrightarrow> squad_run [db]"
| run_world: "squad_run (db # h) \<Longrightarrow> players_ok ps \<Longrightarrow> pv_id ` set (t_players db) \<subseteq> pv_id ` set ps \<Longrightarrow>
    squad_run (db\<lparr>t_users := us, t_players := ps, t_gameweeks := gws, t_scores := sc\<rparr> # db # h)"
| run_create: "squad_run (db # h) \<Longrightarrow> createSquad db newId now uid name sels = Inr db' \<Longrightarrow> squad_run (db' # db # h)"
| run_update: "squad_run (db # h) \<Longrightarrow> ue_before env \<in> set (db # h) \<Longrightarrow> updateSquad db env sid input ruid = Inr db' \<Longrightarrow>
    squad_run (db' # db # h)"
| run_activate: "squad_run (db # h) \<Longrightarrow> before \<in> set (db # h) \<Longrightarrow>
    activateChip db before clock gws clock2 newUsage sid chip gw uid = Inr db' \<Longrightarrow> squad_run (db' # db # h)"
| run_cancel: "squad_run (db # h) \<Longrightarrow> before \<in> set (db # h) \<Longrightarrow>
    cancelChip db before clock stamp conflict sid gw uid = Inr db' \<Longrightarrow> squad_run (db' # db # h)"
| run_revert: "squad_run (db # h) \<Longrightarrow> before \<in> set (db # h) \<Longrightarrow>
    revertFreeHit db before stamp sid gw = Inr (reverted, db') \<Longrightarrow> squad_run (db' # db # h)"

inductive_cases squad_run_ConsE: "squad_run (db # h)"

text \<open>Only the outside world changes the players table.\<close>

lemma operations_keep_players:
  "createSquad db newId now uid name sels = Inr db' \<Longrightarrow> t_players db' = t_players db"
  "activateChip db before clock gws clock2 newUsage sid chip gw uid = Inr db' \<Longrightarrow> t_players db' = t_players db"
  "cancelChip db before clock stamp conflict sid gw uid = Inr db' \<Longrightarrow> t_players db' = t_players db"
  "revertFreeHit db before stamp sid gw = Inr (reverted, db') \<Longrightarrow> t_players db' = t_players db"
proof -
  show "createSquad db newId now uid name sels = Inr db' \<Longrightarrow> t_players db' = t_players db"
    by (auto simp: createSquad_def Let_def insertPlayers_Inr_iff split: option.splits sum.splits if_splits)
  show "activateChip db before clock gws clock2 newUsage sid chip gw uid = Inr db' \<Longrightarrow> t_players db' = t_players db"
    by (erule activateChip_Inr) (auto simp: upsertChip_def Let_def split: if_splits)
  have "restoreCost sid gw c d = Inr d' \<Longrightarrow> t_players d' = t_players d" for c d d'
    by (auto simp: restoreCost_def split: option.splits if_splits)
  moreover have "restoreLineup sid snap d = Inr d' \<Longrightarrow> t_players d' = t_players d" for snap d d'
    by (drule restoreLineup_Inr(1)) simp
  ultimately show "cancelChip db before clock stamp conflict sid gw uid = Inr db' \<Longrightarrow> t_players db' = t_players db"
    by - (erule cancelChip_Inr, fastforce simp: updateUsage_def updateSquadRow_def)
  show "revertFreeHit db before stamp sid gw = Inr (reverted, db') \<Longrightarrow> t_players db' = t_players db"
    by (auto simp: revertFreeHit_def updateUsage_def updateSquadRow_def dest!: restoreLineup_Inr(1)
        split: option.splits if_splits)
qed

definition history_ok :: "squad_db list \<Rightarrow> bool" where
  "history_ok ds \<longleftrightarrow> (\<forall>d \<in> set ds. squad_inv d \<and> pv_id ` set (t_players d) \<subseteq> pv_id ` set (t_players (hd ds)))"

lemma history_ok_extend:
  "history_ok (db # h) \<Longrightarrow> squad_inv db' \<Longrightarrow> pv_id ` set (t_players db) \<subseteq> pv_id ` set (t_players db') \<Longrightarrow>
     history_ok (db' # db # h)"
  by (simp add: history_ok_def) (meson order_trans)

lemma history_okD:
  assumes "history_ok (db # h)"
  shows "squad_inv db" and "d \<in> set (db # h) \<Longrightarrow> squad_inv d \<and> pv_id ` set (t_players d) \<subseteq> pv_id ` set (t_players db)"
  using assms by (auto simp: history_ok_def)

lemma squad_inv_world:
  assumes "squad_inv db" "players_ok ps" "pv_id ` set (t_players db) \<subseteq> pv_id ` set ps"
  shows "squad_inv (db\<lparr>t_users := us, t_players := ps, t_gameweeks := gws, t_scores := sc\<rparr>)"
proof -
  let ?db = "db\<lparr>t_users := us, t_players := ps, t_gameweeks := gws, t_scores := sc\<rparr>"
  have "squad_ok ?db s = squad_ok db s" for s by (simp add: squad_ok_def playersOf_def)
  moreover have "row_ok db sp \<Longrightarrow> row_ok ?db sp" for sp using assms(3) by (auto simp: row_ok_def)
  moreover have "chip_ok db u \<Longrightarrow> chip_ok ?db u" for u
    using assms(3) by (simp add: chip_ok_def snapshot_ok_def) blast
  ultimately show ?thesis using assms by (auto simp: squad_inv_def)
qed

lemma squad_run_inv: "squad_run ds \<Longrightarrow> history_ok ds"
proof (induction rule: squad_run.induct)
  case (run_start db)
  then show ?case by (simp add: history_ok_def squad_inv_def chips_unique_def)
next
  case (run_world db h ps sc gws us)
  show ?case
    using history_okD(1) [OF run_world.IH] run_world.hyps
    by (intro history_ok_extend [OF run_world.IH] squad_inv_world) simp_all
next
  case (run_create db h newId now uid name sels db')
  show ?case
    using createSquad_inv [OF history_okD(1) [OF run_create.IH] run_create.hyps(2)]
      operations_keep_players(1) [OF run_create.hyps(2)]
    by (intro history_ok_extend [OF run_create.IH]) simp_all
next
  case (run_update db h env sid input ruid db')
  have "squad_inv db'" "t_players db' = t_players db"
    using updateSquad_commit [OF history_okD(1) [OF run_update.IH] run_update.hyps(3)] by metis+
  then show ?case by (intro history_ok_extend [OF run_update.IH]) simp_all
next
  case (run_activate db h before clock gws clock2 newUsage sid chip gw uid db')
  show ?case
    using activateChip_inv [OF history_okD(1) [OF run_activate.IH] run_activate.hyps(3)]
      operations_keep_players(2) [OF run_activate.hyps(3)]
    by (intro history_ok_extend [OF run_activate.IH]) simp_all
next
  case (run_cancel db h before clock stamp conflict sid gw uid db')
  show ?case
    using cancelChip_inv [OF history_okD(1) [OF run_cancel.IH] run_cancel.hyps(3)]
      operations_keep_players(3) [OF run_cancel.hyps(3)]
    by (intro history_ok_extend [OF run_cancel.IH]) simp_all
next
  case (run_revert db h before stamp sid gw reverted db')
  note b = history_okD(2) [OF run_revert.IH run_revert.hyps(2)]
  show ?case
    using revertFreeHit_inv [OF history_okD(1) [OF run_revert.IH] conjunct1 [OF b] conjunct2 [OF b] run_revert.hyps(3)]
      operations_keep_players(4) [OF run_revert.hyps(3)]
    by (intro history_ok_extend [OF run_revert.IH]) simp_all
qed

text \<open>
  C9. In every reachable state of the service, however creations, updates, chips, cancellations and
  reversals interleave with each other, with price changes and with the gameweek jobs: every squad
  owns exactly fifteen different known players, its bank is not negative, it has zero to five free
  transfers, and no squad has two chips in a gameweek or the same chip twice in a season.
\<close>

theorem squad_service_invariant:
  assumes "squad_run (db # h)"
  shows "(\<forall>s \<in> set (t_squads db). distinct (map sp_playerId (playersOf db (sq_id s))) \<and> length (playersOf db (sq_id s)) = 15
            \<and> sp_playerId ` set (playersOf db (sq_id s)) \<subseteq> pv_id ` set (t_players db)
            \<and> 0 \<le> sq_budgetRemaining s \<and> 0 \<le> sq_freeTransfers s \<and> sq_freeTransfers s \<le> 5)
       \<and> distinct (map (\<lambda>u. (cu_squadId u, cu_gameweekId u)) (t_chips db))
       \<and> distinct (map (\<lambda>u. (cu_squadId u, cu_season u, cu_chipType u)) (t_chips db))"
proof -
  have inv: "squad_inv db" using squad_run_inv [OF assms] by (rule history_okD(1))
  have "squad_ok db s" if "s \<in> set (t_squads db)" for s using squad_invD(3) [OF inv] that .
  moreover have "chips_unique (t_chips db)" by (rule squad_invD(6) [OF inv])
  ultimately show ?thesis
    using squad_invD(8,9) [OF inv]
    by (auto simp: squad_ok_def price_ok_def transfers_ok_def MAX_FREE_TRANSFERS_def TOTAL_PLAYERS_def chips_unique_def row_ok_def)
qed

section \<open>A concrete season\<close>

text \<open>One user, a free midfielder for the same price, and an open gameweek.\<close>

definition demo_gw :: gameweek where
  "demo_gw = \<lparr>gw_id = 1, gw_fplId = 1, gw_season = ''2025'', gw_deadline = 1000, gw_isCurrent = True,
     gw_isLocked = False, gw_isFinished = False, gw_settled = False\<rparr>"

definition demo_db :: squad_db where
  "demo_db = \<lparr>t_users = [''u''],
     t_players = demo_players @ [\<lparr>pv_id = 16, pv_teamId = 7, pv_position = MID, pv_price = 7\<rparr>],
     t_gameweeks = [demo_gw], t_squads = [], t_squadPlayers = [], t_transfers = [], t_chips = [],
     t_cancellations = [], t_scores = []\<rparr>"

definition demo_squads :: squad_db where
  "demo_squads = demo_db\<lparr>
     t_squads := [\<lparr>sq_id = ''s'', sq_userId = ''u'', sq_name = [70, 67, 88], sq_budgetRemaining = 5 / 2,
                   sq_freeTransfers = 1, sq_freeTransfersGameweekId = None, sq_updatedAt = 0\<rparr>],
     t_squadPlayers := map (\<lambda>s. signing ''s'' s (13 / 2)) demo_selections\<rparr>"

definition demo_input :: update_input where
  "demo_input = \<lparr>ui_name = None,
     ui_players = Some (map (\<lambda>s. if sel_playerId s = 12 then s\<lparr>sel_playerId := 16\<rparr> else s) demo_selections),
     ui_expectedUpdatedAt = None\<rparr>"

definition demo_env :: update_env where
  "demo_env = \<lparr>ue_before = demo_squads, ue_clockA = 1, ue_clockB = 2, ue_clock1 = 3, ue_stamp = 4,
     ue_gameweeks = [demo_gw], ue_clock2 = 5\<rparr>"

lemma demo_create: "createSquad demo_db ''s'' 0 ''u'' (Some [70, 67, 88]) demo_selections = Inr demo_squads"
proof -
  have s: "sanitizeSquadName (Some [70, 67, 88]) = Some [70, 67, 88]"
    by (simp add: sanitizeSquadName_def strip_controls_def is_Cc_def is_Cf_def Cf_ranges_def is_space_def
        js_trim_def utf16_length_def MIN_SQUAD_NAME_LENGTH_def)
  have v: "validateSquad demo_selections (playersById demo_db (map sel_playerId demo_selections)) STARTING_BUDGET
      = Inr demo_result" by code_simp
  have bank: "tenths (100 - vs_totalCost demo_result) = 5 / 2" by code_simp
  have prices: "map (\<lambda>sel. signing ''s'' sel (pv_price (player_of (playersById demo_db (map sel_playerId demo_selections)) sel))) demo_selections
      = map (\<lambda>s. signing ''s'' s (13 / 2)) demo_selections" by code_simp
  have d: "distinct (map row_key (map (\<lambda>s. signing ''s'' s (13 / 2)) demo_selections))" by code_simp
  show ?thesis
    using d unfolding createSquad_def s option.case Let_def v sum.case bank prices
    by (simp add: insertPlayers_Inr_iff demo_squads_def demo_db_def del: map_map)
qed

lemma demo_run: "squad_run [demo_squads, demo_db]"
proof -
  have "squad_run [demo_db]"
    by (rule run_start) (simp_all add: demo_db_def demo_players_def players_ok_def price_ok_def is_tenth_def)
  then show ?thesis using demo_create by (rule run_create)
qed

lemma demo_inv: "squad_inv demo_squads"
  using squad_run_inv [OF demo_run] by (rule history_okD(1))

lemma demo_update: "\<exists>db'. updateSquad demo_squads demo_env ''s'' demo_input (Some ''u'') = Inr db'"
proof -
  have "isl (updateSquad demo_squads demo_env ''s'' demo_input (Some ''u'')) = False" by code_simp
  then show ?thesis by (metis isl_def sum.exhaust)
qed

theorem updateSquad_race_free_witness:
  "\<exists>db'. updateSquad demo_squads demo_env ''s'' demo_input (Some ''u'') = Inr db'
     \<and> (\<forall>g \<in> set (ue_gameweeks demo_env). gw_isLocked g \<longrightarrow> gw_settled g)"
proof -
  obtain db' where ok: "updateSquad demo_squads demo_env ''s'' demo_input (Some ''u'') = Inr db'" using demo_update ..
  show ?thesis
    using updateSquad_race_free [OF demo_inv ok] by (intro exI [of _ db'] conjI ok) (elim conjE)
qed

theorem updateSquad_accounts_witness:
  "\<exists>db' b v b' v' tv. updateSquad demo_squads demo_env ''s'' demo_input (Some ''u'') = Inr db'
     \<and> getSquadValuation demo_squads ''s'' = Inr (b, v, tv) \<and> getSquadValuation db' ''s'' = Inr (b', v', tv)"
proof -
  obtain db' where ok: "updateSquad demo_squads demo_env ''s'' demo_input (Some ''u'') = Inr db'" using demo_update ..
  from updateSquad_accounts [OF demo_inv ok] obtain b v b' v' tv where
    "getSquadValuation demo_squads ''s'' = Inr (b, v, tv)" "getSquadValuation db' ''s'' = Inr (b', v', tv)"
    by (elim exE conjE)
  with ok show ?thesis by (intro exI conjI)
qed

theorem updateSquad_transfers_witness:
  "\<exists>db' hist. updateSquad demo_squads demo_env ''s'' demo_input (Some ''u'') = Inr db'
     \<and> t_transfers db' = t_transfers demo_squads @ hist"
proof -
  obtain db' where ok: "updateSquad demo_squads demo_env ''s'' demo_input (Some ''u'') = Inr db'" using demo_update ..
  from updateSquad_transfers [OF demo_inv ok] obtain hist where "t_transfers db' = t_transfers demo_squads @ hist"
    by (elim exE conjE)
  with ok show ?thesis by (intro exI conjI)
qed

theorem squad_service_invariant_witness:
  "squad_run [demo_squads, demo_db] \<and> t_squads demo_squads \<noteq> [] \<and> 0 \<le> sq_budgetRemaining (hd (t_squads demo_squads))"
proof -
  have ne: "t_squads demo_squads \<noteq> []" by (simp add: demo_squads_def)
  then have "hd (t_squads demo_squads) \<in> set (t_squads demo_squads)" by simp
  with squad_service_invariant [OF demo_run] demo_run ne show ?thesis by blast
qed

section \<open>Chips\<close>

lemma usageFor_upsert:
  assumes "upsertChip newId sid gw c season (Some snap) db = Inr db'"
  shows "\<exists>u. usageFor db' sid gw = Some u \<and> cu_chipType u = c \<and> cu_previousLineup u = Some snap \<and> \<not> cu_cancelled u"
proof (cases "usageFor db sid gw")
  case None
  then show ?thesis using assms by (auto simp: upsertChip_def usageFor_def Let_def find_app split: if_splits)
next
  case (Some old)
  let ?P = "\<lambda>u. cu_squadId u = sid \<and> cu_gameweekId u = gw"
  let ?f = "\<lambda>u. if ?P u then u\<lparr>cu_chipType := c, cu_season := season,
                cu_previousLineup := (case Some snap of None \<Rightarrow> cu_previousLineup u | Some s \<Rightarrow> Some s),
                cu_cancelled := False, cu_reverted := False\<rparr> else u"
  have "find ?P us = Some x \<Longrightarrow> find ?P (map ?f us) = Some (?f x)" for us x
    by (induction us) (auto split: if_splits)
  from this [OF Some [unfolded usageFor_def]] show ?thesis
    using assms Some find_SomeD [OF Some [unfolded usageFor_def]]
    by (auto simp: upsertChip_def usageFor_def Let_def split: if_splits)
qed

lemma findSquad_updateSquadRow:
  "(\<And>s. sq_id (f s) = sq_id s) \<Longrightarrow> findSquad (updateSquadRow sid f db) sid = map_option f (findSquad db sid)"
proof -
  assume f: "\<And>s. sq_id (f s) = sq_id s"
  have "find (\<lambda>s. sq_id s = sid) (map (\<lambda>s. if sq_id s = sid then f s else s) ss)
      = map_option f (find (\<lambda>s. sq_id s = sid) ss)" for ss
    using f by (induction ss) auto
  then show ?thesis by (simp add: findSquad_def updateSquadRow_def)
qed

lemma restoreCost_total:
  "(c \<noteq> None \<longrightarrow> scoreFor db sid gw \<noteq> None) \<Longrightarrow> \<exists>db'. restoreCost sid gw c db = Inr db'"
  by (cases c) (auto simp: restoreCost_def)

lemma restoreCost_frame:
  assumes "restoreCost sid gw c db = Inr db'"
  shows "findSquad db' s = findSquad db s" "playersOf db' s = playersOf db s" "t_chips db' = t_chips db"
  using assms by (auto simp: restoreCost_def findSquad_def playersOf_def split: option.splits if_splits)

text \<open>
  C12. Cancelling a Free Hit or Wildcard undoes it. Whatever happened to the squad since the chip
  was played, a cancellation by the owner before the deadline succeeds, provided the chip's row is
  still the one written at activation: it restores exactly the fifteen players with their roles and
  purchase prices, the bank and the free transfers of the moment of activation, and touches no other
  squad.
\<close>

theorem cancelChip_restores:
  assumes inv: "squad_inv db" and inv2: "squad_inv db2"
    and act: "activateChip db before clock gws clock2 newId sid chip gw uid = Inr db1"
    and chip: "chip \<in> {''FREE_HIT'', ''WILDCARD''}"
    and same: "usageFor db2 sid gw = usageFor db1 sid gw"
    and owner: "findSquad before2 sid = Some s2" "sq_userId s2 = uid" and exists: "findSquad db2 sid \<noteq> None"
    and in_time: "assertGameweeksOpen (t_gameweeks db2) clock3 [gw] = Inr ()"
    and score: "scoreFor db sid gw \<noteq> None \<longrightarrow> scoreFor db2 sid gw \<noteq> None"
  shows "\<exists>db3 s s3. cancelChip db2 before2 clock3 stamp False sid gw uid = Inr db3
       \<and> findSquad db sid = Some s \<and> findSquad db3 sid = Some s3
       \<and> playersOf db3 sid = playersOf db sid \<and> sq_budgetRemaining s3 = sq_budgetRemaining s
       \<and> sq_freeTransfers s3 = sq_freeTransfers s
       \<and> sq_freeTransfersGameweekId s3 = sq_freeTransfersGameweekId s
       \<and> (\<forall>other. other \<noteq> sid \<longrightarrow> playersOf db3 other = playersOf db2 other)"
  using act
proof (rule activateChip_Inr)
  fix c and g :: gameweek and s :: squad_row and d
  let ?snap = "take_snapshot db s gw"
  assume c: "parse_chip chip = Some c" and s: "findSquad db sid = Some s"
    and up: "upsertChip newId sid gw c (gw_season g) (if c = FREE_HIT \<or> c = WILDCARD then Some ?snap else None) db = Inr d"
    and db1: "db1 = d\<lparr>t_gameweeks := gws\<rparr>"
  have ct: "c = FREE_HIT \<or> c = WILDCARD" using c chip by (auto simp: parse_chip_def)
  obtain u where u: "usageFor db2 sid gw = Some u" "cu_chipType u = c" "cu_previousLineup u = Some ?snap" "\<not> cu_cancelled u"
    using usageFor_upsert [of newId sid gw c "gw_season g" ?snap db d] up ct same db1 by (auto simp: usageFor_def)
  have "distinct (map fp_playerId (fh_players ?snap))" using take_snapshot_ok(1) [OF inv s] by (simp add: snapshot_ok_def)
  then obtain d1 where d1: "restoreLineup sid ?snap db2 = Inr d1" using restoreLineup_total [OF inv2] by blast
  note r = restoreLineup_Inr [OF d1]
  let ?d2 = "updateSquadRow sid (restored_row ?snap stamp) d1"
  have ex1: "findSquad d1 sid \<noteq> None" using exists by (simp add: r(1) findSquad_def)
  have "sq_id s = sid" using s by (auto simp: findSquad_def dest: find_SomeD)
  then have "fh_transferCost ?snap \<noteq> None \<longrightarrow> scoreFor ?d2 sid gw \<noteq> None"
    using score by (simp add: take_snapshot_def scoreFor_def updateSquadRow_def r(1))
  then obtain d3 where d3: "restoreCost sid gw (fh_transferCost ?snap) ?d2 = Inr d3"
    using restoreCost_total by blast
  note f = restoreCost_frame [OF d3]
  let ?db3 = "updateUsage (cu_id u) (\<lambda>u. u\<lparr>cu_cancelled := True\<rparr>) (d3\<lparr>t_cancellations := t_cancellations d3 @
        [\<lparr>cc_usageId = cu_id u, cc_squadId = sid, cc_gameweekId = gw, cc_chipType = cu_chipType u, cc_snapshot = ?snap\<rparr>]\<rparr>)"
  have run: "cancelChip db2 before2 clock3 stamp False sid gw uid = Inr ?db3"
    using owner u ct in_time d1 ex1 d3 by (simp add: cancelChip_def Let_def restored_row_def [abs_def])
  have players: "playersOf ?db3 x = playersOf d1 x" for x
    using f(2) [of x] by (simp add: updateUsage_def playersOf_def updateSquadRow_def)
  obtain s1 where s1: "findSquad d1 sid = Some s1" using ex1 by blast
  have "findSquad ?db3 sid = findSquad ?d2 sid" using f(1) by (simp add: updateUsage_def findSquad_def)
  also have "\<dots> = Some (restored_row ?snap stamp s1)"
    by (subst findSquad_updateSquadRow) (simp_all add: restored_row_def s1)
  finally have row: "findSquad ?db3 sid = Some (restored_row ?snap stamp s1)" .
  show ?thesis
    using run s row players r(3,4) take_snapshot_ok(2) [OF inv s, of gw]
    by (intro exI [of _ ?db3] exI [of _ s] exI [of _ "restored_row ?snap stamp s1"])
      (simp add: restored_row_def take_snapshot_def)
qed

text \<open>A wildcard played, a transfer made under it, and the cancellation.\<close>

definition demo_chip :: squad_db where
  "demo_chip = demo_squads\<lparr>t_chips := [\<lparr>cu_id = 7, cu_squadId = ''s'', cu_gameweekId = 1, cu_chipType = WILDCARD,
     cu_season = ''2025'', cu_previousLineup = Some (take_snapshot demo_squads (hd (t_squads demo_squads)) 1),
     cu_cancelled = False, cu_reverted = False\<rparr>]\<rparr>"

lemma demo_activate: "activateChip demo_squads demo_squads 1 [demo_gw] 2 7 ''s'' ''WILDCARD'' 1 ''u'' = Inr demo_chip"
proof -
  have g: "findGameweek demo_squads 1 = Some demo_gw" and s: "findSquad demo_squads ''s'' = Some (hd (t_squads demo_squads))"
      and c: "t_chips demo_squads = []" "t_gameweeks demo_squads = [demo_gw]"
    by (simp_all add: findGameweek_def findSquad_def demo_squads_def demo_db_def demo_gw_def)
  have o: "sq_userId (hd (t_squads demo_squads)) = ''u''" by (simp add: demo_squads_def)
  have r: "demo_squads\<lparr>t_chips := cs, t_gameweeks := [demo_gw]\<rparr> = demo_squads\<lparr>t_chips := cs\<rparr>" for cs
    by (simp add: demo_squads_def demo_db_def)
  have f: "gw_id demo_gw = 1" "gw_season demo_gw = ''2025''" "gw_deadline demo_gw = 1000" "\<not> gw_isLocked demo_gw"
    by (simp_all add: demo_gw_def)
  show ?thesis
    by (simp add: activateChip_def g s o r f parse_chip_def is_active_def usageFor_def usageInSeason_def c upsertChip_def
        chips_unique_def deadline_ok_def locked_def validateDeadline_def assertGameweeksOpen_def js_unique_def
        isPastDeadline_def demo_chip_def Let_def)
qed

theorem cancelChip_restores_witness:
  "\<exists>db2 db3. updateSquad demo_chip (demo_env\<lparr>ue_before := demo_chip\<rparr>) ''s'' demo_input (Some ''u'') = Inr db2
     \<and> cancelChip db2 demo_chip 6 7 False ''s'' 1 ''u'' = Inr db3 \<and> playersOf db3 ''s'' = playersOf demo_squads ''s''"
proof -
  have "isl (updateSquad demo_chip (demo_env\<lparr>ue_before := demo_chip\<rparr>) ''s'' demo_input (Some ''u'')) = False" by code_simp
  then obtain db2 where ok: "updateSquad demo_chip (demo_env\<lparr>ue_before := demo_chip\<rparr>) ''s'' demo_input (Some ''u'') = Inr db2"
    by (metis isl_def sum.exhaust)
  have inv: "squad_inv demo_chip" by (rule activateChip_inv [OF demo_inv demo_activate])
  obtain s' where c: "findSquad db2 ''s'' = Some s'" "squad_inv db2" "t_chips db2 = t_chips demo_chip"
    using updateSquad_commit [OF inv ok] by metis
  have u: "usageFor db2 ''s'' 1 = usageFor demo_chip ''s'' 1" by (simp add: usageFor_def c(3))
  have g: "t_gameweeks db2 = [demo_gw]"
    using ok by (auto simp: demo_env_def elim!: updateSquadE)
  have o: "findSquad demo_chip ''s'' = Some (hd (t_squads demo_squads))" "sq_userId (hd (t_squads demo_squads)) = ''u''"
    by (simp_all add: findSquad_def demo_chip_def demo_squads_def)
  have "assertGameweeksOpen (t_gameweeks db2) 6 [1] = Inr ()" by (simp add: assertGameweeksOpen_iff g demo_gw_def)
  from cancelChip_restores [OF demo_inv c(2) demo_activate _ u o _ this, of 7] show ?thesis
    using ok c(1) by (auto simp: scoreFor_def demo_squads_def demo_db_def)
qed

lemma duplicate_key: "x \<in> set xs \<Longrightarrow> y \<in> set xs \<Longrightarrow> x \<noteq> y \<Longrightarrow> f x = f y \<Longrightarrow> \<not> distinct (map f xs)"
  by (auto simp: distinct_map inj_on_def)

lemma upsertChip_other_gameweek:
  assumes u: "u \<in> set (t_chips db)" "cu_squadId u = sid" "cu_season u = season" "cu_chipType u = c" "cu_gameweekId u \<noteq> gw"
  shows "upsertChip newId sid gw c season prev db = Inl UniqueViolation"
proof -
  let ?key = "\<lambda>u. (cu_squadId u, cu_season u, cu_chipType u)"
  have "\<not> chips_unique rows"
    if "u \<in> set rows" "v \<in> set rows" "cu_gameweekId v = gw" "?key v = (sid, season, c)" for v rows
    using that u duplicate_key [of u rows v ?key] by (auto simp: chips_unique_def)
  note clash = this
  show ?thesis
  proof (cases "usageFor db sid gw")
    case None
    let ?v = "\<lparr>cu_id = newId, cu_squadId = sid, cu_gameweekId = gw, cu_chipType = c, cu_season = season,
       cu_previousLineup = prev, cu_cancelled = False, cu_reverted = False\<rparr>"
    have "\<not> chips_unique (t_chips db @ [?v])" using u(1) by (intro clash [of _ ?v]) simp_all
    then show ?thesis using None by (simp add: upsertChip_def Let_def)
  next
    case (Some old)
    let ?f = "\<lambda>u. if cu_squadId u = sid \<and> cu_gameweekId u = gw
       then u\<lparr>cu_chipType := c, cu_season := season,
              cu_previousLineup := (case prev of None \<Rightarrow> cu_previousLineup u | Some s \<Rightarrow> Some s),
              cu_cancelled := False, cu_reverted := False\<rparr> else u"
    have old: "old \<in> set (t_chips db)" "cu_squadId old = sid" "cu_gameweekId old = gw"
      using find_SomeD [OF Some [unfolded usageFor_def]] by simp_all
    have "?f old \<in> set (map ?f (t_chips db))" unfolding set_map by (rule imageI [OF old(1)])
    moreover have "?f u \<in> set (map ?f (t_chips db))" unfolding set_map by (rule imageI [OF u(1)])
    moreover have "?f u = u" using u(5) by simp
    ultimately have "\<not> chips_unique (map ?f (t_chips db))"
      using old(2,3) by (intro clash [of "map ?f (t_chips db)" "?f old"]) (simp_all only:, simp_all)
    then show ?thesis using Some by (simp add: upsertChip_def Let_def)
  qed
qed

text \<open>
  A cancelled chip is not given back: although the service lets a cancelled use of the season
  pass its own check, the unique constraint on squad, season and chip makes every later attempt to
  play the chip in another gameweek fail with \<open>ChipUnavailable\<close>.
\<close>

theorem cancelled_chip_blocked:
  assumes c: "parse_chip chip = Some c" and s: "findSquad db sid = Some s" "sq_userId s = uid"
    and g: "findGameweek db gw = Some g" "\<not> gw_isLocked g" "clock < gw_deadline g"
    and used: "usageInSeason db sid (gw_season g) c = Some u" "cu_cancelled u" "cu_gameweekId u \<noteq> gw"
  shows "activateChip db db clock gws clock2 newId sid chip gw uid = Inl ChipUnavailable"
proof -
  have "u \<in> set (t_chips db) \<and> cu_squadId u = sid \<and> cu_season u = gw_season g \<and> cu_chipType u = c"
    using find_SomeD [OF used(1) [unfolded usageInSeason_def]] by simp
  then have "upsertChip newId sid gw c (gw_season g) prev db = Inl UniqueViolation" for prev
    using upsertChip_other_gameweek used(3) by blast
  then show ?thesis
    using c s g used(1,2) by (simp add: activateChip_def is_active_def deadline_ok_def locked_def validateDeadline_def)
qed

theorem cancelled_chip_blocked_witness:
  "activateChip (demo_squads\<lparr>t_chips := [\<lparr>cu_id = 7, cu_squadId = ''s'', cu_gameweekId = 3, cu_chipType = WILDCARD,
       cu_season = ''2025'', cu_previousLineup = None, cu_cancelled = True, cu_reverted = False\<rparr>]\<rparr>)
     (demo_squads\<lparr>t_chips := [\<lparr>cu_id = 7, cu_squadId = ''s'', cu_gameweekId = 3, cu_chipType = WILDCARD,
       cu_season = ''2025'', cu_previousLineup = None, cu_cancelled = True, cu_reverted = False\<rparr>]\<rparr>)
     1 [demo_gw] 2 8 ''s'' ''WILDCARD'' 1 ''u'' = Inl ChipUnavailable"
  by (rule cancelled_chip_blocked [where c = WILDCARD and s = "hd (t_squads demo_squads)" and g = demo_gw and
      u = "\<lparr>cu_id = 7, cu_squadId = ''s'', cu_gameweekId = 3, cu_chipType = WILDCARD, cu_season = ''2025'',
        cu_previousLineup = None, cu_cancelled = True, cu_reverted = False\<rparr>"])
    (simp_all add: parse_chip_def findSquad_def findGameweek_def usageInSeason_def demo_squads_def demo_db_def demo_gw_def)

end
