(* ===== verification/Round_Robin.thy ===== *)
theory Round_Robin
  imports FX_Strings
begin

text \<open>
  Round-robin schedules by the circle method: \<open>generateRoundRobin\<close> and \<open>validateRoundRobin\<close> of
  \<open>backend/src/services/league/tournamentService.ts\<close> and \<open>generateRoundRobinSchedule\<close> of
  \<open>backend/src/services/league/leagueService.ts\<close>.

  The two generators turn a rotation of the slots into matches in their own ways. The locale
  \<open>circle_schedule\<close> states what they share, that the matches of a round pair slot \<open>i\<close> with slot
  \<open>n - 1 - i\<close>, and proves the circle method correct once; both are interpretations of it. An empty
  slot (\<open>None\<close>) is the bye or the average team of an odd field.
\<close>

section \<open>The tournament engine's generator\<close>

datatype tournament_error =
    ParticipantsNotUnique
  | LegsNotPositive
  | TooFewParticipants
  | TooManyParticipants
  | UnsupportedSize nat
  | OddWinners
  | CupLeagueNotFound string
  | NotActiveMembers "string list"
  | CupDoesNotFit
  | CupExists

record rr_match =
  rr_home :: string
  rr_away :: "string option"

text \<open>\<open>[rotation[0], rotation[n - 1], ...rotation.slice(1, n - 1)]\<close>\<close>

definition rotate_slots :: "'a list \<Rightarrow> 'a list" where
  "rotate_slots xs = xs ! 0 # xs ! (length xs - 1) # js_slice 1 (length xs - 1) xs"

definition rr_pairing :: "nat \<Rightarrow> nat \<Rightarrow> string option \<Rightarrow> string option \<Rightarrow> rr_match" where
  "rr_pairing r i home away =
     (let (home, away) = (if i = 0 \<and> r mod 2 = 1 then (away, home) else (home, away));
          (home, away) = (if home = None then (away, home) else (home, away))
      in \<lparr>rr_home = the home, rr_away = away\<rparr>)"

definition rr_round :: "nat \<Rightarrow> string option list \<Rightarrow> rr_match list" where
  "rr_round r rotation =
     (let n = length rotation
      in map (\<lambda>i. rr_pairing r i (rotation ! i) (rotation ! (n - 1 - i))) [0..<n div 2])"

text \<open>The loop over the rounds, from round \<open>r\<close> on.\<close>

fun first_leg :: "nat \<Rightarrow> nat \<Rightarrow> string option list \<Rightarrow> rr_match list list" where
  "first_leg 0 r rotation = []"
| "first_leg (Suc k) r rotation = rr_round r rotation # first_leg k (Suc r) (rotate_slots rotation)"

definition swap_sides :: "rr_match \<Rightarrow> rr_match" where
  "swap_sides m = (case rr_away m of None \<Rightarrow> m | Some a \<Rightarrow> \<lparr>rr_home = a, rr_away = Some (rr_home m)\<rparr>)"

definition padded_slots :: "string list \<Rightarrow> string option list" where
  "padded_slots participants =
     (let slots = map Some participants in if length slots mod 2 = 1 then slots @ [None] else slots)"

definition generateRoundRobin :: "string list \<Rightarrow> rat \<Rightarrow> tournament_error + rr_match list list" where
  "generateRoundRobin participants legs =
     (if length (js_unique participants) \<noteq> length participants then Inl ParticipantsNotUnique
      else if length participants < 2 then Inr []
      else if of_int \<lfloor>legs\<rfloor> \<noteq> legs \<or> legs < 1 then Inl LegsNotPositive
      else
        (let slots = padded_slots participants;
             firstLeg = first_leg (length slots - 1) 0 slots
         in Inr (concat (map (\<lambda>leg. map (\<lambda>round. if leg mod 2 = 0 then round else map swap_sides round) firstLeg)
                             [0..<nat \<lfloor>legs\<rfloor>]))))"

section \<open>Its validator\<close>

datatype rr_problem = PlaysTwice nat string | WrongMeetings string nat

definition pair_text :: "string \<Rightarrow> string \<Rightarrow> string" where
  "pair_text a b = join ''|'' (js_sort str_cmp [a, b])"

definition match_ids :: "rr_match \<Rightarrow> string list" where
  "match_ids m = rr_home m # (case rr_away m of None \<Rightarrow> [] | Some a \<Rightarrow> [a])"

text \<open>The ids of a round in order, with the set of those seen; \<open>r\<close> is the round's number.\<close>

fun repeated :: "nat \<Rightarrow> string list \<Rightarrow> string list \<Rightarrow> rr_problem list" where
  "repeated r seen [] = []"
| "repeated r seen (i # is) = (if i \<in> set seen then [PlaysTwice r i] else []) @ repeated r (i # seen) is"

definition meeting_keys :: "rr_match list \<Rightarrow> string list" where
  "meeting_keys ms = concat (map (\<lambda>m. case rr_away m of None \<Rightarrow> [] | Some a \<Rightarrow> [pair_text (rr_home m) a]) ms)"

definition all_pairs :: "'a list \<Rightarrow> ('a \<times> 'a) list" where
  "all_pairs xs = concat (map (\<lambda>i. map (\<lambda>j. (xs ! i, xs ! j)) [i + 1..<length xs]) [0..<length xs])"

definition validateRoundRobin :: "string list \<Rightarrow> rr_match list list \<Rightarrow> nat \<Rightarrow> rr_problem list" where
  "validateRoundRobin participants rounds legs =
     concat (map (\<lambda>(r, round). repeated (r + 1) [] (concat (map match_ids round))) (enumerate 0 rounds))
     @ (let meetings = tally (meeting_keys (concat rounds))
        in concat (map (\<lambda>(a, b).
             let key = pair_text a b; n = (case map_of meetings key of None \<Rightarrow> 0 | Some k \<Rightarrow> k)
             in if n \<noteq> legs then [WrongMeetings key n] else []) (all_pairs participants)))"

section \<open>The league's generator\<close>

record h2h_pairing =
  hp_gameweekId :: int
  hp_homeMemberId :: string
  hp_awayMemberId :: "string option"

definition h2h_round :: "nat \<Rightarrow> string option list \<Rightarrow> (string option \<times> string option) list" where
  "h2h_round r rotation =
     (let n = length rotation
      in map (\<lambda>i. let a = rotation ! i; b = rotation ! (n - 1 - i) in if r mod 2 = 0 then (a, b) else (b, a))
             [0..<n div 2])"

fun h2h_cycle :: "nat \<Rightarrow> nat \<Rightarrow> string option list \<Rightarrow> (string option \<times> string option) list list" where
  "h2h_cycle 0 r rotation = []"
| "h2h_cycle (Suc k) r rotation = h2h_round r rotation # h2h_cycle k (Suc r) (rotate_slots rotation)"

definition h2h_fixture :: "int \<Rightarrow> bool \<Rightarrow> string option \<times> string option \<Rightarrow> h2h_pairing" where
  "h2h_fixture gameweekId reversed p =
     (let home = (if reversed then snd p else fst p);
          away = (if reversed then fst p else snd p);
          (home, away) = (if home = None then (away, home) else (home, away))
      in \<lparr>hp_gameweekId = gameweekId, hp_homeMemberId = the home, hp_awayMemberId = away\<rparr>)"

definition generateRoundRobinSchedule :: "string list \<Rightarrow> int list \<Rightarrow> h2h_pairing list" where
  "generateRoundRobinSchedule memberIds gameweekIds =
     (if length memberIds < 2 then []
      else
        (let teams = padded_slots memberIds;
             rounds = h2h_cycle (length teams - 1) 0 teams
         in concat (map (\<lambda>(idx, gameweekId).
               map (h2h_fixture gameweekId ((idx div length rounds) mod 2 = 1)) (rounds ! (idx mod length rounds)))
               (enumerate 0 gameweekIds))))"

section \<open>The circle method\<close>

text \<open>Where slot \<open>P\<close> of the start list stands after \<open>r\<close> rotations of \<open>m + 1\<close> slots.\<close>

definition slot_position :: "nat \<Rightarrow> nat \<Rightarrow> nat \<Rightarrow> nat" where
  "slot_position m r P = (if P = 0 then 0 else 1 + (P - 1 + r) mod m)"

lemma length_rotate_slots: "2 \<le> length xs \<Longrightarrow> length (rotate_slots xs) = length xs"
  by (simp add: rotate_slots_def js_slice_def)

lemma nth_rotate_slots:
  assumes "2 \<le> length xs" "i < length xs"
  shows "rotate_slots xs ! i = (if i = 0 then xs ! 0 else if i = 1 then xs ! (length xs - 1) else xs ! (i - 1))"
proof (cases "i < 2")
  case True
  then show ?thesis by (cases i) (auto simp: rotate_slots_def)
next
  case False
  then obtain j where j: "i = Suc (Suc j)" by (metis add_2_eq_Suc le_Suc_ex not_less)
  then show ?thesis using assms by (simp add: rotate_slots_def js_slice_def)
qed

lemma length_rotations: "2 \<le> length xs \<Longrightarrow> length ((rotate_slots ^^ r) xs) = length xs"
  by (induction r) (simp_all add: length_rotate_slots)

lemma slot_position_less: "0 < m \<Longrightarrow> P \<le> m \<Longrightarrow> slot_position m r P \<le> m"
  by (simp add: slot_position_def Suc_leI)

lemma slot_position_Suc:
  assumes "0 < P" "0 < m"
  shows "slot_position m (Suc r) P = (if slot_position m r P = m then 1 else Suc (slot_position m r P))"
proof -
  let ?u = "(P - 1 + r) mod m"
  have "(P - 1 + Suc r) mod m = Suc ?u mod m" by (simp add: mod_Suc_eq)
  also have "\<dots> = (if Suc ?u = m then 0 else Suc ?u)" using assms(2) mod_less_divisor [of m "P - 1 + r"] by (simp add: mod_Suc)
  finally show ?thesis using assms(1) by (auto simp: slot_position_def)
qed

lemma nth_rotations:
  assumes "length xs = Suc m" "0 < m" "P \<le> m"
  shows "(rotate_slots ^^ r) xs ! slot_position m r P = xs ! P"
proof (cases "P = 0")
  case True
  have "(rotate_slots ^^ r) xs ! 0 = xs ! 0" by (induction r) (simp_all add: rotate_slots_def)
  then show ?thesis by (simp add: slot_position_def True)
next
  case False
  show ?thesis
  proof (induction r)
    case 0
    then show ?case using assms False by (simp add: slot_position_def)
  next
    case (Suc r)
    let ?ys = "(rotate_slots ^^ r) xs" and ?i = "slot_position m r P"
    have len: "length ?ys = Suc m" using assms by (simp add: length_rotations)
    have i: "?i \<le> m" "0 < ?i" using slot_position_less [of m P r] assms False by (simp_all add: slot_position_def)
    have "rotate_slots ?ys ! slot_position m (Suc r) P = ?ys ! ?i"
      using i assms(2) len unfolding slot_position_Suc [OF False [unfolded neq0_conv] assms(2)]
      by (subst nth_rotate_slots) auto
    then show ?case using Suc by simp
  qed
qed

text \<open>Two different slots meet in exactly one of the \<open>m\<close> rounds, because \<open>m\<close> is odd.\<close>

lemma double_mod_inj:
  assumes "odd (m :: nat)" "r \<le> s" "s < m" "(2 * r) mod m = (2 * s) mod m"
  shows "r = s"
proof -
  have "m dvd 2 * s - 2 * r" using assms(2) mod_eq_dvd_iff_nat [of "2 * r" "2 * s" m] assms(4) [symmetric] by simp
  then have "m dvd 2 * (s - r)" by (simp add: diff_mult_distrib2)
  moreover have "coprime m 2" using assms(1) by simp
  ultimately have "m dvd s - r" using coprime_dvd_mult_right_iff by blast
  then show ?thesis using assms(2,3) by (metis dvd_imp_le le_antisym less_imp_diff_less not_le zero_less_diff)
qed

lemma mod_less_double: "a < 2 * m \<Longrightarrow> a mod m = (if a < m then a else a - m)" for a m :: nat
  by (simp add: mod_if)

lemma add_mod_solve:
  assumes "b < m"
  shows "(a + x) mod m = b \<longleftrightarrow> x mod m = (b + (m - a mod m)) mod (m :: nat)"
proof -
  let ?a = "a mod m" and ?x = "x mod m"
  have l: "?a < m" "?x < m" using assms by simp_all
  have "(a + x) mod m = (?a + ?x) mod m" by (simp add: mod_add_eq)
  also have "\<dots> = (if ?a + ?x < m then ?a + ?x else ?a + ?x - m)" using l by (intro mod_less_double) linarith
  finally have e: "(a + x) mod m = (if ?a + ?x < m then ?a + ?x else ?a + ?x - m)" .
  have "(b + (m - ?a)) mod m = (if b + (m - ?a) < m then b + (m - ?a) else b + (m - ?a) - m)"
    using l assms by (intro mod_less_double) linarith
  moreover have "(if a' + x' < m then a' + x' else a' + x' - m) = b \<longleftrightarrow>
      x' = (if b + (m - a') < m then b + (m - a') else b + (m - a') - m)" if "a' < m" "x' < m" for a' x'
    using that assms by auto
  ultimately show ?thesis using l unfolding e by metis
qed

lemma double_mod_unique:
  assumes "odd (m :: nat)" "c < m"
  shows "\<exists>!r. r < m \<and> (2 * r) mod m = c"
proof (rule ex_ex1I)
  show "\<exists>r. r < m \<and> (2 * r) mod m = c"
  proof (cases "even c")
    case True
    then show ?thesis using assms(2) by (intro exI [of _ "c div 2"]) auto
  next
    case False
    then have "even (c + m)" using assms(1) by simp
    then have "2 * ((c + m) div 2) = c + m" by simp
    then show ?thesis using assms(2) by (intro exI [of _ "(c + m) div 2"]) auto
  qed
next
  fix r s assume "r < m \<and> (2 * r) mod m = c" "s < m \<and> (2 * s) mod m = c"
  then show "r = s" using double_mod_inj [OF assms(1), of r s] double_mod_inj [OF assms(1), of s r] by linarith
qed

text \<open>Two different slots stand opposite each other in exactly one of the \<open>m\<close> rounds.\<close>

lemma opposite_unique:
  assumes m: "odd m" and PQ: "P \<le> m" "Q \<le> m" "P \<noteq> Q"
  shows "\<exists>!r. r < m \<and> slot_position m r P + slot_position m r Q = m"
proof -
  have fixed: "\<exists>!r. r < m \<and> slot_position m r 0 + slot_position m r Q = m" if Q: "0 < Q" "Q \<le> m" for Q
  proof -
    have "slot_position m r 0 + slot_position m r Q = m \<longleftrightarrow> r = m - Q" if r: "r < m" for r
    proof (cases "Q - 1 + r < m")
      case True
      then show ?thesis using Q by (auto simp: slot_position_def)
    next
      case False
      then have "(Q - 1 + r) mod m = Q - 1 + r - m" using Q r by (simp add: mod_if)
      then show ?thesis using Q r False by (auto simp: slot_position_def)
    qed
    then show ?thesis using Q by (intro ex1I [of _ "m - Q"]) auto
  qed
  have moving: "\<exists>!r. r < m \<and> slot_position m r P + slot_position m r Q = m"
    if PQ: "0 < P" "P \<le> m" "0 < Q" "Q \<le> m" "P \<noteq> Q" for P Q
  proof -
    let ?u = "P - 1" and ?v = "Q - 1"
    let ?c = "(m - 2 + (m - (?u + ?v) mod m)) mod m"
    have m3: "m - 2 < m" "2 \<le> m" using PQ by linarith+
    have "slot_position m r P + slot_position m r Q = m \<longleftrightarrow> (2 * r) mod m = ?c" if r: "r < m" for r
    proof -
      let ?a = "(?u + r) mod m" and ?b = "(?v + r) mod m"
      have l: "?a < m" "?b < m" using r by simp_all
      have "?a \<noteq> ?b"
        using PQ r by (simp add: mod_less_double) arith
      have "(?a + ?b) mod m = (?u + ?v + 2 * r) mod m"
        using mod_add_eq [of "?u + r" m "?v + r"] by (simp add: mult_2 add_ac)
      moreover have "x + y = m - 2 \<longleftrightarrow> (x + y) mod m = m - 2" if "x < m" "y < m" "x \<noteq> y" for x y
        using that m3 mod_less_double [of "x + y" m] by auto
      from this [OF l \<open>?a \<noteq> ?b\<close>] have "?a + ?b = m - 2 \<longleftrightarrow> (?a + ?b) mod m = m - 2" .
      ultimately have "?a + ?b = m - 2 \<longleftrightarrow> (2 * r) mod m = ?c"
        using add_mod_solve [OF m3(1), of "?u + ?v" "2 * r"] by simp
      then show ?thesis using PQ m3 by (auto simp: slot_position_def)
    qed
    then show ?thesis using double_mod_unique [OF m, of ?c] m by (metis mod_less_divisor odd_pos)
  qed
  show ?thesis
  proof (cases "P = 0 \<or> Q = 0")
    case True
    then show ?thesis using fixed PQ by (metis add.commute bot_nat_0.not_eq_extremum)
  next
    case False
    then show ?thesis using moving PQ by simp
  qed
qed

lemma count_list_map_upt: "count_list (map f [0..<n]) v = card {i. i < n \<and> f i = v}"
proof -
  have "count_list (map f [0..<n]) v = length (filter (\<lambda>i. f i = v) [0..<n])"
    by (induction n) (simp_all add: eq_commute)
  also have "\<dots> = card (set (filter (\<lambda>i. f i = v) [0..<n]))" by (rule distinct_card [symmetric]) simp
  finally show ?thesis by (simp add: Collect_conj_eq Int_commute atLeast0LessThan lessThan_def)
qed

text \<open>How often two slots are opposite each other in one arrangement, and whom a slot faces.\<close>

lemma count_opposite:
  assumes "length xs = n" "even n" "distinct xs" "a < n" "b < n" "a \<noteq> b"
  shows "count_list (map (\<lambda>i. {xs ! i, xs ! (n - 1 - i)}) [0..<n div 2]) {xs ! a, xs ! b} = (if a + b = n - 1 then 1 else 0)"
proof -
  have "{i. i < n div 2 \<and> {xs ! i, xs ! (n - 1 - i)} = {xs ! a, xs ! b}}
      = {i. i < n div 2 \<and> (i = a \<and> n - 1 - i = b \<or> i = b \<and> n - 1 - i = a)}"
    using assms by (auto simp: doubleton_eq_iff nth_eq_iff_index_eq)
  also have "\<dots> = (if a + b = n - 1 then {min a b} else {})"
    using assms by (auto simp: min_def elim!: evenE)
  finally show ?thesis unfolding count_list_map_upt by simp
qed

lemma one_opponent:
  assumes "length xs = n" "even n" "distinct xs" "a < n"
  shows "card {i. i < n div 2 \<and> xs ! a \<in> {xs ! i, xs ! (n - 1 - i)}} = 1"
proof -
  have "{i. i < n div 2 \<and> xs ! a \<in> {xs ! i, xs ! (n - 1 - i)}} = {min a (n - 1 - a)}"
    using assms by (auto simp: nth_eq_iff_index_eq min_def elim!: evenE)
  then show ?thesis by simp
qed

lemma distinct_rotations:
  assumes "distinct xs" "2 \<le> length xs"
  shows "distinct ((rotate_slots ^^ r) xs) \<and> set ((rotate_slots ^^ r) xs) = set xs"
proof (induction r)
  case (Suc r)
  let ?ys = "(rotate_slots ^^ r) xs"
  have len: "length ?ys = length xs" using assms length_rotations by blast
  then have "2 \<le> length ?ys" using assms(2) by simp
  then obtain y ys where ys: "?ys = y # ys" "ys \<noteq> []" by (cases ?ys) fastforce+
  have "rotate_slots ?ys = y # last ys # butlast ys"
    using ys by (simp add: rotate_slots_def js_slice_def last_conv_nth butlast_conv_take nth_Cons')
  moreover have "mset (last ys # butlast ys) = mset (butlast ys @ [last ys])" by (simp del: append_butlast_last_id)
  then have "mset (last ys # butlast ys) = mset ys" using ys(2) by simp
  ultimately have "mset (rotate_slots ?ys) = mset ?ys" using ys(1) by simp
  then have "distinct (rotate_slots ?ys) = distinct ?ys" "set (rotate_slots ?ys) = set ?ys"
    using mset_eq_imp_distinct_iff mset_eq_setD by blast+
  then show ?case using Suc by simp
qed (use assms in simp)

section \<open>What every generator promises\<close>

text \<open>
  A builder turns round \<open>r\<close>'s arrangement of the slots into matches, \<open>sides\<close> reads the two sides
  of a match. The law: up to the order of the sides, match \<open>i\<close> of a round pairs the slots \<open>i\<close> and
  \<open>n - 1 - i\<close>.
\<close>

locale circle_schedule =
  fixes build :: "nat \<Rightarrow> string option list \<Rightarrow> 'm list"
    and sides :: "'m \<Rightarrow> string \<times> string option"
  assumes build_pairs: "distinct xs \<Longrightarrow> even (length xs) \<Longrightarrow>
    map (\<lambda>m. {Some (fst (sides m)), snd (sides m)}) (build r xs)
      = map (\<lambda>i. {xs ! i, xs ! (length xs - 1 - i)}) [0..<length xs div 2]"
begin

definition round_at :: "string option list \<Rightarrow> nat \<Rightarrow> 'm list" where
  "round_at slots r = build r ((rotate_slots ^^ r) slots)"

lemma round_at_pairs:
  assumes "distinct slots" "even (length slots)" "2 \<le> length slots"
  shows "map (\<lambda>m. {Some (fst (sides m)), snd (sides m)}) (round_at slots r)
    = map (\<lambda>i. {(rotate_slots ^^ r) slots ! i, (rotate_slots ^^ r) slots ! (length slots - 1 - i)}) [0..<length slots div 2]"
  using build_pairs [of "(rotate_slots ^^ r) slots" r] distinct_rotations [OF assms(1,3)] assms
  by (simp add: round_at_def length_rotations)

lemma sides_in_slots:
  assumes "distinct slots" "even (length slots)" "2 \<le> length slots" "m \<in> set (round_at slots r)"
  shows "Some (fst (sides m)) \<in> set slots" "snd (sides m) \<in> set slots"
proof -
  let ?ys = "(rotate_slots ^^ r) slots"
  have "{Some (fst (sides m)), snd (sides m)} \<in> set (map (\<lambda>m. {Some (fst (sides m)), snd (sides m)}) (round_at slots r))"
    using assms(4) by simp
  then obtain i where i: "i < length slots div 2" "{Some (fst (sides m)), snd (sides m)} = {?ys ! i, ?ys ! (length slots - 1 - i)}"
    unfolding round_at_pairs [OF assms(1-3)] by auto
  have "length ?ys = length slots" "set ?ys = set slots"
    using assms(1,3) length_rotations distinct_rotations by blast+
  then have "{?ys ! i, ?ys ! (length slots - 1 - i)} \<subseteq> set slots" using i(1) nth_mem [of _ ?ys] by auto
  then show "Some (fst (sides m)) \<in> set slots" "snd (sides m) \<in> set slots" unfolding i(2) [symmetric] by blast+
qed

text \<open>Every slot is in exactly one match of a round.\<close>

lemma plays_once:
  assumes "distinct slots" "even (length slots)" "2 \<le> length slots" "p \<in> set slots"
  shows "length (filter (\<lambda>m. p \<in> {Some (fst (sides m)), snd (sides m)}) (round_at slots r)) = 1"
proof -
  let ?ys = "(rotate_slots ^^ r) slots" and ?n = "length slots"
  have ys: "length ?ys = ?n" "distinct ?ys" "set ?ys = set slots"
    using assms length_rotations distinct_rotations by blast+
  obtain a where a: "a < ?n" "p = ?ys ! a" using assms(4) ys by (metis in_set_conv_nth)
  have "length (filter (\<lambda>m. p \<in> {Some (fst (sides m)), snd (sides m)}) (round_at slots r))
      = length (filter (\<lambda>s. p \<in> s) (map (\<lambda>m. {Some (fst (sides m)), snd (sides m)}) (round_at slots r)))"
    by (simp add: filter_map comp_def)
  also have "\<dots> = length (filter (\<lambda>i. ?ys ! a \<in> {?ys ! i, ?ys ! (?n - 1 - i)}) [0..<?n div 2])"
    unfolding round_at_pairs [OF assms(1-3)] by (simp add: filter_map comp_def a(2))
  also have "\<dots> = card {i. i < ?n div 2 \<and> ?ys ! a \<in> {?ys ! i, ?ys ! (?n - 1 - i)}}"
    by (subst distinct_card [symmetric]) (simp_all add: Collect_conj_eq Int_commute lessThan_def atLeast0LessThan)
  also have "\<dots> = 1" using one_opponent [OF ys(1) assms(2) ys(2) a(1)] .
  finally show ?thesis .
qed

text \<open>The meetings of two slots in round \<open>r\<close>, and in a whole cycle.\<close>

abbreviation meetings :: "string option \<Rightarrow> string option \<Rightarrow> 'm list \<Rightarrow> nat" where
  "meetings p q ms \<equiv> length (filter (\<lambda>m. {Some (fst (sides m)), snd (sides m)} = {p, q}) ms)"

lemma meetings_count: "meetings p q ms = count_list (map (\<lambda>m. {Some (fst (sides m)), snd (sides m)}) ms) {p, q}"
  by (simp add: count_list_eq_length_filter filter_map comp_def eq_commute)

lemma meetings_round:
  assumes s: "distinct slots" "even (length slots)" "length slots = Suc m" "0 < m" and PQ: "P \<le> m" "Q \<le> m" "P \<noteq> Q"
  shows "meetings (slots ! P) (slots ! Q) (round_at slots r) = (if slot_position m r P + slot_position m r Q = m then 1 else 0)"
proof -
  let ?ys = "(rotate_slots ^^ r) slots" and ?a = "slot_position m r P" and ?b = "slot_position m r Q"
  have two: "2 \<le> length slots" using s by simp
  have ys: "length ?ys = length slots" "distinct ?ys" using two s length_rotations distinct_rotations by blast+
  have nth: "slots ! P = ?ys ! ?a" "slots ! Q = ?ys ! ?b" using nth_rotations [OF s(3,4)] PQ by simp_all
  have ab: "?a < length slots" "?b < length slots" using slot_position_less [OF s(4)] PQ s(3) by (simp_all add: less_Suc_eq_le)
  have ne: "?a \<noteq> ?b" using nth ys s PQ by (metis less_Suc_eq_le nth_eq_iff_index_eq)
  have "meetings (slots ! P) (slots ! Q) (round_at slots r) = (if ?a + ?b = length slots - 1 then 1 else 0)"
    unfolding meetings_count
    unfolding round_at_pairs [OF s(1,2) two] nth using count_opposite [OF ys(1) s(2) ys(2) ab ne] .
  then show ?thesis using s(3) by simp
qed

lemma meetings_cycle:
  assumes s: "distinct slots" "even (length slots)" "2 \<le> length slots" and pq: "p \<in> set slots" "q \<in> set slots" "p \<noteq> q"
  shows "meetings p q (concat (map (round_at slots) [0..<length slots - 1])) = 1"
proof -
  obtain m where m: "length slots = Suc m" "0 < m" "odd m" using s by (cases "length slots") auto
  obtain P Q where PQ: "p = slots ! P" "q = slots ! Q" "P \<le> m" "Q \<le> m" "P \<noteq> Q"
    using pq m(1) by (metis in_set_conv_nth less_Suc_eq_le)
  have "meetings p q (concat (map (round_at slots) [0..<k])) = card {r. r < k \<and> slot_position m r P + slot_position m r Q = m}" for k
  proof (induction k)
    case (Suc k)
    have "{r. r < Suc k \<and> slot_position m r P + slot_position m r Q = m}
        = {r. r < k \<and> slot_position m r P + slot_position m r Q = m} \<union>
          (if slot_position m k P + slot_position m k Q = m then {k} else {})" by (auto simp: less_Suc_eq)
    with Suc show ?case
      using meetings_round [OF s(1,2) m(1,2) PQ(3-5), of k] by (auto simp: PQ(1,2) card_insert_if)
  qed simp
  moreover have "card {r. r < m \<and> slot_position m r P + slot_position m r Q = m} = 1"
  proof -
    from opposite_unique [OF m(3) PQ(3-5)] obtain r where
      "r < m \<and> slot_position m r P + slot_position m r Q = m"
      "\<forall>s. s < m \<and> slot_position m s P + slot_position m s Q = m \<longrightarrow> s = r" by (elim ex1E)
    then have "{r. r < m \<and> slot_position m r P + slot_position m r Q = m} = {r}" by blast
    then show ?thesis by simp
  qed
  ultimately show ?thesis using m(1) by simp
qed

end

section \<open>Both generators are circle schedules\<close>

lemma slots_distinct:
  assumes "distinct participants" "2 \<le> length participants"
  shows "distinct (padded_slots participants)" "even (length (padded_slots participants))"
    "2 \<le> length (padded_slots participants)" "Some ` set participants \<subseteq> set (padded_slots participants)"
  using assms unfolding padded_slots_def Let_def odd_iff_mod_2_eq_one [symmetric] by (auto simp: distinct_map)

lemma nth_not_both_None: "distinct xs \<Longrightarrow> i < length xs div 2 \<Longrightarrow> even (length xs) \<Longrightarrow> xs ! i \<noteq> xs ! (length xs - 1 - i)"
  by (auto simp: nth_eq_iff_index_eq)

interpretation engine: circle_schedule rr_round "\<lambda>m. (rr_home m, rr_away m)"
proof
  fix xs :: "string option list" and r :: nat
  assume xs: "distinct xs" "even (length xs)"
  have "{Some (rr_home (rr_pairing r i a b)), rr_away (rr_pairing r i a b)} = {a, b}" if "a \<noteq> b" for i a b
    using that by (cases a; cases b) (auto simp: rr_pairing_def)
  then show "map (\<lambda>m. {Some (fst (rr_home m, rr_away m)), snd (rr_home m, rr_away m)}) (rr_round r xs)
      = map (\<lambda>i. {xs ! i, xs ! (length xs - 1 - i)}) [0..<length xs div 2]"
    using nth_not_both_None [OF xs(1)] xs(2) by (simp add: rr_round_def Let_def)
qed

interpretation league: circle_schedule "\<lambda>r xs. map (h2h_fixture gameweekId reversed) (h2h_round r xs)"
  "\<lambda>p. (hp_homeMemberId p, hp_awayMemberId p)" for gameweekId reversed
proof
  fix xs :: "string option list" and r :: nat
  assume xs: "distinct xs" "even (length xs)"
  have "{Some (hp_homeMemberId (h2h_fixture gameweekId reversed (if r mod 2 = 0 then (a, b) else (b, a)))),
      hp_awayMemberId (h2h_fixture gameweekId reversed (if r mod 2 = 0 then (a, b) else (b, a)))} = {a, b}" if "a \<noteq> b" for a b
    using that by (cases a; cases b) (auto simp: h2h_fixture_def Let_def)
  then show "map (\<lambda>m. {Some (fst (hp_homeMemberId m, hp_awayMemberId m)), snd (hp_homeMemberId m, hp_awayMemberId m)})
        (map (h2h_fixture gameweekId reversed) (h2h_round r xs))
      = map (\<lambda>i. {xs ! i, xs ! (length xs - 1 - i)}) [0..<length xs div 2]"
    using nth_not_both_None [OF xs(1)] xs(2) by (simp add: h2h_round_def Let_def)
qed

lemma first_leg_eq: "first_leg k r xs = map (\<lambda>j. rr_round (r + j) ((rotate_slots ^^ j) xs)) [0..<k]"
proof (induction k arbitrary: r xs)
  case (Suc k)
  have "[0..<Suc k] = 0 # map Suc [0..<k]" by (simp add: map_Suc_upt upt_conv_Cons)
  then show ?case using Suc by (simp add: funpow_swap1 del: upt_Suc)
qed simp

lemma h2h_cycle_eq: "h2h_cycle k r xs = map (\<lambda>j. h2h_round (r + j) ((rotate_slots ^^ j) xs)) [0..<k]"
proof (induction k arbitrary: r xs)
  case (Suc k)
  have "[0..<Suc k] = 0 # map Suc [0..<k]" by (simp add: map_Suc_upt upt_conv_Cons)
  then show ?case using Suc by (simp add: funpow_swap1 del: upt_Suc)
qed simp

lemma generateRoundRobin_Inr:
  assumes "generateRoundRobin ps legs = Inr rounds" "2 \<le> length ps"
  shows "distinct ps" "of_int \<lfloor>legs\<rfloor> = legs" "1 \<le> legs"
    and "rounds = concat (map (\<lambda>leg. map (\<lambda>round. if leg mod 2 = 0 then round else map swap_sides round)
      (map (engine.round_at (padded_slots ps)) [0..<length (padded_slots ps) - 1])) [0..<nat \<lfloor>legs\<rfloor>])"
  using assms length_js_unique_iff [of ps]
  by (auto simp: generateRoundRobin_def Let_def first_leg_eq engine.round_at_def [abs_def] not_less split: if_splits)

text \<open>Reading a match as a meeting of two participants.\<close>

definition rr_plays :: "string \<Rightarrow> rr_match \<Rightarrow> bool" where
  "rr_plays a m \<longleftrightarrow> rr_home m = a \<or> rr_away m = Some a"

definition rr_meets :: "string \<Rightarrow> string \<Rightarrow> rr_match \<Rightarrow> bool" where
  "rr_meets a b m \<longleftrightarrow> (rr_home m = a \<and> rr_away m = Some b) \<or> (rr_home m = b \<and> rr_away m = Some a)"

lemma rr_plays_iff: "rr_plays a m \<longleftrightarrow> Some a \<in> {Some (rr_home m), rr_away m}"
  by (auto simp: rr_plays_def)

lemma rr_meets_iff: "rr_meets a b m \<longleftrightarrow> {Some (rr_home m), rr_away m} = {Some a, Some b}"
  by (auto simp: rr_meets_def doubleton_eq_iff)

lemma swap_sides_sides: "{Some (rr_home (swap_sides m)), rr_away (swap_sides m)} = {Some (rr_home m), rr_away m}"
  by (auto simp: swap_sides_def split: option.splits)

lemma swap_sides_plays [simp]: "rr_plays a (swap_sides m) = rr_plays a m" "rr_meets a b (swap_sides m) = rr_meets a b m"
  unfolding rr_plays_iff rr_meets_iff swap_sides_sides by (rule refl)+

lemma filter_concat_length: "length (filter P (concat xss)) = (\<Sum>xs\<leftarrow>xss. length (filter P xs))"
  by (induction xss) simp_all

text \<open>
  The circle method is correct: in a generated round-robin of at least two distinct
  participants and \<open>legs\<close> legs, everybody has exactly one entry in every round (a match or, in an odd
  field, the bye), and any two participants meet exactly \<open>legs\<close> times.
\<close>

theorem round_robin_correct:
  assumes ok: "generateRoundRobin ps (of_nat legs) = Inr rounds" and n: "2 \<le> length ps"
  shows "length rounds = legs * (if even (length ps) then length ps - 1 else length ps)
       \<and> (\<forall>round \<in> set rounds. \<forall>a \<in> set ps. length (filter (rr_plays a) round) = 1)
       \<and> (\<forall>a \<in> set ps. \<forall>b \<in> set ps. a \<noteq> b \<longrightarrow> length (filter (rr_meets a b) (concat rounds)) = legs)"
proof -
  let ?s = "padded_slots ps"
  let ?leg = "map (engine.round_at ?s) [0..<length ?s - 1]"
  let ?flip = "\<lambda>leg :: nat. \<lambda>round. if leg mod 2 = 0 then round else map swap_sides round"
  have rounds: "rounds = concat (map (\<lambda>leg. map (?flip leg) ?leg) [0..<legs])"
    using generateRoundRobin_Inr(4) [OF ok n] by simp
  note s = slots_distinct [OF generateRoundRobin_Inr(1) [OF ok n] n]
  have filters: "length (filter (rr_plays a) (?flip leg round)) = length (filter (rr_plays a) round)"
      "length (filter (rr_meets a b) (?flip leg round)) = length (filter (rr_meets a b) round)" for a b leg round
    by (simp_all add: filter_map comp_def)
  have plays: "rr_plays a = (\<lambda>m. Some a \<in> {Some (fst (rr_home m, rr_away m)), snd (rr_home m, rr_away m)})" for a
    by (simp add: fun_eq_iff rr_plays_iff)
  have meets: "rr_meets a b = (\<lambda>m. {Some (fst (rr_home m, rr_away m)), snd (rr_home m, rr_away m)} = {Some a, Some b})" for a b
    by (simp add: fun_eq_iff rr_meets_iff)
  have "length (filter (rr_plays a) (engine.round_at ?s r)) = 1" if "a \<in> set ps" for a r
    unfolding plays using s(4) that by (intro engine.plays_once [OF s(1-3)]) auto
  then have once: "\<forall>round \<in> set rounds. \<forall>a \<in> set ps. length (filter (rr_plays a) round) = 1"
    unfolding rounds by (auto simp: filter_map comp_def)
  have "length (filter (rr_meets a b) (concat rounds)) = legs" if "a \<in> set ps" "b \<in> set ps" "a \<noteq> b" for a b
  proof -
    have "length (filter (rr_meets a b) (concat ?leg)) = 1"
      unfolding meets using s(4) that by (intro engine.meetings_cycle [OF s(1-3)]) auto
    then have "length (filter (rr_meets a b) (concat (map (?flip leg) ?leg))) = 1" for leg
      unfolding filter_concat_length by (simp add: comp_def filters del: upt_Suc)
    then show ?thesis
      unfolding rounds by (induction legs) (simp_all add: comp_def)
  qed
  moreover have "length ?s - 1 = (if even (length ps) then length ps - 1 else length ps)"
    unfolding padded_slots_def Let_def odd_iff_mod_2_eq_one [symmetric] by simp
  then have "length rounds = legs * (if even (length ps) then length ps - 1 else length ps)"
    unfolding rounds by (simp add: length_concat comp_def sum_list_triv)
  ultimately show ?thesis using once by blast
qed

theorem round_robin_correct_witness:
  "\<exists>rounds. generateRoundRobin [''a'', ''b'', ''c''] 2 = Inr rounds
     \<and> length (filter (rr_meets ''a'' ''b'') (concat rounds)) = 2"
proof -
  have "isl (generateRoundRobin [''a'', ''b'', ''c''] (of_nat 2)) = False" by code_simp
  then obtain rounds where ok: "generateRoundRobin [''a'', ''b'', ''c''] (of_nat 2) = Inr rounds" by (metis isl_def sum.exhaust)
  with round_robin_correct [OF ok] show ?thesis by simp
qed

section \<open>The schedule of a league\<close>

definition hp_plays :: "string \<Rightarrow> h2h_pairing \<Rightarrow> bool" where
  "hp_plays a p \<longleftrightarrow> hp_homeMemberId p = a \<or> hp_awayMemberId p = Some a"

definition hp_meets :: "string \<Rightarrow> string \<Rightarrow> h2h_pairing \<Rightarrow> bool" where
  "hp_meets a b p \<longleftrightarrow> (hp_homeMemberId p = a \<and> hp_awayMemberId p = Some b) \<or> (hp_homeMemberId p = b \<and> hp_awayMemberId p = Some a)"

text \<open>A function that is summed along a repeated cycle.\<close>

lemma sum_upt_split: "(\<Sum>i\<leftarrow>[0..<a + b]. f i) = (\<Sum>i\<leftarrow>[0..<a]. f i) + (\<Sum>i\<leftarrow>[0..<b]. f (a + i) :: nat)"
  by (induction b) simp_all

lemma sum_cycle:
  assumes "(\<Sum>r\<leftarrow>[0..<m]. f r) = (1 :: nat)" "0 < m"
  shows "(\<Sum>i\<leftarrow>[0..<n]. f (i mod m)) \<in> {n div m, n div m + 1}"
proof -
  have full: "(\<Sum>i\<leftarrow>[0..<q * m]. f (i mod m)) = q" for q
  proof (induction q)
    case (Suc q)
    have "(\<Sum>i\<leftarrow>[0..<m]. f ((q * m + i) mod m)) = (\<Sum>i\<leftarrow>[0..<m]. f i)"
      by (rule arg_cong [of _ _ sum_list]) simp
    then show ?case using Suc assms(1) sum_upt_split [where a = "q * m" and b = m and f = "\<lambda>i. f (i mod m)"] by (simp add: add.commute)
  qed simp
  have part: "(\<Sum>i\<leftarrow>[0..<n mod m]. f i) \<le> 1"
    using assms sum_upt_split [where a = "n mod m" and b = "m - n mod m" and f = f] mod_less_divisor [OF assms(2), of n] by simp
  have "(\<Sum>i\<leftarrow>[0..<n mod m]. f ((n div m * m + i) mod m)) = (\<Sum>i\<leftarrow>[0..<n mod m]. f i)"
    using mod_less_divisor [OF assms(2), of n] by (intro arg_cong [of _ _ sum_list]) simp
  then have "(\<Sum>i\<leftarrow>[0..<n]. f (i mod m)) = n div m + (\<Sum>i\<leftarrow>[0..<n mod m]. f i)"
    using sum_upt_split [where a = "n div m * m" and b = "n mod m" and f = "\<lambda>i. f (i mod m)"] full [of "n div m"] by simp
  then show ?thesis using part unfolding insert_iff by linarith
qed

lemma schedule_eq:
  assumes "2 \<le> length ms"
  defines "s \<equiv> padded_slots ms"
  shows "generateRoundRobinSchedule ms gws = concat (map (\<lambda>i. league.round_at (gws ! i)
      ((i div (length s - 1)) mod 2 = 1) s (i mod (length s - 1))) [0..<length gws])"
proof -
  have "0 < length s - 1" using assms(1) by (auto simp: s_def padded_slots_def Let_def)
  moreover have "enumerate 0 gws = map (\<lambda>i. (i, gws ! i)) [0..<length gws]"
    by (rule nth_equalityI) (simp_all add: nth_enumerate_eq)
  ultimately show ?thesis
    using assms by (simp add: generateRoundRobinSchedule_def Let_def h2h_cycle_eq league.round_at_def comp_def)
qed

lemma hp_plays_sides:
  "hp_plays a = (\<lambda>p. Some a \<in> {Some (fst (hp_homeMemberId p, hp_awayMemberId p)), snd (hp_homeMemberId p, hp_awayMemberId p)})"
  by (auto simp: fun_eq_iff hp_plays_def)

lemma hp_meets_sides:
  "hp_meets a b = (\<lambda>p. {Some (fst (hp_homeMemberId p, hp_awayMemberId p)), snd (hp_homeMemberId p, hp_awayMemberId p)} = {Some a, Some b})"
  by (auto simp: fun_eq_iff hp_meets_def doubleton_eq_iff)

lemma league_round_gameweek: "p \<in> set (league.round_at g b s r) \<Longrightarrow> hp_gameweekId p = g"
  by (auto simp: league.round_at_def h2h_fixture_def Let_def split: prod.splits if_splits)

lemma schedule_once:
  assumes n: "2 \<le> length ms" and d: "distinct ms" "distinct gws" and g: "g \<in> set gws" and a: "a \<in> set ms"
  shows "length (filter (\<lambda>p. hp_gameweekId p = g \<and> hp_plays a p) (generateRoundRobinSchedule ms gws)) = 1"
proof -
  let ?s = "padded_slots ms"
  let ?at = "\<lambda>i. league.round_at (gws ! i) ((i div (length ?s - 1)) mod 2 = 1) ?s (i mod (length ?s - 1))"
  note s = slots_distinct [OF d(1) n]
  have once: "length (filter (hp_plays a) (league.round_at g rev ?s r)) = 1" for g rev r
    unfolding hp_plays_sides using s(4) a by (intro league.plays_once [OF s(1-3)]) auto
  have "length (filter (\<lambda>p. hp_gameweekId p = g \<and> hp_plays a p) (?at i)) = (if gws ! i = g then 1 else 0)" for i
  proof (cases "gws ! i = g")
    case True
    then have "filter (\<lambda>p. hp_gameweekId p = g \<and> hp_plays a p) (?at i) = filter (hp_plays a) (?at i)"
      using league_round_gameweek by (intro filter_cong) auto
    then show ?thesis using once True by simp
  next
    case False
    then have "filter (\<lambda>p. hp_gameweekId p = g \<and> hp_plays a p) (?at i) = []"
      using league_round_gameweek by (intro filter_False) auto
    then show ?thesis using False by simp
  qed
  then have "length (filter (\<lambda>p. hp_gameweekId p = g \<and> hp_plays a p) (generateRoundRobinSchedule ms gws))
      = (\<Sum>i\<leftarrow>[0..<length gws]. if gws ! i = g then 1 else 0)"
    unfolding schedule_eq [OF n] filter_concat_length by (simp add: comp_def)
  also have "\<dots> = (\<Sum>x\<leftarrow>map (\<lambda>i. gws ! i) [0..<length gws]. if x = g then 1 else 0)" by (simp add: comp_def)
  also have "\<dots> = 1" using d(2) g unfolding map_nth by (induction gws) (auto simp: sum_list_0)
  finally show ?thesis .
qed

text \<open>Every pairing is about members of the league in one of its gameweeks, and nobody is at home twice.\<close>

lemma schedule_members:
  assumes n: "2 \<le> length ms" and d: "distinct ms" and p: "p \<in> set (generateRoundRobinSchedule ms gws)"
  shows "hp_gameweekId p \<in> set gws" "hp_homeMemberId p \<in> set ms" "\<And>a. hp_awayMemberId p = Some a \<Longrightarrow> a \<in> set ms"
proof -
  let ?s = "padded_slots ms"
  obtain i rev r where i: "i < length gws" and r: "p \<in> set (league.round_at (gws ! i) rev ?s r)"
    using p unfolding schedule_eq [OF n] by auto
  show "hp_gameweekId p \<in> set gws" using league_round_gameweek [OF r] i by simp
  have in_ms: "x \<in> set ms" if "Some x \<in> set ?s" for x using that by (auto simp: padded_slots_def Let_def split: if_splits)
  note sides = league.sides_in_slots [OF slots_distinct(1-3) [OF d n] r]
  show "hp_homeMemberId p \<in> set ms" "\<And>a. hp_awayMemberId p = Some a \<Longrightarrow> a \<in> set ms"
    using sides by (auto intro: in_ms)
qed

lemma length_filter_imp: "(\<And>x. P x \<Longrightarrow> Q x) \<Longrightarrow> length (filter P xs) \<le> length (filter Q xs)"
  by (induction xs) (auto intro: le_SucI)

lemma schedule_keys:
  assumes n: "2 \<le> length ms" and d: "distinct ms" "distinct gws"
  shows "distinct (map (\<lambda>p. (hp_gameweekId p, hp_homeMemberId p)) (generateRoundRobinSchedule ms gws))"
proof -
  let ?ps = "generateRoundRobinSchedule ms gws" and ?key = "\<lambda>p. (hp_gameweekId p, hp_homeMemberId p)"
  have le: "length (filter (\<lambda>q. ?key q = ?key p) ?ps) \<le> 1" if p: "p \<in> set ?ps" for p
  proof -
    have "length (filter (\<lambda>q. ?key q = ?key p) ?ps)
        \<le> length (filter (\<lambda>q. hp_gameweekId q = hp_gameweekId p \<and> hp_plays (hp_homeMemberId p) q) ?ps)"
      by (rule length_filter_imp) (simp add: hp_plays_def)
    then show ?thesis using schedule_once [OF n d schedule_members(1,2) [OF n d(1) p]] by simp
  qed
  have "distinct (map f xs)" if "\<And>x. x \<in> set xs \<Longrightarrow> length (filter (\<lambda>y. f y = f x) xs) \<le> 1"
    for f :: "h2h_pairing \<Rightarrow> int \<times> string" and xs
    using that
  proof (induction xs)
    case (Cons x xs)
    have "filter (\<lambda>y. f y = f x) xs = []" using Cons.prems [of x] by simp
    then have "f x \<notin> f ` set xs" by (auto simp: filter_empty_conv)
    moreover have "length (filter (\<lambda>y. f y = f z) xs) \<le> 1" if "z \<in> set xs" for z using Cons.prems [of z] that by (auto split: if_splits)
    ultimately show ?case using Cons.IH by simp
  qed simp
  from this [of ?ps ?key] le show ?thesis by blast
qed

text \<open>
  The head-to-head schedule of a league is balanced: with at least two members and distinct
  gameweeks, every member plays exactly once in every gameweek (against another member or the average
  team), and the numbers of meetings of any two pairs of members differ by at most one: it is the
  number of complete cycles, or one more.
\<close>

theorem h2h_schedule_balanced:
  assumes n: "2 \<le> length ms" and d: "distinct ms" "distinct gws"
  defines "cycle \<equiv> if even (length ms) then length ms - 1 else length ms"
  shows "(\<forall>gw \<in> set gws. \<forall>a \<in> set ms.
           length (filter (\<lambda>p. hp_gameweekId p = gw \<and> hp_plays a p) (generateRoundRobinSchedule ms gws)) = 1)
       \<and> (\<forall>a \<in> set ms. \<forall>b \<in> set ms. a \<noteq> b \<longrightarrow>
           length (filter (hp_meets a b) (generateRoundRobinSchedule ms gws))
             \<in> {length gws div cycle, length gws div cycle + 1})"
proof -
  let ?s = "padded_slots ms"
  note s = slots_distinct [OF d(1) n]
  have cycle: "cycle = length ?s - 1" "0 < cycle"
    using n unfolding cycle_def padded_slots_def Let_def odd_iff_mod_2_eq_one [symmetric] by auto
  have "length (filter (\<lambda>p. hp_gameweekId p = g \<and> hp_plays a p) (generateRoundRobinSchedule ms gws)) = 1"
    if "g \<in> set gws" "a \<in> set ms" for g a using schedule_once [OF n d that] .
  moreover have "length (filter (hp_meets a b) (generateRoundRobinSchedule ms gws)) \<in> {length gws div cycle, length gws div cycle + 1}"
    if ab: "a \<in> set ms" "b \<in> set ms" "a \<noteq> b" for a b
  proof -
    define f where "f r = length (filter (hp_meets a b) (league.round_at 0 False ?s r))" for r
    have same: "length (filter (hp_meets a b) (league.round_at g rev ?s r)) = f r" for g rev r
      unfolding f_def hp_meets_sides league.meetings_count league.round_at_pairs [OF s(1-3)] ..
    have "(\<Sum>r\<leftarrow>[0..<cycle]. f r) = 1"
      unfolding f_def cycle(1) using league.meetings_cycle [OF s(1-3), of "Some a" "Some b" 0 False] s(4) ab
      by (auto simp: filter_concat_length comp_def hp_meets_sides)
    from sum_cycle [OF this cycle(2)] show ?thesis
      unfolding schedule_eq [OF n] filter_concat_length by (simp add: comp_def same cycle(1))
  qed
  ultimately show ?thesis by blast
qed

theorem h2h_schedule_balanced_witness:
  "length (filter (\<lambda>p. hp_gameweekId p = 8 \<and> hp_plays ''a'' p) (generateRoundRobinSchedule [''a'', ''b'', ''c''] [7, 8, 9, 10])) = 1
   \<and> length (filter (hp_meets ''a'' ''b'') (generateRoundRobinSchedule [''a'', ''b'', ''c''] [7, 8, 9, 10])) \<in> {1, Suc 1}"
  using h2h_schedule_balanced [of "[''a'', ''b'', ''c'']" "[7, 8, 9, 10]"] by simp

section \<open>The validator\<close>

definition pipe_free :: "string \<Rightarrow> bool" where
  "pipe_free s \<longleftrightarrow> CHR ''|'' \<notin> set s"

lemma repeated_Nil_iff: "repeated r seen is = [] \<longleftrightarrow> distinct is \<and> set is \<inter> set seen = {}"
  by (induction r seen "is" rule: repeated.induct) auto

lemma pair_text_eq: "pair_text a b = (if str_cmp a b \<le> 0 then a @ ''|'' @ b else b @ ''|'' @ a)"
  by (simp add: pair_text_def js_sort_def)

lemma pipe_split: "pipe_free x \<Longrightarrow> pipe_free u \<Longrightarrow> x @ ''|'' @ y = u @ ''|'' @ v \<Longrightarrow> x = u \<and> y = v"
proof (induction x arbitrary: u)
  case Nil
  then show ?case by (cases u) (auto simp: pipe_free_def)
next
  case (Cons c x)
  then show ?case by (cases u) (auto simp: pipe_free_def)
qed

lemma pair_text_inj:
  assumes "pipe_free a" "pipe_free b" "pipe_free c" "pipe_free d"
  shows "pair_text a b = pair_text c d \<longleftrightarrow> (a = c \<and> b = d) \<or> (a = d \<and> b = c)"
proof
  show "(a = c \<and> b = d) \<or> (a = d \<and> b = c) \<Longrightarrow> pair_text a b = pair_text c d"
    using str_cmp_anti [of c d] str_cmp_zero_iff [of c d] by (auto simp: pair_text_eq)
next
  obtain x y where xy: "pair_text a b = x @ ''|'' @ y" "x = a \<and> y = b \<or> x = b \<and> y = a" by (metis pair_text_eq)
  obtain u v where uv: "pair_text c d = u @ ''|'' @ v" "u = c \<and> v = d \<or> u = d \<and> v = c" by (metis pair_text_eq)
  assume "pair_text a b = pair_text c d"
  then show "(a = c \<and> b = d) \<or> (a = d \<and> b = c)" using pipe_split [of x u y v] xy uv assms by auto
qed

lemma count_meeting_keys:
  assumes "\<forall>m \<in> set ms. \<forall>i \<in> set (match_ids m). pipe_free i" "pipe_free a" "pipe_free b"
  shows "count_list (meeting_keys ms) (pair_text a b) = length (filter (rr_meets a b) ms)"
  using assms(1)
proof (induction ms)
  case (Cons m ms)
  have "meeting_keys (m # ms) = (case rr_away m of None \<Rightarrow> [] | Some a \<Rightarrow> [pair_text (rr_home m) a]) @ meeting_keys ms"
    by (simp add: meeting_keys_def)
  with Cons assms(2,3) show ?case
    by (auto simp: rr_meets_def match_ids_def pair_text_inj split: option.splits)
qed (simp add: meeting_keys_def)

lemma all_pairs_set: "distinct xs \<Longrightarrow> (\<forall>(a, b) \<in> set (all_pairs xs). P a b) \<longleftrightarrow> (\<forall>i j. i < j \<and> j < length xs \<longrightarrow> P (xs ! i) (xs ! j))"
  by (force simp: all_pairs_def)

text \<open>
  The schedule validator reports no problem exactly for the correct schedules: nobody is listed
  twice in a round and any two participants meet exactly \<open>legs\<close> times (for distinct participants whose
  ids do not contain the separator of its pair keys).
\<close>

theorem validateRoundRobin_correct:
  assumes d: "distinct ps" and p: "\<forall>i \<in> set ps. pipe_free i"
    and q: "\<forall>round \<in> set rounds. \<forall>m \<in> set round. \<forall>i \<in> set (match_ids m). pipe_free i"
  shows "validateRoundRobin ps rounds legs = [] \<longleftrightarrow>
      (\<forall>round \<in> set rounds. distinct (concat (map match_ids round)))
      \<and> (\<forall>a \<in> set ps. \<forall>b \<in> set ps. a \<noteq> b \<longrightarrow> length (filter (rr_meets a b) (concat rounds)) = legs)"
proof -
  let ?n = "\<lambda>a b. length (filter (rr_meets a b) (concat rounds))"
  have count: "(case map_of (tally (meeting_keys (concat rounds))) (pair_text a b) of None \<Rightarrow> 0 | Some k \<Rightarrow> k) = ?n a b"
    if "a \<in> set ps" "b \<in> set ps" for a b
  proof -
    have "count_list (meeting_keys (concat rounds)) (pair_text a b) = ?n a b"
      using q p that by (intro count_meeting_keys) auto
    then show ?thesis by (auto simp: map_of_tally count_list_0_iff [symmetric])
  qed
  have sym: "?n a b = ?n b a" for a b by (rule arg_cong [of _ _ length], rule filter_cong) (auto simp: rr_meets_def)
  have "set rounds = snd ` set (enumerate 0 rounds)" by (metis map_snd_enumerate set_map)
  then have once: "(\<forall>x \<in> set (enumerate 0 rounds). (case x of (r, ms) \<Rightarrow> repeated (r + 1) [] (concat (map match_ids ms))) = [])
      \<longleftrightarrow> (\<forall>round \<in> set rounds. distinct (concat (map match_ids round)))"
    by (simp add: case_prod_beta repeated_Nil_iff)
  have pairs: "(\<forall>(a, b) \<in> set (all_pairs ps). ?n a b = legs) \<longleftrightarrow> (\<forall>a \<in> set ps. \<forall>b \<in> set ps. a \<noteq> b \<longrightarrow> ?n a b = legs)"
  proof -
    have "(\<forall>i j. i < j \<and> j < length ps \<longrightarrow> ?n (ps ! i) (ps ! j) = legs)
        \<longleftrightarrow> (\<forall>i j. i < length ps \<and> j < length ps \<and> i \<noteq> j \<longrightarrow> ?n (ps ! i) (ps ! j) = legs)"
      using sym by (metis less_trans linorder_neqE_nat nat_neq_iff)
    also have "\<dots> \<longleftrightarrow> (\<forall>a \<in> set ps. \<forall>b \<in> set ps. a \<noteq> b \<longrightarrow> ?n a b = legs)"
      using d by (auto simp: all_set_conv_all_nth nth_eq_iff_index_eq)
    finally show ?thesis unfolding all_pairs_set [OF d] .
  qed
  have "set (all_pairs ps) \<subseteq> set ps \<times> set ps" by (auto simp: all_pairs_def)
  then have "(\<forall>x \<in> set (all_pairs ps). (case x of (a, b) \<Rightarrow>
        if (case map_of (tally (meeting_keys (concat rounds))) (pair_text a b) of None \<Rightarrow> 0 | Some k \<Rightarrow> k) \<noteq> legs
        then [WrongMeetings (pair_text a b) (case map_of (tally (meeting_keys (concat rounds))) (pair_text a b) of None \<Rightarrow> 0 | Some k \<Rightarrow> k)]
        else []) = []) \<longleftrightarrow> (\<forall>(a, b) \<in> set (all_pairs ps). ?n a b = legs)"
    using count by (intro ball_cong) (auto split: if_splits)
  then show ?thesis
    unfolding validateRoundRobin_def Let_def append_is_Nil_conv concat_eq_Nil_conv set_map ball_simps once pairs by simp
qed

theorem validateRoundRobin_correct_witness:
  "validateRoundRobin [''a'', ''b''] [[\<lparr>rr_home = ''b'', rr_away = Some ''a''\<rparr>]] 1 = []"
  using validateRoundRobin_correct [of "[''a'', ''b'']" "[[\<lparr>rr_home = ''b'', rr_away = Some ''a''\<rparr>]]" 1]
  by (simp add: pipe_free_def match_ids_def rr_meets_def)

end
