(* ===== verification/Knockout.thy ===== *)
theory Knockout
  imports Round_Robin
begin

text \<open>
  Knockout cups, the second half of \<open>backend/src/services/league/tournamentService.ts\<close>: brackets and
  seeding, the tie-breaks, and the \<open>TournamentBracketService\<close> that creates a cup, settles its
  gameweeks and advances the winners.

  The hash of the virtual coin toss is a parameter \<open>sha256\<close> from the text to the bytes of the digest.
  The database is a record of the tables the service reads; the tie-break statistics are those of the
  default loader. Primary keys are drawn from a counter.
\<close>

section \<open>Brackets\<close>

definition KNOCKOUT_BRACKET_SIZES :: "nat list" where
  "KNOCKOUT_BRACKET_SIZES = [2, 4, 8, 16, 32, 64]"

definition MAX_KNOCKOUT_PARTICIPANTS :: nat where
  "MAX_KNOCKOUT_PARTICIPANTS = 64"

definition knockoutBracketSize :: "nat \<Rightarrow> tournament_error + nat" where
  "knockoutBracketSize n =
     (if n < 2 then Inl TooFewParticipants
      else if n > MAX_KNOCKOUT_PARTICIPANTS then Inl TooManyParticipants
      else Inr (the (find (\<lambda>size. size \<ge> n) KNOCKOUT_BRACKET_SIZES)))"

definition seed_step :: "nat list \<Rightarrow> nat list" where
  "seed_step order = (let tot = length order * 2 + 1 in concat (map (\<lambda>seed. [seed, tot - seed]) order))"

text \<open>The \<open>while\<close> loop; it is entered with a non-empty order only.\<close>

function seed_loop :: "nat \<Rightarrow> nat list \<Rightarrow> nat list" where
  "seed_loop sz order = (if order \<noteq> [] \<and> length order < sz then seed_loop sz (seed_step order) else order)"
  by pat_completeness auto
termination
proof (relation "measure (\<lambda>(sz, order). sz - length order)")
  fix sz :: nat and order :: "nat list"
  assume a: "order \<noteq> [] \<and> length order < sz"
  have "length (seed_step order) = 2 * length order" by (simp add: seed_step_def Let_def length_concat comp_def sum_list_triv)
  moreover have "sz - 2 * length order < sz - length order" using a by (cases order) auto
  ultimately show "((sz, seed_step order), sz, order) \<in> measure (\<lambda>(sz, order). sz - length order)" by simp
qed simp

definition standardSeedOrder :: "nat \<Rightarrow> tournament_error + nat list" where
  "standardSeedOrder sz =
     (if sz \<notin> set KNOCKOUT_BRACKET_SIZES then Inl (UnsupportedSize sz) else Inr (seed_loop sz [1, 2]))"

record knockout_pairing =
  kp_slot :: nat
  kp_home :: string
  kp_away :: "string option"
  kp_homeSeed :: nat
  kp_awaySeed :: "nat option"

definition first_round_pairing :: "string list \<Rightarrow> nat list \<Rightarrow> nat \<Rightarrow> knockout_pairing" where
  "first_round_pairing seeded order slot =
     (let a = order ! (slot * 2); b = order ! (slot * 2 + 1);
          (better, worse) = (if a < b then (a, b) else (b, a));
          home = seeded ! (better - 1);
          away = (if worse - 1 < length seeded then Some (seeded ! (worse - 1)) else None)
      in \<lparr>kp_slot = slot, kp_home = home, kp_away = away, kp_homeSeed = better,
          kp_awaySeed = (if away = None then None else Some worse)\<rparr>)"

definition generateKnockoutFirstRound :: "string list \<Rightarrow> tournament_error + knockout_pairing list" where
  "generateKnockoutFirstRound seeded =
     (if length (js_unique seeded) \<noteq> length seeded then Inl ParticipantsNotUnique
      else
        res_bind (knockoutBracketSize (length seeded)) (\<lambda>size.
        res_bind (standardSeedOrder size) (\<lambda>order.
        Inr (map (first_round_pairing seeded order) [0..<size div 2]))))"

text \<open>\<open>Math.log2\<close> of a power of two.\<close>

fun knockoutRoundCount :: "nat \<Rightarrow> nat" where
  "knockoutRoundCount sz = (if sz < 2 then 0 else Suc (knockoutRoundCount (sz div 2)))"

declare knockoutRoundCount.simps [simp del] seed_loop.simps [simp del]

definition knockoutRoundName :: "nat \<Rightarrow> nat \<Rightarrow> string" where
  "knockoutRoundName rnd totalRounds =
     (let remaining = int totalRounds - int rnd
      in if remaining = 0 then ''Final''
         else if remaining = 1 then ''Semi-final''
         else if remaining = 2 then ''Quarter-final''
         else ''Round of '' @ show_nat (2 ^ nat (remaining + 1)))"

section \<open>Tie-breaks\<close>

record tie_stats =
  ts_goalsScored :: int
  ts_goalsConceded :: int

datatype tie_break_reason = by_score | by_goals_scored | by_goals_conceded | by_coin_toss | by_bye

record match_resolution =
  mr_winner :: string
  mr_loser :: "string option"
  mr_reason :: tie_break_reason

definition virtualCoinToss :: "(string \<Rightarrow> nat list) \<Rightarrow> string \<Rightarrow> string \<Rightarrow> string \<Rightarrow> string" where
  "virtualCoinToss sha256 seed a b =
     (let ab = js_sort str_cmp [a, b]; first = ab ! 0; second = ab ! 1;
          digest = sha256 (seed @ '':'' @ first @ '':'' @ second)
      in if digest ! 0 mod 2 = 0 then first else second)"

definition no_tie_stats :: tie_stats where
  "no_tie_stats = \<lparr>ts_goalsScored = 0, ts_goalsConceded = 0\<rparr>"

definition resolveKnockoutMatch ::
  "(string \<Rightarrow> nat list) \<Rightarrow> string \<Rightarrow> string option \<Rightarrow> int \<Rightarrow> int \<Rightarrow> tie_stats option \<Rightarrow> tie_stats option \<Rightarrow> string
   \<Rightarrow> match_resolution" where
  "resolveKnockoutMatch sha256 home away' homeScore awayScore homeStats awayStats coinTossSeed =
     (case away' of
        None \<Rightarrow> \<lparr>mr_winner = home, mr_loser = None, mr_reason = by_bye\<rparr>
      | Some away \<Rightarrow>
          let home_wins = (\<lambda>reason. \<lparr>mr_winner = home, mr_loser = Some away, mr_reason = reason\<rparr>);
              away_wins = (\<lambda>reason. \<lparr>mr_winner = away, mr_loser = Some home, mr_reason = reason\<rparr>);
              hs = (case homeStats of None \<Rightarrow> no_tie_stats | Some s \<Rightarrow> s);
              as = (case awayStats of None \<Rightarrow> no_tie_stats | Some s \<Rightarrow> s)
          in if homeScore \<noteq> awayScore then
               (if homeScore > awayScore then home_wins by_score else away_wins by_score)
             else if ts_goalsScored hs \<noteq> ts_goalsScored as then
               (if ts_goalsScored hs > ts_goalsScored as then home_wins by_goals_scored else away_wins by_goals_scored)
             else if ts_goalsConceded hs \<noteq> ts_goalsConceded as then
               (if ts_goalsConceded hs < ts_goalsConceded as then home_wins by_goals_conceded else away_wins by_goals_conceded)
             else
               (let winner = virtualCoinToss sha256 coinTossSeed home away
                in \<lparr>mr_winner = winner, mr_loser = Some (if winner = home then away else home), mr_reason = by_coin_toss\<rparr>))"

definition nextRoundPairings :: "string list \<Rightarrow> tournament_error + (nat \<times> string \<times> string) list" where
  "nextRoundPairings winners =
     (if length winners < 2 \<or> length winners mod 2 \<noteq> 0 then Inl OddWinners
      else Inr (map (\<lambda>slot. (slot, winners ! (slot * 2), winners ! (slot * 2 + 1))) [0..<length winners div 2]))"

section \<open>The service\<close>

record cup_league =
  cl_id :: string
  cl_startGameweekId :: int
  cl_endGameweekId :: int

record cup_member =
  cm_id :: string
  cm_leagueId :: string
  cm_active :: bool
  cm_squadId :: string
  cm_h2hPoints :: int
  cm_totalPoints :: int
  cm_pointsFor :: int
  cm_joinedAt :: int

record cup_fixture =
  cf_id :: nat
  cf_leagueId :: string
  cf_gameweekId :: int
  cf_home :: string
  cf_away :: "string option"
  cf_isCup :: bool
  cf_isFinished :: bool
  cf_round :: "nat option"
  cf_slot :: "nat option"
  cf_homeScore :: "int option"
  cf_awayScore :: "int option"
  cf_winner :: "string option"
  cf_reason :: "tie_break_reason option"

record cup_db =
  cd_leagues :: "cup_league list"
  cd_members :: "cup_member list"
  cd_fixtures :: "cup_fixture list"
  cd_nextId :: nat
  cd_starters :: "(string \<times> int) list"
  cd_playerStats :: "(int \<times> int \<times> tie_stats) list"
  cd_squadScores :: "(string \<times> int \<times> int) list"
  cd_leagueScores :: "(string \<times> string \<times> int \<times> int) list"

text \<open>The default loader: player statistics summed per player, then per squad over its starters.\<close>

definition add_stats :: "tie_stats \<Rightarrow> tie_stats \<Rightarrow> tie_stats" where
  "add_stats s t = \<lparr>ts_goalsScored = ts_goalsScored s + ts_goalsScored t,
                    ts_goalsConceded = ts_goalsConceded s + ts_goalsConceded t\<rparr>"

definition stats_by_player :: "cup_db \<Rightarrow> int \<Rightarrow> int list \<Rightarrow> (int \<times> tie_stats) list" where
  "stats_by_player db gameweekId players =
     foldl (\<lambda>m (playerId, gw, s). AList.update playerId (add_stats (case map_of m playerId of None \<Rightarrow> no_tie_stats | Some c \<Rightarrow> c) s) m)
       [] (filter (\<lambda>(playerId, gw, s). gw = gameweekId \<and> playerId \<in> set players) (cd_playerStats db))"

definition defaultTieBreakStats :: "cup_db \<Rightarrow> string list \<Rightarrow> int \<Rightarrow> (string \<times> tie_stats) list" where
  "defaultTieBreakStats db squadIds gameweekId =
     (let starters = filter (\<lambda>(squadId, playerId). squadId \<in> set squadIds) (cd_starters db);
          byPlayer = stats_by_player db gameweekId (js_unique (map snd starters))
      in foldl (\<lambda>m (squadId, playerId). case map_of byPlayer playerId of
             None \<Rightarrow> m
           | Some s \<Rightarrow> AList.update squadId (add_stats (the (map_of m squadId)) s) m)
           (js_map (map (\<lambda>i. (i, no_tie_stats)) squadIds)) starters)"

definition seeding_order :: "cup_member cmp" where
  "seeding_order = js_or (desc (\<lambda>m. of_int (cm_h2hPoints m))) (js_or (desc (\<lambda>m. of_int (cm_totalPoints m)))
     (js_or (desc (\<lambda>m. of_int (cm_pointsFor m))) (asc (\<lambda>m. of_int (cm_joinedAt m)))))"

definition cup_fixtures :: "cup_db \<Rightarrow> string \<Rightarrow> cup_fixture list" where
  "cup_fixtures db leagueId = filter (\<lambda>f. cf_leagueId f = leagueId \<and> cf_isCup f) (cd_fixtures db)"

definition cup_at :: "cup_db \<Rightarrow> string \<Rightarrow> int \<Rightarrow> cup_fixture list" where
  "cup_at db leagueId gameweekId = filter (\<lambda>f. cf_gameweekId f = gameweekId) (cup_fixtures db leagueId)"

definition new_fixture :: "string \<Rightarrow> int \<Rightarrow> nat \<Rightarrow> nat \<Rightarrow> nat \<times> string \<times> string option \<Rightarrow> cup_fixture" where
  "new_fixture leagueId gameweekId rnd i p =
     (case p of (slot, home, away) \<Rightarrow>
       \<lparr>cf_id = i, cf_leagueId = leagueId, cf_gameweekId = gameweekId, cf_home = home, cf_away = away,
        cf_isCup = True, cf_isFinished = False, cf_round = Some rnd, cf_slot = Some slot,
        cf_homeScore = None, cf_awayScore = None, cf_winner = None, cf_reason = None\<rparr>)"

definition create_fixtures ::
  "string \<Rightarrow> int \<Rightarrow> nat \<Rightarrow> (nat \<times> string \<times> string option) list \<Rightarrow> cup_db \<Rightarrow> cup_db" where
  "create_fixtures leagueId gameweekId rnd ps db =
     db\<lparr>cd_fixtures := cd_fixtures db @ map (\<lambda>(i, p). new_fixture leagueId gameweekId rnd i p) (enumerate (cd_nextId db) ps),
        cd_nextId := cd_nextId db + length ps\<rparr>"

record cup_info =
  ci_bracketSize :: nat
  ci_rounds :: nat
  ci_finalGameweekId :: int
  ci_pairings :: "knockout_pairing list"

definition cup_seeds :: "cup_db \<Rightarrow> string \<Rightarrow> string list option \<Rightarrow> tournament_error + string list" where
  "cup_seeds db leagueId seededMemberIds =
     (let memberIds = map cm_id (js_sort seeding_order (filter (\<lambda>m. cm_leagueId m = leagueId \<and> cm_active m) (cd_members db)))
      in case seededMemberIds of
           Some ids \<Rightarrow>
             (let unknown = filter (\<lambda>i. i \<notin> set memberIds) ids
              in if unknown \<noteq> [] then Inl (NotActiveMembers unknown) else Inr ids)
         | None \<Rightarrow> Inr (js_slice 0 MAX_KNOCKOUT_PARTICIPANTS memberIds))"

definition createKnockoutCup ::
  "cup_db \<Rightarrow> string \<Rightarrow> int \<Rightarrow> string list option \<Rightarrow> tournament_error + (cup_db \<times> cup_info)" where
  "createKnockoutCup db leagueId startGameweekId seededMemberIds =
     (case find (\<lambda>l. cl_id l = leagueId) (cd_leagues db) of
        None \<Rightarrow> Inl (CupLeagueNotFound leagueId)
      | Some league \<Rightarrow>
          res_bind (cup_seeds db leagueId seededMemberIds) (\<lambda>seeds.
          res_bind (generateKnockoutFirstRound seeds) (\<lambda>pairings.
          res_bind (knockoutBracketSize (length seeds)) (\<lambda>bracketSize.
          let rounds = knockoutRoundCount bracketSize;
              finalGameweekId = startGameweekId + int rounds - 1
          in if startGameweekId < cl_startGameweekId league \<or> finalGameweekId > cl_endGameweekId league then Inl CupDoesNotFit
             else if cup_fixtures db leagueId \<noteq> [] then Inl CupExists
             else Inr (create_fixtures leagueId startGameweekId 1 (map (\<lambda>p. (kp_slot p, kp_home p, kp_away p)) pairings) db,
                       \<lparr>ci_bracketSize = bracketSize, ci_rounds = rounds, ci_finalGameweekId = finalGameweekId,
                        ci_pairings = pairings\<rparr>)))))"

record cup_result =
  cr_settled :: nat
  cr_nextRound :: "(nat \<times> int \<times> (nat \<times> string \<times> string) list) option"
  cr_champion :: "string option"

definition by_slot :: "cup_fixture cmp" where
  "by_slot = asc (\<lambda>f. of_nat (case cf_slot f of None \<Rightarrow> 0 | Some s \<Rightarrow> s))"

definition advanceKnockoutRound :: "cup_db \<Rightarrow> string \<Rightarrow> int \<Rightarrow> tournament_error + (cup_db \<times> cup_result)" where
  "advanceKnockoutRound db leagueId gameweekId =
     (let nothing = \<lparr>cr_settled = 0, cr_nextRound = None, cr_champion = None\<rparr>;
          rnd = cup_at db leagueId gameweekId
      in if rnd = [] \<or> list_ex (\<lambda>f. \<not> cf_isFinished f) rnd then Inr (db, nothing)
         else
           (let bySlot = js_sort by_slot rnd;
                winners = map (\<lambda>f. case cf_winner f of None \<Rightarrow> cf_home f | Some w \<Rightarrow> w) bySlot
            in if length winners = 1 then Inr (db, nothing\<lparr>cr_champion := Some (hd winners)\<rparr>)
               else
                 (let nextRound = (case cf_round (hd bySlot) of None \<Rightarrow> 1 | Some r \<Rightarrow> r) + 1;
                      nextGameweekId = gameweekId + 1
                  in if cup_at db leagueId nextGameweekId \<noteq> [] then Inr (db, nothing)
                     else res_bind (nextRoundPairings winners) (\<lambda>pairings.
                       Inr (create_fixtures leagueId nextGameweekId nextRound (map (\<lambda>(s, h, a). (s, h, Some a)) pairings) db,
                            nothing\<lparr>cr_nextRound := Some (nextRound, nextGameweekId, pairings)\<rparr>)))))"

text \<open>A member id as JavaScript's truth value.\<close>

definition truthy :: "string option \<Rightarrow> bool" where
  "truthy s \<longleftrightarrow> s \<noteq> None \<and> s \<noteq> Some []"

definition squad_of :: "cup_db \<Rightarrow> string list \<Rightarrow> (string \<times> string) list" where
  "squad_of db memberIds = js_map (map (\<lambda>m. (cm_id m, cm_squadId m)) (filter (\<lambda>m. cm_id m \<in> set memberIds) (cd_members db)))"

definition points_by_squad :: "cup_db \<Rightarrow> string \<Rightarrow> int \<Rightarrow> bool \<Rightarrow> string list \<Rightarrow> (string \<times> int) list" where
  "points_by_squad db leagueId gameweekId useLeagueScoring squadIds =
     (if useLeagueScoring then
        js_map (map (\<lambda>(l, s, g, p). (s, p)) (filter (\<lambda>(l, s, g, p). l = leagueId \<and> g = gameweekId \<and> s \<in> set squadIds) (cd_leagueScores db)))
      else
        js_map (map (\<lambda>(s, g, p). (s, p)) (filter (\<lambda>(s, g, p). g = gameweekId \<and> s \<in> set squadIds) (cd_squadScores db))))"

definition settle_fixture ::
  "(string \<Rightarrow> nat list) \<Rightarrow> string \<Rightarrow> (string \<Rightarrow> int) \<Rightarrow> (string \<Rightarrow> tie_stats option) \<Rightarrow> cup_fixture \<Rightarrow> cup_fixture" where
  "settle_fixture sha256 coinTossSeed scoreOf statsOf f =
     (let homeScore = scoreOf (cf_home f);
          awayScore = (if truthy (cf_away f) then Some (scoreOf (the (cf_away f))) else None);
          resolution = resolveKnockoutMatch sha256 (cf_home f) (cf_away f) homeScore
            (case awayScore of None \<Rightarrow> 0 | Some s \<Rightarrow> s) (statsOf (cf_home f))
            (if truthy (cf_away f) then statsOf (the (cf_away f)) else None) coinTossSeed
      in f\<lparr>cf_homeScore := Some homeScore, cf_awayScore := awayScore, cf_isFinished := True,
           cf_winner := Some (mr_winner resolution), cf_reason := Some (mr_reason resolution)\<rparr>)"

text \<open>The two lookups by member: the points and the tie-break statistics, loaded only if some match is tied.\<close>

definition cup_scores ::
  "cup_db \<Rightarrow> string \<Rightarrow> int \<Rightarrow> bool \<Rightarrow> cup_fixture list \<Rightarrow> (string \<Rightarrow> int) \<times> (string \<Rightarrow> tie_stats option)" where
  "cup_scores db leagueId gameweekId useLeagueScoring fixtures =
     (let memberIds = js_unique (concat (map (\<lambda>f. (if cf_home f = [] then [] else [cf_home f]) @
              (if truthy (cf_away f) then [the (cf_away f)] else [])) fixtures));
          squadByMember = squad_of db memberIds;
          squadIds = map snd squadByMember;
          pointsBySquad = points_by_squad db leagueId gameweekId useLeagueScoring squadIds;
          squadOf = (\<lambda>m. case map_of squadByMember m of None \<Rightarrow> [] | Some s \<Rightarrow> s);
          scoreOf = (\<lambda>m. case map_of pointsBySquad (squadOf m) of None \<Rightarrow> 0 | Some p \<Rightarrow> p);
          tied = list_ex (\<lambda>f. truthy (cf_away f) \<and> scoreOf (cf_home f) = scoreOf (the (cf_away f))) fixtures;
          tieStats = (if tied then defaultTieBreakStats db squadIds gameweekId else [])
      in (scoreOf, \<lambda>m. map_of tieStats (squadOf m)))"

definition settleKnockoutGameweek ::
  "(string \<Rightarrow> nat list) \<Rightarrow> cup_db \<Rightarrow> string \<Rightarrow> int \<Rightarrow> bool \<Rightarrow> tournament_error + (cup_db \<times> cup_result)" where
  "settleKnockoutGameweek sha256 db leagueId gameweekId useLeagueScoring =
     (let fixtures = filter (\<lambda>f. \<not> cf_isFinished f) (cup_at db leagueId gameweekId)
      in if fixtures = [] then Inr (db, \<lparr>cr_settled = 0, cr_nextRound = None, cr_champion = None\<rparr>)
         else
           (let scores = cup_scores db leagueId gameweekId useLeagueScoring fixtures;
                settled = map (settle_fixture sha256 (leagueId @ '':'' @ show_int gameweekId) (fst scores) (snd scores)) fixtures;
                db' = db\<lparr>cd_fixtures := map (\<lambda>f. case find (\<lambda>s. cf_id s = cf_id f) settled of None \<Rightarrow> f | Some s \<Rightarrow> s) (cd_fixtures db)\<rparr>
            in res_bind (advanceKnockoutRound db' leagueId gameweekId) (\<lambda>(db2, advance).
               Inr (db2, advance\<lparr>cr_settled := length fixtures\<rparr>))))"

text \<open>The bracket for display: the rounds with name, gameweek and fixtures, and the champion.\<close>

definition bracket_order :: "cup_fixture cmp" where
  "bracket_order = js_or (asc (\<lambda>f. of_nat (case cf_round f of None \<Rightarrow> 0 | Some r \<Rightarrow> r)))
     (asc (\<lambda>f. of_nat (case cf_slot f of None \<Rightarrow> 0 | Some s \<Rightarrow> s)))"

definition getKnockoutBracket ::
  "cup_db \<Rightarrow> string \<Rightarrow> (nat \<times> string \<times> int \<times> cup_fixture list) list \<times> string option" where
  "getKnockoutBracket db leagueId =
     (let fixtures = js_sort bracket_order (cup_fixtures db leagueId)
      in if fixtures = [] then ([], None)
         else
           (let firstRoundSize = length (filter (\<lambda>f. cf_round f = Some 1) fixtures);
                totalRounds = knockoutRoundCount (firstRoundSize * 2);
                roundsMap = group_by (\<lambda>f. the (cf_round f)) fixtures;
                final = (case map_of roundsMap totalRounds of None \<Rightarrow> None | Some l \<Rightarrow> Some (hd l))
            in (map (\<lambda>(r, l). (r, knockoutRoundName r totalRounds, cf_gameweekId (hd l), l)) roundsMap,
                case final of None \<Rightarrow> None | Some f \<Rightarrow> if cf_isFinished f then cf_winner f else None)))"

section \<open>Seeding\<close>

lemma length_seed_step [simp]: "length (seed_step order) = 2 * length order"
  by (simp add: seed_step_def Let_def length_concat comp_def sum_list_triv)

lemma nth_pairs:
  "i < length xs \<Longrightarrow> concat (map (\<lambda>x. [f x, g x]) xs) ! (2 * i) = f (xs ! i)
     \<and> concat (map (\<lambda>x. [f x, g x]) xs) ! Suc (2 * i) = g (xs ! i)"
proof (induction xs arbitrary: i)
  case (Cons x xs)
  then show ?case by (cases i) auto
qed simp

lemma nth_seed_step:
  assumes "i < length order"
  shows "seed_step order ! (2 * i) = order ! i" "seed_step order ! Suc (2 * i) = length order * 2 + 1 - order ! i"
  using nth_pairs [OF assms, of "\<lambda>s. s" "\<lambda>s. length order * 2 + 1 - s"] by (simp_all add: seed_step_def Let_def)

text \<open>
  What a seeding promises: the seeds 1 to \<open>n\<close> in some order, neighbours of complementary strength,
  and for every \<open>j\<close> the best \<open>n / 2 ^ j\<close> seeds in different sections of \<open>2 ^ j\<close> places.
\<close>

definition seeding :: "nat list \<Rightarrow> bool" where
  "seeding order \<longleftrightarrow> distinct order \<and> set order = {1..length order}
     \<and> (\<forall>i < length order div 2. order ! (2 * i) + order ! Suc (2 * i) = length order + 1)
     \<and> (\<forall>j p q. p < length order \<and> q < length order \<and> p \<noteq> q
          \<and> order ! p * 2 ^ j \<le> length order \<and> order ! q * 2 ^ j \<le> length order \<longrightarrow> p div 2 ^ j \<noteq> q div 2 ^ j)"

lemma seeding_nth: "seeding order \<Longrightarrow> i < length order \<Longrightarrow> 1 \<le> order ! i \<and> order ! i \<le> length order"
  unfolding seeding_def by (metis atLeastAtMost_iff nth_mem)

lemma seeding_step:
  assumes s: "seeding order"
  shows "seeding (seed_step order)"
proof -
  let ?n = "length order" and ?new = "seed_step order"
  have half: "p div 2 < ?n" if "p < length ?new" for p using that by auto
  have nth: "?new ! p = (if even p then order ! (p div 2) else 2 * ?n + 1 - order ! (p div 2))" if "p < length ?new" for p
    using nth_seed_step [OF half [OF that]] by (cases "even p") (auto elim!: evenE oddE)
  note b = seeding_nth [OF s]
  have inj: "order ! i = order ! j \<longleftrightarrow> i = j" if "i < ?n" "j < ?n" for i j
    using s that by (simp add: seeding_def nth_eq_iff_index_eq)
  have "p = q" if "p < length ?new" "q < length ?new" "?new ! p = ?new ! q" for p q
  proof -
    have "even p = even q" "order ! (p div 2) = order ! (q div 2)"
      using that b [OF half [OF that(1)]] b [OF half [OF that(2)]] unfolding nth [OF that(1)] nth [OF that(2)]
      by (auto split: if_splits) linarith
    then show ?thesis using inj half that by (metis even_two_times_div_two odd_two_times_div_two_succ)
  qed
  then have dist: "distinct ?new" unfolding distinct_conv_nth by blast
  have "set ?new \<subseteq> {1..length ?new}"
  proof
    fix x assume "x \<in> set ?new"
    then obtain p where p: "p < length ?new" "x = ?new ! p" by (metis in_set_conv_nth)
    then show "x \<in> {1..length ?new}" using b [OF half [OF p(1)]] by (auto simp: nth)
  qed
  then have "set ?new = {1..length ?new}" using dist by (intro card_subset_eq) (simp_all add: distinct_card)
  moreover have "?new ! (2 * i) + ?new ! Suc (2 * i) = length ?new + 1" if "i < ?n" for i
    using nth_seed_step [OF that] b [OF that] by simp
  moreover have "p div 2 ^ j \<noteq> q div 2 ^ j"
    if h: "p < length ?new" "q < length ?new" "p \<noteq> q" "?new ! p * 2 ^ j \<le> length ?new" "?new ! q * 2 ^ j \<le> length ?new" for j p q
  proof (cases j)
    case (Suc i)
    have ev: "even p \<and> order ! (p div 2) * 2 ^ i \<le> ?n" if "p < length ?new" "?new ! p * 2 ^ j \<le> length ?new" for p
    proof -
      have "even p"
      proof (rule ccontr)
        assume "odd p"
        then have "?n + 1 \<le> ?new ! p" using nth [OF that(1)] b [OF half [OF that(1)]] by (simp, linarith)
        then have "(?n + 1) * 2 ^ j \<le> length ?new" using that(2) by (meson mult_le_mono1 order_trans)
        then have "(?n + 1) * 2 ^ i \<le> ?n" using Suc by simp
        moreover have "?n + 1 \<le> (?n + 1) * 2 ^ i" by (metis mult.right_neutral mult_le_mono2 one_le_numeral one_le_power)
        ultimately show False by linarith
      qed
      then show ?thesis using that(2) nth [OF that(1)] Suc by simp
    qed
    have pq: "even p" "even q" "order ! (p div 2) * 2 ^ i \<le> ?n" "order ! (q div 2) * 2 ^ i \<le> ?n"
      using ev h by blast+
    have "p div 2 \<noteq> q div 2" using pq(1,2) h(3) by (metis even_two_times_div_two)
    then have "p div 2 div 2 ^ i \<noteq> q div 2 div 2 ^ i"
      using s pq(3,4) half [OF h(1)] half [OF h(2)] unfolding seeding_def by blast
    then show ?thesis using Suc by (simp add: div_mult2_eq)
  qed (use h in simp)
  ultimately show ?thesis using dist unfolding seeding_def by auto
qed

lemma seed_loop_power:
  assumes "length order = 2 ^ k" "seeding order" "k \<le> n"
  shows "seeding (seed_loop (2 ^ n) order) \<and> length (seed_loop (2 ^ n) order) = 2 ^ n"
  using assms
proof (induction "n - k" arbitrary: k order)
  case 0
  then have "seed_loop (2 ^ n) order = order" by (subst seed_loop.simps) simp
  with 0 show ?case by simp
next
  case (Suc d)
  then have "k < n" by simp
  then have "(2 :: nat) ^ k < 2 ^ n" by simp
  then have "seed_loop (2 ^ n) order = seed_loop (2 ^ n) (seed_step order)"
    using Suc.prems(1) by (subst seed_loop.simps) auto
  moreover have "seeding (seed_loop (2 ^ n) (seed_step order)) \<and> length (seed_loop (2 ^ n) (seed_step order)) = 2 ^ n"
    using Suc.hyps Suc.prems \<open>k < n\<close> by (intro Suc.hyps(1) [of "Suc k"] seeding_step) auto
  ultimately show ?case by simp
qed

lemma seeding_start: "seeding [1, 2]"
proof -
  have far: "p div 2 ^ j \<noteq> q div 2 ^ j"
    if "p < 2" "q < 2" "p \<noteq> q" "[1, 2] ! p * 2 ^ j \<le> (2 :: nat)" "[1, 2] ! q * 2 ^ j \<le> (2 :: nat)" for j p q :: nat
  proof -
    have "(2 :: nat) ^ j \<le> 1" using that by (auto simp: less_2_cases_iff)
    then have "j = 0" using power_gt1 [of "2 :: nat" "j - 1"] by (cases j) auto
    then show ?thesis using that by simp
  qed
  have "\<forall>i < length [1, 2 :: nat] div 2. [1, 2 :: nat] ! (2 * i) + [1, 2] ! Suc (2 * i) = length [1, 2 :: nat] + 1"
      "distinct [1, 2 :: nat]" "set [1, 2 :: nat] = {1..length [1, 2 :: nat]}" by auto
  then show ?thesis unfolding seeding_def using far by (intro conjI allI impI) (assumption | simp)+
qed

lemma bracket_size_power: "sz \<in> set KNOCKOUT_BRACKET_SIZES \<Longrightarrow> \<exists>n. 1 \<le> n \<and> sz = 2 ^ n"
proof -
  have sizes: "KNOCKOUT_BRACKET_SIZES = map (\<lambda>n. 2 ^ n) [1, 2, 3, 4, 5, 6]" by (simp add: KNOCKOUT_BRACKET_SIZES_def)
  assume "sz \<in> set KNOCKOUT_BRACKET_SIZES"
  then show ?thesis unfolding sizes by (auto intro: exI [of _ 1] exI [of _ 2] exI [of _ 3] exI [of _ 4] exI [of _ 5] exI [of _ 6])
qed

lemma standardSeedOrder_seeding:
  assumes "standardSeedOrder sz = Inr order"
  shows "seeding order" "length order = sz"
proof -
  obtain n where n: "1 \<le> n" "sz = 2 ^ n" and o: "order = seed_loop sz [1, 2]"
    using assms bracket_size_power by (auto simp: standardSeedOrder_def split: if_splits)
  show "seeding order" "length order = sz" using seed_loop_power [of "[1, 2]" 1 n] seeding_start n by (simp_all add: o)
qed

text \<open>
  The standard seed order of every supported bracket size holds each seed once, pairs strong with
  weak (neighbouring seeds add up to size + 1), and protects the best: for every number of rounds \<open>j\<close>,
  any two of the top \<open>size / 2 ^ j\<close> seeds stand in different sections of \<open>2 ^ j\<close> places, so they
  cannot meet before round \<open>j + 1\<close>; in particular the top two only meet in the final.
\<close>

theorem seed_order_protects:
  assumes "standardSeedOrder sz = Inr order"
  shows "length order = sz \<and> distinct order \<and> set order = {1..sz}
       \<and> (\<forall>i < sz div 2. order ! (2 * i) + order ! (2 * i + 1) = sz + 1)
       \<and> (\<forall>j p q. p < sz \<and> q < sz \<and> p \<noteq> q \<and> order ! p * 2 ^ j \<le> sz \<and> order ! q * 2 ^ j \<le> sz
            \<longrightarrow> p div 2 ^ j \<noteq> q div 2 ^ j)"
  using standardSeedOrder_seeding [OF assms] by (simp add: seeding_def)

theorem seed_order_protects_witness:
  "standardSeedOrder 8 = Inr [1, 8, 4, 5, 2, 7, 3, 6] \<and> distinct [1, 8, 4, 5, 2, 7, 3, 6 :: nat]"
proof -
  have run: "standardSeedOrder 8 = Inr [1, 8, 4, 5, 2, 7, 3, 6]" by code_simp
  with seed_order_protects [OF run] show ?thesis by blast
qed

section \<open>The first round\<close>

lemma bracket_fits:
  assumes "knockoutBracketSize n = Inr sz"
  shows "sz \<in> set KNOCKOUT_BRACKET_SIZES" "n \<le> sz" "sz < 2 * n" "2 \<le> n" "n \<le> 64"
proof -
  have n: "2 \<le> n" "n \<le> 64" and sz: "sz = the (find (\<lambda>size. size \<ge> n) KNOCKOUT_BRACKET_SIZES)"
    using assms by (auto simp: knockoutBracketSize_def MAX_KNOCKOUT_PARTICIPANTS_def split: if_splits)
  then show "sz \<in> set KNOCKOUT_BRACKET_SIZES" "n \<le> sz" "sz < 2 * n" "2 \<le> n" "n \<le> 64"
    by (auto simp: KNOCKOUT_BRACKET_SIZES_def split: if_splits)
qed

definition entrants :: "knockout_pairing \<Rightarrow> string list" where
  "entrants p = kp_home p # (case kp_away p of None \<Rightarrow> [] | Some a \<Rightarrow> [a])"

lemma generateKnockoutFirstRound_Inr:
  assumes "generateKnockoutFirstRound seeded = Inr ps"
  obtains sz order where "distinct seeded" "knockoutBracketSize (length seeded) = Inr sz" "seeding order" "length order = sz"
    "ps = map (first_round_pairing seeded order) [0..<sz div 2]"
proof -
  obtain sz order where "distinct seeded" "knockoutBracketSize (length seeded) = Inr sz"
      and o: "standardSeedOrder sz = Inr order" and "ps = map (first_round_pairing seeded order) [0..<sz div 2]"
    using assms length_js_unique_iff [of seeded] by (auto simp: generateKnockoutFirstRound_def split: if_splits)
  then show thesis using that standardSeedOrder_seeding [OF o] by blast
qed

text \<open>The two seeds of a place, the better one first; it always has an entrant.\<close>

lemma first_round_seeds:
  assumes s: "seeding order" "length order = sz" and n: "sz < 2 * length seeded" and i: "i < sz div 2"
  defines "a \<equiv> order ! (2 * i)" and "b \<equiv> order ! Suc (2 * i)"
  shows "min a b - 1 < length seeded" "1 \<le> min a b" "min a b < max a b"
    and "first_round_pairing seeded order i = \<lparr>kp_slot = i, kp_home = seeded ! (min a b - 1),
        kp_away = (if max a b \<le> length seeded then Some (seeded ! (max a b - 1)) else None), kp_homeSeed = min a b,
        kp_awaySeed = (if max a b \<le> length seeded then Some (max a b) else None)\<rparr>"
proof -
  have sum: "a + b = sz + 1" using s i unfolding seeding_def a_def b_def by simp
  have lt: "2 * i < length order" "Suc (2 * i) < length order" using i s(2) by auto
  have ab: "1 \<le> a" "1 \<le> b" "a \<noteq> b"
    using seeding_nth [OF s(1) lt(1)] seeding_nth [OF s(1) lt(2)] lt s(1)
    by (auto simp: a_def b_def seeding_def nth_eq_iff_index_eq)
  show "min a b - 1 < length seeded" using sum n by (auto simp: min_def)
  show "1 \<le> min a b" "min a b < max a b" using ab by auto
  show "first_round_pairing seeded order i = \<lparr>kp_slot = i, kp_home = seeded ! (min a b - 1),
        kp_away = (if max a b \<le> length seeded then Some (seeded ! (max a b - 1)) else None), kp_homeSeed = min a b,
        kp_awaySeed = (if max a b \<le> length seeded then Some (max a b) else None)\<rparr>"
    using ab by (auto simp: first_round_pairing_def Let_def a_def b_def mult.commute min_def max_def)
qed

lemma concat_pairs_id:
  assumes "length xs = 2 * h"
  shows "concat (map (\<lambda>i. [xs ! (2 * i), xs ! Suc (2 * i)]) [0..<h]) = xs"
proof (rule nth_equalityI)
  show "length (concat (map (\<lambda>i. [xs ! (2 * i), xs ! Suc (2 * i)]) [0..<h])) = length xs"
    using assms by (simp add: length_concat comp_def sum_list_triv)
  fix p assume "p < length (concat (map (\<lambda>i. [xs ! (2 * i), xs ! Suc (2 * i)]) [0..<h]))"
  then have h: "p div 2 < h" by (auto simp: length_concat comp_def sum_list_triv)
  then show "concat (map (\<lambda>i. [xs ! (2 * i), xs ! Suc (2 * i)]) [0..<h]) ! p = xs ! p"
    using nth_pairs [of "p div 2" "[0..<h]" "\<lambda>i. xs ! (2 * i)" "\<lambda>i. xs ! Suc (2 * i)"]
    by (cases "even p") (auto elim!: evenE oddE)
qed

lemma image_filter_concat:
  "(\<Sum>i\<leftarrow>is. image_mset f (filter_mset P (mset (g i)))) = image_mset f (filter_mset P (mset (concat (map g is))))"
  by (induction "is") simp_all

lemma entrants_upto:
  assumes "length xs \<le> sz"
  shows "image_mset (\<lambda>s. xs ! (s - 1)) (filter_mset (\<lambda>s. s \<le> length xs) (mset [1..<Suc sz])) = mset xs"
proof -
  have "[1..<Suc sz] = [1..<Suc (length xs)] @ [Suc (length xs)..<Suc sz]"
    using assms upt_add_eq_append [of 1 "Suc (length xs)" "sz - length xs"] by simp
  then have "filter (\<lambda>s. s \<le> length xs) [1..<Suc sz] = [1..<Suc (length xs)]"
    by (simp add: filter_empty_conv filter_id_conv del: upt_Suc)
  moreover have "map (\<lambda>s. xs ! (s - 1)) [1..<Suc (length xs)] = xs"
    by (rule nth_equalityI) (simp_all del: upt_Suc)
  ultimately show ?thesis by (metis mset_filter mset_map)
qed

text \<open>
  The first round of a knockout cup has every entrant exactly once, fills half the bracket, makes
  the better seed the home side, and gives its byes to the top seeds only: a manager without an
  opponent is among the first \<open>size - n\<close> of the \<open>n\<close> seeds.
\<close>

theorem first_round_complete:
  assumes ok: "generateKnockoutFirstRound seeded = Inr ps" and sz: "knockoutBracketSize (length seeded) = Inr sz"
  shows "mset (concat (map entrants ps)) = mset seeded \<and> length ps = sz div 2
       \<and> (\<forall>p \<in> set ps. seeded ! (kp_homeSeed p - 1) = kp_home p
            \<and> (case kp_awaySeed p of
                 None \<Rightarrow> kp_away p = None \<and> kp_homeSeed p \<le> sz - length seeded
               | Some s \<Rightarrow> kp_homeSeed p < s \<and> kp_away p = Some (seeded ! (s - 1))))"
  using ok
proof (rule generateKnockoutFirstRound_Inr)
  fix sz' order
  assume "knockoutBracketSize (length seeded) = Inr sz'" and s: "seeding order" and l': "length order = sz'"
    and ps': "ps = map (first_round_pairing seeded order) [0..<sz' div 2]"
  then have l: "length order = sz" and ps: "ps = map (first_round_pairing seeded order) [0..<sz div 2]" using sz by simp_all
  let ?n = "length seeded" and ?a = "\<lambda>i. order ! (2 * i)" and ?b = "\<lambda>i. order ! Suc (2 * i)"
  note fit = bracket_fits [OF sz]
  note pair = first_round_seeds [OF s l fit(3)]
  have "even sz" using bracket_size_power [OF fit(1)] by (auto simp: le_Suc_eq elim: Suc_le_D)
  then have "length order = 2 * (sz div 2)" using l by simp
  note order = concat_pairs_id [OF this]
  have e: "mset (entrants (first_round_pairing seeded order i))
      = image_mset (\<lambda>s. seeded ! (s - 1)) (filter_mset (\<lambda>s. s \<le> ?n) (mset [?a i, ?b i]))" if "i < sz div 2" for i
    using pair [OF that] by (auto simp: entrants_def min_def max_def)
  have "mset (concat (map entrants ps)) = (\<Sum>i\<leftarrow>[0..<sz div 2]. mset (entrants (first_round_pairing seeded order i)))"
    unfolding ps by (simp add: mset_concat comp_def)
  also have "\<dots> = (\<Sum>i\<leftarrow>[0..<sz div 2]. image_mset (\<lambda>s. seeded ! (s - 1)) (filter_mset (\<lambda>s. s \<le> ?n) (mset [?a i, ?b i])))"
    using e by (intro arg_cong [of _ _ sum_list]) simp
  also have "\<dots> = image_mset (\<lambda>s. seeded ! (s - 1)) (filter_mset (\<lambda>s. s \<le> ?n) (mset (concat (map (\<lambda>i. [?a i, ?b i]) [0..<sz div 2]))))"
    by (rule image_filter_concat)
  also have "\<dots> = image_mset (\<lambda>s. seeded ! (s - 1)) (filter_mset (\<lambda>s. s \<le> ?n) (mset order))" unfolding order ..
  also have "mset order = mset [1..<Suc sz]"
    using s l by (subst set_eq_iff_mset_eq_distinct [symmetric]) (auto simp: seeding_def)
  also have "image_mset (\<lambda>s. seeded ! (s - 1)) (filter_mset (\<lambda>s. s \<le> ?n) (mset [1..<Suc sz])) = mset seeded"
    using fit(2) by (rule entrants_upto)
  finally have all: "mset (concat (map entrants ps)) = mset seeded" .
  have "\<forall>p \<in> set ps. seeded ! (kp_homeSeed p - 1) = kp_home p
            \<and> (case kp_awaySeed p of
                 None \<Rightarrow> kp_away p = None \<and> kp_homeSeed p \<le> sz - length seeded
               | Some s \<Rightarrow> kp_homeSeed p < s \<and> kp_away p = Some (seeded ! (s - 1)))"
  proof
    fix p assume "p \<in> set ps"
    then obtain i where i: "i < sz div 2" "p = first_round_pairing seeded order i" by (auto simp: ps)
    have "?a i + ?b i = sz + 1" using s l i(1) unfolding seeding_def by simp
    then show "seeded ! (kp_homeSeed p - 1) = kp_home p
            \<and> (case kp_awaySeed p of
                 None \<Rightarrow> kp_away p = None \<and> kp_homeSeed p \<le> sz - length seeded
               | Some s \<Rightarrow> kp_homeSeed p < s \<and> kp_away p = Some (seeded ! (s - 1)))"
      using pair [OF i(1)] unfolding i(2) by (auto simp: min_def max_def split: if_splits)
  qed
  then show ?thesis using all by (simp add: ps)
qed

theorem first_round_complete_witness:
  "\<exists>ps. generateKnockoutFirstRound [''a'', ''b'', ''c''] = Inr ps \<and> mset (concat (map entrants ps)) = mset [''a'', ''b'', ''c'']"
proof -
  have "isl (generateKnockoutFirstRound [''a'', ''b'', ''c'']) = False" by code_simp
  then obtain ps where ok: "generateKnockoutFirstRound [''a'', ''b'', ''c''] = Inr ps" by (metis isl_def sum.exhaust)
  have "knockoutBracketSize (length [''a'', ''b'', ''c'']) = Inr 4" by code_simp
  from first_round_complete [OF ok this] ok show ?thesis by blast
qed

section \<open>A cup is played to its end\<close>

lemma coin_toss_winner: "virtualCoinToss sha256 seed a b \<in> {a, b}"
  by (auto simp: virtualCoinToss_def Let_def js_sort_def)

lemma coin_toss_symmetric: "virtualCoinToss sha256 seed a b = virtualCoinToss sha256 seed b a"
  using str_cmp_anti [of a b] str_cmp_zero_iff [of a b] by (auto simp: virtualCoinToss_def Let_def js_sort_def)

lemma resolve_winner:
  "mr_winner (resolveKnockoutMatch sha256 home away hs as ht ta seed) = home
   \<or> away = Some (mr_winner (resolveKnockoutMatch sha256 home away hs as ht ta seed))"
  using coin_toss_winner [of sha256 seed home "the away"]
  by (cases away) (auto simp: resolveKnockoutMatch_def Let_def)

lemma settle_fixture_simps [simp]:
  "cf_id (settle_fixture h c sc st f) = cf_id f" "cf_leagueId (settle_fixture h c sc st f) = cf_leagueId f"
  "cf_gameweekId (settle_fixture h c sc st f) = cf_gameweekId f" "cf_isCup (settle_fixture h c sc st f) = cf_isCup f"
  "cf_isFinished (settle_fixture h c sc st f)" "cf_home (settle_fixture h c sc st f) = cf_home f"
  by (simp_all add: settle_fixture_def Let_def)

lemma settle_fixture_winner:
  "\<exists>w. cf_winner (settle_fixture sha256 c sc st f) = Some w \<and> (w = cf_home f \<or> cf_away f = Some w)"
  unfolding settle_fixture_def Let_def by (rule exI, rule conjI, simp, rule resolve_winner)

text \<open>The state of a cup before its gameweek \<open>gw\<close>, with \<open>c\<close> matches to play.\<close>

definition cup_open :: "string \<Rightarrow> string set \<Rightarrow> nat \<Rightarrow> cup_db \<Rightarrow> int \<Rightarrow> nat \<Rightarrow> bool" where
  "cup_open L ms sz db gw c \<longleftrightarrow>
     distinct (map cf_id (cd_fixtures db)) \<and> (\<forall>f \<in> set (cd_fixtures db). cf_id f < cd_nextId db)
     \<and> length (cup_at db L gw) = c
     \<and> (\<forall>f \<in> set (cup_at db L gw). \<not> cf_isFinished f \<and> cf_home f \<in> ms \<and> (\<forall>a. cf_away f = Some a \<longrightarrow> a \<in> ms))
     \<and> (\<forall>f \<in> set (cup_fixtures db L). cf_gameweekId f \<le> gw \<and> (cf_gameweekId f < gw \<longrightarrow> cf_isFinished f))
     \<and> length (cup_fixtures db L) + c = sz"

text \<open>Settling the matches of a gameweek changes these fixtures only.\<close>

lemma update_settled:
  assumes d: "distinct (map cf_id fs)" and g: "\<And>f. cf_id (g f) = cf_id f"
  shows "map (\<lambda>f. case find (\<lambda>s. cf_id s = cf_id f) (map g (filter P fs)) of None \<Rightarrow> f | Some s \<Rightarrow> s) fs
     = map (\<lambda>f. if P f then g f else f) fs"
proof (rule map_cong [OF refl])
  fix f assume f: "f \<in> set fs"
  show "(case find (\<lambda>s. cf_id s = cf_id f) (map g (filter P fs)) of None \<Rightarrow> f | Some s \<Rightarrow> s) = (if P f then g f else f)"
  proof (cases "P f")
    case True
    have "distinct (map cf_id (map g (filter P fs)))" using d g by (simp add: comp_def distinct_map_filter)
    moreover have "g f \<in> set (map g (filter P fs))" using f True by simp
    ultimately have "find (\<lambda>s. cf_id s = cf_id (g f)) (map g (filter P fs)) = Some (g f)" by (rule find_unique)
    then show ?thesis using True by (simp add: g)
  next
    case False
    have "find (\<lambda>s. cf_id s = cf_id f) (map g (filter P fs)) = None"
      using f False d g by (auto simp: find_None_iff distinct_map inj_on_def)
    then show ?thesis using False by simp
  qed
qed

lemma create_fixtures_simps:
  shows "cup_fixtures (create_fixtures L gw rnd ps db) L
      = cup_fixtures db L @ map (\<lambda>(i, p). new_fixture L gw rnd i p) (enumerate (cd_nextId db) ps)"
    and "distinct (map cf_id (cd_fixtures db)) \<Longrightarrow> \<forall>f \<in> set (cd_fixtures db). cf_id f < cd_nextId db \<Longrightarrow>
      distinct (map cf_id (cd_fixtures (create_fixtures L gw rnd ps db)))
      \<and> (\<forall>f \<in> set (cd_fixtures (create_fixtures L gw rnd ps db)). cf_id f < cd_nextId (create_fixtures L gw rnd ps db))"
proof -
  have n: "cf_id (new_fixture L gw rnd i p) = i" "cf_leagueId (new_fixture L gw rnd i p) = L" "cf_isCup (new_fixture L gw rnd i p)" for i p
    by (simp_all add: new_fixture_def split: prod.splits)
  show "cup_fixtures (create_fixtures L gw rnd ps db) L
      = cup_fixtures db L @ map (\<lambda>(i, p). new_fixture L gw rnd i p) (enumerate (cd_nextId db) ps)"
  proof -
    have "filter (\<lambda>f. cf_leagueId f = L \<and> cf_isCup f) (map (\<lambda>(i, p). new_fixture L gw rnd i p) (enumerate (cd_nextId db) ps))
        = map (\<lambda>(i, p). new_fixture L gw rnd i p) (enumerate (cd_nextId db) ps)"
      by (rule filter_True) (auto simp: n)
    then show ?thesis by (simp add: cup_fixtures_def create_fixtures_def)
  qed
  have ids: "map cf_id (map (\<lambda>(i, p). new_fixture L gw rnd i p) (enumerate (cd_nextId db) ps)) = [cd_nextId db..<cd_nextId db + length ps]"
    using n by (simp add: comp_def case_prod_beta fst_def [symmetric] flip: map_fst_enumerate)
  assume a: "distinct (map cf_id (cd_fixtures db))" "\<forall>f \<in> set (cd_fixtures db). cf_id f < cd_nextId db"
  let ?db = "create_fixtures L gw rnd ps db"
  have all: "map cf_id (cd_fixtures ?db) = map cf_id (cd_fixtures db) @ [cd_nextId db..<cd_nextId db + length ps]"
    unfolding ids [symmetric] by (simp add: create_fixtures_def)
  have "cf_id f < cd_nextId ?db" if "f \<in> set (cd_fixtures ?db)" for f
  proof -
    have "cf_id f \<in> set (map cf_id (cd_fixtures ?db))" using that by simp
    then show ?thesis using a(2) unfolding all by (auto simp: create_fixtures_def)
  qed
  moreover have "distinct (map cf_id (cd_fixtures ?db))" unfolding all using a by auto
  ultimately show "distinct (map cf_id (cd_fixtures ?db)) \<and> (\<forall>f \<in> set (cd_fixtures ?db). cf_id f < cd_nextId ?db)" by blast
qed

text \<open>The database after the matches of the gameweek are settled, before the winners advance.\<close>

definition settled_db ::
  "(cup_fixture \<Rightarrow> cup_fixture) \<Rightarrow> string \<Rightarrow> int \<Rightarrow> cup_db \<Rightarrow> cup_db" where
  "settled_db g L gw db = db\<lparr>cd_fixtures :=
     map (\<lambda>f. if cf_leagueId f = L \<and> cf_isCup f \<and> cf_gameweekId f = gw \<and> \<not> cf_isFinished f then g f else f) (cd_fixtures db)\<rparr>"

lemma settle_split:
  assumes d: "distinct (map cf_id (cd_fixtures db))" and ne: "filter (\<lambda>f. \<not> cf_isFinished f) (cup_at db L gw) \<noteq> []"
  obtains sc st where "settleKnockoutGameweek sha256 db L gw u =
    res_bind (advanceKnockoutRound (settled_db (settle_fixture sha256 (L @ '':'' @ show_int gw) sc st) L gw db) L gw)
      (\<lambda>(db2, adv). Inr (db2, adv\<lparr>cr_settled := length (filter (\<lambda>f. \<not> cf_isFinished f) (cup_at db L gw))\<rparr>))"
proof -
  let ?P = "\<lambda>f. cf_leagueId f = L \<and> cf_isCup f \<and> cf_gameweekId f = gw \<and> \<not> cf_isFinished f"
  have fs: "filter (\<lambda>f. \<not> cf_isFinished f) (cup_at db L gw) = filter ?P (cd_fixtures db)"
    by (simp add: cup_at_def cup_fixtures_def conj_ac)
  have upd: "map (\<lambda>f. case find (\<lambda>s. cf_id s = cf_id f) (map (settle_fixture sha256 c sc st) (filter ?P (cd_fixtures db))) of None \<Rightarrow> f | Some s \<Rightarrow> s) (cd_fixtures db)
      = map (\<lambda>f. if ?P f then settle_fixture sha256 c sc st f else f) (cd_fixtures db)" for c sc st
    by (rule update_settled [OF d]) simp
  let ?s = "cup_scores db L gw u (filter ?P (cd_fixtures db))"
  show thesis
    using ne by (intro that [of "fst ?s" "snd ?s"]) (simp only: settleKnockoutGameweek_def Let_def fs upd settled_db_def if_False)
qed

lemma settled_db_cup:
  assumes g: "\<And>f. cf_id (g f) = cf_id f \<and> cf_leagueId (g f) = cf_leagueId f \<and> cf_gameweekId (g f) = cf_gameweekId f \<and> cf_isCup (g f) = cf_isCup f"
  shows "cup_fixtures (settled_db g L gw db) L
      = map (\<lambda>f. if cf_gameweekId f = gw \<and> \<not> cf_isFinished f then g f else f) (cup_fixtures db L)"
    and "cup_at (settled_db g L gw db) L gw' = map (\<lambda>f. if cf_gameweekId f = gw \<and> \<not> cf_isFinished f then g f else f) (cup_at db L gw')"
    and "map cf_id (cd_fixtures (settled_db g L gw db)) = map cf_id (cd_fixtures db)" "cd_nextId (settled_db g L gw db) = cd_nextId db"
proof -
  let ?h = "\<lambda>f. if cf_gameweekId f = gw \<and> \<not> cf_isFinished f then g f else f"
  let ?k = "\<lambda>f. if cf_leagueId f = L \<and> cf_isCup f \<and> cf_gameweekId f = gw \<and> \<not> cf_isFinished f then g f else f"
  have "filter (\<lambda>f. cf_leagueId f = L \<and> cf_isCup f) (map ?k fs) = map ?h (filter (\<lambda>f. cf_leagueId f = L \<and> cf_isCup f) fs)" for fs
    using g by (induction fs) auto
  then show c: "cup_fixtures (settled_db g L gw db) L = map ?h (cup_fixtures db L)" by (simp add: cup_fixtures_def settled_db_def)
  have "filter (\<lambda>f. cf_gameweekId f = gw') (map ?h fs) = map ?h (filter (\<lambda>f. cf_gameweekId f = gw') fs)" for fs
    using g by (induction fs) auto
  then show "cup_at (settled_db g L gw db) L gw' = map ?h (cup_at db L gw')" by (simp add: cup_at_def c)
  show "map cf_id (cd_fixtures (settled_db g L gw db)) = map cf_id (cd_fixtures db)" "cd_nextId (settled_db g L gw db) = cd_nextId db"
    using g by (simp_all add: settled_db_def)
qed

text \<open>After the settlement every fixture of the round is finished and its winner took part in it.\<close>

lemma settled_round:
  assumes cup: "cup_open L ms sz db gw c" and g: "g = settle_fixture sha256 seed sc st"
  shows "length (cup_at (settled_db g L gw db) L gw) = c"
    and "\<forall>f \<in> set (cup_fixtures (settled_db g L gw db) L). cf_isFinished f \<and> cf_gameweekId f \<le> gw"
    and "\<forall>f \<in> set (cup_at (settled_db g L gw db) L gw). \<exists>w \<in> ms. cf_winner f = Some w"
    and "length (cup_fixtures (settled_db g L gw db) L) + c = sz"
proof -
  have gs: "cf_id (g f) = cf_id f \<and> cf_leagueId (g f) = cf_leagueId f \<and> cf_gameweekId (g f) = cf_gameweekId f \<and> cf_isCup (g f) = cf_isCup f" for f
    by (simp add: g)
  note s = settled_db_cup [of g, OF gs]
  show "length (cup_at (settled_db g L gw db) L gw) = c" "length (cup_fixtures (settled_db g L gw db) L) + c = sz"
    using cup by (simp_all add: s cup_open_def)
  show "\<forall>f \<in> set (cup_fixtures (settled_db g L gw db) L). cf_isFinished f \<and> cf_gameweekId f \<le> gw"
  proof
    fix f' assume "f' \<in> set (cup_fixtures (settled_db g L gw db) L)"
    then obtain f where f: "f \<in> set (cup_fixtures db L)" "f' = (if cf_gameweekId f = gw \<and> \<not> cf_isFinished f then g f else f)"
      by (auto simp: s(1))
    have "cf_gameweekId f \<le> gw \<and> (cf_gameweekId f < gw \<longrightarrow> cf_isFinished f)" using cup f(1) by (simp add: cup_open_def)
    then show "cf_isFinished f' \<and> cf_gameweekId f' \<le> gw" using f(2) gs [of f] by (auto simp: g)
  qed
  have "\<exists>w \<in> ms. cf_winner (g f) = Some w" if "f \<in> set (cup_at db L gw)" for f
    using cup that settle_fixture_winner [of sha256 seed sc st f] unfolding cup_open_def g by blast
  moreover have "cf_gameweekId f = gw \<and> \<not> cf_isFinished f" if "f \<in> set (cup_at db L gw)" for f
    using cup that by (auto simp: cup_open_def cup_at_def)
  ultimately show "\<forall>f \<in> set (cup_at (settled_db g L gw db) L gw). \<exists>w \<in> ms. cf_winner f = Some w"
    by (auto simp: s(2))
qed

text \<open>Creating the fixtures of a round opens it.\<close>

lemma create_fixtures_open:
  assumes ids: "distinct (map cf_id (cd_fixtures db))" "\<forall>f \<in> set (cd_fixtures db). cf_id f < cd_nextId db"
    and old: "\<forall>f \<in> set (cup_fixtures db L). cf_isFinished f \<and> cf_gameweekId f < gw"
    and ms: "\<forall>(s, h, a) \<in> set ps. h \<in> ms \<and> (\<forall>x. a = Some x \<longrightarrow> x \<in> ms)"
    and c: "length ps = c" "length (cup_fixtures db L) + 2 * c = sz"
  shows "cup_open L ms sz (create_fixtures L gw rnd ps db) gw c"
proof -
  let ?new = "map (\<lambda>(i, p). new_fixture L gw rnd i p) (enumerate (cd_nextId db) ps)"
  note cf = create_fixtures_simps(1) [of L gw rnd ps db]
  have new: "\<forall>f \<in> set ?new. cf_gameweekId f = gw \<and> \<not> cf_isFinished f \<and> cf_home f \<in> ms \<and> (\<forall>a. cf_away f = Some a \<longrightarrow> a \<in> ms)"
  proof
    fix f assume "f \<in> set ?new"
    then obtain x where x: "x \<in> set (enumerate (cd_nextId db) ps)" "f = new_fixture L gw rnd (fst x) (snd x)" by auto
    moreover have "snd x \<in> set ps" using x(1) by (metis imageI list.set_map map_snd_enumerate)
    ultimately obtain i s h a where f: "f = new_fixture L gw rnd i (s, h, a)" "(s, h, a) \<in> set ps" by (metis prod_cases3)
    then show "cf_gameweekId f = gw \<and> \<not> cf_isFinished f \<and> cf_home f \<in> ms \<and> (\<forall>a. cf_away f = Some a \<longrightarrow> a \<in> ms)"
      using ms by (auto simp: new_fixture_def)
  qed
  have "filter (\<lambda>f. cf_gameweekId f = gw) (cup_fixtures db L) = []" using old by (auto simp: filter_empty_conv)
  moreover have "filter (\<lambda>f. cf_gameweekId f = gw) ?new = ?new" using new by (intro filter_True) blast
  ultimately have at_gw: "cup_at (create_fixtures L gw rnd ps db) L gw = ?new" by (simp add: cup_at_def cf)
  show ?thesis
    using create_fixtures_simps(2) [OF ids] old new c unfolding cup_open_def at_gw cf
    by (auto simp del: set_map)
qed

lemma cup_settled:
  assumes cup: "cup_open L ms sz db gw c" and c: "0 < c"
  obtains db1 where
    "settleKnockoutGameweek sha256 db L gw u =
       res_bind (advanceKnockoutRound db1 L gw) (\<lambda>(db2, adv). Inr (db2, adv\<lparr>cr_settled := c\<rparr>))"
    "length (cup_at db1 L gw) = c" "\<forall>f \<in> set (cup_fixtures db1 L). cf_isFinished f \<and> cf_gameweekId f \<le> gw"
    "\<forall>f \<in> set (cup_at db1 L gw). \<exists>w \<in> ms. cf_winner f = Some w" "length (cup_fixtures db1 L) + c = sz"
    "distinct (map cf_id (cd_fixtures db1))" "\<forall>f \<in> set (cd_fixtures db1). cf_id f < cd_nextId db1"
proof -
  have d: "distinct (map cf_id (cd_fixtures db))" and n: "\<forall>f \<in> set (cd_fixtures db). cf_id f < cd_nextId db"
    using cup by (simp_all add: cup_open_def)
  have fs: "filter (\<lambda>f. \<not> cf_isFinished f) (cup_at db L gw) = cup_at db L gw"
    using cup by (intro filter_True) (simp add: cup_open_def)
  have len: "length (cup_at db L gw) = c" using cup by (simp add: cup_open_def)
  have "filter (\<lambda>f. \<not> cf_isFinished f) (cup_at db L gw) \<noteq> []" unfolding fs using len c by auto
  from settle_split [OF d this, of sha256 u] obtain sc st where
    run: "settleKnockoutGameweek sha256 db L gw u =
      res_bind (advanceKnockoutRound (settled_db (settle_fixture sha256 (L @ '':'' @ show_int gw) sc st) L gw db) L gw)
        (\<lambda>(db2, adv). Inr (db2, adv\<lparr>cr_settled := c\<rparr>))" unfolding fs len by blast
  let ?g = "settle_fixture sha256 (L @ '':'' @ show_int gw) sc st"
  have ids: "map cf_id (cd_fixtures (settled_db ?g L gw db)) = map cf_id (cd_fixtures db)"
      "cd_nextId (settled_db ?g L gw db) = cd_nextId db"
    by (rule settled_db_cup; simp)+
  have "cf_id f < cd_nextId db" if "f \<in> set (cd_fixtures (settled_db ?g L gw db))" for f
  proof -
    have "cf_id f \<in> set (map cf_id (cd_fixtures (settled_db ?g L gw db)))" using that by simp
    then show ?thesis using n unfolding ids by auto
  qed
  then show thesis
    using that [OF run settled_round [OF cup refl]] d ids by simp
qed

text \<open>One settled gameweek: the champion after the last match, half as many matches otherwise.\<close>

lemma cup_final:
  assumes "cup_open L ms sz db gw 1"
  shows "\<exists>db' r w. settleKnockoutGameweek sha256 db L gw u = Inr (db', r) \<and> cr_champion r = Some w \<and> w \<in> ms
      \<and> (\<forall>f \<in> set (cup_fixtures db' L). cf_isFinished f) \<and> length (cup_fixtures db' L) + 1 = sz"
  using assms zero_less_one
proof (rule cup_settled [of L ms sz db gw 1 sha256 u])
  fix db1
  assume run: "settleKnockoutGameweek sha256 db L gw u =
       res_bind (advanceKnockoutRound db1 L gw) (\<lambda>(db2, adv). Inr (db2, adv\<lparr>cr_settled := 1\<rparr>))"
    and one: "length (cup_at db1 L gw) = 1"
    and r: "\<forall>f \<in> set (cup_fixtures db1 L). cf_isFinished f \<and> cf_gameweekId f \<le> gw"
      "\<forall>f \<in> set (cup_at db1 L gw). \<exists>w \<in> ms. cf_winner f = Some w" "length (cup_fixtures db1 L) + 1 = sz"
  obtain f where f: "cup_at db1 L gw = [f]" using one by (auto simp: length_Suc_conv)
  then have "f \<in> set (cup_fixtures db1 L)" unfolding cup_at_def by (metis filter_is_subset list.set_intros(1) subsetD)
  then have "cf_isFinished f" using r(1) by blast
  moreover obtain w where w: "w \<in> ms" "cf_winner f = Some w" using r(2) f by auto
  ultimately show ?thesis using r f w by (simp add: run advanceKnockoutRound_def Let_def js_sort_def)
qed

lemma cup_round:
  assumes "cup_open L ms sz db gw (2 * d)" and d: "0 < d"
  shows "\<exists>db' r. settleKnockoutGameweek sha256 db L gw u = Inr (db', r) \<and> cup_open L ms sz db' (gw + 1) d"
proof (rule cup_settled [of L ms sz db gw "2 * d" sha256 u, OF assms(1)])
  show "0 < 2 * d" using d by simp
  fix db1
  assume run: "settleKnockoutGameweek sha256 db L gw u =
       res_bind (advanceKnockoutRound db1 L gw) (\<lambda>(db2, adv). Inr (db2, adv\<lparr>cr_settled := 2 * d\<rparr>))"
    and len: "length (cup_at db1 L gw) = 2 * d"
    and r: "\<forall>f \<in> set (cup_fixtures db1 L). cf_isFinished f \<and> cf_gameweekId f \<le> gw"
      "\<forall>f \<in> set (cup_at db1 L gw). \<exists>w \<in> ms. cf_winner f = Some w" "length (cup_fixtures db1 L) + 2 * d = sz"
    and ids: "distinct (map cf_id (cd_fixtures db1))" "\<forall>f \<in> set (cd_fixtures db1). cf_id f < cd_nextId db1"
  let ?by = "js_sort by_slot (cup_at db1 L gw)"
  let ?w = "map (\<lambda>f. case cf_winner f of None \<Rightarrow> cf_home f | Some w \<Rightarrow> w) ?by"
  let ?ps = "map (\<lambda>slot. (slot, ?w ! (slot * 2), ?w ! (slot * 2 + 1))) [0..<d]"
  let ?rnd = "(case cf_round (hd ?by) of None \<Rightarrow> 1 | Some r \<Rightarrow> r) + 1"
  let ?new = "map (\<lambda>(s, h, a). (s, h, Some a)) ?ps"
  let ?db2 = "create_fixtures L (gw + 1) ?rnd ?new db1"
  have go: "cup_at db1 L gw \<noteq> []" "\<not> list_ex (\<lambda>f. \<not> cf_isFinished f) (cup_at db1 L gw)"
    using r(1) len d by (auto simp: list_ex_iff cup_at_def)
  have none: "cup_at db1 L (gw + 1) = []" using r(1) by (auto simp: cup_at_def filter_empty_conv)
  have ws: "?w ! i \<in> ms" if "i < 2 * d" for i
  proof -
    have "?by ! i \<in> set (cup_at db1 L gw)" using that len by (metis length_js_sort nth_mem set_js_sort)
    then obtain w where "w \<in> ms" "cf_winner (?by ! i) = Some w" using r(2) by blast
    then show ?thesis using that len by simp
  qed
  have "nextRoundPairings ?w = Inr ?ps" using len d by (simp add: nextRoundPairings_def)
  then have "advanceKnockoutRound db1 L gw = Inr (?db2, \<lparr>cr_settled = 0, cr_nextRound = Some (?rnd, gw + 1, ?ps), cr_champion = None\<rparr>)"
    using go none len d by (simp add: advanceKnockoutRound_def Let_def)
  moreover have "cup_open L ms sz ?db2 (gw + 1) d"
    using r(1,3) ids ws by (intro create_fixtures_open) auto
  ultimately show ?thesis using run by simp
qed

text \<open>The settlement of consecutive gameweeks; the result is that of the last one.\<close>

fun settle_gameweeks ::
  "(string \<Rightarrow> nat list) \<Rightarrow> nat \<Rightarrow> cup_db \<Rightarrow> string \<Rightarrow> int \<Rightarrow> bool \<Rightarrow> tournament_error + (cup_db \<times> cup_result)" where
  "settle_gameweeks sha256 0 db L gw u = Inr (db, \<lparr>cr_settled = 0, cr_nextRound = None, cr_champion = None\<rparr>)"
| "settle_gameweeks sha256 (Suc 0) db L gw u = settleKnockoutGameweek sha256 db L gw u"
| "settle_gameweeks sha256 (Suc (Suc n)) db L gw u =
     res_bind (settleKnockoutGameweek sha256 db L gw u) (\<lambda>(db', r). settle_gameweeks sha256 (Suc n) db' L (gw + 1) u)"

lemma cup_ends:
  "cup_open L ms sz db gw (2 ^ n) \<Longrightarrow>
   \<exists>db' r w. settle_gameweeks sha256 (Suc n) db L gw u = Inr (db', r) \<and> cr_champion r = Some w \<and> w \<in> ms
      \<and> (\<forall>f \<in> set (cup_fixtures db' L). cf_isFinished f) \<and> length (cup_fixtures db' L) + 1 = sz"
proof (induction n arbitrary: db gw)
  case 0
  then show ?case using cup_final [of L ms sz db gw sha256 u] by simp
next
  case (Suc n)
  then obtain db1 r1 where "settleKnockoutGameweek sha256 db L gw u = Inr (db1, r1)" "cup_open L ms sz db1 (gw + 1) (2 ^ n)"
    using cup_round [of L ms sz db gw "2 ^ n" sha256 u] by auto
  then show ?case using Suc.IH by simp
qed

lemma round_count_power: "knockoutRoundCount (2 ^ n) = n"
proof (induction n)
  case (Suc n)
  have "\<not> (2 :: nat) ^ Suc n < 2" by (simp add: not_less)
  then show ?case using Suc by (subst knockoutRoundCount.simps) simp
qed (simp add: knockoutRoundCount.simps)

lemma first_round_members:
  assumes "generateKnockoutFirstRound seeds = Inr ps"
  shows "\<forall>p \<in> set ps. kp_home p \<in> set seeds \<and> (\<forall>a. kp_away p = Some a \<longrightarrow> a \<in> set seeds)"
    and "\<And>sz. knockoutBracketSize (length seeds) = Inr sz \<Longrightarrow> length ps = sz div 2"
  using assms
proof -
  obtain sz order where sz: "knockoutBracketSize (length seeds) = Inr sz" and o: "seeding order" "length order = sz"
      and ps: "ps = map (first_round_pairing seeds order) [0..<sz div 2]"
    using generateKnockoutFirstRound_Inr [OF assms] by metis
  note pair = first_round_seeds [OF o bracket_fits(3) [OF sz]]
  have "kp_home (first_round_pairing seeds order i) \<in> set seeds
      \<and> (\<forall>a. kp_away (first_round_pairing seeds order i) = Some a \<longrightarrow> a \<in> set seeds)" if "i < sz div 2" for i
    using pair [OF that] by (auto split: if_splits intro!: nth_mem)
  then show "\<forall>p \<in> set ps. kp_home p \<in> set seeds \<and> (\<forall>a. kp_away p = Some a \<longrightarrow> a \<in> set seeds)"
    by (auto simp: ps)
  show "length ps = sz' div 2" if "knockoutBracketSize (length seeds) = Inr sz'" for sz' using that sz by (simp add: ps)
qed

lemma createKnockoutCup_Inr:
  assumes "createKnockoutCup db L start opt = Inr (db0, info)"
  obtains seeds ps sz where "cup_seeds db L opt = Inr seeds" "generateKnockoutFirstRound seeds = Inr ps"
    "knockoutBracketSize (length seeds) = Inr sz" "cup_fixtures db L = []"
    "db0 = create_fixtures L start 1 (map (\<lambda>p. (kp_slot p, kp_home p, kp_away p)) ps) db"
    "ci_bracketSize info = sz" "ci_rounds info = knockoutRoundCount sz"
  using assms by (auto simp: createKnockoutCup_def Let_def split: option.splits if_splits)

text \<open>
  C35. A cup always produces a champion. Whatever the scores and statistics are, and whatever the hash
  of the coin toss is, settling as many consecutive gameweeks as the cup has rounds succeeds and
  ends with a champion who is one of the seeded managers; all cup fixtures are finished then, and one
  match was played per place of the bracket but one. The new primary keys have to be fresh.
\<close>

theorem cup_has_champion:
  assumes cup: "createKnockoutCup db L start opt = Inr (db0, info)"
    and ids: "distinct (map cf_id (cd_fixtures db))" "\<forall>f \<in> set (cd_fixtures db). cf_id f < cd_nextId db"
  shows "\<exists>seeds db' r w. cup_seeds db L opt = Inr seeds
       \<and> settle_gameweeks sha256 (ci_rounds info) db0 L start u = Inr (db', r)
       \<and> cr_champion r = Some w \<and> w \<in> set seeds
       \<and> (\<forall>f \<in> set (cup_fixtures db' L). cf_isFinished f)
       \<and> length (cup_fixtures db' L) + 1 = ci_bracketSize info"
  using cup
proof (rule createKnockoutCup_Inr)
  fix seeds ps sz
  assume seeds: "cup_seeds db L opt = Inr seeds" and ps: "generateKnockoutFirstRound seeds = Inr ps"
    and sz: "knockoutBracketSize (length seeds) = Inr sz" and none: "cup_fixtures db L = []"
    and db0: "db0 = create_fixtures L start 1 (map (\<lambda>p. (kp_slot p, kp_home p, kp_away p)) ps) db"
    and info: "ci_bracketSize info = sz" "ci_rounds info = knockoutRoundCount sz"
  obtain m where m: "1 \<le> m" "sz = 2 ^ m" using bracket_size_power [OF bracket_fits(1) [OF sz]] by blast
  then obtain n where n: "m = Suc n" by (cases m) auto
  have len: "length ps = 2 ^ n" using first_round_members(2) [OF ps sz] m n by simp
  have "cup_open L (set seeds) sz db0 start (2 ^ n)"
    unfolding db0 using ids none first_round_members(1) [OF ps] len m n by (intro create_fixtures_open) auto
  moreover have "ci_rounds info = Suc n" using info(2) round_count_power [of m] m n by simp
  ultimately show ?thesis using cup_ends [of L "set seeds" sz db0 start n sha256 u] seeds info(1) by simp
qed

definition sample_cup_member :: "string \<Rightarrow> int \<Rightarrow> cup_member" where
  "sample_cup_member i pts = \<lparr>cm_id = i, cm_leagueId = ''L'', cm_active = True, cm_squadId = ''s'' @ i,
     cm_h2hPoints = pts, cm_totalPoints = 0, cm_pointsFor = 0, cm_joinedAt = 0\<rparr>"

definition sample_cup_db :: cup_db where
  "sample_cup_db = \<lparr>cd_leagues = [\<lparr>cl_id = ''L'', cl_startGameweekId = 1, cl_endGameweekId = 5\<rparr>],
     cd_members = [sample_cup_member ''a'' 3, sample_cup_member ''b'' 9, sample_cup_member ''c'' 6],
     cd_fixtures = [], cd_nextId = 0, cd_starters = [(''sa'', 7)],
     cd_playerStats = [(7, 1, \<lparr>ts_goalsScored = 2, ts_goalsConceded = 0\<rparr>)],
     cd_squadScores = [(''sa'', 1, 40), (''sc'', 1, 40)], cd_leagueScores = []\<rparr>"

theorem cup_has_champion_witness:
  "\<exists>db0 info db' r w. createKnockoutCup sample_cup_db ''L'' 1 None = Inr (db0, info)
     \<and> settle_gameweeks (\<lambda>s. [0]) (ci_rounds info) db0 ''L'' 1 False = Inr (db', r) \<and> cr_champion r = Some w"
proof -
  have "isl (createKnockoutCup sample_cup_db ''L'' 1 None) = False" by code_simp
  then obtain db0 info where cup: "createKnockoutCup sample_cup_db ''L'' 1 None = Inr (db0, info)"
    by (metis isl_def sum.exhaust surj_pair)
  have "distinct (map cf_id (cd_fixtures sample_cup_db))" "\<forall>f \<in> set (cd_fixtures sample_cup_db). cf_id f < cd_nextId sample_cup_db"
    by (simp_all add: sample_cup_db_def)
  from cup_has_champion [OF cup this, of "\<lambda>s. [0]" False] cup show ?thesis by metis
qed

end
