(* ===== verification/Leagues.thy ===== *)
theory Leagues
  imports Prizes Scoring Round_Robin
begin

text \<open>
  Leagues and their members: the first half of \<open>backend/src/services/league/leagueService.ts\<close> (creating,
  joining, invitations, the life cycle, listing). The standings and the head-to-head season are in
  \<open>League_Tables\<close>, \<open>Playoffs\<close> and \<open>League_Standings\<close>, the ladder of tiers in \<open>League_Tiers\<close>.

  The database is a record of tables. An operation that reads before its transaction takes the
  states it read as arguments, next to the state it commits to, so that other requests may run in between;
  the clock, fresh keys, random codes and tokens are arguments too. SHA-256 of a token is the
  parameter \<open>hash\<close>, the database's case-insensitive search the parameter \<open>icontains\<close>.
\<close>

section \<open>Data\<close>

text \<open>A field of a request body: missing, null, of the expected type, or of another type.\<close>

datatype 'a arg = Undefined | Null | Given 'a | WrongType

datatype league_status = UPCOMING | ACTIVE | COMPLETED | CANCELLED

datatype membership_status = Member_PENDING | Member_ACTIVE | Member_CANCELLED | Member_REFUNDED

datatype payment_status =
    PAYMENT_PENDING | PAYMENT_INITIATED | PAYMENT_SUBMITTED | PAYMENT_CONFIRMED | PAYMENT_FAILED
  | REFUND_PENDING | PAYMENT_REFUNDED

datatype scoring_type = CLASSIC | HEAD_TO_HEAD

datatype league_error =
    NameRequired | NameTooLong | DescriptionNotString | DescriptionTooLong | EntryFeeNegative
  | InvalidScoringType string | InvalidScoringConfig config_error | IsPrivateNotBoolean | BuyInPublic | BuyInRange
  | InvalidPayoutPreset | InvalidCustomSplits prize_error | MaxMembersRange | MinMembersRange int
  | CreatorNotFound string | CreatorSquadInvalid | GameweekMissing | EndBeforeStart | StartDeadlinePassed
  | PrizeFailure prize_error | UniqueViolation
  | LeagueNotFound string | PrivateNeedsInvitation | InvitationWrongLeague | NotUpcoming league_status
  | JoinDeadlinePassed | LeagueFull int int | AlreadyMember | JoinSquadInvalid
  | InvitationInvalid | InvitationUsedUp | InvitationRevoked | InvitationExpired
  | ExpiryRange | MaxUsesInvalid | NotCreator | InvitationsPrivateOnly | CannotInvite league_status | InvitationGone
  | TerminalState league_status | CannotActivate league_status | MinimumNotMet int int | CannotComplete league_status
  | CancelForbidden | CancelNotUpcoming league_status

record league_gameweek =
  lgw_id :: int
  lgw_fplId :: int
  lgw_name :: string
  lgw_deadline :: int
  lgw_isFinished :: bool
  lgw_kickoffs :: "int list"

record league =
  lg_id :: string
  lg_name :: string
  lg_description :: "string option"
  lg_creatorId :: string
  lg_inviteCode :: "string option"
  lg_entryFee :: rat
  lg_maxMembers :: int
  lg_minMembers :: int
  lg_currentMembers :: int
  lg_prizePool :: rat
  lg_status :: league_status
  lg_scoringType :: scoring_type
  lg_scoringConfig :: "json option"
  lg_payoutPreset :: string
  lg_payoutSplitsBps :: "rat option list"
  lg_isPrivate :: bool
  lg_minBuyIn :: "rat option"
  lg_maxBuyIn :: "rat option"
  lg_startGameweekId :: int
  lg_endGameweekId :: int
  lg_createdAt :: int

record league_member =
  lm_id :: string
  lm_leagueId :: string
  lm_userId :: string
  lm_squadId :: string
  lm_status :: membership_status
  lm_paymentStatus :: payment_status
  lm_hasPaid :: bool
  lm_joinedAt :: int
  lm_rank :: "int option"
  lm_totalPoints :: int
  lm_matchesWon :: int
  lm_matchesDrawn :: int
  lm_matchesLost :: int
  lm_pointsFor :: int
  lm_pointsAgainst :: int
  lm_h2hPoints :: int

record invitation =
  iv_id :: string
  iv_leagueId :: string
  iv_tokenHash :: string
  iv_createdById :: string
  iv_expiresAt :: int
  iv_maxUses :: int
  iv_usesCount :: int
  iv_usedAt :: "int option"
  iv_usedById :: "string option"
  iv_revokedAt :: "int option"
  iv_createdAt :: int

record league_fixture =
  lf_id :: nat
  lf_leagueId :: string
  lf_gameweekId :: int
  lf_home :: string
  lf_away :: "string option"
  lf_homeScore :: "int option"
  lf_awayScore :: "int option"
  lf_isFinished :: bool
  lf_isPlayoff :: bool
  lf_playoffRound :: "nat option"
  lf_playoffSlot :: "nat option"
  lf_isCup :: bool

record league_db =
  ld_users :: "string list"
  ld_squads :: "(string \<times> string) list"
  ld_gameweeks :: "league_gameweek list"
  ld_leagues :: "league list"
  ld_members :: "league_member list"
  ld_invitations :: "invitation list"
  ld_fixtures :: "league_fixture list"
  ld_nextId :: nat
  ld_squadScores :: "(string \<times> int \<times> int) list"
  ld_leagueScores :: "(string \<times> string \<times> int \<times> int) list"

definition MAX_LEAGUE_MEMBERS :: int where "MAX_LEAGUE_MEMBERS = 100000"

definition LEAGUE_NAME_MAX_LENGTH :: nat where "LEAGUE_NAME_MAX_LENGTH = 50"

definition LEAGUE_DESCRIPTION_MAX_LENGTH :: nat where "LEAGUE_DESCRIPTION_MAX_LENGTH = 200"

definition INVITATION_MAX_TTL_HOURS :: rat where "INVITATION_MAX_TTL_HOURS = 24 * 30"

definition findLeague :: "league_db \<Rightarrow> string \<Rightarrow> league option" where
  "findLeague db leagueId = find (\<lambda>l. lg_id l = leagueId) (ld_leagues db)"

definition find_gw :: "league_db \<Rightarrow> int \<Rightarrow> league_gameweek option" where
  "find_gw db i = find (\<lambda>g. lgw_id g = i) (ld_gameweeks db)"

definition update_league :: "string \<Rightarrow> (league \<Rightarrow> league) \<Rightarrow> league_db \<Rightarrow> league_db" where
  "update_league leagueId f db = db\<lparr>ld_leagues := map (\<lambda>l. if lg_id l = leagueId then f l else l) (ld_leagues db)\<rparr>"

definition owns_squad :: "league_db \<Rightarrow> string \<Rightarrow> string \<Rightarrow> bool" where
  "owns_squad db squadId userId \<longleftrightarrow> (squadId, userId) \<in> set (ld_squads db)"

section \<open>Creating a league\<close>

record create_input =
  cin_name :: "string arg"
  cin_description :: "string arg"
  cin_entryFee :: "rat option"
  cin_scoringType :: "string option"
  cin_scoringConfig :: "json option"
  cin_scoringPreset :: "json option"
  cin_isPrivate :: "bool arg"
  cin_minBuyIn :: "rat arg"
  cin_maxBuyIn :: "rat arg"
  cin_payoutPreset :: "string option"
  cin_customPrizeSplitsBps :: "rat option list option"
  cin_maxMembers :: "int option"
  cin_minMembers :: "int option"
  cin_squadId :: string
  cin_startGameweekId :: int
  cin_endGameweekId :: int

definition guard :: "bool \<Rightarrow> 'e \<Rightarrow> 'e + unit" where
  "guard ok e = (if ok then Inr () else Inl e)"

definition text_errors :: "create_input \<Rightarrow> league_error + string \<times> string option" where
  "text_errors input =
     (case cin_name input of
        Given n \<Rightarrow>
          if trim_ws n = [] then Inl NameRequired
          else if length (trim_ws n) > LEAGUE_NAME_MAX_LENGTH then Inl NameTooLong
          else
            (case cin_description input of
               WrongType \<Rightarrow> Inl DescriptionNotString
             | Given d \<Rightarrow>
                 if length (trim_ws d) > LEAGUE_DESCRIPTION_MAX_LENGTH then Inl DescriptionTooLong
                 else Inr (trim_ws n, if trim_ws d = [] then None else Some (trim_ws d))
             | _ \<Rightarrow> Inr (trim_ws n, None))
      | _ \<Rightarrow> Inl NameRequired)"

definition parse_scoring_type :: "string option \<Rightarrow> league_error + scoring_type" where
  "parse_scoring_type s =
     (case s of
        None \<Rightarrow> Inr CLASSIC
      | Some t \<Rightarrow> if t = ''CLASSIC'' then Inr CLASSIC else if t = ''HEAD_TO_HEAD'' then Inr HEAD_TO_HEAD
                  else Inl (InvalidScoringType t))"

definition buy_in_range :: "create_input \<Rightarrow> league_error + (rat \<times> rat) option" where
  "buy_in_range input =
     (if cin_minBuyIn input = Undefined \<and> cin_maxBuyIn input = Undefined then Inr None
      else if cin_isPrivate input \<noteq> Given True then Inl BuyInPublic
      else (case (cin_minBuyIn input, cin_maxBuyIn input) of
              (Given lo, Given hi) \<Rightarrow> if lo \<le> 0 \<or> hi < lo then Inl BuyInRange else Inr (Some (lo, hi))
            | _ \<Rightarrow> Inl BuyInRange))"

definition payout_preset :: "create_input \<Rightarrow> league_error + string" where
  "payout_preset input =
     (let p = (case cin_payoutPreset input of None \<Rightarrow> ''standard'' | Some p \<Rightarrow> p)
      in if p \<notin> {''standard'', ''winner-takes-all'', ''top-five'', ''custom''} then Inl InvalidPayoutPreset
         else if p = ''custom'' then
           (case validateSplits (case cin_customPrizeSplitsBps input of None \<Rightarrow> [] | Some s \<Rightarrow> s) of
              Inl e \<Rightarrow> Inl (InvalidCustomSplits e)
            | Inr _ \<Rightarrow> Inr p)
         else Inr p)"

text \<open>The loop that draws invite codes: the first draw and up to five more while the code is taken.\<close>

fun draw_code :: "league_db \<Rightarrow> nat \<Rightarrow> string list \<Rightarrow> string" where
  "draw_code db n [] = []"
| "draw_code db 0 (c # cs) = c"
| "draw_code db (Suc n) (c # cs) =
     (if list_ex (\<lambda>l. lg_inviteCode l = Some c) (ld_leagues db) then draw_code db n cs else c)"

definition no_options :: prize_options where
  "no_options = \<lparr>opt_preset = None, opt_customSplitsBps = None\<rparr>"

definition prize_pool :: "int \<Rightarrow> rat option \<Rightarrow> league_error + rat" where
  "prize_pool n fee =
     (case calculatePrizeDistribution (Some (of_int n)) fee no_options of
        Inl e \<Rightarrow> Inl (PrizeFailure e)
      | Inr d \<Rightarrow> Inr (pd_prizePool d))"

text \<open>The checks and reads before the transaction; the result is the row to create and the members' squad.\<close>

definition createLeague_checks ::
  "league_db \<Rightarrow> int \<Rightarrow> string list \<Rightarrow> string \<Rightarrow> string \<Rightarrow> create_input \<Rightarrow> league_error + league" where
  "createLeague_checks seen now codes newId userId input =
     res_bind (text_errors input) (\<lambda>(name, description).
     res_bind (guard (case cin_entryFee input of None \<Rightarrow> True | Some fee \<Rightarrow> 0 \<le> fee) EntryFeeNegative) (\<lambda>_.
     res_bind (parse_scoring_type (cin_scoringType input)) (\<lambda>scoringType.
     res_bind (case resolveLeagueScoringConfig (cin_scoringConfig input) (cin_scoringPreset input) of
                 Inl e \<Rightarrow> Inl (InvalidScoringConfig e) | Inr c \<Rightarrow> Inr c) (\<lambda>config.
     res_bind (guard (cin_isPrivate input \<noteq> Null \<and> cin_isPrivate input \<noteq> WrongType) IsPrivateNotBoolean) (\<lambda>_.
     res_bind (buy_in_range input) (\<lambda>range.
     res_bind (payout_preset input) (\<lambda>preset.
     let maxMembers = (case cin_maxMembers input of None \<Rightarrow> 20 | Some m \<Rightarrow> m);
         minMembers = (case cin_minMembers input of None \<Rightarrow> 2 | Some m \<Rightarrow> m)
     in
     res_bind (guard (2 \<le> maxMembers \<and> maxMembers \<le> MAX_LEAGUE_MEMBERS) MaxMembersRange) (\<lambda>_.
     res_bind (guard (2 \<le> minMembers \<and> minMembers \<le> maxMembers) (MinMembersRange maxMembers)) (\<lambda>_.
     res_bind (guard (userId \<in> set (ld_users seen)) (CreatorNotFound userId)) (\<lambda>_.
     res_bind (guard (owns_squad seen (cin_squadId input) userId) CreatorSquadInvalid) (\<lambda>_.
     (case (find_gw seen (cin_startGameweekId input), find_gw seen (cin_endGameweekId input)) of
        (Some startGw, Some endGw) \<Rightarrow>
          res_bind (guard (lgw_fplId startGw \<le> lgw_fplId endGw) EndBeforeStart) (\<lambda>_.
          res_bind (guard (now < lgw_deadline startGw) StartDeadlinePassed) (\<lambda>_.
          res_bind (prize_pool 1 (cin_entryFee input)) (\<lambda>pool.
          Inr \<lparr>lg_id = newId, lg_name = name, lg_description = description, lg_creatorId = userId,
               lg_inviteCode = Some (draw_code seen 5 codes), lg_entryFee = the (cin_entryFee input),
               lg_maxMembers = maxMembers, lg_minMembers = minMembers, lg_currentMembers = 1, lg_prizePool = pool,
               lg_status = UPCOMING, lg_scoringType = scoringType, lg_scoringConfig = map_option config_object config,
               lg_payoutPreset = preset,
               lg_payoutSplitsBps = (if preset = ''custom'' then the (cin_customPrizeSplitsBps input) else []),
               lg_isPrivate = (cin_isPrivate input = Given True),
               lg_minBuyIn = map_option fst range, lg_maxBuyIn = map_option snd range,
               lg_startGameweekId = lgw_id startGw, lg_endGameweekId = lgw_id endGw, lg_createdAt = now\<rparr>)))
      | _ \<Rightarrow> Inl GameweekMissing))))))))))))"

definition new_member :: "string \<Rightarrow> string \<Rightarrow> string \<Rightarrow> string \<Rightarrow> rat \<Rightarrow> int \<Rightarrow> league_member" where
  "new_member newId leagueId userId squadId fee now =
     \<lparr>lm_id = newId, lm_leagueId = leagueId, lm_userId = userId, lm_squadId = squadId,
      lm_status = (if fee = 0 then Member_ACTIVE else Member_PENDING), lm_paymentStatus = PAYMENT_PENDING,
      lm_hasPaid = (fee = 0), lm_joinedAt = now, lm_rank = None, lm_totalPoints = 0,
      lm_matchesWon = 0, lm_matchesDrawn = 0, lm_matchesLost = 0, lm_pointsFor = 0, lm_pointsAgainst = 0,
      lm_h2hPoints = 0\<rparr>"

text \<open>The unique key of memberships is the league with the user.\<close>

definition insert_member :: "league_member \<Rightarrow> league_db \<Rightarrow> league_error + league_db" where
  "insert_member m db =
     (if list_ex (\<lambda>x. lm_leagueId x = lm_leagueId m \<and> lm_userId x = lm_userId m) (ld_members db) then Inl UniqueViolation
      else Inr (db\<lparr>ld_members := ld_members db @ [m]\<rparr>))"

definition createLeague ::
  "league_db \<Rightarrow> int \<Rightarrow> string list \<Rightarrow> string \<Rightarrow> string \<Rightarrow> string \<Rightarrow> create_input \<Rightarrow> league_db \<Rightarrow> league_error + league_db" where
  "createLeague seen now codes newId memberId userId input db =
     res_bind (createLeague_checks seen now codes newId userId input) (\<lambda>league.
     if list_ex (\<lambda>l. lg_inviteCode l = lg_inviteCode league) (ld_leagues db) then Inl UniqueViolation
     else insert_member (new_member memberId newId userId (cin_squadId input) (lg_entryFee league) now)
            (db\<lparr>ld_leagues := ld_leagues db @ [league]\<rparr>))"

section \<open>Invitations\<close>

datatype invitation_state = Inv_ACTIVE | Inv_USED | Inv_REVOKED | Inv_EXPIRED

definition invitationState :: "invitation \<Rightarrow> int \<Rightarrow> invitation_state" where
  "invitationState iv now =
     (if iv_usesCount iv \<ge> iv_maxUses iv \<or> iv_usedAt iv \<noteq> None \<and> iv_usesCount iv = 0 then Inv_USED
      else if iv_revokedAt iv \<noteq> None then Inv_REVOKED
      else if iv_expiresAt iv \<le> now then Inv_EXPIRED
      else Inv_ACTIVE)"

definition findUsableInvitation ::
  "(string \<Rightarrow> string) \<Rightarrow> league_db \<Rightarrow> int \<Rightarrow> string \<Rightarrow> league_error + invitation" where
  "findUsableInvitation hash db now token =
     (if length token < 16 \<or> length token > 128 then Inl InvitationInvalid
      else (case find (\<lambda>i. iv_tokenHash i = hash token) (ld_invitations db) of
              None \<Rightarrow> Inl InvitationInvalid
            | Some iv \<Rightarrow>
                (case invitationState iv now of
                   Inv_USED \<Rightarrow> Inl InvitationUsedUp
                 | Inv_REVOKED \<Rightarrow> Inl InvitationRevoked
                 | Inv_EXPIRED \<Rightarrow> Inl InvitationExpired
                 | Inv_ACTIVE \<Rightarrow> Inr iv)))"

definition requireOwnedLeague :: "league_db \<Rightarrow> string \<Rightarrow> string \<Rightarrow> league_error + league" where
  "requireOwnedLeague db leagueId requesterUserId =
     (case findLeague db leagueId of
        None \<Rightarrow> Inl (LeagueNotFound leagueId)
      | Some league \<Rightarrow> if lg_creatorId league \<noteq> requesterUserId then Inl NotCreator else Inr league)"

definition createInvitation ::
  "(string \<Rightarrow> string) \<Rightarrow> league_db \<Rightarrow> int \<Rightarrow> string \<Rightarrow> string \<Rightarrow> string \<Rightarrow> string \<Rightarrow> rat option \<Rightarrow> rat option \<Rightarrow> league_db
   \<Rightarrow> league_error + league_db" where
  "createInvitation hash seen now newId token leagueId requesterUserId expiresInHours maxUses db =
     res_bind (guard (case expiresInHours of None \<Rightarrow> False | Some h \<Rightarrow> 1 \<le> h \<and> h \<le> INVITATION_MAX_TTL_HOURS) ExpiryRange) (\<lambda>_.
     res_bind (guard (case maxUses of None \<Rightarrow> False | Some m \<Rightarrow> of_int \<lfloor>m\<rfloor> = m \<and> 1 \<le> m \<and> m \<le> 2147483647) MaxUsesInvalid) (\<lambda>_.
     res_bind (requireOwnedLeague seen leagueId requesterUserId) (\<lambda>league.
     res_bind (guard (lg_isPrivate league) InvitationsPrivateOnly) (\<lambda>_.
     res_bind (guard (lg_status league = UPCOMING) (CannotInvite (lg_status league))) (\<lambda>_.
     res_bind (guard (\<not> list_ex (\<lambda>i. iv_tokenHash i = hash token) (ld_invitations db)) UniqueViolation) (\<lambda>_.
     Inr (db\<lparr>ld_invitations := ld_invitations db @
       [\<lparr>iv_id = newId, iv_leagueId = leagueId, iv_tokenHash = hash token, iv_createdById = requesterUserId,
         iv_expiresAt = now + js_round (the expiresInHours * 3600000), iv_maxUses = \<lfloor>the maxUses\<rfloor>, iv_usesCount = 0,
         iv_usedAt = None, iv_usedById = None, iv_revokedAt = None, iv_createdAt = now\<rparr>]\<rparr>)))))))"

definition listInvitations ::
  "league_db \<Rightarrow> int \<Rightarrow> string \<Rightarrow> string \<Rightarrow> league_error + (invitation \<times> invitation_state) list" where
  "listInvitations db now leagueId requesterUserId =
     res_bind (requireOwnedLeague db leagueId requesterUserId) (\<lambda>_.
     Inr (map (\<lambda>i. (i, invitationState i now))
       (js_sort (desc (\<lambda>i. of_int (iv_createdAt i))) (filter (\<lambda>i. iv_leagueId i = leagueId) (ld_invitations db)))))"

definition revokeInvitation ::
  "league_db \<Rightarrow> int \<Rightarrow> int \<Rightarrow> string \<Rightarrow> string \<Rightarrow> string \<Rightarrow> league_db \<Rightarrow> league_error + league_db" where
  "revokeInvitation seen clock1 clock2 leagueId invitationId requesterUserId db =
     res_bind (requireOwnedLeague seen leagueId requesterUserId) (\<lambda>_.
     (case find (\<lambda>i. iv_id i = invitationId) (ld_invitations seen) of
        None \<Rightarrow> Inl InvitationGone
      | Some iv \<Rightarrow>
          if iv_leagueId iv \<noteq> leagueId \<or> invitationState iv clock1 \<noteq> Inv_ACTIVE then Inl InvitationGone
          else
            (let hit = (\<lambda>i. iv_id i = invitationId \<and> iv_leagueId i = leagueId \<and> iv_revokedAt i = None
                            \<and> iv_expiresAt i > clock2 \<and> iv_usesCount i < iv_maxUses iv)
             in if length (filter hit (ld_invitations db)) \<noteq> 1 then Inl InvitationGone
                else Inr (db\<lparr>ld_invitations := map (\<lambda>i. if hit i then i\<lparr>iv_revokedAt := Some clock2\<rparr> else i) (ld_invitations db)\<rparr>))))"

definition previewInvitation ::
  "(string \<Rightarrow> string) \<Rightarrow> league_db \<Rightarrow> int \<Rightarrow> string \<Rightarrow> league_error + (league \<times> int)" where
  "previewInvitation hash db now token =
     res_bind (findUsableInvitation hash db now token) (\<lambda>iv.
     case findLeague db (iv_leagueId iv) of None \<Rightarrow> Inl InvitationInvalid | Some l \<Rightarrow> Inr (l, iv_expiresAt iv))"

section \<open>Joining a league\<close>

text \<open>
  What a join reads before its transaction: the league, the invitation, the memberships and the squads,
  each at its own time, and the three clock readings.
\<close>

record join_env =
  je_league :: league_db
  je_invitation :: league_db
  je_members :: league_db
  je_squads :: league_db
  je_clock1 :: int
  je_clock2 :: int
  je_clock3 :: int

definition join_invitation ::
  "(string \<Rightarrow> string) \<Rightarrow> join_env \<Rightarrow> league \<Rightarrow> string option \<Rightarrow> league_error + invitation option" where
  "join_invitation hash env league token =
     (if \<not> lg_isPrivate league then Inr None
      else (case token of
              None \<Rightarrow> Inl PrivateNeedsInvitation
            | Some t \<Rightarrow>
                if t = [] then Inl PrivateNeedsInvitation
                else res_bind (findUsableInvitation hash (je_invitation env) (je_clock1 env) t) (\<lambda>iv.
                     if iv_leagueId iv \<noteq> lg_id league then Inl InvitationWrongLeague else Inr (Some iv))))"

definition join_checks ::
  "(string \<Rightarrow> string) \<Rightarrow> join_env \<Rightarrow> string \<Rightarrow> string \<Rightarrow> string \<Rightarrow> string option
   \<Rightarrow> league_error + (league \<times> invitation option \<times> rat)" where
  "join_checks hash env leagueId userId squadId token =
     (case findLeague (je_league env) leagueId of
        None \<Rightarrow> Inl (LeagueNotFound leagueId)
      | Some league \<Rightarrow>
          res_bind (join_invitation hash env league token) (\<lambda>iv.
          res_bind (guard (lg_status league = UPCOMING) (NotUpcoming (lg_status league))) (\<lambda>_.
          res_bind (case find_gw (je_league env) (lg_startGameweekId league) of
                      None \<Rightarrow> Inl GameweekMissing
                    | Some g \<Rightarrow> guard (je_clock2 env < lgw_deadline g) JoinDeadlinePassed) (\<lambda>_.
          res_bind (guard (lg_currentMembers league < lg_maxMembers league)
                      (LeagueFull (lg_currentMembers league) (lg_maxMembers league))) (\<lambda>_.
          res_bind (guard (\<not> list_ex (\<lambda>m. lm_leagueId m = leagueId \<and> lm_userId m = userId) (ld_members (je_members env)))
                      AlreadyMember) (\<lambda>_.
          res_bind (guard (owns_squad (je_squads env) squadId userId) JoinSquadInvalid) (\<lambda>_.
          res_bind (prize_pool (lg_currentMembers league + 1) (Some (lg_entryFee league))) (\<lambda>pool.
          Inr (league, iv, pool)))))))))"

text \<open>The conditional update that counts a use, and the explanation when it hits no row.\<close>

definition consume_invitation :: "invitation \<Rightarrow> int \<Rightarrow> string \<Rightarrow> league_db \<Rightarrow> league_error + league_db" where
  "consume_invitation iv now userId db =
     (let hit = (\<lambda>i. iv_id i = iv_id iv \<and> iv_revokedAt i = None \<and> iv_expiresAt i > now \<and> iv_usesCount i < iv_maxUses iv);
          last_use = (iv_usesCount iv + 1 \<ge> iv_maxUses iv)
      in if length (filter hit (ld_invitations db)) = 1 then
           Inr (db\<lparr>ld_invitations := map (\<lambda>i. if hit i then
               i\<lparr>iv_usesCount := iv_usesCount i + 1,
                 iv_usedAt := (if last_use then Some now else iv_usedAt i),
                 iv_usedById := (if last_use then Some userId else iv_usedById i)\<rparr> else i) (ld_invitations db)\<rparr>)
         else (case find (\<lambda>i. iv_id i = iv_id iv) (ld_invitations db) of
                 None \<Rightarrow> Inl InvitationUsedUp
               | Some current \<Rightarrow>
                   if iv_revokedAt current \<noteq> None then Inl InvitationRevoked
                   else if iv_expiresAt current \<le> now then Inl InvitationExpired
                   else Inl InvitationUsedUp))"

definition joinLeague ::
  "(string \<Rightarrow> string) \<Rightarrow> join_env \<Rightarrow> string \<Rightarrow> string \<Rightarrow> string \<Rightarrow> string \<Rightarrow> string option \<Rightarrow> league_db \<Rightarrow> league_error + league_db" where
  "joinLeague hash env newId leagueId userId squadId token db =
     res_bind (join_checks hash env leagueId userId squadId token) (\<lambda>(league, iv, pool).
     res_bind (case iv of None \<Rightarrow> Inr db | Some i \<Rightarrow> consume_invitation i (je_clock3 env) userId db) (\<lambda>db1.
     res_bind (insert_member (new_member newId leagueId userId squadId (lg_entryFee league) (je_clock3 env)) db1) (\<lambda>db2.
     Inr (update_league leagueId (\<lambda>l. l\<lparr>lg_currentMembers := lg_currentMembers league + 1, lg_prizePool := pool\<rparr>) db2))))"

definition acceptInvitation ::
  "(string \<Rightarrow> string) \<Rightarrow> league_db \<Rightarrow> int \<Rightarrow> join_env \<Rightarrow> string \<Rightarrow> string \<Rightarrow> string \<Rightarrow> string \<Rightarrow> league_db \<Rightarrow> league_error + league_db" where
  "acceptInvitation hash seen clock env newId token userId squadId db =
     res_bind (findUsableInvitation hash seen clock token) (\<lambda>iv.
     joinLeague hash env newId (iv_leagueId iv) userId squadId (Some token) db)"

section \<open>The life cycle\<close>

text \<open>The unique key of fixtures: league, gameweek, home side and competition.\<close>

definition fixture_key :: "league_fixture \<Rightarrow> string \<times> int \<times> string \<times> bool" where
  "fixture_key f = (lf_leagueId f, lf_gameweekId f, lf_home f, lf_isCup f)"

definition insert_fixtures :: "(nat \<Rightarrow> league_fixture) list \<Rightarrow> league_db \<Rightarrow> league_error + league_db" where
  "insert_fixtures fs db =
     (let new = map (\<lambda>(i, f). f i) (enumerate (ld_nextId db) fs);
          all = ld_fixtures db @ new
      in if distinct (map fixture_key new) \<and> list_all (\<lambda>f. fixture_key f \<notin> set (map fixture_key (ld_fixtures db))) new
         then Inr (db\<lparr>ld_fixtures := all, ld_nextId := ld_nextId db + length fs\<rparr>)
         else Inl UniqueViolation)"

definition scheduled_fixture :: "string \<Rightarrow> h2h_pairing \<Rightarrow> nat \<Rightarrow> league_fixture" where
  "scheduled_fixture leagueId p i =
     \<lparr>lf_id = i, lf_leagueId = leagueId, lf_gameweekId = hp_gameweekId p, lf_home = hp_homeMemberId p,
      lf_away = hp_awayMemberId p, lf_homeScore = None, lf_awayScore = None, lf_isFinished = False,
      lf_isPlayoff = False, lf_playoffRound = None, lf_playoffSlot = None, lf_isCup = False\<rparr>"

definition check_transition :: "league \<Rightarrow> league_status \<Rightarrow> league_error + unit" where
  "check_transition league target =
     (let current = lg_status league
      in if current = COMPLETED \<or> current = CANCELLED then Inl (TerminalState current)
         else if target = ACTIVE \<and> current \<noteq> UPCOMING then Inl (CannotActivate current)
         else if target = ACTIVE \<and> lg_currentMembers league < lg_minMembers league
           then Inl (MinimumNotMet (lg_currentMembers league) (lg_minMembers league))
         else if target = COMPLETED \<and> current \<noteq> ACTIVE then Inl (CannotComplete current)
         else Inr ())"

definition refund_members :: "string \<Rightarrow> league_db \<Rightarrow> league_db" where
  "refund_members leagueId db = db\<lparr>ld_members := map (\<lambda>m. if lm_leagueId m = leagueId then
       m\<lparr>lm_status := Member_REFUNDED,
         lm_paymentStatus := (if lm_paymentStatus m = PAYMENT_CONFIRMED then REFUND_PENDING else lm_paymentStatus m)\<rparr>
     else m) (ld_members db)\<rparr>"

definition active_members :: "league_db \<Rightarrow> string \<Rightarrow> league_member list" where
  "active_members db leagueId = filter (\<lambda>m. lm_leagueId m = leagueId \<and> lm_status m = Member_ACTIVE) (ld_members db)"

definition schedule_season :: "league \<Rightarrow> league_db \<Rightarrow> league_error + league_db" where
  "schedule_season league db =
     (let members = js_sort (asc (\<lambda>m. of_int (lm_joinedAt m))) (active_members db (lg_id league));
          gameweeks = js_sort (asc (\<lambda>g. of_int (lgw_id g)))
            (filter (\<lambda>g. lg_startGameweekId league \<le> lgw_id g \<and> lgw_id g \<le> lg_endGameweekId league) (ld_gameweeks db));
          pairings = generateRoundRobinSchedule (map lm_id members) (map lgw_id gameweeks)
      in insert_fixtures (map (scheduled_fixture (lg_id league)) pairings) db)"

definition transitionStatus :: "league_db \<Rightarrow> string \<Rightarrow> league_status \<Rightarrow> league_db \<Rightarrow> league_error + league_db" where
  "transitionStatus seen leagueId target db =
     (case findLeague seen leagueId of
        None \<Rightarrow> Inl (LeagueNotFound leagueId)
      | Some league \<Rightarrow>
          if lg_status league = target then Inr db
          else
            res_bind (check_transition league target) (\<lambda>_.
            (let db1 = update_league leagueId (\<lambda>l. l\<lparr>lg_status := target\<rparr>) db
             in if target = CANCELLED then Inr (refund_members leagueId db1)
                else if target = ACTIVE \<and> lg_scoringType league = HEAD_TO_HEAD then schedule_season league db1
                else Inr db1)))"

definition first_kickoff :: "league_gameweek \<Rightarrow> int option" where
  "first_kickoff g = (case sort (lgw_kickoffs g) of [] \<Rightarrow> None | k # _ \<Rightarrow> Some k)"

definition isUnderfilledAfterKickoff :: "league \<Rightarrow> int \<Rightarrow> int option \<Rightarrow> int \<Rightarrow> bool" where
  "isUnderfilledAfterKickoff league deadline firstKickoff now \<longleftrightarrow>
     lg_currentMembers league < lg_minMembers league
     \<and> now \<ge> (case firstKickoff of None \<Rightarrow> deadline | Some k \<Rightarrow> k)"

definition underfilled :: "league_db \<Rightarrow> int \<Rightarrow> league \<Rightarrow> bool" where
  "underfilled db now league =
     (case find_gw db (lg_startGameweekId league) of
        None \<Rightarrow> False
      | Some g \<Rightarrow> isUnderfilledAfterKickoff league (lgw_deadline g) (first_kickoff g) now)"

text \<open>The loop over the leagues read first; each is cancelled in a transaction of its own.\<close>

fun cancel_each :: "string list \<Rightarrow> league_db \<Rightarrow> league_error + league_db" where
  "cancel_each [] db = Inr db"
| "cancel_each (i # is) db = res_bind (transitionStatus db i CANCELLED db) (cancel_each is)"

definition cancelUnderfilledLeagues :: "league_db \<Rightarrow> int \<Rightarrow> league_db \<Rightarrow> league_error + (league_db \<times> string list)" where
  "cancelUnderfilledLeagues seen now db =
     (let due = map lg_id (filter (underfilled seen now) (filter (\<lambda>l. lg_status l = UPCOMING) (ld_leagues seen)))
      in res_bind (cancel_each due db) (\<lambda>db'. Inr (db', due)))"

definition cancelLeague :: "league_db \<Rightarrow> league_db \<Rightarrow> string \<Rightarrow> string \<Rightarrow> league_db \<Rightarrow> league_error + league_db" where
  "cancelLeague seen seen2 leagueId requesterUserId db =
     (case findLeague seen leagueId of
        None \<Rightarrow> Inl (LeagueNotFound leagueId)
      | Some league \<Rightarrow>
          if lg_creatorId league \<noteq> requesterUserId then Inl CancelForbidden
          else if lg_status league \<noteq> UPCOMING then Inl (CancelNotUpcoming (lg_status league))
          else transitionStatus seen2 leagueId CANCELLED db)"

section \<open>Reading leagues\<close>

definition redactForViewer :: "string option \<Rightarrow> league \<Rightarrow> league" where
  "redactForViewer viewerId l =
     (if lg_isPrivate l \<and> Some (lg_creatorId l) \<noteq> viewerId then l\<lparr>lg_inviteCode := None\<rparr> else l)"

definition getLeagueById ::
  "league_db \<Rightarrow> string \<Rightarrow> string option \<Rightarrow> league_error + (league \<times> prize_distribution)" where
  "getLeagueById db leagueId viewerId =
     (case findLeague db leagueId of
        None \<Rightarrow> Inl (LeagueNotFound leagueId)
      | Some l \<Rightarrow>
          (case calculatePrizeDistribution (Some (of_int (lg_currentMembers l))) (Some (lg_entryFee l)) no_options of
             Inl e \<Rightarrow> Inl (PrizeFailure e)
           | Inr d \<Rightarrow> Inr (redactForViewer viewerId l, d)))"

definition page_of :: "nat \<Rightarrow> nat \<Rightarrow> 'a list \<Rightarrow> 'a list" where
  "page_of page size' xs = take size' (drop ((page - 1) * size') xs)"

text \<open>The members, the total and the number of pages, for a positive page number and limit.\<close>

definition getLeagueMembers ::
  "league_db \<Rightarrow> string \<Rightarrow> nat \<Rightarrow> nat \<Rightarrow> league_error + (league_member list \<times> nat \<times> nat)" where
  "getLeagueMembers db leagueId page limit =
     (case findLeague db leagueId of
        None \<Rightarrow> Inl (LeagueNotFound leagueId)
      | Some _ \<Rightarrow>
          (let ms = js_sort (js_or (asc (\<lambda>m. of_int (lm_joinedAt m))) (\<lambda>a b. str_cmp (lm_id a) (lm_id b)))
                 (filter (\<lambda>m. lm_leagueId m = leagueId) (ld_members db))
           in Inr (page_of page limit ms, length ms, (length ms + limit - 1) div limit)))"

datatype league_sort = by_newest | by_entryFee | by_size | by_prizePool | by_members

record search_filters =
  sf_q :: "string option"
  sf_code :: "string option"
  sf_status :: "league_status option"
  sf_scoringType :: "scoring_type option"
  sf_creatorId :: "string option"
  sf_minEntryFee :: "rat option"
  sf_maxEntryFee :: "rat option"
  sf_minSize :: "int option"
  sf_maxSize :: "int option"
  sf_hasOpenSlots :: bool
  sf_sortBy :: "league_sort option"
  sf_descending :: bool
  sf_page :: "nat option"
  sf_pageSize :: "nat option"

definition visible_to :: "league_db \<Rightarrow> string option \<Rightarrow> league \<Rightarrow> bool" where
  "visible_to db viewerId l \<longleftrightarrow>
     \<not> lg_isPrivate l
     \<or> (case viewerId of
          None \<Rightarrow> False
        | Some v \<Rightarrow> lg_creatorId l = v \<or> list_ex (\<lambda>m. lm_leagueId m = lg_id l \<and> lm_userId m = v) (ld_members db))"

definition opt_all :: "('a \<Rightarrow> bool) \<Rightarrow> 'a option \<Rightarrow> bool" where
  "opt_all P x = (case x of None \<Rightarrow> True | Some a \<Rightarrow> P a)"

definition buildSearchWhere ::
  "(string \<Rightarrow> string \<Rightarrow> bool) \<Rightarrow> league_db \<Rightarrow> search_filters \<Rightarrow> string option \<Rightarrow> league \<Rightarrow> bool" where
  "buildSearchWhere icontains db f viewerId l \<longleftrightarrow>
     visible_to db viewerId l
     \<and> opt_all (\<lambda>q. icontains (lg_name l) q) (sf_q f)
     \<and> opt_all (\<lambda>c. lg_inviteCode l = Some c) (sf_code f)
     \<and> opt_all (\<lambda>s. lg_status l = s) (sf_status f)
     \<and> opt_all (\<lambda>s. lg_scoringType l = s) (sf_scoringType f)
     \<and> opt_all (\<lambda>c. lg_creatorId l = c) (sf_creatorId f)
     \<and> opt_all (\<lambda>x. x \<le> lg_entryFee l) (sf_minEntryFee f) \<and> opt_all (\<lambda>x. lg_entryFee l \<le> x) (sf_maxEntryFee f)
     \<and> opt_all (\<lambda>x. x \<le> lg_maxMembers l) (sf_minSize f) \<and> opt_all (\<lambda>x. lg_maxMembers l \<le> x) (sf_maxSize f)
     \<and> (sf_hasOpenSlots f \<longrightarrow> lg_currentMembers l < lg_maxMembers l)"

definition sort_key :: "league_sort \<Rightarrow> league \<Rightarrow> rat" where
  "sort_key s l =
     (case s of by_newest \<Rightarrow> of_int (lg_createdAt l) | by_entryFee \<Rightarrow> lg_entryFee l | by_size \<Rightarrow> of_int (lg_maxMembers l)
      | by_prizePool \<Rightarrow> lg_prizePool l | by_members \<Rightarrow> of_int (lg_currentMembers l))"

definition search_order :: "search_filters \<Rightarrow> league cmp" where
  "search_order f =
     (let k = sort_key (case sf_sortBy f of None \<Rightarrow> by_newest | Some s \<Rightarrow> s)
      in js_or (if sf_descending f then desc k else asc k) (\<lambda>a b. str_cmp (lg_id a) (lg_id b)))"

definition getLeagues ::
  "(string \<Rightarrow> string \<Rightarrow> bool) \<Rightarrow> league_db \<Rightarrow> search_filters \<Rightarrow> string option \<Rightarrow> league list \<times> nat \<times> nat \<times> nat" where
  "getLeagues icontains db f viewerId =
     (let page = (case sf_page f of None \<Rightarrow> 1 | Some p \<Rightarrow> p);
          pageSize = min (case sf_pageSize f of None \<Rightarrow> 20 | Some s \<Rightarrow> s) 50;
          hits = js_sort (search_order f) (filter (buildSearchWhere icontains db f viewerId) (ld_leagues db))
      in (map (redactForViewer viewerId) (page_of page pageSize hits), length hits, page, pageSize))"

end
