(* ===== verification/League_Lifecycle.thy ===== *)
theory League_Lifecycle
  imports Leagues
begin

text \<open>
  What the league service guarantees, for requests that run one after the other and for requests that
  interleave.

  A history is the list of the database states so far, the newest first. In an interleaved history
  every request may have read any earlier state before it commits to the newest one; in a serial history it
  reads the newest state only. Between requests the rest of the platform may change users, squads,
  gameweeks, scores and the payment and points of members.
\<close>

section \<open>Histories\<close>

definition readable :: "bool \<Rightarrow> league_db \<Rightarrow> league_db list \<Rightarrow> league_db set" where
  "readable serial db h = (if serial then {db} else insert db (set h))"

text \<open>A change made by another part of the platform: leagues, invitations and memberships stay.\<close>

definition membership :: "league_member \<Rightarrow> string \<times> string \<times> string" where
  "membership m = (lm_id m, lm_leagueId m, lm_userId m)"

definition outside_change :: "league_db \<Rightarrow> league_db \<Rightarrow> bool" where
  "outside_change db db' \<longleftrightarrow> ld_leagues db' = ld_leagues db \<and> ld_invitations db' = ld_invitations db
     \<and> map membership (ld_members db') = map membership (ld_members db)"

inductive league_run :: "bool \<Rightarrow> (string \<Rightarrow> string) \<Rightarrow> league_db list \<Rightarrow> bool"
  for serial :: bool and hash :: "string \<Rightarrow> string" where
  run_start: "ld_leagues db = [] \<Longrightarrow> ld_members db = [] \<Longrightarrow> ld_invitations db = [] \<Longrightarrow> league_run serial hash [db]"
| run_create: "league_run serial hash (db # h) \<Longrightarrow> seen \<in> readable serial db h
    \<Longrightarrow> newId \<notin> lg_id ` set (ld_leagues db)
    \<Longrightarrow> createLeague seen now codes newId memberId userId input db = Inr db' \<Longrightarrow> league_run serial hash (db' # db # h)"
| run_join: "league_run serial hash (db # h) \<Longrightarrow> je_league env \<in> readable serial db h
    \<Longrightarrow> je_invitation env \<in> readable serial db h \<Longrightarrow> je_members env \<in> readable serial db h
    \<Longrightarrow> je_squads env \<in> readable serial db h
    \<Longrightarrow> joinLeague hash env newId leagueId userId squadId token db = Inr db' \<Longrightarrow> league_run serial hash (db' # db # h)"
| run_invite: "league_run serial hash (db # h) \<Longrightarrow> seen \<in> readable serial db h
    \<Longrightarrow> newId \<notin> iv_id ` set (ld_invitations db)
    \<Longrightarrow> createInvitation hash seen now newId token leagueId userId hours uses db = Inr db' \<Longrightarrow> league_run serial hash (db' # db # h)"
| run_revoke: "league_run serial hash (db # h) \<Longrightarrow> seen \<in> readable serial db h
    \<Longrightarrow> revokeInvitation seen clock1 clock2 leagueId invitationId userId db = Inr db' \<Longrightarrow> league_run serial hash (db' # db # h)"
| run_transition: "league_run serial hash (db # h) \<Longrightarrow> seen \<in> readable serial db h
    \<Longrightarrow> transitionStatus seen leagueId target db = Inr db' \<Longrightarrow> league_run serial hash (db' # db # h)"
| run_outside: "league_run serial hash (db # h) \<Longrightarrow> outside_change db db' \<Longrightarrow> league_run serial hash (db' # db # h)"

section \<open>What operations keep\<close>

text \<open>
  The fields that never change: a league stays private or public, keeps its capacity and its fee; an
  invitation keeps its league and its cap.
\<close>

definition grows :: "league_db \<Rightarrow> league_db \<Rightarrow> bool" where
  "grows db db' \<longleftrightarrow>
     (\<forall>l \<in> set (ld_leagues db). \<exists>l' \<in> set (ld_leagues db'). lg_id l' = lg_id l \<and> lg_isPrivate l' = lg_isPrivate l
        \<and> lg_maxMembers l' = lg_maxMembers l \<and> lg_entryFee l' = lg_entryFee l)
     \<and> (\<forall>i \<in> set (ld_invitations db). \<exists>i' \<in> set (ld_invitations db'). iv_id i' = iv_id i
        \<and> iv_leagueId i' = iv_leagueId i \<and> iv_maxUses i' = iv_maxUses i)"

lemma grows_refl: "grows db db"
  unfolding grows_def by blast

lemma grows_trans: "grows a b \<Longrightarrow> grows b c \<Longrightarrow> grows a c"
  unfolding grows_def by (metis (no_types, lifting))

definition members_of :: "league_db \<Rightarrow> string \<Rightarrow> nat" where
  "members_of db leagueId = length (filter (\<lambda>m. lm_leagueId m = leagueId) (ld_members db))"

definition uses_of :: "league_db \<Rightarrow> string \<Rightarrow> int" where
  "uses_of db leagueId = (\<Sum>i\<leftarrow>filter (\<lambda>i. iv_leagueId i = leagueId) (ld_invitations db). iv_usesCount i)"

definition league_inv :: "league_db \<Rightarrow> bool" where
  "league_inv db \<longleftrightarrow>
     distinct (map lg_id (ld_leagues db)) \<and> distinct (map iv_id (ld_invitations db))
     \<and> distinct (map (\<lambda>m. (lm_leagueId m, lm_userId m)) (ld_members db))
     \<and> (\<forall>m \<in> set (ld_members db). lm_leagueId m \<in> lg_id ` set (ld_leagues db))
     \<and> (\<forall>i \<in> set (ld_invitations db). iv_leagueId i \<in> lg_id ` set (ld_leagues db)
          \<and> 0 \<le> iv_usesCount i \<and> iv_usesCount i \<le> iv_maxUses i)
     \<and> (\<forall>l \<in> set (ld_leagues db). lg_isPrivate l \<longrightarrow> int (members_of db (lg_id l)) = 1 + uses_of db (lg_id l))"

lemmas league_invD = league_inv_def [THEN iffD1, THEN conjunct1]
  league_inv_def [THEN iffD1, THEN conjunct2, THEN conjunct1]
  league_inv_def [THEN iffD1, THEN conjunct2, THEN conjunct2, THEN conjunct1]
  league_inv_def [THEN iffD1, THEN conjunct2, THEN conjunct2, THEN conjunct2, THEN conjunct1]
  league_inv_def [THEN iffD1, THEN conjunct2, THEN conjunct2, THEN conjunct2, THEN conjunct2, THEN conjunct1]
  league_inv_def [THEN iffD1, THEN conjunct2, THEN conjunct2, THEN conjunct2, THEN conjunct2, THEN conjunct2]

text \<open>Leagues that change outside the kept fields only.\<close>

definition same_leagues :: "league_db \<Rightarrow> league_db \<Rightarrow> bool" where
  "same_leagues db db' \<longleftrightarrow> list_all2 (\<lambda>l l'. lg_id l' = lg_id l \<and> lg_isPrivate l' = lg_isPrivate l
      \<and> lg_maxMembers l' = lg_maxMembers l \<and> lg_entryFee l' = lg_entryFee l) (ld_leagues db) (ld_leagues db')"

lemma same_leagues_ids: "same_leagues db db' \<Longrightarrow> map lg_id (ld_leagues db') = map lg_id (ld_leagues db)"
  unfolding same_leagues_def by (induction rule: list_all2_induct) simp_all

lemma same_leagues_update:
  "(\<And>l. lg_id (f l) = lg_id l \<and> lg_isPrivate (f l) = lg_isPrivate l \<and> lg_maxMembers (f l) = lg_maxMembers l
      \<and> lg_entryFee (f l) = lg_entryFee l) \<Longrightarrow> same_leagues db (update_league i f db)"
  unfolding same_leagues_def update_league_def by (simp add: list_all2_map2 list_all2_same)

lemma same_leagues_fwd:
  "same_leagues db db' \<Longrightarrow> l \<in> set (ld_leagues db) \<Longrightarrow> \<exists>l' \<in> set (ld_leagues db'). lg_id l' = lg_id l
     \<and> lg_isPrivate l' = lg_isPrivate l \<and> lg_maxMembers l' = lg_maxMembers l \<and> lg_entryFee l' = lg_entryFee l"
  unfolding same_leagues_def list_all2_conv_all_nth in_set_conv_nth by (metis nth_mem)

lemma same_leagues_bwd:
  "same_leagues db db' \<Longrightarrow> l' \<in> set (ld_leagues db') \<Longrightarrow> \<exists>l \<in> set (ld_leagues db). lg_id l' = lg_id l
     \<and> lg_isPrivate l' = lg_isPrivate l \<and> lg_maxMembers l' = lg_maxMembers l \<and> lg_entryFee l' = lg_entryFee l"
  unfolding same_leagues_def list_all2_conv_all_nth in_set_conv_nth by (metis nth_mem)

lemma image_eq_ex: "f ` A = f ` B \<Longrightarrow> x \<in> A \<Longrightarrow> \<exists>y \<in> B. f x = f y"
  by blast

text \<open>The parts of an invitation that count.\<close>

definition allowance :: "invitation \<Rightarrow> string \<times> string \<times> int \<times> int" where
  "allowance i = (iv_id i, iv_leagueId i, iv_maxUses i, iv_usesCount i)"

lemma same_members:
  assumes "map membership (ld_members db') = map membership (ld_members db)"
  shows "map (\<lambda>m. (lm_leagueId m, lm_userId m)) (ld_members db') = map (\<lambda>m. (lm_leagueId m, lm_userId m)) (ld_members db)"
    and "lm_leagueId ` set (ld_members db') = lm_leagueId ` set (ld_members db)"
    and "members_of db' l = members_of db l"
proof -
  have 1: "map (g \<circ> membership) (ld_members db') = map (g \<circ> membership) (ld_members db)" for g :: "_ \<Rightarrow> 'x"
    using assms by (metis map_map)
  show "map (\<lambda>m. (lm_leagueId m, lm_userId m)) (ld_members db') = map (\<lambda>m. (lm_leagueId m, lm_userId m)) (ld_members db)"
    using 1 [of snd] by (simp add: comp_def membership_def)
  have 2: "map lm_leagueId (ld_members db') = map lm_leagueId (ld_members db)"
    using 1 [of "fst \<circ> snd"] by (simp add: comp_def membership_def)
  then show "lm_leagueId ` set (ld_members db') = lm_leagueId ` set (ld_members db)" by (metis list.set_map)
  have 3: "members_of d l = length (filter (\<lambda>x. x = l) (map lm_leagueId (ld_members d)))" for d
    by (simp add: members_of_def filter_map comp_def)
  show "members_of db' l = members_of db l" unfolding 3 2 ..
qed

lemma same_allowances:
  assumes "map allowance (ld_invitations db') = map allowance (ld_invitations db)"
  shows "map iv_id (ld_invitations db') = map iv_id (ld_invitations db)" and "uses_of db' l = uses_of db l"
    and "allowance ` set (ld_invitations db') = allowance ` set (ld_invitations db)"
proof -
  show "map iv_id (ld_invitations db') = map iv_id (ld_invitations db)"
    using arg_cong [OF assms, of "map fst"] by (simp add: comp_def allowance_def)
  have 1: "uses_of d l = sum_list (map (\<lambda>x. snd (snd (snd x))) (filter (\<lambda>x. fst (snd x) = l) (map allowance (ld_invitations d))))" for d
    by (simp add: uses_of_def filter_map comp_def allowance_def)
  show "uses_of db' l = uses_of db l" unfolding 1 assms ..
  show "allowance ` set (ld_invitations db') = allowance ` set (ld_invitations db)" using assms by (metis list.set_map)
qed

lemma league_inv_frame:
  assumes i: "league_inv db" and l: "same_leagues db db'"
    and m: "map membership (ld_members db') = map membership (ld_members db)"
    and a: "map allowance (ld_invitations db') = map allowance (ld_invitations db)"
  shows "league_inv db' \<and> grows db db'"
proof
  note sm = same_members [OF m] and sa = same_allowances [OF a]
  have ids: "lg_id ` set (ld_leagues db') = lg_id ` set (ld_leagues db)" using same_leagues_ids [OF l] by (metis list.set_map)
  have inv: "iv_leagueId i \<in> lg_id ` set (ld_leagues db') \<and> 0 \<le> iv_usesCount i \<and> iv_usesCount i \<le> iv_maxUses i"
    if ii: "i \<in> set (ld_invitations db')" for i
  proof -
    obtain j where "j \<in> set (ld_invitations db)" "allowance i = allowance j" using image_eq_ex [OF sa(3) ii] by blast
    then show ?thesis using league_invD(5) [OF i] by (auto simp: allowance_def ids)
  qed
  have "int (members_of db' (lg_id l')) = 1 + uses_of db' (lg_id l')" if "l' \<in> set (ld_leagues db')" "lg_isPrivate l'" for l'
    using same_leagues_bwd [OF l that(1)] league_invD(6) [OF i] that(2) by (auto simp: sm sa)
  moreover have "lm_leagueId x \<in> lg_id ` set (ld_leagues db')" if "x \<in> set (ld_members db')" for x
  proof -
    have "lm_leagueId x \<in> lm_leagueId ` set (ld_members db)" using that sm(2) by blast
    then show ?thesis using league_invD(4) [OF i] ids by auto
  qed
  ultimately show "league_inv db'"
    using league_invD(1,2,3) [OF i] inv unfolding league_inv_def sm sa same_leagues_ids [OF l] by blast
  have "\<exists>i' \<in> set (ld_invitations db'). iv_id i' = iv_id i \<and> iv_leagueId i' = iv_leagueId i \<and> iv_maxUses i' = iv_maxUses i"
    if ii: "i \<in> set (ld_invitations db)" for i
  proof -
    obtain j where "j \<in> set (ld_invitations db')" "allowance i = allowance j" using image_eq_ex [OF sa(3) [symmetric] ii] by blast
    then show ?thesis by (auto simp: allowance_def)
  qed
  then show "grows db db'" using same_leagues_fwd [OF l] unfolding grows_def by blast
qed

section \<open>The operations, one by one\<close>

lemma guard_Inr [simp]: "guard b e = Inr u \<longleftrightarrow> b"
  by (simp add: guard_def)

lemma insert_fixtures_frame:
  assumes "insert_fixtures fs db = Inr db'"
  shows "ld_leagues db' = ld_leagues db \<and> ld_members db' = ld_members db \<and> ld_invitations db' = ld_invitations db"
  using assms by (auto simp: insert_fixtures_def Let_def split: if_splits)

definition account :: "league \<Rightarrow> string \<times> int \<times> int \<times> rat \<times> rat" where
  "account l = (lg_id l, lg_currentMembers l, lg_maxMembers l, lg_entryFee l, lg_prizePool l)"

lemma transition_frame:
  assumes "transitionStatus seen leagueId target db = Inr db'"
  shows "same_leagues db db'" "map membership (ld_members db') = map membership (ld_members db)"
    "ld_invitations db' = ld_invitations db" "map account (ld_leagues db') = map account (ld_leagues db)"
proof -
  have same: "same_leagues db (update_league leagueId (\<lambda>l. l\<lparr>lg_status := target\<rparr>) db)" by (rule same_leagues_update) simp
  have acc: "map account (ld_leagues (update_league leagueId (\<lambda>l. l\<lparr>lg_status := target\<rparr>) db)) = map account (ld_leagues db)"
    by (simp add: update_league_def account_def)
  have refund: "map membership (ld_members (refund_members leagueId d)) = map membership (ld_members d)" for d
    by (simp add: refund_members_def membership_def)
  have up: "ld_members (update_league leagueId f db) = ld_members db" "ld_invitations (update_league leagueId f db) = ld_invitations db" for f
    by (simp_all add: update_league_def)
  have rf: "ld_leagues (refund_members leagueId d) = ld_leagues d" "ld_invitations (refund_members leagueId d) = ld_invitations d" for d
    by (simp_all add: refund_members_def)
  let ?db1 = "update_league leagueId (\<lambda>l. l\<lparr>lg_status := target\<rparr>) db"
  have "db' = db \<or> db' = ?db1 \<or> db' = refund_members leagueId ?db1 \<or> (\<exists>l. schedule_season l ?db1 = Inr db')"
  proof (cases "findLeague seen leagueId")
    case (Some l)
    then show ?thesis
      using assms unfolding transitionStatus_def Let_def by (simp split: if_splits) blast
  qed (use assms in \<open>simp add: transitionStatus_def\<close>)
  then consider "db' = db" | "db' = ?db1" | "db' = refund_members leagueId ?db1" | l where "schedule_season l ?db1 = Inr db'"
    by blast
  then have "same_leagues db db' \<and> map membership (ld_members db') = map membership (ld_members db) \<and> ld_invitations db' = ld_invitations db
      \<and> map account (ld_leagues db') = map account (ld_leagues db)"
  proof cases
    case 1
    then show ?thesis by (simp add: same_leagues_def list_all2_refl)
  next
    case 2
    then show ?thesis using same acc by (simp add: up)
  next
    case 3
    then show ?thesis using same acc by (simp add: up refund rf same_leagues_def)
  next
    case 4
    then have "ld_leagues db' = ld_leagues (update_league leagueId (\<lambda>l. l\<lparr>lg_status := target\<rparr>) db)"
        "ld_members db' = ld_members db" "ld_invitations db' = ld_invitations db"
      by (simp_all add: schedule_season_def Let_def insert_fixtures_frame up)
    then show ?thesis using same acc by (simp add: same_leagues_def)
  qed
  then show "same_leagues db db'" "map membership (ld_members db') = map membership (ld_members db)"
    "ld_invitations db' = ld_invitations db" "map account (ld_leagues db') = map account (ld_leagues db)" by simp_all
qed

lemma revoke_frame:
  assumes "revokeInvitation seen c1 c2 leagueId i u db = Inr db'"
  shows "ld_leagues db' = ld_leagues db" "ld_members db' = ld_members db"
    "map allowance (ld_invitations db') = map allowance (ld_invitations db)"
proof -
  obtain P where db': "db' = db\<lparr>ld_invitations := map (\<lambda>i. if P i then i\<lparr>iv_revokedAt := Some c2\<rparr> else i) (ld_invitations db)\<rparr>"
    using assms by (auto simp: revokeInvitation_def Let_def split: option.splits if_splits)
  show "ld_leagues db' = ld_leagues db" "ld_members db' = ld_members db"
    "map allowance (ld_invitations db') = map allowance (ld_invitations db)"
    by (simp_all add: db' allowance_def)
qed

lemma createLeague_checks_row:
  assumes "createLeague_checks seen now codes newId userId input = Inr l"
  shows "lg_id l = newId" "lg_currentMembers l = 1" "2 \<le> lg_maxMembers l" "lg_status l = UPCOMING"
    "prize_pool 1 (Some (lg_entryFee l)) = Inr (lg_prizePool l)"
proof -
  have nan: "prize_pool 1 None \<noteq> Inr p" for p by (simp add: prize_pool_def calculatePrizeDistribution_def)
  have "lg_id l = newId \<and> lg_currentMembers l = 1 \<and> 2 \<le> lg_maxMembers l \<and> lg_status l = UPCOMING
      \<and> prize_pool 1 (Some (lg_entryFee l)) = Inr (lg_prizePool l)"
    using assms nan
    by (cases "cin_entryFee input"; cases "find_gw seen (cin_startGameweekId input)"; cases "find_gw seen (cin_endGameweekId input)")
      (auto simp: createLeague_checks_def Let_def)
  then show "lg_id l = newId" "lg_currentMembers l = 1" "2 \<le> lg_maxMembers l" "lg_status l = UPCOMING"
    "prize_pool 1 (Some (lg_entryFee l)) = Inr (lg_prizePool l)" by simp_all
qed

lemma insert_member_Inr:
  "insert_member m db = Inr db' \<longleftrightarrow>
     (\<forall>x \<in> set (ld_members db). lm_leagueId x = lm_leagueId m \<longrightarrow> lm_userId x \<noteq> lm_userId m)
     \<and> db' = db\<lparr>ld_members := ld_members db @ [m]\<rparr>"
  by (auto simp: insert_member_def list_ex_iff)

lemma createLeague_Inr:
  assumes "createLeague seen now codes newId memberId userId input db = Inr db'"
  obtains l m where "createLeague_checks seen now codes newId userId input = Inr l" "lm_leagueId m = newId"
    "db' = db\<lparr>ld_leagues := ld_leagues db @ [l], ld_members := ld_members db @ [m]\<rparr>"
proof -
  obtain l where l: "createLeague_checks seen now codes newId userId input = Inr l"
    and ins: "insert_member (new_member memberId newId userId (cin_squadId input) (lg_entryFee l) now)
            (db\<lparr>ld_leagues := ld_leagues db @ [l]\<rparr>) = Inr db'"
    using assms by (auto simp: createLeague_def split: if_splits)
  let ?m = "new_member memberId newId userId (cin_squadId input) (lg_entryFee l) now"
  have "lm_leagueId ?m = newId" by (simp add: new_member_def)
  moreover have "db' = db\<lparr>ld_leagues := ld_leagues db @ [l], ld_members := ld_members db @ [?m]\<rparr>"
    using ins unfolding insert_member_Inr by simp
  ultimately show thesis using that [OF l] by blast
qed

lemma create_keeps:
  assumes i: "league_inv db" and new: "newId \<notin> lg_id ` set (ld_leagues db)"
    and run: "createLeague seen now codes newId memberId userId input db = Inr db'"
  shows "league_inv db' \<and> grows db db'"
proof (rule createLeague_Inr [OF run])
  fix l m
  assume l: "createLeague_checks seen now codes newId userId input = Inr l" and m: "lm_leagueId m = newId"
    and db': "db' = db\<lparr>ld_leagues := ld_leagues db @ [l], ld_members := ld_members db @ [m]\<rparr>"
  note id = createLeague_checks_row(1) [OF l]
  have old: "lm_leagueId x \<noteq> newId" if "x \<in> set (ld_members db)" for x using league_invD(4) [OF i] that new by auto
  have none: "members_of db newId = 0" using old by (simp add: members_of_def filter_empty_conv)
  have "iv_leagueId j \<noteq> newId" if "j \<in> set (ld_invitations db)" for j using league_invD(5) [OF i] that new by auto
  then have unused: "uses_of db newId = 0" by (simp add: uses_of_def filter_empty_conv)
  have cnt: "members_of db' x = members_of db x + (if x = newId then 1 else 0)" "uses_of db' x = uses_of db x" for x
    by (simp_all add: db' members_of_def uses_of_def m)
  have priv: "int (members_of db' (lg_id x)) = 1 + uses_of db' (lg_id x)" if "x \<in> set (ld_leagues db')" "lg_isPrivate x" for x
  proof (cases "lg_id x = newId")
    case False
    then have "x \<in> set (ld_leagues db)" using that(1) id by (auto simp: db')
    then show ?thesis using league_invD(6) [OF i] that(2) False by (simp add: cnt)
  qed (simp add: cnt none unused)
  have pair: "distinct (map (\<lambda>m. (lm_leagueId m, lm_userId m)) (ld_members db'))"
    using league_invD(3) [OF i] m by (auto simp: db' dest: old)
  have "league_inv db'"
    unfolding league_inv_def using league_invD(1,2,4,5) [OF i] new id m priv pair by (simp add: db')
  moreover have "grows db db'" by (auto simp: grows_def db')
  ultimately show ?thesis ..
qed

lemma findLeague_SomeD: "findLeague db i = Some l \<Longrightarrow> l \<in> set (ld_leagues db) \<and> lg_id l = i"
  unfolding findLeague_def by (drule find_SomeD) simp

lemma findLeague_unique: "league_inv db \<Longrightarrow> l \<in> set (ld_leagues db) \<Longrightarrow> findLeague db (lg_id l) = Some l"
  unfolding findLeague_def by (rule find_unique) (simp add: league_invD(1))

lemma invite_keeps:
  assumes i: "league_inv db" and seen: "grows seen db" and new: "newId \<notin> iv_id ` set (ld_invitations db)"
    and run: "createInvitation hash seen now newId token leagueId u hours uses db = Inr db'"
  shows "league_inv db' \<and> grows db db'"
proof -
  obtain l inv where l: "findLeague seen leagueId = Some l"
    and db': "db' = db\<lparr>ld_invitations := ld_invitations db @ [inv]\<rparr>"
    and inv: "iv_id inv = newId" "iv_leagueId inv = leagueId" "iv_usesCount inv = 0" "1 \<le> iv_maxUses inv"
  proof -
    obtain l m where "findLeague seen leagueId = Some l" and m: "uses = Some m" "1 \<le> m"
      using run by (auto simp: createInvitation_def requireOwnedLeague_def split: option.splits if_splits)
    moreover have "1 \<le> \<lfloor>m\<rfloor>" using m by simp
    moreover let ?inv = "\<lparr>iv_id = newId, iv_leagueId = leagueId, iv_tokenHash = hash token, iv_createdById = u,
         iv_expiresAt = now + js_round (the hours * 3600000), iv_maxUses = \<lfloor>the uses\<rfloor>, iv_usesCount = 0,
         iv_usedAt = None, iv_usedById = None, iv_revokedAt = None, iv_createdAt = now\<rparr>"
    have "db' = db\<lparr>ld_invitations := ld_invitations db @ [?inv]\<rparr>" using run by (simp add: createInvitation_def) blast
    ultimately show thesis using that [of l ?inv] by simp
  qed
  have "leagueId \<in> lg_id ` set (ld_leagues db)"
    using seen findLeague_SomeD [OF l] unfolding grows_def by (metis image_eqI)
  moreover have "members_of db' x = members_of db x" "uses_of db' x = uses_of db x" for x
    by (simp_all add: db' members_of_def uses_of_def inv)
  ultimately have "league_inv db'"
    unfolding league_inv_def using league_invD [OF i] new inv by (simp add: db')
  moreover have "grows db db'" by (auto simp: grows_def db')
  ultimately show ?thesis ..
qed

lemma sum_filter_bump:
  assumes "\<And>x. Q x \<Longrightarrow> P (f x) = P x \<and> g (f x) = g x + (1 :: int)"
  shows "(\<Sum>x\<leftarrow>filter P (map (\<lambda>x. if Q x then f x else x) xs). g x)
     = (\<Sum>x\<leftarrow>filter P xs. g x) + int (length (filter (\<lambda>x. Q x \<and> P x) xs))"
  using assms by (induction xs) auto

lemma grows_map_invitations:
  assumes "\<And>i. iv_id (f i) = iv_id i \<and> iv_leagueId (f i) = iv_leagueId i \<and> iv_maxUses (f i) = iv_maxUses i"
  shows "grows db (db\<lparr>ld_invitations := map f (ld_invitations db)\<rparr>)"
  using assms unfolding grows_def by auto

lemma consume_uses:
  assumes i: "league_inv db" and run: "consume_invitation iv now u db = Inr db1"
    and known: "i0 \<in> set (ld_invitations db)" "iv_id i0 = iv_id iv" "iv_maxUses i0 = iv_maxUses iv"
  shows "ld_leagues db1 = ld_leagues db" "ld_members db1 = ld_members db" "grows db db1"
    and "map iv_id (ld_invitations db1) = map iv_id (ld_invitations db)"
    and "uses_of db1 x = uses_of db x + (if x = iv_leagueId i0 then 1 else 0)"
    and "\<forall>j \<in> set (ld_invitations db1). iv_leagueId j \<in> lg_id ` set (ld_leagues db) \<and> 0 \<le> iv_usesCount j \<and> iv_usesCount j \<le> iv_maxUses j"
proof -
  let ?Q = "\<lambda>i. iv_id i = iv_id iv \<and> iv_revokedAt i = None \<and> iv_expiresAt i > now \<and> iv_usesCount i < iv_maxUses iv"
  let ?last = "iv_usesCount iv + 1 \<ge> iv_maxUses iv"
  let ?f = "\<lambda>i. i\<lparr>iv_usesCount := iv_usesCount i + 1, iv_usedAt := (if ?last then Some now else iv_usedAt i),
                 iv_usedById := (if ?last then Some u else iv_usedById i)\<rparr>"
  have one: "length (filter ?Q (ld_invitations db)) = 1"
    and db1: "db1 = db\<lparr>ld_invitations := map (\<lambda>i. if ?Q i then ?f i else i) (ld_invitations db)\<rparr>"
    using run unfolding consume_invitation_def Let_def by (auto split: if_splits option.splits)
  have eq: "j = i0" if "j \<in> set (ld_invitations db)" "?Q j" for j
    using that known league_invD(2) [OF i] by (metis distinct_map inj_onD)
  obtain j where "filter ?Q (ld_invitations db) = [j]" using one by (auto simp: length_Suc_conv)
  then have "j \<in> set (filter ?Q (ld_invitations db))" and fj: "filter ?Q (ld_invitations db) = [j]" by simp_all
  from this(1) have "j \<in> set (ld_invitations db)" "?Q j" unfolding set_filter by blast+
  then have "j = i0" by (rule eq)
  have "length (filter (\<lambda>y. ?Q y \<and> iv_leagueId y = x) (ld_invitations db)) = (if x = iv_leagueId i0 then 1 else 0)"
  proof -
    have "filter (\<lambda>y. ?Q y \<and> iv_leagueId y = x) (ld_invitations db) = filter (\<lambda>y. iv_leagueId y = x) [i0]"
      unfolding \<open>j = i0\<close> [symmetric] fj [symmetric] filter_filter by (rule filter_cong [OF refl]) blast
    then show ?thesis by simp
  qed
  then show "uses_of db1 x = uses_of db x + (if x = iv_leagueId i0 then 1 else 0)"
    using sum_filter_bump [of ?Q "\<lambda>y. iv_leagueId y = x" ?f iv_usesCount "ld_invitations db"] by (simp add: uses_of_def db1)
  show "ld_leagues db1 = ld_leagues db" "ld_members db1 = ld_members db" by (simp_all add: db1)
  show "map iv_id (ld_invitations db1) = map iv_id (ld_invitations db)" by (simp add: db1)
  show "grows db db1" unfolding db1 by (rule grows_map_invitations) simp
  have keep: "iv_leagueId y \<in> lg_id ` set (ld_leagues db) \<and> 0 \<le> iv_usesCount y \<and> iv_usesCount y \<le> iv_maxUses y"
    if "y \<in> set (ld_invitations db)" for y using league_invD(5) [OF i] that by blast
  show "\<forall>j \<in> set (ld_invitations db1). iv_leagueId j \<in> lg_id ` set (ld_leagues db) \<and> 0 \<le> iv_usesCount j \<and> iv_usesCount j \<le> iv_maxUses j"
  proof
    fix y' assume "y' \<in> set (ld_invitations db1)"
    then obtain y where y: "y \<in> set (ld_invitations db)" "y' = (if ?Q y then ?f y else y)" by (auto simp: db1)
    show "iv_leagueId y' \<in> lg_id ` set (ld_leagues db) \<and> 0 \<le> iv_usesCount y' \<and> iv_usesCount y' \<le> iv_maxUses y'"
    proof (cases "?Q y")
      case True
      moreover have "y = i0" by (rule eq [OF y(1) True])
      ultimately have "iv_usesCount y < iv_maxUses y" using known(3) by simp
      then show ?thesis using True keep [OF y(1)] y(2) by simp
    next
      case False
      then show ?thesis using keep [OF y(1)] y(2) by (simp only: if_False)
    qed
  qed
qed

lemma join_Inr:
  assumes "joinLeague hash env newId leagueId userId squadId token db = Inr db'"
  obtains league inv db1 m where "findLeague (je_league env) leagueId = Some league"
    "join_invitation hash env league token = Inr inv"
    "lg_currentMembers league < lg_maxMembers league"
    "case inv of None \<Rightarrow> db1 = db | Some i \<Rightarrow> consume_invitation i (je_clock3 env) userId db = Inr db1"
    "lm_leagueId m = leagueId" "lm_userId m = userId"
    "\<forall>x \<in> set (ld_members db1). lm_leagueId x = leagueId \<longrightarrow> lm_userId x \<noteq> userId"
    "\<exists>pool. prize_pool (lg_currentMembers league + 1) (Some (lg_entryFee league)) = Inr pool
       \<and> db' = update_league leagueId (\<lambda>l. l\<lparr>lg_currentMembers := lg_currentMembers league + 1, lg_prizePool := pool\<rparr>)
         (db1\<lparr>ld_members := ld_members db1 @ [m]\<rparr>)"
proof -
  obtain league inv pool db1 db2 where chk: "join_checks hash env leagueId userId squadId token = Inr (league, inv, pool)"
    and con: "(case inv of None \<Rightarrow> Inr db | Some i \<Rightarrow> consume_invitation i (je_clock3 env) userId db) = Inr db1"
    and ins: "insert_member (new_member newId leagueId userId squadId (lg_entryFee league) (je_clock3 env)) db1 = Inr db2"
    and db': "db' = update_league leagueId (\<lambda>l. l\<lparr>lg_currentMembers := lg_currentMembers league + 1, lg_prizePool := pool\<rparr>) db2"
    using assms by (auto simp: joinLeague_def)
  have c: "findLeague (je_league env) leagueId = Some league" "join_invitation hash env league token = Inr inv"
      "lg_currentMembers league < lg_maxMembers league"
      "prize_pool (lg_currentMembers league + 1) (Some (lg_entryFee league)) = Inr pool"
    using chk by (auto simp: join_checks_def split: option.splits)
  show thesis
    using that [of league inv db1 "new_member newId leagueId userId squadId (lg_entryFee league) (je_clock3 env)"] c con ins db'
    unfolding insert_member_Inr by (auto simp: new_member_def split: option.splits)
qed

lemma findUsable_Inr:
  assumes "findUsableInvitation hash db now token = Inr i"
  shows "i \<in> set (ld_invitations db)" "iv_tokenHash i = hash token" "invitationState i now = Inv_ACTIVE"
proof -
  have f: "find (\<lambda>i. iv_tokenHash i = hash token) (ld_invitations db) = Some i" and a: "invitationState i now = Inv_ACTIVE"
    using assms by (auto simp: findUsableInvitation_def split: if_splits option.splits invitation_state.splits)
  show "i \<in> set (ld_invitations db)" "iv_tokenHash i = hash token" using find_SomeD [OF f] by simp_all
  show "invitationState i now = Inv_ACTIVE" by (rule a)
qed

lemma join_invitation_Inr:
  assumes "join_invitation hash env league token = Inr iv"
  shows "lg_isPrivate league \<longleftrightarrow> iv \<noteq> None"
    and "iv = Some i \<Longrightarrow> i \<in> set (ld_invitations (je_invitation env)) \<and> iv_leagueId i = lg_id league"
  using assms by (auto simp: join_invitation_def split: if_splits option.splits dest: findUsable_Inr)

text \<open>A join counts one use of one invitation exactly if the league is private.\<close>

lemma join_keeps:
  assumes i: "league_inv db" and seen: "grows (je_league env) db" "grows (je_invitation env) db"
    and run: "joinLeague hash env newId leagueId userId squadId token db = Inr db'"
  shows "league_inv db' \<and> grows db db'"
  using run
proof (rule join_Inr)
  fix league inv db1 m
  assume league: "findLeague (je_league env) leagueId = Some league" and ji: "join_invitation hash env league token = Inr inv"
    and con: "case inv of None \<Rightarrow> db1 = db | Some i \<Rightarrow> consume_invitation i (je_clock3 env) userId db = Inr db1"
    and m: "lm_leagueId m = leagueId" "lm_userId m = userId"
    and new: "\<forall>x \<in> set (ld_members db1). lm_leagueId x = leagueId \<longrightarrow> lm_userId x \<noteq> userId"
    and "\<exists>pool. prize_pool (lg_currentMembers league + 1) (Some (lg_entryFee league)) = Inr pool
       \<and> db' = update_league leagueId (\<lambda>l. l\<lparr>lg_currentMembers := lg_currentMembers league + 1, lg_prizePool := pool\<rparr>)
         (db1\<lparr>ld_members := ld_members db1 @ [m]\<rparr>)"
  then obtain pool where
    db': "db' = update_league leagueId (\<lambda>l. l\<lparr>lg_currentMembers := lg_currentMembers league + 1, lg_prizePool := pool\<rparr>)
         (db1\<lparr>ld_members := ld_members db1 @ [m]\<rparr>)" by blast
  obtain l0 where l0: "l0 \<in> set (ld_leagues db)" "lg_id l0 = leagueId" "lg_isPrivate l0 = lg_isPrivate league"
    using seen(1) findLeague_SomeD [OF league] unfolding grows_def by metis
  have "ld_leagues db1 = ld_leagues db \<and> ld_members db1 = ld_members db \<and> grows db db1
      \<and> map iv_id (ld_invitations db1) = map iv_id (ld_invitations db)
      \<and> (\<forall>j \<in> set (ld_invitations db1). iv_leagueId j \<in> lg_id ` set (ld_leagues db) \<and> 0 \<le> iv_usesCount j \<and> iv_usesCount j \<le> iv_maxUses j)
      \<and> (\<forall>x. uses_of db1 x = uses_of db x + (if x = leagueId \<and> lg_isPrivate league then 1 else 0))"
  proof (cases inv)
    case None
    then show ?thesis
      using con league_invD(5) [OF i] join_invitation_Inr(1) [OF ji] by (simp add: grows_refl)
  next
    case (Some j)
    have j: "j \<in> set (ld_invitations (je_invitation env))" "iv_leagueId j = leagueId"
      using join_invitation_Inr(2) [OF ji Some] findLeague_SomeD [OF league] by auto
    then obtain i0 where i0: "i0 \<in> set (ld_invitations db)" "iv_id i0 = iv_id j" "iv_maxUses i0 = iv_maxUses j" "iv_leagueId i0 = leagueId"
      using seen(2) unfolding grows_def by metis
    have run: "consume_invitation j (je_clock3 env) userId db = Inr db1" using con Some by simp
    show ?thesis
      using consume_uses [OF i run i0(1-3)] i0(4) join_invitation_Inr(1) [OF ji] Some by auto
  qed
  then have db1: "ld_leagues db1 = ld_leagues db" "ld_members db1 = ld_members db" "grows db db1"
      "map iv_id (ld_invitations db1) = map iv_id (ld_invitations db)"
      "\<forall>j \<in> set (ld_invitations db1). iv_leagueId j \<in> lg_id ` set (ld_leagues db) \<and> 0 \<le> iv_usesCount j \<and> iv_usesCount j \<le> iv_maxUses j"
      "\<And>x. uses_of db1 x = uses_of db x + (if x = leagueId \<and> lg_isPrivate league then 1 else 0)"
    by blast+
  have same: "same_leagues db1 db'" unfolding db' by (simp add: same_leagues_def update_league_def list_all2_map2 list_all2_same)
  have rest: "ld_members db' = ld_members db @ [m]" "ld_invitations db' = ld_invitations db1" "uses_of db' x = uses_of db1 x" for x
    by (simp_all add: db' update_league_def db1 uses_of_def)
  have cnt: "members_of db' x = members_of db x + (if x = leagueId then 1 else 0)" for x by (simp add: members_of_def rest m)
  have ids: "map lg_id (ld_leagues db') = map lg_id (ld_leagues db)" using same_leagues_ids [OF same] db1 by simp
  have idset: "lg_id ` set (ld_leagues db') = lg_id ` set (ld_leagues db)" using ids by (metis list.set_map)
  have "int (members_of db' (lg_id l')) = 1 + uses_of db' (lg_id l')" if l': "l' \<in> set (ld_leagues db')" "lg_isPrivate l'" for l'
  proof -
    obtain l where l: "l \<in> set (ld_leagues db)" "lg_id l' = lg_id l" "lg_isPrivate l" using same_leagues_bwd [OF same l'(1)] l'(2) db1 by auto
    have "lg_id l = leagueId \<longrightarrow> lg_isPrivate league"
      using l l0 league_invD(1) [OF i] by (metis distinct_map inj_onD)
    then show ?thesis using league_invD(6) [OF i] l by (simp add: cnt rest db1)
  qed
  moreover have "distinct (map (\<lambda>m. (lm_leagueId m, lm_userId m)) (ld_members db'))"
    using league_invD(3) [OF i] new m db1 by (auto simp: rest)
  moreover have "\<forall>x \<in> set (ld_members db'). lm_leagueId x \<in> lg_id ` set (ld_leagues db')"
    using league_invD(4) [OF i] m(1) imageI [OF l0(1), of lg_id] l0(2) unfolding rest idset by simp
  ultimately have "league_inv db'"
    unfolding league_inv_def ids idset rest(2) db1(4) using league_invD(1,2) [OF i] db1(5) by blast
  moreover have "grows db1 db'"
    using same_leagues_fwd [OF same] unfolding grows_def rest(2) by blast
  ultimately show ?thesis using grows_trans [OF db1(3)] by blast
qed

section \<open>Admission to private leagues\<close>

lemma league_run_inv:
  "league_run serial hash h' \<Longrightarrow> \<exists>db h. h' = db # h \<and> league_inv db \<and> (\<forall>s \<in> insert db (set h). grows s db)"
proof (induction rule: league_run.induct)
  case (run_start db)
  then have "league_inv db" by (simp add: league_inv_def)
  then show ?case by (simp add: grows_refl)
next
  case (run_create db h seen newId now codes memberId userId input db')
  then have i: "league_inv db" and g: "\<forall>s \<in> insert db (set h). grows s db" by auto
  show ?case using create_keeps [OF i run_create.hyps(3,4)] g grows_trans [of _ db db'] grows_refl by auto
next
  case (run_join db h env newId leagueId userId squadId token db')
  then have i: "league_inv db" and g: "\<forall>s \<in> insert db (set h). grows s db" by auto
  have "grows (je_league env) db" "grows (je_invitation env) db"
    using run_join.hyps(2,3) g by (auto simp: readable_def split: if_splits)
  from join_keeps [OF i this run_join.hyps(6)] show ?case using g grows_trans [of _ db db'] grows_refl by auto
next
  case (run_invite db h seen newId now token leagueId userId hours uses db')
  then have i: "league_inv db" and g: "\<forall>s \<in> insert db (set h). grows s db" by auto
  have "grows seen db" using run_invite.hyps(2) g by (auto simp: readable_def split: if_splits)
  from invite_keeps [OF i this run_invite.hyps(3,4)] show ?case using g grows_trans [of _ db db'] grows_refl by auto
next
  case (run_revoke db h seen clock1 clock2 leagueId invitationId userId db')
  then have i: "league_inv db" and g: "\<forall>s \<in> insert db (set h). grows s db" by auto
  note f = revoke_frame [OF run_revoke.hyps(3)]
  have "league_inv db' \<and> grows db db'" using f by (intro league_inv_frame [OF i]) (simp_all add: same_leagues_def list_all2_refl)
  then show ?case using g grows_trans [of _ db db'] grows_refl by auto
next
  case (run_transition db h seen leagueId target db')
  then have i: "league_inv db" and g: "\<forall>s \<in> insert db (set h). grows s db" by auto
  note f = transition_frame [OF run_transition.hyps(3)]
  have "league_inv db' \<and> grows db db'" using f by (intro league_inv_frame [OF i]) simp_all
  then show ?case using g grows_trans [of _ db db'] grows_refl by auto
next
  case (run_outside db h db')
  then have i: "league_inv db" and g: "\<forall>s \<in> insert db (set h). grows s db" by auto
  have "league_inv db' \<and> grows db db'"
    using run_outside.hyps(2) unfolding outside_change_def
    by (intro league_inv_frame [OF i]) (simp_all add: same_leagues_def list_all2_refl)
  then show ?case using g grows_trans [of _ db db'] grows_refl by auto
qed

text \<open>
  C18. Private leagues are entered by invitation only. However requests interleave, no invitation is ever
  used more often than its cap allows, nobody is twice in a league, and a private league has exactly as
  many members as its creator plus the counted uses of its invitations: every entry was paid for with
  one use.
\<close>

theorem private_entry_by_invitation:
  assumes "league_run False hash (db # h)"
  shows "(\<forall>i \<in> set (ld_invitations db). 0 \<le> iv_usesCount i \<and> iv_usesCount i \<le> iv_maxUses i)
       \<and> distinct (map (\<lambda>m. (lm_leagueId m, lm_userId m)) (ld_members db))
       \<and> (\<forall>l \<in> set (ld_leagues db). lg_isPrivate l \<longrightarrow> int (members_of db (lg_id l)) = 1 + uses_of db (lg_id l))"
proof -
  have i: "league_inv db" using league_run_inv [OF assms] by auto
  show ?thesis using league_invD(3,5,6) [OF i] by blast
qed

section \<open>The member count\<close>

definition count_ok :: "league_db \<Rightarrow> bool" where
  "count_ok db \<longleftrightarrow> (\<forall>l \<in> set (ld_leagues db). lg_currentMembers l = int (members_of db (lg_id l))
     \<and> lg_currentMembers l \<le> lg_maxMembers l
     \<and> prize_pool (lg_currentMembers l) (Some (lg_entryFee l)) = Inr (lg_prizePool l))"

lemma count_okD:
  "count_ok db \<Longrightarrow> l \<in> set (ld_leagues db) \<Longrightarrow> lg_currentMembers l = int (members_of db (lg_id l))
     \<and> lg_currentMembers l \<le> lg_maxMembers l \<and> prize_pool (lg_currentMembers l) (Some (lg_entryFee l)) = Inr (lg_prizePool l)"
  unfolding count_ok_def by blast

lemma count_frame:
  assumes c: "count_ok db" and a: "map account (ld_leagues db') = map account (ld_leagues db)"
    and m: "map membership (ld_members db') = map membership (ld_members db)"
  shows "count_ok db'"
  unfolding count_ok_def
proof
  fix l' assume "l' \<in> set (ld_leagues db')"
  moreover have "account ` set (ld_leagues db') = account ` set (ld_leagues db)" using a by (metis list.set_map)
  ultimately obtain l where "l \<in> set (ld_leagues db)" "account l' = account l" using image_eq_ex by metis
  then show "lg_currentMembers l' = int (members_of db' (lg_id l')) \<and> lg_currentMembers l' \<le> lg_maxMembers l'
      \<and> prize_pool (lg_currentMembers l') (Some (lg_entryFee l')) = Inr (lg_prizePool l')"
    using c by (auto simp: account_def count_ok_def same_members(3) [OF m])
qed

lemma create_counts:
  assumes i: "league_inv db" and c: "count_ok db" and new: "newId \<notin> lg_id ` set (ld_leagues db)"
    and run: "createLeague seen now codes newId memberId userId input db = Inr db'"
  shows "count_ok db'"
  using run
proof (rule createLeague_Inr)
  fix l m
  assume l: "createLeague_checks seen now codes newId userId input = Inr l" and m: "lm_leagueId m = newId"
    and db': "db' = db\<lparr>ld_leagues := ld_leagues db @ [l], ld_members := ld_members db @ [m]\<rparr>"
  note row = createLeague_checks_row [OF l]
  have "lm_leagueId x \<noteq> newId" if "x \<in> set (ld_members db)" for x using league_invD(4) [OF i] that new by auto
  then have none: "members_of db newId = 0" by (simp add: members_of_def filter_empty_conv)
  have cnt: "members_of db' x = members_of db x + (if x = newId then 1 else 0)" for x by (simp add: db' members_of_def m)
  have "lg_id x \<noteq> newId" if "x \<in> set (ld_leagues db)" for x using that new by blast
  then show "count_ok db'" using c row none unfolding count_ok_def cnt by (auto simp: db')
qed

lemma join_counts:
  assumes i: "league_inv db" and c: "count_ok db" and seen: "je_league env = db" "je_invitation env = db"
    and run: "joinLeague hash env newId leagueId userId squadId token db = Inr db'"
  shows "count_ok db'"
  using run
proof (rule join_Inr)
  fix league iv db1 m
  assume league: "findLeague (je_league env) leagueId = Some league" and lt: "lg_currentMembers league < lg_maxMembers league"
    and con: "case iv of None \<Rightarrow> db1 = db | Some i \<Rightarrow> consume_invitation i (je_clock3 env) userId db = Inr db1"
    and m: "lm_leagueId m = leagueId"
    and "\<exists>pool. prize_pool (lg_currentMembers league + 1) (Some (lg_entryFee league)) = Inr pool
       \<and> db' = update_league leagueId (\<lambda>l. l\<lparr>lg_currentMembers := lg_currentMembers league + 1, lg_prizePool := pool\<rparr>)
         (db1\<lparr>ld_members := ld_members db1 @ [m]\<rparr>)"
  then obtain pool where pool: "prize_pool (lg_currentMembers league + 1) (Some (lg_entryFee league)) = Inr pool"
    and db': "db' = update_league leagueId (\<lambda>l. l\<lparr>lg_currentMembers := lg_currentMembers league + 1, lg_prizePool := pool\<rparr>)
         (db1\<lparr>ld_members := ld_members db1 @ [m]\<rparr>)" by blast
  have db1: "ld_leagues db1 = ld_leagues db" "ld_members db1 = ld_members db"
    using con by (auto simp: consume_invitation_def Let_def split: option.splits if_splits)
  have l: "league \<in> set (ld_leagues db)" "lg_id league = leagueId" using findLeague_SomeD [OF league] seen by simp_all
  have cnt: "members_of db' x = members_of db x + (if x = leagueId then 1 else 0)" for x
    by (simp add: db' members_of_def update_league_def db1 m)
  have eq: "x = league" if "x \<in> set (ld_leagues db)" "lg_id x = leagueId" for x
    using that l league_invD(1) [OF i] by (metis distinct_map inj_onD)
  have ok: "lg_currentMembers x = int (members_of db (lg_id x)) \<and> lg_currentMembers x \<le> lg_maxMembers x
      \<and> prize_pool (lg_currentMembers x) (Some (lg_entryFee x)) = Inr (lg_prizePool x)" if "x \<in> set (ld_leagues db)" for x
    using count_okD [OF c that] .
  show "count_ok db'"
    unfolding count_ok_def
  proof
    fix x' assume "x' \<in> set (ld_leagues db')"
    then obtain x where x: "x \<in> set (ld_leagues db)"
      "x' = (if lg_id x = leagueId then x\<lparr>lg_currentMembers := lg_currentMembers league + 1, lg_prizePool := pool\<rparr> else x)"
      by (auto simp: db' update_league_def db1)
    show "lg_currentMembers x' = int (members_of db' (lg_id x')) \<and> lg_currentMembers x' \<le> lg_maxMembers x'
        \<and> prize_pool (lg_currentMembers x') (Some (lg_entryFee x')) = Inr (lg_prizePool x')"
    proof (cases "lg_id x = leagueId")
      case True
      then have "x = league" using eq x(1) by blast
      then show ?thesis using True x(2) ok [OF x(1)] lt pool by (simp add: cnt)
    next
      case False
      then show ?thesis using x(2) ok [OF x(1)] by (auto simp: cnt)
    qed
  qed
qed

lemma serial_count_ok: "league_run True hash h' \<Longrightarrow> count_ok (hd h')"
proof (induction rule: league_run.induct)
  case (run_create db h seen newId now codes memberId userId input db')
  then have "league_inv db" using league_run_inv by blast
  then show ?case using run_create by (auto intro: create_counts)
next
  case (run_join db h env newId leagueId userId squadId token db')
  then have "league_inv db" using league_run_inv by blast
  then show ?case using run_join by (auto simp: readable_def intro: join_counts)
next
  case (run_invite db h seen newId now token leagueId userId hours uses db')
  then have "ld_leagues db' = ld_leagues db" "ld_members db' = ld_members db" by (auto simp: createInvitation_def)
  then show ?case using run_invite.IH count_frame [of db db'] by simp
next
  case (run_revoke db h seen clock1 clock2 leagueId invitationId userId db')
  then show ?case using revoke_frame [OF run_revoke.hyps(3)] count_frame [of db db'] by simp
next
  case (run_transition db h seen leagueId target db')
  then show ?case using transition_frame [OF run_transition.hyps(3)] count_frame [of db db'] by simp
next
  case (run_outside db h db')
  then show ?case using count_frame [of db db'] by (simp add: outside_change_def)
qed (simp add: count_ok_def)

text \<open>
  Served one after the other, requests keep the books of every league: the stored number of members is
  the number of membership rows and never exceeds the capacity, and the stored prize pool is the one
  the prize calculator gives for that number.
\<close>

theorem serial_member_counts:
  assumes "league_run True hash (db # h)" and "l \<in> set (ld_leagues db)"
  shows "lg_currentMembers l = int (members_of db (lg_id l)) \<and> lg_currentMembers l \<le> lg_maxMembers l
       \<and> prize_pool (lg_currentMembers l) (Some (lg_entryFee l)) = Inr (lg_prizePool l)"
proof -
  have "count_ok db" using serial_count_ok [OF assms(1)] by simp
  then show ?thesis using assms(2) by (rule count_okD)
qed

section \<open>The life cycle\<close>

lemma update_league_find:
  assumes "\<And>l. lg_id (f l) = lg_id l"
  shows "findLeague (update_league i f db) i = map_option f (findLeague db i)"
proof -
  have "find (\<lambda>l. lg_id l = i) (map (\<lambda>l. if lg_id l = i then f l else l) ls) = map_option f (find (\<lambda>l. lg_id l = i) ls)" for ls
    using assms by (induction ls) auto
  then show ?thesis by (simp add: findLeague_def update_league_def)
qed

lemma findLeague_leagues: "ld_leagues db' = ld_leagues db \<Longrightarrow> findLeague db' i = findLeague db i"
  by (simp add: findLeague_def)

lemma transition_cases:
  assumes "transitionStatus seen L target db = Inr db'" and l: "findLeague seen L = Some l" and "lg_status l \<noteq> target"
  shows "check_transition l target = Inr ()"
    and "(let db1 = update_league L (\<lambda>l. l\<lparr>lg_status := target\<rparr>) db
             in if target = CANCELLED then Inr (refund_members L db1)
                else if target = ACTIVE \<and> lg_scoringType l = HEAD_TO_HEAD then schedule_season l db1
                else Inr db1) = (Inr db' :: league_error + league_db)"
  using assms by (simp_all add: transitionStatus_def)

lemma transition_league:
  assumes "transitionStatus db L target db = Inr db'" and "findLeague db L = Some l" and "lg_status l \<noteq> target"
  shows "findLeague db' L = Some (l\<lparr>lg_status := target\<rparr>)"
proof -
  let ?db1 = "update_league L (\<lambda>l. l\<lparr>lg_status := target\<rparr>) db"
  have 1: "findLeague ?db1 L = Some (l\<lparr>lg_status := target\<rparr>)" using assms(2) by (simp add: update_league_find)
  have "ld_leagues db' = ld_leagues ?db1"
    using transition_cases(2) [OF assms]
    by (auto simp: Let_def refund_members_def schedule_season_def insert_fixtures_frame split: if_splits)
  then show ?thesis using 1 findLeague_leagues by metis
qed

text \<open>What a cancellation makes of a membership: it is refunded, and a confirmed payment is queued for its refund.\<close>

definition cancelled_into :: "string \<Rightarrow> league_member \<Rightarrow> league_member \<Rightarrow> bool" where
  "cancelled_into L m m' \<longleftrightarrow>
     (if lm_leagueId m = L
      then (lm_id m', lm_leagueId m', lm_userId m') = (lm_id m, lm_leagueId m, lm_userId m) \<and> lm_status m' = Member_REFUNDED \<and>
        (if lm_paymentStatus m = PAYMENT_CONFIRMED then lm_paymentStatus m' = REFUND_PENDING else lm_paymentStatus m' = lm_paymentStatus m)
      else m' = m)"

lemma refund_cancelled: "list_all2 (cancelled_into L) (ld_members db) (ld_members (refund_members L db))"
  by (auto simp: refund_members_def cancelled_into_def list_all2_conv_all_nth)

text \<open>
  C20. The life cycle of a league. A transition that changes the status starts from a league that is neither completed
  nor cancelled, and gives it the status asked for; a league becomes active only from upcoming and with its minimum of
  members, completed only from active. A cancellation marks every membership of the league as refunded, queues
  every confirmed payment of the league for its refund, and leaves all other payments and memberships as they are; no
  other transition changes a membership.
\<close>

theorem league_life_cycle:
  assumes run: "transitionStatus db L target db = Inr db'" and l: "findLeague db L = Some l" and ne: "lg_status l \<noteq> target"
  shows "lg_status l \<notin> {COMPLETED, CANCELLED}
       \<and> (\<exists>l'. findLeague db' L = Some l' \<and> lg_status l' = target)
       \<and> (target = ACTIVE \<longrightarrow> lg_status l = UPCOMING \<and> lg_minMembers l \<le> lg_currentMembers l)
       \<and> (target = COMPLETED \<longrightarrow> lg_status l = ACTIVE)
       \<and> (target = CANCELLED \<longrightarrow> list_all2 (cancelled_into L) (ld_members db) (ld_members db'))
       \<and> (target \<noteq> CANCELLED \<longrightarrow> ld_members db' = ld_members db)"
proof -
  note c = transition_cases [OF run l ne]
  have "list_all2 (cancelled_into L) (ld_members db) (ld_members db')" if "target = CANCELLED"
  proof -
    have "db' = refund_members L (update_league L (\<lambda>l. l\<lparr>lg_status := target\<rparr>) db)" using c(2) that by (simp add: Let_def)
    then show ?thesis using refund_cancelled [of L "update_league L (\<lambda>l. l\<lparr>lg_status := target\<rparr>) db"] by (simp add: update_league_def)
  qed
  moreover have "ld_members db' = ld_members db" if "target \<noteq> CANCELLED"
    using c(2) that by (auto simp: Let_def schedule_season_def update_league_def insert_fixtures_def split: if_splits)
  ultimately show ?thesis using c(1) transition_league [OF run l ne] by (auto simp: check_transition_def Let_def split: if_splits)
qed

definition lf_plays :: "string \<Rightarrow> league_fixture \<Rightarrow> bool" where
  "lf_plays a f \<longleftrightarrow> lf_home f = a \<or> lf_away f = Some a"

definition season_gameweeks :: "league_db \<Rightarrow> league \<Rightarrow> int set" where
  "season_gameweeks db l = {g \<in> lgw_id ` set (ld_gameweeks db). lg_startGameweekId l \<le> g \<and> g \<le> lg_endGameweekId l}"

lemma scheduled_simps [simp]:
  "lf_leagueId (scheduled_fixture L p i) = L" "lf_gameweekId (scheduled_fixture L p i) = hp_gameweekId p"
  "lf_plays a (scheduled_fixture L p i) = hp_plays a p" "\<not> lf_isCup (scheduled_fixture L p i)"
  "\<not> lf_isFinished (scheduled_fixture L p i)" "fixture_key (scheduled_fixture L p i) = (L, hp_gameweekId p, hp_homeMemberId p, False)"
  by (simp_all add: scheduled_fixture_def lf_plays_def hp_plays_def fixture_key_def)

lemma filter_enumerate: "length (filter (\<lambda>x. P (snd x)) (enumerate n xs)) = length (filter P xs)"
  by (induction xs arbitrary: n) auto

lemma distinct_map_js_sort: "distinct (map f (js_sort c xs)) \<longleftrightarrow> distinct (map f xs)"
  by (metis mset_eq_imp_distinct_iff mset_js_sort mset_map)

lemma season_scheduled:
  assumes ms: "distinct (map lm_id (ld_members db))" and gws: "distinct (map lgw_id (ld_gameweeks db))"
    and two: "2 \<le> length (active_members db (lg_id l))"
    and none: "\<forall>f \<in> set (ld_fixtures db). lf_leagueId f = lg_id l \<longrightarrow> lf_isCup f"
  shows "\<exists>db'. schedule_season l db = Inr db'
     \<and> (\<forall>m \<in> set (active_members db (lg_id l)). \<forall>g \<in> season_gameweeks db l.
          length (filter (\<lambda>f. lf_leagueId f = lg_id l \<and> \<not> lf_isCup f \<and> lf_gameweekId f = g \<and> lf_plays (lm_id m) f) (ld_fixtures db')) = 1)"
proof -
  let ?ms = "map lm_id (js_sort (asc (\<lambda>m. of_int (lm_joinedAt m))) (active_members db (lg_id l)))"
  let ?gw = "filter (\<lambda>g. lg_startGameweekId l \<le> lgw_id g \<and> lgw_id g \<le> lg_endGameweekId l) (ld_gameweeks db)"
  let ?gws = "map lgw_id (js_sort (asc (\<lambda>g. of_int (lgw_id g))) ?gw)"
  let ?ps = "generateRoundRobinSchedule ?ms ?gws"
  let ?new = "map (\<lambda>(i, f). f i) (enumerate (ld_nextId db) (map (scheduled_fixture (lg_id l)) ?ps))"
  have d: "distinct ?ms" "distinct ?gws" "2 \<le> length ?ms"
    using ms gws two by (simp_all add: distinct_map_js_sort distinct_map_filter active_members_def)
  have new: "?new = map (\<lambda>(i, p). scheduled_fixture (lg_id l) p i) (enumerate (ld_nextId db) ?ps)"
    by (rule nth_equalityI) (simp_all add: nth_enumerate_eq)
  have keys: "map fixture_key ?new = map (\<lambda>p. (lg_id l, hp_gameweekId p, hp_homeMemberId p, False)) ?ps"
    unfolding new by (rule nth_equalityI) (simp_all add: nth_enumerate_eq)
  have "distinct (map fixture_key ?new)"
    using schedule_keys [OF d(3,1,2)] unfolding keys by (simp add: distinct_map inj_on_def)
  moreover have "list_all (\<lambda>f. fixture_key f \<notin> set (map fixture_key (ld_fixtures db))) ?new"
  proof -
    have "fixture_key f \<notin> set (map fixture_key ?new)" if "f \<in> set (ld_fixtures db)" for f
      using none that unfolding keys by (auto simp: fixture_key_def)
    then show ?thesis unfolding list_all_iff by (metis (no_types, lifting) image_iff list.set_map)
  qed
  ultimately have "schedule_season l db = Inr (db\<lparr>ld_fixtures := ld_fixtures db @ ?new, ld_nextId := ld_nextId db + length ?ps\<rparr>)"
    unfolding schedule_season_def insert_fixtures_def Let_def by simp
  then obtain db' where db': "schedule_season l db = Inr db'" "ld_fixtures db' = ld_fixtures db @ ?new" by simp
  have "length (filter (\<lambda>f. lf_leagueId f = lg_id l \<and> \<not> lf_isCup f \<and> lf_gameweekId f = g \<and> lf_plays (lm_id m) f) (ld_fixtures db @ ?new)) = 1"
    if m: "m \<in> set (active_members db (lg_id l))" and g: "g \<in> season_gameweeks db l" for m g
  proof -
    let ?P = "\<lambda>f. lf_leagueId f = lg_id l \<and> \<not> lf_isCup f \<and> lf_gameweekId f = g \<and> lf_plays (lm_id m) f"
    have "filter ?P (ld_fixtures db) = []" using none by (auto simp: filter_empty_conv)
    moreover have "length (filter ?P ?new) = length (filter (\<lambda>p. hp_gameweekId p = g \<and> hp_plays (lm_id m) p) ?ps)"
      unfolding new filter_map length_map using filter_enumerate [of "\<lambda>p. hp_gameweekId p = g \<and> hp_plays (lm_id m) p" "ld_nextId db" ?ps]
      by (simp add: comp_def case_prod_beta)
    moreover have "length (filter (\<lambda>p. hp_gameweekId p = g \<and> hp_plays (lm_id m) p) ?ps) = 1"
      using m g by (intro schedule_once [OF d(3,1,2)]) (auto simp: season_gameweeks_def)
    ultimately show ?thesis unfolding filter_append length_append by simp
  qed
  then show ?thesis using db'(1) unfolding db'(2) [symmetric] by blast
qed

text \<open>
  C21. Activating a head-to-head league always succeeds when it has its minimum of members, at least two of
  them active, and no season yet, and it schedules the whole season: in every gameweek of the league every
  active member has exactly one match.
\<close>

theorem activation_schedules_season:
  assumes l: "findLeague db L = Some l" and ready: "lg_status l = UPCOMING" "lg_minMembers l \<le> lg_currentMembers l"
    and h2h: "lg_scoringType l = HEAD_TO_HEAD"
    and keys: "distinct (map lm_id (ld_members db))" "distinct (map lgw_id (ld_gameweeks db))"
    and two: "2 \<le> length (active_members db L)"
    and none: "\<forall>f \<in> set (ld_fixtures db). lf_leagueId f = L \<longrightarrow> lf_isCup f"
  shows "\<exists>db'. transitionStatus db L ACTIVE db = Inr db' \<and> findLeague db' L = Some (l\<lparr>lg_status := ACTIVE\<rparr>)
     \<and> (\<forall>m \<in> set (active_members db L). \<forall>g \<in> season_gameweeks db l.
          length (filter (\<lambda>f. lf_leagueId f = L \<and> \<not> lf_isCup f \<and> lf_gameweekId f = g \<and> lf_plays (lm_id m) f) (ld_fixtures db')) = 1)"
proof -
  let ?db1 = "update_league L (\<lambda>l. l\<lparr>lg_status := ACTIVE\<rparr>) db"
  have L: "lg_id l = L" using findLeague_SomeD [OF l] by simp
  have same: "active_members ?db1 L = active_members db L" "season_gameweeks ?db1 l = season_gameweeks db l"
      "ld_members ?db1 = ld_members db" "ld_gameweeks ?db1 = ld_gameweeks db" "ld_fixtures ?db1 = ld_fixtures db"
    by (simp_all add: update_league_def active_members_def season_gameweeks_def)
  have run: "transitionStatus db L ACTIVE db = schedule_season l ?db1"
    using l ready h2h by (simp add: transitionStatus_def check_transition_def Let_def)
  have "\<exists>db'. schedule_season l ?db1 = Inr db'
     \<and> (\<forall>m \<in> set (active_members db L). \<forall>g \<in> season_gameweeks db l.
          length (filter (\<lambda>f. lf_leagueId f = L \<and> \<not> lf_isCup f \<and> lf_gameweekId f = g \<and> lf_plays (lm_id m) f) (ld_fixtures db')) = 1)"
    using season_scheduled [of ?db1 l] keys two none unfolding L same by blast
  then obtain db' where db': "schedule_season l ?db1 = Inr db'"
     "\<forall>m \<in> set (active_members db L). \<forall>g \<in> season_gameweeks db l.
          length (filter (\<lambda>f. lf_leagueId f = L \<and> \<not> lf_isCup f \<and> lf_gameweekId f = g \<and> lf_plays (lm_id m) f) (ld_fixtures db')) = 1"
    by blast
  have ok: "transitionStatus db L ACTIVE db = Inr db'" using run db'(1) by simp
  have "findLeague db' L = Some (l\<lparr>lg_status := ACTIVE\<rparr>)" using transition_league [OF ok l] ready by simp
  then show ?thesis using ok db'(2) by blast
qed

section \<open>Invitation links\<close>

lemma prize_pool_total: "0 \<le> n \<Longrightarrow> 0 \<le> fee \<Longrightarrow> \<exists>p. prize_pool n (Some fee) = Inr p"
proof -
  assume "0 \<le> n" "0 \<le> fee"
  then have "\<not> isl (calculatePrizeDistribution (Some (of_int n)) (Some fee) no_options)"
    by (simp add: calculatePrizeDistribution_def no_options_def preset_splits_def parsePreset_def Let_def)
  then show ?thesis by (auto simp: prize_pool_def split: sum.splits)
qed

text \<open>
  An invitation link works. The token returned when the creator of an upcoming private league makes an
  invitation admits a user with a squad of his own who is not yet a member, as long as the link has not
  expired, the deadline has not passed and the league has a free place; the use is counted.
\<close>

theorem fresh_invitation_admits:
  assumes i: "league_inv db" and l: "findLeague db L = Some l" and fee: "0 \<le> lg_entryFee l" "0 \<le> lg_currentMembers l"
    and inv: "createInvitation hash db now newId token L creator (Some hours) (Some uses) db = Inr db1"
    and token: "16 \<le> length token" "length token \<le> 128" and fresh: "newId \<notin> iv_id ` set (ld_invitations db)"
    and clocks: "je_clock1 env < now + js_round (hours * 3600000)" "je_clock3 env < now + js_round (hours * 3600000)"
      "clock < now + js_round (hours * 3600000)"
    and reads: "je_league env = db1" "je_invitation env = db1" "je_members env = db1" "je_squads env = db1"
    and gw: "find_gw db (lg_startGameweekId l) = Some g" "je_clock2 env < lgw_deadline g"
    and place: "lg_currentMembers l < lg_maxMembers l"
    and user: "\<forall>m \<in> set (ld_members db). lm_leagueId m = L \<longrightarrow> lm_userId m \<noteq> userId" "owns_squad db squadId userId"
  shows "\<exists>db2. acceptInvitation hash db1 clock env memberId token userId squadId db1 = Inr db2
     \<and> members_of db2 L = members_of db L + 1 \<and> uses_of db2 L = uses_of db L + 1"
proof -
  let ?inv = "\<lparr>iv_id = newId, iv_leagueId = L, iv_tokenHash = hash token, iv_createdById = creator,
         iv_expiresAt = now + js_round (hours * 3600000), iv_maxUses = \<lfloor>uses\<rfloor>, iv_usesCount = 0,
         iv_usedAt = None, iv_usedById = None, iv_revokedAt = None, iv_createdAt = now\<rparr>"
  have L: "lg_id l = L" using findLeague_SomeD [OF l] by simp
  have db1: "db1 = db\<lparr>ld_invitations := ld_invitations db @ [?inv]\<rparr>" and priv: "lg_isPrivate l" "lg_status l = UPCOMING"
      and uses: "1 \<le> uses" and unique: "\<forall>i \<in> set (ld_invitations db). iv_tokenHash i \<noteq> hash token"
    using inv l by (auto simp: createInvitation_def requireOwnedLeague_def list_ex_iff split: if_splits)
  have hit: "find (\<lambda>i. iv_tokenHash i = hash token) (ld_invitations db1) = Some ?inv"
    using unique by (auto simp: db1 find_app find_None_iff split: option.splits dest: find_SomeD)
  have usable: "findUsableInvitation hash db1 t token = Inr ?inv" if "t < now + js_round (hours * 3600000)" for t
    using token that uses by (simp add: findUsableInvitation_def hit invitationState_def)
  have fl: "findLeague db1 L = Some l" "find_gw db1 = find_gw db" "ld_members db1 = ld_members db" "owns_squad db1 = owns_squad db"
    using l by (simp_all add: db1 findLeague_def find_gw_def owns_squad_def fun_eq_iff)
  obtain pool where pool: "prize_pool (lg_currentMembers l + 1) (Some (lg_entryFee l)) = Inr pool"
    using prize_pool_total [of "lg_currentMembers l + 1" "lg_entryFee l"] fee by auto
  have chk: "join_checks hash env L userId squadId (Some token) = Inr (l, Some ?inv, pool)"
    using reads fl priv gw place user pool token L usable [OF clocks(1)]
    by (simp add: join_checks_def join_invitation_def list_ex_iff guard_def) auto
  let ?Q = "\<lambda>i. iv_id i = newId \<and> iv_revokedAt i = None \<and> iv_expiresAt i > je_clock3 env \<and> iv_usesCount i < \<lfloor>uses\<rfloor>"
  have "filter ?Q (ld_invitations db) = []" using fresh by (auto simp: filter_empty_conv)
  then have one: "length (filter ?Q (ld_invitations db1)) = 1" using clocks(2) uses by (simp add: db1)
  obtain db1' where con: "consume_invitation ?inv (je_clock3 env) userId db1 = Inr db1'"
    using one unfolding consume_invitation_def Let_def by simp
  have i1: "league_inv db1" using invite_keeps [OF i grows_refl fresh inv] by simp
  have m1: "?inv \<in> set (ld_invitations db1)" by (simp add: db1)
  note c = consume_uses [OF i1 con m1 refl refl]
  have new: "\<forall>x \<in> set (ld_members db1'). lm_leagueId x = L \<longrightarrow> lm_userId x \<noteq> userId" using c(2) fl(3) user(1) by simp
  let ?m = "new_member memberId L userId squadId (lg_entryFee l) (je_clock3 env)"
  have ins: "insert_member ?m db1' = Inr (db1'\<lparr>ld_members := ld_members db1' @ [?m]\<rparr>)"
    using new unfolding insert_member_Inr by (simp add: new_member_def)
  let ?db2 = "update_league L (\<lambda>x. x\<lparr>lg_currentMembers := lg_currentMembers l + 1, lg_prizePool := pool\<rparr>) (db1'\<lparr>ld_members := ld_members db1' @ [?m]\<rparr>)"
  have "acceptInvitation hash db1 clock env memberId token userId squadId db1 = Inr ?db2"
    using chk con ins by (simp add: acceptInvitation_def usable [OF clocks(3)] joinLeague_def)
  moreover have "members_of ?db2 L = members_of db L + 1"
    by (simp add: members_of_def update_league_def c(2) fl(3) new_member_def)
  moreover have "uses_of ?db2 L = uses_of db L + 1"
  proof -
    have "uses_of ?db2 L = uses_of db1' L" by (simp add: uses_of_def update_league_def)
    also have "\<dots> = uses_of db1 L + 1" by (simp add: c(5))
    also have "uses_of db1 L = uses_of db L" by (simp add: uses_of_def db1)
    finally show ?thesis .
  qed
  ultimately show ?thesis by blast
qed

section \<open>Search\<close>

lemma pages_complete: "concat (map (\<lambda>p. page_of p k xs) [1..<Suc n]) = take (n * k) xs"
proof (induction n)
  case (Suc n)
  have "page_of (Suc n) k xs = take k (drop (n * k) xs)" by (simp add: page_of_def)
  moreover have "take (Suc n * k) xs = take (n * k) xs @ take k (drop (n * k) xs)" using take_add [of "n * k" k xs] by (simp add: add.commute)
  ultimately show ?case using Suc by (simp del: mult_Suc)
qed simp

text \<open>
  Searching leagues shows everything it may and nothing else. The pages of a search, put together, are
  all matching leagues visible to the viewer, each once and in order; a private league is only shown to
  its creator and members, and its invite code to nobody but the creator.
\<close>

theorem search_complete_and_private:
  defines "hits \<equiv> \<lambda>icontains db f v. js_sort (search_order f) (filter (buildSearchWhere icontains db f v) (ld_leagues db))"
  assumes k: "sf_pageSize f = Some k" "k \<le> 50" and n: "length (hits icontains db f v) \<le> n * k"
  shows "concat (map (\<lambda>p. fst (getLeagues icontains db (f\<lparr>sf_page := Some p\<rparr>) v)) [1..<Suc n])
           = map (redactForViewer v) (hits icontains db f v)
       \<and> mset (hits icontains db f v) = mset (filter (buildSearchWhere icontains db f v) (ld_leagues db))
       \<and> (\<forall>l \<in> set (hits icontains db f v). lg_isPrivate l \<longrightarrow>
            (\<exists>u. v = Some u \<and> (u = lg_creatorId l \<or> (\<exists>m \<in> set (ld_members db). lm_leagueId m = lg_id l \<and> lm_userId m = u)))
            \<and> (v \<noteq> Some (lg_creatorId l) \<longrightarrow> lg_inviteCode (redactForViewer v l) = None))"
proof -
  have page: "fst (getLeagues icontains db (f\<lparr>sf_page := Some p\<rparr>) v) = map (redactForViewer v) (page_of p k (hits icontains db f v))" for p
  proof -
    have "search_order (f\<lparr>sf_page := Some p\<rparr>) = search_order f"
        "buildSearchWhere icontains db (f\<lparr>sf_page := Some p\<rparr>) v = buildSearchWhere icontains db f v"
      by (simp_all add: search_order_def fun_eq_iff buildSearchWhere_def)
    then show ?thesis using k by (simp add: getLeagues_def Let_def hits_def)
  qed
  have "concat (map (\<lambda>p. map (redactForViewer v) (page_of p k xs)) ps) = map (redactForViewer v) (concat (map (\<lambda>p. page_of p k xs) ps))" for xs ps
    by (simp add: map_concat comp_def)
  then have "concat (map (\<lambda>p. fst (getLeagues icontains db (f\<lparr>sf_page := Some p\<rparr>) v)) [1..<Suc n])
           = map (redactForViewer v) (hits icontains db f v)"
    unfolding page using pages_complete [of k "hits icontains db f v" n] n by simp
  moreover have "(\<exists>u. v = Some u \<and> (u = lg_creatorId l \<or> (\<exists>m \<in> set (ld_members db). lm_leagueId m = lg_id l \<and> lm_userId m = u)))
      \<and> (v \<noteq> Some (lg_creatorId l) \<longrightarrow> lg_inviteCode (redactForViewer v l) = None)"
    if "l \<in> set (hits icontains db f v)" "lg_isPrivate l" for l
  proof -
    have "visible_to db v l" using that(1) by (simp add: hits_def buildSearchWhere_def)
    then show ?thesis using that(2) by (cases v) (auto simp: visible_to_def list_ex_iff redactForViewer_def)
  qed
  ultimately show ?thesis by (simp add: hits_def)
qed

section \<open>A race\<close>

text \<open>Three users with a squad each, and a public league with two places.\<close>

definition demo_gameweek :: "int \<Rightarrow> league_gameweek" where
  "demo_gameweek i = \<lparr>lgw_id = i, lgw_fplId = i, lgw_name = ''GW'', lgw_deadline = 1000 * i, lgw_isFinished = False, lgw_kickoffs = []\<rparr>"

definition league_demo_start :: league_db where
  "league_demo_start = \<lparr>ld_users = [''a'', ''b'', ''c''], ld_squads = [(''sa'', ''a''), (''sb'', ''b''), (''sc'', ''c'')],
     ld_gameweeks = map demo_gameweek [1, 2], ld_leagues = [], ld_members = [], ld_invitations = [], ld_fixtures = [],
     ld_nextId = 0, ld_squadScores = [], ld_leagueScores = []\<rparr>"

definition demo_league_input :: "bool \<Rightarrow> create_input" where
  "demo_league_input priv = \<lparr>cin_name = Given ''Cup'', cin_description = Undefined, cin_entryFee = Some 10, cin_scoringType = None,
     cin_scoringConfig = None, cin_scoringPreset = None, cin_isPrivate = Given priv, cin_minBuyIn = Undefined,
     cin_maxBuyIn = Undefined, cin_payoutPreset = None, cin_customPrizeSplitsBps = None, cin_maxMembers = Some 2,
     cin_minMembers = None, cin_squadId = ''sa'', cin_startGameweekId = 1, cin_endGameweekId = 2\<rparr>"

definition read_at :: "league_db \<Rightarrow> join_env" where
  "read_at db = \<lparr>je_league = db, je_invitation = db, je_members = db, je_squads = db, je_clock1 = 2, je_clock2 = 2, je_clock3 = 3\<rparr>"

definition demo_create_league :: "bool \<Rightarrow> league_error + league_db" where
  "demo_create_league priv = createLeague league_demo_start 1 [''AB12''] ''L'' ''ma'' ''a'' (demo_league_input priv) league_demo_start"

definition demo_join_b :: "league_error + league_db" where
  "demo_join_b = (let db = projr (demo_create_league False)
     in joinLeague (\<lambda>s. s) (read_at db) ''mb'' ''L'' ''b'' ''sb'' None db)"

definition demo_join_c :: "league_error + league_db" where
  "demo_join_c = joinLeague (\<lambda>s. s) (read_at (projr (demo_create_league False))) ''mc'' ''L'' ''c'' ''sc'' None (projr demo_join_b)"

lemma demo_ok: "\<not> isl (demo_create_league False)" "\<not> isl demo_join_b" "\<not> isl demo_join_c"
  by code_simp+

lemma demo_run_b: "league_run s (\<lambda>s. s) [projr demo_join_b, projr (demo_create_league False), league_demo_start]"
  and demo_run_a: "league_run s (\<lambda>s. s) [projr (demo_create_league False), league_demo_start]"
proof -
  have s: "league_run s (\<lambda>s. s) [league_demo_start]" by (rule run_start) (simp_all add: league_demo_start_def)
  have c: "createLeague league_demo_start 1 [''AB12''] ''L'' ''ma'' ''a'' (demo_league_input False) league_demo_start = Inr (projr (demo_create_league False))"
    using demo_ok(1) by (simp add: demo_create_league_def)
  show a: "league_run s (\<lambda>s. s) [projr (demo_create_league False), league_demo_start]"
    by (rule run_create [OF s _ _ c]) (simp_all add: readable_def league_demo_start_def)
  have b: "joinLeague (\<lambda>s. s) (read_at (projr (demo_create_league False))) ''mb'' ''L'' ''b'' ''sb'' None (projr (demo_create_league False))
      = Inr (projr demo_join_b)"
    using demo_ok(2) by (simp add: demo_join_b_def Let_def)
  show "league_run s (\<lambda>s. s) [projr demo_join_b, projr (demo_create_league False), league_demo_start]"
    by (rule run_join [OF a _ _ _ _ b]) (simp_all add: readable_def read_at_def)
qed

text \<open>
  C19. Interleaved joins overfill a league: the capacity is checked and the new number of members is
  computed from the league as it was read before the transaction, and the transaction stores that
  number. Two requests that read the same state both enter a league with one free place; it then has
  three members for two places, and its stored count says two.
\<close>

theorem join_race_overfills:
  "\<exists>db h l. league_run False (\<lambda>s. s) (db # h) \<and> l \<in> set (ld_leagues db)
     \<and> lg_maxMembers l < int (members_of db (lg_id l)) \<and> lg_currentMembers l < int (members_of db (lg_id l))"
proof -
  have c: "joinLeague (\<lambda>s. s) (read_at (projr (demo_create_league False))) ''mc'' ''L'' ''c'' ''sc'' None (projr demo_join_b)
      = Inr (projr demo_join_c)"
    using demo_ok(3) by (simp add: demo_join_c_def)
  have run: "league_run False (\<lambda>s. s) [projr demo_join_c, projr demo_join_b, projr (demo_create_league False), league_demo_start]"
    by (rule run_join [OF demo_run_b _ _ _ _ c]) (simp_all add: readable_def read_at_def)
  let ?l = "hd (ld_leagues (projr demo_join_c))"
  have "ld_leagues (projr demo_join_c) \<noteq> []" "lg_maxMembers ?l < int (members_of (projr demo_join_c) (lg_id ?l))"
      "lg_currentMembers ?l < int (members_of (projr demo_join_c) (lg_id ?l))" by code_simp+
  then show ?thesis using run by (metis list.set_sel(1))
qed

text \<open>The league of the race with the payment of its first member confirmed.\<close>

definition demo_paid :: league_db where
  "demo_paid = (projr demo_join_b)\<lparr>ld_members :=
     map (\<lambda>m. if lm_id m = ''ma'' then m\<lparr>lm_paymentStatus := PAYMENT_CONFIRMED\<rparr> else m) (ld_members (projr demo_join_b))\<rparr>"

theorem league_life_cycle_witness:
  "\<exists>db'. transitionStatus demo_paid ''L'' CANCELLED demo_paid = Inr db' \<and>
     list_all2 (cancelled_into ''L'') (ld_members demo_paid) (ld_members db') \<and>
     PAYMENT_CONFIRMED \<in> set (map lm_paymentStatus (ld_members demo_paid))"
proof -
  have "\<not> isl (transitionStatus demo_paid ''L'' CANCELLED demo_paid)" "findLeague demo_paid ''L'' \<noteq> None"
      "lg_status (the (findLeague demo_paid ''L'')) \<noteq> CANCELLED" and paid: "PAYMENT_CONFIRMED \<in> set (map lm_paymentStatus (ld_members demo_paid))"
    by code_simp+
  then obtain l db' where l: "findLeague demo_paid ''L'' = Some l" and ne: "lg_status l \<noteq> CANCELLED"
    and run: "transitionStatus demo_paid ''L'' CANCELLED demo_paid = Inr db'" by (metis isl_def option.collapse option.sel sum.exhaust)
  from league_life_cycle [OF run l ne] run paid show ?thesis by blast
qed

text \<open>A head-to-head league without fee, with its creator and another member.\<close>

definition demo_h2h :: league_db where
  "demo_h2h = (let inp = (demo_league_input False)\<lparr>cin_entryFee := Some 0, cin_scoringType := Some ''HEAD_TO_HEAD''\<rparr>;
       db = projr (createLeague league_demo_start 1 [''AB12''] ''L'' ''ma'' ''a'' inp league_demo_start)
     in projr (joinLeague (\<lambda>s. s) (read_at db) ''mb'' ''L'' ''b'' ''sb'' None db))"

theorem activation_schedules_season_witness:
  "\<exists>db'. transitionStatus demo_h2h ''L'' ACTIVE demo_h2h = Inr db' \<and> ld_fixtures demo_h2h = []
     \<and> length (filter (\<lambda>f. lf_leagueId f = ''L'' \<and> \<not> lf_isCup f \<and> lf_gameweekId f = 2 \<and> lf_plays ''ma'' f) (ld_fixtures db')) = 1"
proof -
  let ?l = "the (findLeague demo_h2h ''L'')" and ?m = "hd (active_members demo_h2h ''L'')"
  have "findLeague demo_h2h ''L'' \<noteq> None" by code_simp
  then have l: "findLeague demo_h2h ''L'' = Some ?l" by simp
  have r: "lg_status ?l = UPCOMING" "lg_minMembers ?l \<le> lg_currentMembers ?l" "lg_scoringType ?l = HEAD_TO_HEAD"
      "distinct (map lm_id (ld_members demo_h2h))" "distinct (map lgw_id (ld_gameweeks demo_h2h))"
      "2 \<le> length (active_members demo_h2h ''L'')" by code_simp+
  have f: "ld_fixtures demo_h2h = []" by code_simp
  then have none: "\<forall>f \<in> set (ld_fixtures demo_h2h). lf_leagueId f = ''L'' \<longrightarrow> lf_isCup f" by simp
  have m: "?m \<in> set (active_members demo_h2h ''L'')" using r(6) by (intro hd_in_set) auto
  have id: "lm_id ?m = ''ma''" by code_simp
  have "2 \<in> set (map lgw_id (ld_gameweeks demo_h2h))" "lg_startGameweekId ?l \<le> 2" "2 \<le> lg_endGameweekId ?l" by code_simp+
  then have g: "2 \<in> season_gameweeks demo_h2h ?l" by (simp add: season_gameweeks_def)
  from activation_schedules_season [OF l r none] show ?thesis
  proof (elim exE conjE)
    fix db' assume run: "transitionStatus demo_h2h ''L'' ACTIVE demo_h2h = Inr db'"
      and once: "\<forall>m \<in> set (active_members demo_h2h ''L''). \<forall>g \<in> season_gameweeks demo_h2h ?l.
          length (filter (\<lambda>f. lf_leagueId f = ''L'' \<and> \<not> lf_isCup f \<and> lf_gameweekId f = g \<and> lf_plays (lm_id m) f) (ld_fixtures db')) = 1"
    show ?thesis using run f bspec [OF bspec [OF once m] g] unfolding id by (intro exI conjI)
  qed
qed

definition demo_private :: league_db where
  "demo_private = projr (demo_create_league True)"

definition demo_token :: string where
  "demo_token = replicate 20 (CHR ''t'')"

definition demo_invited :: "league_error + league_db" where
  "demo_invited = createInvitation (\<lambda>s. s) demo_private 2 ''i'' demo_token ''L'' ''a'' (Some 1) (Some 3) demo_private"

theorem fresh_invitation_admits_witness:
  "\<exists>db2. acceptInvitation (\<lambda>s. s) (projr demo_invited) 3 (read_at (projr demo_invited)) ''mb'' demo_token ''b'' ''sb'' (projr demo_invited) = Inr db2
     \<and> members_of db2 ''L'' = members_of demo_private ''L'' + 1"
proof -
  have ok: "\<not> isl (demo_create_league True)" by code_simp
  have s: "league_run False (\<lambda>s. s) [league_demo_start]" by (rule run_start) (simp_all add: league_demo_start_def)
  have c: "createLeague league_demo_start 1 [''AB12''] ''L'' ''ma'' ''a'' (demo_league_input True) league_demo_start = Inr demo_private"
    using ok by (simp add: demo_create_league_def demo_private_def)
  have "league_run False (\<lambda>s. s) [demo_private, league_demo_start]"
    by (rule run_create [OF s _ _ c]) (simp_all add: readable_def league_demo_start_def)
  then have i: "league_inv demo_private" using league_run_inv by blast
  let ?l = "the (findLeague demo_private ''L'')" and ?g = "demo_gameweek 1"
  have "findLeague demo_private ''L'' \<noteq> None" by code_simp
  then have l: "findLeague demo_private ''L'' = Some ?l" by simp
  have "\<not> isl demo_invited" by code_simp
  then have inv: "createInvitation (\<lambda>s. s) demo_private 2 ''i'' demo_token ''L'' ''a'' (Some 1) (Some 3) demo_private = Inr (projr demo_invited)"
    by (simp add: demo_invited_def)
  have n: "0 \<le> lg_entryFee ?l" "0 \<le> lg_currentMembers ?l" "16 \<le> length demo_token" "length demo_token \<le> 128"
      "lg_currentMembers ?l < lg_maxMembers ?l" by code_simp+
  have f: "''i'' \<notin> iv_id ` set (ld_invitations demo_private)" "owns_squad demo_private ''sb'' ''b''"
      "list_all (\<lambda>m. lm_leagueId m = ''L'' \<longrightarrow> lm_userId m \<noteq> ''b'') (ld_members demo_private)"
      "find_gw demo_private (lg_startGameweekId ?l) = Some ?g" "2 < lgw_deadline ?g" by code_simp+
  have t: "3 < 2 + js_round (1 * 3600000)" "2 < 2 + js_round (1 * 3600000)" by code_simp+
  show ?thesis
    using fresh_invitation_admits [OF i l n(1,2) inv n(3,4) f(1), of "read_at (projr demo_invited)" 3 ?g "''b''" "''sb''" "''mb''"]
      n(5) f(2-5) t by (simp add: read_at_def list_all_iff) blast
qed

definition demo_filters :: search_filters where
  "demo_filters = \<lparr>sf_q = None, sf_code = None, sf_status = None, sf_scoringType = None, sf_creatorId = None,
     sf_minEntryFee = None, sf_maxEntryFee = None, sf_minSize = None, sf_maxSize = None, sf_hasOpenSlots = False,
     sf_sortBy = None, sf_descending = True, sf_page = None, sf_pageSize = Some 1\<rparr>"

theorem search_complete_and_private_witness:
  "length (filter (buildSearchWhere (\<lambda>n q. True) (projr demo_join_b) demo_filters None) (ld_leagues (projr demo_join_b))) = 1
   \<and> length (concat (map (\<lambda>p. fst (getLeagues (\<lambda>n q. True) (projr demo_join_b) (demo_filters\<lparr>sf_page := Some p\<rparr>) None)) [1..<Suc 1])) = 1"
proof -
  have one: "length (filter (buildSearchWhere (\<lambda>n q. True) (projr demo_join_b) demo_filters None) (ld_leagues (projr demo_join_b))) = 1"
    by code_simp
  have k: "sf_pageSize demo_filters = Some 1" "(1 :: nat) \<le> 50" by (simp_all add: demo_filters_def)
  from search_complete_and_private [OF k, of "\<lambda>n q. True" "projr demo_join_b" None 1] one show ?thesis by simp
qed

theorem private_entry_by_invitation_witness:
  "league_run False (\<lambda>s. s) [projr demo_join_b, projr (demo_create_league False), league_demo_start]
   \<and> distinct (map (\<lambda>m. (lm_leagueId m, lm_userId m)) (ld_members (projr demo_join_b)))"
  using demo_run_b private_entry_by_invitation [OF demo_run_b] by blast

theorem serial_member_counts_witness:
  "league_run True (\<lambda>s. s) [projr demo_join_b, projr (demo_create_league False), league_demo_start]
   \<and> lg_currentMembers (hd (ld_leagues (projr demo_join_b))) \<le> lg_maxMembers (hd (ld_leagues (projr demo_join_b)))"
proof -
  have "ld_leagues (projr demo_join_b) \<noteq> []" by code_simp
  then have "hd (ld_leagues (projr demo_join_b)) \<in> set (ld_leagues (projr demo_join_b))" by simp
  from serial_member_counts [OF demo_run_b this] demo_run_b show ?thesis by blast
qed

end
