(* ===== verification/League_Tables.thy ===== *)
theory League_Tables
  imports League_Lifecycle
begin

text \<open>
  The head-to-head table and its settlement in \<open>backend/src/services/league/leagueService.ts\<close>
  (\<open>sortH2HStandings\<close>, \<open>settleH2HGameweek\<close>, \<open>getH2HStandings\<close>). A foreign key of the database
  keeps the two sides of a fixture among the members, so that an update of a row by its key always finds it. One job
  settles at a time, so the reads before the transaction see the state it commits to.

  The table of a head-to-head league is kept as counters on the member rows. The specification is that
  the counters are determined by the results: \<open>table_ok\<close> says that every counter is the sum over the
  finished fixtures of the league.
\<close>

section \<open>The head-to-head table\<close>

record h2h_entry =
  he_rank :: int
  he_memberId :: string
  he_userId :: string
  he_matchesWon :: int
  he_matchesDrawn :: int
  he_matchesLost :: int
  he_pointsFor :: int
  he_pointsAgainst :: int
  he_h2hPoints :: int
  he_pointsDifference :: int

definition h2h_order :: "h2h_entry cmp" where
  "h2h_order = js_or (desc (\<lambda>e. of_int (he_h2hPoints e)))
     (js_or (desc (\<lambda>e. of_int (he_pointsFor e))) (desc (\<lambda>e. of_int (he_pointsDifference e))))"

definition sortH2HStandings :: "h2h_entry list \<Rightarrow> h2h_entry list" where
  "sortH2HStandings entries =
     map (\<lambda>(idx, e). e\<lparr>he_rank := int idx + 1\<rparr>)
       (enumerate 0 (js_sort h2h_order (map (\<lambda>e. e\<lparr>he_pointsDifference := he_pointsFor e - he_pointsAgainst e\<rparr>) entries)))"

definition h2h_entry_of :: "league_member \<Rightarrow> h2h_entry" where
  "h2h_entry_of m = \<lparr>he_rank = 0, he_memberId = lm_id m, he_userId = lm_userId m, he_matchesWon = lm_matchesWon m,
     he_matchesDrawn = lm_matchesDrawn m, he_matchesLost = lm_matchesLost m, he_pointsFor = lm_pointsFor m,
     he_pointsAgainst = lm_pointsAgainst m, he_h2hPoints = lm_h2hPoints m, he_pointsDifference = 0\<rparr>"

datatype table_error = TableLeagueNotFound string | NotHeadToHead | TooFewForPlayoffs | NoPlayoffFixtures | PlayoffsNotSettled
  | GameweekNotCompleted | TableConfigInvalid config_error | TablePrizeFailure prize_error | TableUniqueViolation

definition getH2HStandings :: "league_db \<Rightarrow> string \<Rightarrow> table_error + h2h_entry list" where
  "getH2HStandings db leagueId =
     (case findLeague db leagueId of
        None \<Rightarrow> Inl (TableLeagueNotFound leagueId)
      | Some league \<Rightarrow>
          if lg_scoringType league \<noteq> HEAD_TO_HEAD then Inl NotHeadToHead
          else Inr (sortH2HStandings (map h2h_entry_of (active_members db leagueId))))"

section \<open>Settling a gameweek\<close>

definition open_fixtures :: "league_db \<Rightarrow> string \<Rightarrow> int \<Rightarrow> league_fixture list" where
  "open_fixtures db leagueId gameweekId =
     filter (\<lambda>f. lf_leagueId f = leagueId \<and> lf_gameweekId f = gameweekId \<and> \<not> lf_isFinished f \<and> \<not> lf_isCup f) (ld_fixtures db)"

definition gameweek_points :: "league_db \<Rightarrow> string \<Rightarrow> int \<Rightarrow> bool \<Rightarrow> string list \<Rightarrow> (string \<times> int) list" where
  "gameweek_points db leagueId gameweekId useLeagueScoring squadIds =
     (if useLeagueScoring then
        js_map (map (\<lambda>(l, s, g, p). (s, p)) (filter (\<lambda>(l, s, g, p). l = leagueId \<and> g = gameweekId \<and> s \<in> set squadIds) (ld_leagueScores db)))
      else
        js_map (map (\<lambda>(s, g, p). (s, p)) (filter (\<lambda>(s, g, p). g = gameweekId \<and> s \<in> set squadIds) (ld_squadScores db))))"

definition member_points :: "league_db \<Rightarrow> string \<Rightarrow> int \<Rightarrow> bool \<Rightarrow> (string \<times> int) list" where
  "member_points db leagueId gameweekId useLeagueScoring =
     (let members = active_members db leagueId;
          pointsBySquad = gameweek_points db leagueId gameweekId useLeagueScoring (map lm_squadId members)
      in js_map (map (\<lambda>m. (lm_id m, case map_of pointsBySquad (lm_squadId m) of None \<Rightarrow> 0 | Some p \<Rightarrow> p)) members))"

definition average_score :: "(string \<times> int) list \<Rightarrow> int" where
  "average_score points =
     (if points = [] then 0 else js_round (of_int (sum_list (map snd points)) / of_nat (length points)))"

text \<open>The two scores of a fixture; the average team plays where the away side is empty.\<close>

definition points_of :: "(string \<times> int) list \<Rightarrow> string \<Rightarrow> int" where
  "points_of points memberId = (case map_of points memberId of None \<Rightarrow> 0 | Some p \<Rightarrow> p)"

definition fixture_scores :: "(string \<times> int) list \<Rightarrow> league_fixture \<Rightarrow> int \<times> int" where
  "fixture_scores points f =
     (points_of points (lf_home f),
      case lf_away f of None \<Rightarrow> average_score points | Some a \<Rightarrow> if a = [] then average_score points else points_of points a)"

definition add_outcome :: "int \<Rightarrow> int \<Rightarrow> int \<Rightarrow> league_member \<Rightarrow> league_member" where
  "add_outcome points scored conceded m =
     m\<lparr>lm_matchesWon := lm_matchesWon m + (if points = 3 then 1 else 0),
       lm_matchesDrawn := lm_matchesDrawn m + (if points = 1 then 1 else 0),
       lm_matchesLost := lm_matchesLost m + (if points = 0 then 1 else 0),
       lm_pointsFor := lm_pointsFor m + scored,
       lm_pointsAgainst := lm_pointsAgainst m + conceded,
       lm_h2hPoints := lm_h2hPoints m + points\<rparr>"

definition update_member :: "string \<Rightarrow> (league_member \<Rightarrow> league_member) \<Rightarrow> league_db \<Rightarrow> league_db" where
  "update_member memberId f db = db\<lparr>ld_members := map (\<lambda>m. if lm_id m = memberId then f m else m) (ld_members db)\<rparr>"

definition update_fixture :: "nat \<Rightarrow> (league_fixture \<Rightarrow> league_fixture) \<Rightarrow> league_db \<Rightarrow> league_db" where
  "update_fixture i f db = db\<lparr>ld_fixtures := map (\<lambda>x. if lf_id x = i then f x else x) (ld_fixtures db)\<rparr>"

text \<open>One turn of the loop: the result, the home side's counters and the away side's.\<close>

definition settle_match :: "(string \<times> int) list \<Rightarrow> league_db \<Rightarrow> league_fixture \<Rightarrow> league_db" where
  "settle_match points db f =
     (let (homeScore, awayScore) = fixture_scores points f;
          (homePoints, awayPoints) = resolveHeadToHead homeScore awayScore;
          db1 = update_fixture (lf_id f) (\<lambda>x. x\<lparr>lf_homeScore := Some homeScore, lf_awayScore := Some awayScore, lf_isFinished := True\<rparr>) db;
          db2 = update_member (lf_home f) (add_outcome homePoints homeScore awayScore) db1
      in case lf_away f of
           None \<Rightarrow> db2
         | Some a \<Rightarrow> if a = [] then db2 else update_member a (add_outcome awayPoints awayScore homeScore) db2)"

definition store_ranks :: "string \<Rightarrow> league_db \<Rightarrow> league_db" where
  "store_ranks leagueId db =
     foldl (\<lambda>d e. update_member (he_memberId e) (\<lambda>m. m\<lparr>lm_rank := Some (he_rank e)\<rparr>) d) db
       (sortH2HStandings (map h2h_entry_of (active_members db leagueId)))"

definition settleH2HGameweek :: "league_db \<Rightarrow> string \<Rightarrow> int \<Rightarrow> bool \<Rightarrow> league_db \<times> nat" where
  "settleH2HGameweek db leagueId gameweekId useLeagueScoring =
     (let fixtures = open_fixtures db leagueId gameweekId
      in if fixtures = [] then (db, 0)
         else
           (let points = member_points db leagueId gameweekId useLeagueScoring
            in (store_ranks leagueId (foldl (settle_match points) db fixtures), length fixtures)))"

section \<open>The counters follow from the results\<close>

datatype stat = Won | Drawn | Lost | Scored | Conceded | Points

fun counter :: "stat \<Rightarrow> league_member \<Rightarrow> int" where
  "counter Won m = lm_matchesWon m"
| "counter Drawn m = lm_matchesDrawn m"
| "counter Lost m = lm_matchesLost m"
| "counter Scored m = lm_pointsFor m"
| "counter Conceded m = lm_pointsAgainst m"
| "counter Points m = lm_h2hPoints m"

lemma all_stats: "(\<forall>k. P k) \<longleftrightarrow> P Won \<and> P Drawn \<and> P Lost \<and> P Scored \<and> P Conceded \<and> P Points"
  by (metis stat.exhaust)

text \<open>What a match with these scores is worth to a side.\<close>

fun match_value :: "stat \<Rightarrow> int \<Rightarrow> int \<Rightarrow> int" where
  "match_value Won s c = (if s > c then 1 else 0)"
| "match_value Drawn s c = (if s = c then 1 else 0)"
| "match_value Lost s c = (if s < c then 1 else 0)"
| "match_value Scored s c = s"
| "match_value Conceded s c = c"
| "match_value Points s c = (if s > c then 3 else if s = c then 1 else 0)"

definition score_or_zero :: "int option \<Rightarrow> int" where
  "score_or_zero s = (case s of None \<Rightarrow> 0 | Some x \<Rightarrow> x)"

definition contribution :: "stat \<Rightarrow> string \<Rightarrow> league_fixture \<Rightarrow> int" where
  "contribution k memberId f =
     (let h = score_or_zero (lf_homeScore f); a = score_or_zero (lf_awayScore f)
      in (if lf_home f = memberId then match_value k h a else 0) + (if lf_away f = Some memberId then match_value k a h else 0))"

definition is_result :: "string \<Rightarrow> league_fixture \<Rightarrow> bool" where
  "is_result leagueId f \<longleftrightarrow> lf_leagueId f = leagueId \<and> lf_isFinished f \<and> \<not> lf_isCup f"

definition results_sum :: "stat \<Rightarrow> league_db \<Rightarrow> string \<Rightarrow> string \<Rightarrow> int" where
  "results_sum k db leagueId memberId = (\<Sum>f\<leftarrow>filter (is_result leagueId) (ld_fixtures db). contribution k memberId f)"

definition table_ok :: "string \<Rightarrow> league_db \<Rightarrow> bool" where
  "table_ok leagueId db \<longleftrightarrow>
     (\<forall>m \<in> set (ld_members db). lm_leagueId m = leagueId \<longrightarrow> (\<forall>k. counter k m = results_sum k db leagueId (lm_id m)))"

lemma add_outcome_simps [simp]:
  "lm_id (add_outcome p s c m) = lm_id m" "lm_leagueId (add_outcome p s c m) = lm_leagueId m"
  "lm_status (add_outcome p s c m) = lm_status m"
  by (simp_all add: add_outcome_def)

lemma counter_add_outcome:
  "counter k (add_outcome (fst (resolveHeadToHead s c)) s c m) = counter k m + match_value k s c"
  "counter k (add_outcome (snd (resolveHeadToHead s c)) c s m) = counter k m + match_value k c s"
  by (cases k; simp add: add_outcome_def resolveHeadToHead_def)+

lemma sum_update_one:
  assumes "distinct (map i xs)" "x \<in> set xs"
  shows "(\<Sum>y\<leftarrow>map (\<lambda>y. if i y = i x then f y else y) xs. g y) = (\<Sum>y\<leftarrow>xs. g y) - g x + (g (f x) :: int)"
  using assms
proof (induction xs)
  case (Cons z zs)
  show ?case
  proof (cases "z = x")
    case True
    then have "i x \<notin> i ` set zs" using Cons.prems(1) by simp
    then have "i y \<noteq> i x" if "y \<in> set zs" for y using that by (metis imageI)
    then have "map (\<lambda>y. if i y = i x then f y else y) zs = zs" by (intro map_idI) auto
    then show ?thesis using True by simp
  next
    case False
    then have "x \<in> set zs" "i z \<noteq> i x" using Cons.prems by auto
    then show ?thesis using Cons by simp
  qed
qed simp

text \<open>The database after one match, taken apart.\<close>

definition played :: "(string \<times> int) list \<Rightarrow> league_fixture \<Rightarrow> league_fixture" where
  "played points f = f\<lparr>lf_homeScore := Some (fst (fixture_scores points f)), lf_awayScore := Some (snd (fixture_scores points f)),
     lf_isFinished := True\<rparr>"

definition credit :: "(string \<times> int) list \<Rightarrow> league_fixture \<Rightarrow> league_member \<Rightarrow> league_member" where
  "credit points f m =
     (let (h, a) = fixture_scores points f; (hp, ap) = resolveHeadToHead h a;
          m1 = (if lm_id m = lf_home f then add_outcome hp h a m else m)
      in if lf_away f = Some (lm_id m) then add_outcome ap a h m1 else m1)"

text \<open>A row is written by its key, so a settled match changes the fixture and its two sides and nothing else.\<close>

lemma settle_match_eq:
  assumes "lf_away f \<noteq> Some []"
  shows "settle_match points db f = db\<lparr>ld_fixtures := map (\<lambda>x. if lf_id x = lf_id f then
      x\<lparr>lf_homeScore := Some (fst (fixture_scores points f)), lf_awayScore := Some (snd (fixture_scores points f)), lf_isFinished := True\<rparr> else x) (ld_fixtures db),
      ld_members := map (credit points f) (ld_members db)\<rparr>"
proof -
  obtain h a where s: "fixture_scores points f = (h, a)" by (cases "fixture_scores points f")
  obtain hp ap where r: "resolveHeadToHead h a = (hp, ap)" by (cases "resolveHeadToHead h a")
  show ?thesis
  proof (cases "lf_away f")
    case None
    then have "credit points f = (\<lambda>m. if lm_id m = lf_home f then add_outcome hp h a m else m)"
      by (intro ext) (simp add: credit_def s r)
    then show ?thesis using None by (simp add: settle_match_def update_fixture_def update_member_def s r)
  next
    case (Some b)
    then have c: "credit points f = (\<lambda>m. if lm_id m = b then add_outcome ap a h m else m) \<circ>
        (\<lambda>m. if lm_id m = lf_home f then add_outcome hp h a m else m)"
      by (intro ext) (simp add: credit_def s r)
    from Some assms have "b \<noteq> []" by simp
    then show ?thesis unfolding c map_map [symmetric] using Some
      by (simp add: settle_match_def update_fixture_def update_member_def s r)
  qed
qed

lemma credit_simps [simp]:
  "lm_id (credit points f m) = lm_id m" "lm_leagueId (credit points f m) = lm_leagueId m" "lm_status (credit points f m) = lm_status m"
  by (simp_all add: credit_def Let_def split: prod.splits)

lemma counter_credit: "counter k (credit points f m) = counter k m + contribution k (lm_id m) (played points f)"
proof -
  obtain h a where s: "fixture_scores points f = (h, a)" by (cases "fixture_scores points f")
  obtain hp ap where r: "resolveHeadToHead h a = (hp, ap)" by (cases "resolveHeadToHead h a")
  have c: "counter k (add_outcome hp h a n) = counter k n + match_value k h a"
    "counter k (add_outcome ap a h n) = counter k n + match_value k a h" for n
    using counter_add_outcome(1) [of k h a n] counter_add_outcome(2) [of k h a n] r by simp_all
  show ?thesis
    by (cases "lm_id m = lf_home f"; cases "lf_away f = Some (lm_id m)")
       (simp_all add: credit_def s r c played_def contribution_def score_or_zero_def Let_def)
qed

definition fixtures_ok :: "league_db \<Rightarrow> bool" where
  "fixtures_ok db \<longleftrightarrow> distinct (map lf_id (ld_fixtures db)) \<and> list_all (\<lambda>f. lf_away f \<noteq> Some []) (ld_fixtures db)"

lemma results_sum_alt:
  "results_sum k db L i = (\<Sum>f\<leftarrow>ld_fixtures db. if is_result L f then contribution k i f else 0)"
  by (simp add: results_sum_def sum_list_map_filter')

lemma played_simps [simp]:
  "lf_id (played points f) = lf_id f" "lf_leagueId (played points f) = lf_leagueId f" "lf_isCup (played points f) = lf_isCup f"
  "lf_gameweekId (played points f) = lf_gameweekId f" "lf_away (played points f) = lf_away f" "lf_home (played points f) = lf_home f"
  "lf_isFinished (played points f)"
  by (simp_all add: played_def)

lemma settle_match_fixtures:
  assumes "fixtures_ok db" "f \<in> set (ld_fixtures db)"
  shows "ld_fixtures (settle_match points db f) =
    map (\<lambda>x. if lf_id x = lf_id f then played points x else x) (ld_fixtures db)"
    (is "_ = map ?g _")
proof -
  have d: "distinct (map lf_id (ld_fixtures db))" and a: "lf_away f \<noteq> Some []"
    using assms by (auto simp: fixtures_ok_def list_all_iff)
  have e: "x = f" if "x \<in> set (ld_fixtures db)" "lf_id x = lf_id f" for x
    using d that assms(2) by (metis distinct_map inj_onD)
  show ?thesis unfolding settle_match_eq [OF a]
    by (auto simp: played_def dest: e)
qed

lemma settle_match_members:
  "lf_away f \<noteq> Some [] \<Longrightarrow> ld_members (settle_match points db f) = map (credit points f) (ld_members db)"
  by (simp add: settle_match_eq)

lemma settle_match_table:
  assumes "fixtures_ok db" "f \<in> set (ld_fixtures db)" "lf_leagueId f = L" "\<not> lf_isFinished f" "\<not> lf_isCup f" "table_ok L db"
  shows "table_ok L (settle_match points db f)"
proof -
  have a: "lf_away f \<noteq> Some []" and d: "distinct (map lf_id (ld_fixtures db))"
    using assms(1,2) by (auto simp: fixtures_ok_def list_all_iff)
  have s: "results_sum k (settle_match points db f) L i = results_sum k db L i + contribution k i (played points f)" for k i
    using sum_update_one [OF d assms(2), of "\<lambda>f. if is_result L f then contribution k i f else 0" "played points"] assms(3-5)
    unfolding results_sum_alt settle_match_fixtures [OF assms(1,2)] by (simp add: is_result_def)
  show ?thesis using assms(6)
    by (auto simp: table_ok_def settle_match_members [OF a] counter_credit s)
qed

lemma settle_match_fixtures_ok:
  assumes "fixtures_ok db" "f \<in> set (ld_fixtures db)"
  shows "fixtures_ok (settle_match points db f)"
proof -
  have "map lf_id (ld_fixtures (settle_match points db f)) = map lf_id (ld_fixtures db)"
    unfolding settle_match_fixtures [OF assms] by simp
  moreover have "map lf_away (ld_fixtures (settle_match points db f)) = map lf_away (ld_fixtures db)"
    unfolding settle_match_fixtures [OF assms] by simp
  ultimately show ?thesis using assms(1)
    by (simp only: fixtures_ok_def list_all_iff) (metis image_iff list.set_map)
qed

text \<open>What the loop over the open fixtures does: it plays exactly those, and keeps the table and the identities of the members.\<close>

definition play_all :: "(string \<times> int) list \<Rightarrow> nat set \<Rightarrow> league_fixture \<Rightarrow> league_fixture" where
  "play_all points ids f = (if lf_id f \<in> ids then played points f else f)"

lemma play_all_empty [simp]: "play_all points {} = id"
  by (simp add: play_all_def fun_eq_iff)

lemma settle_loop:
  fixes points :: "(string \<times> int) list"
  assumes "fixtures_ok db" "distinct (map lf_id fs)"
    "\<And>f. f \<in> set fs \<Longrightarrow> f \<in> set (ld_fixtures db) \<and> lf_leagueId f = L \<and> \<not> lf_isFinished f \<and> \<not> lf_isCup f"
  defines "db' \<equiv> foldl (settle_match points) db fs"
  shows "fixtures_ok db'" "ld_fixtures db' = map (play_all points (lf_id ` set fs)) (ld_fixtures db)"
    "table_ok L db \<Longrightarrow> table_ok L db'"
    "map (\<lambda>m. (lm_id m, lm_leagueId m, lm_status m)) (ld_members db') = map (\<lambda>m. (lm_id m, lm_leagueId m, lm_status m)) (ld_members db)"
    "ld_leagues db' = ld_leagues db"
proof -
  have "fixtures_ok db' \<and> ld_fixtures db' = map (play_all points (lf_id ` set fs)) (ld_fixtures db) \<and> (table_ok L db \<longrightarrow> table_ok L db')
    \<and> map (\<lambda>m. (lm_id m, lm_leagueId m, lm_status m)) (ld_members db') = map (\<lambda>m. (lm_id m, lm_leagueId m, lm_status m)) (ld_members db)
    \<and> ld_leagues db' = ld_leagues db"
    using assms(1-3) unfolding db'_def
  proof (induction fs arbitrary: db)
    case (Cons f fs)
    let ?d = "settle_match points db f"
    note f = Cons.prems(3) [of f, simplified]
    have away: "lf_away f \<noteq> Some []" using Cons.prems(1) f by (auto simp: fixtures_ok_def list_all_iff)
    have n: "lf_id g \<noteq> lf_id f" if "g \<in> set fs" for g using Cons.prems(2) that by (metis distinct.simps(2) imageI list.set_map list.simps(9))
    have 1: "fixtures_ok ?d" using settle_match_fixtures_ok Cons.prems(1) f by blast
    have 2: "g \<in> set (ld_fixtures ?d) \<and> lf_leagueId g = L \<and> \<not> lf_isFinished g \<and> \<not> lf_isCup g" if "g \<in> set fs" for g
    proof -
      have "g \<in> (\<lambda>x. if lf_id x = lf_id f then played points x else x) ` set (ld_fixtures db)"
        using Cons.prems(3) [of g] n [OF that] that by (intro image_eqI [where x = g]) auto
      then show ?thesis using Cons.prems(3) [of g] that f
        by (simp add: settle_match_fixtures [OF Cons.prems(1)])
    qed
    have 3: "play_all points (lf_id ` set fs) (if lf_id x = lf_id f then played points x else x) = play_all points (lf_id ` set (f # fs)) x" for x
      using Cons.prems(2) by (cases "lf_id x = lf_id f") (simp_all add: play_all_def)
    have 4: "ld_leagues ?d = ld_leagues db" using away by (simp add: settle_match_eq)
    have 5: "table_ok L db \<Longrightarrow> table_ok L ?d" using settle_match_table Cons.prems(1) f by blast
    show ?case using Cons.IH [OF 1 _ 2] Cons.prems(2) 3 4 5 f
      by (simp add: settle_match_fixtures [OF Cons.prems(1)] settle_match_members [OF away] o_def)
  qed simp
  then show "fixtures_ok db'" "ld_fixtures db' = map (play_all points (lf_id ` set fs)) (ld_fixtures db)"
    "table_ok L db \<Longrightarrow> table_ok L db'"
    "map (\<lambda>m. (lm_id m, lm_leagueId m, lm_status m)) (ld_members db') = map (\<lambda>m. (lm_id m, lm_leagueId m, lm_status m)) (ld_members db)"
    "ld_leagues db' = ld_leagues db"
    by blast+
qed

text \<open>Storing the ranks touches no other column.\<close>

definition set_rank :: "(string \<times> int) list \<Rightarrow> league_member \<Rightarrow> league_member" where
  "set_rank rs m = (case map_of rs (lm_id m) of None \<Rightarrow> m | Some r \<Rightarrow> m\<lparr>lm_rank := Some r\<rparr>)"

lemma set_rank_simps [simp]:
  "lm_id (set_rank rs m) = lm_id m" "lm_leagueId (set_rank rs m) = lm_leagueId m" "lm_status (set_rank rs m) = lm_status m"
  "counter k (set_rank rs m) = counter k m" "h2h_entry_of (set_rank rs m) = h2h_entry_of m"
  by (simp_all add: set_rank_def h2h_entry_of_def split: option.split) (cases k; simp split: option.split)

definition rank_list :: "h2h_entry list \<Rightarrow> (string \<times> int) list" where
  "rank_list es = map (\<lambda>e. (he_memberId e, he_rank e)) es"

lemma fold_ranks:
  assumes "distinct (map he_memberId es)"
  shows "foldl (\<lambda>d e. update_member (he_memberId e) (\<lambda>m. m\<lparr>lm_rank := Some (he_rank e)\<rparr>) d) db es =
    db\<lparr>ld_members := map (set_rank (rank_list es)) (ld_members db)\<rparr>"
  using assms
proof (induction es arbitrary: db)
  case Nil
  have "set_rank (rank_list []) = id" by (simp add: set_rank_def rank_list_def fun_eq_iff)
  then show ?case by simp
next
  case (Cons e es)
  have "he_memberId e \<notin> fst ` set (rank_list es)" using Cons.prems by (force simp: rank_list_def)
  then have "map_of (rank_list es) (he_memberId e) = None" by (simp add: map_of_eq_None_iff)
  then have "set_rank (rank_list es) (if lm_id m = he_memberId e then m\<lparr>lm_rank := Some (he_rank e)\<rparr> else m) =
      set_rank (rank_list (e # es)) m" for m
    by (cases "lm_id m = he_memberId e") (simp_all add: set_rank_def rank_list_def)
  then show ?case using Cons by (simp add: update_member_def o_def)
qed

lemma sortH2HStandings_ids:
  "mset (map he_memberId (sortH2HStandings es)) = mset (map he_memberId es)"
proof -
  have "map he_memberId (sortH2HStandings es) = map he_memberId
      (js_sort h2h_order (map (\<lambda>e. e\<lparr>he_pointsDifference := he_pointsFor e - he_pointsAgainst e\<rparr>) es))"
    unfolding sortH2HStandings_def map_map o_def by (simp add: split_def map_snd_enumerate flip: map_map [of he_memberId snd, unfolded o_def])
  then show ?thesis by (simp add: multiset.map_comp o_def)
qed

lemma active_members_ids: "distinct (map lm_id (ld_members db)) \<Longrightarrow> distinct (map lm_id (active_members db L))"
  by (simp add: active_members_def distinct_map_filter)

lemma standings_mset:
  "mset (map he_memberId (sortH2HStandings (map h2h_entry_of ms))) = mset (map lm_id ms)"
  unfolding sortH2HStandings_ids by (simp add: multiset.map_comp o_def h2h_entry_of_def)

lemma h2h_standings_ids:
  assumes "distinct (map lm_id (ld_members db))"
  shows "distinct (map he_memberId (sortH2HStandings (map h2h_entry_of (active_members db L))))"
    "set (map he_memberId (sortH2HStandings (map h2h_entry_of (active_members db L)))) = lm_id ` set (active_members db L)"
  using active_members_ids [OF assms, of L] standings_mset [of "active_members db L"]
  by (metis mset_eq_imp_distinct_iff, metis list.set_map mset_eq_setD)

lemma store_ranks_eq:
  assumes "distinct (map lm_id (ld_members db))"
  shows "store_ranks L db = db\<lparr>ld_members :=
    map (set_rank (rank_list (sortH2HStandings (map h2h_entry_of (active_members db L))))) (ld_members db)\<rparr>"
  unfolding store_ranks_def by (rule fold_ranks [OF h2h_standings_ids(1) [OF assms]])

definition keys_ok :: "league_db \<Rightarrow> bool" where
  "keys_ok db \<longleftrightarrow> fixtures_ok db \<and> distinct (map lm_id (ld_members db))"

definition is_open :: "string \<Rightarrow> int \<Rightarrow> league_fixture \<Rightarrow> bool" where
  "is_open L gw f \<longleftrightarrow> lf_leagueId f = L \<and> lf_gameweekId f = gw \<and> \<not> lf_isFinished f \<and> \<not> lf_isCup f"

lemma open_fixtures_is_open: "open_fixtures db L gw = filter (is_open L gw) (ld_fixtures db)"
  by (simp add: open_fixtures_def is_open_def [abs_def])

lemma played_not_open [simp]: "\<not> is_open L gw (played points f)"
  by (simp add: is_open_def)

definition member_row :: "league_member \<Rightarrow> string \<times> string \<times> membership_status" where
  "member_row m = (lm_id m, lm_leagueId m, lm_status m)"

lemma settle_loop_open:
  fixes L :: string and gw :: int and points :: "(string \<times> int) list"
  assumes "keys_ok db"
  defines "d \<equiv> foldl (settle_match points) db (open_fixtures db L gw)"
  shows "keys_ok d" "table_ok L db \<Longrightarrow> table_ok L d"
    "ld_fixtures d = map (\<lambda>f. if is_open L gw f then played points f else f) (ld_fixtures db)"
    "map member_row (ld_members d) = map member_row (ld_members db)" "ld_leagues d = ld_leagues db"
proof -
  let ?fs = "open_fixtures db L gw"
  note o = open_fixtures_is_open [of db L gw]
  have dist: "distinct (map lf_id (ld_fixtures db))" and fo: "fixtures_ok db" using assms(1) by (simp_all add: keys_ok_def fixtures_ok_def)
  have f: "f \<in> set (ld_fixtures db) \<and> lf_leagueId f = L \<and> \<not> lf_isFinished f \<and> \<not> lf_isCup f" if "f \<in> set ?fs" for f
    using that by (simp add: o is_open_def)
  have dm: "distinct (map lf_id ?fs)" using dist by (simp add: o distinct_map_filter)
  note l = settle_loop [OF fo dm f, of points, folded d_def]
  have ids: "map lm_id (ld_members d) = map lm_id (ld_members db)" using arg_cong [OF l(4), of "map fst"] by (simp add: o_def)
  have op: "lf_id f \<in> lf_id ` set ?fs \<longleftrightarrow> is_open L gw f" if "f \<in> set (ld_fixtures db)" for f
    using that inj_onD [OF distinct_map [THEN iffD1, OF dist, THEN conjunct2]] by (auto simp: o)
  show "ld_fixtures d = map (\<lambda>f. if is_open L gw f then played points f else f) (ld_fixtures db)"
    using op by (simp add: l(2) play_all_def)
  show "keys_ok d" using l(1) ids assms(1) by (simp add: keys_ok_def)
  show "table_ok L db \<Longrightarrow> table_ok L d" by (rule l(3))
  show "map member_row (ld_members d) = map member_row (ld_members db)" using l(4) by (simp add: member_row_def [abs_def])
  show "ld_leagues d = ld_leagues db" by (rule l(5))
qed

lemma settle_effect:
  fixes L :: string and gw :: int and u :: bool
  assumes "keys_ok db"
  defines "db' \<equiv> fst (settleH2HGameweek db L gw u)"
  shows "keys_ok db'" "table_ok L db \<Longrightarrow> table_ok L db'"
    "ld_fixtures db' = map (\<lambda>f. if is_open L gw f then played (member_points db L gw u) f else f) (ld_fixtures db)"
    "map member_row (ld_members db') = map member_row (ld_members db)" "ld_leagues db' = ld_leagues db"
proof -
  define d where "d = foldl (settle_match (member_points db L gw u)) db (open_fixtures db L gw)"
  note l = settle_loop_open [OF assms(1), where L = L and gw = gw and points = "member_points db L gw u", folded d_def]
  have sd: "store_ranks L d = d\<lparr>ld_members :=
      map (set_rank (rank_list (sortH2HStandings (map h2h_entry_of (active_members d L))))) (ld_members d)\<rparr>"
    using l(1) by (intro store_ranks_eq) (simp add: keys_ok_def)
  have td: "table_ok L d \<Longrightarrow> table_ok L (store_ranks L d)" by (simp add: sd table_ok_def results_sum_def)
  have e: "db' = (if open_fixtures db L gw = [] then d else store_ranks L d)"
    by (simp add: db'_def settleH2HGameweek_def d_def Let_def)
  show "ld_fixtures db' = map (\<lambda>f. if is_open L gw f then played (member_points db L gw u) f else f) (ld_fixtures db)"
    by (simp add: e sd l(3))
  show "keys_ok db'" using l(1) by (simp add: e sd keys_ok_def fixtures_ok_def o_def)
  show "table_ok L db \<Longrightarrow> table_ok L db'" using l(2) td by (simp add: e)
  show "map member_row (ld_members db') = map member_row (ld_members db)" using l(4) by (simp add: e sd member_row_def [abs_def] o_def)
  show "ld_leagues db' = ld_leagues db" using l(5) by (simp add: e sd)
qed

lemma settle_closes:
  assumes "keys_ok db"
  shows "open_fixtures (fst (settleH2HGameweek db L gw u)) L gw = []"
  unfolding open_fixtures_is_open settle_effect(3) [OF assms]
  by (simp add: filter_map filter_empty_conv)

lemma settle_closed: "open_fixtures db L gw = [] \<Longrightarrow> settleH2HGameweek db L gw u = (db, 0)"
  by (simp add: settleH2HGameweek_def)

lemma foldl_keeps: "(\<And>x y. g (f x y) = g x) \<Longrightarrow> g (foldl f x ys) = g x"
  by (induction ys arbitrary: x) simp_all

lemma settle_frame:
  assumes u: "\<And>i f d. g (update_member i f d) = g d" "\<And>j h d. g (update_fixture j h d) = g d"
  shows "g (fst (settleH2HGameweek db L gw u)) = g db"
proof -
  have "g (settle_match p d f) = g d" for p d f
    by (simp add: settle_match_def Let_def u split: prod.split option.split)
  then show ?thesis by (simp add: settleH2HGameweek_def store_ranks_def Let_def foldl_keeps [where g = g] u)
qed

lemma settle_frames [simp]:
  "ld_nextId (fst (settleH2HGameweek db L gw u)) = ld_nextId db"
  "ld_leagues (fst (settleH2HGameweek db L gw u)) = ld_leagues db"
  by (rule settle_frame; simp add: update_member_def update_fixture_def)+

text \<open>What a correct table says of a member.\<close>

lemma sum_list_int_distrib:
  "(\<Sum>x\<leftarrow>xs. f x + g x :: int) = (\<Sum>x\<leftarrow>xs. f x) + (\<Sum>x\<leftarrow>xs. g x)" "(\<Sum>x\<leftarrow>xs. c * f x :: int) = c * (\<Sum>x\<leftarrow>xs. f x)"
  by (simp_all add: sum_list_addf sum_list_const_mult)

lemma contribution_points: "contribution Points i f = 3 * contribution Won i f + contribution Drawn i f"
  by (auto simp: contribution_def Let_def)

definition appearances :: "string \<Rightarrow> league_fixture \<Rightarrow> int" where
  "appearances i f = (if lf_home f = i then 1 else 0) + (if lf_away f = Some i then 1 else 0)"

lemma contribution_matches: "contribution Won i f + contribution Drawn i f + contribution Lost i f = appearances i f"
  by (auto simp: contribution_def appearances_def Let_def)

lemma table_ok_member:
  assumes "table_ok L db" "m \<in> set (ld_members db)" "lm_leagueId m = L"
  shows "lm_h2hPoints m = 3 * lm_matchesWon m + lm_matchesDrawn m"
    "lm_matchesWon m + lm_matchesDrawn m + lm_matchesLost m = (\<Sum>f\<leftarrow>filter (is_result L) (ld_fixtures db). appearances (lm_id m) f)"
proof -
  have c: "counter k m = results_sum k db L (lm_id m)" for k using assms by (simp add: table_ok_def)
  show "lm_h2hPoints m = 3 * lm_matchesWon m + lm_matchesDrawn m"
    using c [of Points] c [of Won] c [of Drawn] by (simp add: results_sum_def contribution_points sum_list_int_distrib)
  show "lm_matchesWon m + lm_matchesDrawn m + lm_matchesLost m = (\<Sum>f\<leftarrow>filter (is_result L) (ld_fixtures db). appearances (lm_id m) f)"
    using c [of Won] c [of Drawn] c [of Lost]
    by (simp add: results_sum_def contribution_matches [symmetric] sum_list_int_distrib)
qed

text \<open>A season: gameweeks settled in any order, each with or without league scoring, some perhaps twice.\<close>

definition settle_season :: "string \<Rightarrow> (int \<times> bool) list \<Rightarrow> league_db \<Rightarrow> league_db" where
  "settle_season L calls db = foldl (\<lambda>d (gw, u). fst (settleH2HGameweek d L gw u)) db calls"

lemma settle_season_simps [simp]:
  "settle_season L [] db = db" "settle_season L ((gw, u) # cs) db = settle_season L cs (fst (settleH2HGameweek db L gw u))"
  by (simp_all add: settle_season_def)

lemma settle_season_keeps:
  assumes "keys_ok db"
  shows "keys_ok (settle_season L cs db) \<and> (table_ok L db \<longrightarrow> table_ok L (settle_season L cs db))
    \<and> {f \<in> set (ld_fixtures db). lf_isFinished f} \<subseteq> set (ld_fixtures (settle_season L cs db))
    \<and> (open_fixtures db L gw = [] \<longrightarrow> open_fixtures (settle_season L cs db) L gw = [])"
  using assms
proof (induction cs arbitrary: db)
  case (Cons c cs)
  obtain g u where c: "c = (g, u)" by (cases c)
  let ?d = "fst (settleH2HGameweek db L g u)"
  note e = settle_effect [OF Cons.prems, of L g u]
  have "{f \<in> set (ld_fixtures db). lf_isFinished f} \<subseteq> {f \<in> set (ld_fixtures ?d). lf_isFinished f}"
    unfolding e(3) by (auto simp: is_open_def image_iff)
  moreover have "open_fixtures ?d L gw = []" if "open_fixtures db L gw = []"
    using that unfolding open_fixtures_is_open e(3) by (simp add: filter_map filter_empty_conv)
  ultimately show ?case using Cons.IH [OF e(1)] e(2) by (auto simp: c)
qed simp

lemma settle_season_closes:
  assumes "keys_ok db" "(gw, u) \<in> set cs"
  shows "open_fixtures (settle_season L cs db) L gw = []"
  using assms
proof (induction cs arbitrary: db)
  case (Cons c cs)
  obtain g v where c: "c = (g, v)" by (cases c)
  note k = settle_effect(1) [OF Cons.prems(1), of L g v]
  show ?case
  proof (cases "g = gw")
    case True
    then show ?thesis using settle_season_keeps [OF k, of L cs gw] settle_closes [OF Cons.prems(1)] by (simp add: c)
  next
    case False
    then show ?thesis using Cons.IH [OF k] Cons.prems(2) by (simp add: c)
  qed
qed simp

text \<open>
  C22. The table of a head-to-head league is determined by its results: whatever gameweeks are settled, in whatever
  order and however often, every counter of every member stays the sum over the finished league fixtures, so
  that three points go with a win and one with a draw, and every match played is counted once for each of its
  sides. A finished fixture is never played again, and the gameweeks settled have no open fixture left.
\<close>

theorem h2h_table_follows_results:
  assumes "keys_ok db" "table_ok L db" "db' = settle_season L calls db"
  shows "table_ok L db' \<and>
    (\<forall>m \<in> set (ld_members db'). lm_leagueId m = L \<longrightarrow> lm_h2hPoints m = 3 * lm_matchesWon m + lm_matchesDrawn m \<and>
      lm_matchesWon m + lm_matchesDrawn m + lm_matchesLost m = (\<Sum>f\<leftarrow>filter (is_result L) (ld_fixtures db'). appearances (lm_id m) f)) \<and>
    {f \<in> set (ld_fixtures db). lf_isFinished f} \<subseteq> set (ld_fixtures db') \<and>
    (\<forall>(gw, u) \<in> set calls. open_fixtures db' L gw = [])"
proof (intro conjI)
  show t: "table_ok L db'" and "{f \<in> set (ld_fixtures db). lf_isFinished f} \<subseteq> set (ld_fixtures db')"
    using settle_season_keeps [OF assms(1)] assms(2,3) by simp_all
  show "\<forall>m \<in> set (ld_members db'). lm_leagueId m = L \<longrightarrow> lm_h2hPoints m = 3 * lm_matchesWon m + lm_matchesDrawn m \<and>
      lm_matchesWon m + lm_matchesDrawn m + lm_matchesLost m = (\<Sum>f\<leftarrow>filter (is_result L) (ld_fixtures db'). appearances (lm_id m) f)"
    using table_ok_member [OF t] by simp
  show "\<forall>(gw, u) \<in> set calls. open_fixtures db' L gw = []"
    using settle_season_closes [OF assms(1)] assms(3) by auto
qed

text \<open>The two members of \<open>demo_h2h\<close> over two gameweeks: one win, then a draw.\<close>

definition demo_season :: league_db where
  "demo_season = (projr (transitionStatus demo_h2h ''L'' ACTIVE demo_h2h))
     \<lparr>ld_squadScores := [(''sa'', 1, 50), (''sb'', 1, 40), (''sa'', 2, 30), (''sb'', 2, 30)],
      ld_leagueScores := [(''L'', ''sa'', 1, 20), (''L'', ''sb'', 1, 35)]\<rparr>"

lemma demo_season_ok: "keys_ok demo_season" "table_ok ''L'' demo_season"
proof -
  show "keys_ok demo_season" by code_simp
  have "filter (is_result ''L'') (ld_fixtures demo_season) = []" by code_simp
  moreover have "list_all (\<lambda>m. lm_matchesWon m = 0 \<and> lm_matchesDrawn m = 0 \<and> lm_matchesLost m = 0 \<and> lm_pointsFor m = 0
      \<and> lm_pointsAgainst m = 0 \<and> lm_h2hPoints m = 0) (ld_members demo_season)" by code_simp
  ultimately show "table_ok ''L'' demo_season"
    by (simp add: table_ok_def results_sum_def list_all_iff all_stats)
qed

theorem h2h_table_follows_results_witness:
  "table_ok ''L'' (settle_season ''L'' [(1, False), (2, False), (1, True)] demo_season)
   \<and> map lm_h2hPoints (ld_members (settle_season ''L'' [(1, False), (2, False), (1, True)] demo_season)) = [4, 1]"
proof
  show "table_ok ''L'' (settle_season ''L'' [(1, False), (2, False), (1, True)] demo_season)"
    using h2h_table_follows_results [OF demo_season_ok refl] by blast
qed code_simp

subsection \<open>The stored ranks\<close>

interpretation h2h_table: comparator h2h_order
  unfolding h2h_order_def by (intro comparator_intros)

lemma map_enumerate_fst: "map (\<lambda>(i, e). f i) (enumerate n xs) = map f [n..<n + length xs]"
proof -
  have "map (\<lambda>(i, e). f i) (enumerate n xs) = map f (map fst (enumerate n xs))" by (simp only: split_def map_map o_def)
  then show ?thesis by (simp only: map_fst_enumerate)
qed

lemma h2h_order_rank [simp]: "h2h_order (e\<lparr>he_rank := r\<rparr>) (e'\<lparr>he_rank := r'\<rparr>) = h2h_order e e'"
  by (simp add: h2h_order_def js_or_def desc_def)

lemma sorted_enumerate_rank:
  "sorted_wrt (\<lambda>x y. h2h_order x y \<le> 0) xs \<Longrightarrow>
   sorted_wrt (\<lambda>x y. h2h_order x y \<le> 0) (map (\<lambda>(idx, e). e\<lparr>he_rank := int idx + 1\<rparr>) (enumerate n xs))"
proof (induction xs arbitrary: n)
  case (Cons x xs)
  have "snd p \<in> set xs" if "p \<in> set (enumerate (Suc n) xs)" for p
    using that by (metis imageI list.set_map map_snd_enumerate)
  then have "h2h_order (x\<lparr>he_rank := r\<rparr>) ((snd p)\<lparr>he_rank := r'\<rparr>) \<le> 0" if "p \<in> set (enumerate (Suc n) xs)" for p r r'
    using Cons.prems that by simp
  then show ?case using Cons by (auto simp: split_def)
qed simp

lemma sortH2HStandings_ranked:
  "map he_rank (sortH2HStandings es) = map (\<lambda>i. int i + 1) [0..<length es]"
  "sorted_wrt (\<lambda>x y. h2h_order x y \<le> 0) (sortH2HStandings es)"
proof -
  let ?ys = "js_sort h2h_order (map (\<lambda>e. e\<lparr>he_pointsDifference := he_pointsFor e - he_pointsAgainst e\<rparr>) es)"
  show "map he_rank (sortH2HStandings es) = map (\<lambda>i. int i + 1) [0..<length es]"
    using map_enumerate_fst [of "\<lambda>i. int i + 1" 0 ?ys] by (simp add: sortH2HStandings_def o_def split_def)
  show "sorted_wrt (\<lambda>x y. h2h_order x y \<le> 0) (sortH2HStandings es)"
    unfolding sortH2HStandings_def by (intro sorted_enumerate_rank h2h_table.sorted_js_sort)
qed

lemma set_rank_rank: "(lm_id m, r) \<in> set rs \<Longrightarrow> distinct (map fst rs) \<Longrightarrow> lm_rank (set_rank rs m) = Some r"
  by (simp add: set_rank_def)

lemma store_ranks_correct:
  fixes L :: string
  assumes "distinct (map lm_id (ld_members d))"
  defines "table \<equiv> \<lambda>x. sortH2HStandings (map h2h_entry_of (active_members x L))"
  shows "table (store_ranks L d) = table d"
    "m \<in> set (active_members (store_ranks L d) L) \<Longrightarrow> \<exists>e \<in> set (table d). he_memberId e = lm_id m \<and> lm_rank m = Some (he_rank e)"
proof -
  note e = store_ranks_eq [OF assms(1), of L, folded table_def]
  have am: "active_members (store_ranks L d) L = map (set_rank (rank_list (table d))) (active_members d L)"
    by (simp add: e active_members_def filter_map o_def table_def)
  then show "table (store_ranks L d) = table d" by (simp add: table_def o_def)
  assume "m \<in> set (active_members (store_ranks L d) L)"
  then obtain n where n: "n \<in> set (active_members d L)" "m = set_rank (rank_list (table d)) n" by (auto simp: am)
  then have "lm_id n \<in> set (map he_memberId (table d))" using h2h_standings_ids(2) [OF assms(1), of L] by (auto simp: table_def)
  then obtain en where en: "en \<in> set (table d)" "he_memberId en = lm_id n" by auto
  have "lm_rank m = Some (he_rank en)" unfolding n(2)
    using en h2h_standings_ids(1) [OF assms(1), of L] by (intro set_rank_rank) (force simp: rank_list_def table_def o_def)+
  then show "\<exists>e \<in> set (table d). he_memberId e = lm_id m \<and> lm_rank m = Some (he_rank e)" using en n(2) by auto
qed

text \<open>
  Settling a gameweek stores the official table: afterwards \<open>getH2HStandings\<close> lists every active member once,
  ordered by points, goals for and goal difference, ranked from one, and the rank on the row of each member is the rank
  in that list.
\<close>

theorem settled_ranks_are_the_table:
  assumes "keys_ok db" "findLeague db L = Some l" "lg_scoringType l = HEAD_TO_HEAD" "open_fixtures db L gw \<noteq> []"
    "db' = fst (settleH2HGameweek db L gw u)"
  shows "\<exists>table. getH2HStandings db' L = Inr table \<and> map he_rank table = map (\<lambda>i. int i + 1) [0..<length (active_members db' L)] \<and>
    sorted_wrt (\<lambda>x y. h2h_order x y \<le> 0) table \<and> mset (map he_memberId table) = mset (map lm_id (active_members db' L)) \<and>
    (\<forall>m \<in> set (active_members db' L). \<exists>e \<in> set table. he_memberId e = lm_id m \<and> lm_rank m = Some (he_rank e))"
proof -
  define d where "d = foldl (settle_match (member_points db L gw u)) db (open_fixtures db L gw)"
  have db': "db' = store_ranks L d" using assms(4,5) by (simp add: settleH2HGameweek_def d_def Let_def)
  have "distinct (map lm_id (ld_members d))"
    using settle_loop_open(1) [OF assms(1), where L = L and gw = gw and points = "member_points db L gw u"] by (simp add: keys_ok_def d_def)
  then have r: "m \<in> set (active_members db' L) \<Longrightarrow> \<exists>e \<in> set (sortH2HStandings (map h2h_entry_of (active_members db' L))).
      he_memberId e = lm_id m \<and> lm_rank m = Some (he_rank e)" for m
    using store_ranks_correct [of d] db' by metis
  have "findLeague db' L = Some l" using settle_effect(5) [OF assms(1)] assms(2,5) by (simp add: findLeague_def)
  then have "getH2HStandings db' L = Inr (sortH2HStandings (map h2h_entry_of (active_members db' L)))"
    using assms(3) by (simp add: getH2HStandings_def)
  then show ?thesis using r standings_mset sortH2HStandings_ranked
    by (intro exI conjI ballI) (assumption, simp_all only: length_map)
qed

theorem settled_ranks_are_the_table_witness:
  "\<exists>table. getH2HStandings (fst (settleH2HGameweek demo_season ''L'' 1 False)) ''L'' = Inr table \<and> map he_rank table = [1, 2]
     \<and> map (\<lambda>m. (lm_id m, lm_rank m)) (ld_members (fst (settleH2HGameweek demo_season ''L'' 1 False))) = [(''ma'', Some 1), (''mb'', Some 2)]"
proof -
  let ?l = "the (findLeague demo_season ''L'')" and ?d = "fst (settleH2HGameweek demo_season ''L'' 1 False)"
  have "findLeague demo_season ''L'' \<noteq> None" by code_simp
  then have l: "findLeague demo_season ''L'' = Some ?l" by simp
  have t: "lg_scoringType ?l = HEAD_TO_HEAD" and f: "open_fixtures demo_season ''L'' 1 \<noteq> []"
    and n: "map (\<lambda>i. int i + 1) [0..<length (active_members ?d ''L'')] = [1, 2]"
    and r: "map (\<lambda>m. (lm_id m, lm_rank m)) (ld_members ?d) = [(''ma'', Some 1), (''mb'', Some 2)]" by code_simp+
  from settled_ranks_are_the_table [OF demo_season_ok(1) l t f refl, of False] n r show ?thesis by metis
qed

text \<open>
  C23. The first settlement of a gameweek decides it: settling it again, with or without league scoring, changes
  nothing. A retried job does not count a match twice; and in a league with custom scoring the call of the event
  handler, which uses the global scores, leaves nothing for the later call of the job with the league's own scores.
\<close>

theorem first_settlement_decides:
  assumes "keys_ok db"
  shows "settleH2HGameweek (fst (settleH2HGameweek db L gw u)) L gw v = (fst (settleH2HGameweek db L gw u), 0)"
  by (rule settle_closed [OF settle_closes [OF assms]])

text \<open>In \<open>demo_season\<close> the league's own scores would make the other side win.\<close>

theorem first_settlement_decides_witness:
  "settleH2HGameweek (fst (settleH2HGameweek demo_season ''L'' 1 False)) ''L'' 1 True = (fst (settleH2HGameweek demo_season ''L'' 1 False), 0)
   \<and> map lm_h2hPoints (ld_members (fst (settleH2HGameweek demo_season ''L'' 1 False))) = [3, 0]
   \<and> map lm_h2hPoints (ld_members (fst (settleH2HGameweek demo_season ''L'' 1 True))) = [0, 3]"
proof (intro conjI)
  show "settleH2HGameweek (fst (settleH2HGameweek demo_season ''L'' 1 False)) ''L'' 1 True = (fst (settleH2HGameweek demo_season ''L'' 1 False), 0)"
    by (rule first_settlement_decides [OF demo_season_ok(1)])
qed code_simp+

end
