(* ===== verification/Playoffs.thy ===== *)
theory Playoffs
  imports League_Tables
begin

text \<open>
  The playoffs of a head-to-head league (\<open>leagueService.ts\<close>: \<open>computeBracketSize\<close>, \<open>seedPlayoffPairings\<close>,
  \<open>resolvePlayoffWinner\<close>, \<open>generatePlayoffBracket\<close>, \<open>advancePlayoffRound\<close>) and the decision of the
  settlement job that drives them (\<open>jobs/gameweekSettlement.ts\<close>, \<open>resolvePlayoffAction\<close>).

  The main result is that a bracket, once generated, ends: settling and advancing one gameweek after another
  crowns a champion in the last gameweek of the league.
\<close>

section \<open>The bracket\<close>

text \<open>
  The halving loop of \<open>computeBracketSize\<close>, from 8. The code halves numbers and goes below one for an empty
  league; every size below two counts as none, so halving integers gives the same answer.
\<close>

function bracket_loop :: "nat \<Rightarrow> nat \<Rightarrow> nat" where
  "bracket_loop sz n = (if sz > n \<and> 0 < sz then bracket_loop (sz div 2) n else sz)"
  by pat_completeness auto
termination by (relation "measure fst") auto

declare bracket_loop.simps [simp del]

definition computeBracketSize :: "nat \<Rightarrow> nat" where
  "computeBracketSize memberCount = (let sz = bracket_loop 8 memberCount in if sz \<ge> 2 then sz else 0)"

definition seedPlayoffPairings :: "string list \<Rightarrow> (string \<times> string) list" where
  "seedPlayoffPairings ids = map (\<lambda>i. (ids ! i, ids ! (length ids - 1 - i))) [0..<(length ids + 1) div 2]"

definition member_metrics :: "league_member \<Rightarrow> int list" where
  "member_metrics m = [lm_h2hPoints m, lm_pointsFor m, lm_pointsFor m - lm_pointsAgainst m, lm_matchesWon m]"

fun better_metrics :: "int list \<Rightarrow> int list \<Rightarrow> bool option" where
  "better_metrics (h # hs) (a # as) = (if h \<noteq> a then Some (h > a) else better_metrics hs as)"
| "better_metrics _ _ = None"

definition resolvePlayoffWinner :: "league_fixture \<Rightarrow> (string \<times> league_member) list \<Rightarrow> string" where
  "resolvePlayoffWinner f members =
     (let homeScore = (case lf_homeScore f of None \<Rightarrow> 0 | Some s \<Rightarrow> s);
          awayScore = (case lf_awayScore f of None \<Rightarrow> 0 | Some s \<Rightarrow> s);
          away = the (lf_away f)
      in if homeScore \<noteq> awayScore then (if homeScore > awayScore then lf_home f else away)
         else (case (map_of members (lf_home f), map_of members away) of
                 (Some h, Some a) \<Rightarrow>
                   (case better_metrics (member_metrics h) (member_metrics a) of
                      None \<Rightarrow> lf_home f
                    | Some home_better \<Rightarrow> if home_better then lf_home f else away)
               | _ \<Rightarrow> lf_home f))"

definition playoff_fixture :: "string \<Rightarrow> int \<Rightarrow> nat \<Rightarrow> nat \<times> string \<times> string \<Rightarrow> nat \<Rightarrow> league_fixture" where
  "playoff_fixture leagueId gameweekId rnd p i =
     (case p of (slot, home, away) \<Rightarrow>
       \<lparr>lf_id = i, lf_leagueId = leagueId, lf_gameweekId = gameweekId, lf_home = home, lf_away = Some away,
        lf_homeScore = None, lf_awayScore = None, lf_isFinished = False, lf_isPlayoff = True, lf_playoffRound = Some rnd,
        lf_playoffSlot = Some slot, lf_isCup = False\<rparr>)"

text \<open>The transaction of both operations: unfinished league fixtures of the gameweek make room for the round.\<close>

definition replace_fixtures :: "string \<Rightarrow> int \<Rightarrow> nat \<Rightarrow> (string \<times> string) list \<Rightarrow> league_db \<Rightarrow> table_error + league_db" where
  "replace_fixtures leagueId gameweekId rnd pairings db =
     (case insert_fixtures (map (playoff_fixture leagueId gameweekId rnd) (enumerate 0 pairings))
             (db\<lparr>ld_fixtures := filter (\<lambda>f. \<not> (lf_leagueId f = leagueId \<and> lf_gameweekId f = gameweekId
                  \<and> \<not> lf_isFinished f \<and> \<not> lf_isCup f)) (ld_fixtures db)\<rparr>) of
        Inl _ \<Rightarrow> Inl TableUniqueViolation
      | Inr db' \<Rightarrow> Inr db')"

fun log2_nat :: "nat \<Rightarrow> nat" where
  "log2_nat n = (if n < 2 then 0 else Suc (log2_nat (n div 2)))"

declare log2_nat.simps [simp del]

definition generatePlayoffBracket ::
  "league_db \<Rightarrow> string \<Rightarrow> table_error + (league_db \<times> int \<times> nat \<times> (string \<times> string) list)" where
  "generatePlayoffBracket db leagueId =
     (case findLeague db leagueId of
        None \<Rightarrow> Inl (TableLeagueNotFound leagueId)
      | Some league \<Rightarrow>
          if lg_scoringType league \<noteq> HEAD_TO_HEAD then Inl NotHeadToHead
          else
            res_bind (getH2HStandings db leagueId) (\<lambda>standings.
            (let bracketSize = computeBracketSize (length standings)
             in if bracketSize < 2 then Inl TooFewForPlayoffs
                else
                  (let gameweekId = lg_endGameweekId league - int (log2_nat bracketSize) + 1;
                       pairings = seedPlayoffPairings (map he_memberId (js_slice 0 bracketSize standings))
                   in res_bind (replace_fixtures leagueId gameweekId 1 pairings db) (\<lambda>db'.
                      Inr (db', gameweekId, bracketSize, pairings))))))"

datatype playoff_result = Champion string | NextRound int nat "(string \<times> string) list"

definition playoff_round :: "league_db \<Rightarrow> string \<Rightarrow> int \<Rightarrow> league_fixture list" where
  "playoff_round db leagueId gameweekId =
     filter (\<lambda>f. lf_leagueId f = leagueId \<and> lf_gameweekId f = gameweekId \<and> lf_isPlayoff f) (ld_fixtures db)"

definition by_playoff_slot :: "league_fixture cmp" where
  "by_playoff_slot = asc (\<lambda>f. of_nat (case lf_playoffSlot f of None \<Rightarrow> 0 | Some s \<Rightarrow> s))"

definition tied_members :: "league_db \<Rightarrow> league_fixture list \<Rightarrow> (string \<times> league_member) list" where
  "tied_members db fs =
     (let ids = concat (map (\<lambda>f. lf_home f # (case lf_away f of None \<Rightarrow> [] | Some a \<Rightarrow> [a]))
            (filter (\<lambda>f. score_or_zero (lf_homeScore f) = score_or_zero (lf_awayScore f)) fs))
      in js_map (map (\<lambda>m. (lm_id m, m)) (filter (\<lambda>m. lm_id m \<in> set ids) (ld_members db))))"

definition advancePlayoffRound :: "league_db \<Rightarrow> string \<Rightarrow> int \<Rightarrow> table_error + (league_db \<times> playoff_result)" where
  "advancePlayoffRound db leagueId completedGameweekId =
     (let fixtures = playoff_round db leagueId completedGameweekId
      in if fixtures = [] then Inl NoPlayoffFixtures
         else if list_ex (\<lambda>f. \<not> lf_isFinished f) fixtures then Inl PlayoffsNotSettled
         else
           (let bySlot = js_sort by_playoff_slot fixtures;
                winners = map (\<lambda>f. resolvePlayoffWinner f (tied_members db bySlot)) bySlot
            in if length winners = 1 then Inr (db, Champion (hd winners))
               else
                 (let rnd = (case lf_playoffRound (hd fixtures) of None \<Rightarrow> 1 | Some r \<Rightarrow> r) + 1;
                      gameweekId = completedGameweekId + 1;
                      pairings = seedPlayoffPairings winners
                  in res_bind (replace_fixtures leagueId gameweekId rnd pairings db) (\<lambda>db'.
                     Inr (db', NextRound gameweekId rnd pairings)))))"

datatype playoff_action = No_action | Generate | Advance

definition resolvePlayoffAction :: "int \<Rightarrow> nat \<Rightarrow> int \<Rightarrow> playoff_action" where
  "resolvePlayoffAction endGameweekId activeMemberCount gameweekId =
     (let bracketSize = computeBracketSize activeMemberCount
      in if bracketSize < 2 then No_action
         else
           (let first = endGameweekId - int (log2_nat bracketSize) + 1
            in if gameweekId = first - 1 then Generate
               else if first \<le> gameweekId \<and> gameweekId \<le> endGameweekId then Advance
               else No_action))"

section \<open>The size of the bracket\<close>

lemma computeBracketSize_cases:
  "computeBracketSize n = (if n < 2 then 0 else if n < 4 then 2 else if n < 8 then 4 else 8)"
proof -
  have "bracket_loop (Suc 0) n = Suc 0 \<or> bracket_loop (Suc 0) n = 0"
    by (simp add: bracket_loop.simps [of "Suc 0"] bracket_loop.simps [of 0])
  then show ?thesis
    by (auto simp: computeBracketSize_def Let_def bracket_loop.simps [of 8] bracket_loop.simps [of 4] bracket_loop.simps [of 2])
qed

lemma log2_nat_values: "log2_nat 2 = 1" "log2_nat 4 = 2" "log2_nat 8 = 3"
  by (simp_all add: log2_nat.simps)

section \<open>One round\<close>

lemma resolvePlayoffWinner_side:
  "lf_away f = Some a \<Longrightarrow> resolvePlayoffWinner f ms \<in> {lf_home f, a}"
  by (simp add: resolvePlayoffWinner_def Let_def split: option.split)

text \<open>The pairs of a seeding are disjoint, so any choice of a winner in each is a list of distinct members.\<close>

lemma seedPlayoffPairings_nth:
  assumes "length ids = 2 * n" "i < n"
  shows "seedPlayoffPairings ids ! i = (ids ! i, ids ! (2 * n - 1 - i))"
  using assms by (simp add: seedPlayoffPairings_def)

lemma length_seedPlayoffPairings: "length ids = 2 * n \<Longrightarrow> length (seedPlayoffPairings ids) = n"
  by (simp add: seedPlayoffPairings_def)

lemma choice_distinct:
  assumes "distinct ids" "length ids = 2 * n" "length ws = n"
    and w: "\<And>i. i < n \<Longrightarrow> ws ! i \<in> {fst (seedPlayoffPairings ids ! i), snd (seedPlayoffPairings ids ! i)}"
  shows "distinct ws" "set ws \<subseteq> set ids"
proof -
  have c: "\<exists>k < 2 * n. ws ! i = ids ! k \<and> (k = i \<or> k = 2 * n - 1 - i)" if "i < n" for i
  proof -
    have "ws ! i = ids ! i \<or> ws ! i = ids ! (2 * n - 1 - i)"
      using w [OF that] seedPlayoffPairings_nth [OF assms(2) that] by auto
    moreover have "i < 2 * n" "2 * n - 1 - i < 2 * n" using that by auto
    ultimately show ?thesis by blast
  qed
  show "distinct ws"
    unfolding distinct_conv_nth
  proof (intro allI impI)
    fix i j assume ij: "i < length ws" "j < length ws" "i \<noteq> j"
    obtain k where k: "k < 2 * n" "ws ! i = ids ! k" "k = i \<or> k = 2 * n - 1 - i" using c [of i] ij assms(3) by auto
    obtain l where l: "l < 2 * n" "ws ! j = ids ! l" "l = j \<or> l = 2 * n - 1 - j" using c [of j] ij assms(3) by auto
    have "k \<noteq> l" using k(3) l(3) ij assms(3) by auto
    then show "ws ! i \<noteq> ws ! j" using k l assms(1,2) by (simp add: nth_eq_iff_index_eq)
  qed
  show "set ws \<subseteq> set ids"
  proof
    fix x assume "x \<in> set ws"
    then obtain i where "i < n" "x = ws ! i" using assms(3) by (auto simp: in_set_conv_nth)
    then show "x \<in> set ids" using c [of i] assms(2) by auto
  qed
qed

lemma seedPlayoffPairings_homes:
  assumes "distinct ids" "length ids = 2 * n"
  shows "distinct (map fst (seedPlayoffPairings ids))"
    "(h, a) \<in> set (seedPlayoffPairings ids) \<Longrightarrow> h \<in> set ids \<and> a \<in> set ids"
proof -
  have "map fst (seedPlayoffPairings ids) = take n ids"
    using assms(2) by (intro nth_equalityI) (simp_all add: length_seedPlayoffPairings seedPlayoffPairings_nth)
  then show "distinct (map fst (seedPlayoffPairings ids))" using assms(1) by simp
  assume "(h, a) \<in> set (seedPlayoffPairings ids)"
  then show "h \<in> set ids \<and> a \<in> set ids" using assms(2) by (auto simp: seedPlayoffPairings_def)
qed

text \<open>
  The state between two rounds: the playoff fixtures of the gameweek are those of the seeding, in slot order and all
  open; nothing is settled yet in the gameweeks to come.
\<close>

definition ahead_clear :: "league_db \<Rightarrow> string \<Rightarrow> int \<Rightarrow> bool" where
  "ahead_clear db L gw \<longleftrightarrow>
     (\<forall>f \<in> set (ld_fixtures db). lf_id f < ld_nextId db \<and> (lf_isCup f \<longrightarrow> \<not> lf_isPlayoff f) \<and>
        (lf_leagueId f = L \<and> gw \<le> lf_gameweekId f \<and> \<not> lf_isCup f \<longrightarrow> \<not> lf_isFinished f))"

definition round_of :: "string list \<Rightarrow> league_fixture list \<Rightarrow> bool" where
  "round_of ids fs \<longleftrightarrow>
     map (\<lambda>f. (lf_home f, lf_away f)) fs = map (\<lambda>(h, a). (h, Some a)) (seedPlayoffPairings ids) \<and>
     map lf_playoffSlot fs = map Some [0..<length fs]"

definition bracket_at :: "league_db \<Rightarrow> string \<Rightarrow> int \<Rightarrow> string list \<Rightarrow> bool" where
  "bracket_at db L gw ids \<longleftrightarrow> keys_ok db \<and> ahead_clear db L gw \<and> round_of ids (playoff_round db L gw)"

definition round_fixtures :: "string \<Rightarrow> int \<Rightarrow> nat \<Rightarrow> nat \<Rightarrow> (string \<times> string) list \<Rightarrow> league_fixture list" where
  "round_fixtures L gw rnd next pairings =
     map (\<lambda>(i, f). f i) (enumerate next (map (playoff_fixture L gw rnd) (enumerate 0 pairings)))"

lemma round_fixtures_nth:
  "i < length ps \<Longrightarrow> round_fixtures L gw rnd n ps ! i = playoff_fixture L gw rnd (i, ps ! i) (n + i)"
  by (simp add: round_fixtures_def nth_enumerate_eq)

lemma length_round_fixtures [simp]: "length (round_fixtures L gw rnd n ps) = length ps"
  by (simp add: round_fixtures_def)

lemma round_fixtures_member:
  assumes "f \<in> set (round_fixtures L gw rnd n ps)"
  shows "lf_leagueId f = L" "lf_gameweekId f = gw" "\<not> lf_isFinished f" "lf_isPlayoff f" "\<not> lf_isCup f"
    "n \<le> lf_id f" "lf_id f < n + length ps" "\<exists>h a. (h, a) \<in> set ps \<and> lf_home f = h \<and> lf_away f = Some a"
proof -
  obtain i where i: "i < length ps" "f = playoff_fixture L gw rnd (i, ps ! i) (n + i)"
    using assms by (auto simp: in_set_conv_nth round_fixtures_nth)
  obtain h a where p: "ps ! i = (h, a)" by (cases "ps ! i")
  then have "(h, a) \<in> set ps" using i(1) by (metis nth_mem)
  then show "lf_leagueId f = L" "lf_gameweekId f = gw" "\<not> lf_isFinished f" "lf_isPlayoff f" "\<not> lf_isCup f"
    "n \<le> lf_id f" "lf_id f < n + length ps" "\<exists>h a. (h, a) \<in> set ps \<and> lf_home f = h \<and> lf_away f = Some a"
    using i p by (auto simp: playoff_fixture_def)
qed

lemma round_fixtures_maps:
  "map lf_home (round_fixtures L gw rnd n ps) = map fst ps"
  "map lf_id (round_fixtures L gw rnd n ps) = [n..<n + length ps]"
  "map (\<lambda>f. (lf_home f, lf_away f)) (round_fixtures L gw rnd n ps) = map (\<lambda>(h, a). (h, Some a)) ps"
  "map lf_playoffSlot (round_fixtures L gw rnd n ps) = map Some [0..<length ps]"
  by (rule nth_equalityI; simp add: round_fixtures_nth playoff_fixture_def split: prod.splits)+

lemma replace_fixtures_ok:
  assumes k: "keys_ok db" and c: "ahead_clear db L gw" and d: "distinct ids" "length ids = 2 * n" "[] \<notin> set ids"
  shows "\<exists>db'. replace_fixtures L gw rnd (seedPlayoffPairings ids) db = Inr db' \<and> bracket_at db' L gw ids \<and>
    ld_members db' = ld_members db \<and> ld_leagues db' = ld_leagues db"
proof -
  let ?ps = "seedPlayoffPairings ids"
  let ?new = "round_fixtures L gw rnd (ld_nextId db) ?ps"
  let ?old = "filter (\<lambda>f. \<not> (lf_leagueId f = L \<and> lf_gameweekId f = gw \<and> \<not> lf_isFinished f \<and> \<not> lf_isCup f)) (ld_fixtures db)"
  let ?db = "db\<lparr>ld_fixtures := ?old @ ?new, ld_nextId := ld_nextId db + length ?ps\<rparr>"
  note m = round_fixtures_member
  have old: "\<not> (lf_leagueId f = L \<and> lf_gameweekId f = gw \<and> \<not> lf_isCup f)" if "f \<in> set ?old" for f
    using that c by (auto simp: ahead_clear_def)
  have "distinct (map lf_home ?new)" unfolding round_fixtures_maps(1) by (rule seedPlayoffPairings_homes(1) [OF d(1,2)])
  then have dk: "distinct (map fixture_key ?new)" by (auto simp: distinct_map fixture_key_def inj_on_def)
  have nk: "list_all (\<lambda>f. fixture_key f \<notin> set (map fixture_key ?old)) ?new"
    unfolding list_all_iff using old m by (auto simp: fixture_key_def)
  have r: "replace_fixtures L gw rnd ?ps db = Inr ?db"
    using dk nk by (simp add: replace_fixtures_def insert_fixtures_def Let_def round_fixtures_def [symmetric])
  have ids: "distinct (map lf_id (?old @ ?new))"
  proof -
    have "distinct (map lf_id ?old)" using k by (simp add: keys_ok_def fixtures_ok_def distinct_map_filter)
    moreover have "lf_id f < ld_nextId db" if "f \<in> set ?old" for f using that c by (simp add: ahead_clear_def)
    ultimately show ?thesis by (fastforce simp: round_fixtures_maps(2))
  qed
  have "lf_away f \<noteq> Some []" if "f \<in> set ?new" for f
    using m(8) [OF that] seedPlayoffPairings_homes(2) [OF d(1,2)] d(3) by auto
  then have aw: "list_all (\<lambda>f. lf_away f \<noteq> Some []) (?old @ ?new)"
    using k by (auto simp: keys_ok_def fixtures_ok_def list_all_iff)
  have pr: "playoff_round ?db L gw = ?new"
  proof -
    have "filter (\<lambda>f. lf_leagueId f = L \<and> lf_gameweekId f = gw \<and> lf_isPlayoff f) ?old = []"
      using old c unfolding filter_empty_conv by (auto simp: ahead_clear_def)
    moreover have "filter (\<lambda>f. lf_leagueId f = L \<and> lf_gameweekId f = gw \<and> lf_isPlayoff f) ?new = ?new"
      using m by (simp add: filter_id_conv)
    ultimately show ?thesis by (simp add: playoff_round_def)
  qed
  have "bracket_at ?db L gw ids"
    using k ids aw pr c m(3,5,7) round_fixtures_maps(3,4)
    by (auto simp: bracket_at_def keys_ok_def fixtures_ok_def round_of_def ahead_clear_def)
  then show ?thesis using r by auto
qed

lemma settled_playoff_round:
  fixes u :: bool
  assumes "bracket_at db L gw ids"
  defines "db' \<equiv> fst (settleH2HGameweek db L gw u)"
  shows "playoff_round db' L gw = map (played (member_points db L gw u)) (playoff_round db L gw)"
    "keys_ok db'" "ahead_clear db' L (gw + 1)"
proof -
  have k: "keys_ok db" and c: "ahead_clear db L gw" using assms(1) by (simp_all add: bracket_at_def)
  note e = settle_effect [OF k, of L gw u, folded db'_def]
  have o: "is_open L gw f \<longleftrightarrow> lf_leagueId f = L \<and> lf_gameweekId f = gw \<and> \<not> lf_isCup f" if "f \<in> set (ld_fixtures db)" for f
    using c that by (auto simp: ahead_clear_def is_open_def)
  let ?h = "\<lambda>f. if is_open L gw f then played (member_points db L gw u) f else f"
  let ?P = "\<lambda>f. lf_leagueId f = L \<and> lf_gameweekId f = gw \<and> lf_isPlayoff f"
  have "playoff_round db' L gw = map ?h (filter ?P (ld_fixtures db))"
    unfolding playoff_round_def e(3) by (simp add: filter_map o_def played_def)
  also have "\<dots> = map (played (member_points db L gw u)) (filter ?P (ld_fixtures db))"
    using o c by (auto simp: ahead_clear_def)
  finally show "playoff_round db' L gw = map (played (member_points db L gw u)) (playoff_round db L gw)"
    by (simp add: playoff_round_def)
  show "keys_ok db'" by (rule e(1))
  show "ahead_clear db' L (gw + 1)"
    using c unfolding ahead_clear_def e(3) by (auto simp: db'_def played_def is_open_def)
qed

interpretation playoff_slots: comparator by_playoff_slot
  unfolding by_playoff_slot_def by (rule comparator_asc)

lemma slots_sorted:
  assumes "map lf_playoffSlot fs = map Some [0..<length fs]"
  shows "js_sort by_playoff_slot fs = fs"
proof (rule playoff_slots.js_sort_id, unfold sorted_wrt_iff_nth_less, intro allI impI)
  have s: "lf_playoffSlot (fs ! i) = Some i" if "i < length fs" for i
    using arg_cong [OF assms, of "\<lambda>xs. xs ! i"] that by simp
  fix i j assume "i < j" "j < length fs"
  then show "by_playoff_slot (fs ! i) (fs ! j) \<le> 0" using s [of i] s [of j] by (simp add: by_playoff_slot_def asc_def)
qed

definition round_winners :: "league_db \<Rightarrow> string \<Rightarrow> int \<Rightarrow> string list" where
  "round_winners db L gw = map (\<lambda>f. resolvePlayoffWinner f (tied_members db (playoff_round db L gw))) (playoff_round db L gw)"

lemma settled_round_winners:
  fixes u :: bool
  assumes b: "bracket_at db L gw ids" and d: "distinct ids" "length ids = 2 * n"
  defines "db' \<equiv> fst (settleH2HGameweek db L gw u)"
  shows "length (round_winners db' L gw) = n" "distinct (round_winners db' L gw)" "set (round_winners db' L gw) \<subseteq> set ids"
proof -
  let ?fs = "playoff_round db L gw" and ?ws = "round_winners db' L gw"
  note pr = settled_playoff_round(1) [OF b, of u, folded db'_def]
  have r: "map (\<lambda>f. (lf_home f, lf_away f)) ?fs = map (\<lambda>(h, a). (h, Some a)) (seedPlayoffPairings ids)"
    using b by (simp add: bracket_at_def round_of_def)
  have len: "length ?fs = n" using arg_cong [OF r, of length] length_seedPlayoffPairings [OF d(2)] by simp
  then show l: "length ?ws = n" by (simp add: round_winners_def pr)
  have w: "?ws ! i \<in> {fst (seedPlayoffPairings ids ! i), snd (seedPlayoffPairings ids ! i)}" if "i < n" for i
  proof -
    have "(lf_home (?fs ! i), lf_away (?fs ! i)) = (fst (seedPlayoffPairings ids ! i), Some (snd (seedPlayoffPairings ids ! i)))"
      using arg_cong [OF r, of "\<lambda>xs. xs ! i"] that len length_seedPlayoffPairings [OF d(2)] by (simp add: split_def)
    then show ?thesis
      using resolvePlayoffWinner_side [of "played (member_points db L gw u) (?fs ! i)"] that len
      by (auto simp: round_winners_def pr)
  qed
  show "distinct ?ws" "set ?ws \<subseteq> set ids" using choice_distinct [OF d l w] by simp_all
qed

lemma advance_settled:
  fixes u :: bool
  assumes b: "bracket_at db L gw ids" and d: "distinct ids" "length ids = 2 * n" "0 < n"
  defines "db' \<equiv> fst (settleH2HGameweek db L gw u)"
  shows "advancePlayoffRound db' L gw =
    (if n = 1 then Inr (db', Champion (hd (round_winners db' L gw)))
     else
       let rnd = (case lf_playoffRound (hd (playoff_round db' L gw)) of None \<Rightarrow> 1 | Some r \<Rightarrow> r) + 1;
           pairings = seedPlayoffPairings (round_winners db' L gw)
       in res_bind (replace_fixtures L (gw + 1) rnd pairings db') (\<lambda>db''. Inr (db'', NextRound (gw + 1) rnd pairings)))"
proof -
  let ?fs = "playoff_round db' L gw"
  note pr = settled_playoff_round(1) [OF b, of u, folded db'_def]
  have l: "length ?fs = n" using settled_round_winners(1) [OF b d(1,2), of u] by (simp add: round_winners_def db'_def)
  then have ne: "?fs \<noteq> []" using d(3) by auto
  have f: "\<not> list_ex (\<lambda>f. \<not> lf_isFinished f) ?fs" by (simp add: pr list_ex_iff)
  have "lf_playoffSlot (played p f) = lf_playoffSlot f" for p f by (simp add: played_def)
  then have "map lf_playoffSlot ?fs = map Some [0..<length ?fs]" using b by (simp add: bracket_at_def round_of_def pr o_def)
  note sl = slots_sorted [OF this]
  show ?thesis
    unfolding advancePlayoffRound_def Let_def sl round_winners_def [symmetric] using ne f settled_round_winners(1) [OF b d(1,2), of u, folded db'_def]
    by simp
qed

lemma playoff_step:
  fixes u :: bool
  assumes b: "bracket_at db L gw ids" and d: "distinct ids" "length ids = 2 * (2 * n)" "0 < n" "[] \<notin> set ids"
  shows "\<exists>db' rnd ws. advancePlayoffRound (fst (settleH2HGameweek db L gw u)) L gw = Inr (db', NextRound (gw + 1) rnd (seedPlayoffPairings ws))
    \<and> bracket_at db' L (gw + 1) ws \<and> distinct ws \<and> length ws = 2 * n \<and> set ws \<subseteq> set ids"
proof -
  let ?d = "fst (settleH2HGameweek db L gw u)"
  let ?ws = "round_winners ?d L gw"
  note w = settled_round_winners [OF b d(1,2), of u]
  have "[] \<notin> set ?ws" using w(3) d(4) by blast
  then obtain db' where "replace_fixtures L (gw + 1) ((case lf_playoffRound (hd (playoff_round ?d L gw)) of None \<Rightarrow> 1 | Some r \<Rightarrow> r) + 1)
      (seedPlayoffPairings ?ws) ?d = Inr db'" "bracket_at db' L (gw + 1) ?ws"
    using replace_fixtures_ok [OF settled_playoff_round(2,3) [OF b, of u] w(2,1)] by blast
  then show ?thesis using advance_settled [OF b d(1,2), of u] d(3) w by (auto simp: Let_def)
qed

section \<open>The playoffs crown a champion\<close>

text \<open>
  The job settles the gameweek and advances the bracket, gameweek after gameweek. The scores of the later gameweeks
  are in the score tables from the start, which is the same as arriving in time: a settlement reads those of its own gameweek.
\<close>

fun play_rounds :: "nat \<Rightarrow> bool \<Rightarrow> league_db \<Rightarrow> string \<Rightarrow> int \<Rightarrow> table_error + (league_db \<times> string)" where
  "play_rounds 0 u db L gw = Inl NoPlayoffFixtures"
| "play_rounds (Suc n) u db L gw =
     (case advancePlayoffRound (fst (settleH2HGameweek db L gw u)) L gw of
        Inl e \<Rightarrow> Inl e
      | Inr (db', Champion c) \<Rightarrow> if n = 0 then Inr (db', c) else Inl NoPlayoffFixtures
      | Inr (db', NextRound gw' _ _) \<Rightarrow> play_rounds n u db' L gw')"

lemma play_rounds_ends:
  assumes "bracket_at db L gw ids" "distinct ids" "length ids = 2 ^ Suc n" "[] \<notin> set ids"
  shows "\<exists>db' c. play_rounds (Suc n) u db L gw = Inr (db', c) \<and> c \<in> set ids"
  using assms
proof (induction n arbitrary: db gw ids)
  case 0
  then have l: "length ids = 2 * 1" by simp
  note w = settled_round_winners [OF 0(1,2) l, of u]
  have "hd (round_winners (fst (settleH2HGameweek db L gw u)) L gw) \<in> set ids"
    using w(1,3) by (metis Suc_length_conv One_nat_def list.sel(1) list.set_intros(1) subsetD)
  then show ?case using advance_settled [OF 0(1,2) l, of u] by simp
next
  case (Suc n)
  have "length ids = 2 * (2 * 2 ^ n)" using Suc.prems(3) by simp
  from playoff_step [OF Suc.prems(1,2) this _ Suc.prems(4), of u]
  obtain db' rnd ws where s: "advancePlayoffRound (fst (settleH2HGameweek db L gw u)) L gw = Inr (db', NextRound (gw + 1) rnd (seedPlayoffPairings ws))"
    "bracket_at db' L (gw + 1) ws" "distinct ws" "length ws = 2 ^ Suc n" "set ws \<subseteq> set ids" by auto
  moreover have "[] \<notin> set ws" using s(5) Suc.prems(4) by blast
  ultimately show ?case using Suc.IH [OF s(2-4)] by auto
qed

lemma bracket_rounds:
  assumes "2 \<le> n"
  obtains k where "log2_nat (computeBracketSize n) = Suc k" "computeBracketSize n = 2 ^ Suc k" "computeBracketSize n \<le> n"
proof (rule that [of "log2_nat (computeBracketSize n) - 1"])
  show "log2_nat (computeBracketSize n) = Suc (log2_nat (computeBracketSize n) - 1)"
    "computeBracketSize n = 2 ^ Suc (log2_nat (computeBracketSize n) - 1)" "computeBracketSize n \<le> n"
    using assms by (auto simp: computeBracketSize_cases log2_nat_values)
qed

lemma length_sortH2HStandings [simp]: "length (sortH2HStandings es) = length es"
  by (simp add: sortH2HStandings_def)

text \<open>
  C24. A head-to-head league with two or more active members gets its champion. The bracket takes the best two, four or
  eight of the table, its first round is in the gameweek the job announces with \<open>Generate\<close> the week before, its last in the
  last gameweek of the league, the job advances it in all of them, and settling and advancing these gameweeks ends with
  one champion, a member seeded into the bracket.
\<close>

theorem playoffs_crown_champion:
  assumes "keys_ok db" "findLeague db L = Some l" "lg_scoringType l = HEAD_TO_HEAD" "2 \<le> length (active_members db L)"
    "list_all (\<lambda>m. lm_id m \<noteq> []) (ld_members db)"
    "n = computeBracketSize (length (active_members db L))" "gw = lg_endGameweekId l - int (log2_nat n) + 1" "ahead_clear db L gw"
  shows "\<exists>db1 pairings db2 c table. getH2HStandings db L = Inr table \<and> generatePlayoffBracket db L = Inr (db1, gw, n, pairings) \<and>
    pairings = seedPlayoffPairings (map he_memberId (take n table)) \<and>
    play_rounds (log2_nat n) u db1 L gw = Inr (db2, c) \<and> c \<in> set (map he_memberId (take n table)) \<and>
    resolvePlayoffAction (lg_endGameweekId l) (length (active_members db L)) (gw - 1) = Generate \<and>
    (\<forall>g \<in> {gw..lg_endGameweekId l}. resolvePlayoffAction (lg_endGameweekId l) (length (active_members db L)) g = Advance)"
proof -
  obtain k where k: "log2_nat n = Suc k" "n = 2 ^ Suc k" "n \<le> length (active_members db L)"
    using bracket_rounds [OF assms(4)] unfolding assms(6) by metis
  define table where "table = sortH2HStandings (map h2h_entry_of (active_members db L))"
  let ?ids = "map he_memberId (take n table)"
  have t: "getH2HStandings db L = Inr table" using assms(2,3) by (simp add: getH2HStandings_def table_def)
  have lt: "length table = length (active_members db L)" by (simp add: table_def)
  have s: "distinct (map he_memberId table)" "set (map he_memberId table) = lm_id ` set (active_members db L)"
    using assms(1) h2h_standings_ids [of db L] unfolding keys_ok_def table_def by blast+
  have d: "distinct ?ids" using s(1) by (metis distinct_take take_map)
  have l: "length ?ids = 2 * 2 ^ k" using k lt by simp
  have "set ?ids \<subseteq> set (map he_memberId table)" by (metis set_take_subset take_map)
  moreover have "[] \<notin> lm_id ` set (active_members db L)" using assms(5) by (force simp: active_members_def list_all_iff)
  ultimately have e: "[] \<notin> set ?ids" using s(2) by blast
  obtain db1 where r: "replace_fixtures L gw 1 (seedPlayoffPairings ?ids) db = Inr db1" "bracket_at db1 L gw ?ids"
    using replace_fixtures_ok [OF assms(1,8) d l e] by blast
  have n2: "2 \<le> n" using k(2) by simp
  have g: "generatePlayoffBracket db L = Inr (db1, gw, n, seedPlayoffPairings ?ids)"
    using assms(2,3,6,7) t r(1) n2 by (simp add: generatePlayoffBracket_def Let_def lt js_slice_def)
  obtain db2 c where p: "play_rounds (Suc k) u db1 L gw = Inr (db2, c)" "c \<in> set ?ids"
    using play_rounds_ends [OF r(2) d _ e, of k u] l by auto
  have a: "resolvePlayoffAction (lg_endGameweekId l) (length (active_members db L)) (gw - 1) = Generate"
    "\<forall>g \<in> {gw..lg_endGameweekId l}. resolvePlayoffAction (lg_endGameweekId l) (length (active_members db L)) g = Advance"
    using n2 assms(7) by (simp_all add: resolvePlayoffAction_def Let_def assms(6) [symmetric])
  show ?thesis unfolding k(1)
    by (intro exI [of _ db1] exI [of _ "seedPlayoffPairings ?ids"] exI [of _ db2] exI [of _ c] exI [of _ table] conjI t g p a refl)
qed

theorem playoffs_crown_champion_witness:
  "\<exists>db1 pairings db2 c. generatePlayoffBracket demo_season ''L'' = Inr (db1, 2, 2, pairings) \<and> play_rounds 1 False db1 ''L'' 2 = Inr (db2, c)"
proof -
  let ?l = "the (findLeague demo_season ''L'')"
  have "findLeague demo_season ''L'' \<noteq> None" by code_simp
  then have l: "findLeague demo_season ''L'' = Some ?l" by simp
  have t: "lg_scoringType ?l = HEAD_TO_HEAD" and a: "2 \<le> length (active_members demo_season ''L'')"
    and i: "list_all (\<lambda>m. lm_id m \<noteq> []) (ld_members demo_season)"
    and g: "2 = lg_endGameweekId ?l - int (log2_nat 2) + 1" and c: "ahead_clear demo_season ''L'' 2" by code_simp+
  have n: "2 = computeBracketSize (length (active_members demo_season ''L''))" by code_simp
  from playoffs_crown_champion [OF demo_season_ok(1) l t a i n g c, of False]
  show ?thesis unfolding log2_nat_values by blast
qed

end
