(* ===== verification/League_Standings.thy ===== *)
theory League_Standings
  imports League_Tables
begin

text \<open>
  The standings of a league over its gameweeks (\<open>leagueService.ts\<close>: \<open>getLeagueStandings\<close>), the bulk recalculation of the
  classic leagues (\<open>recalculateClassicStandings\<close>), the review of suspicious head-to-head results
  (\<open>detectH2HAnomalies\<close>) and the event handler that settles the leagues of a gameweek
  (\<open>services/events/gameweekEventHandlers.ts\<close>, \<open>handleSettleLeagues\<close>).

  User and squad names, which the standings only carry along, are left out.
\<close>

section \<open>Standings\<close>

record standings_entry =
  se_rank :: int
  se_userId :: string
  se_squadId :: string
  se_membershipStatus :: membership_status
  se_totalPoints :: int
  se_bestGameweekPoints :: int
  se_gameweekScores :: "(int \<times> string \<times> int) list"
  se_joinedAt :: int
  se_rankChange :: "int option"

record standings_response =
  sr_league :: "string \<times> string \<times> league_status \<times> rat \<times> rat"
  sr_startGameweek :: "(int \<times> string) option"
  sr_endGameweek :: "(int \<times> string) option"
  sr_standings :: "standings_entry list"
  sr_completedGameweeks :: "(int \<times> string) list"
  sr_prizeDistribution :: prize_distribution

definition league_members :: "league_db \<Rightarrow> string \<Rightarrow> league_member list" where
  "league_members db leagueId = filter (\<lambda>m. lm_leagueId m = leagueId) (ld_members db)"

definition completed_gameweeks :: "league_db \<Rightarrow> league \<Rightarrow> league_gameweek list" where
  "completed_gameweeks db league =
     js_sort (asc (\<lambda>g. of_int (lgw_id g))) (filter (\<lambda>g. lg_startGameweekId league \<le> lgw_id g \<and> lgw_id g \<le> lg_endGameweekId league \<and> lgw_isFinished g) (ld_gameweeks db))"

text \<open>A JSON value in a condition.\<close>

fun json_truthy :: "json \<Rightarrow> bool" where
  "json_truthy JNull = False"
| "json_truthy (JBool b) = b"
| "json_truthy (JNum x) = (x \<noteq> 0)"
| "json_truthy (JStr s) = (s \<noteq> [])"
| "json_truthy _ = True"

definition stored_config :: "league \<Rightarrow> config_error + scoring_config option" where
  "stored_config league =
     (case lg_scoringConfig league of
        None \<Rightarrow> Inr None
      | Some j \<Rightarrow> if json_truthy j then map_sum id Some (parseLeagueScoringConfig j) else Inr None)"

text \<open>The rows of a score table in the window, as squad, gameweek and points.\<close>

definition window_scores :: "league_db \<Rightarrow> string \<Rightarrow> bool \<Rightarrow> string list \<Rightarrow> int \<Rightarrow> int \<Rightarrow> (string \<times> int \<times> int) list" where
  "window_scores db leagueId custom squadIds lo hi =
     filter (\<lambda>(s, g, p). s \<in> set squadIds \<and> lo \<le> g \<and> g \<le> hi)
       (if custom then map snd (filter (\<lambda>(l, r). l = leagueId) (ld_leagueScores db)) else ld_squadScores db)"

definition gameweek_name :: "league_db \<Rightarrow> int \<Rightarrow> string" where
  "gameweek_name db g = (case find_gw db g of None \<Rightarrow> [] | Some w \<Rightarrow> lgw_name w)"

definition js_max :: "int list \<Rightarrow> int" where
  "js_max xs = foldl max (hd xs) (tl xs)"

definition standings_order :: "standings_entry cmp" where
  "standings_order = js_or (desc (\<lambda>e. of_int (se_totalPoints e)))
     (js_or (desc (\<lambda>e. of_int (se_bestGameweekPoints e))) (asc (\<lambda>e. of_int (se_joinedAt e))))"

definition standings_entry_of ::
  "(string \<times> (string \<times> int \<times> int) list) list \<Rightarrow> (int \<Rightarrow> string) \<Rightarrow> int option \<Rightarrow> league_member \<Rightarrow> standings_entry" where
  "standings_entry_of scoresBySquad name throughGameweekId member =
     (let scores = filter (\<lambda>(s, g, p). case throughGameweekId of None \<Rightarrow> True | Some t \<Rightarrow> g \<le> t)
                     (case map_of scoresBySquad (lm_squadId member) of None \<Rightarrow> [] | Some l \<Rightarrow> l)
      in \<lparr>se_rank = 0, se_userId = lm_userId member, se_squadId = lm_squadId member, se_membershipStatus = lm_status member,
          se_totalPoints = sum_list (map (\<lambda>(s, g, p). p) scores),
          se_bestGameweekPoints = (if scores \<noteq> [] then js_max (map (\<lambda>(s, g, p). p) scores) else 0),
          se_gameweekScores = js_sort (asc (\<lambda>(g, n, p). of_int g)) (map (\<lambda>(s, g, p). (g, name g, p)) scores),
          se_joinedAt = lm_joinedAt member, se_rankChange = None\<rparr>)"

definition number_ranks :: "standings_entry list \<Rightarrow> standings_entry list" where
  "number_ranks es = map (\<lambda>(i, e). e\<lparr>se_rank := int i + 1\<rparr>) (enumerate 0 es)"

definition rankAt ::
  "(string \<times> (string \<times> int \<times> int) list) list \<Rightarrow> (int \<Rightarrow> string) \<Rightarrow> league_member list \<Rightarrow> int option \<Rightarrow> standings_entry list" where
  "rankAt scoresBySquad name members throughGameweekId =
     number_ranks (js_sort standings_order (map (standings_entry_of scoresBySquad name throughGameweekId) members))"

definition previous_gameweek :: "int list \<Rightarrow> int \<Rightarrow> int option" where
  "previous_gameweek completed gameweekId =
     (let before = filter (\<lambda>g. g < gameweekId) completed in if before = [] then None else Some (last before))"

definition getLeagueStandings :: "league_db \<Rightarrow> string \<Rightarrow> int option \<Rightarrow> table_error + standings_response" where
  "getLeagueStandings db leagueId gameweekId =
     (case findLeague db leagueId of
        None \<Rightarrow> Inl (TableLeagueNotFound leagueId)
      | Some league \<Rightarrow>
          (let members = league_members db leagueId;
               completed = completed_gameweeks db league
           in if (case gameweekId of None \<Rightarrow> False | Some gw \<Rightarrow> \<not> list_ex (\<lambda>g. lgw_id g = gw) completed) then Inl GameweekNotCompleted
              else
                (case stored_config league of
                   Inl e \<Rightarrow> Inl (TableConfigInvalid e)
                 | Inr config \<Rightarrow>
                     (let previous = (case gameweekId of None \<Rightarrow> None | Some gw \<Rightarrow> previous_gameweek (map lgw_id completed) gw);
                          hi = (case gameweekId of None \<Rightarrow> lg_endGameweekId league | Some gw \<Rightarrow> gw);
                          rows = window_scores db leagueId (config \<noteq> None) (map lm_squadId members) (lg_startGameweekId league) hi;
                          scoresBySquad = group_by fst rows;
                          previousRanks = (case previous of None \<Rightarrow> []
                            | Some p \<Rightarrow> js_map (map (\<lambda>e. (se_userId e, se_rank e)) (rankAt scoresBySquad (gameweek_name db) members (Some p))));
                          standings = map (\<lambda>e. e\<lparr>se_rankChange := map_option (\<lambda>r. r - se_rank e) (map_of previousRanks (se_userId e))\<rparr>)
                            (rankAt scoresBySquad (gameweek_name db) members None)
                      in (case calculatePrizeDistribution (Some (of_int (lg_currentMembers league))) (Some (lg_entryFee league)) no_options of
                            Inl e \<Rightarrow> Inl (TablePrizeFailure e)
                          | Inr d \<Rightarrow>
                              Inr \<lparr>sr_league = (lg_id league, lg_name league, lg_status league, lg_entryFee league, lg_prizePool league),
                                   sr_startGameweek = map_option (\<lambda>g. (lgw_id g, lgw_name g)) (find_gw db (lg_startGameweekId league)),
                                   sr_endGameweek = map_option (\<lambda>g. (lgw_id g, lgw_name g)) (find_gw db (lg_endGameweekId league)),
                                   sr_standings = standings,
                                   sr_completedGameweeks = map (\<lambda>g. (lgw_id g, lgw_name g)) completed,
                                   sr_prizeDistribution = d\<rparr>)))))"

section \<open>Recalculating the classic leagues\<close>

definition squad_totals :: "league_db \<Rightarrow> int \<Rightarrow> (string \<times> int) list" where
  "squad_totals db gameweekId =
     map (\<lambda>(s, rows). (s, sum_list (map (\<lambda>(s, g, p). p) rows))) (group_by fst (filter (\<lambda>(s, g, p). g \<le> gameweekId) (ld_squadScores db)))"

definition total_of :: "(string \<times> int) list \<Rightarrow> league_member \<Rightarrow> int" where
  "total_of totals m = (case map_of totals (lm_squadId m) of None \<Rightarrow> 0 | Some t \<Rightarrow> t)"

definition classic_order :: "(string \<times> int) list \<Rightarrow> league_member cmp" where
  "classic_order totals = js_or (desc (\<lambda>m. of_int (total_of totals m))) (asc (\<lambda>m. of_int (lm_joinedAt m)))"

definition in_classic_active :: "league_db \<Rightarrow> league_member \<Rightarrow> bool" where
  "in_classic_active db m \<longleftrightarrow>
     (case findLeague db (lm_leagueId m) of
        None \<Rightarrow> False
      | Some l \<Rightarrow> lg_scoringType l = CLASSIC \<and> lg_status l = ACTIVE)"

text \<open>The rows of the bulk update: key, total and rank.\<close>

definition classic_updates :: "league_db \<Rightarrow> int \<Rightarrow> (string \<times> int \<times> int) list" where
  "classic_updates db gameweekId =
     (let totals = squad_totals db gameweekId;
          members = filter (\<lambda>m. lm_status m = Member_ACTIVE \<and> in_classic_active db m) (ld_members db)
      in concat (map (\<lambda>(l, ms). map (\<lambda>(i, m). (lm_id m, total_of totals m, int i + 1)) (enumerate 0 (js_sort (classic_order totals) ms)))
           (group_by lm_leagueId members)))"

definition apply_totals :: "(string \<times> int \<times> int) list \<Rightarrow> league_member \<Rightarrow> league_member" where
  "apply_totals updates m =
     (case map_of updates (lm_id m) of None \<Rightarrow> m | Some (t, r) \<Rightarrow> m\<lparr>lm_totalPoints := t, lm_rank := Some r\<rparr>)"

definition recalculateClassicStandings :: "league_db \<Rightarrow> int \<Rightarrow> league_db \<times> nat" where
  "recalculateClassicStandings db gameweekId =
     (let updates = classic_updates db gameweekId
      in (db\<lparr>ld_members := map (apply_totals updates) (ld_members db)\<rparr>, length updates))"

section \<open>Suspicious results\<close>

record suspicious_gameweek =
  sg_gameweekId :: int
  sg_underperformingMemberId :: string
  sg_actualPoints :: int
  sg_expectedPoints :: rat
  sg_opponentPoints :: int

record anomaly_report =
  ar_memberIds :: "string list"
  ar_suspiciousGameweeks :: "suspicious_gameweek list"

definition averageBeforeGameweek :: "league_db \<Rightarrow> (string \<times> league_member) list \<Rightarrow> string \<Rightarrow> int \<Rightarrow> rat option" where
  "averageBeforeGameweek db membersById memberId gameweekId =
     (case map_of membersById memberId of
        None \<Rightarrow> None
      | Some m \<Rightarrow>
          (let priorScores = map (\<lambda>(s, g, p). p) (filter (\<lambda>(s, g, p). s = lm_squadId m \<and> g \<noteq> gameweekId) (ld_squadScores db))
           in if length priorScores < 2 then None else Some (of_int (sum_list priorScores) / of_nat (length priorScores))))"

text \<open>The loser of a fixture against its own average and that of the winner.\<close>

definition judge_loser ::
  "(string \<Rightarrow> int \<Rightarrow> rat option) \<Rightarrow> int \<Rightarrow> string \<times> int \<Rightarrow> string \<times> int \<Rightarrow> suspicious_gameweek option" where
  "judge_loser average gameweekId loser winner =
     (case (average (fst loser) gameweekId, average (fst winner) gameweekId) of
        (Some expected, Some opponentExpected) \<Rightarrow>
          if expected < 40 \<or> expected - of_int (snd loser) < 20 \<or> of_int (snd loser) > expected * (1 / 2)
             \<or> of_int (snd winner) < opponentExpected * (3 / 4) then None
          else Some \<lparr>sg_gameweekId = gameweekId, sg_underperformingMemberId = fst loser, sg_actualPoints = snd loser,
                 sg_expectedPoints = expected, sg_opponentPoints = snd winner\<rparr>
      | _ \<Rightarrow> None)"

definition judge_fixture :: "(string \<Rightarrow> int \<Rightarrow> rat option) \<Rightarrow> league_fixture \<Rightarrow> (string list \<times> suspicious_gameweek) option" where
  "judge_fixture average f =
     (case (lf_away f, lf_homeScore f, lf_awayScore f) of
        (Some away, Some homeScore, Some awayScore) \<Rightarrow>
          map_option (Pair (js_sort str_cmp [lf_home f, away]))
            (if homeScore < awayScore then judge_loser average (lf_gameweekId f) (lf_home f, homeScore) (away, awayScore)
             else if awayScore < homeScore then judge_loser average (lf_gameweekId f) (away, awayScore) (lf_home f, homeScore)
             else None)
      | _ \<Rightarrow> None)"

definition pairKey :: "string list \<Rightarrow> string" where
  "pairKey ids = ids ! 0 @ ''|'' @ ids ! 1"

definition detectH2HAnomalies :: "league_db \<Rightarrow> string \<Rightarrow> anomaly_report list" where
  "detectH2HAnomalies db leagueId =
     (let fixtures = filter (\<lambda>f. lf_leagueId f = leagueId \<and> lf_isFinished f \<and> \<not> lf_isPlayoff f \<and> lf_away f \<noteq> None) (ld_fixtures db);
          members = league_members db leagueId
      in if length fixtures < 2 \<or> length members < 2 then []
         else
           (let average = averageBeforeGameweek db (js_map (map (\<lambda>m. (lm_id m, m)) members));
                flagged = List.map_filter (judge_fixture average) fixtures;
                reports = map (\<lambda>(k, g). \<lparr>ar_memberIds = fst (hd g), ar_suspiciousGameweeks = map snd g\<rparr>)
                  (group_by (pairKey \<circ> fst) flagged)
            in filter (\<lambda>r. length (ar_suspiciousGameweeks r) \<ge> 2) reports))"

section \<open>The handler of the gameweek event\<close>

definition leagues_in_play :: "league_db \<Rightarrow> int \<Rightarrow> league list" where
  "leagues_in_play db gameweekId =
     filter (\<lambda>l. lg_status l = ACTIVE \<and> lg_startGameweekId l \<le> gameweekId \<and> gameweekId \<le> lg_endGameweekId l) (ld_leagues db)"

text \<open>One turn of the loop; an error ends it and keeps what was written before.\<close>

definition settle_league :: "int \<Rightarrow> league_db \<times> league_error option \<Rightarrow> league \<Rightarrow> league_db \<times> league_error option" where
  "settle_league gameweekId st l =
     (case st of
        (db, Some e) \<Rightarrow> (db, Some e)
      | (db, None) \<Rightarrow>
          (let db1 = (if lg_scoringType l = HEAD_TO_HEAD then fst (settleH2HGameweek db (lg_id l) gameweekId False) else db)
           in if lg_endGameweekId l = gameweekId then
                (case transitionStatus db1 (lg_id l) COMPLETED db1 of Inl e \<Rightarrow> (db1, Some e) | Inr db2 \<Rightarrow> (db2, None))
              else (db1, None)))"

definition handleSettleLeagues :: "league_db \<Rightarrow> int \<Rightarrow> league_db \<times> league_error option" where
  "handleSettleLeagues db gameweekId = foldl (settle_league gameweekId) (db, None) (leagues_in_play db gameweekId)"

section \<open>What the standings say\<close>

interpretation league_table: comparator standings_order
  unfolding standings_order_def by (intro comparator_intros)

lemma number_ranks_simps [simp]:
  "length (number_ranks es) = length es" "map se_rank (number_ranks es) = map (\<lambda>i. int i + 1) [0..<length es]"
proof -
  show "length (number_ranks es) = length es" by (simp add: number_ranks_def)
  show "map se_rank (number_ranks es) = map (\<lambda>i. int i + 1) [0..<length es]"
    using map_enumerate_fst [of "\<lambda>i. int i + 1" 0 es] by (simp add: number_ranks_def split_def o_def)
qed

lemma number_ranks_nth: "i < length es \<Longrightarrow> number_ranks es ! i = (es ! i)\<lparr>se_rank := int i + 1\<rparr>"
  by (simp add: number_ranks_def nth_enumerate_eq)

lemma standings_order_update [simp]:
  "standings_order (e\<lparr>se_rank := r\<rparr>) e' = standings_order e e'" "standings_order e (e'\<lparr>se_rank := r\<rparr>) = standings_order e e'"
  "standings_order (e\<lparr>se_rankChange := c\<rparr>) e' = standings_order e e'" "standings_order e (e'\<lparr>se_rankChange := c\<rparr>) = standings_order e e'"
  by (simp_all add: standings_order_def js_or_def desc_def asc_def)

text \<open>The rows of the standings are those of \<open>rankAt\<close>: the entries of the members, sorted and numbered.\<close>

lemma map_number_ranks:
  "(\<And>e r. f (e\<lparr>se_rank := r\<rparr>) = f e) \<Longrightarrow> map f (number_ranks es) = map f es"
  by (intro nth_equalityI) (simp_all add: number_ranks_nth)

lemma sorted_number_ranks:
  "sorted_wrt (\<lambda>x y. standings_order x y \<le> 0) es \<Longrightarrow> sorted_wrt (\<lambda>x y. standings_order x y \<le> 0) (number_ranks es)"
  by (simp add: sorted_wrt_iff_nth_less number_ranks_nth)

lemma map_of_group_fst:
  "(case map_of (group_by fst rows) s of None \<Rightarrow> [] | Some l \<Rightarrow> l) = filter (\<lambda>r. fst r = s) rows"
proof (cases "s \<in> fst ` set rows")
  case False
  then have "filter (\<lambda>r. fst r = s) rows = []" by (force simp: filter_empty_conv)
  with False show ?thesis by (simp add: map_of_group_by)
qed (simp add: map_of_group_by)

text \<open>The points a squad has in the window, in the score table the league uses.\<close>

definition window_total :: "league_db \<Rightarrow> league \<Rightarrow> bool \<Rightarrow> int \<Rightarrow> string \<Rightarrow> int" where
  "window_total db league custom hi squadId =
     (\<Sum>(s, g, p)\<leftarrow>window_scores db (lg_id league) custom [squadId] (lg_startGameweekId league) hi. p)"

lemma filter_window_scores:
  "s \<in> set ids \<Longrightarrow> filter (\<lambda>r. fst r = s) (window_scores db L c ids lo hi) = window_scores db L c [s] lo hi"
  by (auto simp: window_scores_def intro!: filter_cong)

lemma entry_total:
  assumes "lm_squadId m \<in> set ids"
  shows "se_totalPoints (standings_entry_of (group_by fst (window_scores db (lg_id l) c ids (lg_startGameweekId l) hi)) name None m) =
    window_total db l c hi (lm_squadId m)"
  using filter_window_scores [OF assms, of db "lg_id l" c "lg_startGameweekId l" hi]
  by (simp add: standings_entry_of_def Let_def map_of_group_fst window_total_def)

lemma getLeagueStandings_Inr:
  assumes "getLeagueStandings db L gw = Inr r" "findLeague db L = Some l" "stored_config l = Inr cfg"
  shows "\<exists>rc. sr_standings r = map (\<lambda>e. e\<lparr>se_rankChange := rc e\<rparr>)
       (rankAt (group_by fst (window_scores db L (cfg \<noteq> None) (map lm_squadId (league_members db L)) (lg_startGameweekId l)
          (case gw of None \<Rightarrow> lg_endGameweekId l | Some g \<Rightarrow> g))) (gameweek_name db) (league_members db L) None)"
proof -
  have "\<exists>ch. sr_standings r = map (\<lambda>e. e\<lparr>se_rankChange := map_option (\<lambda>r. r - se_rank e) (map_of ch (se_userId e))\<rparr>)
       (rankAt (group_by fst (window_scores db L (cfg \<noteq> None) (map lm_squadId (league_members db L)) (lg_startGameweekId l)
          (case gw of None \<Rightarrow> lg_endGameweekId l | Some g \<Rightarrow> g))) (gameweek_name db) (league_members db L) None)"
    using assms(1) unfolding getLeagueStandings_def assms(2) option.case Let_def assms(3) sum.case
    by (simp split: if_splits sum.splits) (hypsubst, unfold standings_response.select_convs, intro exI, rule refl)
  then show ?thesis by (elim exE) (rule exI)
qed

lemma rankAt_facts:
  fixes scores :: "(string \<times> (string \<times> int \<times> int) list) list" and name :: "int \<Rightarrow> string" and through :: "int option"
  defines "entry \<equiv> standings_entry_of scores name through"
  shows "map se_rank (rankAt scores name ms through) = map (\<lambda>i. int i + 1) [0..<length ms]"
    "sorted_wrt (\<lambda>x y. standings_order x y \<le> 0) (rankAt scores name ms through)"
    "(\<And>e r. f (e\<lparr>se_rank := r\<rparr>) = f e) \<Longrightarrow> mset (map f (rankAt scores name ms through)) = mset (map (f \<circ> entry) ms)"
  unfolding rankAt_def entry_def
  by (simp_all add: sorted_number_ranks league_table.sorted_js_sort map_number_ranks multiset.map_comp)

text \<open>
  The standings of a league list every member once, ranked from one without gaps, ordered by the points in the
  window of the league, then the best gameweek, then the earlier joining date; and the total of an entry is the sum of
  the scores of its squad from the first gameweek of the league to the selected one, in the league's own scores where it has
  custom scoring.
\<close>

theorem league_standings_correct:
  assumes "getLeagueStandings db L gw = Inr r" "findLeague db L = Some l" "stored_config l = Inr cfg"
    "hi = (case gw of None \<Rightarrow> lg_endGameweekId l | Some g \<Rightarrow> g)"
  shows "map se_rank (sr_standings r) = map (\<lambda>i. int i + 1) [0..<length (league_members db L)] \<and>
    sorted_wrt (\<lambda>x y. standings_order x y \<le> 0) (sr_standings r) \<and>
    mset (map (\<lambda>e. (se_userId e, se_squadId e, se_joinedAt e, se_totalPoints e)) (sr_standings r)) =
      mset (map (\<lambda>m. (lm_userId m, lm_squadId m, lm_joinedAt m, window_total db l (cfg \<noteq> None) hi (lm_squadId m))) (league_members db L))"
proof -
  let ?ms = "league_members db L"
  let ?g = "group_by fst (window_scores db L (cfg \<noteq> None) (map lm_squadId ?ms) (lg_startGameweekId l) hi)"
  let ?R = "rankAt ?g (gameweek_name db) ?ms None"
  obtain rc where s: "sr_standings r = map (\<lambda>e. e\<lparr>se_rankChange := rc e\<rparr>) ?R"
    using getLeagueStandings_Inr [OF assms(1-3)] unfolding assms(4) by blast
  have "map se_rank (sr_standings r) = map se_rank ?R" by (simp add: s o_def)
  moreover have "sorted_wrt (\<lambda>x y. standings_order x y \<le> 0) (sr_standings r)"
    using rankAt_facts(2) [of ?g "gameweek_name db" ?ms None] by (simp add: s sorted_wrt_map)
  moreover have "mset (map (\<lambda>e. (se_userId e, se_squadId e, se_joinedAt e, se_totalPoints e)) (sr_standings r)) =
      mset (map (\<lambda>e. (se_userId e, se_squadId e, se_joinedAt e, se_totalPoints e)) ?R)"
    by (simp add: s o_def)
  moreover have "mset (map (\<lambda>e. (se_userId e, se_squadId e, se_joinedAt e, se_totalPoints e)) ?R) =
      mset (map ((\<lambda>e. (se_userId e, se_squadId e, se_joinedAt e, se_totalPoints e)) \<circ> standings_entry_of ?g (gameweek_name db) None) ?ms)"
    by (rule rankAt_facts(3)) simp
  moreover have "map ((\<lambda>e. (se_userId e, se_squadId e, se_joinedAt e, se_totalPoints e)) \<circ> standings_entry_of ?g (gameweek_name db) None) ?ms =
      map (\<lambda>m. (lm_userId m, lm_squadId m, lm_joinedAt m, window_total db l (cfg \<noteq> None) hi (lm_squadId m))) ?ms"
    using entry_total [of _ "map lm_squadId ?ms" db l "cfg \<noteq> None" hi "gameweek_name db"] findLeague_SomeD [OF assms(2), THEN conjunct2]
    by (auto simp: standings_entry_of_def Let_def)
  ultimately show ?thesis by (simp only: rankAt_facts(1))
qed

theorem league_standings_correct_witness:
  "\<exists>r. getLeagueStandings demo_season ''L'' None = Inr r \<and> map se_rank (sr_standings r) = [1, 2] \<and>
     map (\<lambda>e. (se_userId e, se_totalPoints e)) (sr_standings r) = [(''a'', 80), (''b'', 70)]"
proof -
  let ?l = "the (findLeague demo_season ''L'')" and ?r = "projr (getLeagueStandings demo_season ''L'' None)"
  have "findLeague demo_season ''L'' \<noteq> None" by code_simp
  then have l: "findLeague demo_season ''L'' = Some ?l" by simp
  have "\<not> isl (getLeagueStandings demo_season ''L'' None)" by code_simp
  then have r: "getLeagueStandings demo_season ''L'' None = Inr ?r" by (simp add: sum.collapse)
  have "stored_config ?l = Inr None" by code_simp
  from league_standings_correct [OF r l this refl]
  have "map se_rank (sr_standings ?r) = map (\<lambda>i. int i + 1) [0..<length (league_members demo_season ''L'')]" by blast
  moreover have "map (\<lambda>i. int i + 1) [0..<length (league_members demo_season ''L'')] = [1, 2]"
    "map (\<lambda>e. (se_userId e, se_totalPoints e)) (sr_standings ?r) = [(''a'', 80), (''b'', 70)]" by code_simp+
  ultimately show ?thesis using r by metis
qed

section \<open>What the recalculation stores\<close>

definition classic_members :: "league_db \<Rightarrow> league_member list" where
  "classic_members db = filter (\<lambda>m. lm_status m = Member_ACTIVE \<and> in_classic_active db m) (ld_members db)"

definition classic_table :: "league_db \<Rightarrow> int \<Rightarrow> string \<Rightarrow> league_member list" where
  "classic_table db gw L = js_sort (classic_order (squad_totals db gw)) (filter (\<lambda>m. lm_leagueId m = L) (classic_members db))"

lemma set_group_by: "set (group_by f xs) = (\<lambda>k. (k, filter (\<lambda>x. f x = k) xs)) ` f ` set xs"
  by (auto simp: group_by_entry)

lemma classic_updates_iff:
  "(k, t, r) \<in> set (classic_updates db gw) \<longleftrightarrow>
   (\<exists>L i. i < length (classic_table db gw L) \<and> k = lm_id (classic_table db gw L ! i) \<and>
      t = total_of (squad_totals db gw) (classic_table db gw L ! i) \<and> r = int i + 1)" (is "?l \<longleftrightarrow> ?r")
proof -
  have u: "set (classic_updates db gw) = (\<Union>L \<in> lm_leagueId ` set (classic_members db).
      (\<lambda>(i, m). (lm_id m, total_of (squad_totals db gw) m, int i + 1)) ` set (enumerate 0 (classic_table db gw L)))"
    unfolding classic_updates_def Let_def classic_members_def [symmetric] classic_table_def
    by (simp add: set_group_by image_image)
  have "L \<in> lm_leagueId ` set (classic_members db)" if "i < length (classic_table db gw L)" for L i
  proof -
    have "classic_table db gw L ! i \<in> set (classic_table db gw L)" using that by simp
    then have "classic_table db gw L ! i \<in> set (classic_members db)" "lm_leagueId (classic_table db gw L ! i) = L"
      by (simp_all add: classic_table_def)
    then show ?thesis by (metis imageI)
  qed
  then show ?thesis unfolding u by (force simp: in_set_enumerate_eq)
qed

lemma classic_table_index:
  assumes "m \<in> set (classic_members db)"
  obtains i where "i < length (classic_table db gw (lm_leagueId m))" "classic_table db gw (lm_leagueId m) ! i = m"
proof -
  have "m \<in> set (classic_table db gw (lm_leagueId m))" using assms by (simp add: classic_table_def)
  then show thesis using that by (auto simp: in_set_conv_nth)
qed

text \<open>A row of the bulk update is found by its key, so each member gets its own total and rank.\<close>

lemma classic_updates_lookup:
  assumes d: "distinct (map lm_id (ld_members db))"
    and i: "i < length (classic_table db gw L)" "classic_table db gw L ! i = m"
  shows "map_of (classic_updates db gw) (lm_id m) = Some (total_of (squad_totals db gw) m, int i + 1)"
proof -
  have mem: "classic_table db gw K ! j \<in> set (ld_members db) \<and> lm_leagueId (classic_table db gw K ! j) = K" if "j < length (classic_table db gw K)" for K j
    using nth_mem [OF that] by (auto simp: classic_table_def classic_members_def)
  have "(lm_id m, total_of (squad_totals db gw) m, int i + 1) \<in> set (classic_updates db gw)"
    unfolding classic_updates_iff using i by blast
  then obtain t r where tr: "map_of (classic_updates db gw) (lm_id m) = Some (t, r)"
    by (metis map_of_eq_None_iff not_None_eq prod.exhaust image_eqI fst_conv)
  then have "(lm_id m, t, r) \<in> set (classic_updates db gw)" by (rule map_of_SomeD)
  then obtain K j where j: "j < length (classic_table db gw K)" "lm_id m = lm_id (classic_table db gw K ! j)"
    "t = total_of (squad_totals db gw) (classic_table db gw K ! j)" "r = int j + 1"
    unfolding classic_updates_iff by blast
  have e: "classic_table db gw K ! j = m" using mem [OF j(1)] mem [OF i(1)] i(2) j(2) d by (metis distinct_map inj_onD)
  then have "K = L" using mem [OF j(1)] mem [OF i(1)] i(2) by auto
  moreover have "distinct (classic_table db gw L)"
    using d by (simp add: classic_table_def classic_members_def distinct_map)
  ultimately have "j = i" using nth_eq_iff_index_eq [of "classic_table db gw L" j i] e i j(1) by simp
  then show ?thesis using tr unfolding j(3,4) e by simp
qed

interpretation classic: comparator "classic_order totals" for totals
  unfolding classic_order_def by (intro comparator_intros)

lemma classic_table_ordered:
  assumes "i < j" "j < length (classic_table db gw L)"
  shows "total_of (squad_totals db gw) (classic_table db gw L ! j) \<le> total_of (squad_totals db gw) (classic_table db gw L ! i)"
proof -
  have "classic_order (squad_totals db gw) (classic_table db gw L ! i) (classic_table db gw L ! j) \<le> 0"
    using classic.sorted_js_sort assms unfolding classic_table_def sorted_wrt_iff_nth_less by blast
  then show ?thesis by (simp add: classic_order_def js_or_def desc_def split: if_splits)
qed

definition points_before :: "league_db \<Rightarrow> int \<Rightarrow> int \<Rightarrow> string \<Rightarrow> int" where
  "points_before db start gw squadId = (\<Sum>(s, g, p)\<leftarrow>filter (\<lambda>(s, g, p). s = squadId \<and> g < start \<and> g \<le> gw) (ld_squadScores db). p)"

lemma total_of_sum:
  "total_of (squad_totals db gw) m = (\<Sum>(s, g, p)\<leftarrow>filter (\<lambda>(s, g, p). s = lm_squadId m \<and> g \<le> gw) (ld_squadScores db). p)"
proof -
  let ?rows = "filter (\<lambda>(s, g, p). g \<le> gw) (ld_squadScores db)"
  have "total_of (squad_totals db gw) m = (\<Sum>(s, g, p)\<leftarrow>(case map_of (group_by fst ?rows) (lm_squadId m) of None \<Rightarrow> [] | Some l \<Rightarrow> l). p)"
    by (simp add: total_of_def squad_totals_def map_of_map split: option.split)
  also have "\<dots> = (\<Sum>(s, g, p)\<leftarrow>filter (\<lambda>r. fst r = lm_squadId m) ?rows. p)" unfolding map_of_group_fst ..
  finally show ?thesis by (simp add: split_def conj_commute)
qed

lemma total_of_window:
  assumes "lg_id l = L"
  shows "total_of (squad_totals db gw) m = window_total db l False gw (lm_squadId m) + points_before db (lg_startGameweekId l) gw (lm_squadId m)"
proof -
  have "(\<Sum>(s, g, p)\<leftarrow>filter (\<lambda>(s, g, p). s = x \<and> g \<le> gw) rs. p) =
      (\<Sum>(s, g, p)\<leftarrow>filter (\<lambda>(s, g, p). s = x \<and> a \<le> g \<and> g \<le> gw) rs. p) + (\<Sum>(s, g, p)\<leftarrow>filter (\<lambda>(s, g, p). s = x \<and> g < a \<and> g \<le> gw) rs. p)"
    for x :: string and a :: int and rs :: "(string \<times> int \<times> int) list"
    by (induction rs) auto
  then show ?thesis by (simp add: total_of_sum window_total_def window_scores_def points_before_def)
qed

lemma apply_totals_simps [simp]:
  "lm_id (apply_totals us m) = lm_id m" "lm_leagueId (apply_totals us m) = lm_leagueId m" "lm_status (apply_totals us m) = lm_status m"
  "lm_squadId (apply_totals us m) = lm_squadId m"
  by (simp_all add: apply_totals_def split: option.split)

lemma recalculated_row:
  assumes "distinct (map lm_id (ld_members db))" "m \<in> set (classic_members db)"
  obtains i where "i < length (classic_table db gw (lm_leagueId m))" "classic_table db gw (lm_leagueId m) ! i = m"
    "lm_totalPoints (apply_totals (classic_updates db gw) m) = total_of (squad_totals db gw) m"
    "lm_rank (apply_totals (classic_updates db gw) m) = Some (int i + 1)"
proof -
  obtain i where i: "i < length (classic_table db gw (lm_leagueId m))" "classic_table db gw (lm_leagueId m) ! i = m"
    using classic_table_index [OF assms(2)] .
  show thesis using that [OF i] classic_updates_lookup [OF assms(1) i] by (simp add: apply_totals_def)
qed

text \<open>What one active member gets: the total over all gameweeks so far and a place in the league's table.\<close>

lemma recalculated_member:
  assumes "distinct (map lm_id (ld_members db))" "findLeague db L = Some l" "lg_scoringType l = CLASSIC" "lg_status l = ACTIVE"
    and "m \<in> set (active_members (fst (recalculateClassicStandings db gw)) L)"
  obtains n i where "i < length (classic_table db gw L)" "classic_table db gw L ! i = n" "lm_squadId m = lm_squadId n"
    "lm_totalPoints m = total_of (squad_totals db gw) n" "lm_rank m = Some (int i + 1)"
proof -
  let ?us = "classic_updates db gw"
  have rows: "ld_members (fst (recalculateClassicStandings db gw)) = map (apply_totals ?us) (ld_members db)"
    by (simp add: recalculateClassicStandings_def Let_def)
  obtain n where n: "n \<in> set (ld_members db)" "m = apply_totals ?us n" "lm_leagueId n = L" "lm_status n = Member_ACTIVE"
    using assms(5) by (auto simp: active_members_def rows)
  then have "n \<in> set (classic_members db)" using assms(2-4) by (simp add: classic_members_def in_classic_active_def)
  from recalculated_row [OF assms(1) this, of gw] n(2,3) that show thesis by (metis apply_totals_simps(4))
qed

lemma apply_totals_user [simp]:
  "lm_userId (apply_totals us m) = lm_userId m" "lm_joinedAt (apply_totals us m) = lm_joinedAt m"
  by (simp_all add: apply_totals_def split: option.split)

lemma page_entry:
  assumes "getLeagueStandings db L gw = Inr r" "findLeague db L = Some l" "stored_config l = Inr None"
    and "distinct (map lm_userId (league_members db L))" "m \<in> set (league_members db L)"
  shows "\<exists>!e. e \<in> set (sr_standings r) \<and> se_userId e = lm_userId m"
    and "e \<in> set (sr_standings r) \<Longrightarrow> se_userId e = lm_userId m \<Longrightarrow>
      se_squadId e = lm_squadId m \<and> se_totalPoints e = window_total db l False (case gw of None \<Rightarrow> lg_endGameweekId l | Some g \<Rightarrow> g) (lm_squadId m)"
proof -
  let ?hi = "case gw of None \<Rightarrow> lg_endGameweekId l | Some g \<Rightarrow> g"
  let ?f = "\<lambda>e. (se_userId e, se_squadId e, se_joinedAt e, se_totalPoints e)"
  let ?g = "\<lambda>m. (lm_userId m, lm_squadId m, lm_joinedAt m, window_total db l False ?hi (lm_squadId m))"
  have eq: "mset (map ?f (sr_standings r)) = mset (map ?g (league_members db L))"
    using league_standings_correct [OF assms(1-3) refl] by simp
  have "mset (map fst (map ?f (sr_standings r))) = mset (map fst (map ?g (league_members db L)))"
    unfolding mset_map [of fst] eq ..
  then have users: "mset (map se_userId (sr_standings r)) = mset (map lm_userId (league_members db L))" by (simp add: o_def)
  then have dist: "distinct (map se_userId (sr_standings r))" using assms(4) by (metis mset_eq_imp_distinct_iff)
  have inj: "inj_on se_userId (set (sr_standings r))" using dist by (simp add: distinct_map)
  have "lm_userId m \<in> set (map se_userId (sr_standings r))" using assms(5) users by (metis image_eqI list.set_map mset_eq_setD)
  then obtain x where x: "x \<in> set (sr_standings r)" "se_userId x = lm_userId m" by auto
  then show "\<exists>!e. e \<in> set (sr_standings r) \<and> se_userId e = lm_userId m"
    by (intro ex1I [of _ x]) (auto intro: inj_onD [OF inj])
  assume e: "e \<in> set (sr_standings r)" "se_userId e = lm_userId m"
  have "?f e \<in> set (map ?g (league_members db L))" using e(1) mset_eq_setD [OF eq] by auto
  then obtain n where n: "n \<in> set (league_members db L)" "?f e = ?g n" by auto
  then have "n = m" using e(2) assms(4,5) by (auto simp: distinct_map dest: inj_onD)
  then show "se_squadId e = lm_squadId m \<and> se_totalPoints e = window_total db l False ?hi (lm_squadId m)" using n(2) by simp
qed

text \<open>
  C25. The bulk recalculation against the standings page, for an active classic league without scoring rules of its own.
  After the recalculation of a gameweek every active member is on the page of that gameweek exactly once, and the stored
  total is the total shown there plus the points the squad made before the league began: the two agree exactly for
  the squads without earlier points. The stored rank is a place among the active members, and more points rank higher.
\<close>

theorem recalculated_totals:
  assumes "distinct (map lm_id (ld_members db))" "findLeague db L = Some l" "lg_scoringType l = CLASSIC" "lg_status l = ACTIVE"
    and "stored_config l = Inr None" "distinct (map lm_userId (league_members db L))"
    and "db' = fst (recalculateClassicStandings db gw)" "getLeagueStandings db' L (Some gw) = Inr r"
    and "m \<in> set (active_members db' L)" "m2 \<in> set (active_members db' L)"
  shows "(\<exists>!e. e \<in> set (sr_standings r) \<and> se_userId e = lm_userId m) \<and>
    (\<forall>e \<in> set (sr_standings r). se_userId e = lm_userId m \<longrightarrow> se_squadId e = lm_squadId m \<and>
       lm_totalPoints m = se_totalPoints e + points_before db (lg_startGameweekId l) gw (lm_squadId m)) \<and>
    (\<exists>k. lm_rank m = Some k \<and> 1 \<le> k \<and> k \<le> int (length (active_members db' L))) \<and>
    (lm_totalPoints m2 < lm_totalPoints m \<longrightarrow> the (lm_rank m) < the (lm_rank m2))"
proof -
  let ?T = "classic_table db gw L"
  have db': "db' = db\<lparr>ld_members := map (apply_totals (classic_updates db gw)) (ld_members db)\<rparr>"
    using assms(7) by (simp add: recalculateClassicStandings_def Let_def)
  have len: "length (active_members db' L) = length ?T"
    using assms(2-4) unfolding classic_table_def classic_members_def active_members_def db' length_js_sort
    by (auto simp: filter_map o_def in_classic_active_def intro!: arg_cong [where f = length] filter_cong)
  obtain n i where n: "i < length ?T" "?T ! i = n" "lm_squadId m = lm_squadId n"
    "lm_totalPoints m = total_of (squad_totals db gw) n" "lm_rank m = Some (int i + 1)"
    using recalculated_member [OF assms(1-4) assms(9) [unfolded assms(7)]] .
  obtain n2 i2 where n2: "i2 < length ?T" "?T ! i2 = n2" "lm_squadId m2 = lm_squadId n2"
    "lm_totalPoints m2 = total_of (squad_totals db gw) n2" "lm_rank m2 = Some (int i2 + 1)"
    using recalculated_member [OF assms(1-4) assms(10) [unfolded assms(7)]] .
  have rank: "i < i2" if "lm_totalPoints m2 < lm_totalPoints m"
    using that classic_table_ordered [of i2 i db gw L] n n2 by (cases i i2 rule: linorder_cases) auto
  have found: "findLeague db' L = Some l" using assms(2) by (simp add: db' findLeague_def)
  have users: "distinct (map lm_userId (league_members db' L))"
    using assms(6) by (simp add: db' league_members_def filter_map o_def)
  have mem: "m \<in> set (league_members db' L)" using assms(9) by (simp add: active_members_def league_members_def)
  note page = page_entry [OF assms(8) found assms(5) users mem, simplified option.case]
  have "window_total db' l False gw x = window_total db l False gw x" for x
    by (simp add: db' window_total_def window_scores_def)
  then have stored: "lm_totalPoints m = window_total db' l False gw (lm_squadId m) + points_before db (lg_startGameweekId l) gw (lm_squadId m)"
    using n(3,4) total_of_window [OF findLeague_SomeD [OF assms(2), THEN conjunct2], of db gw n] by simp
  show ?thesis
  proof (intro conjI)
    show "\<forall>e \<in> set (sr_standings r). se_userId e = lm_userId m \<longrightarrow> se_squadId e = lm_squadId m \<and>
       lm_totalPoints m = se_totalPoints e + points_before db (lg_startGameweekId l) gw (lm_squadId m)"
      using page(2) stored by simp
    show "\<exists>k. lm_rank m = Some k \<and> 1 \<le> k \<and> k \<le> int (length (active_members db' L))"
      using n(1,5) by (simp add: len)
    show "lm_totalPoints m2 < lm_totalPoints m \<longrightarrow> the (lm_rank m) < the (lm_rank m2)"
      using rank by (auto simp: n(5) n2(5))
  qed (rule page(1))
qed

text \<open>A classic league that starts in the second gameweek, with a score from the first.\<close>

definition demo_classic :: league_db where
  "demo_classic = (let inp = (demo_league_input False)\<lparr>cin_entryFee := Some 0, cin_startGameweekId := 2\<rparr>;
       db = projr (createLeague league_demo_start 1 [''AB12''] ''L'' ''ma'' ''a'' inp league_demo_start);
       db1 = projr (joinLeague (\<lambda>s. s) (read_at db) ''mb'' ''L'' ''b'' ''sb'' None db);
       db2 = projr (transitionStatus db1 ''L'' ACTIVE db1)
     in db2\<lparr>ld_squadScores := [(''sa'', 1, 50), (''sb'', 1, 10), (''sa'', 2, 30), (''sb'', 2, 60)]\<rparr>)"

definition demo_played :: league_db where
  "demo_played = demo_classic\<lparr>ld_gameweeks := map (\<lambda>g. g\<lparr>lgw_isFinished := True\<rparr>) (ld_gameweeks demo_classic)\<rparr>"

definition demo_page :: standings_response where
  "demo_page = projr (getLeagueStandings (fst (recalculateClassicStandings demo_played 2)) ''L'' (Some 2))"

theorem recalculated_totals_witness:
  "\<exists>m m2. ld_members (fst (recalculateClassicStandings demo_played 2)) = [m, m2] \<and> lm_totalPoints m = 80 \<and>
     (\<exists>e. e \<in> set (sr_standings demo_page) \<and> se_userId e = lm_userId m \<and> se_totalPoints e = 30) \<and> the (lm_rank m) < the (lm_rank m2)"
proof -
  let ?l = "the (findLeague demo_played ''L'')" and ?d = "fst (recalculateClassicStandings demo_played 2)"
  let ?m = "ld_members ?d ! 0" and ?m2 = "ld_members ?d ! 1"
  have "findLeague demo_played ''L'' \<noteq> None" by code_simp
  then have l: "findLeague demo_played ''L'' = Some ?l" by simp
  have "\<not> isl (getLeagueStandings ?d ''L'' (Some 2))" by code_simp
  then have r: "getLeagueStandings ?d ''L'' (Some 2) = Inr demo_page" by (simp add: demo_page_def sum.collapse)
  have h: "distinct (map lm_id (ld_members demo_played))" "lg_scoringType ?l = CLASSIC" "lg_status ?l = ACTIVE" "stored_config ?l = Inr None"
    "distinct (map lm_userId (league_members demo_played ''L''))"
    and am: "active_members ?d ''L'' = [?m, ?m2]" "ld_members ?d = [?m, ?m2]" by code_simp+
  have v: "points_before demo_played (lg_startGameweekId ?l) 2 (lm_squadId ?m) = 50" "lm_totalPoints ?m = 80" "lm_totalPoints ?m2 = 70" by code_simp+
  have i: "?m \<in> set (active_members ?d ''L'')" "?m2 \<in> set (active_members ?d ''L'')" unfolding am(1) by simp_all
  note t = recalculated_totals [OF h(1) l h(2-5) refl r i]
  from t obtain e where e: "e \<in> set (sr_standings demo_page)" "se_userId e = lm_userId ?m" by blast
  with t have "lm_totalPoints ?m = se_totalPoints e + 50" unfolding v(1) by blast
  then have "se_totalPoints e = 30" unfolding v(2) by simp
  moreover have "lm_totalPoints ?m2 < lm_totalPoints ?m" unfolding v by simp
  then have "the (lm_rank ?m) < the (lm_rank ?m2)" using t by blast
  ultimately show ?thesis using am(2) v(2) e by blast
qed

section \<open>The last gameweek\<close>

text \<open>One turn of the handler's loop on an active league succeeds, and completes the league in its last gameweek.\<close>

lemma findLeague_distinct:
  "distinct (map lg_id (ld_leagues db)) \<Longrightarrow> x \<in> set (ld_leagues db) \<Longrightarrow> findLeague db (lg_id x) = Some x"
  unfolding findLeague_def by (rule find_unique)

definition complete_row :: "string set \<Rightarrow> league \<Rightarrow> league" where
  "complete_row ids x = (if lg_id x \<in> ids then x\<lparr>lg_status := COMPLETED\<rparr> else x)"

lemma complete_row_simps [simp]: "lg_id (complete_row ids x) = lg_id x" "complete_row {} = id" "complete_row A (complete_row B x) = complete_row (A \<union> B) x"
  by (simp_all add: complete_row_def fun_eq_iff)

lemma settle_league_ok:
  assumes "keys_ok db" "distinct (map lg_id (ld_leagues db))" "x \<in> set (ld_leagues db)" "lg_id x = lg_id l" "lg_status x = ACTIVE"
  shows "\<exists>db'. settle_league gw (db, None) l = (db', None) \<and> keys_ok db' \<and>
    ld_leagues db' = map (complete_row (if lg_endGameweekId l = gw then {lg_id l} else {})) (ld_leagues db)"
proof -
  define d where "d = (if lg_scoringType l = HEAD_TO_HEAD then fst (settleH2HGameweek db (lg_id l) gw False) else db)"
  have d: "keys_ok d" "ld_leagues d = ld_leagues db" using settle_effect(1) [OF assms(1)] assms(1) by (simp_all add: d_def)
  have "findLeague d (lg_id l) = Some x" using findLeague_distinct [OF assms(2,3)] assms(4) by (simp add: findLeague_def d(2))
  then have t: "transitionStatus d (lg_id l) COMPLETED d = Inr (update_league (lg_id l) (\<lambda>l. l\<lparr>lg_status := COMPLETED\<rparr>) d)"
    using assms(5) by (simp add: transitionStatus_def check_transition_def guard_def Let_def)
  have c: "map (complete_row {lg_id l}) (ld_leagues db) = map (\<lambda>y. if lg_id y = lg_id l then y\<lparr>lg_status := COMPLETED\<rparr> else y) (ld_leagues db)"
    by (simp add: complete_row_def)
  show ?thesis
    unfolding settle_league_def prod.case option.case d_def [symmetric] Let_def t sum.case
    using d c by (simp add: update_league_def keys_ok_def fixtures_ok_def)
qed

lemma settle_leagues_ok:
  assumes "keys_ok db" "distinct (map lg_id (ld_leagues db))" "distinct (map lg_id ls)"
    "\<And>l. l \<in> set ls \<Longrightarrow> \<exists>x \<in> set (ld_leagues db). lg_id x = lg_id l \<and> lg_status x = ACTIVE"
  shows "\<exists>db'. foldl (settle_league gw) (db, None) ls = (db', None) \<and> keys_ok db' \<and>
    ld_leagues db' = map (complete_row (lg_id ` set (filter (\<lambda>l. lg_endGameweekId l = gw) ls))) (ld_leagues db)"
  using assms
proof (induction ls arbitrary: db)
  case (Cons l ls)
  let ?A = "if lg_endGameweekId l = gw then {lg_id l} else {}"
  obtain x where "x \<in> set (ld_leagues db)" "lg_id x = lg_id l" "lg_status x = ACTIVE" using Cons.prems(4) [of l] by auto
  from settle_league_ok [OF Cons.prems(1,2) this, of gw]
  obtain d where d: "settle_league gw (db, None) l = (d, None)" "keys_ok d" "ld_leagues d = map (complete_row ?A) (ld_leagues db)" by blast
  have "\<exists>x \<in> set (ld_leagues d). lg_id x = lg_id y \<and> lg_status x = ACTIVE" if y: "y \<in> set ls" for y
  proof -
    obtain z where z: "z \<in> set (ld_leagues db)" "lg_id z = lg_id y" "lg_status z = ACTIVE" using Cons.prems(4) [of y] y by auto
    have "lg_id y \<noteq> lg_id l" using Cons.prems(3) y by (metis distinct.simps(2) imageI list.set_map list.simps(9))
    then have "complete_row ?A z = z" using z(2) by (simp add: complete_row_def)
    then have "z \<in> set (ld_leagues d)" using z(1) unfolding d(3) set_map by (metis imageI)
    then show ?thesis using z by blast
  qed
  moreover have "distinct (map lg_id (ld_leagues d))" using Cons.prems(2) by (simp add: d(3) o_def)
  ultimately obtain d' where "foldl (settle_league gw) (d, None) ls = (d', None)" "keys_ok d'"
    "ld_leagues d' = map (complete_row (lg_id ` set (filter (\<lambda>l. lg_endGameweekId l = gw) ls))) (ld_leagues d)"
    using Cons.IH [OF d(2)] Cons.prems(3) by auto
  then show ?case using d(1,3) by (auto simp: o_def Un_commute)
qed simp

lemma not_recalculated:
  assumes "distinct (map lm_id (ld_members db))" "m \<in> set (ld_members db)" "\<not> in_classic_active db m"
  shows "apply_totals (classic_updates db gw) m = m"
proof -
  have "lm_id m \<notin> fst ` set (classic_updates db gw)"
  proof
    assume "lm_id m \<in> fst ` set (classic_updates db gw)"
    then obtain t r where "(lm_id m, t, r) \<in> set (classic_updates db gw)" by force
    then obtain L i where i: "i < length (classic_table db gw L)" "lm_id m = lm_id (classic_table db gw L ! i)"
      unfolding classic_updates_iff by blast
    have c: "classic_table db gw L ! i \<in> set (ld_members db)" "in_classic_active db (classic_table db gw L ! i)"
      using nth_mem [OF i(1)] by (simp_all add: classic_table_def classic_members_def)
    have "m = classic_table db gw L ! i"
      using distinct_map [THEN iffD1, OF assms(1), THEN conjunct2] i(2) assms(2) c(1) by (rule inj_onD)
    then show False using c(2) assms(3) by simp
  qed
  then show ?thesis by (simp add: apply_totals_def map_of_eq_None_iff [THEN iffD2])
qed

lemma leagues_in_play_ok:
  assumes "distinct (map lg_id (ld_leagues db))"
  shows "distinct (map lg_id (leagues_in_play db gw))"
    "l \<in> set (leagues_in_play db gw) \<Longrightarrow> \<exists>x \<in> set (ld_leagues db). lg_id x = lg_id l \<and> lg_status x = ACTIVE"
  using assms by (auto simp: leagues_in_play_def distinct_map_filter)

text \<open>
  C26. The last gameweek of a league never reaches its stored standings: the handler of the gameweek event always succeeds and
  completes the leagues that end with the gameweek, and the recalculation that the job runs after it takes active leagues only. The
  rows of the members keep the totals and the ranks of the week before, whatever was scored.
\<close>

theorem last_gameweek_not_recalculated:
  assumes "keys_ok db" "distinct (map lg_id (ld_leagues db))" "l \<in> set (ld_leagues db)" "lg_status l = ACTIVE"
    "lg_startGameweekId l \<le> gw" "lg_endGameweekId l = gw"
  shows "\<exists>db'. handleSettleLeagues db gw = (db', None) \<and> findLeague db' (lg_id l) = Some (l\<lparr>lg_status := COMPLETED\<rparr>) \<and>
    filter (\<lambda>m. lm_leagueId m = lg_id l) (ld_members (fst (recalculateClassicStandings db' gw))) =
      filter (\<lambda>m. lm_leagueId m = lg_id l) (ld_members db')"
proof -
  let ?ids = "lg_id ` set (filter (\<lambda>l. lg_endGameweekId l = gw) (leagues_in_play db gw))"
  obtain db' where h: "handleSettleLeagues db gw = (db', None)" "keys_ok db'" "ld_leagues db' = map (complete_row ?ids) (ld_leagues db)"
    using settle_leagues_ok [OF assms(1,2) leagues_in_play_ok(1) [OF assms(2), of gw] leagues_in_play_ok(2) [OF assms(2), of _ gw], of gw]
    unfolding handleSettleLeagues_def by blast
  have "l \<in> set (leagues_in_play db gw)" using assms(3-6) by (simp add: leagues_in_play_def)
  then have "complete_row ?ids l = l\<lparr>lg_status := COMPLETED\<rparr>" using assms(6) by (simp add: complete_row_def)
  moreover have "findLeague db' (lg_id (complete_row ?ids l)) = Some (complete_row ?ids l)"
    using assms(2,3) by (intro findLeague_distinct) (simp_all add: h(3) o_def)
  ultimately have f: "findLeague db' (lg_id l) = Some (l\<lparr>lg_status := COMPLETED\<rparr>)" by simp
  have "apply_totals (classic_updates db' gw) m = m" if "m \<in> set (ld_members db')" "lm_leagueId m = lg_id l" for m
    using h(2) that f by (intro not_recalculated) (simp_all add: keys_ok_def in_classic_active_def)
  then have "filter (\<lambda>m. lm_leagueId m = lg_id l) (map (apply_totals (classic_updates db' gw)) (ld_members db')) =
      filter (\<lambda>m. lm_leagueId m = lg_id l) (ld_members db')"
    by (auto simp: filter_map o_def intro!: map_idI)
  then show ?thesis using h(1) f by (auto simp: recalculateClassicStandings_def Let_def)
qed

text \<open>In \<open>demo_classic\<close> both members scored in the only gameweek of the league, and both keep a total of zero and no rank.\<close>

theorem last_gameweek_not_recalculated_witness:
  "\<exists>db'. handleSettleLeagues demo_classic 2 = (db', None) \<and>
     filter (\<lambda>m. lm_leagueId m = ''L'') (ld_members (fst (recalculateClassicStandings db' 2))) = filter (\<lambda>m. lm_leagueId m = ''L'') (ld_members db')
     \<and> map (\<lambda>m. (lm_totalPoints m, lm_rank m)) (ld_members (fst (recalculateClassicStandings (fst (handleSettleLeagues demo_classic 2)) 2))) = [(0, None), (0, None)]"
proof -
  let ?l = "hd (ld_leagues demo_classic)"
  have "ld_leagues demo_classic \<noteq> []" by code_simp
  then have l: "?l \<in> set (ld_leagues demo_classic)" by (rule hd_in_set)
  have k: "keys_ok demo_classic" "distinct (map lg_id (ld_leagues demo_classic))" "lg_status ?l = ACTIVE"
    "lg_startGameweekId ?l \<le> 2" "lg_endGameweekId ?l = 2" and i: "lg_id ?l = ''L''"
    and r: "map (\<lambda>m. (lm_totalPoints m, lm_rank m)) (ld_members (fst (recalculateClassicStandings (fst (handleSettleLeagues demo_classic 2)) 2))) = [(0, None), (0, None)]"
    by code_simp+
  from last_gameweek_not_recalculated [OF k(1,2) l k(3-5)] show ?thesis unfolding i
    by (elim exE conjE) (intro exI conjI r)
qed

section \<open>A review needs a pattern\<close>

definition league_results :: "league_db \<Rightarrow> string \<Rightarrow> league_fixture list" where
  "league_results db L = filter (\<lambda>f. lf_leagueId f = L \<and> lf_isFinished f \<and> \<not> lf_isPlayoff f \<and> lf_away f \<noteq> None) (ld_fixtures db)"

definition flagged :: "league_db \<Rightarrow> string \<Rightarrow> (string list \<times> suspicious_gameweek) list" where
  "flagged db L = List.map_filter (judge_fixture (averageBeforeGameweek db (js_map (map (\<lambda>m. (lm_id m, m)) (league_members db L))))) (league_results db L)"

lemma judge_fixture_keys: "judge_fixture av f = Some (ids, g) \<Longrightarrow> \<exists>a. lf_away f = Some a \<and> ids = js_sort str_cmp [lf_home f, a]"
  by (auto simp: judge_fixture_def split: option.splits)

lemma judge_fixture_cause:
  assumes "judge_fixture av f = Some (ids, g)"
  shows "40 \<le> sg_expectedPoints g \<and> of_int (sg_actualPoints g) \<le> sg_expectedPoints g / 2 \<and>
    20 \<le> sg_expectedPoints g - of_int (sg_actualPoints g) \<and> sg_actualPoints g < sg_opponentPoints g \<and> sg_gameweekId g = lf_gameweekId f"
  using assms by (auto simp: judge_fixture_def judge_loser_def split: option.splits prod.splits if_splits)

text \<open>
  A pair is reported for review only on a pattern: two or more finished fixtures between the two outside the
  playoffs, each lost by a member who averages forty or more otherwise, with at most half of that average and at least twenty points below it.
\<close>

lemma anomaly_reports_have_cause:
  assumes "r \<in> set (detectH2HAnomalies db L)"
  shows "2 \<le> length (ar_suspiciousGameweeks r) \<and>
    (\<forall>g \<in> set (ar_suspiciousGameweeks r). \<exists>f \<in> set (league_results db L). \<exists>a. lf_away f = Some a \<and>
       pairKey (js_sort str_cmp [lf_home f, a]) = pairKey (ar_memberIds r) \<and> sg_gameweekId g = lf_gameweekId f \<and>
       40 \<le> sg_expectedPoints g \<and> of_int (sg_actualPoints g) \<le> sg_expectedPoints g / 2 \<and>
       20 \<le> sg_expectedPoints g - of_int (sg_actualPoints g) \<and> sg_actualPoints g < sg_opponentPoints g)"
proof -
  obtain k gs where g: "(k, gs) \<in> set (group_by (pairKey \<circ> fst) (flagged db L))"
    "r = \<lparr>ar_memberIds = fst (hd gs), ar_suspiciousGameweeks = map snd gs\<rparr>" "2 \<le> length gs"
    using assms by (auto simp: detectH2HAnomalies_def flagged_def league_results_def Let_def split: if_splits)
  have gs: "gs = filter (\<lambda>x. pairKey (fst x) = k) (flagged db L)" using g(1) by (simp add: group_by_entry)
  then have "hd gs \<in> set gs" using g(3) by (intro hd_in_set) auto
  then have k: "pairKey (ar_memberIds r) = k" using gs g(2) by simp
  have "\<exists>f \<in> set (league_results db L). \<exists>a. lf_away f = Some a \<and>
       pairKey (js_sort str_cmp [lf_home f, a]) = k \<and> sg_gameweekId x = lf_gameweekId f \<and>
       40 \<le> sg_expectedPoints x \<and> of_int (sg_actualPoints x) \<le> sg_expectedPoints x / 2 \<and>
       20 \<le> sg_expectedPoints x - of_int (sg_actualPoints x) \<and> sg_actualPoints x < sg_opponentPoints x"
    if x: "x \<in> set (ar_suspiciousGameweeks r)" for x
  proof -
    obtain ids where i: "(ids, x) \<in> set (flagged db L)" "pairKey ids = k" using x g(2) gs by auto
    then obtain f where f: "f \<in> set (league_results db L)"
      "judge_fixture (averageBeforeGameweek db (js_map (map (\<lambda>m. (lm_id m, m)) (league_members db L)))) f = Some (ids, x)"
      unfolding flagged_def by (auto simp: List.map_filter_def)
    then show ?thesis using judge_fixture_cause [OF f(2)] judge_fixture_keys [OF f(2)] i(2) by blast
  qed
  then show ?thesis using g k by simp
qed

end
