(* ===== verification/League_Tiers.thy ===== *)
theory League_Tiers
  imports League_Standings Knockout
begin

text \<open>
  The ladder of league tiers in \<open>leagueService.ts\<close>: \<open>slugify\<close>, \<open>nextSeasonKey\<close>, \<open>createLeagueTierGroup\<close>,
  \<open>createLeagueTier\<close>, \<open>ensureLeagueSeason\<close> and \<open>applySeasonEndTierTransitions\<close>. The tables of the ladder are a record of their
  own; the leagues and their members are read from the database of \<open>Leagues\<close>. A group's slug is unique, a tier's
  slug and rank within its group, a league's row within a season, a placement within its season row and group. The columns
  \<open>promotedToSeasonId\<close> and \<open>relegatedToSeasonId\<close> of a placement, which the code only ever sets to null, are left out.

  The transitions are a loop over the tiers with a snapshot of the season's rows, so the moves are a list computed beforehand
  (\<open>season_moves\<close>) and the writes a fold over it.
\<close>

section \<open>Names and seasons\<close>

definition lower_char :: "char \<Rightarrow> char" where
  "lower_char c = (let n = of_char c :: nat in if 65 \<le> n \<and> n \<le> 90 then char_of (n + 32) else c)"

definition slug_char :: "char \<Rightarrow> bool" where
  "slug_char c \<longleftrightarrow> (let n = of_char c :: nat in 97 \<le> n \<and> n \<le> 122 \<or> 48 \<le> n \<and> n \<le> 57)"

text \<open>\<open>replace(/[^a-z0-9]+/g, "-")\<close>: a run of other characters becomes one dash.\<close>

function dash_runs :: "string \<Rightarrow> string" where
  "dash_runs [] = []"
| "dash_runs (c # cs) = (if slug_char c then c # dash_runs cs else CHR ''-'' # dash_runs (dropWhile (\<lambda>x. \<not> slug_char x) cs))"
  by pat_completeness auto
termination by (relation "measure length") (auto simp: le_imp_less_Suc length_dropWhile_le)

definition strip_dashes :: "string \<Rightarrow> string" where
  "strip_dashes s = rev (dropWhile (\<lambda>c. c = CHR ''-'') (rev (dropWhile (\<lambda>c. c = CHR ''-'') s)))"

definition slugify :: "string \<Rightarrow> string" where
  "slugify value =
     (let s = js_slice 0 60 (strip_dashes (dash_runs (trim_ws (map lower_char value)))) in if s = [] then ''tier'' else s)"





section \<open>The tables\<close>

datatype tier_movement = STAY | PROMOTE | RELEGATE

record tier_group =
  tg_id :: string
  tg_name :: string
  tg_slug :: string
  tg_description :: "string option"
  tg_season :: string
  tg_isActive :: bool

record league_tier =
  lt_id :: string
  lt_groupId :: string
  lt_name :: string
  lt_slug :: string
  lt_rank :: int
  lt_description :: "string option"
  lt_promotionTargetTierId :: "string option"
  lt_relegationTargetTierId :: "string option"

record league_season =
  ls_id :: nat
  ls_leagueId :: string
  ls_season :: string
  ls_tierGroupId :: "string option"
  ls_tierId :: "string option"
  ls_previousSeasonId :: "nat option"

record tier_placement =
  tp_leagueSeasonId :: nat
  tp_groupId :: string
  tp_tierId :: string
  tp_rank :: int
  tp_movement :: tier_movement

record tier_db =
  td_groups :: "tier_group list"
  td_tiers :: "league_tier list"
  td_seasons :: "league_season list"
  td_placements :: "tier_placement list"
  td_nextId :: nat

datatype tier_error =
    TierSeasonRequired | TierGroupNameRequired | TierGroupSlugRequired | TierGroupNotFound | TierNameRequired
  | TierRankInvalid | TierSlugRequired | PromotionTargetForeign | RelegationTargetForeign | SameTarget | TierUniqueViolation

section \<open>Groups and tiers\<close>

definition trimmed :: "string option \<Rightarrow> string" where
  "trimmed s = (case s of None \<Rightarrow> [] | Some x \<Rightarrow> trim_ws x)"

definition or_null :: "string option \<Rightarrow> string option" where
  "or_null s = (if trimmed s = [] then None else Some (trimmed s))"

definition slug_or :: "string option \<Rightarrow> string \<Rightarrow> string" where
  "slug_or s name = trim_ws (case s of None \<Rightarrow> slugify name | Some x \<Rightarrow> x)"

definition createLeagueTierGroup ::
  "tier_db \<Rightarrow> string \<Rightarrow> string option \<Rightarrow> string option \<Rightarrow> string option \<Rightarrow> string option \<Rightarrow> bool option \<Rightarrow> tier_error + tier_db" where
  "createLeagueTierGroup db newId name season slug description isActive =
     (if trimmed season = [] then Inl TierSeasonRequired
      else if trimmed name = [] then Inl TierGroupNameRequired
      else if slug_or slug (trimmed name) = [] then Inl TierGroupSlugRequired
      else if list_ex (\<lambda>g. tg_slug g = slug_or slug (trimmed name)) (td_groups db) then Inl TierUniqueViolation
      else Inr (db\<lparr>td_groups := td_groups db @ [\<lparr>tg_id = newId, tg_name = trimmed name, tg_slug = slug_or slug (trimmed name),
        tg_description = or_null description, tg_season = trimmed season, tg_isActive = (case isActive of None \<Rightarrow> True | Some b \<Rightarrow> b)\<rparr>]\<rparr>))"

record create_tier_input =
  ct_groupId :: string
  ct_name :: "string option"
  ct_rank :: "rat option"
  ct_slug :: "string option"
  ct_description :: "string option"
  ct_promotionTargetTierId :: "string arg"
  ct_relegationTargetTierId :: "string arg"

text \<open>A target in a condition, and the column it is stored in.\<close>

definition target :: "string arg \<Rightarrow> string option" where
  "target a = (case a of Given t \<Rightarrow> if t = [] then None else Some t | _ \<Rightarrow> None)"

definition target_missing :: "tier_db \<Rightarrow> string \<Rightarrow> string arg \<Rightarrow> bool" where
  "target_missing db groupId a =
     (case target a of None \<Rightarrow> False | Some t \<Rightarrow> \<not> list_ex (\<lambda>x. lt_id x = t \<and> lt_groupId x = groupId) (td_tiers db))"

definition createLeagueTier :: "tier_db \<Rightarrow> string \<Rightarrow> create_tier_input \<Rightarrow> tier_error + tier_db" where
  "createLeagueTier db newId input =
     (if \<not> list_ex (\<lambda>g. tg_id g = ct_groupId input) (td_groups db) then Inl TierGroupNotFound
      else if trimmed (ct_name input) = [] then Inl TierNameRequired
      else (case ct_rank input of
              None \<Rightarrow> Inl TierRankInvalid
            | Some r \<Rightarrow>
                if of_int \<lfloor>r\<rfloor> \<noteq> r \<or> r \<le> 0 then Inl TierRankInvalid
                else if slug_or (ct_slug input) (trimmed (ct_name input)) = [] then Inl TierSlugRequired
                else if target_missing db (ct_groupId input) (ct_promotionTargetTierId input) then Inl PromotionTargetForeign
                else if target_missing db (ct_groupId input) (ct_relegationTargetTierId input) then Inl RelegationTargetForeign
                else if ct_promotionTargetTierId input = ct_relegationTargetTierId input then Inl SameTarget
                else
                  (let tier = \<lparr>lt_id = newId, lt_groupId = ct_groupId input, lt_name = trimmed (ct_name input),
                         lt_slug = slug_or (ct_slug input) (trimmed (ct_name input)), lt_rank = \<lfloor>r\<rfloor>,
                         lt_description = or_null (ct_description input),
                         lt_promotionTargetTierId = target (ct_promotionTargetTierId input),
                         lt_relegationTargetTierId = target (ct_relegationTargetTierId input)\<rparr>
                   in if list_ex (\<lambda>t. lt_groupId t = lt_groupId tier \<and> (lt_slug t = lt_slug tier \<or> lt_rank t = lt_rank tier)) (td_tiers db)
                      then Inl TierUniqueViolation
                      else Inr (db\<lparr>td_tiers := td_tiers db @ [tier]\<rparr>))))"

text \<open>
  The request handler (\<open>controllers/leagueAdmin.controller.ts\<close>, \<open>createTier\<close>): a missing or empty target is passed as null, a
  missing rank as zero.
\<close>

record tier_request =
  tr_newId :: string
  tr_groupId :: string
  tr_name :: "string option"
  tr_rank :: "rat option option"
  tr_slug :: "string option"
  tr_description :: "string option"
  tr_promotionTargetTierId :: "string option"
  tr_relegationTargetTierId :: "string option"

definition given_or_null :: "string option \<Rightarrow> string arg" where
  "given_or_null s = (if truthy s then Given (the s) else Null)"

definition createTier :: "tier_db \<Rightarrow> tier_request \<Rightarrow> tier_error + tier_db" where
  "createTier db req =
     createLeagueTier db (tr_newId req)
       \<lparr>ct_groupId = tr_groupId req, ct_name = Some (case tr_name req of None \<Rightarrow> [] | Some n \<Rightarrow> n),
        ct_rank = (case tr_rank req of None \<Rightarrow> Some 0 | Some r \<Rightarrow> r),
        ct_slug = (if truthy (tr_slug req) then tr_slug req else None),
        ct_description = (if truthy (tr_description req) then tr_description req else None),
        ct_promotionTargetTierId = given_or_null (tr_promotionTargetTierId req),
        ct_relegationTargetTierId = given_or_null (tr_relegationTargetTierId req)\<rparr>"

section \<open>The end of a season\<close>

definition find_season :: "tier_db \<Rightarrow> string \<Rightarrow> string \<Rightarrow> league_season option" where
  "find_season db leagueId season = find (\<lambda>s. ls_leagueId s = leagueId \<and> ls_season s = season) (td_seasons db)"



definition upsert_placement :: "tier_placement \<Rightarrow> tier_db \<Rightarrow> tier_db" where
  "upsert_placement p db =
     (let hit = (\<lambda>x. tp_leagueSeasonId x = tp_leagueSeasonId p \<and> tp_groupId x = tp_groupId p)
      in db\<lparr>td_placements := (if list_ex hit (td_placements db) then map (\<lambda>x. if hit x then p else x) (td_placements db)
                              else td_placements db @ [p])\<rparr>)"












section \<open>The tables as seen from one league\<close>

definition season_inv :: "tier_db \<Rightarrow> bool" where
  "season_inv db \<longleftrightarrow> distinct (map ls_id (td_seasons db)) \<and> list_all (\<lambda>i. i < td_nextId db) (map ls_id (td_seasons db))"









lemma upsert_frame [simp]: "td_seasons (upsert_placement p db) = td_seasons db" "td_nextId (upsert_placement p db) = td_nextId db"
  "find_season (upsert_placement p db) = find_season db" "season_inv (upsert_placement p db) = season_inv db"
  by (simp_all add: upsert_placement_def Let_def find_season_def season_inv_def fun_eq_iff)




section \<open>One move\<close>





section \<open>All moves\<close>










section \<open>The order within a tier\<close>















text \<open>Three leagues in two tiers, the better tier relegating to the other, the other promoting.\<close>

definition demo_tier :: "string \<Rightarrow> int \<Rightarrow> string option \<Rightarrow> string option \<Rightarrow> league_tier" where
  "demo_tier i r p q = \<lparr>lt_id = i, lt_groupId = ''g'', lt_name = i, lt_slug = i, lt_rank = r, lt_description = None,
     lt_promotionTargetTierId = p, lt_relegationTargetTierId = q\<rparr>"

definition demo_season_row :: "nat \<Rightarrow> string \<Rightarrow> string \<Rightarrow> league_season" where
  "demo_season_row i L t = \<lparr>ls_id = i, ls_leagueId = L, ls_season = ''2025/26'', ls_tierGroupId = Some ''g'', ls_tierId = Some t, ls_previousSeasonId = None\<rparr>"

definition demo_ladder :: tier_db where
  "demo_ladder = \<lparr>td_groups = [\<lparr>tg_id = ''g'', tg_name = ''Ladder'', tg_slug = ''ladder'', tg_description = None, tg_season = ''2025/26'', tg_isActive = True\<rparr>],
     td_tiers = [demo_tier ''high'' 1 None (Some ''low''), demo_tier ''low'' 2 (Some ''high'') None],
     td_seasons = [demo_season_row 0 ''A'' ''high'', demo_season_row 1 ''B'' ''high'', demo_season_row 2 ''C'' ''low''],
     td_placements = [], td_nextId = 3\<rparr>"


section \<open>Creating tiers\<close>

definition serve_tier :: "tier_db \<Rightarrow> tier_request \<Rightarrow> tier_db" where
  "serve_tier db req = (case createTier db req of Inl e \<Rightarrow> db | Inr db' \<Rightarrow> db')"

lemma createLeagueTier_targets:
  assumes "createLeagueTier db i input = Inr db'"
  shows "ct_promotionTargetTierId input \<noteq> ct_relegationTargetTierId input"
    "\<not> target_missing db (ct_groupId input) (ct_promotionTargetTierId input)" "\<not> target_missing db (ct_groupId input) (ct_relegationTargetTierId input)"
  using assms by (auto simp: createLeagueTier_def Let_def split: if_splits option.splits)

lemma createTier_first:
  assumes "td_tiers db = []"
  shows "\<exists>e. createTier db req = Inl e"
proof (cases "createTier db req")
  case (Inr db')
  have "given_or_null (tr_promotionTargetTierId req) = Null" "given_or_null (tr_relegationTargetTierId req) = Null"
    using createLeagueTier_targets(2,3) [OF Inr [unfolded createTier_def]] assms
    by (auto simp: target_missing_def target_def given_or_null_def truthy_def split: if_splits)
  then show ?thesis using createLeagueTier_targets(1) [OF Inr [unfolded createTier_def]] by simp
qed simp

text \<open>
  C28. No tier can ever be created through the interface. A tier without targets is refused because its two missing targets are equal, and a
  tier with a target needs a tier that is already there; so after any requests on a ladder without tiers there is still none.
\<close>

theorem no_tier_through_the_api:
  assumes "td_tiers db = []"
  shows "td_tiers (foldl serve_tier db reqs) = []"
  using assms
proof (induction reqs arbitrary: db)
  case (Cons req reqs)
  obtain e where "createTier db req = Inl e" using createTier_first [OF Cons.prems] by blast
  then have "serve_tier db req = db" by (simp add: serve_tier_def)
  then show ?case using Cons by simp
qed simp

definition demo_request :: tier_request where
  "demo_request = \<lparr>tr_newId = ''t'', tr_groupId = ''g'', tr_name = Some ''Premier'', tr_rank = Some (Some 1), tr_slug = None, tr_description = None,
     tr_promotionTargetTierId = None, tr_relegationTargetTierId = None\<rparr>"

theorem no_tier_through_the_api_witness:
  "td_tiers (foldl serve_tier (demo_ladder\<lparr>td_tiers := []\<rparr>) [demo_request]) = [] \<and>
   createTier (demo_ladder\<lparr>td_tiers := []\<rparr>) demo_request = Inl SameTarget"
proof
  show "td_tiers (foldl serve_tier (demo_ladder\<lparr>td_tiers := []\<rparr>) [demo_request]) = []"
    by (rule no_tier_through_the_api) simp
qed code_simp

end
