(* ===== verification/Audit_Log.thy ===== *)
theory Audit_Log
  imports FX_Strings "HOL-Library.Sublist"
begin

text \<open>
  The buffered audit log of money movements (\<open>backend/src/services/audit/financialAuditLog.ts\<close>): entries are
  queued in memory, written in batches, put back when a write fails, and dropped from the front when the buffer
  overflows.

  The logger runs on an event loop. A call runs without interruption up to the write of a batch, so the state
  between two calls is: the buffer, the batch being written (\<open>flushing\<close> is set exactly then), the timer, the
  number of callers that wait for the running flush, the rows written and the number of entries dropped. The
  operations are the synchronous parts of the methods; \<open>written\<close> and \<open>write_failed\<close> are what runs when
  the database answers. The machine does not look into the entries.
\<close>

section \<open>Entries\<close>

datatype audit_action =
    DEPOSIT_SUBMITTED | DEPOSIT_CONFIRMED | DEPOSIT_FAILED | WITHDRAWAL | Audit_REFUND | FEE_EXTRACTION
  | PAYOUT_DEAD_LETTERED | PAYOUT_RETRY_SCHEDULED | PAYOUT_RETRY_SUCCEEDED | PAYOUT_RETRY_FAILED | PAYOUT_DISCARDED
  | RECONCILIATION_BALANCED | RECONCILIATION_DISCREPANCY

datatype meta_value = MetaText string | MetaTexts "string list" | MetaNumber rat | MetaBool bool | MetaNull

type_synonym metadata = "(string \<times> meta_value) list"

definition SYSTEM_ACTOR :: string where "SYSTEM_ACTOR = ''system''"

text \<open>An input; a missing field and null are not told apart, as the code does not.\<close>

record audit_input =
  ai_action :: audit_action
  ai_userId :: "string option"
  ai_actorId :: "string option"
  ai_leagueId :: "string option"
  ai_transactionId :: "string option"
  ai_amount :: "rat option"
  ai_asset :: "string option"
  ai_stellarTxHash :: "string option"
  ai_metadata :: metadata

record audit_entry =
  ae_action :: audit_action
  ae_userId :: "string option"
  ae_actorId :: string
  ae_leagueId :: "string option"
  ae_transactionId :: "string option"
  ae_amount :: "string option"
  ae_asset :: "string option"
  ae_stellarTxHash :: "string option"
  ae_metadata :: metadata
  ae_createdAt :: int

text \<open>\<open>text_of\<close> is the decimal text of a number or of the database's decimal.\<close>

definition normalizeAmount :: "(rat \<Rightarrow> string) \<Rightarrow> rat option \<Rightarrow> string option" where
  "normalizeAmount text_of amount =
     (case amount of None \<Rightarrow> None | Some a \<Rightarrow> if trim_ws (text_of a) = [] then None else Some (text_of a))"

definition entry_of :: "(rat \<Rightarrow> string) \<Rightarrow> int \<Rightarrow> audit_input \<Rightarrow> audit_entry" where
  "entry_of text_of now i =
     \<lparr>ae_action = ai_action i, ae_userId = ai_userId i,
      ae_actorId = (case ai_actorId i of None \<Rightarrow> SYSTEM_ACTOR | Some a \<Rightarrow> a), ae_leagueId = ai_leagueId i,
      ae_transactionId = ai_transactionId i, ae_amount = normalizeAmount text_of (ai_amount i), ae_asset = ai_asset i,
      ae_stellarTxHash = ai_stellarTxHash i, ae_metadata = ai_metadata i, ae_createdAt = now\<rparr>"

record audit_query =
  aq_userId :: "string option"
  aq_leagueId :: "string option"
  aq_action :: "audit_action option"
  aq_from :: "int option"
  aq_to :: "int option"
  aq_limit :: "int option"

definition matches_query :: "audit_query \<Rightarrow> audit_entry \<Rightarrow> bool" where
  "matches_query q e \<longleftrightarrow>
     (case aq_userId q of None \<Rightarrow> True | Some u \<Rightarrow> u = [] \<or> ae_userId e = Some u) \<and>
     (case aq_leagueId q of None \<Rightarrow> True | Some l \<Rightarrow> l = [] \<or> ae_leagueId e = Some l) \<and>
     (case aq_action q of None \<Rightarrow> True | Some a \<Rightarrow> ae_action e = a) \<and>
     (case aq_from q of None \<Rightarrow> True | Some t \<Rightarrow> t \<le> ae_createdAt e) \<and>
     (case aq_to q of None \<Rightarrow> True | Some t \<Rightarrow> ae_createdAt e \<le> t)"

definition query_audit :: "audit_query \<Rightarrow> audit_entry list \<Rightarrow> audit_entry list" where
  "query_audit q rows =
     take (nat (min (max (case aq_limit q of None \<Rightarrow> 100 | Some n \<Rightarrow> n) 1) 500))
       (js_sort (desc (\<lambda>e. of_int (ae_createdAt e))) (filter (matches_query q) rows))"

section \<open>The logger\<close>

record audit_options =
  ao_batchSize :: nat
  ao_maxBufferSize :: nat

definition default_options :: audit_options where
  "default_options = \<lparr>ao_batchSize = 100, ao_maxBufferSize = 10000\<rparr>"

record 'e audit_log =
  al_buffer :: "'e list"
  al_inflight :: "'e list option"
  al_timer :: bool
  al_waiting :: nat
  al_table :: "'e list"
  al_dropped :: nat

definition new_log :: "'e audit_log" where
  "new_log = \<lparr>al_buffer = [], al_inflight = None, al_timer = False, al_waiting = 0, al_table = [], al_dropped = 0\<rparr>"

definition trimBuffer :: "audit_options \<Rightarrow> 'e audit_log \<Rightarrow> 'e audit_log" where
  "trimBuffer cfg s =
     (let overflow = length (al_buffer s) - ao_maxBufferSize cfg
      in if overflow > 0
         then s\<lparr>al_buffer := drop overflow (al_buffer s), al_dropped := al_dropped s + overflow\<rparr> else s)"

definition scheduleFlush :: "'e audit_log \<Rightarrow> 'e audit_log" where
  "scheduleFlush s = s\<lparr>al_timer := True\<rparr>"

text \<open>One round of the loop of \<open>drain\<close>, up to the write.\<close>

definition write_batch :: "audit_options \<Rightarrow> 'e audit_log \<Rightarrow> 'e audit_log" where
  "write_batch cfg s =
     s\<lparr>al_inflight := Some (take (ao_batchSize cfg) (al_buffer s)), al_buffer := drop (ao_batchSize cfg) (al_buffer s)\<rparr>"

definition drain :: "audit_options \<Rightarrow> 'e audit_log \<Rightarrow> 'e audit_log" where
  "drain cfg s = write_batch cfg (s\<lparr>al_timer := False\<rparr>)"

definition flush :: "audit_options \<Rightarrow> 'e audit_log \<Rightarrow> 'e audit_log" where
  "flush cfg s =
     (if al_inflight s \<noteq> None then s\<lparr>al_waiting := al_waiting s + 1\<rparr>
      else if al_buffer s = [] then s else drain cfg s)"

definition record_entry :: "audit_options \<Rightarrow> 'e \<Rightarrow> 'e audit_log \<Rightarrow> 'e audit_log" where
  "record_entry cfg e s =
     (let s1 = trimBuffer cfg (s\<lparr>al_buffer := al_buffer s @ [e]\<rparr>)
      in if ao_batchSize cfg \<le> length (al_buffer s1) then flush cfg s1 else scheduleFlush s1)"

definition timer_fires :: "audit_options \<Rightarrow> 'e audit_log \<Rightarrow> 'e audit_log" where
  "timer_fires cfg s = flush cfg (s\<lparr>al_timer := False\<rparr>)"

definition close_log :: "audit_options \<Rightarrow> 'e audit_log \<Rightarrow> 'e audit_log" where
  "close_log cfg s = flush cfg (s\<lparr>al_timer := False\<rparr>)"

text \<open>
  The end of a flush: \<open>flushing\<close> is reset and the waiting callers go on in order. With an empty buffer
  they all return; otherwise the first drains and the others wait again.
\<close>

definition wake :: "audit_options \<Rightarrow> 'e audit_log \<Rightarrow> 'e audit_log" where
  "wake cfg s =
     (let s1 = s\<lparr>al_inflight := None\<rparr>
      in if al_buffer s = [] then s1\<lparr>al_waiting := 0\<rparr>
         else if al_waiting s = 0 then s1
         else drain cfg (s1\<lparr>al_waiting := al_waiting s - 1\<rparr>))"

definition written :: "audit_options \<Rightarrow> 'e audit_log \<Rightarrow> 'e audit_log" where
  "written cfg s =
     (let s1 = s\<lparr>al_table := al_table s @ (case al_inflight s of None \<Rightarrow> [] | Some b \<Rightarrow> b)\<rparr>
      in if al_buffer s \<noteq> [] then write_batch cfg s1 else wake cfg s1)"

definition write_failed :: "audit_options \<Rightarrow> 'e audit_log \<Rightarrow> 'e audit_log" where
  "write_failed cfg s =
     (let batch = (case al_inflight s of None \<Rightarrow> [] | Some b \<Rightarrow> b)
      in wake cfg (scheduleFlush (trimBuffer cfg (s\<lparr>al_buffer := batch @ al_buffer s\<rparr>))))"

datatype 'e audit_event = Record 'e | TimerFires | CloseLog | Written | WriteFailed

inductive log_step :: "audit_options \<Rightarrow> 'e audit_log \<Rightarrow> 'e audit_event \<Rightarrow> 'e audit_log \<Rightarrow> bool" for cfg where
  step_record: "log_step cfg s (Record e) (record_entry cfg e s)"
| step_timer: "al_timer s \<Longrightarrow> log_step cfg s TimerFires (timer_fires cfg s)"
| step_close: "log_step cfg s CloseLog (close_log cfg s)"
| step_written: "al_inflight s \<noteq> None \<Longrightarrow> log_step cfg s Written (written cfg s)"
| step_failed: "al_inflight s \<noteq> None \<Longrightarrow> log_step cfg s WriteFailed (write_failed cfg s)"

inductive log_steps :: "audit_options \<Rightarrow> 'e audit_log \<Rightarrow> 'e audit_event list \<Rightarrow> 'e audit_log \<Rightarrow> bool" for cfg where
  steps_refl: "log_steps cfg s [] s"
| steps_snoc: "log_steps cfg s evs s' \<Longrightarrow> log_step cfg s' ev s'' \<Longrightarrow> log_steps cfg s (evs @ [ev]) s''"

text \<open>The entries of a run in the order they were recorded.\<close>

fun recorded :: "'e audit_event list \<Rightarrow> 'e list" where
  "recorded [] = []"
| "recorded (Record e # evs) = e # recorded evs"
| "recorded (_ # evs) = recorded evs"


text \<open>The step relation as a function, to run it.\<close>

definition do_event :: "audit_options \<Rightarrow> 'e audit_event \<Rightarrow> 'e audit_log \<Rightarrow> 'e audit_log option" where
  "do_event cfg ev s =
     (case ev of
        Record e \<Rightarrow> Some (record_entry cfg e s)
      | TimerFires \<Rightarrow> if al_timer s then Some (timer_fires cfg s) else None
      | CloseLog \<Rightarrow> Some (close_log cfg s)
      | Written \<Rightarrow> if al_inflight s \<noteq> None then Some (written cfg s) else None
      | WriteFailed \<Rightarrow> if al_inflight s \<noteq> None then Some (write_failed cfg s) else None)"

fun run_events :: "audit_options \<Rightarrow> 'e audit_event list \<Rightarrow> 'e audit_log \<Rightarrow> 'e audit_log option" where
  "run_events cfg [] s = Some s"
| "run_events cfg (ev # evs) s = Option.bind (do_event cfg ev s) (run_events cfg evs)"

section \<open>What the logger keeps\<close>

definition batch_of :: "'e audit_log \<Rightarrow> 'e list" where
  "batch_of s = (case al_inflight s of None \<Rightarrow> [] | Some b \<Rightarrow> b)"

definition kept :: "'e audit_log \<Rightarrow> 'e list" where
  "kept s = al_table s @ batch_of s @ al_buffer s"

lemma trimBuffer_simps [simp]:
  "al_buffer (trimBuffer cfg s) = drop (length (al_buffer s) - ao_maxBufferSize cfg) (al_buffer s)"
  "al_dropped (trimBuffer cfg s) = al_dropped s + (length (al_buffer s) - ao_maxBufferSize cfg)"
  "al_inflight (trimBuffer cfg s) = al_inflight s" "al_timer (trimBuffer cfg s) = al_timer s"
  "al_waiting (trimBuffer cfg s) = al_waiting s" "al_table (trimBuffer cfg s) = al_table s"
  by (simp_all add: trimBuffer_def Let_def)

lemma kept_flush [simp]: "kept (flush cfg s) = kept s" "al_dropped (flush cfg s) = al_dropped s"
  by (auto simp: flush_def kept_def batch_of_def drain_def write_batch_def)

lemma kept_wake [simp]: "kept (wake cfg s) = al_table s @ al_buffer s" "al_dropped (wake cfg s) = al_dropped s"
  by (auto simp: wake_def kept_def batch_of_def drain_def write_batch_def Let_def)

lemma kept_written [simp]: "kept (written cfg s) = kept s" "al_dropped (written cfg s) = al_dropped s"
  by (simp_all add: written_def Let_def) (auto simp: write_batch_def kept_def batch_of_def split: option.splits)

lemma kept_timer_fires [simp]: "kept (timer_fires cfg s) = kept s" "al_dropped (timer_fires cfg s) = al_dropped s"
  by (simp_all add: timer_fires_def) (simp add: kept_def batch_of_def)

lemma kept_close_log [simp]: "kept (close_log cfg s) = kept s" "al_dropped (close_log cfg s) = al_dropped s"
  by (simp_all add: close_log_def) (simp add: kept_def batch_of_def)

lemma kept_record_entry:
  "kept (record_entry cfg e s) =
     al_table s @ batch_of s @ drop (length (al_buffer s) + 1 - ao_maxBufferSize cfg) (al_buffer s @ [e])"
  "al_dropped (record_entry cfg e s) = al_dropped s + (length (al_buffer s) + 1 - ao_maxBufferSize cfg)"
  by (simp_all add: record_entry_def Let_def scheduleFlush_def) (simp_all add: kept_def batch_of_def)

lemma kept_write_failed:
  "kept (write_failed cfg s) =
     al_table s @ drop (length (batch_of s @ al_buffer s) - ao_maxBufferSize cfg) (batch_of s @ al_buffer s)"
  "al_dropped (write_failed cfg s) = al_dropped s + (length (batch_of s @ al_buffer s) - ao_maxBufferSize cfg)"
  by (simp_all add: write_failed_def Let_def scheduleFlush_def batch_of_def)

lemma recorded_append [simp]: "recorded (a @ b) = recorded a @ recorded b"
  by (induction a rule: recorded.induct) auto

lemma subseq_drop: "subseq (drop n xs) xs"
  by (metis append_take_drop_id list_emb_append2 subseq_order.order_refl)

lemma step_conserves:
  assumes "log_step cfg s ev s'" and "subseq (kept s) es" "length es = length (kept s) + al_dropped s"
  shows "subseq (kept s') (es @ recorded [ev]) \<and> length (es @ recorded [ev]) = length (kept s') + al_dropped s'"
  using assms(1)
proof (cases rule: log_step.cases)
  case (step_record e)
  have "subseq (kept s') (kept s @ [e])"
    unfolding step_record kept_record_entry unfolding kept_def append.assoc by (intro list_emb_append_mono subseq_drop) simp_all
  also have "subseq (kept s @ [e]) (es @ [e])" using assms(2) by (simp add: list_emb_append_mono)
  finally show ?thesis using assms(3) step_record by (simp add: kept_record_entry) (simp add: kept_def)
next
  case step_failed
  have "subseq (kept s') (kept s)"
    unfolding step_failed kept_write_failed unfolding kept_def by (intro list_emb_append_mono subseq_drop) simp_all
  also have "subseq (kept s) es" by (fact assms(2))
  finally show ?thesis using assms(3) step_failed by (simp add: kept_write_failed) (simp add: kept_def)
qed (use assms in simp_all)

lemma run_conserves:
  "log_steps cfg s0 evs s \<Longrightarrow> s0 = new_log \<Longrightarrow>
   subseq (kept s) (recorded evs) \<and> length (recorded evs) = length (kept s) + al_dropped s"
proof (induction rule: log_steps.induct)
  case (steps_refl s)
  then show ?case by (simp add: new_log_def kept_def batch_of_def)
next
  case (steps_snoc s evs s' ev s'')
  then show ?case using step_conserves [OF steps_snoc.hyps(2)] by auto
qed

lemma steps_append:
  assumes "log_steps cfg s1 evs2 s2" and "log_steps cfg s evs1 s1"
  shows "log_steps cfg s (evs1 @ evs2) s2"
  using assms
proof (induction rule: log_steps.induct)
  case (steps_refl s1)
  then show ?case by simp
next
  case (steps_snoc s1 evs s' ev s'')
  then show ?case unfolding append.assoc [symmetric] by (blast intro: log_steps.steps_snoc)
qed

lemma step_one: "log_step cfg s ev s' \<Longrightarrow> log_steps cfg s [ev] s'"
  using steps_snoc [OF steps_refl] by fastforce

lemma do_event_step: "do_event cfg ev s = Some s' \<longleftrightarrow> log_step cfg s ev s'"
  by (cases ev) (auto simp: do_event_def intro: log_step.intros elim: log_step.cases)

lemma run_events_steps: "run_events cfg evs s = Some s' \<Longrightarrow> log_steps cfg s evs s'"
proof (induction evs arbitrary: s)
  case Nil
  then show ?case by (simp add: steps_refl)
next
  case (Cons ev evs)
  then obtain t where "log_step cfg s ev t" "log_steps cfg t evs s'"
    by (auto simp: do_event_step Option.bind_eq_Some_conv)
  then show ?case using steps_append [OF _ step_one] by fastforce
qed

section \<open>The state between two calls\<close>

definition log_ok :: "audit_options \<Rightarrow> 'e audit_log \<Rightarrow> bool" where
  "log_ok cfg s \<longleftrightarrow>
     length (al_buffer s) \<le> ao_maxBufferSize cfg \<and>
     (case al_inflight s of None \<Rightarrow> al_waiting s = 0 \<and> (al_buffer s \<noteq> [] \<longrightarrow> al_timer s)
      | Some b \<Rightarrow> b \<noteq> [] \<and> length b \<le> ao_batchSize cfg)"

lemma log_ok_flush:
  assumes "0 < ao_batchSize cfg" "length (al_buffer s) \<le> ao_maxBufferSize cfg"
    "case al_inflight s of None \<Rightarrow> al_waiting s = 0 | Some b \<Rightarrow> b \<noteq> [] \<and> length b \<le> ao_batchSize cfg"
  shows "log_ok cfg (flush cfg s)"
  using assms by (auto simp: log_ok_def flush_def drain_def write_batch_def split: option.splits)

lemma log_ok_flush_now:
  assumes "log_ok cfg s" "0 < ao_batchSize cfg"
  shows "log_ok cfg (flush cfg (s\<lparr>al_timer := False\<rparr>))"
  by (rule log_ok_flush) (use assms in \<open>auto simp: log_ok_def split: option.splits\<close>)

lemma log_ok_wake:
  assumes "0 < ao_batchSize cfg" "length (al_buffer s) \<le> ao_maxBufferSize cfg" "al_buffer s \<noteq> [] \<Longrightarrow> al_timer s"
  shows "log_ok cfg (wake cfg s)"
  using assms by (auto simp: log_ok_def wake_def drain_def write_batch_def Let_def)

lemma log_ok_step:
  assumes "log_step cfg s ev s'" "log_ok cfg s" "0 < ao_batchSize cfg"
  shows "log_ok cfg s'"
  using assms(1)
proof (cases rule: log_step.cases)
  case (step_record e)
  let ?s1 = "trimBuffer cfg (s\<lparr>al_buffer := al_buffer s @ [e]\<rparr>)"
  have "log_ok cfg (flush cfg ?s1)" using assms(2,3) by (intro log_ok_flush) (auto simp: log_ok_def split: option.splits)
  moreover have "log_ok cfg (scheduleFlush ?s1)" using assms(2) by (auto simp: log_ok_def scheduleFlush_def split: option.splits)
  ultimately show ?thesis using step_record by (simp add: record_entry_def Let_def)
next
  case step_timer
  then show ?thesis using assms(2,3) by (simp add: timer_fires_def log_ok_flush_now)
next
  case step_close
  then show ?thesis using assms(2,3) by (simp add: close_log_def log_ok_flush_now)
next
  case step_written
  show ?thesis
  proof (cases "al_buffer s = []")
    case True
    then show ?thesis using step_written assms(3) by (auto simp: written_def Let_def intro!: log_ok_wake)
  next
    case False
    then show ?thesis using step_written assms(2,3) by (auto simp: written_def Let_def write_batch_def log_ok_def)
  qed
next
  case step_failed
  then show ?thesis using assms(3) by (auto simp: write_failed_def Let_def scheduleFlush_def intro!: log_ok_wake)
qed

lemma log_ok_run: "log_steps cfg s0 evs s \<Longrightarrow> s0 = new_log \<Longrightarrow> 0 < ao_batchSize cfg \<Longrightarrow> log_ok cfg s"
  by (induction rule: log_steps.induct) (auto simp: new_log_def log_ok_def dest: log_ok_step)

text \<open>
  C36. The audit log never reorders or invents entries: whatever calls, timers and answers of the database interleave,
  the rows written, the batch under way and the buffer are in this order a subsequence of the recorded entries, and
  every entry that is missing is counted as dropped. While nothing was dropped they are all there. Buffer and batch
  stay within their limits.
\<close>
theorem audit_log_conserves:
  assumes "log_steps cfg new_log evs s" and "0 < ao_batchSize cfg"
  shows "subseq (al_table s @ batch_of s @ al_buffer s) (recorded evs)
    \<and> length (recorded evs) = length (al_table s @ batch_of s @ al_buffer s) + al_dropped s
    \<and> (al_dropped s = 0 \<longrightarrow> al_table s @ batch_of s @ al_buffer s = recorded evs)
    \<and> length (al_buffer s) \<le> ao_maxBufferSize cfg \<and> length (batch_of s) \<le> ao_batchSize cfg"
proof -
  have c: "subseq (kept s) (recorded evs)" "length (recorded evs) = length (kept s) + al_dropped s"
    using run_conserves [OF assms(1)] by auto
  have "al_dropped s = 0 \<longrightarrow> kept s = recorded evs" using subseq_same_length [OF c(1)] c(2) by simp
  moreover have "length (al_buffer s) \<le> ao_maxBufferSize cfg \<and> length (batch_of s) \<le> ao_batchSize cfg"
    using log_ok_run [OF assms(1) refl assms(2)] by (auto simp: log_ok_def batch_of_def split: option.splits)
  ultimately show ?thesis using c unfolding kept_def by blast
qed

text \<open>Four entries with batches of two: a batch fails while the others come in, and is written again.\<close>

definition demo_log_options :: audit_options where
  "demo_log_options = \<lparr>ao_batchSize = 2, ao_maxBufferSize = 4\<rparr>"

definition demo_events :: "nat audit_event list" where
  "demo_events = [Record 1, Record 2, Record 3, WriteFailed, Record 4, Written]"

definition demo_log :: "nat audit_log" where
  "demo_log = the (run_events demo_log_options demo_events new_log)"

lemma demo_log_run: "log_steps demo_log_options new_log demo_events demo_log"
proof -
  have "run_events demo_log_options demo_events new_log \<noteq> None" by code_simp
  then show ?thesis unfolding demo_log_def by (intro run_events_steps) simp
qed

theorem audit_log_conserves_witness:
  "log_steps demo_log_options new_log demo_events demo_log \<and> al_dropped demo_log = 0 \<and>
   al_table demo_log @ batch_of demo_log @ al_buffer demo_log = [1, 2, 3, 4]"
proof -
  have "al_dropped demo_log = 0" "0 < ao_batchSize demo_log_options" by code_simp+
  then show ?thesis using audit_log_conserves [OF demo_log_run] demo_log_run by (simp add: demo_events_def)
qed

section \<open>Everything is written\<close>

lemma inflight_drains:
  assumes "al_inflight s \<noteq> None" and "0 < ao_batchSize cfg"
  shows "\<exists>n s'. n \<le> length (al_buffer s) + 1 \<and> log_steps cfg s (replicate n Written) s' \<and>
           al_buffer s' = [] \<and> al_inflight s' = None \<and> al_table s' = kept s"
  using assms(1)
proof (induction "length (al_buffer s)" arbitrary: s rule: less_induct)
  case less
  let ?t = "written cfg s"
  have step: "log_steps cfg s [Written] ?t" using less.prems by (intro step_one step_written)
  show ?case
  proof (cases "al_buffer s = []")
    case True
    then have "al_buffer ?t = []" "al_inflight ?t = None" by (simp_all add: written_def wake_def Let_def)
    moreover from this have "al_table ?t = kept s" using kept_written(1) [of cfg s] by (simp add: kept_def batch_of_def)
    ultimately show ?thesis using step by (intro exI [of _ "1 :: nat"] exI [of _ ?t]) simp
  next
    case False
    then have t: "al_inflight ?t \<noteq> None" "length (al_buffer ?t) < length (al_buffer s)"
      using assms(2) by (simp_all add: written_def write_batch_def Let_def)
    then obtain n s' where n: "n \<le> length (al_buffer ?t) + 1" "log_steps cfg ?t (replicate n Written) s'"
      "al_buffer s' = []" "al_inflight s' = None" "al_table s' = kept ?t"
      using less.hyps [OF t(2) t(1)] by blast
    have "log_steps cfg s (replicate (Suc n) Written) s'" using steps_append [OF n(2) step] by simp
    then show ?thesis using n t(2) by (intro exI [of _ "Suc n"] exI [of _ s']) simp
  qed
qed

text \<open>
  Buffered entries do not get stuck: whenever entries wait and no write is under way the timer is set, and from
  every state the logger can reach, once the timer fires (if it must) and the database accepts the writes, everything
  that was kept is in the table, in order, after at most one write per entry and one more.
\<close>
theorem audit_log_drains:
  assumes "log_steps cfg new_log evs s" and "0 < ao_batchSize cfg"
  shows "(al_inflight s = None \<and> al_buffer s \<noteq> [] \<longrightarrow> al_timer s) \<and>
    (\<exists>n s'. n \<le> length (al_buffer s) + 1 \<and>
       log_steps cfg s ((if al_inflight s = None \<and> al_buffer s \<noteq> [] then [TimerFires] else []) @ replicate n Written) s' \<and>
       al_buffer s' = [] \<and> al_inflight s' = None \<and> al_table s' = al_table s @ batch_of s @ al_buffer s)"
proof (rule conjI)
  have ok: "log_ok cfg s" by (rule log_ok_run [OF assms(1) refl assms(2)])
  then show timer: "al_inflight s = None \<and> al_buffer s \<noteq> [] \<longrightarrow> al_timer s" by (auto simp: log_ok_def)
  show "\<exists>n s'. n \<le> length (al_buffer s) + 1 \<and>
       log_steps cfg s ((if al_inflight s = None \<and> al_buffer s \<noteq> [] then [TimerFires] else []) @ replicate n Written) s' \<and>
       al_buffer s' = [] \<and> al_inflight s' = None \<and> al_table s' = al_table s @ batch_of s @ al_buffer s"
  proof (cases "al_inflight s = None \<and> al_buffer s \<noteq> []")
    case True
    let ?t = "timer_fires cfg s"
    have step: "log_steps cfg s [TimerFires] ?t" using True timer by (intro step_one step_timer) simp
    have t: "al_inflight ?t \<noteq> None" "length (al_buffer ?t) \<le> length (al_buffer s)"
      using True by (auto simp: timer_fires_def flush_def drain_def write_batch_def)
    obtain n s' where n: "n \<le> length (al_buffer ?t) + 1" "log_steps cfg ?t (replicate n Written) s'"
      "al_buffer s' = []" "al_inflight s' = None" "al_table s' = kept ?t"
      using inflight_drains [OF t(1) assms(2)] by blast
    show ?thesis using steps_append [OF n(2) step] n t(2) True
      by (intro exI [of _ n] exI [of _ s']) (simp add: kept_def [of s, symmetric])
  next
    case False
    show ?thesis
    proof (cases "al_inflight s = None")
      case True
      then show ?thesis using False
        by (intro exI [of _ "0 :: nat"] exI [of _ s]) (simp add: batch_of_def steps_refl)
    next
      case inflight: False
      then show ?thesis using inflight_drains [OF inflight assms(2)] unfolding if_not_P [OF False] kept_def by simp
    qed
  qed
qed

theorem audit_log_drains_witness:
  "al_table demo_log = [1, 2] \<and>
   (\<exists>n s'. n \<le> length (al_buffer demo_log) + 1 \<and>
      log_steps demo_log_options demo_log (replicate n Written) s' \<and> al_table s' = [1, 2, 3, 4])"
proof -
  have "0 < ao_batchSize demo_log_options" "al_inflight demo_log \<noteq> None" "al_table demo_log = [1, 2]"
    "al_table demo_log @ batch_of demo_log @ al_buffer demo_log = [1, 2, 3, 4]" by code_simp+
  then show ?thesis using audit_log_drains [OF demo_log_run] by (auto simp del: One_nat_def) blast
qed

end
