(* ===== verification/Dead_Letters.thy ===== *)
theory Dead_Letters
  imports Audit_Log
begin

text \<open>
  The dead-letter queue of payouts (\<open>backend/src/services/financial/payoutDeadLetterService.ts\<close>): failed payouts,
  their classification by error text, claiming them for a retry, and the retry schedule.

  The queue is a table of rows in the order of creation with a counter for keys; the entries the service sends to
  the audit log are kept in order next to it. The clock and the random number of the jitter are arguments. A regular
  expression of the source is a list of alternatives, each a list of atoms, matched by backtracking.
\<close>

section \<open>Regular expressions\<close>

datatype regex_atom = One "char \<Rightarrow> bool" | Maybe "char \<Rightarrow> bool" | Many "char \<Rightarrow> bool" | WordEdge

definition is_digit_char :: "char \<Rightarrow> bool" where
  "is_digit_char c \<longleftrightarrow> (let n = of_char c :: nat in 48 \<le> n \<and> n \<le> 57)"

definition is_word_char :: "char \<Rightarrow> bool" where
  "is_word_char c \<longleftrightarrow> (let n = of_char c :: nat in 48 \<le> n \<and> n \<le> 57 \<or> 65 \<le> n \<and> n \<le> 90 \<or> n = 95 \<or> 97 \<le> n \<and> n \<le> 122)"

definition fold_case :: "char \<Rightarrow> char" where
  "fold_case c = (let n = of_char c :: nat in if 65 \<le> n \<and> n \<le> 90 then char_of (n + 32) else c)"

text \<open>The dot: any character but a line terminator.\<close>

definition not_newline :: "char \<Rightarrow> bool" where
  "not_newline c \<longleftrightarrow> (let n = of_char c :: nat in n \<noteq> 10 \<and> n \<noteq> 13)"

definition word_at :: "char option \<Rightarrow> bool" where
  "word_at c = (case c of None \<Rightarrow> False | Some c \<Rightarrow> is_word_char c)"

definition head_char :: "string \<Rightarrow> char option" where
  "head_char s = (case s of [] \<Rightarrow> None | c # _ \<Rightarrow> Some c)"

fun match_here :: "char option \<Rightarrow> regex_atom list \<Rightarrow> string \<Rightarrow> bool" where
  "match_here p [] s = True"
| "match_here p (One q # r) [] = False"
| "match_here p (One q # r) (c # s) = (q c \<and> match_here (Some c) r s)"
| "match_here p (Maybe q # r) [] = match_here p r []"
| "match_here p (Maybe q # r) (c # s) = (q c \<and> match_here (Some c) r s \<or> match_here p r (c # s))"
| "match_here p (Many q # r) [] = match_here p r []"
| "match_here p (Many q # r) (c # s) = (q c \<and> match_here (Some c) (Many q # r) s \<or> match_here p r (c # s))"
| "match_here p (WordEdge # r) s = (word_at p \<noteq> word_at (head_char s) \<and> match_here p r s)"

fun match_from :: "char option \<Rightarrow> regex_atom list \<Rightarrow> string \<Rightarrow> bool" where
  "match_from p r [] = match_here p r []"
| "match_from p r (c # s) = (match_here p r (c # s) \<or> match_from (Some c) r s)"

definition regex_test :: "regex_atom list list \<Rightarrow> string \<Rightarrow> bool" where
  "regex_test alternatives s = list_ex (\<lambda>r. match_from None r s) alternatives"

text \<open>A literal, with and without the flag \<open>i\<close>.\<close>

definition lit :: "string \<Rightarrow> regex_atom list" where
  "lit w = map (\<lambda>a. One (\<lambda>c. c = a)) w"

definition liti :: "string \<Rightarrow> regex_atom list" where
  "liti w = map (\<lambda>a. One (\<lambda>c. fold_case c = fold_case a)) w"

definition opti :: "char \<Rightarrow> regex_atom" where
  "opti a = Maybe (\<lambda>c. fold_case c = fold_case a)"

definition RECOVERABLE_ERROR_PATTERNS :: "regex_atom list list list" where
  "RECOVERABLE_ERROR_PATTERNS =
     [[liti ''not confirmed in time''],
      [liti ''TRY_AGAIN_LATER''],
      [liti ''time'' @ [opti (CHR ''d''), opti (CHR '' '')] @ liti ''out'', liti ''ETIMEDOUT'', liti ''ESOCKETTIMEDOUT''],
      [liti ''ECONNRESET'', liti ''ECONNREFUSED'', liti ''ENOTFOUND'', liti ''EAI_AGAIN'', liti ''socket hang up''],
      [liti ''network error'', liti ''fetch failed''],
      [WordEdge # lit ''429'' @ [WordEdge], WordEdge # lit ''502'' @ [WordEdge], WordEdge # lit ''503'' @ [WordEdge],
       WordEdge # lit ''504'' @ [WordEdge], liti ''rate'' @ Maybe not_newline # liti ''limit'', liti ''too many requests'',
       liti ''service unavailable'', liti ''bad gateway''],
      [liti ''tx'' @ opti (CHR ''_'') # liti ''bad'' @ opti (CHR ''_'') # liti ''seq'', liti ''txBadSeq''],
      [liti ''tx'' @ opti (CHR ''_'') # liti ''insufficient'' @ opti (CHR ''_'') # liti ''fee'', liti ''txInsufficientFee'']]"

definition NON_RECOVERABLE_ERROR_PATTERNS :: "regex_atom list list list" where
  "NON_RECOVERABLE_ERROR_PATTERNS =
     [[lit ''Error(Contract,'' @ Many is_ws # lit ''#'' @ One is_digit_char # Many is_digit_char # lit '')''],
      [lit ''MISSING_WALLET''],
      [liti ''is required'', liti ''not configured'', liti ''not provided''],
      [liti ''invalid'', liti ''malformed''],
      [liti ''underfunded'', liti ''no'' @ Maybe not_newline # liti ''trust'']]"

text \<open>The number of the first contract error in a message: the capture of the first match, read in base ten.\<close>

definition decimal_value :: "string \<Rightarrow> nat" where
  "decimal_value ds = foldl (\<lambda>n c. 10 * n + (of_char c - 48)) 0 ds"

definition code_here :: "string \<Rightarrow> nat option" where
  "code_here s =
     (let prefix = ''Error(Contract,''; s1 = dropWhile is_ws (drop (length prefix) s);
          s2 = tl s1; digits = takeWhile is_digit_char s2
      in if take (length prefix) s = prefix \<and> s1 \<noteq> [] \<and> hd s1 = CHR ''#'' \<and> digits \<noteq> []
            \<and> take 1 (drop (length digits) s2) = '')''
         then Some (decimal_value digits) else None)"

fun contract_code :: "string \<Rightarrow> nat option" where
  "contract_code [] = None"
| "contract_code (c # s) = (case code_here (c # s) of None \<Rightarrow> contract_code s | Some n \<Rightarrow> Some n)"

section \<open>The queue\<close>

datatype transaction_type = ENTRY_FEE | PLATFORM_FEE | PRIZE_PAYOUT | REFUND

datatype payout_status = Payout_PENDING | Payout_RETRYING | Payout_RESOLVED | Payout_DISCARDED

record failed_payout =
  fp_id :: nat
  fp_type :: transaction_type
  fp_leagueId :: string
  fp_memberIds :: "string list"
  fp_recipients :: "string list"
  fp_amountPerRecipient :: rat
  fp_status :: payout_status
  fp_recoverable :: bool
  fp_errorMessage :: string
  fp_errorCode :: "nat option"
  fp_attempts :: nat
  fp_lastAttemptAt :: int
  fp_retryScheduledAt :: "int option"
  fp_nextRetryAt :: "int option"
  fp_resolvedAt :: "int option"
  fp_resolvedById :: "string option"
  fp_resolutionNote :: "string option"
  fp_retryTxHash :: "string option"
  fp_createdAt :: int

record dead_letters =
  dl_rows :: "failed_payout list"
  dl_nextId :: nat
  dl_audit :: "audit_input list"

datatype dead_letter_error = DeadLetterNotFound nat | DeadLetterConflict nat payout_status | ReasonRequired

definition MAX_AUTOMATIC_ATTEMPTS :: nat where "MAX_AUTOMATIC_ATTEMPTS = 3"

definition BACKOFF_BASE_MS :: rat where "BACKOFF_BASE_MS = 1000"

definition BACKOFF_MAX_MS :: rat where "BACKOFF_MAX_MS = 30 * 60 * 1000"

definition STALE_RETRY_MS :: int where "STALE_RETRY_MS = 15 * 60 * 1000"

definition MISSING_WALLET_ERROR :: string where
  "MISSING_WALLET_ERROR = ''MISSING_WALLET: member has no linked Stellar address''"

definition ISOLATING_DEAD_LETTER_STATUSES :: "payout_status list" where
  "ISOLATING_DEAD_LETTER_STATUSES = [Payout_PENDING, Payout_RETRYING, Payout_DISCARDED]"

record backoff_state =
  bo_attemptNumber :: nat
  bo_baseDelayMs :: rat
  bo_minDelayMs :: rat
  bo_maxDelayMs :: rat
  bo_nextRetryAt :: int

text \<open>A \<open>Date\<close> cuts the fraction of a time value off.\<close>

definition date_of :: "rat \<Rightarrow> int" where
  "date_of t = (if 0 \<le> t then \<lfloor>t\<rfloor> else \<lceil>t\<rceil>)"

definition calculateBackoffState :: "rat \<Rightarrow> nat \<Rightarrow> int \<Rightarrow> rat \<Rightarrow> rat \<Rightarrow> backoff_state" where
  "calculateBackoffState random attempts now base_ms max_ms =
     (let baseDelayMs = min (base_ms * 2 ^ attempts) max_ms; jitterMs = random * baseDelayMs
      in \<lparr>bo_attemptNumber = attempts + 1, bo_baseDelayMs = baseDelayMs, bo_minDelayMs = 0, bo_maxDelayMs = baseDelayMs,
          bo_nextRetryAt = date_of (of_int now + jitterMs)\<rparr>)"

text \<open>\<open>classifyError\<close>: whether the error may be retried without an administrator, and its contract code.\<close>

definition classifyError :: "string \<Rightarrow> nat option \<Rightarrow> bool \<times> nat option" where
  "classifyError message errorCode =
     (let code = (case errorCode of Some c \<Rightarrow> Some c | None \<Rightarrow> contract_code message)
      in if code \<noteq> None \<or> list_ex (\<lambda>p. regex_test p message) NON_RECOVERABLE_ERROR_PATTERNS then (False, code)
         else (list_ex (\<lambda>p. regex_test p message) RECOVERABLE_ERROR_PATTERNS, None))"

record dead_letter_input =
  di_type :: transaction_type
  di_leagueId :: string
  di_memberIds :: "string list"
  di_recipients :: "string list"
  di_amountPerRecipient :: rat
  di_error :: string
  di_errorCode :: "nat option"
  di_recoverable :: "bool option"

definition audited :: "audit_input \<Rightarrow> dead_letters \<Rightarrow> dead_letters" where
  "audited e q = q\<lparr>dl_audit := dl_audit q @ [e]\<rparr>"

definition payout_event :: "audit_action \<Rightarrow> string \<Rightarrow> string \<Rightarrow> rat option \<Rightarrow> string option \<Rightarrow> metadata \<Rightarrow> audit_input" where
  "payout_event action actorId leagueId amount txHash metadata =
     \<lparr>ai_action = action, ai_userId = None, ai_actorId = Some actorId, ai_leagueId = Some leagueId, ai_transactionId = None,
      ai_amount = amount, ai_asset = None, ai_stellarTxHash = txHash, ai_metadata = metadata\<rparr>"

definition type_name :: "transaction_type \<Rightarrow> string" where
  "type_name t = (case t of ENTRY_FEE \<Rightarrow> ''ENTRY_FEE'' | PLATFORM_FEE \<Rightarrow> ''PLATFORM_FEE''
     | PRIZE_PAYOUT \<Rightarrow> ''PRIZE_PAYOUT'' | REFUND \<Rightarrow> ''REFUND'')"

definition deadLetter :: "int \<Rightarrow> dead_letter_input \<Rightarrow> dead_letters \<Rightarrow> nat \<times> dead_letters" where
  "deadLetter now i q =
     (let (recov, code) = classifyError (di_error i) (di_errorCode i);
          recoverable = (case di_recoverable i of Some r \<Rightarrow> r | None \<Rightarrow> recov);
          entry = \<lparr>fp_id = dl_nextId q, fp_type = di_type i, fp_leagueId = di_leagueId i, fp_memberIds = di_memberIds i,
            fp_recipients = di_recipients i, fp_amountPerRecipient = di_amountPerRecipient i, fp_status = Payout_PENDING,
            fp_recoverable = recoverable, fp_errorMessage = di_error i, fp_errorCode = code, fp_attempts = 1,
            fp_lastAttemptAt = now, fp_retryScheduledAt = None, fp_nextRetryAt = None, fp_resolvedAt = None,
            fp_resolvedById = None, fp_resolutionNote = None, fp_retryTxHash = None, fp_createdAt = now\<rparr>
      in (fp_id entry,
          audited (payout_event PAYOUT_DEAD_LETTERED SYSTEM_ACTOR (di_leagueId i) (Some (di_amountPerRecipient i)) None
              [(''failedPayoutId'', MetaNumber (of_nat (fp_id entry))), (''type'', MetaText (type_name (di_type i))),
               (''memberIds'', MetaTexts (di_memberIds i)), (''recoverable'', MetaBool recoverable), (''error'', MetaText (di_error i))])
            (q\<lparr>dl_rows := dl_rows q @ [entry], dl_nextId := dl_nextId q + 1\<rparr>)))"

definition isolating :: "string \<Rightarrow> transaction_type \<Rightarrow> failed_payout \<Rightarrow> bool" where
  "isolating leagueId ty e \<longleftrightarrow> fp_leagueId e = leagueId \<and> fp_type e = ty \<and> fp_status e \<in> set ISOLATING_DEAD_LETTER_STATUSES"

definition getIsolatedMemberIds :: "string \<Rightarrow> transaction_type \<Rightarrow> dead_letters \<Rightarrow> string list" where
  "getIsolatedMemberIds leagueId ty q = js_unique (concat (map fp_memberIds (filter (isolating leagueId ty) (dl_rows q))))"

definition auto_retryable :: "string \<Rightarrow> transaction_type \<Rightarrow> failed_payout \<Rightarrow> bool" where
  "auto_retryable leagueId ty e \<longleftrightarrow> fp_leagueId e = leagueId \<and> fp_type e = ty \<and> fp_status e = Payout_PENDING
     \<and> fp_recoverable e \<and> fp_attempts e < MAX_AUTOMATIC_ATTEMPTS"

definition getAutoRetryable :: "string \<Rightarrow> transaction_type \<Rightarrow> dead_letters \<Rightarrow> failed_payout list" where
  "getAutoRetryable leagueId ty q =
     js_sort (asc (\<lambda>e. of_int (fp_createdAt e))) (filter (auto_retryable leagueId ty) (dl_rows q))"

record list_filters =
  fl_status :: "payout_status option"
  fl_leagueId :: "string option"
  fl_type :: "transaction_type option"
  fl_limit :: "int option"
  fl_offset :: "int option"

definition listed :: "list_filters \<Rightarrow> failed_payout \<Rightarrow> bool" where
  "listed f e \<longleftrightarrow> (case fl_status f of None \<Rightarrow> True | Some st \<Rightarrow> fp_status e = st) \<and>
     (case fl_leagueId f of None \<Rightarrow> True | Some l \<Rightarrow> l = [] \<or> fp_leagueId e = l) \<and>
     (case fl_type f of None \<Rightarrow> True | Some t \<Rightarrow> fp_type e = t)"

text \<open>The page with the total, the limit and the offset used.\<close>

definition list_payouts :: "list_filters \<Rightarrow> dead_letters \<Rightarrow> failed_payout list \<times> nat \<times> int \<times> int" where
  "list_payouts f q =
     (let hits = filter (listed f) (dl_rows q);
          limit = min (max (case fl_limit f of None \<Rightarrow> 50 | Some n \<Rightarrow> n) 1) 200;
          offset = max (case fl_offset f of None \<Rightarrow> 0 | Some n \<Rightarrow> n) 0
      in (take (nat limit) (drop (nat offset) (js_sort (desc (\<lambda>e. of_int (fp_createdAt e))) hits)), length hits, limit, offset))"

definition get_payout :: "nat \<Rightarrow> dead_letters \<Rightarrow> dead_letter_error + failed_payout" where
  "get_payout i q = (case find (\<lambda>e. fp_id e = i) (dl_rows q) of None \<Rightarrow> Inl (DeadLetterNotFound i) | Some e \<Rightarrow> Inr e)"

definition update_payout :: "nat \<Rightarrow> (failed_payout \<Rightarrow> bool) \<Rightarrow> (failed_payout \<Rightarrow> failed_payout) \<Rightarrow> dead_letters \<Rightarrow> dead_letters" where
  "update_payout i ok f q = q\<lparr>dl_rows := map (\<lambda>e. if fp_id e = i \<and> ok e then f e else e) (dl_rows q)\<rparr>"

definition claimable :: "int \<Rightarrow> failed_payout \<Rightarrow> bool" where
  "claimable now e \<longleftrightarrow> fp_status e = Payout_PENDING
     \<or> fp_status e = Payout_RETRYING \<and> fp_lastAttemptAt e < now - STALE_RETRY_MS"

definition claimForRetry :: "nat \<Rightarrow> int \<Rightarrow> dead_letters \<Rightarrow> dead_letter_error + failed_payout \<times> dead_letters" where
  "claimForRetry i now q =
     (if length (filter (\<lambda>e. fp_id e = i \<and> claimable now e) (dl_rows q)) \<noteq> 1
      then res_bind (get_payout i q) (\<lambda>e. Inl (DeadLetterConflict i (fp_status e)))
      else (let q1 = update_payout i (claimable now) (\<lambda>e. e\<lparr>fp_status := Payout_RETRYING, fp_lastAttemptAt := now\<rparr>) q
            in res_bind (get_payout i q1) (\<lambda>e. Inr (e, q1))))"

text \<open>\<open>update\<close> by key throws when the row is gone; rows are never deleted, so only claimed rows are updated.\<close>

definition markResolved :: "int \<Rightarrow> failed_payout \<Rightarrow> string \<Rightarrow> string option \<Rightarrow> string option \<Rightarrow> string list \<Rightarrow> dead_letters \<Rightarrow> dead_letters" where
  "markResolved now entry actorId txHash note paidMemberIds q =
     audited (payout_event PAYOUT_RETRY_SUCCEEDED actorId (fp_leagueId entry) (Some (fp_amountPerRecipient entry)) txHash
         ([(''failedPayoutId'', MetaNumber (of_nat (fp_id entry))), (''type'', MetaText (type_name (fp_type entry))),
           (''paidMemberIds'', MetaTexts paidMemberIds)] @ (case note of None \<Rightarrow> [] | Some n \<Rightarrow> [(''note'', MetaText n)])))
       (update_payout (fp_id entry) (\<lambda>e. True)
         (\<lambda>e. e\<lparr>fp_status := Payout_RESOLVED, fp_resolvedAt := Some now, fp_resolvedById := Some actorId,
                fp_resolutionNote := note, fp_retryTxHash := txHash\<rparr>) q)"

definition markRetryFailed :: "int \<Rightarrow> failed_payout \<Rightarrow> string \<Rightarrow> string \<Rightarrow> nat option \<Rightarrow> dead_letters \<Rightarrow> dead_letters" where
  "markRetryFailed now entry actorId error errorCode q =
     (let (recov, code) = classifyError error errorCode
      in audited (payout_event PAYOUT_RETRY_FAILED actorId (fp_leagueId entry) None None
           [(''failedPayoutId'', MetaNumber (of_nat (fp_id entry))), (''type'', MetaText (type_name (fp_type entry))),
            (''attempt'', MetaNumber (of_nat (fp_attempts entry + 1))), (''recoverable'', MetaBool recov), (''error'', MetaText error)])
         (update_payout (fp_id entry) (\<lambda>e. True)
           (\<lambda>e. e\<lparr>fp_status := Payout_PENDING, fp_attempts := fp_attempts entry + 1, fp_errorMessage := error,
                  fp_errorCode := code, fp_recoverable := recov, fp_lastAttemptAt := now\<rparr>) q))"

definition discard :: "int \<Rightarrow> nat \<Rightarrow> string \<Rightarrow> string option \<Rightarrow> dead_letters \<Rightarrow> dead_letter_error + failed_payout \<times> dead_letters" where
  "discard now i actorId reason q =
     (let trimmed = (case reason of None \<Rightarrow> [] | Some r \<Rightarrow> trim_ws r)
      in if trimmed = [] then Inl ReasonRequired
         else if length (filter (\<lambda>e. fp_id e = i \<and> fp_status e = Payout_PENDING) (dl_rows q)) \<noteq> 1
         then res_bind (get_payout i q) (\<lambda>e. Inl (DeadLetterConflict i (fp_status e)))
         else (let q1 = update_payout i (\<lambda>e. fp_status e = Payout_PENDING)
                     (\<lambda>e. e\<lparr>fp_status := Payout_DISCARDED, fp_resolvedAt := Some now, fp_resolvedById := Some actorId,
                            fp_resolutionNote := Some trimmed\<rparr>) q
               in res_bind (get_payout i q1) (\<lambda>e. Inr (e,
                    audited (payout_event PAYOUT_DISCARDED actorId (fp_leagueId e) (Some (fp_amountPerRecipient e)) None
                        [(''failedPayoutId'', MetaNumber (of_nat i)), (''type'', MetaText (type_name (fp_type e))),
                         (''memberIds'', MetaTexts (fp_memberIds e)), (''reason'', MetaText trimmed)]) q1))))"

definition scheduleRetryWithBackoff :: "rat \<Rightarrow> nat \<Rightarrow> int \<Rightarrow> dead_letters \<Rightarrow> dead_letter_error + backoff_state \<times> dead_letters" where
  "scheduleRetryWithBackoff random i now q =
     res_bind (get_payout i q) (\<lambda>entry.
       let b = calculateBackoffState random (fp_attempts entry) now BACKOFF_BASE_MS BACKOFF_MAX_MS
       in Inr (b, audited (payout_event PAYOUT_RETRY_SCHEDULED SYSTEM_ACTOR (fp_leagueId entry) None None
              [(''failedPayoutId'', MetaNumber (of_nat i)), (''type'', MetaText (type_name (fp_type entry))),
               (''attemptNumber'', MetaNumber (of_nat (bo_attemptNumber b))), (''baseDelayMs'', MetaNumber (bo_baseDelayMs b)),
               (''maxDelayMs'', MetaNumber (bo_maxDelayMs b)), (''scheduledRetryAt'', MetaNumber (of_int (bo_nextRetryAt b)))])
            (update_payout i (\<lambda>e. True)
              (\<lambda>e. e\<lparr>fp_retryScheduledAt := Some now, fp_nextRetryAt := Some (bo_nextRetryAt b)\<rparr>) q)))"

text \<open>
  The batch query of the workers. It runs outside a transaction, so the row locks it takes are gone when it
  returns and it is a plain read.
\<close>

definition WORKER_BATCH_SIZE :: nat where "WORKER_BATCH_SIZE = 10"

definition claimRetryBatchLockFree :: "string \<Rightarrow> transaction_type \<Rightarrow> int \<Rightarrow> dead_letters \<Rightarrow> failed_payout list" where
  "claimRetryBatchLockFree leagueId ty now q =
     take WORKER_BATCH_SIZE
       (js_sort (asc (\<lambda>e. of_int (fp_lastAttemptAt e)))
         (filter (\<lambda>e. auto_retryable leagueId ty e \<and> (case fp_nextRetryAt e of None \<Rightarrow> True | Some t \<Rightarrow> t \<le> now)) (dl_rows q)))"

text \<open>Retries, successes and failures of a window, and the average of the attempts of the pending rows in hundredths.\<close>

definition getWorkerActivityMetrics :: "int \<Rightarrow> int \<Rightarrow> dead_letters \<Rightarrow> nat \<times> nat \<times> nat \<times> rat" where
  "getWorkerActivityMetrics now timeWindowMs q =
     (let since = now - timeWindowMs; rows = dl_rows q; open_rows = filter (\<lambda>e. fp_status e = Payout_PENDING) rows;
          in_window = (\<lambda>t. case t of None \<Rightarrow> False | Some t \<Rightarrow> since \<le> t);
          avg = (if open_rows = [] then 0 else (\<Sum>e\<leftarrow>open_rows. of_nat (fp_attempts e)) / of_nat (length open_rows))
      in (length (filter (\<lambda>e. in_window (fp_retryScheduledAt e)) rows),
          length (filter (\<lambda>e. fp_status e = Payout_RESOLVED \<and> in_window (fp_resolvedAt e)) rows),
          length (filter (\<lambda>e. fp_status e = Payout_PENDING \<and> 2 \<le> fp_attempts e) rows),
          of_int (js_round (avg * 100)) / 100))"

section \<open>Rows and keys\<close>

definition queue_ok :: "dead_letters \<Rightarrow> bool" where
  "queue_ok q \<longleftrightarrow> distinct (map fp_id (dl_rows q)) \<and> (\<forall>e \<in> set (dl_rows q). fp_id e < dl_nextId q)"

lemma audited_simps [simp]: "dl_rows (audited e q) = dl_rows q" "dl_nextId (audited e q) = dl_nextId q"
  by (simp_all add: audited_def)

lemma update_payout_simps [simp]:
  "dl_rows (update_payout i ok f q) = map (\<lambda>e. if fp_id e = i \<and> ok e then f e else e) (dl_rows q)"
  "dl_nextId (update_payout i ok f q) = dl_nextId q"
  by (simp_all add: update_payout_def)

lemma queue_ok_audited [simp]: "queue_ok (audited e q) = queue_ok q"
  by (simp add: queue_ok_def)

lemma queue_ok_update:
  assumes "queue_ok q" and "\<And>e. fp_id (f e) = fp_id e"
  shows "queue_ok (update_payout i ok f q)"
proof -
  have "map fp_id (dl_rows (update_payout i ok f q)) = map fp_id (dl_rows q)" using assms(2) by simp
  moreover have "fp_id e < dl_nextId q" if "e \<in> set (dl_rows (update_payout i ok f q))" for e
    using that assms by (auto simp: queue_ok_def)
  ultimately show ?thesis using assms(1) unfolding queue_ok_def by (metis update_payout_simps(2))
qed

lemma get_payout_unique:
  assumes "queue_ok q" "e \<in> set (dl_rows q)"
  shows "get_payout (fp_id e) q = Inr e"
  using find_unique [of fp_id "dl_rows q" e] assms by (simp add: queue_ok_def get_payout_def)

lemma get_payout_InrD: "get_payout i q = Inr e \<Longrightarrow> e \<in> set (dl_rows q) \<and> fp_id e = i"
  by (auto simp: get_payout_def dest: find_SomeD split: option.splits)

lemma filter_key:
  assumes "distinct (map f xs)" "e \<in> set xs"
  shows "filter (\<lambda>x. f x = f e \<and> P x) xs = (if P e then [e] else [])"
  using assms
proof (induction xs)
  case (Cons x xs)
  show ?case
  proof (cases "x = e")
    case True
    then have "f e \<notin> f ` set xs" using Cons.prems(1) by simp
    then have "filter (\<lambda>y. f y = f e \<and> P y) xs = []" unfolding filter_empty_conv by (metis imageI)
    then show ?thesis using True by simp
  next
    case False
    then have "e \<in> set xs" "f x \<noteq> f e" using Cons.prems by auto
    then show ?thesis using Cons by simp
  qed
qed simp

lemma claim_count:
  assumes "queue_ok q" "e \<in> set (dl_rows q)"
  shows "length (filter (\<lambda>x. fp_id x = fp_id e \<and> P x) (dl_rows q)) = (if P e then 1 else 0)"
  using filter_key [of fp_id "dl_rows q" e P] assms by (simp add: queue_ok_def)

text \<open>What a claim does, on a queue with distinct keys.\<close>

definition claimed :: "int \<Rightarrow> failed_payout \<Rightarrow> failed_payout" where
  "claimed now e = e\<lparr>fp_status := Payout_RETRYING, fp_lastAttemptAt := now\<rparr>"

lemma claimForRetry_cases:
  assumes "queue_ok q" "e \<in> set (dl_rows q)"
  shows "claimForRetry (fp_id e) now q =
    (if claimable now e then Inr (claimed now e, update_payout (fp_id e) (claimable now) (claimed now) q)
     else Inl (DeadLetterConflict (fp_id e) (fp_status e)))"
proof (cases "claimable now e")
  case True
  let ?q = "update_payout (fp_id e) (claimable now) (claimed now) q"
  have "queue_ok ?q" using assms(1) by (rule queue_ok_update) (simp add: claimed_def)
  moreover have "claimed now e \<in> set (dl_rows ?q)" using assms(2) True by force
  ultimately have "get_payout (fp_id e) ?q = Inr (claimed now e)"
    using get_payout_unique [of ?q "claimed now e"] by (simp add: claimed_def)
  then show ?thesis using True claim_count [OF assms] by (simp add: claimForRetry_def Let_def claimed_def [abs_def])
next
  case False
  then show ?thesis using claim_count [OF assms] get_payout_unique [OF assms] by (simp add: claimForRetry_def)
qed

lemma claimForRetry_missing:
  assumes "\<forall>e \<in> set (dl_rows q). fp_id e \<noteq> i"
  shows "claimForRetry i now q = Inl (DeadLetterNotFound i)"
proof -
  have "filter (\<lambda>e. fp_id e = i \<and> claimable now e) (dl_rows q) = []" using assms by (auto simp: filter_empty_conv)
  moreover have "find (\<lambda>e. fp_id e = i) (dl_rows q) = None" using assms by (simp add: find_None_iff)
  ultimately show ?thesis by (simp add: claimForRetry_def get_payout_def)
qed

section \<open>Claims exclude each other\<close>

text \<open>The operations of the service, with their arguments, and what they do to the queue.\<close>

datatype queue_op =
    DeadLetter int dead_letter_input
  | ClaimForRetry int nat
  | Discard int nat string "string option"
  | ScheduleRetry rat int nat
  | MarkResolved int failed_payout string "string option" "string option" "string list"
  | MarkRetryFailed int failed_payout string string "nat option"

fun apply_op :: "queue_op \<Rightarrow> dead_letters \<Rightarrow> dead_letters" where
  "apply_op (DeadLetter now i) q = snd (deadLetter now i q)"
| "apply_op (ClaimForRetry now i) q = (case claimForRetry i now q of Inl _ \<Rightarrow> q | Inr (_, q') \<Rightarrow> q')"
| "apply_op (Discard now i actor reason) q = (case discard now i actor reason q of Inl _ \<Rightarrow> q | Inr (_, q') \<Rightarrow> q')"
| "apply_op (ScheduleRetry rnd now i) q = (case scheduleRetryWithBackoff rnd i now q of Inl _ \<Rightarrow> q | Inr (_, q') \<Rightarrow> q')"
| "apply_op (MarkResolved now e actor txHash note paid) q = markResolved now e actor txHash note paid q"
| "apply_op (MarkRetryFailed now e actor err code) q = markRetryFailed now e actor err code q"

fun op_time :: "queue_op \<Rightarrow> int" where
  "op_time (DeadLetter now _) = now"
| "op_time (ClaimForRetry now _) = now"
| "op_time (Discard now _ _ _) = now"
| "op_time (ScheduleRetry _ now _) = now"
| "op_time (MarkResolved now _ _ _ _ _) = now"
| "op_time (MarkRetryFailed now _ _ _ _) = now"

text \<open>The operations that report the result of a retry of an entry. They name the entry only: the service does not check who reports.\<close>

fun reports :: "nat \<Rightarrow> queue_op \<Rightarrow> bool" where
  "reports i (MarkResolved _ e _ _ _ _) \<longleftrightarrow> fp_id e = i"
| "reports i (MarkRetryFailed _ e _ _ _) \<longleftrightarrow> fp_id e = i"
| "reports i _ \<longleftrightarrow> False"

lemma deadLetter_rows:
  "\<exists>e. dl_rows (snd (deadLetter now i q)) = dl_rows q @ [e] \<and> fp_id e = dl_nextId q \<and> fp_status e = Payout_PENDING
     \<and> fp_memberIds e = di_memberIds i \<and> fp_leagueId e = di_leagueId i \<and> fp_type e = di_type i \<and> fp_attempts e = 1
     \<and> dl_nextId (snd (deadLetter now i q)) = dl_nextId q + 1"
  by (simp add: deadLetter_def Let_def split_beta)

lemma queue_ok_deadLetter: "queue_ok q \<Longrightarrow> queue_ok (snd (deadLetter now i q))"
  using deadLetter_rows [of now i q] by (fastforce simp: queue_ok_def)

definition discarded :: "int \<Rightarrow> string \<Rightarrow> string \<Rightarrow> failed_payout \<Rightarrow> failed_payout" where
  "discarded now actorId reason e =
     e\<lparr>fp_status := Payout_DISCARDED, fp_resolvedAt := Some now, fp_resolvedById := Some actorId, fp_resolutionNote := Some reason\<rparr>"

lemma discard_InrD:
  assumes "discard now i actorId reason q = Inr (e, q')"
  shows "\<exists>r. dl_rows q' = dl_rows (update_payout i (\<lambda>e. fp_status e = Payout_PENDING) (discarded now actorId r) q) \<and> dl_nextId q' = dl_nextId q"
proof -
  define r where "r = (case reason of None \<Rightarrow> [] | Some r \<Rightarrow> trim_ws r)"
  let ?q = "update_payout i (\<lambda>e. fp_status e = Payout_PENDING) (discarded now actorId r) q"
  obtain a where "q' = audited a ?q"
    using assms unfolding discard_def Let_def r_def [symmetric] discarded_def [abs_def] by (fastforce split: if_splits)
  then have "dl_rows q' = dl_rows ?q \<and> dl_nextId q' = dl_nextId q" by simp
  then show ?thesis by blast
qed

definition rescheduled :: "int \<Rightarrow> int \<Rightarrow> failed_payout \<Rightarrow> failed_payout" where
  "rescheduled now t e = e\<lparr>fp_retryScheduledAt := Some now, fp_nextRetryAt := Some t\<rparr>"

lemma schedule_InrD:
  assumes "scheduleRetryWithBackoff rnd i now q = Inr (b, q')"
  shows "dl_rows q' = dl_rows (update_payout i (\<lambda>e. True) (rescheduled now (bo_nextRetryAt b)) q) \<and> dl_nextId q' = dl_nextId q"
  using assms by (auto simp: scheduleRetryWithBackoff_def Let_def rescheduled_def [abs_def])

lemma claim_InrD:
  assumes "queue_ok q" "claimForRetry i now q = Inr (e, q')"
  shows "\<exists>e0 \<in> set (dl_rows q). fp_id e0 = i \<and> claimable now e0 \<and> e = claimed now e0
    \<and> q' = update_payout i (claimable now) (claimed now) q"
proof (cases "\<exists>e0 \<in> set (dl_rows q). fp_id e0 = i")
  case True
  then show ?thesis using assms claimForRetry_cases [OF assms(1)] by (auto split: if_splits)
next
  case False
  then show ?thesis using assms claimForRetry_missing [of q i now] by simp
qed

definition held :: "nat \<Rightarrow> int \<Rightarrow> dead_letters \<Rightarrow> bool" where
  "held i now q \<longleftrightarrow> queue_ok q \<and> (\<exists>e \<in> set (dl_rows q). fp_id e = i \<and> fp_status e = Payout_RETRYING \<and> fp_lastAttemptAt e = now)"

lemma held_cong: "dl_rows q = dl_rows q' \<Longrightarrow> dl_nextId q = dl_nextId q' \<Longrightarrow> held i now q = held i now q'"
  by (simp add: held_def queue_ok_def)

lemma held_update:
  assumes "held i now q" and "\<And>e. fp_id (f e) = fp_id e"
    and "\<And>e. j = i \<Longrightarrow> fp_status e = Payout_RETRYING \<Longrightarrow> fp_lastAttemptAt e = now \<Longrightarrow> ok e \<Longrightarrow>
           fp_status (f e) = Payout_RETRYING \<and> fp_lastAttemptAt (f e) = now"
  shows "held i now (update_payout j ok f q)"
proof -
  obtain e where e: "e \<in> set (dl_rows q)" "fp_id e = i" "fp_status e = Payout_RETRYING" "fp_lastAttemptAt e = now"
    using assms(1) by (auto simp: held_def)
  let ?e = "if fp_id e = j \<and> ok e then f e else e"
  have "?e \<in> set (dl_rows (update_payout j ok f q))" using e(1) by simp
  moreover have "fp_id ?e = i" "fp_status ?e = Payout_RETRYING" "fp_lastAttemptAt ?e = now" using e assms(2,3) by auto
  moreover have "queue_ok (update_payout j ok f q)" using assms(1,2) by (intro queue_ok_update) (simp_all add: held_def)
  ultimately show ?thesis unfolding held_def by blast
qed

lemma held_apply_op:
  assumes "held i now q" and "op_time op \<le> now + STALE_RETRY_MS" and "\<not> reports i op"
  shows "held i now (apply_op op q)"
proof (cases op)
  case (DeadLetter t inp)
  then show ?thesis using assms(1) queue_ok_deadLetter [of q t inp] deadLetter_rows [of t inp q] by (auto simp: held_def)
next
  case (ClaimForRetry t j)
  show ?thesis
  proof (cases "claimForRetry j t q")
    case (Inr p)
    then have "snd p = update_payout j (claimable t) (claimed t) q"
      using claim_InrD [of q j t "fst p" "snd p"] assms(1) by (auto simp: held_def)
    moreover have "held i now (update_payout j (claimable t) (claimed t) q)"
      using assms ClaimForRetry by (intro held_update) (auto simp: claimed_def claimable_def)
    ultimately show ?thesis using Inr ClaimForRetry by (simp add: split_beta)
  qed (use assms ClaimForRetry in simp)
next
  case (Discard t j actor reason)
  show ?thesis
  proof (cases "discard t j actor reason q")
    case (Inr p)
    then obtain r where r: "dl_rows (snd p) = dl_rows (update_payout j (\<lambda>e. fp_status e = Payout_PENDING) (discarded t actor r) q)"
      "dl_nextId (snd p) = dl_nextId q" using discard_InrD [of t j actor reason q "fst p" "snd p"] by auto
    have "held i now (update_payout j (\<lambda>e. fp_status e = Payout_PENDING) (discarded t actor r) q)"
      using assms(1) by (rule held_update) (auto simp: discarded_def)
    then have "held i now (snd p)" using held_cong [OF r(1)] r(2) by simp
    then show ?thesis using Inr Discard by (simp add: split_beta)
  qed (use assms Discard in simp)
next
  case (ScheduleRetry rnd t j)
  show ?thesis
  proof (cases "scheduleRetryWithBackoff rnd j t q")
    case (Inr p)
    then have r: "dl_rows (snd p) = dl_rows (update_payout j (\<lambda>e. True) (rescheduled t (bo_nextRetryAt (fst p))) q)"
      "dl_nextId (snd p) = dl_nextId q" using schedule_InrD [of rnd j t q "fst p" "snd p"] by auto
    have "held i now (update_payout j (\<lambda>e. True) (rescheduled t (bo_nextRetryAt (fst p))) q)"
      using assms(1) by (rule held_update) (auto simp: rescheduled_def)
    then have "held i now (snd p)" using held_cong [OF r(1)] r(2) by simp
    then show ?thesis using Inr ScheduleRetry by (simp add: split_beta)
  qed (use assms ScheduleRetry in simp)
next
  case (MarkResolved t e actor txHash remark paid)
  let ?f = "\<lambda>e. e\<lparr>fp_status := Payout_RESOLVED, fp_resolvedAt := Some t, fp_resolvedById := Some actor,
      fp_resolutionNote := remark, fp_retryTxHash := txHash\<rparr>"
  have "held i now (update_payout (fp_id e) (\<lambda>e. True) ?f q)"
    using assms(1,3) MarkResolved by (intro held_update) simp_all
  then show ?thesis using MarkResolved by (simp add: markResolved_def held_cong [OF audited_simps])
next
  case (MarkRetryFailed t e actor err code)
  let ?f = "\<lambda>x. x\<lparr>fp_status := Payout_PENDING, fp_attempts := fp_attempts e + 1, fp_errorMessage := err,
      fp_errorCode := snd (classifyError err code), fp_recoverable := fst (classifyError err code), fp_lastAttemptAt := t\<rparr>"
  have "held i now (update_payout (fp_id e) (\<lambda>e. True) ?f q)"
    using assms(1,3) MarkRetryFailed by (intro held_update) simp_all
  then show ?thesis using MarkRetryFailed by (simp add: markRetryFailed_def split_beta held_cong [OF audited_simps])
qed

lemma held_foldl:
  "held i now q \<Longrightarrow> \<forall>op \<in> set ops. op_time op \<le> now + STALE_RETRY_MS \<and> \<not> reports i op \<Longrightarrow> held i now (foldl (\<lambda>q op. apply_op op q) q ops)"
  by (induction ops arbitrary: q) (auto intro: held_apply_op)

lemma claim_held:
  assumes "held i now q"
  shows "isl (claimForRetry i t q) \<longleftrightarrow> t \<le> now + STALE_RETRY_MS"
    and "t \<le> now + STALE_RETRY_MS \<Longrightarrow> claimForRetry i t q = Inl (DeadLetterConflict i Payout_RETRYING)"
proof -
  obtain e where e: "e \<in> set (dl_rows q)" "fp_id e = i" "fp_status e = Payout_RETRYING" "fp_lastAttemptAt e = now" "queue_ok q"
    using assms by (auto simp: held_def)
  have "claimable t e \<longleftrightarrow> \<not> t \<le> now + STALE_RETRY_MS" using e by (auto simp: claimable_def)
  then show "isl (claimForRetry i t q) \<longleftrightarrow> t \<le> now + STALE_RETRY_MS"
    and "t \<le> now + STALE_RETRY_MS \<Longrightarrow> claimForRetry i t q = Inl (DeadLetterConflict i Payout_RETRYING)"
    using claimForRetry_cases [OF e(5,1)] e(2,3) by auto
qed

lemma claim_updated:
  assumes "queue_ok q" "e \<in> set (dl_rows q)" "fp_id e = i" "\<And>x. fp_id (f x) = fp_id x"
  shows "claimForRetry i t (audited a (update_payout i (\<lambda>x. True) f q)) =
    (if claimable t (f e) then Inr (claimed t (f e), update_payout i (claimable t) (claimed t) (audited a (update_payout i (\<lambda>x. True) f q)))
     else Inl (DeadLetterConflict i (fp_status (f e))))"
proof -
  let ?q = "audited a (update_payout i (\<lambda>x. True) f q)"
  have "queue_ok ?q" unfolding queue_ok_audited using assms(1,4) by (rule queue_ok_update)
  moreover have "f e \<in> set (dl_rows ?q)" using assms(2,3) by force
  ultimately show ?thesis using claimForRetry_cases [of ?q "f e" t] assms(3,4) by simp
qed

lemma claim_reported:
  assumes "held i now q" "fp_id e = i"
  shows "claimForRetry i t (markResolved u e actor txHash note paid q) = Inl (DeadLetterConflict i Payout_RESOLVED)"
    and "\<not> isl (claimForRetry i t (markRetryFailed u e actor err code q))"
proof -
  obtain x where x: "queue_ok q" "x \<in> set (dl_rows q)" "fp_id x = i" using assms(1) by (auto simp: held_def)
  show "claimForRetry i t (markResolved u e actor txHash note paid q) = Inl (DeadLetterConflict i Payout_RESOLVED)"
    unfolding markResolved_def assms(2) by (subst claim_updated [OF x]) (simp_all add: claimable_def)
  show "\<not> isl (claimForRetry i t (markRetryFailed u e actor err code q))"
    unfolding markRetryFailed_def assms(2) split_beta Let_def by (subst claim_updated [OF x]) (simp_all add: claimable_def)
qed

text \<open>
  C37. Only one process works on a failed payout until a result is reported for it. Once a claim succeeded, whatever is added,
  claimed, discarded, rescheduled or reported of other entries within a quarter of an hour, every other claim of it in that time is refused; a claim
  after that takes the orphaned entry over. A reported success closes the entry to every claim, and a reported failure opens it at
  once. The report is not tied to the claim: whoever reports a failure, be it a process whose claim has been taken over, opens the entry.
\<close>
theorem claims_exclude:
  assumes "queue_ok q" and "claimForRetry i now q = Inr (e, q')"
    and "\<forall>op \<in> set ops. op_time op \<le> now + STALE_RETRY_MS \<and> \<not> reports i op"
    and "q'' = foldl (\<lambda>q op. apply_op op q) q' ops" and "fp_id e' = i"
  shows "(t \<le> now + STALE_RETRY_MS \<longrightarrow> claimForRetry i t q'' = Inl (DeadLetterConflict i Payout_RETRYING)) \<and>
    (now + STALE_RETRY_MS < t \<longrightarrow> \<not> isl (claimForRetry i t q'')) \<and>
    claimForRetry i t (apply_op (MarkResolved u e' actor txHash note paid) q'') = Inl (DeadLetterConflict i Payout_RESOLVED) \<and>
    \<not> isl (claimForRetry i t (apply_op (MarkRetryFailed u e' actor err code) q''))"
proof -
  obtain e0 where e0: "e0 \<in> set (dl_rows q)" "fp_id e0 = i" "claimable now e0"
    "q' = update_payout i (claimable now) (claimed now) q" using claim_InrD [OF assms(1,2)] by blast
  have "queue_ok q'" unfolding e0(4) using assms(1) by (rule queue_ok_update) (simp add: claimed_def)
  moreover have "claimed now e0 \<in> set (dl_rows q')" using e0 by force
  moreover have "fp_id (claimed now e0) = i \<and> fp_status (claimed now e0) = Payout_RETRYING \<and> fp_lastAttemptAt (claimed now e0) = now"
    using e0(2) by (simp add: claimed_def)
  ultimately have "held i now q'" unfolding held_def by blast
  from held_foldl [OF this assms(3)] have h: "held i now q''" unfolding assms(4) .
  show ?thesis using claim_held [OF h, of t] claim_reported [OF h assms(5)] by auto
qed

text \<open>A queue with one failed refund, claimed at time 1000.\<close>

definition demo_failure :: dead_letter_input where
  "demo_failure = \<lparr>di_type = REFUND, di_leagueId = ''L'', di_memberIds = [''m1'', ''m2''], di_recipients = [''A'', ''B''],
     di_amountPerRecipient = 5, di_error = ''Request timed out'', di_errorCode = None, di_recoverable = None\<rparr>"

definition demo_queue :: dead_letters where
  "demo_queue = snd (deadLetter 0 demo_failure \<lparr>dl_rows = [], dl_nextId = 0, dl_audit = []\<rparr>)"

lemma demo_queue_ok: "queue_ok demo_queue"
  unfolding demo_queue_def by (rule queue_ok_deadLetter) (simp add: queue_ok_def)

theorem claims_exclude_witness:
  "queue_ok demo_queue \<and> \<not> isl (claimForRetry 0 1000 demo_queue) \<and>
   claimForRetry 0 2000 (foldl (\<lambda>q op. apply_op op q) (snd (projr (claimForRetry 0 1000 demo_queue)))
     [Discard 1500 0 ''admin'' (Some ''paid by hand''), ClaimForRetry 1800 0]) = Inl (DeadLetterConflict 0 Payout_RETRYING)"
proof -
  obtain e0 where e0: "dl_rows demo_queue = [e0]" "fp_id e0 = 0" "fp_status e0 = Payout_PENDING"
    using deadLetter_rows [of 0 demo_failure "\<lparr>dl_rows = [], dl_nextId = 0, dl_audit = []\<rparr>"] by (auto simp: demo_queue_def)
  then have c: "\<not> isl (claimForRetry 0 1000 demo_queue)"
    using claimForRetry_cases [OF demo_queue_ok, of e0 1000] by (simp add: claimable_def)
  then obtain e q' where q': "claimForRetry 0 1000 demo_queue = Inr (e, q')" by (metis isl_def sumE surj_pair)
  let ?ops = "[Discard 1500 0 ''admin'' (Some ''paid by hand''), ClaimForRetry 1800 0]"
  have "\<forall>op \<in> set ?ops. op_time op \<le> 1000 + STALE_RETRY_MS \<and> \<not> reports 0 op" by (simp add: STALE_RETRY_MS_def)
  note t = claims_exclude [OF demo_queue_ok q' this refl e0(2), of 2000]
  have "claimForRetry 0 2000 (foldl (\<lambda>q op. apply_op op q) q' ?ops) = Inl (DeadLetterConflict 0 Payout_RETRYING)"
    by (rule t [THEN conjunct1, rule_format]) (simp add: STALE_RETRY_MS_def)
  then show ?thesis using c demo_queue_ok q' by (simp del: apply_op.simps)
qed

end
