(* ===== verification/Refunds.thy ===== *)
theory Refunds
  imports Dead_Letters Leagues Merkle
begin

text \<open>
  Refunds of cancelled leagues (\<open>processLeagueRefunds\<close>, \<open>retryDeadLetteredPayout\<close> and what they call in
  \<open>backend/src/services/financial/financialService.ts\<close>), the worker that retries failed payouts
  (\<open>payoutDeadLetterWorker.ts\<close>) and the refund job (\<open>backend/src/jobs/leagueRefunds.ts\<close>).

  The state adds to the tables of \<open>Leagues\<close> the wallet column of the members, the ledger of transactions, the
  dead-letter queue of \<open>Dead_Letters\<close>, and the calls sent to the escrow contract, in order. What the
  contract client answers to the n-th call is the parameter \<open>re_refund\<close>, the message of a failed write \<open>re_dbText\<close>. An
  operation returns its result or error together with the state, since what ran before a \<open>throw\<close> stays. One call
  sees one instant of the clock. Asset code and issuer come from the configuration and are left out of the ledger rows.
\<close>

section \<open>State\<close>

datatype tx_status = Tx_PENDING | Tx_SUBMITTED | Tx_CONFIRMED | Tx_FAILED

record ledger_tx =
  tx_userId :: string
  tx_leagueId :: "string option"
  tx_memberId :: "string option"
  tx_type :: transaction_type
  tx_amount :: rat
  tx_stellarTxHash :: "string option"
  tx_ledgerSeq :: "int option"
  tx_memo :: "string option"
  tx_status :: tx_status
  tx_confirmedAt :: "int option"

record fin_db =
  fd_leagues :: league_db
  fd_addresses :: "(string \<times> string) list"
  fd_transactions :: "ledger_tx list"
  fd_payouts :: dead_letters
  fd_calls :: "(nat \<times> string list) list"

abbreviation fd_members :: "fin_db \<Rightarrow> league_member list" where
  "fd_members s \<equiv> ld_members (fd_leagues s)"

record refund_outcome =
  ro_success :: bool
  ro_txHash :: "string option"
  ro_error :: "string option"
  ro_contractErrorCode :: "nat option"

datatype invocation = Returned refund_outcome | Threw string

datatype db_failure = RecordGone string | DuplicateTransaction

record refund_env =
  re_refund :: "nat \<Rightarrow> nat \<Rightarrow> string list \<Rightarrow> invocation"
  re_dbText :: "db_failure \<Rightarrow> string"

datatype refund_failure = LeagueMissing string | NotAUuid string | DbFailure db_failure

datatype refund_error =
    RefundFailure refund_failure | NotCancelled league_status | QueueError dead_letter_error
  | RetryUnsupported transaction_type

definition failure_text :: "refund_env \<Rightarrow> refund_failure \<Rightarrow> string" where
  "failure_text env f =
     (case f of LeagueMissing l \<Rightarrow> ''League '' @ l @ '' not found''
      | NotAUuid l \<Rightarrow> ''League ID '' @ l @ '' is not a valid UUID''
      | DbFailure d \<Rightarrow> re_dbText env d)"

definition REFUND_BATCH_SIZE :: nat where "REFUND_BATCH_SIZE = 10"

definition usdcAssetCode :: string where "usdcAssetCode = ''USDC''"

record refund_report =
  rp_leagueId :: string
  rp_contractLeagueId :: nat
  rp_batches :: nat
  rp_refundedMemberIds :: "string list"
  rp_failedBatches :: "(string list \<times> string) list"
  rp_skippedMemberIds :: "string list"
  rp_deadLetteredIds :: "nat list"
  rp_isolatedMemberIds :: "string list"
  rp_autoRetried :: "(nat \<times> bool) list"

record retry_result =
  rr_success :: bool
  rr_status :: payout_status
  rr_txHash :: "string option"
  rr_paidMemberIds :: "string list"
  rr_error :: "string option"

section \<open>Helpers\<close>

definition toContractLeagueId :: "string \<Rightarrow> refund_failure + nat" where
  "toContractLeagueId leagueId =
     (let hex = take 16 (filter (\<lambda>c. c \<noteq> CHR ''-'') leagueId)
      in if length hex = 16 \<and> list_all (\<lambda>c. hex_value c \<noteq> None) hex
         then Inr (foldl (\<lambda>n c. 16 * n + the (hex_value c)) 0 hex) else Inl (NotAUuid leagueId))"

text \<open>The loop never ends for a size of zero and items left; the only caller passes \<open>REFUND_BATCH_SIZE\<close>.\<close>

function chunk :: "'a list \<Rightarrow> nat \<Rightarrow> 'a list list" where
  "chunk items n = (if items = [] \<or> n = 0 then [] else take n items # chunk (drop n items) n)"
  by pat_completeness auto
termination by (relation "measure (\<lambda>(items, n). length items)") auto

declare chunk.simps [simp del]

definition isRefundOwed :: "league_member \<Rightarrow> bool" where
  "isRefundOwed m \<longleftrightarrow> lm_paymentStatus m = REFUND_PENDING \<or> lm_paymentStatus m = PAYMENT_CONFIRMED"

definition league_rows :: "fin_db \<Rightarrow> string \<Rightarrow> league_member list" where
  "league_rows s leagueId = filter (\<lambda>m. lm_leagueId m = leagueId) (fd_members s)"

definition stellarAddress :: "fin_db \<Rightarrow> league_member \<Rightarrow> string" where
  "stellarAddress s m = (case map_of (fd_addresses s) (lm_id m) of None \<Rightarrow> [] | Some a \<Rightarrow> a)"

definition error_or :: "string option \<Rightarrow> string" where
  "error_or e = (case e of None \<Rightarrow> ''Refund invocation failed'' | Some t \<Rightarrow> if t = [] then ''Refund invocation failed'' else t)"

definition with_payouts :: "(dead_letters \<Rightarrow> dead_letters) \<Rightarrow> fin_db \<Rightarrow> fin_db" where
  "with_payouts f s = s\<lparr>fd_payouts := f (fd_payouts s)\<rparr>"

definition dispatchRefund :: "refund_env \<Rightarrow> nat \<Rightarrow> string list \<Rightarrow> fin_db \<Rightarrow> refund_outcome \<times> fin_db" where
  "dispatchRefund env contractLeagueId recipients s =
     (case re_refund env (length (fd_calls s)) contractLeagueId recipients of
        Returned r \<Rightarrow> r
      | Threw msg \<Rightarrow> \<lparr>ro_success = False, ro_txHash = None, ro_error = Some msg, ro_contractErrorCode = None\<rparr>,
      s\<lparr>fd_calls := fd_calls s @ [(contractLeagueId, recipients)]\<rparr>)"

definition refund_tx :: "int \<Rightarrow> league \<Rightarrow> string option \<Rightarrow> league_member \<Rightarrow> ledger_tx" where
  "refund_tx now league txHash m =
     \<lparr>tx_userId = lm_userId m, tx_leagueId = Some (lg_id league), tx_memberId = Some (lm_id m), tx_type = REFUND,
      tx_amount = lg_entryFee league, tx_stellarTxHash = txHash, tx_ledgerSeq = None, tx_memo = None,
      tx_status = Tx_CONFIRMED, tx_confirmedAt = Some now\<rparr>"

definition refund_audit :: "league \<Rightarrow> string option \<Rightarrow> string \<Rightarrow> fin_db \<Rightarrow> league_member \<Rightarrow> audit_input" where
  "refund_audit league txHash actorId s m =
     \<lparr>ai_action = Audit_REFUND, ai_userId = Some (lm_userId m), ai_actorId = Some actorId, ai_leagueId = Some (lg_id league),
      ai_transactionId = None, ai_amount = Some (lg_entryFee league), ai_asset = Some usdcAssetCode, ai_stellarTxHash = txHash,
      ai_metadata = [(''memberId'', MetaText (lm_id m)),
        (''stellarAddress'', if stellarAddress s m = [] then MetaNull else MetaText (stellarAddress s m))]\<rparr>"

text \<open>The unique index on hash and member; null hashes never collide.\<close>

definition duplicate_tx :: "string option \<Rightarrow> league_member list \<Rightarrow> ledger_tx list \<Rightarrow> bool" where
  "duplicate_tx txHash batch txs \<longleftrightarrow>
     txHash \<noteq> None \<and> (\<not> distinct (map lm_id batch) \<or>
       list_ex (\<lambda>m. list_ex (\<lambda>t. tx_stellarTxHash t = txHash \<and> tx_memberId t = Some (lm_id m)) txs) batch)"

definition mark_refunded :: "string list \<Rightarrow> league_member \<Rightarrow> league_member" where
  "mark_refunded ids m = (if lm_id m \<in> set ids then m\<lparr>lm_paymentStatus := PAYMENT_REFUNDED\<rparr> else m)"

definition commitRefundBatch :: "int \<Rightarrow> league \<Rightarrow> league_member list \<Rightarrow> string option \<Rightarrow> string \<Rightarrow> fin_db \<Rightarrow> refund_failure + fin_db" where
  "commitRefundBatch now league batch txHash actorId s =
     (case find (\<lambda>m. lm_id m \<notin> set (map lm_id (fd_members s))) batch of
        Some m \<Rightarrow> Inl (DbFailure (RecordGone (lm_id m)))
      | None \<Rightarrow>
          if duplicate_tx txHash batch (fd_transactions s) then Inl (DbFailure DuplicateTransaction)
          else Inr (s\<lparr>fd_leagues := (fd_leagues s)\<lparr>ld_members := map (mark_refunded (map lm_id batch)) (fd_members s)\<rparr>,
                      fd_transactions := fd_transactions s @ map (refund_tx now league txHash) batch,
                      fd_payouts := foldl (\<lambda>q m. audited (refund_audit league txHash actorId s m) q) (fd_payouts s) batch\<rparr>))"

section \<open>Retrying a failed payout\<close>

definition redispatch_body ::
  "refund_env \<Rightarrow> int \<Rightarrow> failed_payout \<Rightarrow> string \<Rightarrow> string option \<Rightarrow> fin_db \<Rightarrow> (refund_failure + retry_result) \<times> fin_db" where
  "redispatch_body env now entry actorId note s =
     (case findLeague (fd_leagues s) (fp_leagueId entry) of
        None \<Rightarrow> (Inl (LeagueMissing (fp_leagueId entry)), s)
      | Some league \<Rightarrow>
          let owed = filter (\<lambda>m. lm_id m \<in> set (fp_memberIds entry) \<and> isRefundOwed m) (league_rows s (lg_id league))
          in if owed = []
             then (Inr \<lparr>rr_success = True, rr_status = Payout_RESOLVED, rr_txHash = None, rr_paidMemberIds = [], rr_error = None\<rparr>,
                   with_payouts (markResolved now entry actorId None
                     (Some (case note of None \<Rightarrow> ''No outstanding refunds remained for this entry'' | Some n \<Rightarrow> n)) []) s)
             else
               (case (if list_ex (\<lambda>m. stellarAddress s m = []) owed
                      then Inr (\<lparr>ro_success = False, ro_txHash = None, ro_error = Some MISSING_WALLET_ERROR, ro_contractErrorCode = None\<rparr>, s)
                      else res_bind (toContractLeagueId (lg_id league))
                        (\<lambda>cid. Inr (dispatchRefund env cid (map (stellarAddress s) owed) s))) of
                  Inl f \<Rightarrow> (Inl f, s)
                | Inr (result, s1) \<Rightarrow>
                    if \<not> ro_success result
                    then (Inr \<lparr>rr_success = False, rr_status = Payout_PENDING, rr_txHash = ro_txHash result, rr_paidMemberIds = [],
                               rr_error = Some (error_or (ro_error result))\<rparr>,
                          with_payouts (markRetryFailed now entry actorId (error_or (ro_error result)) (ro_contractErrorCode result)) s1)
                    else
                      (case commitRefundBatch now league owed (ro_txHash result) actorId s1 of
                         Inl f \<Rightarrow> (Inl f, s1)
                       | Inr s2 \<Rightarrow>
                           (Inr \<lparr>rr_success = True, rr_status = Payout_RESOLVED, rr_txHash = ro_txHash result,
                                 rr_paidMemberIds = map lm_id owed, rr_error = None\<rparr>,
                            with_payouts (markResolved now entry actorId (ro_txHash result) note (map lm_id owed)) s2))))"

definition redispatchRefundEntry ::
  "refund_env \<Rightarrow> int \<Rightarrow> nat \<Rightarrow> string \<Rightarrow> string option \<Rightarrow> fin_db \<Rightarrow> (refund_error + retry_result) \<times> fin_db" where
  "redispatchRefundEntry env now failedPayoutId actorId note s =
     (case claimForRetry failedPayoutId now (fd_payouts s) of
        Inl e \<Rightarrow> (Inl (QueueError e), s)
      | Inr (entry, q) \<Rightarrow>
          (case redispatch_body env now entry actorId note (s\<lparr>fd_payouts := q\<rparr>) of
             (Inr r, s1) \<Rightarrow> (Inr r, s1)
           | (Inl f, s1) \<Rightarrow>
               (Inl (RefundFailure f), with_payouts (markRetryFailed now entry actorId (failure_text env f) None) s1)))"

definition retryDeadLetteredPayout ::
  "refund_env \<Rightarrow> int \<Rightarrow> nat \<Rightarrow> string \<Rightarrow> string option \<Rightarrow> fin_db \<Rightarrow> (refund_error + retry_result) \<times> fin_db" where
  "retryDeadLetteredPayout env now failedPayoutId actorId note s =
     (case get_payout failedPayoutId (fd_payouts s) of
        Inl e \<Rightarrow> (Inl (QueueError e), s)
      | Inr entry \<Rightarrow>
          if fp_type entry \<noteq> REFUND then (Inl (RetryUnsupported (fp_type entry)), s)
          else redispatchRefundEntry env now failedPayoutId actorId note s)"

section \<open>Refunding a league\<close>

definition is_conflict :: "refund_error \<Rightarrow> bool" where
  "is_conflict e = (case e of QueueError (DeadLetterConflict _ _) \<Rightarrow> True | QueueError ReasonRequired \<Rightarrow> True | _ \<Rightarrow> False)"

fun retry_loop :: "refund_env \<Rightarrow> int \<Rightarrow> failed_payout list \<Rightarrow> refund_report \<Rightarrow> fin_db \<Rightarrow> (refund_error + refund_report) \<times> fin_db" where
  "retry_loop env now [] rep s = (Inr rep, s)"
| "retry_loop env now (entry # es) rep s =
     (case redispatchRefundEntry env now (fp_id entry) SYSTEM_ACTOR None s of
        (Inr r, s1) \<Rightarrow>
          retry_loop env now es (rep\<lparr>rp_autoRetried := rp_autoRetried rep @ [(fp_id entry, rr_success r)],
            rp_refundedMemberIds := rp_refundedMemberIds rep @ rr_paidMemberIds r\<rparr>) s1
      | (Inl e, s1) \<Rightarrow> if is_conflict e then retry_loop env now es rep s1 else (Inl e, s1))"

definition refund_letter :: "league \<Rightarrow> string list \<Rightarrow> string list \<Rightarrow> string \<Rightarrow> nat option \<Rightarrow> bool option \<Rightarrow> dead_letter_input" where
  "refund_letter league memberIds recipients error code recov =
     \<lparr>di_type = REFUND, di_leagueId = lg_id league, di_memberIds = memberIds, di_recipients = recipients,
      di_amountPerRecipient = lg_entryFee league, di_error = error, di_errorCode = code, di_recoverable = recov\<rparr>"

definition dead_letter_refund :: "int \<Rightarrow> dead_letter_input \<Rightarrow> refund_report \<Rightarrow> fin_db \<Rightarrow> refund_report \<times> fin_db" where
  "dead_letter_refund now i rep s =
     (let (eid, q) = deadLetter now i (fd_payouts s)
      in (rep\<lparr>rp_deadLetteredIds := rp_deadLetteredIds rep @ [eid]\<rparr>, s\<lparr>fd_payouts := q\<rparr>))"

fun dispatch_batches ::
  "refund_env \<Rightarrow> int \<Rightarrow> league \<Rightarrow> nat \<Rightarrow> (league_member \<Rightarrow> string) \<Rightarrow> league_member list list \<Rightarrow> refund_report \<Rightarrow> fin_db
     \<Rightarrow> (refund_error + refund_report) \<times> fin_db" where
  "dispatch_batches env now league cid addr [] rep s = (Inr rep, s)"
| "dispatch_batches env now league cid addr (batch # bs) rep s =
     (let memberIds = map lm_id batch; recipients = map addr batch;
          (result, s1) = dispatchRefund env cid recipients s
      in if \<not> ro_success result
         then (let error = error_or (ro_error result);
                   (rep1, s2) = dead_letter_refund now
                     (refund_letter league memberIds recipients error (ro_contractErrorCode result) None)
                     (rep\<lparr>rp_failedBatches := rp_failedBatches rep @ [(memberIds, error)]\<rparr>) s1
               in dispatch_batches env now league cid addr bs rep1 s2)
         else (case commitRefundBatch now league batch (ro_txHash result) SYSTEM_ACTOR s1 of
                 Inl f \<Rightarrow> (Inl (RefundFailure f), s1)
               | Inr s2 \<Rightarrow>
                   dispatch_batches env now league cid addr bs
                     (rep\<lparr>rp_refundedMemberIds := rp_refundedMemberIds rep @ memberIds\<rparr>) s2))"

text \<open>The members of the snapshot that are due and not refunded by the retries before.\<close>

definition pending_refunds :: "fin_db \<Rightarrow> string \<Rightarrow> string list \<Rightarrow> league_member list" where
  "pending_refunds seen leagueId refundedNow =
     filter (\<lambda>m. isRefundOwed m \<and> lm_id m \<notin> set refundedNow) (league_rows seen leagueId)"

definition dispatch_phase ::
  "refund_env \<Rightarrow> int \<Rightarrow> fin_db \<Rightarrow> league \<Rightarrow> nat \<Rightarrow> refund_report \<Rightarrow> fin_db \<Rightarrow> (refund_error + refund_report) \<times> fin_db" where
  "dispatch_phase env now seen league cid rep s =
     (let isolated = getIsolatedMemberIds (lg_id league) REFUND (fd_payouts s);
          pending = pending_refunds seen (lg_id league) (rp_refundedMemberIds rep);
          dispatchable = filter (\<lambda>m. lm_id m \<notin> set isolated) pending;
          refundable = filter (\<lambda>m. stellarAddress seen m \<noteq> []) dispatchable;
          missingWallet = filter (\<lambda>m. stellarAddress seen m = []) dispatchable;
          rep1 = rep\<lparr>rp_isolatedMemberIds := map lm_id (filter (\<lambda>m. lm_id m \<in> set isolated) pending),
                     rp_skippedMemberIds := map lm_id missingWallet\<rparr>;
          (rep2, s2) =
            (if missingWallet = [] then (rep1, s)
             else dead_letter_refund now
               (refund_letter league (map lm_id missingWallet) [] MISSING_WALLET_ERROR None (Some False)) rep1 s);
          batches = chunk refundable REFUND_BATCH_SIZE
      in dispatch_batches env now league cid (stellarAddress seen) batches (rep2\<lparr>rp_batches := length batches\<rparr>) s2)"

definition new_report :: "string \<Rightarrow> nat \<Rightarrow> refund_report" where
  "new_report leagueId cid =
     \<lparr>rp_leagueId = leagueId, rp_contractLeagueId = cid, rp_batches = 0, rp_refundedMemberIds = [], rp_failedBatches = [],
      rp_skippedMemberIds = [], rp_deadLetteredIds = [], rp_isolatedMemberIds = [], rp_autoRetried = []\<rparr>"

text \<open>\<open>seen\<close> is the state in which the league and its members were read.\<close>

definition processLeagueRefunds ::
  "refund_env \<Rightarrow> int \<Rightarrow> fin_db \<Rightarrow> string \<Rightarrow> fin_db \<Rightarrow> (refund_error + refund_report) \<times> fin_db" where
  "processLeagueRefunds env now seen leagueId s =
     (case findLeague (fd_leagues seen) leagueId of
        None \<Rightarrow> (Inl (RefundFailure (LeagueMissing leagueId)), s)
      | Some league \<Rightarrow>
          if lg_status league \<noteq> CANCELLED then (Inl (NotCancelled (lg_status league)), s)
          else
            (case toContractLeagueId (lg_id league) of
               Inl f \<Rightarrow> (Inl (RefundFailure f), s)
             | Inr cid \<Rightarrow>
                 (case retry_loop env now (getAutoRetryable (lg_id league) REFUND (fd_payouts s)) (new_report (lg_id league) cid) s of
                    (Inl e, s1) \<Rightarrow> (Inl e, s1)
                  | (Inr rep, s1) \<Rightarrow> dispatch_phase env now seen league cid rep s1)))"

record reconciliation =
  rc_leagueId :: string
  rc_contractLeagueId :: nat
  rc_remainingEscrowStroops :: int
  rc_outstandingMemberIds :: "string list"
  rc_isFullyRefunded :: bool

text \<open>\<open>deposit\<close> is what the contract holds for an address.\<close>

definition verifyRefundReconciliation :: "(nat \<Rightarrow> string \<Rightarrow> int) \<Rightarrow> string \<Rightarrow> fin_db \<Rightarrow> refund_error + reconciliation" where
  "verifyRefundReconciliation deposit leagueId s =
     (case findLeague (fd_leagues s) leagueId of
        None \<Rightarrow> Inl (RefundFailure (LeagueMissing leagueId))
      | Some league \<Rightarrow>
          (case toContractLeagueId (lg_id league) of
             Inl f \<Rightarrow> Inl (RefundFailure f)
           | Inr cid \<Rightarrow>
               let remaining = (\<Sum>m\<leftarrow>league_rows s (lg_id league). if stellarAddress s m = [] then 0 else deposit cid (stellarAddress s m));
                   outstanding = map lm_id (filter isRefundOwed (league_rows s (lg_id league)))
               in Inr \<lparr>rc_leagueId = lg_id league, rc_contractLeagueId = cid, rc_remainingEscrowStroops = remaining,
                       rc_outstandingMemberIds = outstanding, rc_isFullyRefunded = (remaining = 0 \<and> outstanding = [])\<rparr>))"

section \<open>The worker\<close>

record worker_result =
  wr_processed :: nat
  wr_succeeded :: nat
  wr_failed :: nat
  wr_maxAttemptsExceeded :: nat
  wr_errors :: "(nat \<times> refund_error) list"

definition worker_failed :: "nat \<Rightarrow> refund_error \<Rightarrow> worker_result \<Rightarrow> worker_result" where
  "worker_failed i e w = w\<lparr>wr_errors := wr_errors w @ [(i, e)], wr_failed := wr_failed w + 1\<rparr>"

definition work_entry ::
  "refund_env \<Rightarrow> (nat \<Rightarrow> rat) \<Rightarrow> int \<Rightarrow> failed_payout \<Rightarrow> worker_result \<times> fin_db \<Rightarrow> worker_result \<times> fin_db" where
  "work_entry env rnd now entry p =
     (let (w, s) = p; i = fp_id entry
      in if MAX_AUTOMATIC_ATTEMPTS \<le> fp_attempts entry then (w\<lparr>wr_maxAttemptsExceeded := wr_maxAttemptsExceeded w + 1\<rparr>, s)
         else
           (case retryDeadLetteredPayout env now i ''payout-worker'' None s of
              (Inr r, s1) \<Rightarrow>
                if rr_success r then (w\<lparr>wr_succeeded := wr_succeeded w + 1\<rparr>, s1)
                else (case scheduleRetryWithBackoff (rnd i) i now (fd_payouts s1) of
                        Inr (_, q) \<Rightarrow> (w\<lparr>wr_failed := wr_failed w + 1\<rparr>, s1\<lparr>fd_payouts := q\<rparr>)
                      | Inl e \<Rightarrow> (worker_failed i (QueueError e) w, s1))
            | (Inl e, s1) \<Rightarrow>
                (worker_failed i e w,
                 case scheduleRetryWithBackoff (rnd i) i now (fd_payouts s1) of Inr (_, q) \<Rightarrow> s1\<lparr>fd_payouts := q\<rparr> | Inl _ \<Rightarrow> s1)))"

definition processPendingPayouts ::
  "refund_env \<Rightarrow> (nat \<Rightarrow> rat) \<Rightarrow> int \<Rightarrow> string \<Rightarrow> transaction_type \<Rightarrow> fin_db \<Rightarrow> worker_result \<times> fin_db" where
  "processPendingPayouts env rnd now leagueId ty s =
     (let batch = claimRetryBatchLockFree leagueId ty now (fd_payouts s)
      in foldl (\<lambda>p e. work_entry env rnd now e p)
           (\<lparr>wr_processed = length batch, wr_succeeded = 0, wr_failed = 0, wr_maxAttemptsExceeded = 0, wr_errors = []\<rparr>, s) batch)"

definition add_results :: "worker_result \<Rightarrow> worker_result \<Rightarrow> worker_result" where
  "add_results a r =
     \<lparr>wr_processed = wr_processed a + wr_processed r, wr_succeeded = wr_succeeded a + wr_succeeded r, wr_failed = wr_failed a + wr_failed r,
      wr_maxAttemptsExceeded = wr_maxAttemptsExceeded a + wr_maxAttemptsExceeded r, wr_errors = wr_errors a @ wr_errors r\<rparr>"

definition processAllPendingPayouts ::
  "refund_env \<Rightarrow> (nat \<Rightarrow> rat) \<Rightarrow> int \<Rightarrow> string list \<Rightarrow> transaction_type \<Rightarrow> fin_db \<Rightarrow> worker_result \<times> fin_db" where
  "processAllPendingPayouts env rnd now leagueIds ty s =
     foldl (\<lambda>(a, s) l. let (r, s1) = processPendingPayouts env rnd now l ty s in (add_results a r, s1))
       (\<lparr>wr_processed = 0, wr_succeeded = 0, wr_failed = 0, wr_maxAttemptsExceeded = 0, wr_errors = []\<rparr>, s) leagueIds"

section \<open>The refund job\<close>

datatype job_error = LeagueJobError league_error | RefundJobError refund_error

definition leagues_to_refund :: "fin_db \<Rightarrow> string list" where
  "leagues_to_refund s =
     map lg_id (filter (\<lambda>l. lg_status l = CANCELLED \<and> list_ex isRefundOwed (league_rows s (lg_id l))) (ld_leagues (fd_leagues s)))"

definition outstanding :: "refund_report \<Rightarrow> bool" where
  "outstanding rep \<longleftrightarrow> rp_deadLetteredIds rep \<noteq> [] \<or> rp_isolatedMemberIds rep \<noteq> [] \<or> list_ex (\<lambda>r. \<not> snd r) (rp_autoRetried rep)"

fun refund_each ::
  "refund_env \<Rightarrow> (nat \<Rightarrow> string \<Rightarrow> int) \<Rightarrow> int \<Rightarrow> string list \<Rightarrow> fin_db \<Rightarrow> (job_error + (refund_report \<times> reconciliation option) list) \<times> fin_db" where
  "refund_each env deposit now [] s = (Inr [], s)"
| "refund_each env deposit now (i # is) s =
     (case processLeagueRefunds env now s i s of
        (Inl e, s1) \<Rightarrow> (Inl (RefundJobError e), s1)
      | (Inr rep, s1) \<Rightarrow>
          (case (if outstanding rep then Inr None else res_bind (verifyRefundReconciliation deposit i s1) (\<lambda>r. Inr (Some r))) of
             Inl e \<Rightarrow> (Inl (RefundJobError e), s1)
           | Inr r \<Rightarrow>
               (case refund_each env deposit now is s1 of
                  (Inl e, s2) \<Rightarrow> (Inl e, s2)
                | (Inr rs, s2) \<Rightarrow> (Inr ((rep, r) # rs), s2))))"

definition refund_job ::
  "refund_env \<Rightarrow> (nat \<Rightarrow> string \<Rightarrow> int) \<Rightarrow> int \<Rightarrow> fin_db \<Rightarrow> (job_error + (refund_report \<times> reconciliation option) list) \<times> fin_db" where
  "refund_job env deposit now s =
     (case cancelUnderfilledLeagues (fd_leagues s) now (fd_leagues s) of
        Inl e \<Rightarrow> (Inl (LeagueJobError e), s)
      | Inr (db, _) \<Rightarrow> (let s1 = s\<lparr>fd_leagues := db\<rparr> in refund_each env deposit now (leagues_to_refund s1) s1))"

section \<open>Paying members\<close>

text \<open>
  What a step may do to the books: the listed members, all of them due a refund, become refunded and get one ledger row
  each, and nothing else of members and ledger changes.
\<close>

definition pays :: "string list \<Rightarrow> fin_db \<Rightarrow> fin_db \<Rightarrow> bool" where
  "pays ids s s' \<longleftrightarrow>
     distinct ids \<and> (\<forall>i \<in> set ids. \<exists>m \<in> set (fd_members s). lm_id m = i \<and> isRefundOwed m) \<and>
     fd_leagues s' = (fd_leagues s)\<lparr>ld_members := map (mark_refunded ids) (fd_members s)\<rparr> \<and> fd_addresses s' = fd_addresses s \<and>
     (\<exists>rows. fd_transactions s' = fd_transactions s @ rows \<and> map tx_memberId rows = map Some ids \<and>
        (\<forall>r \<in> set rows. tx_type r = REFUND \<and> tx_status r = Tx_CONFIRMED))"

definition fin_keys_ok :: "fin_db \<Rightarrow> bool" where
  "fin_keys_ok s \<longleftrightarrow> distinct (map lm_id (fd_members s)) \<and> queue_ok (fd_payouts s)"

lemma mark_refunded_simps [simp]:
  "lm_id (mark_refunded ids m) = lm_id m" "lm_leagueId (mark_refunded ids m) = lm_leagueId m"
  "mark_refunded [] m = m" "isRefundOwed (mark_refunded ids m) \<longleftrightarrow> isRefundOwed m \<and> lm_id m \<notin> set ids"
  by (simp_all add: mark_refunded_def isRefundOwed_def)

lemma mark_refunded_append: "mark_refunded b (mark_refunded a m) = mark_refunded (a @ b) m"
  by (simp add: mark_refunded_def)

lemma map_lm_id_mark [simp]: "map (lm_id \<circ> mark_refunded ids) ms = map lm_id ms"
  by simp

lemma pays_none:
  assumes "fd_leagues s' = fd_leagues s" "fd_addresses s' = fd_addresses s" "fd_transactions s' = fd_transactions s"
  shows "pays [] s s'"
proof -
  have "map (mark_refunded []) (fd_members s) = fd_members s" by (rule map_idI) simp
  then show ?thesis using assms by (simp add: pays_def)
qed

lemma pays_refl [simp]: "pays [] s s"
  by (rule pays_none) simp_all

lemma pays_members: "pays ids s s' \<Longrightarrow> fd_members s' = map (mark_refunded ids) (fd_members s)"
  by (simp add: pays_def)

lemma pays_trans:
  assumes "distinct (map lm_id (fd_members s))" "pays a s s1" "pays b s1 s2"
  shows "pays (a @ b) s s2"
proof -
  note m1 = pays_members [OF assms(2)]
  have b: "i \<notin> set a \<and> (\<exists>m \<in> set (fd_members s). lm_id m = i \<and> isRefundOwed m)" if "i \<in> set b" for i
    using assms(3) that unfolding pays_def m1 by fastforce
  have d: "distinct a" "distinct b" using assms(2,3) by (simp_all add: pays_def)
  have "map (mark_refunded b) (map (mark_refunded a) (fd_members s)) = map (mark_refunded (a @ b)) (fd_members s)"
    by (simp add: mark_refunded_append)
  then have l: "fd_leagues s2 = (fd_leagues s)\<lparr>ld_members := map (mark_refunded (a @ b)) (fd_members s)\<rparr>"
    "fd_addresses s2 = fd_addresses s"
    using assms(2,3) unfolding pays_def by simp_all
  obtain ra rb where "fd_transactions s1 = fd_transactions s @ ra" "map tx_memberId ra = map Some a"
    "\<forall>r \<in> set ra. tx_type r = REFUND \<and> tx_status r = Tx_CONFIRMED" "fd_transactions s2 = fd_transactions s1 @ rb"
    "map tx_memberId rb = map Some b" "\<forall>r \<in> set rb. tx_type r = REFUND \<and> tx_status r = Tx_CONFIRMED"
    using assms(2,3) unfolding pays_def by blast
  then have r: "\<exists>rows. fd_transactions s2 = fd_transactions s @ rows \<and> map tx_memberId rows = map Some (a @ b) \<and>
      (\<forall>r \<in> set rows. tx_type r = REFUND \<and> tx_status r = Tx_CONFIRMED)"
    by (intro exI [of _ "ra @ rb"]) auto
  show ?thesis unfolding pays_def using d b l r assms(2) by (auto simp: pays_def)
qed

lemma rows_foldl_audited [simp]:
  "dl_rows (foldl (\<lambda>q m. audited (f m) q) q ms) = dl_rows q" "dl_nextId (foldl (\<lambda>q m. audited (f m) q) q ms) = dl_nextId q"
  by (induction ms arbitrary: q) simp_all

lemma commit_pays:
  assumes "commitRefundBatch now league batch h actor s = Inr s'" and "distinct (map lm_id batch)"
    and "\<And>m. m \<in> set batch \<Longrightarrow> m \<in> set (fd_members s) \<and> isRefundOwed m"
  shows "pays (map lm_id batch) s s'" "dl_rows (fd_payouts s') = dl_rows (fd_payouts s)"
    "dl_nextId (fd_payouts s') = dl_nextId (fd_payouts s)"
proof -
  have s': "s' = s\<lparr>fd_leagues := (fd_leagues s)\<lparr>ld_members := map (mark_refunded (map lm_id batch)) (fd_members s)\<rparr>,
      fd_transactions := fd_transactions s @ map (refund_tx now league h) batch,
      fd_payouts := foldl (\<lambda>q m. audited (refund_audit league h actor s m) q) (fd_payouts s) batch\<rparr>"
    using assms(1) by (auto simp: commitRefundBatch_def split: option.splits if_splits)
  show "dl_rows (fd_payouts s') = dl_rows (fd_payouts s)" "dl_nextId (fd_payouts s') = dl_nextId (fd_payouts s)"
    by (simp_all add: s')
  have "\<forall>i \<in> set (map lm_id batch). \<exists>m \<in> set (fd_members s). lm_id m = i \<and> isRefundOwed m" using assms(3) by auto
  moreover have "map tx_memberId (map (refund_tx now league h) batch) = map Some (map lm_id batch)" by (simp add: refund_tx_def)
  moreover have "\<forall>r \<in> set (map (refund_tx now league h) batch). tx_type r = REFUND \<and> tx_status r = Tx_CONFIRMED"
    by (auto simp: refund_tx_def)
  ultimately show "pays (map lm_id batch) s s'" using assms(2) unfolding pays_def s' by auto
qed

lemma fin_keys_pays:
  assumes "pays ids s s'" "fin_keys_ok s" "queue_ok (fd_payouts s')"
  shows "fin_keys_ok s'"
  using assms pays_members [OF assms(1)] by (simp add: fin_keys_ok_def)

lemma queue_ok_cong: "dl_rows q = dl_rows q' \<Longrightarrow> dl_nextId q = dl_nextId q' \<Longrightarrow> queue_ok q = queue_ok q'"
  by (simp add: queue_ok_def)

lemma queue_ok_markResolved: "queue_ok q \<Longrightarrow> queue_ok (markResolved now e a h n ids q)"
  unfolding markResolved_def queue_ok_audited by (erule queue_ok_update) simp

lemma queue_ok_markRetryFailed: "queue_ok q \<Longrightarrow> queue_ok (markRetryFailed now e a t c q)"
  unfolding markRetryFailed_def Let_def split_beta queue_ok_audited by (erule queue_ok_update) simp

lemma queue_ok_claim: "queue_ok q \<Longrightarrow> claimForRetry i now q = Inr (e, q') \<Longrightarrow> queue_ok q'"
  using claim_InrD [of q i now e q'] queue_ok_update [of q "claimed now" i "claimable now"] by (auto simp: claimed_def)

lemma dispatchRefund_state [simp]:
  "snd (dispatchRefund env cid rs s) = s\<lparr>fd_calls := fd_calls s @ [(cid, rs)]\<rparr>"
  by (simp add: dispatchRefund_def)

lemma with_payouts_simps [simp]:
  "fd_leagues (with_payouts f s) = fd_leagues s" "fd_addresses (with_payouts f s) = fd_addresses s"
  "fd_transactions (with_payouts f s) = fd_transactions s" "fd_payouts (with_payouts f s) = f (fd_payouts s)"
  "fd_calls (with_payouts f s) = fd_calls s"
  by (simp_all add: with_payouts_def)

lemma pays_with_payouts: "pays ids s (with_payouts f s') = pays ids s s'" "pays ids (with_payouts f s) s' = pays ids s s'"
  by (simp_all add: pays_def with_payouts_def)

lemma pays_calls: "pays ids (s\<lparr>fd_calls := c\<rparr>) s' = pays ids s s'" "pays ids (s\<lparr>fd_payouts := q\<rparr>) s' = pays ids s s'"
  by (simp_all add: pays_def)

lemma pays_same_right: "pays ids s (s'\<lparr>fd_calls := c\<rparr>) = pays ids s s'" "pays ids s (s'\<lparr>fd_payouts := q\<rparr>) = pays ids s s'"
  by (simp_all add: pays_def)

definition owed_of :: "failed_payout \<Rightarrow> league \<Rightarrow> fin_db \<Rightarrow> league_member list" where
  "owed_of entry league s = filter (\<lambda>m. lm_id m \<in> set (fp_memberIds entry) \<and> isRefundOwed m) (league_rows s (lg_id league))"

definition paid :: "('e + retry_result) \<Rightarrow> string list" where
  "paid r = (case r of Inl _ \<Rightarrow> [] | Inr x \<Rightarrow> rr_paidMemberIds x)"

lemma paid_simps [simp]: "paid (Inl e) = []" "paid (Inr x) = rr_paidMemberIds x"
  by (simp_all add: paid_def)

lemma owed_of_facts:
  assumes "fin_keys_ok s"
  shows "distinct (map lm_id (owed_of entry league s))"
    and "m \<in> set (owed_of entry league s) \<Longrightarrow> m \<in> set (fd_members s) \<and> isRefundOwed m"
  using assms by (auto simp: owed_of_def league_rows_def fin_keys_ok_def distinct_map_filter)

lemma body_pays:
  assumes ok: "fin_keys_ok s" and run: "redispatch_body env now entry actor note s = (r, s')"
  shows "pays (paid r) s s' \<and> queue_ok (fd_payouts s')"
proof (cases "findLeague (fd_leagues s) (fp_leagueId entry)")
  case None
  then show ?thesis using run ok by (auto simp: redispatch_body_def fin_keys_ok_def intro: pays_none)
next
  case (Some league)
  note body = run [unfolded redispatch_body_def Some option.case Let_def owed_of_def [symmetric]]
  have q: "queue_ok (fd_payouts s)" using ok by (simp add: fin_keys_ok_def)
  show ?thesis
  proof (cases "owed_of entry league s = []")
    case True
    then show ?thesis using body q by (auto simp: pays_with_payouts queue_ok_markResolved)
  next
    case owed: False
    show ?thesis
    proof (cases "list_ex (\<lambda>m. stellarAddress s m = []) (owed_of entry league s)")
      case True
      then show ?thesis using body owed q by (auto simp: queue_ok_markRetryFailed pays_with_payouts pays_same_right)
    next
      case wallets: False
      show ?thesis
      proof (cases "toContractLeagueId (lg_id league)")
        case (Inl f)
        then show ?thesis using body owed wallets q by (auto intro: pays_none)
      next
        case (Inr cid)
        define d where "d = dispatchRefund env cid (map (stellarAddress s) (owed_of entry league s)) s"
        have d: "snd d = s\<lparr>fd_calls := fd_calls s @ [(cid, map (stellarAddress s) (owed_of entry league s))]\<rparr>" by (simp add: d_def)
        note b = body [unfolded if_not_P [OF owed] if_not_P [OF wallets] Inr res_bind_simps sum.case d_def [symmetric] split_beta]
        show ?thesis
        proof (cases "ro_success (fst d)")
          case False
          then show ?thesis using b q by (auto simp: d queue_ok_markRetryFailed pays_with_payouts pays_same_right)
        next
          case success: True
          show ?thesis
          proof (cases "commitRefundBatch now league (owed_of entry league s) (ro_txHash (fst d)) actor (snd d)")
            case (Inl f)
            then show ?thesis using b success q by (auto simp: d pays_same_right)
          next
            case c: (Inr s2)
            have p: "pays (map lm_id (owed_of entry league s)) s s2" "queue_ok (fd_payouts s2)"
              using commit_pays [OF c owed_of_facts(1) [OF ok]] owed_of_facts(2) [OF ok] q queue_ok_cong [of "fd_payouts s2" "fd_payouts s"]
              by (auto simp: d pays_calls)
            then show ?thesis using b success c by (auto simp: pays_with_payouts queue_ok_markResolved)
          qed
        qed
      qed
    qed
  qed
qed

lemma redispatch_pays:
  assumes ok: "fin_keys_ok s" and run: "redispatchRefundEntry env now i actor note s = (r, s')"
  shows "pays (paid r) s s' \<and> queue_ok (fd_payouts s')"
proof (cases "claimForRetry i now (fd_payouts s)")
  case (Inl e)
  then show ?thesis using run ok by (auto simp: redispatchRefundEntry_def fin_keys_ok_def intro: pays_none)
next
  case (Inr p)
  obtain entry q where p: "p = (entry, q)" by (cases p)
  have "fin_keys_ok (s\<lparr>fd_payouts := q\<rparr>)" using ok queue_ok_claim [OF _ Inr [unfolded p]] by (simp add: fin_keys_ok_def)
  moreover obtain r1 s1 where b: "redispatch_body env now entry actor note (s\<lparr>fd_payouts := q\<rparr>) = (r1, s1)" by fastforce
  ultimately have "pays (paid r1) s s1" "queue_ok (fd_payouts s1)" using body_pays [of "s\<lparr>fd_payouts := q\<rparr>"] by (auto simp: pays_calls)
  then show ?thesis using run Inr p b
    by (cases r1) (auto simp: redispatchRefundEntry_def pays_with_payouts queue_ok_markRetryFailed)
qed

lemma retry_loop_pays:
  assumes "fin_keys_ok s" and "retry_loop env now es rep s = (r, s')"
  shows "\<exists>ids. pays ids s s' \<and> queue_ok (fd_payouts s') \<and>
    (case r of Inl _ \<Rightarrow> True | Inr rep' \<Rightarrow> rp_refundedMemberIds rep' = rp_refundedMemberIds rep @ ids)"
  using assms
proof (induction es arbitrary: rep s)
  case Nil
  then show ?case by (intro exI [of _ "[]"]) (auto simp: fin_keys_ok_def intro: pays_none)
next
  case (Cons e es)
  obtain r1 s1 where run: "redispatchRefundEntry env now (fp_id e) SYSTEM_ACTOR None s = (r1, s1)" by fastforce
  have p: "pays (paid r1) s s1" "queue_ok (fd_payouts s1)" using redispatch_pays [OF Cons.prems(1) run] by auto
  have k: "fin_keys_ok s1" by (rule fin_keys_pays [OF p(1) Cons.prems(1) p(2)])
  have dist: "distinct (map lm_id (fd_members s))" using Cons.prems(1) by (simp add: fin_keys_ok_def)
  have go: ?case if cont: "retry_loop env now es rep1 s1 = (r, s')" and rep1: "rp_refundedMemberIds rep1 = rp_refundedMemberIds rep @ paid r1" for rep1
  proof -
    obtain ids where "pays ids s1 s'" "queue_ok (fd_payouts s')"
      "case r of Inl _ \<Rightarrow> True | Inr rep' \<Rightarrow> rp_refundedMemberIds rep' = rp_refundedMemberIds rep1 @ ids"
      using Cons.IH [OF k cont] by blast
    then show ?thesis using pays_trans [OF dist p(1)] rep1 by (intro exI [of _ "paid r1 @ ids"]) (auto split: sum.splits)
  qed
  show ?case
  proof (cases r1)
    case (Inr x)
    then show ?thesis using Cons.prems(2) run by (intro go) auto
  next
    case (Inl err)
    show ?thesis
    proof (cases "is_conflict err")
      case True
      then show ?thesis using Cons.prems(2) run Inl by (intro go) auto
    next
      case False
      then show ?thesis using Cons.prems(2) run Inl p by auto
    qed
  qed
qed

section \<open>Dispatching\<close>

lemma isolated_iff:
  "x \<in> set (getIsolatedMemberIds L ty q) \<longleftrightarrow> (\<exists>e \<in> set (dl_rows q). isolating L ty e \<and> x \<in> set (fp_memberIds e))"
  by (auto simp: getIsolatedMemberIds_def)

lemma isolated_append:
  assumes "dl_rows q' = dl_rows q @ extra" "x \<in> set (getIsolatedMemberIds L ty q)"
  shows "x \<in> set (getIsolatedMemberIds L ty q')"
  using assms by (auto simp: isolated_iff)

lemma deadLetter_isolates:
  assumes "x \<in> set (di_memberIds i)"
  shows "x \<in> set (getIsolatedMemberIds (di_leagueId i) (di_type i) (snd (deadLetter now i q)))"
  using deadLetter_rows [of now i q] assms
  by (auto simp: isolated_iff isolating_def ISOLATING_DEAD_LETTER_STATUSES_def)

lemma dead_letter_refund_simps [simp]:
  "rp_refundedMemberIds (fst (dead_letter_refund now i rep s)) = rp_refundedMemberIds rep"
  "snd (dead_letter_refund now i rep s) = s\<lparr>fd_payouts := snd (deadLetter now i (fd_payouts s))\<rparr>"
  by (simp_all add: dead_letter_refund_def split_beta Let_def)

lemma unmarked_member:
  assumes "pays ids s s'" "m \<in> set (fd_members s)" "lm_id m \<notin> set ids"
  shows "m \<in> set (fd_members s')"
  using assms pays_members [OF assms(1)] by (force simp: mark_refunded_def)

lemma dispatch_batches_pays:
  assumes "dispatch_batches env now league cid addr bs rep s = (r, s')"
    and "fin_keys_ok s0" "pays dn s0 s" "queue_ok (fd_payouts s)" "rp_refundedMemberIds rep = dn" "distinct (map lm_id (concat bs))"
    and "\<forall>m \<in> set (concat bs). m \<in> set (fd_members s0) \<and> isRefundOwed m \<and> lm_id m \<notin> set dn"
  shows "\<exists>ids extra. pays (dn @ ids) s0 s' \<and> queue_ok (fd_payouts s') \<and> dl_rows (fd_payouts s') = dl_rows (fd_payouts s) @ extra \<and>
    (case r of Inl _ \<Rightarrow> True
     | Inr rep' \<Rightarrow> rp_refundedMemberIds rep' = dn @ ids \<and>
         (\<forall>m \<in> set (concat bs). lm_id m \<in> set ids \<or> lm_id m \<in> set (getIsolatedMemberIds (lg_id league) REFUND (fd_payouts s'))))"
  using assms
proof (induction bs arbitrary: rep s dn)
  case Nil
  then show ?case by (intro exI [of _ "[]"]) auto
next
  case (Cons batch bs)
  define d where "d = dispatchRefund env cid (map addr batch) s"
  have d: "snd d = s\<lparr>fd_calls := fd_calls s @ [(cid, map addr batch)]\<rparr>" by (simp add: d_def)
  note step = Cons.prems(1) [unfolded dispatch_batches.simps Let_def d_def [symmetric] split_beta]
  have rest: "distinct (map lm_id (concat bs))" using Cons.prems(6) by simp
  show ?case
  proof (cases "ro_success (fst d)")
    case False
    let ?i = "refund_letter league (map lm_id batch) (map addr batch) (error_or (ro_error (fst d))) (ro_contractErrorCode (fst d)) None"
    let ?rep = "fst (dead_letter_refund now ?i (rep\<lparr>rp_failedBatches := rp_failedBatches rep @ [(map lm_id batch, error_or (ro_error (fst d)))]\<rparr>) (snd d))"
    let ?q = "snd (deadLetter now ?i (fd_payouts s))"
    let ?s = "snd d\<lparr>fd_payouts := ?q\<rparr>"
    have run: "dispatch_batches env now league cid addr bs ?rep ?s = (r, s')" using step False by (simp add: d)
    obtain e where e: "dl_rows ?q = dl_rows (fd_payouts s) @ [e]" using deadLetter_rows [of now ?i "fd_payouts s"] by blast
    have "pays dn s0 ?s" using Cons.prems(3) by (simp add: d pays_same_right)
    moreover have "queue_ok (fd_payouts ?s)" using queue_ok_deadLetter [OF Cons.prems(4)] by simp
    moreover have "rp_refundedMemberIds ?rep = dn" using Cons.prems(5) by simp
    ultimately obtain ids extra where ih: "pays (dn @ ids) s0 s'" "queue_ok (fd_payouts s')"
      "dl_rows (fd_payouts s') = dl_rows ?q @ extra"
      "case r of Inl _ \<Rightarrow> True
       | Inr rep' \<Rightarrow> rp_refundedMemberIds rep' = dn @ ids \<and>
           (\<forall>m \<in> set (concat bs). lm_id m \<in> set ids \<or> lm_id m \<in> set (getIsolatedMemberIds (lg_id league) REFUND (fd_payouts s')))"
      using Cons.IH [OF run Cons.prems(2) _ _ _ rest] Cons.prems(7) by force
    have "lm_id m \<in> set (getIsolatedMemberIds (lg_id league) REFUND (fd_payouts s'))" if "m \<in> set batch" for m
      using isolated_append [OF ih(3)] deadLetter_isolates [of "lm_id m" ?i now "fd_payouts s"] that by (simp add: refund_letter_def)
    then show ?thesis using ih e by (intro exI [of _ ids] exI [of _ "e # extra"]) (auto split: sum.splits)
  next
    case success: True
    show ?thesis
    proof (cases "commitRefundBatch now league batch (ro_txHash (fst d)) SYSTEM_ACTOR (snd d)")
      case (Inl f)
      then show ?thesis using step success Cons.prems(3,4)
        by (intro exI [of _ "[]"]) (auto simp: d pays_same_right)
    next
      case (Inr s2)
      have m: "m \<in> set (fd_members (snd d)) \<and> isRefundOwed m" if "m \<in> set batch" for m
        using unmarked_member [OF Cons.prems(3), of m] Cons.prems(7) that by (auto simp: d)
      have c: "pays (map lm_id batch) s s2" "dl_rows (fd_payouts s2) = dl_rows (fd_payouts s)"
        "dl_nextId (fd_payouts s2) = dl_nextId (fd_payouts s)"
        using commit_pays [OF Inr] m Cons.prems(6) by (auto simp: d pays_calls)
      have "distinct (map lm_id (fd_members s0))" using Cons.prems(2) by (simp add: fin_keys_ok_def)
      then have p: "pays (dn @ map lm_id batch) s0 s2" using pays_trans Cons.prems(3) c(1) by blast
      have q: "queue_ok (fd_payouts s2)" using queue_ok_cong [OF c(2,3)] Cons.prems(4) by simp
      have run: "dispatch_batches env now league cid addr bs
          (rep\<lparr>rp_refundedMemberIds := rp_refundedMemberIds rep @ map lm_id batch\<rparr>) s2 = (r, s')"
        using step success Inr by simp
      have "\<forall>m \<in> set (concat bs). m \<in> set (fd_members s0) \<and> isRefundOwed m \<and> lm_id m \<notin> set (dn @ map lm_id batch)"
        using Cons.prems(6,7) by auto
      then obtain ids extra where ih: "pays ((dn @ map lm_id batch) @ ids) s0 s'" "queue_ok (fd_payouts s')"
        "dl_rows (fd_payouts s') = dl_rows (fd_payouts s2) @ extra"
        "case r of Inl _ \<Rightarrow> True
         | Inr rep' \<Rightarrow> rp_refundedMemberIds rep' = (dn @ map lm_id batch) @ ids \<and>
             (\<forall>m \<in> set (concat bs). lm_id m \<in> set ids \<or> lm_id m \<in> set (getIsolatedMemberIds (lg_id league) REFUND (fd_payouts s')))"
        using Cons.IH [OF run Cons.prems(2) p q _ rest] Cons.prems(5) by force
      then show ?thesis using c(2) by (intro exI [of _ "map lm_id batch @ ids"] exI [of _ extra]) (auto split: sum.splits)
    qed
  qed
qed

lemma concat_chunk: "0 < n \<Longrightarrow> concat (chunk xs n) = xs"
  by (induction xs n rule: chunk.induct) (subst chunk.simps, simp)

lemma findLeague_id: "findLeague db L = Some l \<Longrightarrow> lg_id l = L"
  by (auto simp: findLeague_def dest: find_SomeD)

lemma dispatch_phase_pays:
  assumes "dispatch_phase env now s0 league cid rep s = (r, s')"
    and "fin_keys_ok s0" "pays dn s0 s" "queue_ok (fd_payouts s)" "rp_refundedMemberIds rep = dn"
  shows "\<exists>ids. pays (dn @ ids) s0 s' \<and> queue_ok (fd_payouts s') \<and>
    (case r of Inl _ \<Rightarrow> True
     | Inr rep' \<Rightarrow> rp_refundedMemberIds rep' = dn @ ids \<and>
         (\<forall>m \<in> set (pending_refunds s0 (lg_id league) dn).
            lm_id m \<in> set ids \<or> lm_id m \<in> set (getIsolatedMemberIds (lg_id league) REFUND (fd_payouts s'))))"
proof -
  let ?L = "lg_id league"
  define isolated where "isolated = getIsolatedMemberIds ?L REFUND (fd_payouts s)"
  define pending where "pending = pending_refunds s0 ?L dn"
  define disp where "disp = filter (\<lambda>m. lm_id m \<notin> set isolated) pending"
  define good where "good = filter (\<lambda>m. stellarAddress s0 m \<noteq> []) disp"
  define bad where "bad = filter (\<lambda>m. stellarAddress s0 m = []) disp"
  define rep1 where "rep1 = rep\<lparr>rp_isolatedMemberIds := map lm_id (filter (\<lambda>m. lm_id m \<in> set isolated) pending), rp_skippedMemberIds := map lm_id bad\<rparr>"
  let ?i = "refund_letter league (map lm_id bad) [] MISSING_WALLET_ERROR None (Some False)"
  define p where "p = (if bad = [] then (rep1, s) else dead_letter_refund now ?i rep1 s)"
  have run: "dispatch_batches env now league cid (stellarAddress s0) (chunk good REFUND_BATCH_SIZE)
      (fst p\<lparr>rp_batches := length (chunk good REFUND_BATCH_SIZE)\<rparr>) (snd p) = (r, s')"
    using assms(1) unfolding dispatch_phase_def Let_def assms(5) split_beta p_def rep1_def bad_def good_def disp_def pending_def isolated_def
    by simp
  have p: "pays dn s0 (snd p)" "queue_ok (fd_payouts (snd p))" "rp_refundedMemberIds (fst p) = dn"
    using assms queue_ok_deadLetter by (auto simp: p_def rep1_def pays_same_right)
  have "\<exists>extra1. dl_rows (fd_payouts (snd p)) = dl_rows (fd_payouts s) @ extra1"
    using deadLetter_rows [of now ?i "fd_payouts s"] by (cases "bad = []") (auto simp: p_def)
  then obtain extra1 where app: "dl_rows (fd_payouts (snd p)) = dl_rows (fd_payouts s) @ extra1" by blast
  have badiso: "lm_id m \<in> set (getIsolatedMemberIds ?L REFUND (fd_payouts (snd p)))" if "m \<in> set bad" for m
    using deadLetter_isolates [of "lm_id m" ?i now "fd_payouts s"] that by (auto simp: p_def refund_letter_def)
  have cc: "concat (chunk good REFUND_BATCH_SIZE) = good" by (rule concat_chunk) (simp add: REFUND_BATCH_SIZE_def)
  have dist: "distinct (map lm_id good)"
    using assms(2) by (simp add: good_def disp_def pending_def pending_refunds_def league_rows_def fin_keys_ok_def distinct_map_filter)
  have goodm: "\<forall>m \<in> set good. m \<in> set (fd_members s0) \<and> isRefundOwed m \<and> lm_id m \<notin> set dn"
    by (simp add: good_def disp_def pending_def pending_refunds_def league_rows_def)
  obtain ids extra where res: "pays (dn @ ids) s0 s'" "queue_ok (fd_payouts s')"
    "dl_rows (fd_payouts s') = dl_rows (fd_payouts (snd p)) @ extra"
    "case r of Inl _ \<Rightarrow> True
     | Inr rep' \<Rightarrow> rp_refundedMemberIds rep' = dn @ ids \<and>
         (\<forall>m \<in> set good. lm_id m \<in> set ids \<or> lm_id m \<in> set (getIsolatedMemberIds ?L REFUND (fd_payouts s')))"
    using dispatch_batches_pays [OF run assms(2) p(1,2) _ _] p(3) dist goodm unfolding cc by force
  have iso: "x \<in> set (getIsolatedMemberIds ?L REFUND (fd_payouts s'))"
    if "x \<in> set isolated \<or> x \<in> set (getIsolatedMemberIds ?L REFUND (fd_payouts (snd p)))" for x
    using that isolated_append [OF res(3)] isolated_append [OF app] unfolding isolated_def by blast
  have "m \<in> set good \<or> m \<in> set bad \<or> lm_id m \<in> set isolated" if "m \<in> set pending" for m
    using that by (auto simp: good_def bad_def disp_def)
  then have "lm_id m \<in> set ids \<or> lm_id m \<in> set (getIsolatedMemberIds ?L REFUND (fd_payouts s'))"
    if "m \<in> set pending" "r = Inr rep'" for m rep'
    using that res(4) iso badiso by fastforce
  then show ?thesis using res unfolding pending_def by (intro exI [of _ ids]) (auto split: sum.splits)
qed

lemma process_pays:
  assumes "fin_keys_ok s" and "processLeagueRefunds env now s L s = (r, s')"
  shows "\<exists>ids. pays ids s s' \<and> queue_ok (fd_payouts s') \<and>
    (case r of Inl _ \<Rightarrow> True
     | Inr rep \<Rightarrow> rp_refundedMemberIds rep = ids \<and>
         (\<forall>m \<in> set (league_rows s L). isRefundOwed m \<longrightarrow>
            lm_id m \<in> set ids \<or> lm_id m \<in> set (getIsolatedMemberIds L REFUND (fd_payouts s'))))"
proof -
  have stay: ?thesis if "r = Inl e" "s' = s" for e
    using assms(1) that by (intro exI [of _ "[]"]) (simp add: fin_keys_ok_def)
  show ?thesis
  proof (cases "findLeague (fd_leagues s) L")
    case None
    then have "r = Inl (RefundFailure (LeagueMissing L))" "s' = s" using assms(2) by (simp_all add: processLeagueRefunds_def)
    then show ?thesis by (rule stay)
  next
    case (Some league)
    then have L: "lg_id league = L" by (rule findLeague_id)
    note run = assms(2) [unfolded processLeagueRefunds_def Some option.case L]
    show ?thesis
    proof (cases "lg_status league \<noteq> CANCELLED \<or> isl (toContractLeagueId L)")
      case True
      then have "\<exists>e. r = Inl e \<and> s' = s" using run by (auto simp: isl_def split: if_splits)
      then show ?thesis using stay by blast
    next
      case False
      then obtain cid where cid: "lg_status league = CANCELLED" "toContractLeagueId L = Inr cid" by (cases "toContractLeagueId L") auto
      obtain r1 s1 where loop: "retry_loop env now (getAutoRetryable L REFUND (fd_payouts s)) (new_report L cid) s = (r1, s1)" by fastforce
      obtain dn where dn: "pays dn s s1" "queue_ok (fd_payouts s1)"
        "case r1 of Inl _ \<Rightarrow> True | Inr rep' \<Rightarrow> rp_refundedMemberIds rep' = rp_refundedMemberIds (new_report L cid) @ dn"
        using retry_loop_pays [OF assms(1) loop] by blast
      show ?thesis
      proof (cases r1)
        case (Inl e)
        then show ?thesis using run cid loop dn by auto
      next
        case (Inr rep)
        then have rep: "rp_refundedMemberIds rep = dn" using dn(3) by (simp add: new_report_def)
        have "dispatch_phase env now s league cid rep s1 = (r, s')" using run cid loop Inr by simp
        from dispatch_phase_pays [OF this assms(1) dn(1,2) rep] obtain ids where
          "pays (dn @ ids) s s'" "queue_ok (fd_payouts s')"
          "case r of Inl _ \<Rightarrow> True
           | Inr rep' \<Rightarrow> rp_refundedMemberIds rep' = dn @ ids \<and>
              (\<forall>m \<in> set (pending_refunds s L dn). lm_id m \<in> set ids \<or> lm_id m \<in> set (getIsolatedMemberIds L REFUND (fd_payouts s')))"
          unfolding L by blast
        then show ?thesis by (intro exI [of _ "dn @ ids"]) (auto simp: pending_refunds_def split: sum.splits)
      qed
    qed
  qed
qed

text \<open>
  C6. A refund run leaves nobody behind: whatever the contract answers, a run that ends reports exactly the members it
  refunded, each once and each due before; only their payment status changes; and every member of the league
  who is still due a refund afterwards is in an open or discarded entry of the dead-letter queue.
\<close>
theorem refund_run_accounts_for_everyone:
  assumes "fin_keys_ok s" and "processLeagueRefunds env now s L s = (Inr rep, s')"
  shows "distinct (rp_refundedMemberIds rep)
    \<and> (\<forall>i \<in> set (rp_refundedMemberIds rep). \<exists>m \<in> set (fd_members s). lm_id m = i \<and> isRefundOwed m)
    \<and> fd_members s' = map (mark_refunded (rp_refundedMemberIds rep)) (fd_members s)
    \<and> (\<forall>m \<in> set (league_rows s' L). isRefundOwed m \<longrightarrow> lm_id m \<in> set (getIsolatedMemberIds L REFUND (fd_payouts s')))"
proof -
  have p: "pays (rp_refundedMemberIds rep) s s'"
    "\<And>m. m \<in> set (league_rows s L) \<Longrightarrow> isRefundOwed m \<Longrightarrow>
       lm_id m \<in> set (rp_refundedMemberIds rep) \<or> lm_id m \<in> set (getIsolatedMemberIds L REFUND (fd_payouts s'))"
    using process_pays [OF assms] by auto
  have "lm_id m \<in> set (getIsolatedMemberIds L REFUND (fd_payouts s'))" if m: "m \<in> set (league_rows s' L)" "isRefundOwed m" for m
  proof -
    obtain m0 where "m0 \<in> set (league_rows s L)" "m = mark_refunded (rp_refundedMemberIds rep) m0"
      using m(1) pays_members [OF p(1)] by (auto simp: league_rows_def)
    then show ?thesis using p(2) [of m0] m(2) by auto
  qed
  then show ?thesis using p(1) pays_members [OF p(1)] unfolding pays_def by blast
qed

section \<open>The books\<close>

definition refund_rows :: "fin_db \<Rightarrow> string \<Rightarrow> nat" where
  "refund_rows s i = length (filter (\<lambda>t. tx_type t = REFUND \<and> tx_memberId t = Some i) (fd_transactions s))"

definition refund_books_ok :: "fin_db \<Rightarrow> bool" where
  "refund_books_ok s \<longleftrightarrow> fin_keys_ok s \<and>
     (\<forall>m \<in> set (fd_members s). refund_rows s (lm_id m) = (if lm_paymentStatus m = PAYMENT_REFUNDED then 1 else 0))"

lemma length_filter_Some:
  assumes "map f rows = map Some ids" "distinct ids"
  shows "length (filter (\<lambda>r. f r = Some i) rows) = (if i \<in> set ids then 1 else 0)"
  using assms by (induction rows arbitrary: ids) (auto simp: filter_empty_conv Cons_eq_map_conv)

lemma pays_refund_rows:
  assumes "pays ids s s'"
  shows "refund_rows s' i = refund_rows s i + (if i \<in> set ids then 1 else 0)"
proof -
  obtain rows where r: "fd_transactions s' = fd_transactions s @ rows" "map tx_memberId rows = map Some ids" "distinct ids"
    "\<forall>r \<in> set rows. tx_type r = REFUND" using assms unfolding pays_def by blast
  have "filter (\<lambda>t. tx_type t = REFUND \<and> tx_memberId t = Some i) rows = filter (\<lambda>t. tx_memberId t = Some i) rows"
    using r(4) by (intro filter_cong) auto
  then show ?thesis using length_filter_Some [OF r(2,3)] r(1) by (simp add: refund_rows_def)
qed

lemma books_pays:
  assumes "refund_books_ok s" "pays ids s s'" "queue_ok (fd_payouts s')"
  shows "refund_books_ok s'"
proof -
  have keys: "fin_keys_ok s" using assms(1) by (simp add: refund_books_ok_def)
  have "refund_rows s' (lm_id m) = (if lm_paymentStatus m = PAYMENT_REFUNDED then 1 else 0)" if mem: "m \<in> set (fd_members s')" for m
  proof -
    obtain m0 where m0: "m0 \<in> set (fd_members s)" "m = mark_refunded ids m0" using mem pays_members [OF assms(2)] by auto
    have "\<not> (lm_paymentStatus m0 = PAYMENT_REFUNDED)" if paid: "lm_id m0 \<in> set ids"
    proof -
      obtain m1 where "m1 \<in> set (fd_members s)" "lm_id m1 = lm_id m0" "isRefundOwed m1" using assms(2) paid unfolding pays_def by blast
      moreover have "m1 = m0" using calculation keys m0(1) by (auto simp: fin_keys_ok_def distinct_map dest: inj_onD)
      ultimately show ?thesis by (auto simp: isRefundOwed_def)
    qed
    then show ?thesis using assms(1) m0 pays_refund_rows [OF assms(2), of "lm_id m0"] by (auto simp: refund_books_ok_def mark_refunded_def)
  qed
  then show ?thesis using fin_keys_pays [OF assms(2) keys assms(3)] by (simp add: refund_books_ok_def)
qed

text \<open>A change of the member table that keeps keys and who is refunded.\<close>

definition same_refunds :: "league_db \<Rightarrow> league_db \<Rightarrow> bool" where
  "same_refunds db db' \<longleftrightarrow>
     (\<exists>g. ld_members db' = map g (ld_members db) \<and>
        (\<forall>m. lm_id (g m) = lm_id m \<and> (lm_paymentStatus (g m) = PAYMENT_REFUNDED \<longleftrightarrow> lm_paymentStatus m = PAYMENT_REFUNDED)))"

lemma same_refunds_refl: "same_refunds db db"
  unfolding same_refunds_def by (rule exI [of _ "\<lambda>m. m"]) simp

lemma same_refunds_trans: "same_refunds a b \<Longrightarrow> same_refunds b c \<Longrightarrow> same_refunds a c"
  unfolding same_refunds_def by (elim exE conjE, rule exI [of _ "g \<circ> h" for g h]) auto

lemma books_same_refunds:
  assumes "refund_books_ok s" "same_refunds (fd_leagues s) db"
  shows "refund_books_ok (s\<lparr>fd_leagues := db\<rparr>)"
proof -
  obtain g where g: "ld_members db = map g (fd_members s)" "\<And>m. lm_id (g m) = lm_id m"
    "\<And>m. lm_paymentStatus (g m) = PAYMENT_REFUNDED \<longleftrightarrow> lm_paymentStatus m = PAYMENT_REFUNDED"
    using assms(2) by (auto simp: same_refunds_def)
  have "map lm_id (ld_members db) = map lm_id (fd_members s)" by (simp add: g)
  then have "fin_keys_ok (s\<lparr>fd_leagues := db\<rparr>)" using assms(1) by (simp add: refund_books_ok_def fin_keys_ok_def)
  moreover have "refund_rows (s\<lparr>fd_leagues := db\<rparr>) i = refund_rows s i" for i by (simp add: refund_rows_def)
  ultimately show ?thesis using assms(1) g by (auto simp: refund_books_ok_def)
qed

lemma cancel_same_refunds:
  assumes "transitionStatus db L CANCELLED db = Inr db'"
  shows "same_refunds db db'"
proof -
  have "same_refunds db (refund_members L (update_league L f db))" for f
    unfolding same_refunds_def by (rule exI [of _ "\<lambda>m. if lm_leagueId m = L then
       m\<lparr>lm_status := Member_REFUNDED,
         lm_paymentStatus := (if lm_paymentStatus m = PAYMENT_CONFIRMED then REFUND_PENDING else lm_paymentStatus m)\<rparr>
     else m"]) (simp add: refund_members_def update_league_def)
  then show ?thesis using assms same_refunds_refl by (auto simp: transitionStatus_def Let_def split: option.splits if_splits)
qed

lemma cancel_each_same_refunds: "cancel_each ls db = Inr db' \<Longrightarrow> same_refunds db db'"
  by (induction ls arbitrary: db) (auto simp: same_refunds_refl intro: same_refunds_trans cancel_same_refunds)

lemma books_payouts: "refund_books_ok s \<Longrightarrow> queue_ok q \<Longrightarrow> refund_books_ok (s\<lparr>fd_payouts := q\<rparr>)"
  using books_pays [of s "[]" "s\<lparr>fd_payouts := q\<rparr>"] by (simp add: pays_same_right)

lemma books_redispatch: "refund_books_ok s \<Longrightarrow> refund_books_ok (snd (redispatchRefundEntry env now i a n s))"
  using redispatch_pays [of s env now i a n] books_pays by (metis refund_books_ok_def surjective_pairing)

lemma books_retry: "refund_books_ok s \<Longrightarrow> refund_books_ok (snd (retryDeadLetteredPayout env now i a n s))"
  by (auto simp: retryDeadLetteredPayout_def books_redispatch split: sum.splits)

lemma books_process: "refund_books_ok s \<Longrightarrow> refund_books_ok (snd (processLeagueRefunds env now s L s))"
  using process_pays [of s env now L] books_pays by (metis refund_books_ok_def surjective_pairing)

lemma queue_ok_schedule: "queue_ok q \<Longrightarrow> scheduleRetryWithBackoff r i now q = Inr (b, q') \<Longrightarrow> queue_ok q'"
  using schedule_InrD [of r i now q b q'] queue_ok_cong [of q'] queue_ok_update [of q "rescheduled now (bo_nextRetryAt b)" i]
  by (metis rescheduled_def failed_payout.ext_inject failed_payout.surjective failed_payout.update_convs(13,14) update_payout_simps(2))

lemma books_work_entry:
  assumes "refund_books_ok (snd p)"
  shows "refund_books_ok (snd (work_entry env rnd now entry p))"
proof (cases "MAX_AUTOMATIC_ATTEMPTS \<le> fp_attempts entry")
  case True
  then show ?thesis using assms by (simp add: work_entry_def split_beta Let_def)
next
  case False
  obtain r s1 where run: "retryDeadLetteredPayout env now (fp_id entry) ''payout-worker'' None (snd p) = (r, s1)" by fastforce
  have b: "refund_books_ok s1" using books_retry [OF assms, of env now "fp_id entry" "''payout-worker''" None] run by simp
  have q: "refund_books_ok (s1\<lparr>fd_payouts := q\<rparr>)" if "scheduleRetryWithBackoff x i now (fd_payouts s1) = Inr (y, q)" for x i y q
    using books_payouts [OF b] queue_ok_schedule [OF _ that] b by (simp add: refund_books_ok_def fin_keys_ok_def)
  show ?thesis
    by (cases r; cases "scheduleRetryWithBackoff (rnd (fp_id entry)) (fp_id entry) now (fd_payouts s1)")
      (auto simp: work_entry_def split_beta Let_def run b False intro: q)
qed

lemma books_worker: "refund_books_ok s \<Longrightarrow> refund_books_ok (snd (processPendingPayouts env rnd now L ty s))"
proof -
  have "refund_books_ok (snd (foldl (\<lambda>p e. work_entry env rnd now e p) p es))" if "refund_books_ok (snd p)" for p es
    using that by (induction es arbitrary: p) (simp_all add: books_work_entry)
  then show "refund_books_ok s \<Longrightarrow> ?thesis" by (simp add: processPendingPayouts_def Let_def)
qed

lemma books_refund_each: "refund_books_ok s \<Longrightarrow> refund_books_ok (snd (refund_each env deposit now ls s))"
proof (induction ls arbitrary: s)
  case (Cons l ls)
  obtain r s1 where run: "processLeagueRefunds env now s l s = (r, s1)" by fastforce
  have b: "refund_books_ok s1" using books_process [OF Cons.prems, of env now l] run by simp
  show ?case using Cons.IH [OF b] by (auto simp: run b split: sum.splits prod.splits)
qed simp

lemma books_job: "refund_books_ok s \<Longrightarrow> refund_books_ok (snd (refund_job env deposit now s))"
proof (cases "cancelUnderfilledLeagues (fd_leagues s) now (fd_leagues s)")
  case (Inr p)
  then have "same_refunds (fd_leagues s) (fst p)" using cancel_each_same_refunds by (auto simp: cancelUnderfilledLeagues_def Let_def)
  then show "refund_books_ok s \<Longrightarrow> ?thesis" using Inr books_refund_each [OF books_same_refunds]
    by (simp add: refund_job_def Let_def split_beta)
qed (simp add: refund_job_def)

text \<open>What happens to the books of refunds, in any order: runs and retries, the job and the worker, administrators and members.\<close>

datatype refund_op =
    RunRefunds int string
  | RunJob int
  | RunWorker "nat \<Rightarrow> rat" int string
  | RetryPayout int nat string "string option"
  | DiscardPayout int nat string "string option"
  | LinkWallet string string
  | Cancel string

fun apply_refund_op :: "refund_env \<Rightarrow> (nat \<Rightarrow> string \<Rightarrow> int) \<Rightarrow> refund_op \<Rightarrow> fin_db \<Rightarrow> fin_db" where
  "apply_refund_op env deposit (RunRefunds now L) s = snd (processLeagueRefunds env now s L s)"
| "apply_refund_op env deposit (RunJob now) s = snd (refund_job env deposit now s)"
| "apply_refund_op env deposit (RunWorker rnd now L) s = snd (processPendingPayouts env rnd now L REFUND s)"
| "apply_refund_op env deposit (RetryPayout now i a n) s = snd (retryDeadLetteredPayout env now i a n s)"
| "apply_refund_op env deposit (DiscardPayout now i a r) s =
     (case discard now i a r (fd_payouts s) of Inl _ \<Rightarrow> s | Inr (_, q) \<Rightarrow> s\<lparr>fd_payouts := q\<rparr>)"
| "apply_refund_op env deposit (LinkWallet m a) s = s\<lparr>fd_addresses := AList.update m a (fd_addresses s)\<rparr>"
| "apply_refund_op env deposit (Cancel L) s =
     (case transitionStatus (fd_leagues s) L CANCELLED (fd_leagues s) of Inl _ \<Rightarrow> s | Inr db \<Rightarrow> s\<lparr>fd_leagues := db\<rparr>)"

definition refund_ops :: "refund_env \<Rightarrow> (nat \<Rightarrow> string \<Rightarrow> int) \<Rightarrow> refund_op list \<Rightarrow> fin_db \<Rightarrow> fin_db" where
  "refund_ops env deposit ops s = foldl (\<lambda>s op. apply_refund_op env deposit op s) s ops"

lemma books_discard:
  assumes "refund_books_ok s" "discard now i a r (fd_payouts s) = Inr (e, q)"
  shows "refund_books_ok (s\<lparr>fd_payouts := q\<rparr>)"
proof -
  obtain x where x: "dl_rows q = dl_rows (update_payout i (\<lambda>e. fp_status e = Payout_PENDING) (discarded now a x) (fd_payouts s))"
    "dl_nextId q = dl_nextId (fd_payouts s)" using discard_InrD [OF assms(2)] by blast
  have "queue_ok (update_payout i (\<lambda>e. fp_status e = Payout_PENDING) (discarded now a x) (fd_payouts s))"
    using assms(1) by (intro queue_ok_update) (simp_all add: refund_books_ok_def fin_keys_ok_def discarded_def)
  then have "queue_ok q" using queue_ok_cong [OF x(1)] x(2) by simp
  then show ?thesis by (rule books_payouts [OF assms(1)])
qed

lemma books_op: "refund_books_ok s \<Longrightarrow> refund_books_ok (apply_refund_op env deposit op s)"
proof (cases op)
  case (LinkWallet m a)
  then show "refund_books_ok s \<Longrightarrow> ?thesis" by (simp add: refund_books_ok_def fin_keys_ok_def refund_rows_def)
qed (auto simp: books_process books_job books_worker books_retry intro: books_discard books_same_refunds cancel_same_refunds split: sum.splits)

lemma books_ops: "refund_books_ok s \<Longrightarrow> refund_books_ok (refund_ops env deposit ops s)"
  unfolding refund_ops_def by (induction ops arbitrary: s) (simp_all add: books_op)

text \<open>
  C5. No refund is recorded twice and none is missing from the ledger: whatever runs, jobs, workers and administrators
  do one after the other, and whatever the contract and the database answer, every member has one confirmed refund in
  the ledger if marked as refunded and none otherwise.
\<close>
theorem refunds_recorded_once:
  assumes "refund_books_ok s" and "m \<in> set (fd_members (refund_ops env deposit ops s))"
  shows "refund_rows (refund_ops env deposit ops s) (lm_id m) = (if lm_paymentStatus m = PAYMENT_REFUNDED then 1 else 0)"
  using books_ops [OF assms(1), of env deposit ops] assms(2) by (simp add: refund_books_ok_def)

text \<open>A cancelled league of three paid members, one without a wallet; the contract refuses the first call.\<close>

definition refund_demo_id :: string where "refund_demo_id = ''00000000-0000-002a''"

definition refund_demo_league :: league where
  "refund_demo_league = \<lparr>lg_id = refund_demo_id, lg_name = ''Cup'', lg_description = None, lg_creatorId = ''u1'', lg_inviteCode = None,
     lg_entryFee = 5, lg_maxMembers = 10, lg_minMembers = 4, lg_currentMembers = 3, lg_prizePool = 0, lg_status = CANCELLED,
     lg_scoringType = CLASSIC, lg_scoringConfig = None, lg_payoutPreset = ''standard'', lg_payoutSplitsBps = [], lg_isPrivate = False,
     lg_minBuyIn = None, lg_maxBuyIn = None, lg_startGameweekId = 1, lg_endGameweekId = 2, lg_createdAt = 0\<rparr>"

definition refund_demo_member :: "string \<Rightarrow> payment_status \<Rightarrow> league_member" where
  "refund_demo_member i p = \<lparr>lm_id = i, lm_leagueId = refund_demo_id, lm_userId = i, lm_squadId = i, lm_status = Member_REFUNDED,
     lm_paymentStatus = p, lm_hasPaid = True, lm_joinedAt = 0, lm_rank = None, lm_totalPoints = 0, lm_matchesWon = 0, lm_matchesDrawn = 0,
     lm_matchesLost = 0, lm_pointsFor = 0, lm_pointsAgainst = 0, lm_h2hPoints = 0\<rparr>"

definition refund_demo :: fin_db where
  "refund_demo = \<lparr>fd_leagues = \<lparr>ld_users = [], ld_squads = [], ld_gameweeks = [], ld_leagues = [refund_demo_league],
       ld_members = [refund_demo_member ''m1'' REFUND_PENDING, refund_demo_member ''m2'' PAYMENT_CONFIRMED, refund_demo_member ''m3'' REFUND_PENDING],
       ld_invitations = [], ld_fixtures = [], ld_nextId = 0, ld_squadScores = [], ld_leagueScores = []\<rparr>,
     fd_addresses = [(''m1'', ''GA''), (''m2'', ''GB'')], fd_transactions = [],
     fd_payouts = \<lparr>dl_rows = [], dl_nextId = 0, dl_audit = []\<rparr>, fd_calls = []\<rparr>"

definition refund_demo_env :: refund_env where
  "refund_demo_env = \<lparr>re_refund = (\<lambda>n cid rs. if n = 0
       then Returned \<lparr>ro_success = False, ro_txHash = None, ro_error = Some ''no'', ro_contractErrorCode = Some 7\<rparr>
       else Returned \<lparr>ro_success = True, ro_txHash = Some (show_nat n), ro_error = None, ro_contractErrorCode = None\<rparr>),
     re_dbText = (\<lambda>_. ''db'')\<rparr>"

definition refund_demo_ops :: "refund_op list" where
  "refund_demo_ops = [RunRefunds 0 refund_demo_id, RetryPayout 10 1 ''admin'' None, LinkWallet ''m3'' ''GC'', RetryPayout 20 0 ''admin'' None,
     RetryPayout 30 0 ''admin'' None, RunRefunds 40 refund_demo_id]"

lemma refund_demo_ok: "refund_books_ok refund_demo"
  by (simp add: refund_books_ok_def fin_keys_ok_def refund_demo_def refund_demo_member_def queue_ok_def refund_rows_def)

theorem refunds_recorded_once_witness:
  "refund_books_ok refund_demo \<and>
   map lm_paymentStatus (fd_members (refund_ops refund_demo_env (\<lambda>_ _. 0) refund_demo_ops refund_demo)) = [PAYMENT_REFUNDED, PAYMENT_REFUNDED, PAYMENT_REFUNDED] \<and>
   refund_rows (refund_ops refund_demo_env (\<lambda>_ _. 0) refund_demo_ops refund_demo) ''m1'' = 1"
proof -
  let ?s = "refund_ops refund_demo_env (\<lambda>_ _. 0) refund_demo_ops refund_demo"
  have m: "map (\<lambda>m. (lm_id m, lm_paymentStatus m)) (fd_members ?s) =
    [(''m1'', PAYMENT_REFUNDED), (''m2'', PAYMENT_REFUNDED), (''m3'', PAYMENT_REFUNDED)]" by code_simp
  then obtain a b c where ms: "fd_members ?s = [a, b, c]" by (auto simp: Cons_eq_map_conv)
  then show ?thesis using refunds_recorded_once [OF refund_demo_ok, of a refund_demo_env "\<lambda>_ _. 0" refund_demo_ops] m refund_demo_ok
    by simp
qed

text \<open>The same league when the contract accepts the calls.\<close>

definition refund_demo_paid :: fin_db where
  "refund_demo_paid = refund_demo\<lparr>fd_calls := [(0, [])]\<rparr>"

theorem refund_run_accounts_for_everyone_witness:
  "\<not> isl (fst (processLeagueRefunds refund_demo_env 0 refund_demo_paid refund_demo_id refund_demo_paid)) \<and>
   rp_refundedMemberIds (projr (fst (processLeagueRefunds refund_demo_env 0 refund_demo_paid refund_demo_id refund_demo_paid))) = [''m1'', ''m2''] \<and>
   map lm_paymentStatus (fd_members (snd (processLeagueRefunds refund_demo_env 0 refund_demo_paid refund_demo_id refund_demo_paid))) =
     [PAYMENT_REFUNDED, PAYMENT_REFUNDED, REFUND_PENDING]"
proof -
  let ?p = "processLeagueRefunds refund_demo_env 0 refund_demo_paid refund_demo_id refund_demo_paid"
  have e: "(case fst ?p of Inl _ \<Rightarrow> [] | Inr rep \<Rightarrow> rp_refundedMemberIds rep) = [''m1'', ''m2'']" by code_simp
  then obtain rep where rep: "?p = (Inr rep, snd ?p)" by (cases ?p; cases "fst ?p") auto
  have r: "rp_refundedMemberIds rep = [''m1'', ''m2'']" using e by (subst (asm) rep) simp
  have k: "fin_keys_ok refund_demo_paid" using refund_demo_ok by (simp add: refund_demo_paid_def refund_books_ok_def fin_keys_ok_def)
  have "fd_members (snd ?p) = map (mark_refunded [''m1'', ''m2'']) (fd_members refund_demo_paid)"
    using refund_run_accounts_for_everyone [OF k rep] r by simp
  then show ?thesis using rep r
    by (simp add: refund_demo_paid_def refund_demo_def refund_demo_member_def mark_refunded_def) (metis fst_conv isl_def sum.disc(2) sum.sel(2))
qed

section \<open>Overlapping runs\<close>

definition refund_demo_wallets :: fin_db where
  "refund_demo_wallets = refund_demo_paid\<lparr>fd_addresses := [(''m1'', ''GA''), (''m2'', ''GB''), (''m3'', ''GC'')]\<rparr>"

text \<open>
  C38. The books are not safe against overlapping runs: when a second run has read the members before the first
  one marked them, it sends the same refunds to the contract again and records a second refund for each of them.
\<close>
theorem overlapping_runs_refund_twice:
  "\<exists>env s L now s1 s2.
     refund_books_ok s \<and> s1 = snd (processLeagueRefunds env now s L s) \<and> s2 = snd (processLeagueRefunds env now s L s1) \<and>
     \<not> isl (fst (processLeagueRefunds env now s L s1)) \<and> refund_rows s1 ''m1'' = 1 \<and> refund_rows s2 ''m1'' = 2 \<and>
     map snd (drop 1 (fd_calls s2)) = [[''GA'', ''GB'', ''GC''], [''GA'', ''GB'', ''GC'']]"
proof -
  let ?s = refund_demo_wallets and ?p = "\<lambda>s. processLeagueRefunds refund_demo_env 0 refund_demo_wallets refund_demo_id s"
  have "refund_books_ok ?s" using refund_demo_ok
    by (simp add: refund_demo_wallets_def refund_demo_paid_def refund_books_ok_def fin_keys_ok_def refund_rows_def)
  moreover have "(let s1 = snd (?p ?s); s2 = snd (?p s1) in \<not> isl (fst (?p s1)) \<and> refund_rows s1 ''m1'' = 1 \<and> refund_rows s2 ''m1'' = 2 \<and>
     map snd (drop 1 (fd_calls s2)) = [[''GA'', ''GB'', ''GC''], [''GA'', ''GB'', ''GC'']])" by code_simp
  ultimately show ?thesis unfolding Let_def
    by (intro exI [of _ refund_demo_env] exI [of _ ?s] exI [of _ refund_demo_id] exI [of _ 0]
        exI [of _ "snd (?p ?s)"] exI [of _ "snd (?p (snd (?p ?s)))"]) blast
qed

end
