(* ===== verification/Refund_Progress.thy ===== *)
theory Refund_Progress
  imports Refunds
begin

text \<open>
  How refunds progress: what one retry does to the rows of the dead-letter queue, the number of automatic
  attempts, and that a run refunds everybody once the contract accepts the calls.
\<close>

section \<open>One retry touches one row\<close>

definition touches :: "nat \<Rightarrow> (failed_payout \<Rightarrow> failed_payout) \<Rightarrow> dead_letters \<Rightarrow> dead_letters \<Rightarrow> bool" where
  "touches i g q q' \<longleftrightarrow> dl_rows q' = map (\<lambda>x. if fp_id x = i then g x else x) (dl_rows q) \<and> dl_nextId q' = dl_nextId q \<and>
     (\<forall>x. fp_id (g x) = fp_id x)"

lemma touches_id: "dl_rows q' = dl_rows q \<Longrightarrow> dl_nextId q' = dl_nextId q \<Longrightarrow> touches i (\<lambda>x. x) q q'"
  by (simp add: touches_def)

lemma touches_trans:
  assumes "touches i f q q1" "touches i g q1 q2"
  shows "touches i (g \<circ> f) q q2"
  using assms by (auto simp: touches_def)

definition resolved :: "int \<Rightarrow> string \<Rightarrow> string option \<Rightarrow> string option \<Rightarrow> failed_payout \<Rightarrow> failed_payout" where
  "resolved now actorId txHash note e =
     e\<lparr>fp_status := Payout_RESOLVED, fp_resolvedAt := Some now, fp_resolvedById := Some actorId, fp_resolutionNote := note, fp_retryTxHash := txHash\<rparr>"

definition requeued :: "int \<Rightarrow> nat \<Rightarrow> string \<Rightarrow> nat option \<Rightarrow> bool \<Rightarrow> failed_payout \<Rightarrow> failed_payout" where
  "requeued now n error code recov e =
     e\<lparr>fp_status := Payout_PENDING, fp_attempts := n, fp_errorMessage := error, fp_errorCode := code, fp_recoverable := recov, fp_lastAttemptAt := now\<rparr>"

lemma touches_resolved: "touches (fp_id e) (resolved now a h n) q (markResolved now e a h n ids q)"
  by (simp add: touches_def markResolved_def resolved_def [abs_def])

lemma touches_requeued:
  "\<exists>code recov. touches (fp_id e) (requeued now (fp_attempts e + 1) t code recov) q (markRetryFailed now e a t c q)"
  by (cases "classifyError t c") (auto simp: touches_def markRetryFailed_def requeued_def [abs_def])

text \<open>A retry either resolves its row or puts it back with one more attempt, or it stays as claimed when an error is thrown.\<close>

definition retried :: "failed_payout \<Rightarrow> bool \<Rightarrow> (failed_payout \<Rightarrow> failed_payout) \<Rightarrow> bool" where
  "retried entry good g \<longleftrightarrow> (\<forall>x. fp_id (g x) = fp_id x) \<and> (\<forall>x. fp_leagueId (g x) = fp_leagueId x \<and> fp_type (g x) = fp_type x) \<and>
     (if good then \<forall>x. fp_status (g x) = Payout_RESOLVED \<and> fp_attempts (g x) = fp_attempts x
      else (\<forall>x. fp_attempts (g x) = fp_attempts entry + 1) \<or> (\<forall>x. fp_attempts (g x) = fp_attempts x))"

lemma retried_resolved [simp]: "retried e True (resolved now a h n)"
  by (simp add: retried_def resolved_def)

lemma retried_requeued [simp]: "retried e False (requeued now (Suc (fp_attempts e)) t code recov)"
  by (simp add: retried_def requeued_def)

lemma retried_id [simp]: "retried e False (\<lambda>x. x)"
  by (simp add: retried_def)

definition succeeded :: "('e + retry_result) \<Rightarrow> bool" where
  "succeeded r = (case r of Inl _ \<Rightarrow> False | Inr x \<Rightarrow> rr_success x)"

lemma succeeded_simps [simp]: "succeeded (Inl e) = False" "succeeded (Inr x) = rr_success x"
  by (simp_all add: succeeded_def)

lemma touches_failed:
  assumes "dl_rows q = dl_rows q0" "dl_nextId q = dl_nextId q0"
  shows "\<exists>g. retried e False g \<and> touches (fp_id e) g q0 (markRetryFailed now e a t c q)"
proof -
  obtain code recov where "touches (fp_id e) (requeued now (fp_attempts e + 1) t code recov) q (markRetryFailed now e a t c q)"
    using touches_requeued by blast
  then show ?thesis using assms by (intro exI [of _ "requeued now (fp_attempts e + 1) t code recov"]) (simp add: touches_def)
qed

lemma touches_done:
  assumes "dl_rows q = dl_rows q0" "dl_nextId q = dl_nextId q0"
  shows "\<exists>g. retried e True g \<and> touches (fp_id e) g q0 (markResolved now e a h n ids q)"
  using touches_resolved [of e now a h n q ids] assms by (intro exI [of _ "resolved now a h n"]) (simp add: touches_def)

lemma commit_rows:
  assumes "commitRefundBatch now league batch h actor s = Inr s'"
  shows "dl_rows (fd_payouts s') = dl_rows (fd_payouts s)" "dl_nextId (fd_payouts s') = dl_nextId (fd_payouts s)"
proof -
  have "fd_payouts s' = foldl (\<lambda>q m. audited (refund_audit league h actor s m) q) (fd_payouts s) batch"
    using assms unfolding commitRefundBatch_def by (clarsimp split: option.splits if_splits)
  then show "dl_rows (fd_payouts s') = dl_rows (fd_payouts s)" "dl_nextId (fd_payouts s') = dl_nextId (fd_payouts s)" by simp_all
qed

lemma body_touches:
  assumes run: "redispatch_body env now entry actor note s = (r, s')"
  shows "\<exists>g. retried entry (succeeded r) g \<and> touches (fp_id entry) g (fd_payouts s) (fd_payouts s')"
proof -
  have stay: ?thesis if "\<not> succeeded r" "fd_payouts s' = fd_payouts s"
    using that by (intro exI [of _ "\<lambda>x. x"]) (simp add: touches_id)
  show ?thesis
  proof (cases "findLeague (fd_leagues s) (fp_leagueId entry)")
    case None
    then show ?thesis using run by (intro stay) (auto simp: redispatch_body_def)
  next
    case (Some league)
    note body = run [unfolded redispatch_body_def Some option.case Let_def owed_of_def [symmetric]]
    define d where "d = (\<lambda>cid. dispatchRefund env cid (map (stellarAddress s) (owed_of entry league s)) s)"
    have d: "fd_payouts (snd (d cid)) = fd_payouts s" for cid by (simp add: d_def)
    consider (none) "owed_of entry league s = []"
      | (wallet) "owed_of entry league s \<noteq> []" "list_ex (\<lambda>m. stellarAddress s m = []) (owed_of entry league s)"
      | (uuid) f where "owed_of entry league s \<noteq> []" "\<not> list_ex (\<lambda>m. stellarAddress s m = []) (owed_of entry league s)"
          "toContractLeagueId (lg_id league) = Inl f"
      | (call) cid where "owed_of entry league s \<noteq> []" "\<not> list_ex (\<lambda>m. stellarAddress s m = []) (owed_of entry league s)"
          "toContractLeagueId (lg_id league) = Inr cid"
      by (cases "toContractLeagueId (lg_id league)") blast+
    then show ?thesis
    proof cases
      case none
      then show ?thesis using body touches_done [OF refl refl] by auto
    next
      case wallet
      then have "\<not> succeeded r" "fd_payouts s' = markRetryFailed now entry actor (error_or (Some MISSING_WALLET_ERROR)) None (fd_payouts s)"
        using body by auto
      then show ?thesis using touches_failed [OF refl refl] by simp
    next
      case uuid
      then show ?thesis using body by (intro stay) auto
    next
      case call
      note b = body [unfolded if_not_P [OF call(1)] if_not_P [OF call(2)] call(3) res_bind_simps sum.case d_def [symmetric, THEN fun_cong] split_beta]
      show ?thesis
      proof (cases "ro_success (fst (d cid))")
        case False
        then have "\<not> succeeded r" "fd_payouts s' = markRetryFailed now entry actor (error_or (ro_error (fst (d cid)))) (ro_contractErrorCode (fst (d cid))) (fd_payouts s)"
          using b d by auto
        then show ?thesis using touches_failed [OF refl refl] by simp
      next
        case success: True
        show ?thesis
        proof (cases "commitRefundBatch now league (owed_of entry league s) (ro_txHash (fst (d cid))) actor (snd (d cid))")
          case (Inl f)
          then show ?thesis using b success d by (intro stay) auto
        next
          case c: (Inr s2)
          have "succeeded r" "fd_payouts s' = markResolved now entry actor (ro_txHash (fst (d cid))) note (map lm_id (owed_of entry league s)) (fd_payouts s2)"
            using b success c by auto
          then show ?thesis using touches_done [of "fd_payouts s2" "fd_payouts s"] commit_rows [OF c] d by simp
        qed
      qed
    qed
  qed
qed

lemma touches_rows:
  assumes "touches i g q q'" "y \<in> set (dl_rows q')"
  shows "fp_id y \<noteq> i \<and> y \<in> set (dl_rows q) \<or> (\<exists>x \<in> set (dl_rows q). fp_id x = i \<and> y = g x)"
  using assms by (auto simp: touches_def)

lemma touches_other:
  assumes "touches i g q q'" "x \<in> set (dl_rows q)" "fp_id x \<noteq> i"
  shows "x \<in> set (dl_rows q')"
  using assms by (force simp: touches_def)

lemma touches_queue_ok:
  assumes "touches i g q q'" "queue_ok q"
  shows "queue_ok q'"
proof -
  have "queue_ok (update_payout i (\<lambda>_. True) g q)" using assms by (intro queue_ok_update) (simp_all add: touches_def)
  then show ?thesis using assms(1) queue_ok_cong [of q' "update_payout i (\<lambda>_. True) g q"] by (simp add: touches_def)
qed

definition claim_row :: "int \<Rightarrow> failed_payout \<Rightarrow> failed_payout" where
  "claim_row now x = (if claimable now x then claimed now x else x)"

lemma claim_touches:
  assumes "queue_ok q" "claimForRetry i now q = Inr (e, q')"
  shows "touches i (claim_row now) q q'"
  using claim_InrD [OF assms] by (auto simp: touches_def claim_row_def claimed_def)

lemma redispatch_touches:
  assumes ok: "queue_ok (fd_payouts s)" and run: "redispatchRefundEntry env now i actor note s = (r, s')"
  shows "(\<exists>e. r = Inl (QueueError e) \<and> s' = s) \<or>
    (\<exists>g. touches i g (fd_payouts s) (fd_payouts s') \<and>
       (\<forall>x. fp_leagueId (g x) = fp_leagueId x \<and> fp_type (g x) = fp_type x) \<and>
       (succeeded r \<longrightarrow> (\<forall>x. fp_status (g x) = Payout_RESOLVED)) \<and>
       (\<forall>x \<in> set (dl_rows (fd_payouts s)). fp_id x = i \<longrightarrow> fp_attempts (g x) \<le> fp_attempts x + 1))"
proof (cases "claimForRetry i now (fd_payouts s)")
  case (Inl e)
  then show ?thesis using run by (auto simp: redispatchRefundEntry_def)
next
  case (Inr p)
  obtain entry q where p: "p = (entry, q)" by (cases p)
  obtain e0 where e0: "e0 \<in> set (dl_rows (fd_payouts s))" "fp_id e0 = i" "entry = claimed now e0"
    using claim_InrD [OF ok Inr [unfolded p]] by blast
  have entry: "fp_id entry = i" "fp_attempts entry = fp_attempts e0" using e0 by (simp_all add: claimed_def)
  note ct = claim_touches [OF ok Inr [unfolded p]]
  obtain r1 s1 where b: "redispatch_body env now entry actor note (s\<lparr>fd_payouts := q\<rparr>) = (r1, s1)" by fastforce
  obtain g where g: "retried entry (succeeded r1) g" "touches i g q (fd_payouts s1)" using body_touches [OF b] entry(1) by auto
  have "\<exists>h. retried entry (succeeded r) h \<and> touches i h q (fd_payouts s')"
  proof (cases r1)
    case r1: (Inr x)
    then have "r = Inr x" "s' = s1" using run Inr p b by (simp_all add: redispatchRefundEntry_def)
    then show ?thesis using g r1 by auto
  next
    case r1: (Inl f)
    then have r: "\<not> succeeded r" "fd_payouts s' = markRetryFailed now entry actor (failure_text env f) None (fd_payouts s1)"
      using run Inr p b by (auto simp: redispatchRefundEntry_def)
    obtain code recov where t: "touches i (requeued now (fp_attempts entry + 1) (failure_text env f) code recov) (fd_payouts s1) (fd_payouts s')"
      using touches_requeued [of entry now "failure_text env f" "fd_payouts s1" actor None] r(2) entry(1) by auto
    have "retried entry False (requeued now (fp_attempts entry + 1) (failure_text env f) code recov \<circ> g)"
      using g(1) r1 by (auto simp: retried_def requeued_def)
    then show ?thesis using r(1) touches_trans [OF g(2) t] by auto
  qed
  then obtain h where h: "retried entry (succeeded r) h" "touches i h q (fd_payouts s')" by blast
  have "x = e0" if "x \<in> set (dl_rows (fd_payouts s))" "fp_id x = i" for x
    using that e0 ok by (auto simp: queue_ok_def distinct_map dest: inj_onD)
  then have "fp_attempts ((h \<circ> claim_row now) x) \<le> fp_attempts x + 1" if "x \<in> set (dl_rows (fd_payouts s))" "fp_id x = i" for x
    using that h(1) entry(2) by (auto simp: retried_def claim_row_def claimed_def split: if_splits)
  moreover have "\<forall>x. fp_leagueId ((h \<circ> claim_row now) x) = fp_leagueId x \<and> fp_type ((h \<circ> claim_row now) x) = fp_type x"
    using h(1) by (simp add: retried_def claim_row_def claimed_def)
  moreover have "succeeded r \<longrightarrow> (\<forall>x. fp_status ((h \<circ> claim_row now) x) = Payout_RESOLVED)" using h(1) by (simp add: retried_def)
  ultimately show ?thesis using touches_trans [OF ct h(2)] by blast
qed

section \<open>Automatic attempts are bounded\<close>

definition attempts_ok :: "dead_letters \<Rightarrow> bool" where
  "attempts_ok q \<longleftrightarrow> (\<forall>e \<in> set (dl_rows q). fp_attempts e \<le> MAX_AUTOMATIC_ATTEMPTS)"

definition has_attempts_left :: "dead_letters \<Rightarrow> nat \<Rightarrow> bool" where
  "has_attempts_left q i \<longleftrightarrow> (\<forall>x \<in> set (dl_rows q). fp_id x = i \<longrightarrow> fp_attempts x < MAX_AUTOMATIC_ATTEMPTS)"

lemma redispatch_attempts:
  assumes "fin_keys_ok s" "attempts_ok (fd_payouts s)" "has_attempts_left (fd_payouts s) i"
    and run: "redispatchRefundEntry env now i actor note s = (r, s')"
  shows "fin_keys_ok s' \<and> attempts_ok (fd_payouts s') \<and> (\<forall>j. j \<noteq> i \<and> has_attempts_left (fd_payouts s) j \<longrightarrow> has_attempts_left (fd_payouts s') j)"
proof -
  have q: "queue_ok (fd_payouts s)" using assms(1) by (simp add: fin_keys_ok_def)
  have k: "fin_keys_ok s'" using redispatch_pays [OF assms(1) run] fin_keys_pays assms(1) by blast
  consider "s' = s"
    | g where "touches i g (fd_payouts s) (fd_payouts s')"
        "\<forall>x \<in> set (dl_rows (fd_payouts s)). fp_id x = i \<longrightarrow> fp_attempts (g x) \<le> fp_attempts x + 1"
    using redispatch_touches [OF q run] by blast
  then show ?thesis
  proof cases
    case 1
    then show ?thesis using assms by simp
  next
    case 2
    have "fp_attempts y \<le> MAX_AUTOMATIC_ATTEMPTS" if "y \<in> set (dl_rows (fd_payouts s'))" for y
      using touches_rows [OF 2(1) that] 2(2) assms(2,3) by (fastforce simp: attempts_ok_def has_attempts_left_def)
    moreover have "has_attempts_left (fd_payouts s') j" if "j \<noteq> i" "has_attempts_left (fd_payouts s) j" for j
      using touches_rows [OF 2(1)] that 2(1) by (fastforce simp: has_attempts_left_def touches_def)
    ultimately show ?thesis using k by (simp add: attempts_ok_def)
  qed
qed

lemma retry_loop_attempts:
  assumes "fin_keys_ok s" "attempts_ok (fd_payouts s)" "distinct (map fp_id es)" "\<forall>e \<in> set es. has_attempts_left (fd_payouts s) (fp_id e)"
  shows "attempts_ok (fd_payouts (snd (retry_loop env now es rep s)))"
  using assms
proof (induction es arbitrary: rep s)
  case (Cons e es)
  obtain r s1 where run: "redispatchRefundEntry env now (fp_id e) SYSTEM_ACTOR None s = (r, s1)" by fastforce
  have s1: "fin_keys_ok s1" "attempts_ok (fd_payouts s1)"
    "\<And>j. j \<noteq> fp_id e \<Longrightarrow> has_attempts_left (fd_payouts s) j \<Longrightarrow> has_attempts_left (fd_payouts s1) j"
    using redispatch_attempts [OF Cons.prems(1,2) _ run] Cons.prems(4) by auto
  have "has_attempts_left (fd_payouts s1) (fp_id x)" if "x \<in> set es" for x
  proof (rule s1(3))
    have "fp_id e \<notin> fp_id ` set es" using Cons.prems(3) by simp
    then show "fp_id x \<noteq> fp_id e" using that by (metis imageI)
    show "has_attempts_left (fd_payouts s) (fp_id x)" using Cons.prems(4) that by simp
  qed
  then have ih: "attempts_ok (fd_payouts (snd (retry_loop env now es rep1 s1)))" for rep1
    using Cons.IH [OF s1(1,2)] Cons.prems(3) by simp
  show ?case using ih s1(2) by (auto simp: run split: sum.splits)
qed simp

lemma attempts_deadLetter: "attempts_ok q \<Longrightarrow> attempts_ok (snd (deadLetter now i q))"
  using deadLetter_rows [of now i q] by (auto simp: attempts_ok_def MAX_AUTOMATIC_ATTEMPTS_def)

lemma attempts_cong: "dl_rows q = dl_rows q' \<Longrightarrow> attempts_ok q = attempts_ok q'"
  by (simp add: attempts_ok_def)

lemma dispatch_batches_attempts:
  "attempts_ok (fd_payouts s) \<Longrightarrow> attempts_ok (fd_payouts (snd (dispatch_batches env now league cid addr bs rep s)))"
proof (induction bs arbitrary: rep s)
  case (Cons b bs)
  define d where "d = dispatchRefund env cid (map addr b) s"
  have d: "fd_payouts (snd d) = fd_payouts s" by (simp add: d_def)
  note step = dispatch_batches.simps(2) [of env now league cid addr b bs rep s, unfolded Let_def d_def [symmetric] split_beta]
  show ?case
  proof (cases "ro_success (fst d)")
    case False
    then show ?thesis using Cons unfolding step by (simp add: d attempts_deadLetter)
  next
    case True
    then show ?thesis
    proof (cases "commitRefundBatch now league b (ro_txHash (fst d)) SYSTEM_ACTOR (snd d)")
      case (Inr s2)
      have "attempts_ok (fd_payouts s2)" using attempts_cong [OF commit_rows(1) [OF Inr]] Cons.prems d by simp
      then show ?thesis using Cons.IH Inr True unfolding step by simp
    next
      case (Inl f)
      then show ?thesis using Cons.prems d True unfolding step by simp
    qed
  qed
qed simp

lemma row_unique:
  assumes "queue_ok q" "x \<in> set (dl_rows q)" "y \<in> set (dl_rows q)" "fp_id x = fp_id y"
  shows "x = y"
  using assms by (auto simp: queue_ok_def distinct_map dest: inj_onD)

lemma distinct_ids_sort_filter: "queue_ok q \<Longrightarrow> distinct (map fp_id (js_sort c (filter P (dl_rows q))))"
proof -
  assume "queue_ok q"
  then have "distinct (map fp_id (filter P (dl_rows q)))" by (simp add: queue_ok_def distinct_map_filter)
  then show ?thesis by (metis distinct_map distinct_js_sort set_js_sort)
qed

lemma retryable_left: "queue_ok q \<Longrightarrow> e \<in> set (dl_rows q) \<Longrightarrow> auto_retryable L ty e \<Longrightarrow> has_attempts_left q (fp_id e)"
  unfolding has_attempts_left_def auto_retryable_def using row_unique by blast

lemma process_attempts:
  assumes "fin_keys_ok s" "attempts_ok (fd_payouts s)"
  shows "attempts_ok (fd_payouts (snd (processLeagueRefunds env now s L s)))"
proof -
  have q: "queue_ok (fd_payouts s)" using assms(1) by (simp add: fin_keys_ok_def)
  have phase: "attempts_ok (fd_payouts (snd (dispatch_phase env now s league cid rep s1)))" if "attempts_ok (fd_payouts s1)" for league cid rep s1
    unfolding dispatch_phase_def Let_def split_beta using that attempts_deadLetter by (intro dispatch_batches_attempts) auto
  have loop: "attempts_ok (fd_payouts s1)"
    if "retry_loop env now (getAutoRetryable l REFUND (fd_payouts s)) rep s = (r, s1)" for l rep r s1
  proof -
    have "distinct (map fp_id (getAutoRetryable l REFUND (fd_payouts s)))"
      unfolding getAutoRetryable_def by (rule distinct_ids_sort_filter [OF q])
    moreover have "\<forall>e \<in> set (getAutoRetryable l REFUND (fd_payouts s)). has_attempts_left (fd_payouts s) (fp_id e)"
      using retryable_left [OF q] by (auto simp: getAutoRetryable_def)
    ultimately show ?thesis
      using retry_loop_attempts [OF assms, of "getAutoRetryable l REFUND (fd_payouts s)" env now rep] that by simp
  qed
  show ?thesis using assms(2) phase loop
    by (auto simp: processLeagueRefunds_def split: option.splits sum.splits prod.splits) 
qed

lemma schedule_attempts:
  assumes "scheduleRetryWithBackoff x i now q = Inr (b, q')"
  shows "attempts_ok q \<Longrightarrow> attempts_ok q'" "has_attempts_left q j \<Longrightarrow> has_attempts_left q' j"
  using schedule_InrD [OF assms] by (auto simp: attempts_ok_def has_attempts_left_def rescheduled_def)

lemma work_entry_attempts:
  assumes "refund_books_ok (snd p)" "attempts_ok (fd_payouts (snd p))" "has_attempts_left (fd_payouts (snd p)) (fp_id e)"
  shows "attempts_ok (fd_payouts (snd (work_entry env rnd now e p))) \<and>
    (\<forall>j. j \<noteq> fp_id e \<and> has_attempts_left (fd_payouts (snd p)) j \<longrightarrow> has_attempts_left (fd_payouts (snd (work_entry env rnd now e p))) j)"
proof (cases "MAX_AUTOMATIC_ATTEMPTS \<le> fp_attempts e")
  case True
  then show ?thesis using assms by (simp add: work_entry_def split_beta Let_def)
next
  case False
  obtain r s1 where run: "retryDeadLetteredPayout env now (fp_id e) ''payout-worker'' None (snd p) = (r, s1)" by fastforce
  have k: "fin_keys_ok (snd p)" using assms(1) by (simp add: refund_books_ok_def)
  have s1: "attempts_ok (fd_payouts s1)"
    "\<And>j. j \<noteq> fp_id e \<Longrightarrow> has_attempts_left (fd_payouts (snd p)) j \<Longrightarrow> has_attempts_left (fd_payouts s1) j"
    using redispatch_attempts [OF k assms(2,3)] run assms(2) by (auto simp: retryDeadLetteredPayout_def split: sum.splits if_splits)
  show ?thesis
    by (cases r; cases "scheduleRetryWithBackoff (rnd (fp_id e)) (fp_id e) now (fd_payouts s1)")
      (auto simp: work_entry_def split_beta Let_def run False s1 schedule_attempts)
qed

lemma worker_loop_attempts:
  assumes "refund_books_ok (snd p)" "attempts_ok (fd_payouts (snd p))" "distinct (map fp_id es)"
    "\<And>e. e \<in> set es \<Longrightarrow> has_attempts_left (fd_payouts (snd p)) (fp_id e)"
  shows "attempts_ok (fd_payouts (snd (foldl (\<lambda>p e. work_entry env rnd now e p) p es)))"
  using assms
proof (induction es arbitrary: p)
  case (Cons e es)
  have w: "attempts_ok (fd_payouts (snd (work_entry env rnd now e p)))"
    "\<And>j. j \<noteq> fp_id e \<Longrightarrow> has_attempts_left (fd_payouts (snd p)) j \<Longrightarrow> has_attempts_left (fd_payouts (snd (work_entry env rnd now e p))) j"
    using work_entry_attempts [OF Cons.prems(1,2)] Cons.prems(4) by auto
  have "fp_id e \<notin> fp_id ` set es" using Cons.prems(3) by simp
  then have "has_attempts_left (fd_payouts (snd (work_entry env rnd now e p))) (fp_id x)" if "x \<in> set es" for x
    using that w(2) [of "fp_id x"] Cons.prems(4) [of x] by (metis imageI list.set_intros(2))
  then show ?case using Cons.IH [OF books_work_entry [OF Cons.prems(1)] w(1)] Cons.prems(3) by simp
qed simp

lemma worker_attempts:
  assumes "refund_books_ok s" "attempts_ok (fd_payouts s)"
  shows "attempts_ok (fd_payouts (snd (processPendingPayouts env rnd now L ty s)))"
proof -
  have q: "queue_ok (fd_payouts s)" using assms(1) by (simp add: refund_books_ok_def fin_keys_ok_def)
  let ?batch = "claimRetryBatchLockFree L ty now (fd_payouts s)"
  have "distinct (map fp_id ?batch)" unfolding claimRetryBatchLockFree_def take_map [symmetric]
    by (rule distinct_take [OF distinct_ids_sort_filter [OF q]])
  moreover have "has_attempts_left (fd_payouts s) (fp_id e)" if "e \<in> set ?batch" for e
    using that retryable_left [OF q] by (auto simp: claimRetryBatchLockFree_def dest!: in_set_takeD)
  ultimately show ?thesis using worker_loop_attempts assms by (simp add: processPendingPayouts_def Let_def)
qed

lemma refund_each_attempts:
  "refund_books_ok s \<Longrightarrow> attempts_ok (fd_payouts s) \<Longrightarrow> attempts_ok (fd_payouts (snd (refund_each env deposit now ls s)))"
proof (induction ls arbitrary: s)
  case (Cons l ls)
  obtain r s1 where run: "processLeagueRefunds env now s l s = (r, s1)" by fastforce
  have b: "refund_books_ok s1" "attempts_ok (fd_payouts s1)"
    using books_process [OF Cons.prems(1), of env now l] process_attempts [OF _ Cons.prems(2), of env now l] Cons.prems(1) run
    by (simp_all add: refund_books_ok_def)
  show ?case using Cons.IH [OF b] b by (auto simp: run split: sum.splits prod.splits)
qed simp

lemma job_attempts:
  assumes "refund_books_ok s" "attempts_ok (fd_payouts s)"
  shows "attempts_ok (fd_payouts (snd (refund_job env deposit now s)))"
proof (cases "cancelUnderfilledLeagues (fd_leagues s) now (fd_leagues s)")
  case (Inr p)
  then have "same_refunds (fd_leagues s) (fst p)" using cancel_each_same_refunds by (auto simp: cancelUnderfilledLeagues_def Let_def)
  then show ?thesis using Inr refund_each_attempts [OF books_same_refunds] assms by (simp add: refund_job_def Let_def split_beta)
qed (use assms in \<open>simp add: refund_job_def\<close>)

fun automatic :: "refund_op \<Rightarrow> bool" where
  "automatic (RetryPayout _ _ _ _) = False"
| "automatic _ = True"

lemma discard_attempts: "discard now i a r q = Inr (e, q') \<Longrightarrow> attempts_ok q \<Longrightarrow> attempts_ok q'"
  using discard_InrD [of now i a r q e q'] by (auto simp: attempts_ok_def discarded_def)

lemma op_attempts:
  assumes "refund_books_ok s" "attempts_ok (fd_payouts s)" "automatic op"
  shows "attempts_ok (fd_payouts (apply_refund_op env deposit op s))"
proof (cases op)
  case (RunRefunds now L)
  then show ?thesis using process_attempts assms by (simp add: refund_books_ok_def)
next
  case (RunJob now)
  then show ?thesis using job_attempts assms by simp
next
  case (RunWorker rnd now L)
  then show ?thesis using worker_attempts assms by simp
qed (use assms discard_attempts in \<open>auto split: sum.splits\<close>)

text \<open>
  C8. The platform gives up by itself: however often runs, jobs and workers go over the queue, no failed payout gets
  more than three attempts unless an administrator retries it.
\<close>
theorem automatic_attempts_bounded:
  assumes "refund_books_ok s" and "attempts_ok (fd_payouts s)" and "list_all automatic ops"
    and "e \<in> set (dl_rows (fd_payouts (refund_ops env deposit ops s)))"
  shows "fp_attempts e \<le> 3"
proof -
  have "attempts_ok (fd_payouts (refund_ops env deposit ops s))"
    using assms(1-3) unfolding refund_ops_def by (induction ops arbitrary: s) (simp_all add: op_attempts books_op)
  then show ?thesis using assms(4) by (simp add: attempts_ok_def MAX_AUTOMATIC_ATTEMPTS_def)
qed

section \<open>A run completes once the contract accepts\<close>

text \<open>The contract accepts every call, with a hash that the ledger does not know.\<close>

definition accepts :: "refund_env \<Rightarrow> fin_db \<Rightarrow> bool" where
  "accepts env s \<longleftrightarrow>
     (\<forall>n cid rs. case re_refund env n cid rs of Threw _ \<Rightarrow> False
        | Returned r \<Rightarrow> ro_success r \<and> (ro_txHash r \<noteq> None \<longrightarrow> ro_txHash r \<notin> set (map tx_stellarTxHash (fd_transactions s))))"

lemma dispatch_accepted:
  assumes "accepts env s0"
  shows "ro_success (fst (dispatchRefund env cid rs s))"
    "ro_txHash (fst (dispatchRefund env cid rs s)) \<noteq> None \<Longrightarrow>
       ro_txHash (fst (dispatchRefund env cid rs s)) \<notin> set (map tx_stellarTxHash (fd_transactions s0))"
proof -
  have "case re_refund env (length (fd_calls s)) cid rs of Threw _ \<Rightarrow> False
        | Returned r \<Rightarrow> ro_success r \<and> (ro_txHash r \<noteq> None \<longrightarrow> ro_txHash r \<notin> set (map tx_stellarTxHash (fd_transactions s0)))"
    using assms unfolding accepts_def by blast
  then show "ro_success (fst (dispatchRefund env cid rs s))"
    "ro_txHash (fst (dispatchRefund env cid rs s)) \<noteq> None \<Longrightarrow>
       ro_txHash (fst (dispatchRefund env cid rs s)) \<notin> set (map tx_stellarTxHash (fd_transactions s0))"
    by (simp_all add: dispatchRefund_def split: invocation.splits)
qed

lemma commit_accepted:
  assumes "pays dn s0 s" "distinct (map lm_id batch)"
    and "\<And>m. m \<in> set batch \<Longrightarrow> m \<in> set (fd_members s) \<and> lm_id m \<notin> set dn"
    and "h \<noteq> None \<Longrightarrow> h \<notin> set (map tx_stellarTxHash (fd_transactions s0))"
  shows "\<exists>s'. commitRefundBatch now league batch h actor s = Inr s'"
proof -
  obtain rows where rows: "fd_transactions s = fd_transactions s0 @ rows" "map tx_memberId rows = map Some dn"
    using assms(1) unfolding pays_def by blast
  have "\<not> (tx_stellarTxHash t = h \<and> tx_memberId t = Some (lm_id m))" if "h \<noteq> None" "m \<in> set batch" "t \<in> set (fd_transactions s)" for m t
  proof (cases "t \<in> set (fd_transactions s0)")
    case True
    then show ?thesis using assms(4) [OF that(1)] by auto
  next
    case False
    then have "tx_memberId t \<in> set (map tx_memberId rows)" using that(3) rows(1) by auto
    then show ?thesis using assms(3) [OF that(2)] unfolding rows(2) by auto
  qed
  then have "\<not> duplicate_tx h batch (fd_transactions s)" using assms(2) by (auto simp: duplicate_tx_def list_ex_iff)
  moreover have "find (\<lambda>m. lm_id m \<notin> set (map lm_id (fd_members s))) batch = None" using assms(3) by (auto simp: find_None_iff)
  ultimately show ?thesis by (simp add: commitRefundBatch_def)
qed

lemma dispatch_batches_accepted:
  assumes "accepts env s0" "fin_keys_ok s0" "pays dn s0 s" "distinct (map lm_id (concat bs))"
    and "\<forall>m \<in> set (concat bs). m \<in> set (fd_members s0) \<and> isRefundOwed m \<and> lm_id m \<notin> set dn"
  shows "\<exists>rep' s'. dispatch_batches env now league cid addr bs rep s = (Inr rep', s') \<and> dl_rows (fd_payouts s') = dl_rows (fd_payouts s)"
  using assms(3-5)
proof (induction bs arbitrary: rep s dn)
  case (Cons batch bs)
  define d where "d = dispatchRefund env cid (map addr batch) s"
  have d: "snd d = s\<lparr>fd_calls := fd_calls s @ [(cid, map addr batch)]\<rparr>" by (simp add: d_def)
  have ok: "ro_success (fst d)" "ro_txHash (fst d) \<noteq> None \<Longrightarrow> ro_txHash (fst d) \<notin> set (map tx_stellarTxHash (fd_transactions s0))"
    unfolding d_def using dispatch_accepted [OF assms(1)] by auto
  have p: "pays dn s0 (snd d)" using Cons.prems(1) by (simp add: d pays_same_right)
  have m: "m \<in> set (fd_members (snd d)) \<and> isRefundOwed m \<and> lm_id m \<notin> set dn" if "m \<in> set batch" for m
    using unmarked_member [OF p, of m] Cons.prems(3) that by auto
  have dist: "distinct (map lm_id batch)" using Cons.prems(2) by simp
  obtain s2 where c: "commitRefundBatch now league batch (ro_txHash (fst d)) SYSTEM_ACTOR (snd d) = Inr s2"
    using commit_accepted [OF p dist _ ok(2)] m by blast
  have "pays (map lm_id batch) (snd d) s2" using commit_pays(1) [OF c dist] m by blast
  then have p2: "pays (dn @ map lm_id batch) s0 s2" using pays_trans [OF _ p] assms(2) by (simp add: fin_keys_ok_def)
  have rest: "\<forall>m \<in> set (concat bs). m \<in> set (fd_members s0) \<and> isRefundOwed m \<and> lm_id m \<notin> set (dn @ map lm_id batch)"
    using Cons.prems(2,3) by auto
  have "distinct (map lm_id (concat bs))" using Cons.prems(2) by simp
  from Cons.IH [OF p2 this rest, of "rep\<lparr>rp_refundedMemberIds := rp_refundedMemberIds rep @ map lm_id batch\<rparr>"]
  show ?case using commit_rows(1) [OF c] d ok(1) c unfolding dispatch_batches.simps Let_def d_def [symmetric] split_beta by auto
qed auto

lemma findLeague_pays: "pays ids s s' \<Longrightarrow> findLeague (fd_leagues s') L = findLeague (fd_leagues s) L"
  by (simp add: pays_def findLeague_def)

lemma stellarAddress_pays: "pays ids s s' \<Longrightarrow> stellarAddress s' m = stellarAddress s m"
  by (simp add: pays_def stellarAddress_def)

lemma redispatch_accepted:
  assumes "accepts env s0" "fin_keys_ok s0" "pays dn s0 s" "queue_ok (fd_payouts s)"
    and "findLeague (fd_leagues s0) L = Some league" "toContractLeagueId L = Inr cid"
    and wallets: "\<forall>m \<in> set (league_rows s0 L). isRefundOwed m \<longrightarrow> stellarAddress s0 m \<noteq> []"
    and e: "e \<in> set (dl_rows (fd_payouts s))" "fp_leagueId e = L" "fp_status e = Payout_PENDING"
  shows "\<exists>x s'. redispatchRefundEntry env now (fp_id e) actor note s = (Inr x, s') \<and> rr_success x"
proof -
  let ?e = "claimed now e"
  let ?q = "update_payout (fp_id e) (claimable now) (claimed now) (fd_payouts s)"
  let ?s = "s\<lparr>fd_payouts := ?q\<rparr>"
  have claim: "claimForRetry (fp_id e) now (fd_payouts s) = Inr (?e, ?q)"
    using claimForRetry_cases [OF assms(4) e(1)] e(3) by (simp add: claimable_def)
  have p: "pays dn s0 ?s" using assms(3) by (simp add: pays_same_right)
  have L: "lg_id league = L" using findLeague_id [OF assms(5)] .
  have find: "findLeague (fd_leagues ?s) (fp_leagueId ?e) = Some league"
    using findLeague_pays [OF assms(3)] assms(5) e(2) by (simp add: claimed_def)
  let ?owed = "owed_of ?e league ?s"
  have keys: "fin_keys_ok s" by (rule fin_keys_pays [OF assms(3,2,4)])
  have owed: "m \<in> set (fd_members ?s) \<and> isRefundOwed m \<and> lm_id m \<notin> set dn \<and> stellarAddress ?s m \<noteq> []" if "m \<in> set ?owed" for m
  proof -
    have m: "m \<in> set (fd_members s)" "lm_leagueId m = L" "isRefundOwed m" using that L by (auto simp: owed_of_def league_rows_def)
    then obtain m0 where m0: "m0 \<in> set (fd_members s0)" "m = mark_refunded dn m0" using pays_members [OF assms(3)] by auto
    have dn: "lm_id m0 \<notin> set dn" using m(3) unfolding m0(2) by simp
    then have "m = m0" using m0(2) by (simp add: mark_refunded_def)
    then have "m \<in> set (league_rows s0 L)" using m0(1) m(2) by (simp add: league_rows_def)
    then have "stellarAddress s0 m \<noteq> []" using wallets m(3) by blast
    then show ?thesis using m(1,3) dn \<open>m = m0\<close> stellarAddress_pays [OF p] by simp
  qed
  have dist: "distinct (map lm_id ?owed)" using keys by (simp add: owed_of_def league_rows_def fin_keys_ok_def distinct_map_filter)
  have w: "\<not> list_ex (\<lambda>m. stellarAddress ?s m = []) ?owed" using owed by (auto simp: list_ex_iff)
  define d where "d = dispatchRefund env cid (map (stellarAddress ?s) ?owed) ?s"
  have ok: "ro_success (fst d)" "ro_txHash (fst d) \<noteq> None \<Longrightarrow> ro_txHash (fst d) \<notin> set (map tx_stellarTxHash (fd_transactions s0))"
    unfolding d_def using dispatch_accepted [OF assms(1)] by auto
  have pd: "pays dn s0 (snd d)" using p by (simp add: d_def pays_same_right)
  have members: "m \<in> set (fd_members (snd d)) \<and> lm_id m \<notin> set dn" if "m \<in> set ?owed" for m using owed [OF that] by (simp add: d_def)
  obtain s2 where c: "commitRefundBatch now league ?owed (ro_txHash (fst d)) actor (snd d) = Inr s2"
    using commit_accepted [OF pd dist members ok(2)] by blast
  have cid: "toContractLeagueId (lg_id league) = Inr cid" using assms(6) L by simp
  have "\<exists>x s'. redispatch_body env now ?e actor note ?s = (Inr x, s') \<and> rr_success x"
  proof (cases "?owed = []")
    case True
    then show ?thesis unfolding redispatch_body_def find option.case Let_def owed_of_def [symmetric] by simp
  next
    case False
    then show ?thesis
      unfolding redispatch_body_def find option.case Let_def owed_of_def [symmetric] if_not_P [OF False] if_not_P [OF w] cid
        res_bind_simps sum.case d_def [symmetric] split_beta using ok(1) c by simp
  qed
  then show ?thesis using claim by (auto simp: redispatchRefundEntry_def)
qed

lemma retry_loop_accepted:
  assumes "accepts env s0" "fin_keys_ok s0" "findLeague (fd_leagues s0) L = Some league" "toContractLeagueId L = Inr cid"
    and "\<forall>m \<in> set (league_rows s0 L). isRefundOwed m \<longrightarrow> stellarAddress s0 m \<noteq> []"
    and "pays dn s0 s" "queue_ok (fd_payouts s)" "distinct (map fp_id es)"
    and "\<forall>e \<in> set es. e \<in> set (dl_rows (fd_payouts s)) \<and> auto_retryable L REFUND e"
  shows "\<exists>rep' s'. retry_loop env now es rep s = (Inr rep', s') \<and>
    (\<forall>y \<in> set (dl_rows (fd_payouts s')). isolating L REFUND y \<longrightarrow> y \<in> set (dl_rows (fd_payouts s)) \<and> y \<notin> set es)"
  using assms(6-9)
proof (induction es arbitrary: rep s dn)
  case (Cons e es)
  have e: "e \<in> set (dl_rows (fd_payouts s))" "fp_leagueId e = L" "fp_status e = Payout_PENDING"
    using Cons.prems(4) by (auto simp: auto_retryable_def)
  obtain x s1 where run: "redispatchRefundEntry env now (fp_id e) SYSTEM_ACTOR None s = (Inr x, s1)" and x: "rr_success x"
    using redispatch_accepted [OF assms(1,2) Cons.prems(1,2) assms(3-5) e] by blast
  have k: "fin_keys_ok s" by (rule fin_keys_pays [OF Cons.prems(1) assms(2) Cons.prems(2)])
  have p1: "pays (dn @ paid (Inr x :: refund_error + retry_result)) s0 s1" "queue_ok (fd_payouts s1)"
    using redispatch_pays [OF k run] pays_trans [OF _ Cons.prems(1)] assms(2) by (auto simp: fin_keys_ok_def)
  obtain g where g: "touches (fp_id e) g (fd_payouts s) (fd_payouts s1)" "\<forall>y. fp_status (g y) = Payout_RESOLVED"
    using redispatch_touches [OF Cons.prems(2) run] x by auto
  have ne: "fp_id e \<notin> fp_id ` set es" using Cons.prems(3) by simp
  have "\<forall>y \<in> set es. y \<in> set (dl_rows (fd_payouts s1)) \<and> auto_retryable L REFUND y"
    using Cons.prems(4) touches_other [OF g(1)] ne by (metis imageI list.set_intros(2))
  then obtain rep' s' where ih: "retry_loop env now es (rep\<lparr>rp_autoRetried := rp_autoRetried rep @ [(fp_id e, rr_success x)],
        rp_refundedMemberIds := rp_refundedMemberIds rep @ rr_paidMemberIds x\<rparr>) s1 = (Inr rep', s')"
    and rows: "\<forall>y \<in> set (dl_rows (fd_payouts s')). isolating L REFUND y \<longrightarrow> y \<in> set (dl_rows (fd_payouts s1)) \<and> y \<notin> set es"
    using Cons.IH [OF p1] Cons.prems(3) by fastforce
  have "y \<in> set (dl_rows (fd_payouts s)) \<and> y \<noteq> e \<and> y \<notin> set es" if "y \<in> set (dl_rows (fd_payouts s'))" "isolating L REFUND y" for y
    using rows that touches_rows [OF g(1), of y] g(2) by (auto simp: isolating_def ISOLATING_DEAD_LETTER_STATUSES_def)
  then show ?case using ih by (auto simp: run)
qed auto

lemma dispatch_phase_accepted:
  assumes "accepts env s0" "fin_keys_ok s0" "pays (rp_refundedMemberIds rep) s0 s"
    and "\<forall>m \<in> set (league_rows s0 (lg_id league)). isRefundOwed m \<longrightarrow> stellarAddress s0 m \<noteq> []"
  shows "\<exists>rep' s'. dispatch_phase env now s0 league cid rep s = (Inr rep', s') \<and> dl_rows (fd_payouts s') = dl_rows (fd_payouts s)"
proof -
  let ?dn = "rp_refundedMemberIds rep"
  define disp where "disp = filter (\<lambda>m. lm_id m \<notin> set (getIsolatedMemberIds (lg_id league) REFUND (fd_payouts s))) (pending_refunds s0 (lg_id league) ?dn)"
  define good where "good = filter (\<lambda>m. stellarAddress s0 m \<noteq> []) disp"
  have none: "filter (\<lambda>m. stellarAddress s0 m = []) disp = []"
    using assms(4) by (auto simp: disp_def pending_refunds_def filter_empty_conv)
  have cc: "concat (chunk good REFUND_BATCH_SIZE) = good" by (rule concat_chunk) (simp add: REFUND_BATCH_SIZE_def)
  have "distinct (map lm_id good)"
    using assms(2) by (simp add: good_def disp_def pending_refunds_def league_rows_def fin_keys_ok_def distinct_map_filter)
  moreover have "\<forall>m \<in> set good. m \<in> set (fd_members s0) \<and> isRefundOwed m \<and> lm_id m \<notin> set ?dn"
    by (simp add: good_def disp_def pending_refunds_def league_rows_def)
  ultimately show ?thesis
    unfolding dispatch_phase_def Let_def disp_def [symmetric] none good_def [symmetric] split_beta
    using dispatch_batches_accepted [OF assms(1-3), of "chunk good REFUND_BATCH_SIZE"] by (simp add: cc)
qed

text \<open>
  C7. Refunds complete: when the contract accepts the calls, the members who are due have wallets and the failures so far
  are ones that are retried automatically, one run succeeds, refunds everyone who was due and leaves nobody.
\<close>
theorem refund_run_completes:
  assumes "fin_keys_ok s" and "accepts env s" and "findLeague (fd_leagues s) L = Some league" and "lg_status league = CANCELLED"
    and "toContractLeagueId L = Inr cid"
    and "\<forall>m \<in> set (league_rows s L). isRefundOwed m \<longrightarrow> stellarAddress s m \<noteq> []"
    and "\<forall>e \<in> set (dl_rows (fd_payouts s)). isolating L REFUND e \<longrightarrow> auto_retryable L REFUND e"
  shows "\<exists>rep s'. processLeagueRefunds env now s L s = (Inr rep, s') \<and>
    (\<forall>m \<in> set (league_rows s L). isRefundOwed m \<longrightarrow> lm_id m \<in> set (rp_refundedMemberIds rep)) \<and>
    (\<forall>m \<in> set (league_rows s' L). \<not> isRefundOwed m)"
proof -
  have q: "queue_ok (fd_payouts s)" using assms(1) by (simp add: fin_keys_ok_def)
  have L: "lg_id league = L" by (rule findLeague_id [OF assms(3)])
  let ?es = "getAutoRetryable L REFUND (fd_payouts s)"
  have es: "distinct (map fp_id ?es)" "set ?es = {e \<in> set (dl_rows (fd_payouts s)). auto_retryable L REFUND e}"
    unfolding getAutoRetryable_def by (rule distinct_ids_sort_filter [OF q]) auto
  obtain rep1 s1 where loop: "retry_loop env now ?es (new_report L cid) s = (Inr rep1, s1)"
    and rows: "\<forall>y \<in> set (dl_rows (fd_payouts s1)). isolating L REFUND y \<longrightarrow> y \<in> set (dl_rows (fd_payouts s)) \<and> y \<notin> set ?es"
    using retry_loop_accepted [OF assms(2,1,3,5,6) pays_refl q es(1)] es(2) by fastforce
  have none: "\<not> isolating L REFUND y" if "y \<in> set (dl_rows (fd_payouts s1))" for y
    using rows that assms(7) es(2) by blast
  obtain dn where "pays dn s s1" "rp_refundedMemberIds rep1 = dn"
    using retry_loop_pays [OF assms(1) loop] by (auto simp: new_report_def)
  then obtain rep s' where phase: "dispatch_phase env now s league cid rep1 s1 = (Inr rep, s')"
    and rows': "dl_rows (fd_payouts s') = dl_rows (fd_payouts s1)"
    using dispatch_phase_accepted [OF assms(2,1), of rep1 s1 league] assms(6) L by blast
  have run: "processLeagueRefunds env now s L s = (Inr rep, s')"
    using assms(3-5) L loop phase by (simp add: processLeagueRefunds_def)
  have iso: "x \<notin> set (getIsolatedMemberIds L REFUND (fd_payouts s'))" for x using none by (simp add: isolated_iff rows')
  have p: "pays (rp_refundedMemberIds rep) s s'"
    "\<forall>m \<in> set (league_rows s L). isRefundOwed m \<longrightarrow> lm_id m \<in> set (rp_refundedMemberIds rep)"
    using process_pays [OF assms(1) run] iso by auto
  moreover have "\<not> isRefundOwed m" if "m \<in> set (league_rows s' L)" for m
    using that p(2) pays_members [OF p(1)] by (auto simp: league_rows_def)
  ultimately show ?thesis using run by blast
qed

definition accepting_env :: refund_env where
  "accepting_env = \<lparr>re_refund = (\<lambda>n cid rs. Returned \<lparr>ro_success = True, ro_txHash = Some (show_nat n), ro_error = None, ro_contractErrorCode = None\<rparr>),
     re_dbText = (\<lambda>_. ''db'')\<rparr>"

theorem refund_run_completes_witness:
  "\<exists>rep s'. processLeagueRefunds accepting_env 0 refund_demo_wallets refund_demo_id refund_demo_wallets = (Inr rep, s') \<and>
     ''m3'' \<in> set (rp_refundedMemberIds rep) \<and> filter isRefundOwed (league_rows s' refund_demo_id) = []"
proof -
  have "fin_keys_ok refund_demo_wallets" using refund_demo_ok
    by (simp add: refund_demo_wallets_def refund_demo_paid_def refund_books_ok_def fin_keys_ok_def)
  moreover have "accepts accepting_env refund_demo_wallets"
    by (simp add: accepts_def accepting_env_def refund_demo_wallets_def refund_demo_paid_def refund_demo_def)
  moreover have "findLeague (fd_leagues refund_demo_wallets) refund_demo_id = Some refund_demo_league"
    by (simp add: findLeague_def refund_demo_wallets_def refund_demo_paid_def refund_demo_def refund_demo_league_def)
  moreover have "lg_status refund_demo_league = CANCELLED" by (simp add: refund_demo_league_def)
  moreover have "toContractLeagueId refund_demo_id = Inr 42" by code_simp
  moreover have "\<forall>m \<in> set (league_rows refund_demo_wallets refund_demo_id). isRefundOwed m \<longrightarrow> stellarAddress refund_demo_wallets m \<noteq> []"
    by (simp add: league_rows_def stellarAddress_def refund_demo_wallets_def refund_demo_paid_def refund_demo_def refund_demo_member_def)
  moreover have "\<forall>e \<in> set (dl_rows (fd_payouts refund_demo_wallets)). isolating refund_demo_id REFUND e \<longrightarrow> auto_retryable refund_demo_id REFUND e"
    by (simp add: refund_demo_wallets_def refund_demo_paid_def refund_demo_def)
  ultimately have "\<exists>rep s'. processLeagueRefunds accepting_env 0 refund_demo_wallets refund_demo_id refund_demo_wallets = (Inr rep, s') \<and>
      (\<forall>m \<in> set (league_rows refund_demo_wallets refund_demo_id). isRefundOwed m \<longrightarrow> lm_id m \<in> set (rp_refundedMemberIds rep)) \<and>
      (\<forall>m \<in> set (league_rows s' refund_demo_id). \<not> isRefundOwed m)"
    by (rule refund_run_completes)
  moreover have "refund_demo_member ''m3'' REFUND_PENDING \<in> set (league_rows refund_demo_wallets refund_demo_id)"
    "isRefundOwed (refund_demo_member ''m3'' REFUND_PENDING)" "lm_id (refund_demo_member ''m3'' REFUND_PENDING) = ''m3''"
    by (simp_all add: league_rows_def refund_demo_wallets_def refund_demo_paid_def refund_demo_def refund_demo_member_def isRefundOwed_def)
  ultimately show ?thesis unfolding filter_empty_conv by metis
qed

text \<open>A failed batch that the next run would not touch: the contract refused it.\<close>

definition refused_once :: fin_db where
  "refused_once = refund_ops refund_demo_env (\<lambda>_ _. 0) [RunRefunds 0 refund_demo_id, RunRefunds 300 refund_demo_id]
     (refund_demo_wallets\<lparr>fd_calls := []\<rparr>)"

theorem automatic_attempts_bounded_witness:
  "map fp_memberIds (dl_rows (fd_payouts refused_once)) = [[''m1'', ''m2'', ''m3'']] \<and>
   fp_attempts (hd (dl_rows (fd_payouts refused_once))) \<le> 3"
proof -
  have b: "refund_books_ok (refund_demo_wallets\<lparr>fd_calls := []\<rparr>)" using refund_demo_ok
    by (simp add: refund_demo_wallets_def refund_demo_paid_def refund_books_ok_def fin_keys_ok_def refund_rows_def)
  have a: "attempts_ok (fd_payouts (refund_demo_wallets\<lparr>fd_calls := []\<rparr>))"
    by (simp add: refund_demo_wallets_def refund_demo_paid_def refund_demo_def attempts_ok_def)
  have m: "map fp_memberIds (dl_rows (fd_payouts refused_once)) = [[''m1'', ''m2'', ''m3'']]" by code_simp
  then have "hd (dl_rows (fd_payouts refused_once)) \<in> set (dl_rows (fd_payouts refused_once))" by (intro hd_in_set) auto
  then have "fp_attempts (hd (dl_rows (fd_payouts refused_once))) \<le> 3"
    using automatic_attempts_bounded [OF b a, of "[RunRefunds 0 refund_demo_id, RunRefunds 300 refund_demo_id]"
        "hd (dl_rows (fd_payouts refused_once))" refund_demo_env "\<lambda>_ _. 0"] unfolding refused_once_def by simp
  then show ?thesis using m by simp
qed

end
