(* ===== verification/Settlement.thy ===== *)
theory Settlement
  imports Refunds League_Standings
begin

text \<open>
  Settling a league (\<open>prepareSettlement\<close>, \<open>executeSettlement\<close>, \<open>recoverSettlement\<close>, \<open>recoverPendingSettlements\<close> and
  \<open>commitSettlement\<close> in \<open>backend/src/services/financial/financialService.ts\<close>): the prize plan, its dispatch to the
  escrow contract with a journal row written before anything is submitted, and the ledger rows.

  The state adds to \<open>Refunds\<close> the users who are administrators, the squads with their points, the journal of settlement
  transactions and the hashes handed to the transaction coordinator. Names for display are left out of the plan. The
  contract client is a parameter: \<open>sv_settle\<close> gives the signed transactions it journals through the callback, in
  order until the callback throws, and what it answers in the end; \<open>sv_status\<close> and \<open>sv_resume\<close> are the two calls of the recovery, \<open>sv_valid\<close> the
  format check of addresses. \<open>as_number\<close> is what \<open>Number.isFinite\<close> and \<open>===\<close> see of a fee read from the database: \<open>Some\<close> for
  a number, \<open>None\<close> for a decimal object.
\<close>

section \<open>State\<close>

record settlement_plan =
  pl_leagueId :: string
  pl_leagueName :: string
  pl_status :: league_status
  pl_totalParticipants :: nat
  pl_entryFee :: rat
  pl_grossPool :: rat
  pl_platformFee :: rat
  pl_netPrizePool :: rat
  pl_winners :: "settlement_winner list"
  pl_distributionBps :: "int list option"
  pl_canSettle :: bool
  pl_unsettledReason :: "string option"
  pl_proofHash :: "string option"

datatype journal_status = Journal_PENDING | Journal_SUCCESS | Journal_FAILED | Journal_DROPPED

record journal_row =
  jr_settlementKey :: string
  jr_txHash :: string
  jr_leagueId :: string
  jr_plan :: settlement_plan
  jr_adminUserId :: string
  jr_envelope :: string
  jr_status :: journal_status
  jr_nextPollAt :: int
  jr_ledgerSeq :: "int option"
  jr_finalizedAt :: "int option"
  jr_transactionId :: "nat option"

record settle_db =
  st_fin :: fin_db
  st_admins :: "string list"
  st_points :: "(string \<times> int) list"
  st_journal :: "journal_row list"
  st_tracked :: "(string \<times> string) list"

abbreviation st_leagues :: "settle_db \<Rightarrow> league_db" where
  "st_leagues s \<equiv> fd_leagues (st_fin s)"

record settle_outcome =
  so_success :: bool
  so_txHash :: "string option"
  so_ledgerSeq :: "int option"
  so_error :: "string option"

datatype journal_error = OtherSettlement | HashTaken

datatype settle_answer = SettleReturned settle_outcome | SettleThrew string

record settle_env =
  sv_settle :: "nat \<Rightarrow> (string \<times> int) list \<Rightarrow> int \<Rightarrow> int list option \<Rightarrow> (string \<times> string) list \<times> (journal_error option \<Rightarrow> settle_answer)"
  sv_status :: "string \<Rightarrow> string + string \<times> int option"
  sv_resume :: "string \<Rightarrow> string + bool \<times> int option"
  sv_valid :: "string \<Rightarrow> bool"
  sv_digest :: "json \<Rightarrow> string"

datatype settle_error =
    SettleLeagueMissing string | NotLeagueCreator | AlreadyExecuted | CancelledLeague | EndGameweekOpen | NotAdministrator
  | NotEligible string | WinnerWithoutWallet string | PrizesFailed prize_error | SettleUuid refund_failure
  | DispatchFailed string | NotConfirmed string | ResubmissionBlocked string string | RecoveryCallFailed string

record settlement_report =
  sr_leagueId :: string
  sr_contractLeagueId :: "refund_failure + nat"
  sr_stellarTxHash :: string
  sr_ledgerSeq :: "int option"
  sr_winnerTransactionCount :: nat
  sr_platformFee :: rat

section \<open>The plan\<close>

definition squad_points :: "settle_db \<Rightarrow> league_member \<Rightarrow> int" where
  "squad_points s m = (case map_of (st_points s) (lm_squadId m) of None \<Rightarrow> 0 | Some p \<Rightarrow> p)"

definition settlement_order :: "settle_db \<Rightarrow> league_member cmp" where
  "settlement_order s = js_or (desc (\<lambda>m. of_int (squad_points s m))) (asc (\<lambda>m. of_int (lm_joinedAt m)))"

definition paid_members :: "(rat \<Rightarrow> rat option) \<Rightarrow> settle_db \<Rightarrow> league \<Rightarrow> league_member list" where
  "paid_members as_number s league =
     filter (\<lambda>m. lm_status m = Member_ACTIVE \<and> (as_number (lg_entryFee league) = Some 0 \<or> lm_paymentStatus m = PAYMENT_CONFIRMED))
       (league_rows (st_fin s) (lg_id league))"

definition wallet_or_pending :: "settle_db \<Rightarrow> league_member \<Rightarrow> string" where
  "wallet_or_pending s m = (if stellarAddress (st_fin s) m = [] then ''PENDING_WALLET_LINK'' else stellarAddress (st_fin s) m)"

text \<open>One tie group: the pooled prizes are shared, the first ones get the cents left over, a share of nothing is no prize.\<close>

definition group_winners :: "settle_db \<Rightarrow> nat \<Rightarrow> int \<Rightarrow> league_member list \<Rightarrow> settlement_winner list" where
  "group_winners s rankOffset pooledCents tied =
     (let eachCents = pooledCents div int (length tied); remainder = pooledCents - eachCents * int (length tied)
      in concat (map (\<lambda>(offset, m).
           let prizeCents = eachCents + (if int offset < remainder then 1 else 0)
           in if prizeCents > 0
              then [\<lparr>sw_rank = of_nat (rankOffset + 1), sw_userId = lm_userId m, sw_stellarAddress = wallet_or_pending s m,
                     sw_totalPoints = of_int (squad_points s m), sw_prizeAmount = of_int prizeCents / 100\<rparr>] else [])
         (enumerate 0 tied)))"

text \<open>The loop over the tie groups; a sum with \<open>NaN\<close> in it gives no prize, since no comparison with it holds.\<close>

function pay_groups :: "settle_db \<Rightarrow> nat \<Rightarrow> league_member list \<Rightarrow> rat option list \<Rightarrow> settlement_winner list" where
  "pay_groups s rankOffset ms payouts =
     (if ms = [] \<or> payouts = [] then []
      else let n = length (takeWhile (\<lambda>m. squad_points s m = squad_points s (hd ms)) ms)
           in (case nan_sum (map (map_option to_cents) (take n payouts)) of
                 None \<Rightarrow> [] | Some pooled \<Rightarrow> group_winners s rankOffset pooled (take n ms))
              @ pay_groups s (rankOffset + n) (drop n ms) (drop n payouts))"
  by pat_completeness auto
termination
  by (relation "measure (\<lambda>(s, off, ms, ps). length ms)") (auto simp: Let_def neq_Nil_conv)

declare pay_groups.simps [simp del]

definition no_plan :: "league \<Rightarrow> string \<Rightarrow> settlement_plan" where
  "no_plan league reason =
     \<lparr>pl_leagueId = lg_id league, pl_leagueName = lg_name league, pl_status = lg_status league, pl_totalParticipants = 0,
      pl_entryFee = lg_entryFee league, pl_grossPool = 0, pl_platformFee = 0, pl_netPrizePool = 0, pl_winners = [],
      pl_distributionBps = None, pl_canSettle = False, pl_unsettledReason = Some reason, pl_proofHash = None\<rparr>"

definition plan_of :: "settle_env \<Rightarrow> (rat \<Rightarrow> rat option) \<Rightarrow> settle_db \<Rightarrow> league \<Rightarrow> settle_error + settlement_plan" where
  "plan_of env as_number s league =
     (let members = paid_members as_number s league
      in case res_bind (parsePreset (lg_payoutPreset league)) (\<lambda>_.
           calculatePrizeDistribution (Some (of_nat (length members))) (as_number (lg_entryFee league))
             \<lparr>opt_preset = Some (lg_payoutPreset league), opt_customSplitsBps = Some (lg_payoutSplitsBps league)\<rparr>) of
           Inl e \<Rightarrow> Inl (PrizesFailed e)
         | Inr d \<Rightarrow>
             let winners = pay_groups s 0 (js_sort (settlement_order s) members) (pd_payouts d);
                 proof_hash = createSettlementProof (sv_digest env)
                   \<lparr>si_leagueId = lg_id league, si_grossPool = pd_grossTotal d, si_platformFee = pd_platformFee d, si_winners = winners\<rparr>
             in case (if lg_payoutPreset league \<noteq> [] \<and> lg_payoutPreset league \<noteq> ''standard'' \<and> pd_prizePool d > 0 \<and> winners \<noteq> []
                      then res_bind (encodeSorobanPayoutAmounts (map sw_prizeAmount winners) (pd_prizePool d)) (\<lambda>b. Inr (Some b))
                      else Inr None) of
                  Inl e \<Rightarrow> Inl (PrizesFailed e)
                | Inr bps \<Rightarrow>
                    Inr \<lparr>pl_leagueId = lg_id league, pl_leagueName = lg_name league, pl_status = lg_status league,
                         pl_totalParticipants = length members, pl_entryFee = lg_entryFee league, pl_grossPool = pd_grossTotal d,
                         pl_platformFee = pd_platformFee d, pl_netPrizePool = pd_prizePool d, pl_winners = winners,
                         pl_distributionBps = bps, pl_canSettle = True, pl_unsettledReason = None, pl_proofHash = Some proof_hash\<rparr>)"

definition prepareSettlement ::
  "settle_env \<Rightarrow> (rat \<Rightarrow> rat option) \<Rightarrow> settle_db \<Rightarrow> string \<Rightarrow> string option \<Rightarrow> settle_error + settlement_plan" where
  "prepareSettlement env as_number s leagueId requesterUserId =
     (case findLeague (st_leagues s) leagueId of
        None \<Rightarrow> Inl (SettleLeagueMissing leagueId)
      | Some league \<Rightarrow>
          if (case requesterUserId of None \<Rightarrow> False | Some u \<Rightarrow> u \<noteq> [] \<and> lg_creatorId league \<noteq> u) then Inl NotLeagueCreator
          else if lg_status league = CANCELLED
          then Inr (no_plan league ''League was cancelled. Funds must be refunded, not settled.'')
          else if paid_members as_number s league = []
          then Inr (no_plan league ''No confirmed active participants found in this league.'')
          else plan_of env as_number s league)"

section \<open>Recording a settlement\<close>

definition settlement_row :: "int \<Rightarrow> string \<Rightarrow> string \<Rightarrow> int option \<Rightarrow> string \<Rightarrow> transaction_type \<Rightarrow> rat \<Rightarrow> string \<Rightarrow> ledger_tx" where
  "settlement_row now leagueId txHash ledgerSeq userId ty amount memo =
     \<lparr>tx_userId = userId, tx_leagueId = Some leagueId, tx_memberId = None, tx_type = ty, tx_amount = amount,
      tx_stellarTxHash = Some txHash, tx_ledgerSeq = ledgerSeq, tx_memo = Some memo, tx_status = Tx_CONFIRMED, tx_confirmedAt = Some now\<rparr>"

definition settlement_rows :: "int \<Rightarrow> string \<Rightarrow> string \<Rightarrow> settlement_plan \<Rightarrow> string \<Rightarrow> int option \<Rightarrow> ledger_tx list" where
  "settlement_rows now leagueId adminUserId plan txHash ledgerSeq =
     map (\<lambda>w. settlement_row now leagueId txHash ledgerSeq (sw_userId w) PRIZE_PAYOUT (sw_prizeAmount w)
            (''PRIZE_PAYOUT:'' @ leagueId @ '':'' @ show_int \<lfloor>sw_rank w\<rfloor>)) (pl_winners plan)
     @ [settlement_row now leagueId txHash ledgerSeq adminUserId PLATFORM_FEE (pl_platformFee plan) (''PLATFORM_FEE:'' @ leagueId)]"

definition finalize_row :: "int \<Rightarrow> string \<Rightarrow> int option \<Rightarrow> nat \<Rightarrow> journal_row \<Rightarrow> journal_row" where
  "finalize_row now leagueId ledgerSeq rowId j =
     (if jr_settlementKey j = leagueId
      then j\<lparr>jr_status := Journal_SUCCESS, jr_ledgerSeq := ledgerSeq, jr_finalizedAt := Some now, jr_transactionId := Some rowId\<rparr> else j)"

definition commitSettlement ::
  "int \<Rightarrow> string \<Rightarrow> string \<Rightarrow> settlement_plan \<Rightarrow> string \<Rightarrow> int option \<Rightarrow> settle_db \<Rightarrow> settle_db" where
  "commitSettlement now leagueId adminUserId plan txHash ledgerSeq s =
     (if list_ex (\<lambda>l. lg_id l = leagueId \<and> lg_status l \<noteq> COMPLETED) (ld_leagues (st_leagues s))
      then (let fin = st_fin s
            in s\<lparr>st_fin := fin\<lparr>fd_leagues := (fd_leagues fin)\<lparr>ld_leagues :=
                    map (\<lambda>l. if lg_id l = leagueId \<and> lg_status l \<noteq> COMPLETED
                             then l\<lparr>lg_status := COMPLETED, lg_prizePool := pl_netPrizePool plan\<rparr> else l) (ld_leagues (fd_leagues fin))\<rparr>,
                  fd_transactions := fd_transactions fin @ settlement_rows now leagueId adminUserId plan txHash ledgerSeq\<rparr>,
                st_journal := map (finalize_row now leagueId ledgerSeq (length (fd_transactions fin))) (st_journal s)\<rparr>)
      else s)"

definition settlement_report_of :: "string \<Rightarrow> settlement_plan \<Rightarrow> string \<Rightarrow> int option \<Rightarrow> settlement_report" where
  "settlement_report_of leagueId plan txHash ledgerSeq =
     \<lparr>sr_leagueId = leagueId, sr_contractLeagueId = toContractLeagueId leagueId, sr_stellarTxHash = txHash, sr_ledgerSeq = ledgerSeq,
      sr_winnerTransactionCount = length (pl_winners plan), sr_platformFee = pl_platformFee plan\<rparr>"

section \<open>Dispatching a settlement\<close>

definition toStroops :: "rat \<Rightarrow> int" where
  "toStroops amount = to_cents amount * 100000"

text \<open>The callback before each submission: the row of the league is created, or must be the one of this hash.\<close>

definition beforeSubmit :: "int \<Rightarrow> string \<Rightarrow> string \<Rightarrow> settlement_plan \<Rightarrow> string \<times> string \<Rightarrow> settle_db \<Rightarrow> journal_error + settle_db" where
  "beforeSubmit now leagueId adminUserId plan p s =
     (let (txHash, envelope) = p
      in case find (\<lambda>j. jr_settlementKey j = leagueId) (st_journal s) of
           Some j \<Rightarrow> if jr_txHash j \<noteq> txHash then Inl OtherSettlement else Inr s
         | None \<Rightarrow>
             if list_ex (\<lambda>j. jr_txHash j = txHash) (st_journal s) then Inl HashTaken
             else Inr (s\<lparr>st_journal := st_journal s @
               [\<lparr>jr_settlementKey = leagueId, jr_txHash = txHash, jr_leagueId = leagueId, jr_plan = plan, jr_adminUserId = adminUserId,
                 jr_envelope = envelope, jr_status = Journal_PENDING, jr_nextPollAt = now, jr_ledgerSeq = None, jr_finalizedAt = None,
                 jr_transactionId = None\<rparr>]\<rparr>))"

fun journal_all :: "int \<Rightarrow> string \<Rightarrow> string \<Rightarrow> settlement_plan \<Rightarrow> (string \<times> string) list \<Rightarrow> settle_db \<Rightarrow> journal_error option \<times> settle_db" where
  "journal_all now leagueId adminUserId plan [] s = (None, s)"
| "journal_all now leagueId adminUserId plan (p # ps) s =
     (case beforeSubmit now leagueId adminUserId plan p s of
        Inl e \<Rightarrow> (Some e, s) | Inr s1 \<Rightarrow> journal_all now leagueId adminUserId plan ps s1)"

definition recoverSettlement :: "settle_env \<Rightarrow> int \<Rightarrow> journal_row \<Rightarrow> settle_db \<Rightarrow> (settle_error + settlement_report) \<times> settle_db" where
  "recoverSettlement env now attempt s =
     (case sv_status env (jr_txHash attempt) of
        Inl e \<Rightarrow> (Inl (RecoveryCallFailed e), s)
      | Inr (status, ledger) \<Rightarrow>
          (case (if status = ''NOT_FOUND'' \<and> jr_envelope attempt \<noteq> []
                 then (case sv_resume env (jr_envelope attempt) of
                         Inl e \<Rightarrow> Inl (RecoveryCallFailed e)
                       | Inr (ok, seq) \<Rightarrow> Inr (if ok then (''SUCCESS'', seq) else (status, ledger)))
                 else Inr (status, ledger)) of
             Inl e \<Rightarrow> (Inl e, s)
           | Inr (st, seq) \<Rightarrow>
               if st \<noteq> ''SUCCESS'' then (Inl (ResubmissionBlocked (jr_txHash attempt) st), s)
               else (Inr (settlement_report_of (jr_leagueId attempt) (jr_plan attempt) (jr_txHash attempt) seq),
                     commitSettlement now (jr_leagueId attempt) (jr_adminUserId attempt) (jr_plan attempt) (jr_txHash attempt) seq s)))"

definition confirm_error :: "string option \<Rightarrow> string" where
  "confirm_error e =
     (let d = ''Settlement transaction was not confirmed'' in case e of None \<Rightarrow> d | Some t \<Rightarrow> if t = [] then d else t)"

definition dispatch_settlement ::
  "settle_env \<Rightarrow> int \<Rightarrow> string \<Rightarrow> string \<Rightarrow> settlement_plan \<Rightarrow> nat \<Rightarrow> settle_db \<Rightarrow> (settle_error + settlement_report) \<times> settle_db" where
  "dispatch_settlement env now leagueId adminUserId plan cid s =
     (let (submissions, answer) = sv_settle env cid (map (\<lambda>w. (sw_stellarAddress w, toStroops (sw_prizeAmount w))) (pl_winners plan))
            (toStroops (pl_platformFee plan)) (pl_distributionBps plan);
          (journaled, s1) = journal_all now leagueId adminUserId plan submissions s
      in case answer journaled of
           SettleThrew e \<Rightarrow> (Inl (DispatchFailed e), s1)
         | SettleReturned r \<Rightarrow>
             (case so_txHash r of
                None \<Rightarrow> (Inl (NotConfirmed (confirm_error (so_error r))), s1)
              | Some h \<Rightarrow>
                  if h = [] then (Inl (NotConfirmed (confirm_error (so_error r))), s1)
                  else if \<not> so_success r
                  then (Inl (NotConfirmed (confirm_error (so_error r))), s1\<lparr>st_tracked := st_tracked s1 @ [(h, leagueId)]\<rparr>)
                  else (Inr (settlement_report_of leagueId plan h (so_ledgerSeq r)),
                        commitSettlement now leagueId adminUserId plan h (so_ledgerSeq r) s1)))"

definition end_finished :: "league_db \<Rightarrow> league \<Rightarrow> bool" where
  "end_finished db league = (case find_gw db (lg_endGameweekId league) of None \<Rightarrow> False | Some g \<Rightarrow> lgw_isFinished g)"

definition executeSettlement ::
  "settle_env \<Rightarrow> (rat \<Rightarrow> rat option) \<Rightarrow> int \<Rightarrow> string \<Rightarrow> string \<Rightarrow> settle_db \<Rightarrow> (settle_error + settlement_report) \<times> settle_db" where
  "executeSettlement env as_number now leagueId adminUserId s =
     (case findLeague (st_leagues s) leagueId of
        None \<Rightarrow> (Inl (SettleLeagueMissing leagueId), s)
      | Some league \<Rightarrow>
          if lg_status league = COMPLETED then (Inl AlreadyExecuted, s)
          else if lg_status league = CANCELLED then (Inl CancelledLeague, s)
          else if \<not> end_finished (st_leagues s) league then (Inl EndGameweekOpen, s)
          else if adminUserId \<notin> set (st_admins s) then (Inl NotAdministrator, s)
          else
            (case find (\<lambda>j. jr_settlementKey j = leagueId) (st_journal s) of
               Some previous \<Rightarrow> recoverSettlement env now previous s
             | None \<Rightarrow>
                 (case prepareSettlement env as_number s leagueId (Some (lg_creatorId league)) of
                    Inl e \<Rightarrow> (Inl e, s)
                  | Inr plan \<Rightarrow>
                      if \<not> pl_canSettle plan \<or> pl_winners plan = []
                      then (Inl (NotEligible (case pl_unsettledReason plan of None \<Rightarrow> ''The league has no eligible settlement winners'' | Some r \<Rightarrow> r)), s)
                      else
                        (case find (\<lambda>w. \<not> sv_valid env (sw_stellarAddress w)) (pl_winners plan) of
                           Some w \<Rightarrow> (Inl (WinnerWithoutWallet (sw_userId w)), s)
                         | None \<Rightarrow>
                             (case toContractLeagueId leagueId of
                                Inl f \<Rightarrow> (Inl (SettleUuid f), s)
                              | Inr cid \<Rightarrow> dispatch_settlement env now leagueId adminUserId plan cid s)))))"

text \<open>The sweep over unfinished journal rows; a failure of one is logged and the next is tried.\<close>

definition recover_one :: "settle_env \<Rightarrow> int \<Rightarrow> nat \<times> settle_db \<Rightarrow> journal_row \<Rightarrow> nat \<times> settle_db" where
  "recover_one env now p attempt =
     (let (n, s) = p
      in if (case findLeague (st_leagues s) (jr_leagueId attempt) of None \<Rightarrow> False | Some l \<Rightarrow> lg_status l = COMPLETED) then (n, s)
         else (case recoverSettlement env now attempt s of (Inl _, s1) \<Rightarrow> (n, s1) | (Inr _, s1) \<Rightarrow> (n + 1, s1)))"

definition unfinished :: "journal_row \<Rightarrow> bool" where
  "unfinished j \<longleftrightarrow> jr_transactionId j = None \<and> jr_status j \<in> {Journal_PENDING, Journal_SUCCESS, Journal_DROPPED}"

definition recoverPendingSettlements :: "settle_env \<Rightarrow> int \<Rightarrow> settle_db \<Rightarrow> nat \<times> settle_db" where
  "recoverPendingSettlements env now s =
     foldl (recover_one env now) (0, s) (take 50 (js_sort (asc (\<lambda>j. of_int (jr_nextPollAt j))) (filter unfinished (st_journal s))))"

section \<open>Sharing the pool\<close>

definition tied_cents :: "int \<Rightarrow> nat \<Rightarrow> nat \<Rightarrow> int" where
  "tied_cents pooled n i = pooled div int n + (if int i < pooled - pooled div int n * int n then 1 else 0)"

lemma sum_extra_cents:
  assumes "0 \<le> r" "r \<le> int n"
  shows "(\<Sum>i\<leftarrow>[0..<n]. if int i < r then 1 else 0 :: int) = r"
  using assms
proof (induction n arbitrary: r)
  case (Suc n)
  show ?case
  proof (cases "r \<le> int n")
    case True
    then show ?thesis using Suc by simp
  next
    case False
    then have r: "r = int n + 1" using Suc.prems by simp
    have "(\<Sum>i\<leftarrow>[0..<n]. if int i < r then 1 else 0 :: int) = (\<Sum>i\<leftarrow>[0..<n]. if int i < int n then 1 else 0)"
      by (rule arg_cong [of _ _ sum_list], rule map_cong) (auto simp: r)
    then show ?thesis using Suc.IH [of "int n"] by (simp add: r)
  qed
qed simp

lemma tied_cents_remainder:
  assumes "0 < n"
  shows "0 \<le> pooled - pooled div int n * int n" "pooled - pooled div int n * int n < int n"
proof -
  have "pooled - pooled div int n * int n = pooled mod int n" by (simp add: minus_div_mult_eq_mod)
  then show "0 \<le> pooled - pooled div int n * int n" "pooled - pooled div int n * int n < int n" using assms by simp_all
qed

lemma tied_cents_sum:
  assumes "0 < n"
  shows "(\<Sum>i\<leftarrow>[0..<n]. tied_cents pooled n i) = pooled"
proof -
  let ?r = "pooled - pooled div int n * int n"
  have "(\<Sum>i\<leftarrow>[0..<n]. tied_cents pooled n i) = (\<Sum>i\<leftarrow>[0..<n]. pooled div int n) + (\<Sum>i\<leftarrow>[0..<n]. if int i < ?r then 1 else 0)"
    unfolding tied_cents_def by (rule sum_list_addf)
  also have "(\<Sum>i\<leftarrow>[0..<n]. if int i < ?r then 1 else 0 :: int) = ?r"
    using tied_cents_remainder [OF assms, of pooled] by (intro sum_extra_cents) simp_all
  also have "(\<Sum>i\<leftarrow>[0..<n]. pooled div int n) = pooled div int n * int n" by (simp add: sum_list_triv)
  finally show ?thesis by simp
qed

lemma tied_cents_nonneg: "0 \<le> pooled \<Longrightarrow> 0 \<le> tied_cents pooled n i"
  by (simp add: tied_cents_def pos_imp_zdiv_nonneg_iff div_int_pos_iff)

lemma tied_cents_close: "\<bar>tied_cents pooled n i - tied_cents pooled n j\<bar> \<le> 1"
  by (simp add: tied_cents_def)

definition winner_record :: "settle_db \<Rightarrow> nat \<Rightarrow> int \<Rightarrow> league_member \<Rightarrow> settlement_winner" where
  "winner_record s off c m = \<lparr>sw_rank = of_nat (off + 1), sw_userId = lm_userId m, sw_stellarAddress = wallet_or_pending s m,
     sw_totalPoints = of_int (squad_points s m), sw_prizeAmount = of_int c / 100\<rparr>"

lemma group_winners_eq:
  "group_winners s off pooled tied =
     concat (map (\<lambda>(i, m). if tied_cents pooled (length tied) i > 0 then [winner_record s off (tied_cents pooled (length tied) i) m] else [])
       (enumerate 0 tied))"
  unfolding group_winners_def Let_def tied_cents_def winner_record_def by simp

text \<open>What a user wins.\<close>

definition prize_of :: "settlement_winner list \<Rightarrow> string \<Rightarrow> rat" where
  "prize_of ws u = (\<Sum>w\<leftarrow>filter (\<lambda>w. sw_userId w = u) ws. sw_prizeAmount w)"

lemma prize_of_append [simp]: "prize_of (a @ b) u = prize_of a u + prize_of b u"
  by (simp add: prize_of_def)

lemma prize_of_none: "(\<And>w. w \<in> set ws \<Longrightarrow> sw_userId w \<noteq> u) \<Longrightarrow> prize_of ws u = 0"
  by (simp add: prize_of_def)

lemma sum_list_cents: "(\<Sum>x\<leftarrow>xs. of_int (f x) / 100 :: rat) = of_int (\<Sum>x\<leftarrow>xs. f x) / 100"
  by (induction xs) (simp_all add: add_divide_distrib)

lemma sum_group:
  assumes "0 \<le> pooled" "tied \<noteq> []"
  shows "(\<Sum>w\<leftarrow>group_winners s off pooled tied. sw_prizeAmount w) = of_int pooled / 100"
proof -
  let ?n = "length tied" and ?c = "tied_cents pooled (length tied)"
  have pos: "0 \<le> ?c i" for i by (rule tied_cents_nonneg [OF assms(1)])
  have "(\<Sum>w\<leftarrow>concat (map (\<lambda>(i, m). if ?c i > 0 then [winner_record s off (?c i) m] else []) ps). sw_prizeAmount w) =
      sum_list (map (\<lambda>(i, m). of_int (?c i) / 100) ps)" for ps
    using pos by (induction ps) (auto simp: winner_record_def not_less intro: order_antisym)
  then have "(\<Sum>w\<leftarrow>group_winners s off pooled tied. sw_prizeAmount w) =
      sum_list (map (\<lambda>(i, m). of_int (?c i) / 100) (enumerate 0 tied))"
    by (simp add: group_winners_eq)
  also have "\<dots> = (\<Sum>i\<leftarrow>[0..<?n]. of_int (?c i) / 100)"
    using map_enumerate_fst [of "\<lambda>i. of_int (?c i) / 100 :: rat" 0 tied] by simp
  also have "\<dots> = of_int pooled / 100" using assms(2) tied_cents_sum [of ?n pooled] by (simp add: sum_list_cents)
  finally show ?thesis .
qed

lemma enumerate_memberD: "(i, m) \<in> set (enumerate k xs) \<Longrightarrow> m \<in> set xs"
  by (auto simp: in_set_enumerate_eq)

lemma group_winner_facts:
  assumes "w \<in> set (group_winners s off pooled tied)"
  shows "\<exists>m \<in> set tied. sw_userId w = lm_userId m \<and> sw_totalPoints w = of_int (squad_points s m) \<and> sw_rank w = of_nat (off + 1)
    \<and> 0 < sw_prizeAmount w"
  using assms by (fastforce simp: group_winners_eq winner_record_def in_set_enumerate_eq split: if_splits)

lemma prize_of_group:
  assumes "distinct (map lm_userId tied)" "0 \<le> pooled" "i < length tied"
  shows "prize_of (group_winners s off pooled tied) (lm_userId (tied ! i)) = of_int (tied_cents pooled (length tied) i) / 100"
proof -
  let ?c = "tied_cents pooled (length tied)"
  have pos: "0 \<le> ?c i" for i by (rule tied_cents_nonneg [OF assms(2)])
  have gen: "prize_of (concat (map (\<lambda>(i, m). if ?c i > 0 then [winner_record s off (?c i) m] else []) (enumerate k xs))) (lm_userId (xs ! i)) =
      of_int (?c (k + i)) / 100" if "distinct (map lm_userId xs)" "i < length xs" for k xs i
    using that
  proof (induction xs arbitrary: k i)
    case (Cons x xs)
    let ?hd = "if ?c k > 0 then [winner_record s off (?c k) x] else []"
    let ?tl = "concat (map (\<lambda>(i, m). if ?c i > 0 then [winner_record s off (?c i) m] else []) (enumerate (Suc k) xs))"
    show ?case
    proof (cases i)
      case 0
      have nx: "lm_userId x \<notin> lm_userId ` set xs" using Cons.prems(1) by simp
      have "sw_userId w \<noteq> lm_userId x" if w: "w \<in> set ?tl" for w
      proof -
        obtain a m where am: "(a, m) \<in> set (enumerate (Suc k) xs)" "w \<in> set (if ?c a > 0 then [winner_record s off (?c a) m] else [])" using w by auto
        then have "sw_userId w = lm_userId m" by (simp add: winner_record_def split: if_splits)
        moreover have "m \<in> set xs" by (rule enumerate_memberD [OF am(1)])
        ultimately show ?thesis using nx by (metis imageI)
      qed
      then have "prize_of ?tl (lm_userId x) = 0" by (rule prize_of_none)
      moreover have "prize_of ?hd (lm_userId x) = of_int (?c k) / 100" using pos [of k] by (auto simp: prize_of_def winner_record_def not_less)
      ultimately show ?thesis using 0 by simp
    next
      case (Suc j)
      then have "lm_userId x \<noteq> lm_userId (xs ! j)" using Cons.prems by (auto simp: image_iff)
      then have "prize_of ?hd (lm_userId (xs ! j)) = 0" by (intro prize_of_none) (auto simp: winner_record_def split: if_splits)
      then show ?thesis using Suc Cons.IH [of j "Suc k"] Cons.prems by simp
    qed
  qed simp
  show ?thesis using gen [OF assms(1,3), of 0] by (simp add: group_winners_eq)
qed

lemma prize_of_outside: "u \<notin> lm_userId ` set tied \<Longrightarrow> prize_of (group_winners s off pooled tied) u = 0"
  using group_winner_facts by (intro prize_of_none) fastforce

text \<open>The leading tie group of a sorted list.\<close>

definition tie_size :: "settle_db \<Rightarrow> league_member list \<Rightarrow> nat" where
  "tie_size s ms = length (takeWhile (\<lambda>m. squad_points s m = squad_points s (hd ms)) ms)"

lemma tie_group:
  assumes "ms \<noteq> []"
  shows "0 < tie_size s ms" "tie_size s ms \<le> length ms" "take (tie_size s ms) ms = takeWhile (\<lambda>m. squad_points s m = squad_points s (hd ms)) ms"
    "\<And>m. m \<in> set (take (tie_size s ms) ms) \<Longrightarrow> squad_points s m = squad_points s (hd ms)"
proof -
  show "0 < tie_size s ms" using assms by (cases ms) (simp_all add: tie_size_def)
  show "tie_size s ms \<le> length ms" by (simp add: tie_size_def length_takeWhile_le)
  show t: "take (tie_size s ms) ms = takeWhile (\<lambda>m. squad_points s m = squad_points s (hd ms)) ms"
    by (simp add: tie_size_def takeWhile_eq_take [symmetric])
  show "\<And>m. m \<in> set (take (tie_size s ms) ms) \<Longrightarrow> squad_points s m = squad_points s (hd ms)"
    unfolding t by (blast dest: set_takeWhileD)
qed

lemma tie_rest:
  assumes "sorted_wrt (\<lambda>a b. squad_points s b \<le> squad_points s a) ms" "m \<in> set (drop (tie_size s ms) ms)"
  shows "squad_points s m < squad_points s (hd ms)"
proof -
  let ?P = "\<lambda>m. squad_points s m = squad_points s (hd ms)"
  have ne: "ms \<noteq> []" using assms(2) by auto
  have d: "drop (tie_size s ms) ms = dropWhile ?P ms" by (simp add: tie_size_def dropWhile_eq_drop)
  have ne2: "dropWhile ?P ms \<noteq> []" using assms(2) d by (metis empty_iff list.set(1))
  let ?x = "hd (dropWhile ?P ms)"
  have "?x \<in> set ms" using ne2 by (metis hd_in_set set_dropWhileD)
  moreover have le: "squad_points s x \<le> squad_points s (hd ms)" if "x \<in> set ms" for x
    using assms(1) ne that by (cases ms) auto
  ultimately have "squad_points s ?x < squad_points s (hd ms)" using hd_dropWhile [OF ne2] by force
  moreover have "squad_points s m \<le> squad_points s ?x"
  proof -
    have "sorted_wrt (\<lambda>a b. squad_points s b \<le> squad_points s a) (dropWhile ?P ms)" using assms(1) d by (metis sorted_wrt_drop)
    then show ?thesis using assms(2) ne2 d by (cases "dropWhile ?P ms") auto
  qed
  ultimately show ?thesis by simp
qed

lemma pay_groups_step:
  assumes "ms \<noteq> []" "ps \<noteq> []"
  shows "pay_groups s off ms ps =
    (case nan_sum (map (map_option to_cents) (take (tie_size s ms) ps)) of
       None \<Rightarrow> [] | Some pooled \<Rightarrow> group_winners s off pooled (take (tie_size s ms) ms))
    @ pay_groups s (off + tie_size s ms) (drop (tie_size s ms) ms) (drop (tie_size s ms) ps)"
  unfolding tie_size_def using assms by (subst pay_groups.simps) (simp only: Let_def simp_thms if_False)

lemma pay_groups_Nil: "ms = [] \<or> ps = [] \<Longrightarrow> pay_groups s off ms ps = []"
  by (subst pay_groups.simps) auto

text \<open>Payouts in whole cents.\<close>

definition cent_amounts :: "int list \<Rightarrow> rat option list" where
  "cent_amounts vs = map (\<lambda>v. Some (of_int v / 100)) vs"

lemma cent_amounts_simps [simp]:
  "take n (cent_amounts vs) = cent_amounts (take n vs)" "drop n (cent_amounts vs) = cent_amounts (drop n vs)"
  "cent_amounts vs = [] \<longleftrightarrow> vs = []" "nan_sum (map (map_option to_cents) (cent_amounts vs)) = Some (sum_list vs)"
  by (simp_all add: cent_amounts_def take_map drop_map to_cents_def o_def)

lemma pay_groups_cents:
  assumes "ms \<noteq> []" "vs \<noteq> []"
  shows "pay_groups s off ms (cent_amounts vs) =
    group_winners s off (sum_list (take (tie_size s ms) vs)) (take (tie_size s ms) ms)
    @ pay_groups s (off + tie_size s ms) (drop (tie_size s ms) ms) (cent_amounts (drop (tie_size s ms) vs))"
  using pay_groups_step [of ms "cent_amounts vs" s off] assms by simp

lemma pay_groups_induct:
  assumes "\<And>off ms vs. ms = [] \<or> vs = [] \<Longrightarrow> P off ms vs"
    and "\<And>off ms vs. ms \<noteq> [] \<Longrightarrow> vs \<noteq> [] \<Longrightarrow> P (off + tie_size s ms) (drop (tie_size s ms) ms) (drop (tie_size s ms) vs) \<Longrightarrow> P off ms vs"
  shows "P off (ms :: league_member list) (vs :: int list)"
proof (induction "length ms" arbitrary: off ms vs rule: less_induct)
  case (less ms off vs)
  show ?case
  proof (cases "ms = [] \<or> vs = []")
    case False
    then have ne: "ms \<noteq> []" "vs \<noteq> []" by simp_all
    have "length (drop (tie_size s ms) ms) < length ms" using tie_group(1) [OF ne(1), of s] ne(1) by (simp add: length_greater_0_conv)
    then have "P (off + tie_size s ms) (drop (tie_size s ms) ms) (drop (tie_size s ms) vs)" by (rule less)
    then show ?thesis by (rule assms(2) [OF ne])
  qed (rule assms(1))
qed

lemma sum_pay_groups:
  assumes "\<forall>v \<in> set vs. 0 \<le> v" "length vs \<le> length ms"
  shows "(\<Sum>w\<leftarrow>pay_groups s off ms (cent_amounts vs). sw_prizeAmount w) = of_int (sum_list vs) / 100"
  using assms
proof (induction off ms vs rule: pay_groups_induct [where s = s])
  case (1 off ms vs)
  then have "vs = []" by auto
  then show ?case by (simp add: pay_groups_Nil)
next
  case (2 off ms vs)
  let ?n = "tie_size s ms"
  have nn: "0 \<le> sum_list (take ?n vs)" using "2.prems"(1) by (intro sum_list_nonneg) (auto dest: in_set_takeD)
  have ne: "take ?n ms \<noteq> []" using "2.hyps"(1) tie_group(1) [of ms s] by simp
  have "sum_list vs = sum_list (take ?n vs) + sum_list (drop ?n vs)" by (metis append_take_drop_id sum_list_append)
  moreover have "(\<Sum>w\<leftarrow>pay_groups s (off + ?n) (drop ?n ms) (cent_amounts (drop ?n vs)). sw_prizeAmount w) = of_int (sum_list (drop ?n vs)) / 100"
    using "2.prems" by (intro "2.IH") (auto dest: in_set_dropD)
  ultimately show ?case
    unfolding pay_groups_cents [OF "2.hyps"(1,2)] map_append sum_list_append sum_group [OF nn ne] by (simp add: add_divide_distrib)
qed

lemma pay_groups_facts:
  assumes "sorted_wrt (\<lambda>a b. squad_points s b \<le> squad_points s a) ms" "w \<in> set (pay_groups s off ms (cent_amounts vs))"
  shows "\<exists>m \<in> set ms. sw_userId w = lm_userId m \<and> sw_totalPoints w = of_int (squad_points s m) \<and> 0 < sw_prizeAmount w \<and>
    sw_rank w = of_nat (off + 1 + length (filter (\<lambda>x. squad_points s m < squad_points s x) ms))"
  using assms
proof (induction off ms vs rule: pay_groups_induct [where s = s])
  case (2 off ms vs)
  let ?n = "tie_size s ms" and ?less = "\<lambda>m x. squad_points s m < squad_points s x"
  consider "w \<in> set (group_winners s off (sum_list (take ?n vs)) (take ?n ms))"
    | "w \<in> set (pay_groups s (off + ?n) (drop ?n ms) (cent_amounts (drop ?n vs)))"
    using "2.prems"(2) by (auto simp: pay_groups_cents "2.hyps")
  then show ?case
  proof cases
    case 1
    then obtain m where m: "m \<in> set (take ?n ms)" "sw_userId w = lm_userId m" "sw_totalPoints w = of_int (squad_points s m)"
      "sw_rank w = of_nat (off + 1)" "0 < sw_prizeAmount w" using group_winner_facts by blast
    have "\<not> squad_points s m < squad_points s x" if "x \<in> set ms" for x
      using tie_group(4) [OF "2.hyps"(1) m(1)] "2.prems"(1) that by (cases ms) force+
    then have "filter (?less m) ms = []" by (simp add: filter_empty_conv)
    then show ?thesis using m by (intro bexI [of _ m]) (auto dest: in_set_takeD)
  next
    case w: 2
    have "sorted_wrt (\<lambda>a b. squad_points s b \<le> squad_points s a) (drop ?n ms)" using "2.prems"(1) by (rule sorted_wrt_drop)
    then obtain m where m: "m \<in> set (drop ?n ms)" "sw_userId w = lm_userId m" "sw_totalPoints w = of_int (squad_points s m)"
      "0 < sw_prizeAmount w" "sw_rank w = of_nat (off + ?n + 1 + length (filter (?less m) (drop ?n ms)))" using "2.IH" w by blast
    have "filter (?less m) (take ?n ms) = take ?n ms"
      using tie_group(4) [OF "2.hyps"(1)] tie_rest [OF "2.prems"(1) m(1)] by (simp add: filter_id_conv)
    then have "length (filter (?less m) ms) = ?n + length (filter (?less m) (drop ?n ms))"
      using tie_group(2) [OF "2.hyps"(1), of s] by (metis append_take_drop_id filter_append length_append length_take min.absorb2)
    then show ?thesis using m by (intro bexI [of _ m]) (auto dest: in_set_dropD)
  qed
qed (simp add: pay_groups_Nil)

lemma pay_groups_fair:
  assumes "sorted_wrt (\<lambda>a b. squad_points s b \<le> squad_points s a) ms" "distinct (map lm_userId ms)" "\<forall>v \<in> set vs. 0 \<le> v"
    and "a \<in> set ms" "b \<in> set ms" "squad_points s a = squad_points s b"
  shows "\<bar>prize_of (pay_groups s off ms (cent_amounts vs)) (lm_userId a) - prize_of (pay_groups s off ms (cent_amounts vs)) (lm_userId b)\<bar> \<le> 1 / 100"
  using assms
proof (induction off ms vs rule: pay_groups_induct [where s = s])
  case (1 off ms vs)
  then show ?case by (simp add: pay_groups_Nil prize_of_def)
next
  case (2 off ms vs)
  let ?n = "tie_size s ms"
  let ?G = "group_winners s off (sum_list (take ?n vs)) (take ?n ms)" and ?R = "pay_groups s (off + ?n) (drop ?n ms) (cent_amounts (drop ?n vs))"
  have split: "distinct (map lm_userId (take ?n ms))" "distinct (map lm_userId (drop ?n ms))"
    "lm_userId ` set (take ?n ms) \<inter> lm_userId ` set (drop ?n ms) = {}"
    using "2.prems"(2) by (metis append_take_drop_id distinct_append map_append set_map)+
  have sorted: "sorted_wrt (\<lambda>a b. squad_points s b \<le> squad_points s a) (drop ?n ms)" using "2.prems"(1) by (rule sorted_wrt_drop)
  have rest: "prize_of ?R (lm_userId x) = 0" if "x \<in> set (take ?n ms)" for x
    using that split(3) pay_groups_facts [OF sorted] by (intro prize_of_none) (metis disjoint_iff imageI)
  have head: "prize_of ?G (lm_userId x) = 0" if "x \<in> set (drop ?n ms)" for x
    using that split(3) by (intro prize_of_outside) (metis disjoint_iff imageI)
  have ab: "a \<in> set (take ?n ms) \<and> b \<in> set (take ?n ms) \<or> a \<in> set (drop ?n ms) \<and> b \<in> set (drop ?n ms)"
  proof -
    have "x \<in> set (take ?n ms) \<or> x \<in> set (drop ?n ms)" if "x \<in> set ms" for x using that by (metis Un_iff append_take_drop_id set_append)
    then show ?thesis using "2.prems"(4-6) tie_group(4) [OF "2.hyps"(1)] tie_rest [OF "2.prems"(1)] by (metis less_irrefl)
  qed
  then show ?case
  proof
    assume in_tie: "a \<in> set (take ?n ms) \<and> b \<in> set (take ?n ms)"
    have nn: "0 \<le> sum_list (take ?n vs)" using "2.prems"(3) by (intro sum_list_nonneg) (auto dest: in_set_takeD)
    obtain i j where ij: "i < length (take ?n ms)" "a = take ?n ms ! i" "j < length (take ?n ms)" "b = take ?n ms ! j"
      using in_tie by (metis in_set_conv_nth)
    let ?c = "tied_cents (sum_list (take ?n vs)) (length (take ?n ms))"
    have ga: "prize_of ?G (lm_userId a) = of_int (?c i) / 100" unfolding ij(2) by (rule prize_of_group [OF split(1) nn ij(1)])
    have gb: "prize_of ?G (lm_userId b) = of_int (?c j) / 100" unfolding ij(4) by (rule prize_of_group [OF split(1) nn ij(3)])
    have "\<bar>of_int (?c i) / 100 - of_int (?c j) / 100 :: rat\<bar> \<le> 1 / 100"
      using tied_cents_close [of "sum_list (take ?n vs)" "length (take ?n ms)" i j] by (simp add: diff_divide_distrib [symmetric])
    then show ?thesis using in_tie rest unfolding pay_groups_cents [OF "2.hyps"(1,2)] prize_of_append ga gb by simp
  next
    assume in_rest: "a \<in> set (drop ?n ms) \<and> b \<in> set (drop ?n ms)"
    then have "\<bar>prize_of ?R (lm_userId a) - prize_of ?R (lm_userId b)\<bar> \<le> 1 / 100"
      using "2.prems"(3,6) by (intro "2.IH" [OF sorted split(2)]) (auto dest: in_set_dropD)
    then show ?thesis using in_rest head by (simp add: pay_groups_cents "2.hyps")
  qed
qed

section \<open>The plan is exact and fair\<close>

interpretation settlement_table: comparator "settlement_order s"
  unfolding settlement_order_def by (intro comparator_intros)

lemma settlement_sorted: "sorted_wrt (\<lambda>a b. squad_points s b \<le> squad_points s a) (js_sort (settlement_order s) ms)"
proof -
  have "squad_points s b \<le> squad_points s a" if "settlement_order s a b \<le> 0" for a b
    using that by (auto simp: settlement_order_def js_or_def desc_def split: if_splits)
  then show ?thesis by (rule sorted_wrt_mono_rel [rotated, OF settlement_table.sorted_js_sort])
qed

definition plan_options :: "league \<Rightarrow> prize_options" where
  "plan_options league = \<lparr>opt_preset = Some (lg_payoutPreset league), opt_customSplitsBps = Some (lg_payoutSplitsBps league)\<rparr>"

lemma length_cut_splits: "0 < cnt \<Longrightarrow> int (length (cut_splits cnt sp)) \<le> cnt"
  by (simp add: cut_splits_def scale_tiers_def js_slice_def)

lemma payouts_in_cents:
  assumes ok: "calculatePrizeDistribution (Some (of_nat n)) fee opts = Inr d" and "0 < n" "\<not> zero_weight_cut opts (int n)"
  shows "\<exists>vs. pd_payouts d = cent_amounts vs \<and> (\<forall>v \<in> set vs. 0 \<le> v) \<and> length vs \<le> n \<and> of_int (sum_list vs) / 100 = pd_prizePool d \<and>
    pd_platformFee d + pd_prizePool d = pd_grossTotal d"
  using ok
proof (rule calculatePrizeDistribution_okE)
  fix cnt feeC feeP pool sp
  assume d: "0 \<le> cnt" "0 \<le> pool" "cnt = 0 \<Longrightarrow> pool = 0" "preset_splits opts cnt = Inr sp" "pd_participantCount d = cnt"
    "pd_splitsBps d = cut_splits cnt sp" "pd_entryFee d = of_int feeC / 100" "pd_grossTotal d = of_int (cnt * feeC) / 100"
    "pd_platformFee d = of_int feeP / 100" "pool = cnt * feeC - feeP" "pd_prizePool d = of_int pool / 100"
    "pd_payouts d = map cents_to_amount (payouts_cents pool (cut_splits cnt sp))"
  have cnt: "cnt = int n"
    using ok d(5) by (auto simp: calculatePrizeDistribution_def Let_def split: option.splits if_splits sum.splits)
  have wf: "splits_wf (cut_splits cnt sp)" using cut_splits_cases [OF d(4,1)] assms(3) cnt by simp
  have ne: "cut_splits cnt sp \<noteq> []" using preset_splits_nonempty [OF d(4)] assms(2) cnt by simp
  note pay = payouts_cents_wf [OF wf d(2)]
  define vs where "vs = map the (payouts_cents pool (cut_splits cnt sp))"
  have some: "payouts_cents pool (cut_splits cnt sp) = map Some vs"
    unfolding vs_def map_map by (rule map_idI [symmetric]) (use pay(2) ne in force)
  have "sum_list vs = pool" using pay(1) ne unfolding some by simp
  moreover have "\<forall>v \<in> set vs. 0 \<le> v" using pay(2) ne unfolding some by force
  moreover have "length vs \<le> n"
    using length_cut_splits [of cnt sp] assms(2) cnt by (simp add: vs_def payouts_cents_def)
  moreover have "pd_payouts d = cent_amounts vs" unfolding d(12) some by (simp add: cent_amounts_def)
  ultimately show ?thesis using d by (intro exI [of _ vs]) (simp add: diff_divide_distrib)
qed

lemma plan_of_okE:
  assumes "plan_of env as_number s league = Inr plan"
  obtains d where "calculatePrizeDistribution (Some (of_nat (length (paid_members as_number s league)))) (as_number (lg_entryFee league)) (plan_options league) = Inr d"
    "pl_winners plan = pay_groups s 0 (js_sort (settlement_order s) (paid_members as_number s league)) (pd_payouts d)"
    "pl_netPrizePool plan = pd_prizePool d" "pl_platformFee plan = pd_platformFee d" "pl_grossPool plan = pd_grossTotal d"
    "pl_canSettle plan"
  using assms unfolding plan_of_def Let_def plan_options_def [symmetric] by (auto split: sum.splits if_splits)

lemma distinct_map_settlement_sort: "distinct (map f xs) \<Longrightarrow> distinct (map f (js_sort c xs))"
  by (metis distinct_js_sort distinct_map set_js_sort)

lemma plan_cents:
  assumes "prepareSettlement env as_number s L u = Inr plan" and "pl_canSettle plan"
    and "findLeague (st_leagues s) L = Some league"
    and "\<not> zero_weight_cut (plan_options league) (int (length (paid_members as_number s league)))"
  shows "\<exists>vs. pl_winners plan = pay_groups s 0 (js_sort (settlement_order s) (paid_members as_number s league)) (cent_amounts vs) \<and>
    (\<forall>v \<in> set vs. 0 \<le> v) \<and> (\<Sum>w\<leftarrow>pl_winners plan. sw_prizeAmount w) = pl_netPrizePool plan \<and>
    pl_platformFee plan + pl_netPrizePool plan = pl_grossPool plan"
proof -
  let ?ms = "paid_members as_number s league" and ?sorted = "js_sort (settlement_order s) (paid_members as_number s league)"
  have ne: "?ms \<noteq> []" and plan: "plan_of env as_number s league = Inr plan"
    using assms(1-3) by (auto simp: prepareSettlement_def no_plan_def split: if_splits option.splits)
  obtain d where d: "calculatePrizeDistribution (Some (of_nat (length ?ms))) (as_number (lg_entryFee league)) (plan_options league) = Inr d"
    "pl_winners plan = pay_groups s 0 ?sorted (pd_payouts d)" "pl_netPrizePool plan = pd_prizePool d"
    "pl_platformFee plan = pd_platformFee d" "pl_grossPool plan = pd_grossTotal d" using plan by (rule plan_of_okE)
  obtain vs where vs: "pd_payouts d = cent_amounts vs" "\<forall>v \<in> set vs. 0 \<le> v" "length vs \<le> length ?ms"
    "of_int (sum_list vs) / 100 = pd_prizePool d" "pd_platformFee d + pd_prizePool d = pd_grossTotal d"
    using payouts_in_cents [OF d(1) _ assms(4)] ne by auto
  have "(\<Sum>w\<leftarrow>pl_winners plan. sw_prizeAmount w) = pl_netPrizePool plan"
    unfolding d(2,3) vs(1) using sum_pay_groups [OF vs(2), of ?sorted] vs(3,4) by simp
  then show ?thesis using d vs by (intro exI [of _ vs]) simp
qed

text \<open>
  C2. The settlement plan pays out the pool to the cent and treats ties alike: unless the zero-weight case of the prize
  calculator applies, the prizes add up to the net pool, pool and platform fee to the gross; every winner is a paid
  member ranked behind exactly those with more points; and the prizes of members with equal points, also of those who
  get nothing, differ by one cent at most.
\<close>
theorem settlement_plan_exact_and_fair:
  assumes "prepareSettlement env as_number s L u = Inr plan" and "pl_canSettle plan"
    and "findLeague (st_leagues s) L = Some league" and "distinct (map lm_userId (league_rows (st_fin s) L))"
    and "\<not> zero_weight_cut (plan_options league) (int (length (paid_members as_number s league)))"
  shows "(\<Sum>w\<leftarrow>pl_winners plan. sw_prizeAmount w) = pl_netPrizePool plan
    \<and> pl_platformFee plan + pl_netPrizePool plan = pl_grossPool plan
    \<and> (\<forall>w \<in> set (pl_winners plan). \<exists>m \<in> set (paid_members as_number s league). sw_userId w = lm_userId m \<and> 0 < sw_prizeAmount w \<and>
         sw_rank w = of_nat (1 + length (filter (\<lambda>x. squad_points s m < squad_points s x) (paid_members as_number s league))))
    \<and> (\<forall>a \<in> set (paid_members as_number s league). \<forall>b \<in> set (paid_members as_number s league).
         squad_points s a = squad_points s b \<longrightarrow> \<bar>prize_of (pl_winners plan) (lm_userId a) - prize_of (pl_winners plan) (lm_userId b)\<bar> \<le> 1 / 100)"
proof -
  let ?ms = "paid_members as_number s league" and ?sorted = "js_sort (settlement_order s) (paid_members as_number s league)"
  have L: "lg_id league = L" by (rule findLeague_id [OF assms(3)])
  obtain vs where vs: "pl_winners plan = pay_groups s 0 ?sorted (cent_amounts vs)" "\<forall>v \<in> set vs. 0 \<le> v"
    "(\<Sum>w\<leftarrow>pl_winners plan. sw_prizeAmount w) = pl_netPrizePool plan" "pl_platformFee plan + pl_netPrizePool plan = pl_grossPool plan"
    using plan_cents [OF assms(1-3,5)] by blast
  have dist: "distinct (map lm_userId ?sorted)"
    using assms(4) L by (intro distinct_map_settlement_sort) (simp add: paid_members_def distinct_map_filter)
  have "\<exists>m \<in> set ?ms. sw_userId w = lm_userId m \<and> 0 < sw_prizeAmount w \<and>
      sw_rank w = of_nat (1 + length (filter (\<lambda>x. squad_points s m < squad_points s x) ?ms))" if "w \<in> set (pl_winners plan)" for w
    using pay_groups_facts [OF settlement_sorted, of w s 0] that unfolding vs(1) by fastforce
  moreover have "\<bar>prize_of (pl_winners plan) (lm_userId a) - prize_of (pl_winners plan) (lm_userId b)\<bar> \<le> 1 / 100"
    if "a \<in> set ?ms" "b \<in> set ?ms" "squad_points s a = squad_points s b" for a b
    unfolding vs(1) using that by (intro pay_groups_fair [OF settlement_sorted dist vs(2)]) simp_all
  ultimately show ?thesis using vs(3,4) by simp
qed

section \<open>A settlement is recorded once\<close>

definition settlement_rows_of :: "settle_db \<Rightarrow> string \<Rightarrow> ledger_tx list" where
  "settlement_rows_of s L = filter (\<lambda>t. tx_leagueId t = Some L \<and> tx_type t \<in> {PRIZE_PAYOUT, PLATFORM_FEE}) (fd_transactions (st_fin s))"

definition completed :: "settle_db \<Rightarrow> string \<Rightarrow> bool" where
  "completed s L \<longleftrightarrow> (\<forall>l \<in> set (ld_leagues (st_leagues s)). lg_id l = L \<longrightarrow> lg_status l = COMPLETED)"

definition ledger_ok :: "settle_db \<Rightarrow> bool" where
  "ledger_ok s \<longleftrightarrow> (\<forall>L. settlement_rows_of s L = [] \<or>
     completed s L \<and> (\<exists>now admin plan h seq. settlement_rows_of s L = settlement_rows now L admin plan h seq))"

lemma settlement_rows_filter:
  "filter (\<lambda>t. tx_leagueId t = Some M \<and> tx_type t \<in> {PRIZE_PAYOUT, PLATFORM_FEE}) (settlement_rows now L admin plan h seq) =
     (if M = L then settlement_rows now L admin plan h seq else [])"
  by (auto simp: settlement_rows_def settlement_row_def filter_map o_def)

lemma commit_completed: "completed s L \<Longrightarrow> commitSettlement now L admin plan h seq s = s"
  by (auto simp: commitSettlement_def completed_def list_ex_iff)

lemma commit_rows_of:
  assumes "\<not> completed s L"
  shows "settlement_rows_of (commitSettlement now L admin plan h seq s) M =
      settlement_rows_of s M @ (if M = L then settlement_rows now L admin plan h seq else [])"
    and "completed (commitSettlement now L admin plan h seq s) M \<longleftrightarrow> M = L \<or> completed s M"
proof -
  have c: "list_ex (\<lambda>l. lg_id l = L \<and> lg_status l \<noteq> COMPLETED) (ld_leagues (st_leagues s))"
    using assms by (auto simp: completed_def list_ex_iff)
  show "settlement_rows_of (commitSettlement now L admin plan h seq s) M =
      settlement_rows_of s M @ (if M = L then settlement_rows now L admin plan h seq else [])"
    unfolding settlement_rows_of_def using c settlement_rows_filter [of M now L admin plan h seq] by (simp add: commitSettlement_def Let_def)
  show "completed (commitSettlement now L admin plan h seq s) M \<longleftrightarrow> M = L \<or> completed s M"
    using c by (auto simp: commitSettlement_def Let_def completed_def)
qed

lemma ledger_commit:
  assumes "ledger_ok s"
  shows "ledger_ok (commitSettlement now L admin plan h seq s)"
proof (cases "completed s L")
  case True
  then show ?thesis using assms by (simp add: commit_completed)
next
  case False
  then have "settlement_rows_of s L = []" using assms by (auto simp: ledger_ok_def)
  then have new: "settlement_rows_of (commitSettlement now L admin plan h seq s) L = settlement_rows now L admin plan h seq"
    by (simp add: commit_rows_of(1) [OF False])
  have other: "settlement_rows_of (commitSettlement now L admin plan h seq s) M = settlement_rows_of s M" if "M \<noteq> L" for M
    using that by (simp add: commit_rows_of(1) [OF False])
  show ?thesis unfolding ledger_ok_def
  proof
    fix M
    show "settlement_rows_of (commitSettlement now L admin plan h seq s) M = [] \<or>
      completed (commitSettlement now L admin plan h seq s) M \<and>
      (\<exists>now' admin' plan' h' seq'. settlement_rows_of (commitSettlement now L admin plan h seq s) M = settlement_rows now' M admin' plan' h' seq')"
    proof (cases "M = L")
      case True
      then show ?thesis using new commit_rows_of(2) [OF False, of now admin plan h seq L] by blast
    next
      case M: False
      then show ?thesis using assms commit_rows_of(2) [OF False, of now admin plan h seq M] unfolding ledger_ok_def other [OF M] by blast
    qed
  qed
qed

lemma ledger_recover: "ledger_ok s \<Longrightarrow> ledger_ok (snd (recoverSettlement env now j s))"
  by (auto simp: recoverSettlement_def ledger_commit split: sum.splits prod.splits if_splits)

lemma ledger_journal: "ledger_ok s \<Longrightarrow> ledger_ok (snd (journal_all now L admin plan ps s))"
proof (induction ps arbitrary: s)
  case (Cons p ps)
  show ?case
  proof (cases "beforeSubmit now L admin plan p s")
    case (Inr s1)
    then have "st_fin s1 = st_fin s" by (auto simp: beforeSubmit_def split_beta Let_def split: option.splits if_splits)
    then have "ledger_ok s1" using Cons.prems by (simp add: ledger_ok_def settlement_rows_of_def completed_def)
    then show ?thesis using Cons.IH Inr by simp
  qed (use Cons.prems in simp)
qed simp

lemma ledger_dispatch:
  assumes "ledger_ok s"
  shows "ledger_ok (snd (dispatch_settlement env now L admin plan cid s))"
proof -
  define a where "a = sv_settle env cid (map (\<lambda>w. (sw_stellarAddress w, toStroops (sw_prizeAmount w))) (pl_winners plan))
            (toStroops (pl_platformFee plan)) (pl_distributionBps plan)"
  define j where "j = journal_all now L admin plan (fst a) s"
  have ok: "ledger_ok (snd j)" unfolding j_def by (rule ledger_journal [OF assms])
  have "ledger_ok (snd j\<lparr>st_tracked := t\<rparr>)" for t using ok by (simp add: ledger_ok_def settlement_rows_of_def completed_def)
  then show ?thesis using ok ledger_commit [OF ok]
    unfolding dispatch_settlement_def a_def [symmetric] Let_def split_beta j_def [symmetric]
    by (auto split: settle_answer.splits option.splits)
qed

lemma ledger_execute: "ledger_ok s \<Longrightarrow> ledger_ok (snd (executeSettlement env as_number now L admin s))"
  by (auto simp: executeSettlement_def ledger_recover ledger_dispatch split: option.splits sum.splits)

lemma ledger_recover_all: "ledger_ok s \<Longrightarrow> ledger_ok (snd (recoverPendingSettlements env now s))"
proof -
  have one: "ledger_ok (snd (recover_one env now p j))" if "ledger_ok (snd p)" for p j
    using that ledger_recover [OF that, of env now j] by (auto simp: recover_one_def split_beta Let_def split: sum.splits prod.splits)
  have "ledger_ok (snd (foldl (recover_one env now) p js))" if "ledger_ok (snd p)" for p js
    using that by (induction js arbitrary: p) (simp_all add: one)
  then show "ledger_ok s \<Longrightarrow> ?thesis" by (simp add: recoverPendingSettlements_def)
qed

datatype settle_op = Execute int string string | RecoverAll int

fun apply_settle_op :: "settle_env \<Rightarrow> (rat \<Rightarrow> rat option) \<Rightarrow> settle_op \<Rightarrow> settle_db \<Rightarrow> settle_db" where
  "apply_settle_op env as_number (Execute now L admin) s = snd (executeSettlement env as_number now L admin s)"
| "apply_settle_op env as_number (RecoverAll now) s = snd (recoverPendingSettlements env now s)"

text \<open>
  C3. Prizes are recorded once: whatever administrators execute and the recovery sweeps over, and whatever the network
  answers, the ledger holds for each league either no settlement or the rows of one plan, one per winner and one
  platform fee, and then the league is completed.
\<close>
theorem settlement_recorded_once:
  assumes "ledger_ok s"
  shows "settlement_rows_of (foldl (\<lambda>s op. apply_settle_op env as_number op s) s ops) L = [] \<or>
    completed (foldl (\<lambda>s op. apply_settle_op env as_number op s) s ops) L \<and>
    (\<exists>now admin plan h seq. settlement_rows_of (foldl (\<lambda>s op. apply_settle_op env as_number op s) s ops) L =
       settlement_rows now L admin plan h seq)"
proof -
  have step: "ledger_ok (apply_settle_op env as_number op s)" if "ledger_ok s" for op s
    using that by (cases op) (simp_all add: ledger_execute ledger_recover_all)
  have "ledger_ok (foldl (\<lambda>s op. apply_settle_op env as_number op s) s ops)"
    using assms by (induction ops arbitrary: s) (simp_all add: step)
  then show ?thesis by (simp add: ledger_ok_def)
qed

section \<open>When no settlement is possible\<close>

text \<open>
  C39. With the decimal objects the database client returns no league is ever settled: the fee check of the prize
  calculator wants a number, so as long as no settlement of the league was journaled, executing one is an error and
  changes nothing.
\<close>
theorem no_settlement_with_decimals:
  assumes "\<forall>j \<in> set (st_journal s). jr_settlementKey j \<noteq> L"
  shows "isl (fst (executeSettlement env (\<lambda>_. None) now L admin s)) \<and> snd (executeSettlement env (\<lambda>_. None) now L admin s) = s"
proof -
  have j: "find (\<lambda>j. jr_settlementKey j = L) (st_journal s) = None" using assms by (simp add: find_None_iff)
  have plan: "\<exists>e. plan_of env (\<lambda>_. None) s league = Inl e" for league
    by (auto simp: plan_of_def Let_def calculatePrizeDistribution_def parsePreset_def)
  have no: "\<not> pl_canSettle p" if p: "prepareSettlement env (\<lambda>_. None) s L u = Inr p" for u p
  proof (cases "findLeague (st_leagues s) L")
    case (Some league)
    obtain e where "plan_of env (\<lambda>_. None) s league = Inl e" using plan by blast
    then show ?thesis using p by (auto simp: prepareSettlement_def no_plan_def Some split: if_splits option.splits)
  qed (use p in \<open>simp add: prepareSettlement_def\<close>)
  show ?thesis by (auto simp: executeSettlement_def j isl_def split: option.splits sum.splits dest: no)
qed

lemma completed_keeps_rows:
  assumes "completed s L"
  shows "completed (commitSettlement now M admin plan h seq s) L \<and>
    settlement_rows_of (commitSettlement now M admin plan h seq s) L = settlement_rows_of s L"
proof (cases "completed s M")
  case True
  then show ?thesis using assms by (simp add: commit_completed)
next
  case False
  then have "M \<noteq> L" using assms by auto
  then show ?thesis using assms commit_rows_of [OF False] by auto
qed

lemma recover_all_keeps_rows:
  assumes "completed s L"
  shows "settlement_rows_of (snd (recoverPendingSettlements env now s)) L = settlement_rows_of s L"
proof -
  have one: "completed (snd (recover_one env now p j)) L \<and> settlement_rows_of (snd (recover_one env now p j)) L = settlement_rows_of (snd p) L"
    if "completed (snd p) L" for p j
    using that completed_keeps_rows [OF that]
    by (auto simp: recover_one_def recoverSettlement_def split_beta Let_def split: sum.splits prod.splits if_splits)
  have "settlement_rows_of (snd (foldl (recover_one env now) p js)) L = settlement_rows_of (snd p) L" if "completed (snd p) L" for p js
    using that by (induction js arbitrary: p) (simp_all add: one)
  then show ?thesis using assms by (simp add: recoverPendingSettlements_def)
qed

text \<open>
  C40. The end of a season shuts the settlement out: the handler of the last gameweek marks the league as completed before
  anyone can settle it, and from then on executing the settlement is refused as already done and the recovery records
  nothing for the league, not even a settlement that the chain has paid.
\<close>
theorem season_end_blocks_settlement:
  assumes "keys_ok (st_leagues s)" "distinct (map lg_id (ld_leagues (st_leagues s)))" "l \<in> set (ld_leagues (st_leagues s))"
    "lg_status l = ACTIVE" "lg_startGameweekId l \<le> gw" "lg_endGameweekId l = gw"
  shows "\<exists>db' s1. handleSettleLeagues (st_leagues s) gw = (db', None) \<and> s1 = s\<lparr>st_fin := (st_fin s)\<lparr>fd_leagues := db'\<rparr>\<rparr> \<and>
    executeSettlement env as_number now (lg_id l) admin s1 = (Inl AlreadyExecuted, s1) \<and>
    settlement_rows_of (snd (recoverPendingSettlements env now s1)) (lg_id l) = settlement_rows_of s (lg_id l)"
proof -
  let ?db = "st_leagues s"
  let ?ids = "lg_id ` set (filter (\<lambda>l. lg_endGameweekId l = gw) (leagues_in_play ?db gw))"
  obtain db' where h: "handleSettleLeagues ?db gw = (db', None)" "ld_leagues db' = map (complete_row ?ids) (ld_leagues ?db)"
    using settle_leagues_ok [OF assms(1,2) leagues_in_play_ok(1) [OF assms(2), of gw] leagues_in_play_ok(2) [OF assms(2), of _ gw], of gw]
    unfolding handleSettleLeagues_def by blast
  let ?s1 = "s\<lparr>st_fin := (st_fin s)\<lparr>fd_leagues := db'\<rparr>\<rparr>"
  have l: "complete_row ?ids l = l\<lparr>lg_status := COMPLETED\<rparr>"
    using assms(3-6) by (simp add: leagues_in_play_def complete_row_def)
  have "findLeague db' (lg_id (complete_row ?ids l)) = Some (complete_row ?ids l)"
    using assms(2,3) by (intro findLeague_distinct) (simp_all add: h(2) o_def)
  then have "executeSettlement env as_number now (lg_id l) admin ?s1 = (Inl AlreadyExecuted, ?s1)"
    unfolding l by (simp add: executeSettlement_def)
  moreover have "lg_status (complete_row ?ids x) = COMPLETED" if "x \<in> set (ld_leagues ?db)" "lg_id x = lg_id l" for x
  proof -
    have "x = l" using that assms(2,3) by (auto simp: distinct_map dest: inj_onD)
    then show ?thesis using l by simp
  qed
  then have "completed ?s1 (lg_id l)" by (auto simp: completed_def h(2))
  then have "settlement_rows_of (snd (recoverPendingSettlements env now ?s1)) (lg_id l) = settlement_rows_of s (lg_id l)"
    using recover_all_keeps_rows [of ?s1] by (simp add: settlement_rows_of_def)
  ultimately show ?thesis using h(1) by blast
qed

section \<open>An executed settlement balances\<close>

lemma journal_keeps_fin: "st_fin (snd (journal_all now L admin plan ps s)) = st_fin s"
proof (induction ps arbitrary: s)
  case (Cons p ps)
  show ?case
  proof (cases "beforeSubmit now L admin plan p s")
    case (Inr s1)
    then have "st_fin s1 = st_fin s" by (auto simp: beforeSubmit_def split_beta Let_def split: option.splits if_splits)
    then show ?thesis using Cons.IH Inr by simp
  qed simp
qed simp

lemma dispatch_success:
  assumes "dispatch_settlement env now L admin plan cid s = (Inr rep, s')"
  shows "\<exists>s1 h seq. st_fin s1 = st_fin s \<and> s' = commitSettlement now L admin plan h seq s1 \<and> rep = settlement_report_of L plan h seq"
proof -
  define a where "a = sv_settle env cid (map (\<lambda>w. (sw_stellarAddress w, toStroops (sw_prizeAmount w))) (pl_winners plan))
            (toStroops (pl_platformFee plan)) (pl_distributionBps plan)"
  define j where "j = journal_all now L admin plan (fst a) s"
  have "st_fin (snd j) = st_fin s" unfolding j_def by (rule journal_keeps_fin)
  then show ?thesis using assms
    unfolding dispatch_settlement_def a_def [symmetric] Let_def split_beta j_def [symmetric]
    by (auto split: settle_answer.splits option.splits if_splits)
qed

lemma recover_success:
  assumes "recoverSettlement env now j s = (Inr rep, s')"
  shows "\<exists>seq. s' = commitSettlement now (jr_leagueId j) (jr_adminUserId j) (jr_plan j) (jr_txHash j) seq s \<and>
    rep = settlement_report_of (jr_leagueId j) (jr_plan j) (jr_txHash j) seq"
  using assms by (auto simp: recoverSettlement_def split: sum.splits prod.splits if_splits)

text \<open>The plan that is paid and the administrator it is paid for: those of the journal, or new ones.\<close>

definition settles :: "settle_env \<Rightarrow> (rat \<Rightarrow> rat option) \<Rightarrow> settle_db \<Rightarrow> string \<Rightarrow> string \<Rightarrow> league \<Rightarrow> settlement_plan \<Rightarrow> string \<Rightarrow> bool" where
  "settles env as_number s L admin league plan payer \<longleftrightarrow>
     (case find (\<lambda>j. jr_settlementKey j = L) (st_journal s) of
        Some j \<Rightarrow> plan = jr_plan j \<and> payer = jr_adminUserId j
      | None \<Rightarrow> payer = admin \<and> prepareSettlement env as_number s L (Some (lg_creatorId league)) = Inr plan \<and> pl_canSettle plan)"

lemma execute_success:
  assumes "executeSettlement env as_number now L admin s = (Inr rep, s')" and "findLeague (st_leagues s) L = Some league"
    and "\<forall>j \<in> set (st_journal s). jr_leagueId j = jr_settlementKey j"
  shows "lg_status league \<noteq> COMPLETED \<and> (\<exists>plan payer h seq s1. settles env as_number s L admin league plan payer \<and> st_fin s1 = st_fin s \<and>
    s' = commitSettlement now L payer plan h seq s1 \<and> rep = settlement_report_of L plan h seq)"
proof (cases "find (\<lambda>j. jr_settlementKey j = L) (st_journal s)")
  case None
  then obtain plan cid where "prepareSettlement env as_number s L (Some (lg_creatorId league)) = Inr plan" "pl_canSettle plan"
      "dispatch_settlement env now L admin plan cid s = (Inr rep, s')" "lg_status league \<noteq> COMPLETED"
    using assms(1) by (auto simp: executeSettlement_def assms(2) split: option.splits sum.splits if_splits)
  then show ?thesis using dispatch_success [of env now L admin plan cid s rep s'] by (fastforce simp: settles_def None)
next
  case (Some j)
  then have run: "recoverSettlement env now j s = (Inr rep, s')" "lg_status league \<noteq> COMPLETED"
    using assms(1) by (auto simp: executeSettlement_def assms(2) split: if_splits)
  have "j \<in> set (st_journal s)" "jr_settlementKey j = L" using Some by (auto dest: find_SomeD)
  then have "jr_leagueId j = L" using assms(3) by auto
  with recover_success [OF run(1)] obtain seq where "s' = commitSettlement now L (jr_adminUserId j) (jr_plan j) (jr_txHash j) seq s"
    "rep = settlement_report_of L (jr_plan j) (jr_txHash j) seq" by auto
  moreover have "settles env as_number s L admin league (jr_plan j) (jr_adminUserId j)" by (simp add: settles_def Some)
  ultimately show ?thesis using run(2) by (intro conjI exI) (rule refl | assumption)+
qed

lemma gross_of_count:
  "calculatePrizeDistribution (Some (of_nat n)) fee opts = Inr d \<Longrightarrow>
     \<exists>f. fee = Some f \<and> pd_grossTotal d = of_nat n * (of_int (js_round (f * 100)) / 100)"
  by (auto simp: calculatePrizeDistribution_def Let_def split: option.splits if_splits sum.splits)

lemma plan_gross:
  assumes "prepareSettlement env as_number s L u = Inr plan" "pl_canSettle plan" "findLeague (st_leagues s) L = Some league"
  shows "\<exists>f. as_number (lg_entryFee league) = Some f \<and>
    pl_grossPool plan = of_nat (length (paid_members as_number s league)) * (of_int (js_round (f * 100)) / 100)"
proof -
  have "plan_of env as_number s league = Inr plan"
    using assms by (auto simp: prepareSettlement_def no_plan_def split: if_splits option.splits)
  then obtain d where "calculatePrizeDistribution (Some (of_nat (length (paid_members as_number s league)))) (as_number (lg_entryFee league)) (plan_options league) = Inr d"
    "pl_grossPool plan = pd_grossTotal d" by (rule plan_of_okE)
  then show ?thesis using gross_of_count by metis
qed

text \<open>What a row of the ledger says, without its time and memo.\<close>

definition row_entry :: "ledger_tx \<Rightarrow> string \<times> transaction_type \<times> rat \<times> string option \<times> string option \<times> tx_status" where
  "row_entry t = (tx_userId t, tx_type t, tx_amount t, tx_leagueId t, tx_stellarTxHash t, tx_status t)"

text \<open>
  C4. A settlement that succeeds completes the league and adds one confirmed row for every winner of the plan, under the
  winner's own name and with his prize, and one platform fee for the administrator, all with the reported hash. The
  plan is that of the journal if a settlement of the league was journaled before, and then the administrator is the
  one who started it. Otherwise it is a new plan, and the rows add up to one entry fee per paid member, unless the
  zero-weight case of the prize calculator applies.
\<close>
theorem executed_settlement_balances:
  assumes "executeSettlement env as_number now L admin s = (Inr rep, s')" and "findLeague (st_leagues s) L = Some league"
    and "\<forall>j \<in> set (st_journal s). jr_leagueId j = jr_settlementKey j"
    and "\<not> zero_weight_cut (plan_options league) (int (length (paid_members as_number s league)))"
  shows "\<exists>plan payer rows. settles env as_number s L admin league plan payer \<and>
    fd_transactions (st_fin s') = fd_transactions (st_fin s) @ rows \<and>
    map row_entry rows =
      map (\<lambda>w. (sw_userId w, PRIZE_PAYOUT, sw_prizeAmount w, Some L, Some (sr_stellarTxHash rep), Tx_CONFIRMED)) (pl_winners plan)
      @ [(payer, PLATFORM_FEE, pl_platformFee plan, Some L, Some (sr_stellarTxHash rep), Tx_CONFIRMED)] \<and>
    (find (\<lambda>j. jr_settlementKey j = L) (st_journal s) = None \<longrightarrow>
      (\<exists>f. as_number (lg_entryFee league) = Some f \<and>
         (\<Sum>t\<leftarrow>rows. tx_amount t) = of_nat (length (paid_members as_number s league)) * (of_int (js_round (f * 100)) / 100))) \<and>
    completed s' L"
proof -
  obtain plan payer h seq s1 where st: "lg_status league \<noteq> COMPLETED" and plan: "settles env as_number s L admin league plan payer"
    and s1: "st_fin s1 = st_fin s" "s' = commitSettlement now L payer plan h seq s1" "rep = settlement_report_of L plan h seq"
    using execute_success [OF assms(1-3)] by blast
  let ?rows = "settlement_rows now L payer plan h seq"
  have league: "league \<in> set (ld_leagues (st_leagues s1))" "lg_id league = L"
    using assms(2) s1(1) by (auto simp: findLeague_def dest: find_SomeD)
  then have nc: "\<not> completed s1 L" using st by (auto simp: completed_def)
  then have "list_ex (\<lambda>l. lg_id l = L \<and> lg_status l \<noteq> COMPLETED) (ld_leagues (st_leagues s1))" by (auto simp: completed_def list_ex_iff)
  then have "fd_transactions (st_fin s') = fd_transactions (st_fin s) @ ?rows" by (simp add: s1 commitSettlement_def Let_def)
  moreover have "map row_entry ?rows =
      map (\<lambda>w. (sw_userId w, PRIZE_PAYOUT, sw_prizeAmount w, Some L, Some (sr_stellarTxHash rep), Tx_CONFIRMED)) (pl_winners plan)
      @ [(payer, PLATFORM_FEE, pl_platformFee plan, Some L, Some (sr_stellarTxHash rep), Tx_CONFIRMED)]"
    by (simp add: row_entry_def settlement_rows_def settlement_row_def s1(3) settlement_report_of_def)
  moreover have "\<exists>f. as_number (lg_entryFee league) = Some f \<and>
      (\<Sum>t\<leftarrow>?rows. tx_amount t) = of_nat (length (paid_members as_number s league)) * (of_int (js_round (f * 100)) / 100)"
    if "find (\<lambda>j. jr_settlementKey j = L) (st_journal s) = None"
  proof -
    have p: "prepareSettlement env as_number s L (Some (lg_creatorId league)) = Inr plan" "pl_canSettle plan"
      using plan by (simp_all add: settles_def that)
    have "(\<Sum>t\<leftarrow>?rows. tx_amount t) = pl_grossPool plan"
      using plan_cents [OF p assms(2,4)] by (auto simp: settlement_rows_def settlement_row_def o_def)
    then show ?thesis using plan_gross [OF p assms(2)] by simp
  qed
  moreover have "completed s' L" unfolding s1(2) using commit_rows_of(2) [OF nc] by simp
  ultimately show ?thesis using plan
    by (intro exI [of _ plan] exI [of _ payer] exI [of _ ?rows] conjI impI)
qed

section \<open>A settled league\<close>

text \<open>Three paid members, the first two with equal points, at a fee of five: the pool of 14.25 goes out as 6.41, 6.41 and 1.43.\<close>

definition settle_demo_member :: "string \<Rightarrow> league_member" where
  "settle_demo_member i = (refund_demo_member i PAYMENT_CONFIRMED)\<lparr>lm_status := Member_ACTIVE\<rparr>"

definition settle_demo :: settle_db where
  "settle_demo = \<lparr>st_fin = refund_demo_wallets\<lparr>fd_leagues := \<lparr>ld_users = [], ld_squads = [],
       ld_gameweeks = [\<lparr>lgw_id = 2, lgw_fplId = 2, lgw_name = ''GW'', lgw_deadline = 0, lgw_isFinished = True, lgw_kickoffs = []\<rparr>],
       ld_leagues = [refund_demo_league\<lparr>lg_status := ACTIVE\<rparr>],
       ld_members = map settle_demo_member [''m1'', ''m2'', ''m3''],
       ld_invitations = [], ld_fixtures = [], ld_nextId = 0, ld_squadScores = [], ld_leagueScores = []\<rparr>\<rparr>,
     st_admins = [''admin''], st_points = [(''m1'', 10), (''m2'', 10), (''m3'', 5)], st_journal = [], st_tracked = []\<rparr>"

definition settle_demo_env :: settle_env where
  "settle_demo_env = \<lparr>sv_settle = (\<lambda>cid ws fee bps. ([(''h'', ''xdr'')],
       \<lambda>_. SettleReturned \<lparr>so_success = True, so_txHash = Some ''h'', so_ledgerSeq = Some 7, so_error = None\<rparr>)),
     sv_status = (\<lambda>_. Inr (''SUCCESS'', None)), sv_resume = (\<lambda>_. Inr (True, None)), sv_valid = (\<lambda>a. a \<noteq> []), sv_digest = (\<lambda>_. ''d'')\<rparr>"

definition settle_demo_plan :: settlement_plan where
  "settle_demo_plan = projr (prepareSettlement settle_demo_env Some settle_demo refund_demo_id None)"

lemma settle_demo_league: "findLeague (st_leagues settle_demo) refund_demo_id = Some (refund_demo_league\<lparr>lg_status := ACTIVE\<rparr>)"
  by (simp add: settle_demo_def findLeague_def refund_demo_league_def)

lemma settle_demo_cut: "\<not> zero_weight_cut (plan_options (refund_demo_league\<lparr>lg_status := ACTIVE\<rparr>)) n"
  by (simp add: zero_weight_cut_def plan_options_def refund_demo_league_def)

lemma settle_demo_users: "distinct (map lm_userId (league_rows (st_fin settle_demo) refund_demo_id))"
  by (simp add: settle_demo_def league_rows_def settle_demo_member_def refund_demo_member_def)

theorem settlement_plan_exact_and_fair_witness:
  "\<not> isl (prepareSettlement settle_demo_env Some settle_demo refund_demo_id None) \<and>
   map sw_prizeAmount (pl_winners settle_demo_plan) = [641 / 100, 641 / 100, 143 / 100] \<and>
   (\<Sum>w\<leftarrow>pl_winners settle_demo_plan. sw_prizeAmount w) = pl_netPrizePool settle_demo_plan"
proof -
  have p: "\<not> isl (prepareSettlement settle_demo_env Some settle_demo refund_demo_id None)" "pl_canSettle settle_demo_plan"
    and a: "map sw_prizeAmount (pl_winners settle_demo_plan) = [641 / 100, 641 / 100, 143 / 100]" by code_simp+
  from p(1) have "prepareSettlement settle_demo_env Some settle_demo refund_demo_id None = Inr settle_demo_plan"
    by (auto simp: settle_demo_plan_def)
  from settlement_plan_exact_and_fair [OF this p(2) settle_demo_league settle_demo_users settle_demo_cut] show ?thesis using p(1) a by simp
qed

lemma settle_demo_ledger: "ledger_ok settle_demo"
  by (simp add: ledger_ok_def settlement_rows_of_def settle_demo_def refund_demo_wallets_def refund_demo_paid_def refund_demo_def)

theorem settlement_recorded_once_witness:
  "\<exists>now admin plan h seq.
     settlement_rows_of (foldl (\<lambda>s op. apply_settle_op settle_demo_env Some op s) settle_demo
         [Execute 1 refund_demo_id ''admin'', RecoverAll 2, Execute 3 refund_demo_id ''admin'']) refund_demo_id =
       settlement_rows now refund_demo_id admin plan h seq"
proof -
  let ?s = "foldl (\<lambda>s op. apply_settle_op settle_demo_env Some op s) settle_demo
         [Execute 1 refund_demo_id ''admin'', RecoverAll 2, Execute 3 refund_demo_id ''admin'']"
  have "settlement_rows_of ?s refund_demo_id \<noteq> []" by code_simp
  then show ?thesis using settlement_recorded_once [OF settle_demo_ledger, of settle_demo_env Some
      "[Execute 1 refund_demo_id ''admin'', RecoverAll 2, Execute 3 refund_demo_id ''admin'']" refund_demo_id] by blast
qed

theorem no_settlement_with_decimals_witness:
  "isl (fst (executeSettlement settle_demo_env (\<lambda>_. None) 1 refund_demo_id ''admin'' settle_demo)) \<and>
   \<not> isl (fst (executeSettlement settle_demo_env Some 1 refund_demo_id ''admin'' settle_demo))"
proof
  show "isl (fst (executeSettlement settle_demo_env (\<lambda>_. None) 1 refund_demo_id ''admin'' settle_demo))"
    using no_settlement_with_decimals [of settle_demo refund_demo_id settle_demo_env 1 "''admin''"] by (simp add: settle_demo_def)
  show "\<not> isl (fst (executeSettlement settle_demo_env Some 1 refund_demo_id ''admin'' settle_demo))" by code_simp
qed

theorem executed_settlement_balances_witness:
  "\<exists>(plan :: settlement_plan) rows. fd_transactions (st_fin (snd (executeSettlement settle_demo_env Some 1 refund_demo_id ''admin'' settle_demo))) =
       fd_transactions (st_fin settle_demo) @ rows \<and> (\<Sum>t\<leftarrow>rows. tx_amount t) = 15 \<and>
       map tx_userId rows = map sw_userId (pl_winners plan) @ [''admin'']"
proof -
  let ?p = "executeSettlement settle_demo_env Some 1 refund_demo_id ''admin'' settle_demo"
  let ?l = "refund_demo_league\<lparr>lg_status := ACTIVE\<rparr>"
  have ok: "\<not> isl (fst ?p)" and n: "length (paid_members Some settle_demo ?l) = 3" by code_simp+
  have r: "js_round 500 = 500" by code_simp
  obtain rep where rep: "?p = (Inr rep, snd ?p)" using ok by (metis isl_def prod.collapse sum.exhaust)
  have j: "find (\<lambda>j. jr_settlementKey j = refund_demo_id) (st_journal settle_demo) = None" by (simp add: settle_demo_def)
  have "\<forall>j \<in> set (st_journal settle_demo). jr_leagueId j = jr_settlementKey j" by (simp add: settle_demo_def)
  from executed_settlement_balances [OF rep settle_demo_league this settle_demo_cut]
  obtain plan payer rows where t: "settles settle_demo_env Some settle_demo refund_demo_id ''admin'' ?l plan payer"
    "fd_transactions (st_fin (snd ?p)) = fd_transactions (st_fin settle_demo) @ rows"
    "map row_entry rows = map (\<lambda>w. (sw_userId w, PRIZE_PAYOUT, sw_prizeAmount w, Some refund_demo_id, Some (sr_stellarTxHash rep), Tx_CONFIRMED))
        (pl_winners plan) @ [(payer, PLATFORM_FEE, pl_platformFee plan, Some refund_demo_id, Some (sr_stellarTxHash rep), Tx_CONFIRMED)]"
    "(\<Sum>t\<leftarrow>rows. tx_amount t) = of_nat 3 * (of_int (js_round (lg_entryFee ?l * 100)) / 100)"
    by (auto simp: j n)
  have "map tx_userId rows = map fst (map row_entry rows)" by (simp add: row_entry_def)
  then have "map tx_userId rows = map sw_userId (pl_winners plan) @ [payer]" unfolding t(3) by simp
  moreover have "payer = ''admin''" using t(1) by (simp add: settles_def j)
  moreover have "(\<Sum>t\<leftarrow>rows. tx_amount t) = 15" using t(4) r by (simp add: refund_demo_league_def)
  ultimately show ?thesis using t(2) by (intro exI [of _ plan] exI [of _ rows] conjI) simp_all
qed

theorem season_end_blocks_settlement_witness:
  "\<exists>db' s1. handleSettleLeagues demo_classic 2 = (db', None) \<and> fd_leagues (st_fin s1) = db' \<and>
     executeSettlement settle_demo_env Some 1 ''L'' ''admin'' s1 = (Inl AlreadyExecuted, s1)"
proof -
  let ?s = "settle_demo\<lparr>st_fin := (st_fin settle_demo)\<lparr>fd_leagues := demo_classic\<rparr>\<rparr>" and ?l = "hd (ld_leagues demo_classic)"
  have "ld_leagues demo_classic \<noteq> []" by code_simp
  then have l: "?l \<in> set (ld_leagues (st_leagues ?s))" by simp
  have k: "keys_ok demo_classic" "distinct (map lg_id (ld_leagues demo_classic))" "lg_status ?l = ACTIVE"
    "lg_startGameweekId ?l \<le> 2" "lg_endGameweekId ?l = 2" and i: "lg_id ?l = ''L''" by code_simp+
  have "\<exists>db' s1. handleSettleLeagues (st_leagues ?s) 2 = (db', None) \<and> s1 = ?s\<lparr>st_fin := (st_fin ?s)\<lparr>fd_leagues := db'\<rparr>\<rparr> \<and>
    executeSettlement settle_demo_env Some 1 (lg_id ?l) ''admin'' s1 = (Inl AlreadyExecuted, s1) \<and>
    settlement_rows_of (snd (recoverPendingSettlements settle_demo_env 1 s1)) (lg_id ?l) = settlement_rows_of ?s (lg_id ?l)"
    using k by (intro season_end_blocks_settlement [OF _ _ l]) simp_all
  then show ?thesis unfolding i by (elim exE conjE) (intro exI conjI, simp_all)
qed

end
