(* ===== verification/Spec2Isabelle.thy ===== *)
theory Spec2Isabelle
  imports Prizes Scoring Formation_Solver Bonus_Points Merkle Audit_Bundle Swiss Squad_Service Knockout Playoffs League_Standings League_Tiers Refund_Progress Settlement
begin

text \<open>
  A verification of the game logic of FantasyXI, a fantasy-football platform. The repository
  holds a TypeScript backend (\<open>backend/src\<close>: Express controllers over services over a Postgres database
  read through Prisma), a Next.js frontend (\<open>frontend/src\<close>) and a Soroban escrow contract in Rust
  (\<open>contracts\<close>). Managers pick squads, squads are scored gameweek by gameweek, leagues rank the squads and
  pay prizes, and tournaments pair managers with each other. The development models these services, from
  the source and operation by operation, and proves what makes them correct.

  \<^bold>\<open>Conventions.\<close> A service class with a database is a record of tables (lists of row records) passed
  through its operations. An exception is \<open>Inl\<close> of an error datatype with one constructor per
  \<open>throw\<close>; \<open>res_bind\<close> is the propagation. JavaScript numbers that hold money, prices or points are
  \<open>int\<close> or \<open>rat\<close>, with \<open>NaN\<close> as \<open>None\<close> where the code can produce it; \<open>Math.round\<close>,
  \<open>Math.floor\<close> and the stable \<open>Array.prototype.sort\<close> with a comparator are definitions of the prelude.
  A JavaScript \<open>Map\<close> is an association list in insertion order. What a service reads from outside its
  transaction (the clock, an earlier state of the database, random bytes, freshly drawn keys) is an
  argument, and so are the answers of the contract client in the financial services, whose theorems hold for
  every answer. SHA-256, XDR encoding and \<open>localeCompare\<close> are parameters with their documented behaviour as
  hypotheses.

  \<^bold>\<open>The theories.\<close>

  \<^item> \<open>FX_Prelude\<close>, \<open>FX_Strings\<close>: the pieces of JavaScript the services use (slices, insertion-ordered
    maps, stable sorting with three-way comparators, rounding, decimal printing) and their lemmas.
  \<^item> \<open>Prizes\<close> (\<open>services/league/prizeService.ts\<close>): presets, split validation, cent-exact payouts and the
    encodings for the contract. No cent is lost or created; the encoding is exact; the inputs that give
    \<open>NaN\<close> are characterised.
  \<^item> \<open>Squad_Rules\<close> (\<open>services/squad/squadValidator.ts\<close>, \<open>deadlineGuard.ts\<close>): the validator
    against a declarative definition of a legal squad.
  \<^item> \<open>Scoring_Config\<close> (\<open>models/leagueScoringConfig.ts\<close>): the strict parser of custom scoring rules;
    it accepts exactly the objects of canonical configurations and returns their numbers unchanged.
  \<^item> \<open>Scoring\<close> (\<open>services/scoring/scoringService.ts\<close>): automatic substitutions, captaincy, the compiled
    scorers with their bounded cache, and the persisted squad and league scores.
  \<^item> \<open>Formation_Solver\<close> (\<open>formationSolver.ts\<close>) and \<open>Bonus_Points\<close> (\<open>provisionalBps.ts\<close>).
  \<^item> \<open>Squad_Service\<close> (\<open>services/squad/squadService.ts\<close>): creating and updating squads, transfers, chips
    with their snapshots; the deadline re-check before the commit, the conservation of the team value, the
    transfer costs, and an invariant of all reachable states.
  \<^item> \<open>Merkle\<close> (\<open>services/financial/merkleTree.ts\<close>, \<open>settlementProof.ts\<close>) and \<open>Audit_Bundle\<close>
    (\<open>services/league/leagueAuditExporter.ts\<close>): both hash trees are complete, and sound as long as the
    hash function separates the finitely many texts that were hashed.
  \<^item> \<open>Swiss\<close> (\<open>services/league/swissTournamentEngine.ts\<close>): pairing by backtracking, byes, standings and
    the round life cycle.
  \<^item> \<open>Round_Robin\<close> and \<open>Knockout\<close> (\<open>services/league/tournamentService.ts\<close> and the schedule generator of
    \<open>leagueService.ts\<close>): the circle method, proved once in the locale \<open>circle_schedule\<close> and used for both
    generators; seeding, byes, tie-breaks, and that every cup ends with a champion.
  \<^item> \<open>Leagues\<close>, \<open>League_Lifecycle\<close> (\<open>services/league/leagueService.ts\<close>): creating and joining leagues,
    invitations, the life cycle and the listings. Histories of requests are a rule-defined set of runs, with
    interleaved or serial reads: invitations are never overspent however requests interleave, while the
    member counts hold for serial runs only; activation gives everyone a match in every gameweek.
  \<^item> \<open>League_Tables\<close>, \<open>Playoffs\<close> (\<open>leagueService.ts\<close>, \<open>jobs/gameweekSettlement.ts\<close>): the counters of the
    head-to-head table against the results they stand for, stored ranks against the official table, and the
    playoffs, which end with a champion in the last gameweek of the league.
  \<^item> \<open>League_Standings\<close> (\<open>leagueService.ts\<close>, \<open>services/events/gameweekEventHandlers.ts\<close>): the standings of a
    league, the bulk recalculation of the stored totals and how the two differ, the review of suspicious
    results, and the handler that settles and completes leagues.
  \<^item> \<open>League_Tiers\<close> (\<open>leagueService.ts\<close>, \<open>controllers/leagueAdmin.controller.ts\<close>): the ladder of league tiers.
    The end of a season ranks every tier by an order stated without the code's lists and moves its first and last;
    the request that creates tiers refuses the first tier of every ladder.
  \<^item> \<open>Audit_Log\<close> (\<open>services/audit/financialAuditLog.ts\<close>): the buffered audit log as a state machine over calls,
    timers and answers of the database; entries keep their order, the missing ones are counted, and what is
    buffered is written once the database accepts it.
  \<^item> \<open>Dead_Letters\<close> (\<open>services/financial/payoutDeadLetterService.ts\<close>), \<open>Refunds\<close> and \<open>Refund_Progress\<close>
    (\<open>financialService.ts\<close>, \<open>payoutDeadLetterWorker.ts\<close>, \<open>jobs/leagueRefunds.ts\<close>): failed payouts, their
    classification, claims and retries (a claim excludes others until a result is reported); refunds of cancelled leagues, recorded once in every serial history
    and twice when two runs overlap; everyone due is refunded or in the queue, automatic attempts are bounded,
    and a run completes when the contract accepts the calls.
  \<^item> \<open>Settlement\<close> (\<open>financialService.ts\<close>): the prize plan with its tie groups, the journal written before a
    submission, recovery and the ledger rows. Plans are exact and fair, ledger rows are written once and balance
    with the deposits; two theorems show why settlements do not run as the code stands.

  \<^bold>\<open>Loops.\<close> Every loop is a total function: structural recursion over the list or the number of
  rounds, or a measure (the backtracking search of the Swiss engine over the players left, the seeding
  loop over the missing places, the halving loop of the playoff bracket, the tie groups of a prize plan). No fuel is used; the functions that
  run a cup or the playoffs to the end take the number of rounds, and the theorems show that it is enough.

  \<^bold>\<open>Not modelled.\<close> The manifest lists every part. The query-string parser in \<open>leagueService.ts\<close>,
  the deposits and their reconciliation in \<open>financialService.ts\<close>, the clients of the Stellar network, the FPL
  synchronisation and the live services are the next parts with logic of their own. User and squad names carried along for display are left out. The
  HTTP and GraphQL layer, jobs, queues, sockets, e-mail, chat, telemetry and the frontend are input,
  output and presentation around the services. Authentication rests on cryptographic libraries. The
  contract is not TypeScript. Floating-point rounding inside \<open>number\<close> arithmetic is not modelled: amounts are
  exact rationals rounded where the code rounds.
\<close>

end
